(* ===== verification/C2pa_Prelude.thy ===== *)
theory C2pa_Prelude
  imports Main "HOL-Library.Word" "HOL-Library.List_Lexorder" "HOL-Library.Sublist"
begin

text \<open>
  Shared vocabulary of the development: the machine types of the Rust sources, fallible results,
  checked machine arithmetic, slices and big/little-endian integers, together with the generic
  lemmas the component theories use.

  Conventions. A \<open>u8\<close> is an \<open>8 word\<close>, a \<open>&[u8]\<close> or \<open>Vec<u8>\<close> is a list of them. A \<open>usize\<close> that
  only counts or addresses bytes is a \<open>nat\<close>; where the source adds with \<open>checked_add\<close> the model
  uses \<open>checked_add\<close> below, with the 64-bit limit written out. \<open>Result<T, E>\<close> is \<open>'e + 'a\<close> with
  \<open>Inl\<close> the error, and the \<open>?\<close> operator is \<open>res_bind\<close>.
\<close>

unbundle bit_operations_syntax

type_synonym byte = "8 word"
type_synonym bytes = "8 word list"
type_synonym u16 = "16 word"
type_synonym u32 = "32 word"
type_synonym u64 = "64 word"
type_synonym usize = nat

named_theorems res_simps \<open>evaluation and inversion of fallible results\<close>
named_theorems byte_simps \<open>big-endian and little-endian integers\<close>
named_theorems slice_simps \<open>sub-slices of a byte buffer\<close>


section \<open>Definitions\<close>

subsection \<open>Results\<close>

definition res_bind :: "'e + 'a \<Rightarrow> ('a \<Rightarrow> 'e + 'b) \<Rightarrow> 'e + 'b" where
  "res_bind m f = (case m of Inl e \<Rightarrow> Inl e | Inr x \<Rightarrow> f x)"

definition ok_or :: "'a option \<Rightarrow> 'e \<Rightarrow> 'e + 'a" where
  "ok_or x e = (case x of None \<Rightarrow> Inl e | Some y \<Rightarrow> Inr y)"

definition map_err :: "('e \<Rightarrow> 'f) \<Rightarrow> 'e + 'a \<Rightarrow> 'f + 'a" where
  "map_err g m = (case m of Inl e \<Rightarrow> Inl (g e) | Inr x \<Rightarrow> Inr x)"

definition unwrap_or :: "'e + 'a \<Rightarrow> 'a \<Rightarrow> 'a" where
  "unwrap_or m d = (case m of Inl _ \<Rightarrow> d | Inr x \<Rightarrow> x)"

definition is_ok :: "'e + 'a \<Rightarrow> bool" where
  "is_ok m = (case m of Inl _ \<Rightarrow> False | Inr _ \<Rightarrow> True)"

text \<open>A \<open>for\<close> loop whose body may leave the function with \<open>?\<close>.\<close>

fun try_fold :: "('s \<Rightarrow> 'x \<Rightarrow> 'e + 's) \<Rightarrow> 's \<Rightarrow> 'x list \<Rightarrow> 'e + 's" where
  "try_fold f s [] = Inr s"
| "try_fold f s (x # xs) = res_bind (f s x) (\<lambda>s'. try_fold f s' xs)"

subsection \<open>Machine arithmetic\<close>

definition usize_max :: nat where
  "usize_max = 2 ^ 64 - 1"

definition checked_add :: "nat \<Rightarrow> nat \<Rightarrow> nat option" where
  "checked_add a b = (if a + b \<le> usize_max then Some (a + b) else None)"

subsection \<open>Slices\<close>

text \<open>\<open>slice data a b\<close> is \<open>&data[a..b]\<close>; \<open>slice_get\<close> is \<open>data.get(a..b)\<close>.\<close>

definition slice :: "'a list \<Rightarrow> nat \<Rightarrow> nat \<Rightarrow> 'a list" where
  "slice xs a b = take (b - a) (drop a xs)"

definition slice_get :: "'a list \<Rightarrow> nat \<Rightarrow> nat \<Rightarrow> 'a list option" where
  "slice_get xs a b = (if a \<le> b \<and> b \<le> length xs then Some (slice xs a b) else None)"

definition nth_opt :: "'a list \<Rightarrow> nat \<Rightarrow> 'a option" where
  "nth_opt xs i = (if i < length xs then Some (xs ! i) else None)"

text \<open>\<open>iter().position(p)\<close>.\<close>

fun position :: "('a \<Rightarrow> bool) \<Rightarrow> 'a list \<Rightarrow> nat option" where
  "position p [] = None"
| "position p (x # xs) = (if p x then Some 0 else map_option Suc (position p xs))"

subsection \<open>Fixed-width integers in byte order\<close>

fun be_val :: "bytes \<Rightarrow> nat" where
  "be_val [] = 0"
| "be_val (b # bs) = unat b * 256 ^ length bs + be_val bs"

fun be_bytes :: "nat \<Rightarrow> nat \<Rightarrow> bytes" where
  "be_bytes 0 x = []"
| "be_bytes (Suc n) x = word_of_nat (x div 256 ^ n) # be_bytes n x"

definition le_val :: "bytes \<Rightarrow> nat" where
  "le_val bs = be_val (rev bs)"

definition le_bytes :: "nat \<Rightarrow> nat \<Rightarrow> bytes" where
  "le_bytes n x = rev (be_bytes n x)"

definition ascii :: "string \<Rightarrow> bytes" where
  "ascii s = map (\<lambda>c. word_of_nat (of_char c)) s"


section \<open>Lemmas\<close>

subsection \<open>Results\<close>

lemma res_bind_Inl [simp, res_simps]: "res_bind (Inl e) f = Inl e"
  by (simp add: res_bind_def)

lemma res_bind_Inr [simp, res_simps]: "res_bind (Inr x) f = f x"
  by (simp add: res_bind_def)

lemma res_bind_ret [simp]: "res_bind m Inr = m"
  by (cases m) auto

lemma res_bind_eq_Inr [res_simps]:
  "res_bind m f = Inr y \<longleftrightarrow> (\<exists>x. m = Inr x \<and> f x = Inr y)"
  by (cases m) auto

lemma res_bind_eq_Inl [res_simps]:
  "res_bind m f = Inl e \<longleftrightarrow> m = Inl e \<or> (\<exists>x. m = Inr x \<and> f x = Inl e)"
  by (cases m) auto

lemma res_bind_cong [fundef_cong]:
  "m = m' \<Longrightarrow> (\<And>x. m' = Inr x \<Longrightarrow> f x = g x) \<Longrightarrow> res_bind m f = res_bind m' g"
  by (cases m') auto

lemma try_fold_cong [fundef_cong]:
  "s = s' \<Longrightarrow> xs = ys \<Longrightarrow> (\<And>t x. x \<in> set ys \<Longrightarrow> f t x = g t x) \<Longrightarrow>
   try_fold f s xs = try_fold g s' ys"
proof (induction ys arbitrary: xs s s')
  case (Cons y ys)
  then have "try_fold f t ys = try_fold g t ys" for t by simp
  with Cons.prems show ?case by (simp cong: res_bind_cong)
qed simp

lemma try_fold_append:
  "try_fold f s (xs @ ys) = res_bind (try_fold f s xs) (\<lambda>s'. try_fold f s' ys)"
proof (induction xs arbitrary: s)
  case (Cons x xs)
  then show ?case by (cases "f s x") auto
qed simp

lemma ok_or_simps [simp, res_simps]: "ok_or None e = Inl e" "ok_or (Some x) e = Inr x"
  by (simp_all add: ok_or_def)

lemma ok_or_eq_Inr [res_simps]: "ok_or x e = Inr y \<longleftrightarrow> x = Some y"
  by (cases x) auto

lemma ok_or_eq_Inl [res_simps]: "ok_or x e = Inl e' \<longleftrightarrow> x = None \<and> e' = e"
  by (cases x) auto

lemma map_err_simps [simp, res_simps]: "map_err g (Inl e) = Inl (g e)" "map_err g (Inr x) = Inr x"
  by (simp_all add: map_err_def)

lemma map_err_eq_Inr [res_simps]: "map_err g m = Inr y \<longleftrightarrow> m = Inr y"
  by (cases m) auto

lemma unwrap_or_simps [simp]: "unwrap_or (Inl e) d = d" "unwrap_or (Inr x) d = x"
  by (simp_all add: unwrap_or_def)

lemma is_ok_simps [simp]: "\<not> is_ok (Inl e)" "is_ok (Inr x)"
  by (simp_all add: is_ok_def)

lemma is_ok_iff: "is_ok m \<longleftrightarrow> (\<exists>x. m = Inr x)"
  by (cases m) auto

subsection \<open>Machine arithmetic\<close>

lemma checked_add_eq_Some [simp]:
  "checked_add a b = Some c \<longleftrightarrow> c = a + b \<and> a + b \<le> usize_max"
  by (auto simp: checked_add_def)

lemma checked_add_eq_None: "checked_add a b = None \<longleftrightarrow> usize_max < a + b"
  by (auto simp: checked_add_def)

subsection \<open>Slices\<close>

lemma length_slice [simp, slice_simps]: "length (slice xs a b) = min b (length xs) - a"
  by (auto simp: slice_def min_def)

lemma slice_full [simp, slice_simps]: "slice xs 0 (length xs) = xs"
  by (simp add: slice_def)

lemma slice_append_left [slice_simps]:
  "slice (xs @ ys) 0 (length xs) = xs"
  by (simp add: slice_def)

lemma slice_append_mid [slice_simps]:
  "a = length xs \<Longrightarrow> b = a + length ys \<Longrightarrow> slice (xs @ ys @ zs) a b = ys"
  by (simp add: slice_def)

lemma slice_append_end [slice_simps]:
  "a = length xs \<Longrightarrow> b = a + length ys \<Longrightarrow> slice (xs @ ys) a b = ys"
  by (simp add: slice_def)

lemma slice_concat: "a \<le> b \<Longrightarrow> b \<le> c \<Longrightarrow> slice xs a b @ slice xs b c = slice xs a c"
proof -
  assume ab: "a \<le> b" and bc: "b \<le> c"
  have "slice xs a c = take ((b - a) + (c - b)) (drop a xs)"
    using ab bc by (simp add: slice_def)
  also have "\<dots> = take (b - a) (drop a xs) @ take (c - b) (drop (b - a) (drop a xs))"
    by (rule take_add)
  finally show ?thesis using ab by (simp add: slice_def)
qed

lemma slice_slice: "i \<le> j \<Longrightarrow> j \<le> n \<Longrightarrow> slice (slice xs p (p + n)) i j = slice xs (p + i) (p + j)"
  by (simp add: slice_def drop_take min_def add.commute)

lemma slice_to_end: "length xs \<le> b \<Longrightarrow> slice xs a b = drop a xs"
  by (simp add: slice_def)

lemma take_slice_append: "a \<le> length xs \<Longrightarrow> take a xs @ slice xs a b = take (max a b) xs"
  by (auto simp: slice_def max_def take_add [symmetric])

lemma slice_get_eq_Some [simp]:
  "slice_get xs a b = Some ys \<longleftrightarrow> a \<le> b \<and> b \<le> length xs \<and> ys = slice xs a b"
  by (auto simp: slice_get_def)

lemma slice_get_eq_None: "slice_get xs a b = None \<longleftrightarrow> b < a \<or> length xs < b"
  by (auto simp: slice_get_def)

lemma nth_opt_eq_Some [simp]: "nth_opt xs i = Some x \<longleftrightarrow> i < length xs \<and> x = xs ! i"
  by (auto simp: nth_opt_def)

lemma nth_opt_eq_None [simp]: "nth_opt xs i = None \<longleftrightarrow> length xs \<le> i"
  by (auto simp: nth_opt_def)

lemma nth_opt_append_here [simp]: "nth_opt (xs @ y # ys) (length xs) = Some y"
  by (simp add: nth_opt_def)

lemma position_Some:
  "position p xs = Some i \<Longrightarrow> i < length xs \<and> p (xs ! i) \<and> (\<forall>j < i. \<not> p (xs ! j))"
proof (induction xs arbitrary: i)
  case (Cons x xs)
  show ?case
  proof (cases "p x")
    case False
    with Cons.prems obtain k where "position p xs = Some k" "i = Suc k" by auto
    with Cons.IH False show ?thesis by (auto simp: nth_Cons split: nat.splits)
  qed (use Cons.prems in auto)
qed simp

lemma position_None: "position p xs = None \<longleftrightarrow> (\<forall>x \<in> set xs. \<not> p x)"
  by (induction xs) auto

lemma position_append_first: "\<forall>x \<in> set xs. \<not> p x \<Longrightarrow> p y \<Longrightarrow> position p (xs @ y # ys) = Some (length xs)"
  by (induction xs) auto

lemma find_SomeD: "find P xs = Some x \<Longrightarrow> x \<in> set xs \<and> P x"
  by (auto simp: find_Some_iff)

subsection \<open>Byte order\<close>

lemma unat_byte_less [simp]: "unat (b :: byte) < 256"
  using unsigned_less [of b] by simp

lemma length_be_bytes [simp, byte_simps]: "length (be_bytes n x) = n"
  by (induction n) auto

lemma be_val_bound: "be_val bs < 256 ^ length bs"
proof (induction bs)
  case (Cons b bs)
  have "unat b * 256 ^ length bs + be_val bs < unat b * 256 ^ length bs + 256 ^ length bs"
    using Cons.IH by simp
  also have "\<dots> = (unat b + 1) * 256 ^ length bs" by (simp add: algebra_simps)
  also have "\<dots> \<le> 256 * 256 ^ length bs"
    using unat_byte_less [of b] by (intro mult_le_mono1) linarith
  finally show ?case by simp
qed simp

lemma be_val_be_bytes [byte_simps]: "be_val (be_bytes n x) = x mod 256 ^ n"
proof (induction n)
  case (Suc n)
  have "unat (word_of_nat (x div 256 ^ n) :: byte) = (x div 256 ^ n) mod 256"
    by (simp add: unat_of_nat)
  then have "be_val (be_bytes (Suc n) x) = ((x div 256 ^ n) mod 256) * 256 ^ n + x mod 256 ^ n"
    using Suc by simp
  also have "\<dots> = x mod (256 ^ n * 256)"
    by (simp add: mod_mult2_eq [of x "256 ^ n" 256])
  finally show ?case by (simp add: mult.commute)
qed simp

lemma be_val_be_bytes_id [simp]: "x < 256 ^ n \<Longrightarrow> be_val (be_bytes n x) = x"
  by (simp add: be_val_be_bytes)

lemma be_val_inj: "length xs = length ys \<Longrightarrow> be_val xs = be_val ys \<Longrightarrow> xs = ys"
proof (induction xs ys rule: list_induct2)
  case (Cons x xs y ys)
  have "be_val xs < 256 ^ length xs" "be_val ys < 256 ^ length xs"
    using be_val_bound Cons.hyps by metis+
  then have "unat x = (unat x * 256 ^ length xs + be_val xs) div 256 ^ length xs"
    and "unat y = (unat y * 256 ^ length xs + be_val ys) div 256 ^ length xs"
    by simp_all
  with Cons have "unat x = unat y" by simp
  with Cons show ?case by (simp add: word_unat_eq_iff)
qed simp

lemma be_bytes_be_val [simp]: "be_bytes (length bs) (be_val bs) = bs"
  by (rule be_val_inj) (simp_all add: be_val_be_bytes be_val_bound)

lemma length_le_bytes [simp, byte_simps]: "length (le_bytes n x) = n"
  by (simp add: le_bytes_def)

lemma le_val_le_bytes_id [simp]: "x < 256 ^ n \<Longrightarrow> le_val (le_bytes n x) = x"
  by (simp add: le_val_def le_bytes_def)

lemma le_val_bound: "le_val bs < 256 ^ length bs"
  using be_val_bound [of "rev bs"] by (simp add: le_val_def)

lemma length_ascii [simp]: "length (ascii s) = length s"
  by (simp add: ascii_def)

lemma less_eq_less_trans_add: "(a :: nat) + b \<le> c \<Longrightarrow> 0 < b \<Longrightarrow> a < c"
  by linarith

end
