(* ===== verification/Utf8.thy ===== *)
theory Utf8
  imports C2pa_Prelude
begin

text \<open>
  The part of the Rust string library the readers rely on: \<open>std::str::from_utf8\<close> and the scalar
  values a valid string iterates over. A \<open>String\<close> is modelled by its bytes, so \<open>utf8_valid\<close> is the
  type invariant of every text value of the development.
\<close>

section \<open>Definitions\<close>

definition cont_byte :: "byte \<Rightarrow> bool" where
  "cont_byte b \<longleftrightarrow> 0x80 \<le> b \<and> b \<le> 0xBF"

definition cont_bits :: "byte \<Rightarrow> nat" where
  "cont_bits b = unat (b AND 0x3F)"

text \<open>
  One scalar value and the rest of the input, following the table of well-formed byte sequences
  that the library's validator implements: no overlong forms, no surrogates, nothing above
  \<open>U+10FFFF\<close>.
\<close>

fun utf8_step :: "bytes \<Rightarrow> (nat \<times> bytes) option" where
  "utf8_step [] = None"
| "utf8_step (b0 # r0) =
    (if b0 < 0x80 then Some (unat b0, r0)
     else if 0xC2 \<le> b0 \<and> b0 \<le> 0xDF then
       (case r0 of
          b1 # r1 \<Rightarrow> if cont_byte b1
                     then Some (unat (b0 AND 0x1F) * 64 + cont_bits b1, r1) else None
        | _ \<Rightarrow> None)
     else if 0xE0 \<le> b0 \<and> b0 \<le> 0xEF then
       (case r0 of
          b1 # b2 # r2 \<Rightarrow>
            if cont_byte b1 \<and> cont_byte b2 \<and> (b0 = 0xE0 \<longrightarrow> 0xA0 \<le> b1) \<and> (b0 = 0xED \<longrightarrow> b1 \<le> 0x9F)
            then Some (unat (b0 AND 0x0F) * 4096 + cont_bits b1 * 64 + cont_bits b2, r2) else None
        | _ \<Rightarrow> None)
     else if 0xF0 \<le> b0 \<and> b0 \<le> 0xF4 then
       (case r0 of
          b1 # b2 # b3 # r3 \<Rightarrow>
            if cont_byte b1 \<and> cont_byte b2 \<and> cont_byte b3
               \<and> (b0 = 0xF0 \<longrightarrow> 0x90 \<le> b1) \<and> (b0 = 0xF4 \<longrightarrow> b1 \<le> 0x8F)
            then Some (unat (b0 AND 0x07) * 262144 + cont_bits b1 * 4096
                       + cont_bits b2 * 64 + cont_bits b3, r3) else None
        | _ \<Rightarrow> None)
     else None)"

lemma utf8_step_shorter:
  "utf8_step bs = Some (c, rest) \<Longrightarrow> length rest < length bs"
  by (cases bs) (auto split: if_splits list.splits)

function utf8_chars :: "bytes \<Rightarrow> nat list option" where
  "utf8_chars bs =
    (if bs = [] then Some []
     else (case utf8_step bs of
             None \<Rightarrow> None
           | Some (c, rest) \<Rightarrow> map_option (Cons c) (utf8_chars rest)))"
  by pat_completeness auto
termination
  by (relation "measure length") (auto dest: utf8_step_shorter)

declare utf8_chars.simps [simp del]

definition utf8_valid :: "bytes \<Rightarrow> bool" where
  "utf8_valid bs \<longleftrightarrow> utf8_chars bs \<noteq> None"


section \<open>Lemmas\<close>

lemma utf8_chars_Nil [simp]: "utf8_chars [] = Some []"
  by (simp add: utf8_chars.simps)

lemma utf8_chars_Cons:
  "utf8_chars (b # bs) =
    (case utf8_step (b # bs) of
       None \<Rightarrow> None
     | Some (c, rest) \<Rightarrow> map_option (Cons c) (utf8_chars rest))"
  by (subst utf8_chars.simps) simp

lemma utf8_valid_Nil [simp]: "utf8_valid []"
  by (simp add: utf8_valid_def)

lemma utf8_step_append:
  "utf8_step bs = Some (c, rest) \<Longrightarrow> utf8_step (bs @ ys) = Some (c, rest @ ys)"
  by (cases bs) (auto split: if_splits list.splits)

lemma utf8_chars_append:
  "utf8_chars xs = Some cs \<Longrightarrow> utf8_chars (xs @ ys) = map_option ((@) cs) (utf8_chars ys)"
proof (induction xs arbitrary: cs rule: utf8_chars.induct)
  case (1 xs)
  show ?case
  proof (cases xs)
    case Nil
    with "1.prems" show ?thesis by (simp add: map_option.identity)
  next
    case (Cons b bs)
    with "1.prems" obtain c rest where step: "utf8_step xs = Some (c, rest)"
      by (auto simp: utf8_chars_Cons split: option.splits)
    with "1.prems" Cons obtain cs' where rest: "utf8_chars rest = Some cs'" and cs: "cs = c # cs'"
      by (auto simp: utf8_chars_Cons)
    have "utf8_chars (rest @ ys) = map_option ((@) cs') (utf8_chars ys)"
      using "1.IH" [OF _ step refl] rest Cons by simp
    moreover have "utf8_step (b # bs @ ys) = Some (c, rest @ ys)"
      using utf8_step_append [OF step] Cons by simp
    ultimately show ?thesis
      by (cases "utf8_chars ys") (simp_all add: Cons utf8_chars_Cons cs)
  qed
qed

lemma utf8_valid_append: "utf8_valid xs \<Longrightarrow> utf8_valid ys \<Longrightarrow> utf8_valid (xs @ ys)"
  by (auto simp: utf8_valid_def utf8_chars_append)

lemma utf8_valid_ascii: "\<forall>b \<in> set bs. b < 0x80 \<Longrightarrow> utf8_valid bs"
  by (induction bs) (auto simp: utf8_valid_def utf8_chars_Cons)


section \<open>Lossy decoding\<close>

text \<open>
  \<open>String::from_utf8_lossy\<close>: each maximal prefix of a well-formed sequence that cannot be completed
  becomes one replacement character.
\<close>

fun bad_length :: "bytes \<Rightarrow> nat" where
  "bad_length [] = 0"
| "bad_length (b0 # r0) =
    (if 0xE0 \<le> b0 \<and> b0 \<le> 0xEF then
       (case r0 of
          b1 # r1 \<Rightarrow> if cont_byte b1 \<and> (b0 = 0xE0 \<longrightarrow> 0xA0 \<le> b1) \<and> (b0 = 0xED \<longrightarrow> b1 \<le> 0x9F) then 2 else 1
        | [] \<Rightarrow> 1)
     else if 0xF0 \<le> b0 \<and> b0 \<le> 0xF4 then
       (case r0 of
          b1 # r1 \<Rightarrow>
            if cont_byte b1 \<and> (b0 = 0xF0 \<longrightarrow> 0x90 \<le> b1) \<and> (b0 = 0xF4 \<longrightarrow> b1 \<le> 0x8F) then
              (case r1 of b2 # r2 \<Rightarrow> if cont_byte b2 then 3 else 2 | [] \<Rightarrow> 2)
            else 1
        | [] \<Rightarrow> 1)
     else 1)"

lemma bad_length_pos: "bs \<noteq> [] \<Longrightarrow> 0 < bad_length bs"
  by (cases bs) (auto split: list.splits)

function utf8_lossy :: "bytes \<Rightarrow> bytes" where
  "utf8_lossy bs =
    (if bs = [] then []
     else (case utf8_step bs of
             Some (c, rest) \<Rightarrow> take (length bs - length rest) bs @ utf8_lossy rest
           | None \<Rightarrow> [0xEF, 0xBF, 0xBD] @ utf8_lossy (drop (bad_length bs) bs)))"
  by pat_completeness auto
termination
proof (relation "measure length", goal_cases)
  case (2 bs)
  then have "0 < bad_length bs" "0 < length bs" using bad_length_pos [of bs] by auto
  then show ?case by simp
qed (auto dest: utf8_step_shorter)

declare utf8_lossy.simps [simp del]

lemma utf8_step_suffix: "utf8_step bs = Some (c, rest) \<Longrightarrow> \<exists>pre. bs = pre @ rest"
  by (cases bs) (auto split: if_splits list.splits)

lemma utf8_lossy_valid: "utf8_valid bs \<Longrightarrow> utf8_lossy bs = bs"
proof (induction bs rule: utf8_lossy.induct)
  case (1 bs)
  show ?case
  proof (cases "utf8_step bs")
    case None
    with "1.prems" show ?thesis
      by (cases "bs = []") (simp_all add: utf8_valid_def utf8_chars.simps [of bs] utf8_lossy.simps)
  next
    case (Some cr)
    obtain c rest where cr: "cr = (c, rest)" by (cases cr)
    with Some have ne: "bs \<noteq> []" by auto
    with "1.prems" Some cr have "utf8_valid rest"
      by (simp add: utf8_valid_def utf8_chars.simps [of bs] split: option.splits)
    moreover obtain pre where "bs = pre @ rest" using utf8_step_suffix Some cr by blast
    ultimately show ?thesis
      using "1.IH"(2) [OF ne Some cr [symmetric]] Some cr ne by (subst utf8_lossy.simps) auto
  qed
qed

end
