(* ===== verification/Cbor.thy ===== *)
theory Cbor
  imports C2pa_Prelude Utf8
begin

text \<open>
  The CBOR data model, encoder and decoder of \<^verbatim>\<open>c2pa-cbor\<close> (\<^verbatim>\<open>value.rs\<close>, \<^verbatim>\<open>lib.rs\<close>, \<^verbatim>\<open>encode.rs\<close>,
  \<^verbatim>\<open>decode.rs\<close>). The definitions follow the sources operation by operation; the theorems about them
  are in \<^verbatim>\<open>Cbor_Encoding\<close>, \<^verbatim>\<open>Cbor_Decoding\<close> and \<^verbatim>\<open>Cbor_Roundtrip\<close>.

  A text string is its UTF-8 bytes. A float is its IEEE 754 bit pattern, which is what
  \<open>f64::to_bits\<close> and \<open>f64::from_be_bytes\<close> read and write.
\<close>

section \<open>Values\<close>

datatype cbor_value =
    Integer int
  | Bytes bytes
  | Text bytes
  | Array "cbor_value list"
  | Map "(cbor_value \<times> cbor_value) list"
  | Tag u64 cbor_value
  | Bool bool
  | Null
  | Float u64

fun as_text :: "cbor_value \<Rightarrow> bytes option" where
  "as_text (Text s) = Some s"
| "as_text _ = None"

fun as_bytes :: "cbor_value \<Rightarrow> bytes option" where
  "as_bytes (Bytes b) = Some b"
| "as_bytes _ = None"

fun as_map :: "cbor_value \<Rightarrow> (cbor_value \<times> cbor_value) list option" where
  "as_map (Map m) = Some m"
| "as_map _ = None"

fun value_get :: "cbor_value \<Rightarrow> bytes \<Rightarrow> cbor_value option" where
  "value_get (Map m) key = map_option snd (find (\<lambda>(k, v). as_text k = Some key) m)"
| "value_get _ key = None"


section \<open>Profiles\<close>

datatype profile =
    LegacyC2paRs0784Indefinite
  | LegacyPipelineBDefinite
  | CanonicalForHashedSubstructures

definition indefinite :: "profile \<Rightarrow> bool" where
  "indefinite p \<longleftrightarrow> p = LegacyC2paRs0784Indefinite"

definition sort_keys :: "profile \<Rightarrow> bool" where
  "sort_keys p \<longleftrightarrow> p = CanonicalForHashedSubstructures"

definition map_from_pairs :: "(bytes \<times> cbor_value) list \<Rightarrow> cbor_value" where
  "map_from_pairs pairs = Map (map (\<lambda>(k, v). (Text k, v)) pairs)"


section \<open>Encoder\<close>

datatype encode_error = NonFiniteFloat

definition MT_UINT :: byte where "MT_UINT = push_bit 5 0"
definition MT_NINT :: byte where "MT_NINT = push_bit 5 1"
definition MT_BYTES :: byte where "MT_BYTES = push_bit 5 2"
definition MT_TEXT :: byte where "MT_TEXT = push_bit 5 3"
definition MT_ARRAY :: byte where "MT_ARRAY = push_bit 5 4"
definition MT_MAP :: byte where "MT_MAP = push_bit 5 5"
definition MT_TAG :: byte where "MT_TAG = push_bit 5 6"
definition MT_SIMPLE :: byte where "MT_SIMPLE = push_bit 5 7"

definition write_head :: "bytes \<Rightarrow> byte \<Rightarrow> u64 \<Rightarrow> bytes" where
  "write_head out mt arg =
    (if arg < 24 then out @ [mt OR ucast arg]
     else if arg \<le> 0xFF then out @ [mt OR 24] @ [ucast arg]
     else if arg \<le> 0xFFFF then out @ [mt OR 25] @ be_bytes 2 (unat (ucast arg :: u16))
     else if arg \<le> 0xFFFFFFFF then out @ [mt OR 26] @ be_bytes 4 (unat (ucast arg :: u32))
     else out @ [mt OR 27] @ be_bytes 8 (unat arg))"

text \<open>\<open>n as u64\<close> keeps the low 64 bits of an \<open>i128\<close>.\<close>

definition encode_int :: "bytes \<Rightarrow> int \<Rightarrow> bytes" where
  "encode_int out n =
    (if 0 \<le> n then write_head out MT_UINT (word_of_int n)
     else write_head out MT_NINT (word_of_int (- 1 - n)))"

definition float_is_finite :: "u64 \<Rightarrow> bool" where
  "float_is_finite f \<longleftrightarrow> drop_bit 52 f AND 0x7FF \<noteq> 0x7FF"

text \<open>
  \<open>BTreeMap::insert\<close> on an association list kept in ascending key order: an equal key has its value
  replaced.
\<close>

fun btree_insert :: "'k::linorder \<Rightarrow> 'v \<Rightarrow> ('k \<times> 'v) list \<Rightarrow> ('k \<times> 'v) list" where
  "btree_insert k v [] = [(k, v)]"
| "btree_insert k v ((k', v') # m) =
    (if k < k' then (k, v) # (k', v') # m
     else if k = k' then (k, v) # m
     else (k', v') # btree_insert k v m)"

definition sort_key :: "bytes \<Rightarrow> bytes" where
  "sort_key enc = be_bytes 8 (length enc) @ enc"

text \<open>
  \<open>canonical_sort\<close> with the encoder of the keys as a parameter; \<open>encode_into\<close> and this function call
  each other in the source.
\<close>

definition canonical_sort_with :: "('k \<Rightarrow> bytes) \<Rightarrow> ('k \<times> 'v) list \<Rightarrow> ('k \<times> 'v) list" where
  "canonical_sort_with enc entries =
     map snd (foldl (\<lambda>keyed (k, v). btree_insert (sort_key (enc k)) (k, v) keyed) [] entries)"

lemma set_btree_insert: "set (btree_insert k v m) \<subseteq> insert (k, v) (set m)"
  by (induction m) (auto split: if_splits)

lemma foldl_btree_insert_subset:
  "set (foldl (\<lambda>keyed (k, v). btree_insert (sort_key (enc k)) (k, v) keyed) acc es)
     \<subseteq> set acc \<union> (\<lambda>(k, v). (sort_key (enc k), (k, v))) ` set es"
proof (induction es arbitrary: acc)
  case (Cons e es)
  obtain k v where e: "e = (k, v)" by (cases e)
  show ?case
    using Cons.IH [of "btree_insert (sort_key (enc k)) (k, v) acc"]
      set_btree_insert [of "sort_key (enc k)" "(k, v)" acc]
    unfolding e by auto
qed simp

lemma canonical_sort_with_subset: "set (canonical_sort_with enc es) \<subseteq> set es"
  using foldl_btree_insert_subset [of enc "[]" es] by (force simp: canonical_sort_with_def)

lemma canonical_sort_with_cong [fundef_cong]:
  assumes "es = es'" and "\<And>k v. (k, v) \<in> set es' \<Longrightarrow> f k = g k"
  shows "canonical_sort_with f es = canonical_sort_with g es'"
  unfolding canonical_sort_with_def using assms
  by (auto intro!: arg_cong [where f = "map snd"] foldl_cong)

lemma size_item: "x \<in> set xs \<Longrightarrow> size x < Suc (size_list size xs)"
  by (induction xs) auto

lemma size_entry:
  "(k, v) \<in> set es \<Longrightarrow> size k + size v < Suc (size_list (size_prod size size) es)"
  by (induction es) auto

lemma size_sorted_entry:
  assumes "(k, v) \<in> set (canonical_sort_with f es)"
  shows "size k + size v < Suc (size_list (size_prod size size) es)"
  using assms canonical_sort_with_subset size_entry by blast

function (sequential) encode_into :: "bytes \<Rightarrow> cbor_value \<Rightarrow> profile \<Rightarrow> encode_error + bytes" where
  "encode_into out (Integer n) p = Inr (encode_int out n)"
| "encode_into out (Bytes b) p = Inr (write_head out MT_BYTES (of_nat (length b)) @ b)"
| "encode_into out (Text s) p = Inr (write_head out MT_TEXT (of_nat (length s)) @ s)"
| "encode_into out (Array items) p =
    (if indefinite p then
       res_bind (try_fold (\<lambda>o1 item. encode_into o1 item p) (out @ [MT_ARRAY OR 31]) items)
         (\<lambda>o2. Inr (o2 @ [0xFF]))
     else
       try_fold (\<lambda>o1 item. encode_into o1 item p)
         (write_head out MT_ARRAY (of_nat (length items))) items)"
| "encode_into out (Map entries0) p =
    (let entries = (if sort_keys p
                    then canonical_sort_with
                           (\<lambda>k. unwrap_or (encode_into [] k CanonicalForHashedSubstructures) []) entries0
                    else entries0)
     in if indefinite p then
          res_bind (try_fold (\<lambda>o1 (k, v). res_bind (encode_into o1 k p) (\<lambda>o2. encode_into o2 v p))
                      (out @ [MT_MAP OR 31]) entries)
            (\<lambda>o3. Inr (o3 @ [0xFF]))
        else
          try_fold (\<lambda>o1 (k, v). res_bind (encode_into o1 k p) (\<lambda>o2. encode_into o2 v p))
            (write_head out MT_MAP (of_nat (length entries))) entries)"
| "encode_into out (Tag tag inner) p = encode_into (write_head out MT_TAG tag) inner p"
| "encode_into out (Bool b) p = Inr (out @ [MT_SIMPLE OR (if b then 21 else 20)])"
| "encode_into out Null p = Inr (out @ [MT_SIMPLE OR 22])"
| "encode_into out (Float f) p =
    (if sort_keys p \<and> \<not> float_is_finite f then Inl NonFiniteFloat
     else Inr (out @ [MT_SIMPLE OR 27] @ be_bytes 8 (unat f)))"
  by pat_completeness auto
termination
  by (relation "measure (\<lambda>(out, v, p). size v)")
    (auto dest!: size_item size_entry size_sorted_entry split: if_splits)

definition encode :: "cbor_value \<Rightarrow> profile \<Rightarrow> encode_error + bytes" where
  "encode v p = encode_into [] v p"

definition canonical_sort :: "(cbor_value \<times> cbor_value) list \<Rightarrow> (cbor_value \<times> cbor_value) list" where
  "canonical_sort =
     canonical_sort_with (\<lambda>k. unwrap_or (encode k CanonicalForHashedSubstructures) [])"

text \<open>The digest is a parameter: SHA-256 is a third-party crate.\<close>

definition canonical_sha256 :: "(bytes \<Rightarrow> bytes) \<Rightarrow> cbor_value \<Rightarrow> encode_error + bytes" where
  "canonical_sha256 sha256 v =
     res_bind (encode v CanonicalForHashedSubstructures) (\<lambda>bs. Inr (sha256 bs))"


section \<open>Decoder\<close>

datatype decode_error =
    Eof nat
  | Unsupported byte byte
  | DepthExceeded
  | NodeLimitExceeded nat
  | LengthOverflow u64
  | Trailing nat

definition MAX_DEPTH :: nat where "MAX_DEPTH = 64"
definition MAX_VALUE_NODES :: nat where "MAX_VALUE_NODES = 2 ^ 20"

record parser =
  p_data :: bytes
  p_pos :: nat
  remaining_nodes :: nat
  node_limit :: nat

text \<open>
  A parser method takes \<open>&mut self\<close> and may fail: the updated state comes back in both cases, since
  the caller reads \<open>remaining_nodes\<close> after an error too.
\<close>

type_synonym 'a parse = "parser \<Rightarrow> (decode_error + 'a) \<times> parser"

definition p_ret :: "'a \<Rightarrow> 'a parse" where
  "p_ret x p = (Inr x, p)"

definition p_lift :: "decode_error + 'a \<Rightarrow> 'a parse" where
  "p_lift r p = (r, p)"

definition p_bind :: "'a parse \<Rightarrow> ('a \<Rightarrow> 'b parse) \<Rightarrow> 'b parse" where
  "p_bind m f p = (case m p of (Inl e, p') \<Rightarrow> (Inl e, p') | (Inr x, p') \<Rightarrow> f x p')"

lemma p_bind_cong [fundef_cong]:
  "p = p' \<Longrightarrow> m p' = m' p' \<Longrightarrow> (\<And>x q. m' p' = (Inr x, q) \<Longrightarrow> f x q = g x q) \<Longrightarrow>
   p_bind m f p = p_bind m' g p'"
  by (auto simp: p_bind_def split: prod.splits sum.splits)

definition length_to_usize_with_max :: "u64 \<Rightarrow> nat \<Rightarrow> decode_error + nat" where
  "length_to_usize_with_max len mx =
     (if unat len > mx then Inl (LengthOverflow len) else Inr (unat len))"

definition length_to_usize :: "u64 \<Rightarrow> decode_error + nat" where
  "length_to_usize len = length_to_usize_with_max len usize_max"

definition p_byte :: "byte parse" where
  "p_byte p =
     (case nth_opt (p_data p) (p_pos p) of
        None \<Rightarrow> (Inl (Eof (p_pos p)), p)
      | Some b \<Rightarrow> (Inr b, p\<lparr>p_pos := p_pos p + 1\<rparr>))"

definition p_take :: "nat \<Rightarrow> bytes parse" where
  "p_take n p =
     (case checked_add (p_pos p) n of
        None \<Rightarrow> (Inl (LengthOverflow (of_nat n)), p)
      | Some e \<Rightarrow>
          if e > length (p_data p) then (Inl (LengthOverflow (of_nat n)), p)
          else (Inr (slice (p_data p) (p_pos p) e), p\<lparr>p_pos := e\<rparr>))"

definition argument :: "byte \<Rightarrow> u64 option parse" where
  "argument ai =
     (if ai \<le> 23 then p_ret (Some (ucast ai))
      else if ai = 24 then p_bind p_byte (\<lambda>b. p_ret (Some (ucast b)))
      else if ai = 25 then p_bind (p_take 2) (\<lambda>b. p_ret (Some (of_nat (be_val b))))
      else if ai = 26 then p_bind (p_take 4) (\<lambda>b. p_ret (Some (of_nat (be_val b))))
      else if ai = 27 then p_bind (p_take 8) (\<lambda>b. p_ret (Some (of_nat (be_val b))))
      else if ai = 31 then p_ret None
      else p_lift (Inl (Unsupported 0xFF ai)))"

definition claim_node :: "nat \<Rightarrow> unit parse" where
  "claim_node depth p =
     (if depth > MAX_DEPTH then (Inl DepthExceeded, p)
      else if remaining_nodes p = 0 then (Inl (NodeLimitExceeded (node_limit p)), p)
      else (Inr (), p\<lparr>remaining_nodes := remaining_nodes p - 1\<rparr>))"

text \<open>\<open>if *self.data.get(self.pos).ok_or(Eof(self.pos))? == 0xff { self.pos += 1; break }\<close>\<close>

definition at_break :: "bool parse" where
  "at_break p =
     (case nth_opt (p_data p) (p_pos p) of
        None \<Rightarrow> (Inl (Eof (p_pos p)), p)
      | Some b \<Rightarrow> if b = 0xFF then (Inr True, p\<lparr>p_pos := p_pos p + 1\<rparr>) else (Inr False, p))"

text \<open>Floats: exact powers of two, in the binary64 encoding.\<close>

fun log2_nat :: "nat \<Rightarrow> nat" where
  "log2_nat n = (if n < 2 then 0 else Suc (log2_nat (n div 2)))"

declare log2_nat.simps [simp del]

definition f64_exact :: "nat \<Rightarrow> int \<Rightarrow> u64" where
  "f64_exact m e =
     (if m = 0 then 0
      else let k = log2_nat m
           in of_int ((int k + e + 1023) * 2 ^ 52 + int ((m - 2 ^ k) * 2 ^ (52 - k))))"

definition f64_neg :: "u64 \<Rightarrow> u64" where
  "f64_neg v = v XOR push_bit 63 1"

definition half_to_f64 :: "u16 \<Rightarrow> u64" where
  "half_to_f64 half =
     (let sign = drop_bit 15 half AND 1;
          ex = drop_bit 10 half AND 0x1F;
          mant = half AND 0x3FF;
          val = (if ex = 0 then f64_exact (unat mant) (- 24)
                 else if ex = 31 then (if mant = 0 then 0x7FF0000000000000 else 0x7FF8000000000000)
                 else f64_exact (1024 + unat mant) (int (unat ex) - 25))
      in if sign = 1 then f64_neg val else val)"

text \<open>
  \<open>f32 as f64\<close> is exact on numbers; on a NaN the sign and the payload are kept and the quiet bit
  is set, as the hardware conversions do.
\<close>

definition f32_to_f64 :: "u32 \<Rightarrow> u64" where
  "f32_to_f64 f =
     (let ex = drop_bit 23 f AND 0xFF;
          mant = f AND 0x7FFFFF;
          val = (if ex = 0 then f64_exact (unat mant) (- 149)
                 else if ex = 255 then
                   (if mant = 0 then 0x7FF0000000000000
                    else 0x7FF8000000000000 OR push_bit 29 (ucast mant))
                 else f64_exact (8388608 + unat mant) (int (unat ex) - 150))
      in if drop_bit 31 f = 1 then f64_neg val else val)"

definition simple :: "byte \<Rightarrow> cbor_value parse" where
  "simple ai =
     (if ai = 20 then p_ret (Bool False)
      else if ai = 21 then p_ret (Bool True)
      else if ai = 22 then p_ret Null
      else if ai = 23 then p_ret Null
      else if ai = 25 then p_bind (p_take 2) (\<lambda>b. p_ret (Float (half_to_f64 (of_nat (be_val b)))))
      else if ai = 26 then p_bind (p_take 4) (\<lambda>b. p_ret (Float (f32_to_f64 (of_nat (be_val b)))))
      else if ai = 27 then p_bind (p_take 8) (\<lambda>b. p_ret (Float (of_nat (be_val b))))
      else p_lift (Inl (Unsupported 7 ai)))"

text \<open>Every primitive read leaves the node budget alone; only \<open>claim_node\<close> spends it.\<close>

lemma p_byte_remaining: "p_byte p = (r, q) \<Longrightarrow> remaining_nodes q = remaining_nodes p"
  by (auto simp: p_byte_def split: option.splits)

lemma p_take_remaining: "p_take n p = (r, q) \<Longrightarrow> remaining_nodes q = remaining_nodes p"
  by (auto simp: p_take_def split: option.splits if_splits)

lemma at_break_remaining: "at_break p = (r, q) \<Longrightarrow> remaining_nodes q = remaining_nodes p"
  by (auto simp: at_break_def split: option.splits if_splits)

lemma p_bind_p_ret_remaining:
  "(\<And>r q. m p = (r, q) \<Longrightarrow> remaining_nodes q = remaining_nodes p) \<Longrightarrow>
   p_bind m (\<lambda>b. p_ret (h b)) p = (r, q) \<Longrightarrow> remaining_nodes q = remaining_nodes p"
  by (cases "m p") (auto simp: p_bind_def p_ret_def split: sum.splits)

lemma argument_remaining: "argument ai p = (r, q) \<Longrightarrow> remaining_nodes q = remaining_nodes p"
  unfolding argument_def
  by (auto simp: p_ret_def p_lift_def split: if_splits
      dest!: p_bind_p_ret_remaining [rotated] dest: p_byte_remaining p_take_remaining)

lemma simple_remaining: "simple ai p = (r, q) \<Longrightarrow> remaining_nodes q = remaining_nodes p"
  unfolding simple_def
  by (auto simp: p_ret_def p_lift_def split: if_splits
      dest!: p_bind_p_ret_remaining [rotated] dest: p_take_remaining)

lemma claim_node_remaining:
  "claim_node d p = (Inr x, q) \<Longrightarrow> remaining_nodes p = Suc (remaining_nodes q)"
  by (auto simp: claim_node_def split: if_splits)

lemma claim_node_remaining_le:
  "claim_node d p = (r, q) \<Longrightarrow> remaining_nodes q \<le> remaining_nodes p"
  by (auto simp: claim_node_def split: if_splits)

text \<open>The chunks of an indefinite-length string, accumulated in \<open>buf\<close>.\<close>

function string_chunks :: "byte \<Rightarrow> nat \<Rightarrow> bytes \<Rightarrow> bytes parse" where
  "string_chunks required_major depth buf p =
     p_bind at_break (\<lambda>brk p1.
       if brk then (Inr buf, p1)
       else p_bind (claim_node (depth + 1)) (\<lambda>_.
            p_bind p_byte (\<lambda>head p2.
              let chunk_major = drop_bit 5 head; chunk_ai = head AND 0x1F
              in if chunk_major \<noteq> required_major \<or> chunk_ai = 31
                 then (Inl (Unsupported required_major 31), p2)
                 else p_bind (argument chunk_ai) (\<lambda>a.
                      p_bind (p_lift (ok_or a (Unsupported required_major 31))) (\<lambda>len.
                      p_bind (p_lift (length_to_usize len)) (\<lambda>n.
                      p_bind (p_take n) (\<lambda>chunk p3.
                        if required_major = 3 \<and> \<not> utf8_valid chunk
                        then (Inl (Unsupported 3 31), p3)
                        else string_chunks required_major depth (buf @ chunk) p3)))) p2)) p1) p"
  by pat_completeness auto
termination
  by (relation "measure (\<lambda>(m, d, b, p). remaining_nodes p)")
    (auto simp: p_lift_def dest!: at_break_remaining claim_node_remaining p_byte_remaining
      argument_remaining p_take_remaining)

declare string_chunks.simps [simp del]

definition cbor_string :: "byte \<Rightarrow> nat \<Rightarrow> byte \<Rightarrow> bytes parse" where
  "cbor_string ai depth required_major =
     p_bind (argument ai) (\<lambda>a.
       case a of
         Some len \<Rightarrow>
           p_bind (p_lift (length_to_usize len)) (\<lambda>n.
           p_bind (p_take n) (\<lambda>bs.
             if required_major = 3 \<and> \<not> utf8_valid bs then p_lift (Inl (Unsupported 3 ai))
             else p_ret bs))
       | None \<Rightarrow> string_chunks required_major depth [])"

lemma string_chunks_remaining:
  "string_chunks m d b p = (r, q) \<Longrightarrow> remaining_nodes q \<le> remaining_nodes p"
proof (induction m d b p arbitrary: r q rule: string_chunks.induct)
  case (1 m d b p)
  show ?case
    using 1 unfolding string_chunks.simps [of m d b p]
    by (fastforce simp: p_bind_def p_lift_def Let_def split: prod.splits sum.splits if_splits
        dest: at_break_remaining claim_node_remaining claim_node_remaining_le p_byte_remaining
          argument_remaining p_take_remaining)
qed

lemma cbor_string_remaining:
  "cbor_string ai d m p = (r, q) \<Longrightarrow> remaining_nodes q \<le> remaining_nodes p"
  unfolding cbor_string_def
  by (fastforce simp: p_bind_def p_lift_def p_ret_def
      split: prod.splits sum.splits if_splits option.splits
      dest: argument_remaining p_take_remaining string_chunks_remaining)

text \<open>
  One data item and the loops of the containers. The loops carry the items read so far, as the
  \<open>Vec\<close> of the source does.
\<close>

function (sequential) item :: "nat \<Rightarrow> cbor_value parse"
  and array :: "byte \<Rightarrow> nat \<Rightarrow> cbor_value parse"
  and array_definite :: "nat \<Rightarrow> nat \<Rightarrow> cbor_value list \<Rightarrow> cbor_value parse"
  and array_indefinite :: "nat \<Rightarrow> cbor_value list \<Rightarrow> cbor_value parse"
  and map_item :: "byte \<Rightarrow> nat \<Rightarrow> cbor_value parse"
  and map_definite :: "nat \<Rightarrow> nat \<Rightarrow> (cbor_value \<times> cbor_value) list \<Rightarrow> cbor_value parse"
  and map_indefinite :: "nat \<Rightarrow> (cbor_value \<times> cbor_value) list \<Rightarrow> cbor_value parse" where
  "item depth p =
     p_bind (claim_node depth) (\<lambda>_.
     p_bind p_byte (\<lambda>head p1.
       let mt = drop_bit 5 head; ai = head AND 0x1F
       in if mt = 0 \<or> mt = 1 then
            p_bind (argument ai) (\<lambda>a.
            p_bind (p_lift (ok_or a (Unsupported mt 31))) (\<lambda>n.
              p_ret (if mt = 0 then Integer (uint n) else Integer (- 1 - uint n)))) p1
          else if mt = 2 \<or> mt = 3 then
            p_bind (cbor_string ai depth mt) (\<lambda>bs.
              if mt = 2 then p_ret (Bytes bs)
              else if utf8_valid bs then p_ret (Text bs)
              else p_lift (Inl (Unsupported 3 ai))) p1
          else if mt = 4 then array ai depth p1
          else if mt = 5 then map_item ai depth p1
          else if mt = 6 then
            p_bind (argument ai) (\<lambda>a.
            p_bind (p_lift (ok_or a (Unsupported 6 31))) (\<lambda>tag.
            p_bind (item (depth + 1)) (\<lambda>inner. p_ret (Tag tag inner)))) p1
          else simple ai p1)) p"
| "array ai depth p =
     p_bind (argument ai) (\<lambda>a p1.
       case a of
         Some len \<Rightarrow> array_definite (unat len) depth [] p1
       | None \<Rightarrow> array_indefinite depth [] p1) p"
| "array_definite n depth items p =
     (if n = 0 then (Inr (Array items), p)
      else p_bind (item (depth + 1)) (\<lambda>v. array_definite (n - 1) depth (items @ [v])) p)"
| "array_indefinite depth items p =
     p_bind at_break (\<lambda>brk p1.
       if brk then (Inr (Array items), p1)
       else p_bind (item (depth + 1)) (\<lambda>v. array_indefinite depth (items @ [v])) p1) p"
| "map_item ai depth p =
     p_bind (argument ai) (\<lambda>a p1.
       case a of
         Some len \<Rightarrow> map_definite (unat len) depth [] p1
       | None \<Rightarrow> map_indefinite depth [] p1) p"
| "map_definite n depth entries p =
     (if n = 0 then (Inr (Map entries), p)
      else p_bind (item (depth + 1)) (\<lambda>k.
           p_bind (item (depth + 1)) (\<lambda>v. map_definite (n - 1) depth (entries @ [(k, v)]))) p)"
| "map_indefinite depth entries p =
     p_bind at_break (\<lambda>brk p1.
       if brk then (Inr (Map entries), p1)
       else p_bind (item (depth + 1)) (\<lambda>k.
            p_bind (item (depth + 1)) (\<lambda>v. map_indefinite depth (entries @ [(k, v)]))) p1) p"
  by pat_completeness auto

text \<open>
  The recursion is nested: how far a loop may still run depends on what the item before it left of
  the budget. The bound it needs is proved on the domain of the functions first.
\<close>

lemma p_bind_remaining_le:
  assumes "\<And>r q. m p = (r, q) \<Longrightarrow> remaining_nodes q \<le> n"
    and "\<And>x q. m p = (Inr x, q) \<Longrightarrow> remaining_nodes (snd (f x q)) \<le> n"
  shows "remaining_nodes (snd (p_bind m f p)) \<le> n"
  using assms by (auto simp: p_bind_def split: prod.splits sum.splits)

lemma p_bind_remaining_less:
  assumes "p_bind m f p = (Inr y, q)"
    and "\<And>x q1. m p = (Inr x, q1) \<Longrightarrow> remaining_nodes (snd (f x q1)) \<le> n"
  shows "remaining_nodes q \<le> n"
  using assms by (fastforce simp: p_bind_def split: prod.splits sum.splits)

lemmas primitive_remaining_le =
  eq_imp_le [OF p_byte_remaining] eq_imp_le [OF at_break_remaining] eq_imp_le [OF argument_remaining]
  eq_imp_le [OF simple_remaining] claim_node_remaining_le cbor_string_remaining

lemma snd_remaining_le:
  "(\<And>r q. m p = (r, q) \<Longrightarrow> remaining_nodes q \<le> n) \<Longrightarrow> remaining_nodes (snd (m p)) \<le> n"
  by (cases "m p") auto

lemma item_rest_remaining_le:
  assumes "mt \<noteq> 4 \<or> remaining_nodes (snd (arr p)) \<le> remaining_nodes p"
    and "mt \<noteq> 5 \<or> remaining_nodes (snd (mp p)) \<le> remaining_nodes p"
    and "\<And>a q tag q'. argument ai p = (Inr a, q) \<Longrightarrow>
           p_lift (ok_or a (Unsupported 6 31)) q = (Inr tag, q') \<Longrightarrow> mt = 6 \<Longrightarrow>
           remaining_nodes (snd (inner q')) \<le> remaining_nodes q'"
  shows "remaining_nodes (snd (
          if mt = 0 \<or> mt = 1 then
            p_bind (argument ai) (\<lambda>a.
            p_bind (p_lift (ok_or a (Unsupported mt 31))) (\<lambda>n.
              p_ret (if mt = 0 then Integer (uint n) else Integer (- 1 - uint n)))) p
          else if mt = 2 \<or> mt = 3 then
            p_bind (cbor_string ai depth mt) (\<lambda>bs.
              if mt = 2 then p_ret (Bytes bs)
              else if utf8_valid bs then p_ret (Text bs)
              else p_lift (Inl (Unsupported 3 ai))) p
          else if mt = 4 then arr p
          else if mt = 5 then mp p
          else if mt = 6 then
            p_bind (argument ai) (\<lambda>a.
            p_bind (p_lift (ok_or a (Unsupported 6 31))) (\<lambda>tag.
            p_bind inner (\<lambda>v. p_ret (Tag tag v)))) p
          else simple ai p)) \<le> remaining_nodes p"
proof -
  have int: "remaining_nodes (snd (p_bind (argument ai) (\<lambda>a.
      p_bind (p_lift (ok_or a (Unsupported mt 31))) (\<lambda>n.
        p_ret (if mt = 0 then Integer (uint n) else Integer (- 1 - uint n)))) p)) \<le> remaining_nodes p"
    by (cases "argument ai p")
      (auto simp: p_bind_def p_lift_def p_ret_def ok_or_def split: sum.splits option.splits
        dest!: argument_remaining)
  have str: "remaining_nodes (snd (p_bind (cbor_string ai depth mt) (\<lambda>bs.
      if mt = 2 then p_ret (Bytes bs)
      else if utf8_valid bs then p_ret (Text bs)
      else p_lift (Inl (Unsupported 3 ai))) p)) \<le> remaining_nodes p"
    by (cases "cbor_string ai depth mt p")
      (auto simp: p_bind_def p_lift_def p_ret_def split: sum.splits dest!: cbor_string_remaining)
  have tag: "remaining_nodes (snd (p_bind (argument ai) (\<lambda>a.
      p_bind (p_lift (ok_or a (Unsupported 6 31))) (\<lambda>tag.
      p_bind inner (\<lambda>v. p_ret (Tag tag v)))) p)) \<le> remaining_nodes p" if "mt = 6"
  proof (cases "argument ai p")
    case (Pair r q)
    have rq: "remaining_nodes q = remaining_nodes p" using Pair by (rule argument_remaining)
    show ?thesis
    proof (cases "\<exists>t. r = Inr (Some t)")
      case True
      then obtain t where t: "r = Inr (Some t)" by auto
      have "remaining_nodes (snd (inner q)) \<le> remaining_nodes q"
        using assms(3) [of "Some t" q t q] Pair t that by (simp add: p_lift_def)
      with Pair t rq show ?thesis
        by (cases "inner q") (auto simp: p_bind_def p_lift_def p_ret_def split: sum.splits)
    next
      case False
      with Pair rq show ?thesis
        by (auto simp: p_bind_def p_lift_def ok_or_def split: sum.splits option.splits)
    qed
  qed
  show ?thesis
    using int str tag assms(1,2) snd_remaining_le [of "simple ai" p, OF eq_imp_le, OF simple_remaining]
    by auto
qed

lemma loop_remaining_le:
  assumes "remaining_nodes (snd (m p)) \<le> remaining_nodes p"
    and "\<And>v q. m p = (Inr v, q) \<Longrightarrow> remaining_nodes (snd (f v q)) \<le> remaining_nodes q"
  shows "remaining_nodes (snd (p_bind m f p)) \<le> remaining_nodes p"
proof (cases "m p")
  case (Pair r q)
  with assms show ?thesis by (cases r) (fastforce simp: p_bind_def)+
qed

lemma item_claims_node:
  assumes "p_bind (claim_node d) f p = (r, q)"
    and "\<And>x q1. claim_node d p = (Inr x, q1) \<Longrightarrow> remaining_nodes (snd (f x q1)) \<le> remaining_nodes q1"
  shows "remaining_nodes q \<le> remaining_nodes p \<and> (is_ok r \<longrightarrow> remaining_nodes q < remaining_nodes p)"
  using assms
  by (auto simp: p_bind_def claim_node_def split: if_splits dest: arg_cong [where f = snd])

lemma at_break_snd: "remaining_nodes (snd (at_break p)) = remaining_nodes p"
  by (cases "at_break p") (simp add: at_break_remaining)

lemmas items_pinduct =
  item_array_array_definite_array_indefinite_map_item_map_definite_map_indefinite.pinduct

lemma items_remaining:
  shows "item_array_array_definite_array_indefinite_map_item_map_definite_map_indefinite_dom
           (Inl (Inl (d, p))) \<Longrightarrow>
         remaining_nodes (snd (item d p)) \<le> remaining_nodes p
           \<and> (is_ok (fst (item d p)) \<longrightarrow> remaining_nodes (snd (item d p)) < remaining_nodes p)"
    and "item_array_array_definite_array_indefinite_map_item_map_definite_map_indefinite_dom
           (Inl (Inr (Inl (ai, d, p)))) \<Longrightarrow>
         remaining_nodes (snd (array ai d p)) \<le> remaining_nodes p"
    and "item_array_array_definite_array_indefinite_map_item_map_definite_map_indefinite_dom
           (Inl (Inr (Inr (n, d, vs, p)))) \<Longrightarrow>
         remaining_nodes (snd (array_definite n d vs p)) \<le> remaining_nodes p"
    and "item_array_array_definite_array_indefinite_map_item_map_definite_map_indefinite_dom
           (Inr (Inl (Inl (d, vs, p)))) \<Longrightarrow>
         remaining_nodes (snd (array_indefinite d vs p)) \<le> remaining_nodes p"
    and "item_array_array_definite_array_indefinite_map_item_map_definite_map_indefinite_dom
           (Inr (Inl (Inr (ai, d, p)))) \<Longrightarrow>
         remaining_nodes (snd (map_item ai d p)) \<le> remaining_nodes p"
    and "item_array_array_definite_array_indefinite_map_item_map_definite_map_indefinite_dom
           (Inr (Inr (Inl (n, d, es, p)))) \<Longrightarrow>
         remaining_nodes (snd (map_definite n d es p)) \<le> remaining_nodes p"
    and "item_array_array_definite_array_indefinite_map_item_map_definite_map_indefinite_dom
           (Inr (Inr (Inr (d, es, p)))) \<Longrightarrow>
         remaining_nodes (snd (map_indefinite d es p)) \<le> remaining_nodes p"
proof (induction d p and ai d p and n d vs p and d vs p and ai d p and n d es p and d es p
    rule: items_pinduct)
  case (1 depth p)
  show ?case
  proof (cases "item depth p")
    case it: (Pair r q)
    let ?body = "\<lambda>head p1.
       let mt = drop_bit 5 head; ai = head AND 0x1F
       in if mt = 0 \<or> mt = 1 then
            p_bind (argument ai) (\<lambda>a.
            p_bind (p_lift (ok_or a (Unsupported mt 31))) (\<lambda>n.
              p_ret (if mt = 0 then Integer (uint n) else Integer (- 1 - uint n)))) p1
          else if mt = 2 \<or> mt = 3 then
            p_bind (cbor_string ai depth mt) (\<lambda>bs.
              if mt = 2 then p_ret (Bytes bs)
              else if utf8_valid bs then p_ret (Text bs)
              else p_lift (Inl (Unsupported 3 ai))) p1
          else if mt = 4 then array ai depth p1
          else if mt = 5 then map_item ai depth p1
          else if mt = 6 then
            p_bind (argument ai) (\<lambda>a.
            p_bind (p_lift (ok_or a (Unsupported 6 31))) (\<lambda>tag.
            p_bind (item (depth + 1)) (\<lambda>inner. p_ret (Tag tag inner)))) p1
          else simple ai p1"
    have "remaining_nodes q \<le> remaining_nodes p
            \<and> (is_ok r \<longrightarrow> remaining_nodes q < remaining_nodes p)"
    proof (rule item_claims_node [OF it [unfolded item.psimps [OF "1.hyps"]]])
      fix x q1 assume cl: "claim_node depth p = (Inr x, q1)"
      show "remaining_nodes (snd (p_bind p_byte (\<lambda>head p1. ?body head p1) q1)) \<le> remaining_nodes q1"
      proof (rule loop_remaining_le)
        show "remaining_nodes (snd (p_byte q1)) \<le> remaining_nodes q1"
          by (rule snd_remaining_le) (simp add: p_byte_remaining)
        fix head q2 assume bt: "p_byte q1 = (Inr head, q2)"
        note IH = "1.IH" [OF cl bt refl refl]
        show "remaining_nodes (snd (?body head q2)) \<le> remaining_nodes q2"
          unfolding Let_def
        proof (rule item_rest_remaining_le)
          show "drop_bit 5 head \<noteq> 4 \<or>
                remaining_nodes (snd (array (head AND 31) depth q2)) \<le> remaining_nodes q2"
            using IH(1) by force
          show "drop_bit 5 head \<noteq> 5 \<or>
                remaining_nodes (snd (map_item (head AND 31) depth q2)) \<le> remaining_nodes q2"
            using IH(2) by force
          fix a q tag q'
          assume "argument (head AND 31) q2 = (Inr a, q)"
            and "p_lift (ok_or a (Unsupported 6 31)) q = (Inr tag, q')" and "drop_bit 5 head = 6"
          then show "remaining_nodes (snd (item (depth + 1) q')) \<le> remaining_nodes q'"
            using IH(3) [of a q tag q'] by (cases "item (depth + 1) q'") simp
        qed
      qed
    qed
    with it show ?thesis by simp
  qed
next
  case (2 ai depth p)
  show ?case
    unfolding array.psimps [OF "2.hyps"]
  proof (rule loop_remaining_le)
    show "remaining_nodes (snd (argument ai p)) \<le> remaining_nodes p"
      by (rule snd_remaining_le) (simp add: argument_remaining)
    fix a q assume "argument ai p = (Inr a, q)"
    with "2.IH" show "remaining_nodes (snd (case a of
        Some len \<Rightarrow> array_definite (unat len) depth [] q
      | None \<Rightarrow> array_indefinite depth [] q)) \<le> remaining_nodes q"
      by (cases a) auto
  qed
next
  case (3 n depth items p)
  show ?case
  proof (cases "n = 0")
    case False
    show ?thesis
      unfolding array_definite.psimps [OF "3.hyps"] using False "3.IH"
      by (auto intro!: loop_remaining_le)
  qed (subst array_definite.psimps [OF "3.hyps"], simp)
next
  case (4 depth items p)
  show ?case
    unfolding array_indefinite.psimps [OF "4.hyps"]
    using "4.IH" by (auto intro!: loop_remaining_le simp: at_break_snd)
next
  case (5 ai depth p)
  show ?case
    unfolding map_item.psimps [OF "5.hyps"]
  proof (rule loop_remaining_le)
    show "remaining_nodes (snd (argument ai p)) \<le> remaining_nodes p"
      by (rule snd_remaining_le) (simp add: argument_remaining)
    fix a q assume "argument ai p = (Inr a, q)"
    with "5.IH" show "remaining_nodes (snd (case a of
        Some len \<Rightarrow> map_definite (unat len) depth [] q
      | None \<Rightarrow> map_indefinite depth [] q)) \<le> remaining_nodes q"
      by (cases a) auto
  qed
next
  case (6 n depth entries p)
  show ?case
  proof (cases "n = 0")
    case False
    show ?thesis
      unfolding map_definite.psimps [OF "6.hyps"] using False "6.IH"
      by (auto intro!: loop_remaining_le)
  qed (subst map_definite.psimps [OF "6.hyps"], simp)
next
  case (7 depth entries p)
  show ?case
    unfolding map_indefinite.psimps [OF "7.hyps"]
    using "7.IH" by (auto intro!: loop_remaining_le simp: at_break_snd)
qed

lemma item_remaining_less:
  "item_array_array_definite_array_indefinite_map_item_map_definite_map_indefinite_dom
     (Inl (Inl (d, p))) \<Longrightarrow> item d p = (Inr v, q) \<Longrightarrow> remaining_nodes q < remaining_nodes p"
  using items_remaining(1) [of d p] by simp

termination item
proof (relation "measure (\<lambda>x. case x of
      Inl (Inl (d, p)) \<Rightarrow> 3 * remaining_nodes p
    | Inl (Inr (Inl (ai, d, p))) \<Rightarrow> 3 * remaining_nodes p + 2
    | Inl (Inr (Inr (n, d, vs, p))) \<Rightarrow> 3 * remaining_nodes p + 1
    | Inr (Inl (Inl (d, vs, p))) \<Rightarrow> 3 * remaining_nodes p + 1
    | Inr (Inl (Inr (ai, d, p))) \<Rightarrow> 3 * remaining_nodes p + 2
    | Inr (Inr (Inl (n, d, es, p))) \<Rightarrow> 3 * remaining_nodes p + 1
    | Inr (Inr (Inr (d, es, p))) \<Rightarrow> 3 * remaining_nodes p + 1)", goal_cases)
  case 1 show ?case by simp
qed (auto simp: p_lift_def dest!: claim_node_remaining p_byte_remaining argument_remaining
    at_break_remaining dest!: item_remaining_less [rotated])

declare item.simps [simp del] array.simps [simp del] array_definite.simps [simp del]
  array_indefinite.simps [simp del] map_item.simps [simp del] map_definite.simps [simp del]
  map_indefinite.simps [simp del]

lemmas items_induct =
  item_array_array_definite_array_indefinite_map_item_map_definite_map_indefinite.induct

text \<open>
  \<open>decode_bounded\<close> returns what is left of the caller's budget beside the result; the budget is
  written back before an error is returned.
\<close>

definition decode_bounded :: "bytes \<Rightarrow> nat \<Rightarrow> (decode_error + cbor_value) \<times> nat" where
  "decode_bounded data budget =
     (case item 0 \<lparr>p_data = data, p_pos = 0, remaining_nodes = budget, node_limit = budget\<rparr> of
        (parsed, p) \<Rightarrow>
          (res_bind parsed (\<lambda>v. if p_pos p \<noteq> length data then Inl (Trailing (p_pos p)) else Inr v),
           remaining_nodes p))"

definition decode :: "bytes \<Rightarrow> decode_error + cbor_value" where
  "decode data = fst (decode_bounded data MAX_VALUE_NODES)"

definition decode_prefix :: "bytes \<Rightarrow> decode_error + (cbor_value \<times> nat)" where
  "decode_prefix data =
     (case item 0 \<lparr>p_data = data, p_pos = 0, remaining_nodes = MAX_VALUE_NODES,
                   node_limit = MAX_VALUE_NODES\<rparr> of
        (parsed, p) \<Rightarrow> res_bind parsed (\<lambda>v. Inr (v, p_pos p)))"

end
