(* ===== verification/Ordered_Map.thy ===== *)
theory Ordered_Map
  imports Cbor "HOL-Library.Multiset"
begin

text \<open>
  The interface between the users of a keyed container and its implementations. \<open>keyed_map\<close> states
  what \<open>insert\<close> and \<open>get\<close> of a Rust map promise; what a loop of inserts leaves behind is proved once
  from those laws. \<open>BTreeMap\<close>, kept here as an ascending association list, is one provider: the
  canonical key sort of the CBOR encoder relies on it.
\<close>

locale keyed_map =
  fixes empty :: 'm
    and insert :: "'k \<Rightarrow> 'v \<Rightarrow> 'm \<Rightarrow> 'm"
    and lookup :: "'m \<Rightarrow> 'k \<Rightarrow> 'v option"
    and invar :: "'m \<Rightarrow> bool"
  assumes lookup_empty: "lookup empty k = None"
    and invar_empty: "invar empty"
    and lookup_insert: "invar m \<Longrightarrow> lookup (insert k v m) = (lookup m)(k \<mapsto> v)"
    and invar_insert: "invar m \<Longrightarrow> invar (insert k v m)"
begin

definition insert_all :: "('x \<Rightarrow> 'k) \<Rightarrow> ('x \<Rightarrow> 'v) \<Rightarrow> 'm \<Rightarrow> 'x list \<Rightarrow> 'm" where
  "insert_all key val = foldl (\<lambda>m x. insert (key x) (val x) m)"

lemma insert_all_invar: "invar m \<Longrightarrow> invar (insert_all key val m xs)"
  by (induction xs arbitrary: m) (simp_all add: insert_all_def invar_insert)

text \<open>After a loop of inserts a key holds the value of its last insertion.\<close>

lemma lookup_insert_all:
  "invar m \<Longrightarrow> lookup (insert_all key val m xs)
     = lookup m ++ map_of (rev (map (\<lambda>x. (key x, val x)) xs))"
proof (induction xs arbitrary: m)
  case (Cons x xs)
  then show ?case
    by (simp add: insert_all_def invar_insert lookup_insert map_add_def fun_eq_iff split: option.splits)
qed (simp add: insert_all_def)

lemma lookup_insert_all_empty:
  "lookup (insert_all key val empty xs) = map_of (rev (map (\<lambda>x. (key x, val x)) xs))"
proof -
  have "lookup empty = Map.empty" by (simp add: fun_eq_iff lookup_empty)
  then show ?thesis by (simp add: lookup_insert_all invar_empty)
qed

lemma lookup_insert_all_distinct:
  assumes "distinct (map key xs)"
  shows "lookup (insert_all key val empty xs) = map_of (map (\<lambda>x. (key x, val x)) xs)"
  unfolding lookup_insert_all_empty
  by (rule map_of_inject_set [THEN iffD2]) (use assms in \<open>auto simp: comp_def rev_map [symmetric]\<close>)

end

definition ascending :: "('k::linorder \<times> 'v) list \<Rightarrow> bool" where
  "ascending m \<longleftrightarrow> sorted_wrt (<) (map fst m)"

lemma fst_btree_insert: "set (map fst (btree_insert k v m)) = insert k (set (map fst m))"
  by (induction k v m rule: btree_insert.induct) (simp_all add: insert_commute)

lemma ascending_btree_insert: "ascending m \<Longrightarrow> ascending (btree_insert k v m)"
proof (induction m)
  case (Cons e m)
  obtain k' v' where e: "e = (k', v')" by (cases e)
  from Cons have IH: "ascending (btree_insert k v m)"
    and gt: "\<forall>x \<in> set (map fst m). k' < x"
    by (auto simp: ascending_def e)
  have "\<forall>x \<in> set (map fst (btree_insert k v m)). k' < x" if "k' < k"
    using gt that by (simp only: fst_btree_insert) simp
  with Cons.prems IH gt show ?case
    by (auto simp: ascending_def e)
qed (simp add: ascending_def)

lemma map_of_btree_insert: "ascending m \<Longrightarrow> map_of (btree_insert k v m) = (map_of m)(k \<mapsto> v)"
  by (induction m) (auto simp: ascending_def fun_eq_iff)

interpretation btree: keyed_map "[]" btree_insert map_of ascending
  by unfold_locales
    (simp_all add: ascending_btree_insert map_of_btree_insert, simp add: ascending_def)

lemma ascending_distinct: "ascending m \<Longrightarrow> distinct (map fst m)"
  unfolding ascending_def by (induction m) (auto simp: less_imp_not_eq)

text \<open>An ascending association list is determined by the bindings it holds.\<close>

lemma ascending_unique:
  assumes "ascending m" and "ascending m'" and "map_of m = map_of m'"
  shows "m = m'"
proof -
  have keys: "map fst m = map fst m'"
  proof (rule sorted_distinct_set_unique)
    show "sorted (map fst m)" "sorted (map fst m')"
      using assms by (simp_all add: ascending_def sorted_wrt_mono_rel less_imp_le strict_sorted_imp_sorted)
    show "distinct (map fst m)" "distinct (map fst m')"
      using assms by (simp_all add: ascending_distinct)
    have "dom (map_of m) = dom (map_of m')" using assms(3) by simp
    then show "set (map fst m) = set (map fst m')" by (simp add: dom_map_of_conv_image_fst)
  qed
  have rebuild: "map (\<lambda>k. (k, the (map_of l k))) (map fst l) = l" if "distinct (map fst l)" for l :: "('a \<times> 'b) list"
    unfolding map_map by (rule map_idI) (use that in auto)
  show ?thesis
    using rebuild [of m] rebuild [of m'] keys assms by (simp add: ascending_distinct)
qed

end
