(* ===== verification/Cbor_Encoding.thy ===== *)
theory Cbor_Encoding
  imports Ordered_Map
begin

text \<open>
  The encoder: its output only ever grows, containers are the concatenation of their parts, heads
  are the shortest form, and the canonical profile orders map entries in a way that depends on the
  set of entries only.
\<close>

section \<open>Heads\<close>

lemma write_head_append: "write_head out mt arg = out @ write_head [] mt arg"
  by (simp add: write_head_def)

lemma encode_int_append: "encode_int out n = out @ encode_int [] n"
  using write_head_append [of out] by (simp add: encode_int_def)

text \<open>The argument sizes RFC 8949 allows, and the shortest one for an argument.\<close>

definition head_size :: "u64 \<Rightarrow> nat" where
  "head_size arg = (if arg < 24 then 1 else if unat arg < 2 ^ 8 then 2 else if unat arg < 2 ^ 16 then 3
                    else if unat arg < 2 ^ 32 then 5 else 9)"

lemma length_write_head: "length (write_head out mt arg) = length out + head_size arg"
proof -
  have "arg \<le> 0xFF \<longleftrightarrow> unat arg < 2 ^ 8" "arg \<le> 0xFFFF \<longleftrightarrow> unat arg < 2 ^ 16"
    "arg \<le> 0xFFFFFFFF \<longleftrightarrow> unat arg < 2 ^ 32"
    by (simp_all add: word_le_nat_alt) linarith+
  then show ?thesis by (simp add: write_head_def head_size_def)
qed

lemma write_head_nonempty: "write_head [] mt arg \<noteq> []"
  by (simp add: write_head_def)

section \<open>Output is appended\<close>

text \<open>\<open>enc_all f xs\<close> concatenates the encodings of \<open>xs\<close>.\<close>

fun enc_all :: "('x \<Rightarrow> 'e + bytes) \<Rightarrow> 'x list \<Rightarrow> 'e + bytes" where
  "enc_all f [] = Inr []"
| "enc_all f (x # xs) = res_bind (f x) (\<lambda>b. res_bind (enc_all f xs) (\<lambda>bs. Inr (b @ bs)))"

definition enc_entry :: "profile \<Rightarrow> cbor_value \<times> cbor_value \<Rightarrow> encode_error + bytes" where
  "enc_entry p = (\<lambda>(k, v). res_bind (encode k p) (\<lambda>a. res_bind (encode v p) (\<lambda>b. Inr (a @ b))))"

lemma try_fold_appending:
  assumes "\<And>out x. x \<in> set xs \<Longrightarrow> g out x = res_bind (f x) (\<lambda>bs. Inr (out @ bs))"
  shows "try_fold g out xs = res_bind (enc_all f xs) (\<lambda>bs. Inr (out @ bs))"
  using assms
proof (induction xs arbitrary: out)
  case (Cons x xs)
  then have IH: "try_fold g o1 xs = res_bind (enc_all f xs) (\<lambda>bs. Inr (o1 @ bs))" for o1 by simp
  show ?case
    using Cons.prems [of x out] by (cases "f x"; cases "enc_all f xs") (simp_all add: IH)
qed simp

lemma enc_all_cong [fundef_cong]:
  "xs = ys \<Longrightarrow> (\<And>x. x \<in> set ys \<Longrightarrow> f x = g x) \<Longrightarrow> enc_all f xs = enc_all g ys"
  by (induction ys arbitrary: xs) (auto cong: res_bind_cong)

definition sorted_entries :: "profile \<Rightarrow> (cbor_value \<times> cbor_value) list \<Rightarrow> (cbor_value \<times> cbor_value) list" where
  "sorted_entries p es = (if sort_keys p then canonical_sort es else es)"

lemma set_sorted_entries: "set (sorted_entries p es) \<subseteq> set es"
  using canonical_sort_with_subset by (auto simp: sorted_entries_def canonical_sort_def)

lemma encode_into_append: "encode_into out v p = res_bind (encode v p) (\<lambda>bs. Inr (out @ bs))"
proof (induction v arbitrary: out p rule: measure_induct_rule [where f = size])
  case (less v)
  note IH = less.IH
  show ?case
  proof (cases v)
    case (Integer n)
    then show ?thesis using encode_int_append [of out] by (simp add: encode_def)
  next
    case (Bytes b)
    then show ?thesis using write_head_append [of out] by (simp add: encode_def)
  next
    case (Text b)
    then show ?thesis using write_head_append [of out] by (simp add: encode_def)
  next
    case (Array items)
    have step: "encode_into o1 x p = res_bind (encode x p) (\<lambda>bs. Inr (o1 @ bs))"
      if "x \<in> set items" for o1 x
      using IH [of x] that Array by (simp add: size_item)
    have fold: "try_fold (\<lambda>o1 item. encode_into o1 item p) o0 items
        = res_bind (enc_all (\<lambda>x. encode x p) items) (\<lambda>bs. Inr (o0 @ bs))" for o0
      by (rule try_fold_appending) (rule step)
    show ?thesis
      using write_head_append [of out]
      by (cases "enc_all (\<lambda>x. encode x p) items") (simp_all add: Array encode_def [of "Array items"] fold)
  next
    case (Map es)
    have step: "(\<lambda>(k, v). res_bind (encode_into o1 k p) (\<lambda>o2. encode_into o2 v p)) x
        = res_bind (enc_entry p x) (\<lambda>bs. Inr (o1 @ bs))"
      if x: "x \<in> set (sorted_entries p es)" for o1 x
    proof (cases x)
      case (Pair k w)
      with x have "(k, w) \<in> set es" using set_sorted_entries by auto
      then have "size k < size v" "size w < size v" using size_entry [of k w es] Map by simp_all
      then show ?thesis
        using IH [of k] IH [of w] Pair
        by (cases "encode k p"; cases "encode w p") (simp_all add: enc_entry_def)
    qed
    have srt: "(if sort_keys p then canonical_sort_with
          (\<lambda>k. unwrap_or (encode_into [] k CanonicalForHashedSubstructures) []) es else es)
        = sorted_entries p es"
      by (simp add: sorted_entries_def canonical_sort_def encode_def)
    have fold: "try_fold (\<lambda>o1 (k, v). res_bind (encode_into o1 k p) (\<lambda>o2. encode_into o2 v p)) o0
          (sorted_entries p es)
        = res_bind (enc_all (enc_entry p) (sorted_entries p es)) (\<lambda>bs. Inr (o0 @ bs))" for o0
      by (rule try_fold_appending) (rule step)
    show ?thesis
      using write_head_append [of out]
      by (cases "enc_all (enc_entry p) (sorted_entries p es)")
        (simp_all add: Map encode_def [of "Map es"] Let_def srt fold)
  next
    case (Tag t w)
    then have "encode_into o1 w p = res_bind (encode w p) (\<lambda>bs. Inr (o1 @ bs))" for o1
      by (intro IH) simp
    then show ?thesis
      using Tag write_head_append [of out] by (cases "encode w p") (simp_all add: encode_def [of "Tag t w"])
  next
    case (Bool b)
    then show ?thesis by (simp add: encode_def)
  next
    case Null
    then show ?thesis by (simp add: encode_def)
  next
    case (Float f)
    then show ?thesis by (simp add: encode_def)
  qed
qed

section \<open>The encoder, equation by equation\<close>

lemma encode_Integer: "encode (Integer n) p = Inr (encode_int [] n)"
  by (simp add: encode_def)

lemma encode_Bytes: "encode (Bytes b) p = Inr (write_head [] MT_BYTES (of_nat (length b)) @ b)"
  by (simp add: encode_def)

lemma encode_Text: "encode (Text b) p = Inr (write_head [] MT_TEXT (of_nat (length b)) @ b)"
  by (simp add: encode_def)

lemma encode_Array:
  "encode (Array items) p =
    res_bind (enc_all (\<lambda>x. encode x p) items) (\<lambda>bs.
      Inr (if indefinite p then [MT_ARRAY OR 31] @ bs @ [0xFF]
           else write_head [] MT_ARRAY (of_nat (length items)) @ bs))"
  using try_fold_appending [where g = "\<lambda>o1 x. encode_into o1 x p", OF encode_into_append]
  by (cases "enc_all (\<lambda>x. encode x p) items") (simp_all add: encode_def)

lemma enc_entry_append:
  "(case e of (k, v) \<Rightarrow> res_bind (encode_into o1 k p) (\<lambda>o2. encode_into o2 v p))
     = res_bind (enc_entry p e) (\<lambda>bs. Inr (o1 @ bs))"
proof (cases e)
  case (Pair k v)
  then show ?thesis
    using encode_into_append [of o1 k p] encode_into_append [of _ v p]
    by (cases "encode k p"; cases "encode v p") (simp_all add: enc_entry_def)
qed

lemma encode_Map:
  "encode (Map es) p =
    res_bind (enc_all (enc_entry p) (sorted_entries p es)) (\<lambda>bs.
      Inr (if indefinite p then [MT_MAP OR 31] @ bs @ [0xFF]
           else write_head [] MT_MAP (of_nat (length (sorted_entries p es))) @ bs))"
proof -
  have srt: "(if sort_keys p then canonical_sort_with
        (\<lambda>k. unwrap_or (encode_into [] k CanonicalForHashedSubstructures) []) es else es)
      = sorted_entries p es"
    by (simp add: sorted_entries_def canonical_sort_def encode_def)
  show ?thesis
    using try_fold_appending [where xs = "sorted_entries p es"
        and g = "\<lambda>o1 e. case e of (k, v) \<Rightarrow> res_bind (encode_into o1 k p) (\<lambda>o2. encode_into o2 v p)",
        OF enc_entry_append]
    by (cases "enc_all (enc_entry p) (sorted_entries p es)") (simp_all add: encode_def Let_def srt)
qed

lemma encode_Tag: "encode (Tag t v) p = res_bind (encode v p) (\<lambda>bs. Inr (write_head [] MT_TAG t @ bs))"
  using encode_into_append [of "write_head [] MT_TAG t" v p] by (simp add: encode_def)

lemma encode_simple:
  "encode (Bool b) p = Inr [MT_SIMPLE OR (if b then 21 else 20)]"
  "encode Null p = Inr [MT_SIMPLE OR 22]"
  "encode (Float f) p = (if sort_keys p \<and> \<not> float_is_finite f then Inl NonFiniteFloat
     else Inr ([MT_SIMPLE OR 27] @ be_bytes 8 (unat f)))"
  by (simp_all add: encode_def)

lemmas encode_eqs = encode_Integer encode_Bytes encode_Text encode_Array encode_Map encode_Tag
  encode_simple

end
