(* ===== verification/Cbor_Decoding.thy ===== *)
theory Cbor_Decoding
  imports Cbor
begin

text \<open>
  What a successful decode promises about any input: the reader stays inside the buffer and moves
  forward, the value is no larger than the node budget spent on it and no deeper than the nesting
  limit, every text is valid UTF-8 and every integer is one CBOR can express.
\<close>

section \<open>Measures of a value\<close>

fun value_nodes :: "cbor_value \<Rightarrow> nat" where
  "value_nodes (Array items) = Suc (sum_list (map value_nodes items))"
| "value_nodes (Map entries) = Suc (sum_list (map (\<lambda>(k, v). value_nodes k + value_nodes v) entries))"
| "value_nodes (Tag t v) = Suc (value_nodes v)"
| "value_nodes _ = 1"

text \<open>\<open>fits_depth n v\<close>: \<open>v\<close> nests at most \<open>n\<close> levels below itself.\<close>

fun fits_depth :: "nat \<Rightarrow> cbor_value \<Rightarrow> bool" where
  "fits_depth n (Array items) = (\<forall>x \<in> set items. 0 < n \<and> fits_depth (n - 1) x)"
| "fits_depth n (Map entries) = (\<forall>(k, v) \<in> set entries. 0 < n \<and> fits_depth (n - 1) k \<and> fits_depth (n - 1) v)"
| "fits_depth n (Tag t v) = (0 < n \<and> fits_depth (n - 1) v)"
| "fits_depth n _ = True"

fun value_wf :: "cbor_value \<Rightarrow> bool" where
  "value_wf (Integer n) = (- (2 ^ 64) \<le> n \<and> n < 2 ^ 64)"
| "value_wf (Text s) = utf8_valid s"
| "value_wf (Array items) = (\<forall>x \<in> set items. value_wf x)"
| "value_wf (Map entries) = (\<forall>(k, v) \<in> set entries. value_wf k \<and> value_wf v)"
| "value_wf (Tag t v) = value_wf v"
| "value_wf _ = True"

definition advances :: "parser \<Rightarrow> parser \<Rightarrow> bool" where
  "advances p q \<longleftrightarrow> p_data q = p_data p \<and> node_limit q = node_limit p \<and> p_pos p \<le> p_pos q
     \<and> remaining_nodes q \<le> remaining_nodes p \<and> (p_pos p \<le> length (p_data p) \<longrightarrow> p_pos q \<le> length (p_data p))"

section \<open>Inversion of the primitive reads\<close>

lemma p_bind_eq_Inr [res_simps]:
  "p_bind m f p = (Inr y, q) \<longleftrightarrow> (\<exists>x p1. m p = (Inr x, p1) \<and> f x p1 = (Inr y, q))"
  by (auto simp: p_bind_def split: prod.splits sum.splits)

lemma p_ret_eq [res_simps]: "p_ret x p = (r, q) \<longleftrightarrow> r = Inr x \<and> q = p"
  by (auto simp: p_ret_def)

lemma p_lift_eq [res_simps]: "p_lift r p = (r', q) \<longleftrightarrow> r = r' \<and> q = p"
  by (auto simp: p_lift_def)

lemma p_byte_eq_Inr [res_simps]:
  "p_byte p = (Inr b, q) \<longleftrightarrow>
     p_pos p < length (p_data p) \<and> b = p_data p ! p_pos p \<and> q = p\<lparr>p_pos := p_pos p + 1\<rparr>"
  by (auto simp: p_byte_def split: option.splits)

lemma p_take_eq_Inr [res_simps]:
  "p_take n p = (Inr bs, q) \<longleftrightarrow>
     p_pos p + n \<le> length (p_data p) \<and> p_pos p + n \<le> usize_max
     \<and> bs = slice (p_data p) (p_pos p) (p_pos p + n) \<and> q = p\<lparr>p_pos := p_pos p + n\<rparr>"
  by (auto simp: p_take_def checked_add_eq_None split: option.splits if_splits)

lemma claim_node_eq_Inr [res_simps]:
  "claim_node d p = (Inr u, q) \<longleftrightarrow>
     d \<le> MAX_DEPTH \<and> 0 < remaining_nodes p \<and> q = p\<lparr>remaining_nodes := remaining_nodes p - 1\<rparr>"
  by (auto simp: claim_node_def)

lemma at_break_eq_Inr [res_simps]:
  "at_break p = (Inr b, q) \<longleftrightarrow>
     p_pos p < length (p_data p) \<and> b = (p_data p ! p_pos p = 0xFF)
     \<and> q = (if b then p\<lparr>p_pos := p_pos p + 1\<rparr> else p)"
  by (auto simp: at_break_def split: option.splits)

lemma advances_refl [simp]: "advances p p"
  by (simp add: advances_def)

lemma advances_trans: "advances p q \<Longrightarrow> advances q r \<Longrightarrow> advances p r"
  by (auto simp: advances_def)

lemma argument_advances: "argument ai p = (Inr a, q) \<Longrightarrow> advances p q"
  by (auto simp: argument_def advances_def res_simps split: if_splits)

lemma simple_advances: "simple ai p = (Inr v, q) \<Longrightarrow> advances p q"
  by (auto simp: simple_def advances_def res_simps split: if_splits)

lemma simple_value: "simple ai p = (Inr v, q) \<Longrightarrow> value_nodes v = 1 \<and> fits_depth n v \<and> value_wf v"
  by (auto simp: simple_def res_simps split: if_splits)

lemma string_chunks_ok:
  "string_chunks m d b p = (Inr bs, q) \<Longrightarrow> advances p q \<and> (m = 3 \<and> utf8_valid b \<longrightarrow> utf8_valid bs)"
proof (induction m d b p rule: string_chunks.induct)
  case (1 m d b p)
  from "1.prems" obtain brk p1 where brk: "at_break p = (Inr brk, p1)"
    unfolding string_chunks.simps [of m d b p] by (auto simp: res_simps)
  show ?case
  proof (cases brk)
    case True
    then show ?thesis
      using brk "1.prems" unfolding string_chunks.simps [of m d b p]
      by (auto simp: res_simps advances_def)
  next
    case False
    with brk "1.prems" obtain u p2 head p3 a p4 len n chunk p5 where
      cl: "claim_node (d + 1) p1 = (Inr u, p2)" and bt: "p_byte p2 = (Inr head, p3)"
      and mj: "\<not> (drop_bit 5 head \<noteq> m \<or> head AND 31 = 31)"
      and arg: "argument (head AND 31) p3 = (Inr a, p4)"
      and l1: "ok_or a (Unsupported m 31) = Inr len" and l2: "length_to_usize len = Inr n"
      and tk: "p_take n p4 = (Inr chunk, p5)"
      and ok: "\<not> (m = 3 \<and> \<not> utf8_valid chunk)"
      and rest: "string_chunks m d (b @ chunk) p5 = (Inr bs, q)"
      unfolding string_chunks.simps [of m d b p]
      by (fastforce simp: p_bind_eq_Inr p_lift_eq Let_def split: if_splits)
    have "advances p p5"
      using brk cl bt tk argument_advances [OF arg] False by (auto simp: res_simps advances_def)
    moreover have "advances p5 q \<and> (m = 3 \<and> utf8_valid (b @ chunk) \<longrightarrow> utf8_valid bs)"
      using "1.IH" [OF brk False cl bt refl refl mj arg _ _ tk ok rest] l1 l2
      by (simp add: p_lift_eq)
    ultimately show ?thesis
      using ok by (auto intro: advances_trans utf8_valid_append)
  qed
qed

lemma cbor_string_ok:
  "cbor_string ai d m p = (Inr bs, q) \<Longrightarrow> advances p q \<and> (m = 3 \<longrightarrow> utf8_valid bs)"
  unfolding cbor_string_def
  by (auto simp: p_bind_eq_Inr p_lift_eq p_ret_eq p_take_eq_Inr length_to_usize_def advances_def
      split: option.splits if_splits dest!: argument_advances dest: string_chunks_ok)

section \<open>Every decoded value is within bounds\<close>

definition item_ok :: "nat \<Rightarrow> parser \<Rightarrow> cbor_value \<Rightarrow> parser \<Rightarrow> bool" where
  "item_ok d p v q \<longleftrightarrow> advances p q \<and> value_nodes v + remaining_nodes q \<le> remaining_nodes p
     \<and> d \<le> MAX_DEPTH \<and> fits_depth (MAX_DEPTH - d) v \<and> value_wf v"

text \<open>A container read at depth \<open>d\<close>, whose parts \<open>ws\<close> were read by the loop.\<close>

definition array_ok :: "nat \<Rightarrow> cbor_value list \<Rightarrow> parser \<Rightarrow> cbor_value \<Rightarrow> parser \<Rightarrow> bool" where
  "array_ok d vs p v q \<longleftrightarrow> (\<exists>ws. v = Array (vs @ ws) \<and> advances p q
     \<and> sum_list (map value_nodes ws) + remaining_nodes q \<le> remaining_nodes p
     \<and> (\<forall>w \<in> set ws. d < MAX_DEPTH \<and> fits_depth (MAX_DEPTH - d - 1) w \<and> value_wf w))"

definition map_ok :: "nat \<Rightarrow> (cbor_value \<times> cbor_value) list \<Rightarrow> parser \<Rightarrow> cbor_value \<Rightarrow> parser \<Rightarrow> bool" where
  "map_ok d es p v q \<longleftrightarrow> (\<exists>ws. v = Map (es @ ws) \<and> advances p q
     \<and> sum_list (map (\<lambda>(k, v). value_nodes k + value_nodes v) ws) + remaining_nodes q \<le> remaining_nodes p
     \<and> (\<forall>(k, w) \<in> set ws. d < MAX_DEPTH \<and> fits_depth (MAX_DEPTH - d - 1) k \<and> value_wf k
          \<and> fits_depth (MAX_DEPTH - d - 1) w \<and> value_wf w))"

lemma array_ok_Nil: "advances p q \<Longrightarrow> array_ok d vs p (Array vs) q"
  by (auto simp: array_ok_def advances_def)

lemma map_ok_Nil: "advances p q \<Longrightarrow> map_ok d es p (Map es) q"
  by (auto simp: map_ok_def advances_def)

lemma array_ok_Cons:
  assumes "item_ok (d + 1) p x p1" and "array_ok d (vs @ [x]) p1 v q"
  shows "array_ok d vs p v q"
proof -
  from assms(2) obtain ws where "v = Array (vs @ x # ws)" "advances p1 q"
    "sum_list (map value_nodes ws) + remaining_nodes q \<le> remaining_nodes p1"
    "\<forall>w \<in> set ws. d < MAX_DEPTH \<and> fits_depth (MAX_DEPTH - d - 1) w \<and> value_wf w"
    by (auto simp: array_ok_def)
  with assms(1) show ?thesis
    unfolding array_ok_def
    by (intro exI [of _ "x # ws"]) (auto simp: item_ok_def intro: advances_trans)
qed

lemma map_ok_Cons:
  assumes "item_ok (d + 1) p k p1" and "item_ok (d + 1) p1 x p2" and "map_ok d (es @ [(k, x)]) p2 v q"
  shows "map_ok d es p v q"
proof -
  from assms(3) obtain ws where "v = Map (es @ (k, x) # ws)" "advances p2 q"
    "sum_list (map (\<lambda>(k, v). value_nodes k + value_nodes v) ws) + remaining_nodes q \<le> remaining_nodes p2"
    "\<forall>(k, w) \<in> set ws. d < MAX_DEPTH \<and> fits_depth (MAX_DEPTH - d - 1) k \<and> value_wf k
          \<and> fits_depth (MAX_DEPTH - d - 1) w \<and> value_wf w"
    by (auto simp: map_ok_def)
  with assms(1,2) show ?thesis
    unfolding map_ok_def
    by (intro exI [of _ "(k, x) # ws"]) (auto simp: item_ok_def intro: advances_trans)
qed

lemma array_ok_advance: "advances p p1 \<Longrightarrow> array_ok d vs p1 v q \<Longrightarrow> array_ok d vs p v q"
  by (auto simp: array_ok_def advances_def)

lemma map_ok_advance: "advances p p1 \<Longrightarrow> map_ok d es p1 v q \<Longrightarrow> map_ok d es p v q"
  by (auto simp: map_ok_def advances_def)

lemma at_break_advances: "at_break p = (Inr b, q) \<Longrightarrow> advances p q"
  by (auto simp: res_simps advances_def)

lemma uint_u64_range: "value_wf (Integer (uint (n :: u64)))" "value_wf (Integer (- 1 - uint (n :: u64)))"
proof -
  have "0 \<le> uint n" "uint n < 2 ^ 64" using uint_bounded [of n] by simp_all
  then show "value_wf (Integer (uint n))" "value_wf (Integer (- 1 - uint n))"
    by simp_all (use uint_ge_0 [of n] in linarith)+
qed

text \<open>The head of an item, and what is left to show of each kind once it has been read.\<close>

lemma item_cases:
  assumes "item depth p = (Inr v, q)"
  obtains (integer) head p1 p2 n where
    "claim_node depth p = (Inr (), p1)" "p_byte p1 = (Inr head, p2)"
    "argument (head AND 31) p2 = (Inr (Some n), q)" "v = Integer (uint n) \<or> v = Integer (- 1 - uint n)"
  | (str) head p1 p2 bs where
    "claim_node depth p = (Inr (), p1)" "p_byte p1 = (Inr head, p2)"
    "cbor_string (head AND 31) depth (drop_bit 5 head) p2 = (Inr bs, q)"
    "v = Bytes bs \<or> v = Text bs \<and> utf8_valid bs"
  | (arr) head p1 p2 where
    "claim_node depth p = (Inr (), p1)" "p_byte p1 = (Inr head, p2)" "drop_bit 5 head = 4"
    "array (head AND 31) depth p2 = (Inr v, q)"
  | (mp) head p1 p2 where
    "claim_node depth p = (Inr (), p1)" "p_byte p1 = (Inr head, p2)" "drop_bit 5 head = 5"
    "map_item (head AND 31) depth p2 = (Inr v, q)"
  | (tag) head p1 p2 p3 t w where
    "claim_node depth p = (Inr (), p1)" "p_byte p1 = (Inr head, p2)" "drop_bit 5 head = 6"
    "argument (head AND 31) p2 = (Inr (Some t), p3)" "item (depth + 1) p3 = (Inr w, q)" "v = Tag t w"
  | (smp) head p1 p2 where
    "claim_node depth p = (Inr (), p1)" "p_byte p1 = (Inr head, p2)" "simple (head AND 31) p2 = (Inr v, q)"
proof -
  let ?body = "\<lambda>head p1.
       let mt = drop_bit 5 head; ai = head AND 0x1F
       in if mt = 0 \<or> mt = 1 then
            p_bind (argument ai) (\<lambda>a.
            p_bind (p_lift (ok_or a (Unsupported mt 31))) (\<lambda>n.
              p_ret (if mt = 0 then Integer (uint n) else Integer (- 1 - uint n)))) p1
          else if mt = 2 \<or> mt = 3 then
            p_bind (cbor_string ai depth mt) (\<lambda>bs.
              if mt = 2 then p_ret (Bytes bs)
              else if utf8_valid bs then p_ret (Text bs)
              else p_lift (Inl (Unsupported 3 ai))) p1
          else if mt = 4 then array ai depth p1
          else if mt = 5 then map_item ai depth p1
          else if mt = 6 then
            p_bind (argument ai) (\<lambda>a.
            p_bind (p_lift (ok_or a (Unsupported 6 31))) (\<lambda>tag.
            p_bind (item (depth + 1)) (\<lambda>inner. p_ret (Tag tag inner)))) p1
          else simple ai p1"
  from assms obtain p1 head p2 where cl: "claim_node depth p = (Inr (), p1)"
    and bt: "p_byte p1 = (Inr head, p2)" and body: "?body head p2 = (Inr v, q)"
    unfolding item.simps [of depth p] by (auto simp: p_bind_eq_Inr)
  let ?mt = "drop_bit 5 head"
  consider "?mt = 0 \<or> ?mt = 1" | "?mt = 2 \<or> ?mt = 3" | "?mt = 4" | "?mt = 5" | "?mt = 6"
    | "?mt \<notin> {0, 1, 2, 3, 4, 5, 6}" by blast
  then show thesis
  proof cases
    case 1
    then have "(?mt = 0 \<or> ?mt = 1) = True" by simp
    with body show thesis
      using integer [OF cl bt]
      by (auto simp: Let_def p_bind_eq_Inr p_lift_eq p_ret_eq ok_or_eq_Inr split: if_splits)
  next
    case 2
    then have "(?mt = 0 \<or> ?mt = 1) = False" "(?mt = 2 \<or> ?mt = 3) = True" by auto
    with body obtain bs where "cbor_string (head AND 31) depth ?mt p2 = (Inr bs, q)"
      "v = Bytes bs \<or> v = Text bs \<and> utf8_valid bs"
      by (auto simp only: Let_def p_bind_eq_Inr p_lift_eq p_ret_eq if_True if_False split: if_splits)
    then show thesis by (rule str [OF cl bt])
  next
    case 3
    with body show thesis using arr [OF cl bt] by simp
  next
    case 4
    with body show thesis using mp [OF cl bt] by simp
  next
    case 5
    with body show thesis
      using tag [OF cl bt] by (auto simp: p_bind_eq_Inr p_lift_eq p_ret_eq ok_or_eq_Inr)
  next
    case 6
    with body show thesis using smp [OF cl bt] by simp
  qed
qed

lemma items_ok:
  shows "item d p = (Inr v, q) \<Longrightarrow> item_ok d p v q"
    and "array ai d p = (Inr v, q) \<Longrightarrow> array_ok d [] p v q"
    and "array_definite n d vs p = (Inr v, q) \<Longrightarrow> array_ok d vs p v q"
    and "array_indefinite d vs p = (Inr v, q) \<Longrightarrow> array_ok d vs p v q"
    and "map_item ai d p = (Inr v, q) \<Longrightarrow> map_ok d [] p v q"
    and "map_definite n d es p = (Inr v, q) \<Longrightarrow> map_ok d es p v q"
    and "map_indefinite d es p = (Inr v, q) \<Longrightarrow> map_ok d es p v q"
proof (induction d p and ai d p and n d vs p and d vs p and ai d p and n d es p and d es p
    arbitrary: v q and v q and v q and v q and v q and v q and v q rule: items_induct)
  case (1 depth p)
  show ?case
    using "1.prems"
  proof (cases rule: item_cases)
    case integer
    then show ?thesis
      using argument_advances [OF integer(3)] uint_u64_range
      by (auto simp: item_ok_def res_simps advances_def)
  next
    case str
    then show ?thesis
      using cbor_string_ok [OF str(3)] by (auto simp: item_ok_def res_simps advances_def)
  next
    case (arr head p1 p2)
    have "array_ok depth [] p2 v q"
      by (rule "1.IH"(1) [OF arr(1,2) refl refl _ _ _ arr(4)]) (use arr(3) in auto)
    with arr show ?thesis
      by (auto simp: array_ok_def item_ok_def res_simps advances_def)
  next
    case (mp head p1 p2)
    have "map_ok depth [] p2 v q"
      by (rule "1.IH"(2) [OF mp(1,2) refl refl _ _ _ _ mp(4)]) (use mp(3) in auto)
    with mp show ?thesis
      by (fastforce simp: map_ok_def item_ok_def res_simps advances_def)
  next
    case (tag head p1 p2 p3 t w)
    have "item_ok (depth + 1) p3 w q"
      by (rule "1.IH"(3) [OF tag(1,2) refl refl _ _ _ _ _ tag(4) _ tag(5)])
        (use tag(3) in \<open>auto simp: p_lift_eq\<close>)
    with tag argument_advances [OF tag(4)] show ?thesis
      by (auto simp: item_ok_def res_simps advances_def)
  next
    case smp
    then show ?thesis
      using simple_advances [OF smp(3)] simple_value [OF smp(3)]
      by (auto simp: item_ok_def res_simps advances_def)
  qed
next
  case (2 ai depth p)
  from "2.prems" obtain a p1 where a: "argument ai p = (Inr a, p1)"
    and r: "(case a of Some len \<Rightarrow> array_definite (unat len) depth [] p1
                     | None \<Rightarrow> array_indefinite depth [] p1) = (Inr v, q)"
    unfolding array.simps [of ai depth p] by (auto simp: p_bind_eq_Inr)
  have "array_ok depth [] p1 v q"
    using r "2.IH" [OF a] by (cases a) auto
  with argument_advances [OF a] show ?case by (rule array_ok_advance)
next
  case (3 n depth items p)
  show ?case
  proof (cases "n = 0")
    case False
    with "3.prems" obtain x p1 where it: "item (depth + 1) p = (Inr x, p1)"
      and rest: "array_definite (n - 1) depth (items @ [x]) p1 = (Inr v, q)"
      unfolding array_definite.simps [of n depth items p] by (auto simp: p_bind_eq_Inr)
    show ?thesis
      by (rule array_ok_Cons [OF "3.IH"(1) [OF False it] "3.IH"(2) [OF False it rest]])
  qed (use "3.prems" array_ok_Nil in \<open>auto simp: array_definite.simps\<close>)
next
  case (4 depth items p)
  from "4.prems" obtain brk p1 where br: "at_break p = (Inr brk, p1)"
    unfolding array_indefinite.simps [of depth items p] by (auto simp: p_bind_eq_Inr)
  show ?case
  proof (cases brk)
    case True
    with br "4.prems" show ?thesis
      unfolding array_indefinite.simps [of depth items p]
      using array_ok_Nil [OF at_break_advances [OF br]] by (auto simp: p_bind_eq_Inr)
  next
    case False
    from "4.prems" br False obtain x p2 where it: "item (depth + 1) p1 = (Inr x, p2)"
      and rest: "array_indefinite depth (items @ [x]) p2 = (Inr v, q)"
      unfolding array_indefinite.simps [of depth items p] by (auto simp: p_bind_eq_Inr)
    have "array_ok depth items p1 v q"
      by (rule array_ok_Cons [OF "4.IH"(1) [OF br False it] "4.IH"(2) [OF br False it rest]])
    with at_break_advances [OF br] show ?thesis by (rule array_ok_advance)
  qed
next
  case (5 ai depth p)
  from "5.prems" obtain a p1 where a: "argument ai p = (Inr a, p1)"
    and r: "(case a of Some len \<Rightarrow> map_definite (unat len) depth [] p1
                     | None \<Rightarrow> map_indefinite depth [] p1) = (Inr v, q)"
    unfolding map_item.simps [of ai depth p] by (auto simp: p_bind_eq_Inr)
  have "map_ok depth [] p1 v q"
    using r "5.IH" [OF a] by (cases a) auto
  with argument_advances [OF a] show ?case by (rule map_ok_advance)
next
  case (6 n depth entries p)
  show ?case
  proof (cases "n = 0")
    case False
    with "6.prems" obtain k p1 x p2 where k: "item (depth + 1) p = (Inr k, p1)"
      and x: "item (depth + 1) p1 = (Inr x, p2)"
      and rest: "map_definite (n - 1) depth (entries @ [(k, x)]) p2 = (Inr v, q)"
      unfolding map_definite.simps [of n depth entries p] by (auto simp: p_bind_eq_Inr)
    show ?thesis
      by (rule map_ok_Cons [OF "6.IH"(1) [OF False k] "6.IH"(2) [OF False k x]
            "6.IH"(3) [OF False k x rest]])
  qed (use "6.prems" map_ok_Nil in \<open>auto simp: map_definite.simps\<close>)
next
  case (7 depth entries p)
  from "7.prems" obtain brk p1 where br: "at_break p = (Inr brk, p1)"
    unfolding map_indefinite.simps [of depth entries p] by (auto simp: p_bind_eq_Inr)
  show ?case
  proof (cases brk)
    case True
    with br "7.prems" show ?thesis
      unfolding map_indefinite.simps [of depth entries p]
      using map_ok_Nil [OF at_break_advances [OF br]] by (auto simp: p_bind_eq_Inr)
  next
    case False
    from "7.prems" br False obtain k p2 x p3 where k: "item (depth + 1) p1 = (Inr k, p2)"
      and x: "item (depth + 1) p2 = (Inr x, p3)"
      and rest: "map_indefinite depth (entries @ [(k, x)]) p3 = (Inr v, q)"
      unfolding map_indefinite.simps [of depth entries p] by (auto simp: p_bind_eq_Inr)
    have "map_ok depth entries p1 v q"
      by (rule map_ok_Cons [OF "7.IH"(1) [OF br False k] "7.IH"(2) [OF br False k x]
            "7.IH"(3) [OF br False k x rest]])
    with at_break_advances [OF br] show ?thesis by (rule map_ok_advance)
  qed
qed

end
