(* ===== verification/Cbor_Roundtrip.thy ===== *)
theory Cbor_Roundtrip
  imports Cbor_Encoding Cbor_Decoding
begin

text \<open>
  Decoding undoes encoding, for all three profiles. The legacy profiles keep the entry order of
  maps, so the value comes back as it was; the canonical profile sorts map entries on the way out,
  so what comes back is the value with its maps in canonical order.
\<close>

section \<open>Reading back a head\<close>

lemma head_byte_split:
  fixes k a :: byte
  assumes "k < 8" and "a < 32"
  shows "drop_bit 5 (push_bit 5 k OR a) = k" and "(push_bit 5 k OR a) AND 31 = a"
proof -
  have "a AND mask 5 = a" "k AND mask 3 = k"
    using assms less_mask_eq [of a 5] less_mask_eq [of k 3] by simp_all
  then have a: "bit a n \<longrightarrow> n < 5" and k: "bit k n \<longrightarrow> n < 3" for n
    by (metis bit_and_iff bit_mask_iff)+
  have m: "(31 :: byte) = mask 5" by (simp add: mask_numeral)
  show "drop_bit 5 (push_bit 5 k OR a) = k"
    by (rule bit_word_eqI) (use a k in \<open>auto simp: bit_simps\<close>)
  show "(push_bit 5 k OR a) AND 31 = a"
    unfolding m by (rule bit_word_eqI) (use a in \<open>auto simp: bit_simps\<close>)
qed

text \<open>A parser that has \<open>bs\<close> in front of it.\<close>

definition facing :: "parser \<Rightarrow> bytes \<Rightarrow> bool" where
  "facing p bs \<longleftrightarrow> (\<exists>pre post. p_data p = pre @ bs @ post \<and> p_pos p = length pre)
     \<and> length (p_data p) \<le> usize_max"

definition skip :: "nat \<Rightarrow> parser \<Rightarrow> parser" where
  "skip n p = p\<lparr>p_pos := p_pos p + n\<rparr>"

definition spend :: "nat \<Rightarrow> parser \<Rightarrow> parser" where
  "spend n p = p\<lparr>remaining_nodes := remaining_nodes p - n\<rparr>"

lemma facing_append: "facing p (xs @ ys) \<Longrightarrow> facing p xs \<and> facing (skip (length xs) p) ys"
  unfolding facing_def skip_def
  by (auto; metis append.assoc length_append)

lemma skip_skip [simp]: "skip m (skip n p) = skip (n + m) p"
  by (simp add: skip_def)

lemma skip_0 [simp]: "skip 0 p = p"
  by (simp add: skip_def)

lemma spend_spend [simp]: "spend m (spend n p) = spend (n + m) p"
  by (simp add: spend_def)

lemma spend_0 [simp]: "spend 0 p = p"
  by (simp add: spend_def)

lemma spend_skip [simp]: "spend m (skip n p) = skip n (spend m p)"
  by (simp add: spend_def skip_def)

lemma facing_spend [simp]: "facing (spend n p) bs = facing p bs"
  by (simp add: facing_def spend_def)

lemma remaining_spend [simp]: "remaining_nodes (spend n p) = remaining_nodes p - n"
  by (simp add: spend_def)

lemma remaining_skip [simp]: "remaining_nodes (skip n p) = remaining_nodes p"
  by (simp add: skip_def)

lemma p_byte_facing: "facing p (b # bs) \<Longrightarrow> p_byte p = (Inr b, skip 1 p) \<and> facing (skip 1 p) bs"
  using facing_append [of p "[b]" bs] by (auto simp: facing_def p_byte_eq_Inr skip_def)

lemma p_take_facing: "facing p bs \<Longrightarrow> n = length bs \<Longrightarrow> p_take n p = (Inr bs, skip n p)"
  by (auto simp: facing_def p_take_eq_Inr skip_def slice_append_mid)

lemma at_break_facing: "facing p (b # bs) \<Longrightarrow> at_break p = (Inr (b = 0xFF), if b = 0xFF then skip 1 p else p)"
  by (auto simp: facing_def at_break_def skip_def)

lemma facing_length: "facing p bs \<Longrightarrow> length bs \<le> usize_max"
  by (auto simp: facing_def)

lemma claim_node_spend: "d \<le> MAX_DEPTH \<Longrightarrow> 0 < remaining_nodes p \<Longrightarrow> claim_node d p = (Inr (), spend 1 p)"
  by (simp add: claim_node_def spend_def)

definition is_head :: "byte \<Rightarrow> u64 \<Rightarrow> byte \<Rightarrow> bytes \<Rightarrow> bool" where
  "is_head mt arg ai tail \<longleftrightarrow> write_head [] mt arg = (mt OR ai) # tail \<and> ai \<le> 27
     \<and> (\<forall>p. facing p tail \<longrightarrow> argument ai p = (Inr (Some arg), skip (length tail) p))"

lemma unat_ucast_small:
  "unat (arg :: u64) < 2 ^ LENGTH('a) \<Longrightarrow> unat (ucast arg :: 'a::len word) = unat arg"
  by (simp add: unsigned_ucast_eq take_bit_nat_eq_self)

lemma ucast_byte_back: "unat (arg :: u64) < 256 \<Longrightarrow> ucast (ucast arg :: byte) = arg"
  by (simp add: word_unat_eq_iff unsigned_ucast_eq unsigned_take_bit_eq take_bit_nat_eq_self)

lemma write_head_is_head: "\<exists>ai tail. is_head mt arg ai tail"
proof -
  have le: "arg \<le> 0xFF \<longleftrightarrow> unat arg < 256 ^ 1" "arg \<le> 0xFFFF \<longleftrightarrow> unat arg < 256 ^ 2"
    "arg \<le> 0xFFFFFFFF \<longleftrightarrow> unat arg < 256 ^ 4"
    by (simp_all add: word_le_nat_alt) linarith+
  consider "arg < 24" | "\<not> arg < 24" "arg \<le> 0xFF" | "\<not> arg \<le> 0xFF" "arg \<le> 0xFFFF"
    | "\<not> arg \<le> 0xFFFF" "arg \<le> 0xFFFFFFFF" | "\<not> arg \<le> 0xFFFFFFFF" by blast
  then show ?thesis
  proof cases
    case 1
    then have "unat arg < 24" by (simp add: word_less_nat_alt)
    then have "(ucast arg :: byte) \<le> 23" "ucast (ucast arg :: byte) = arg"
      using unat_ucast_small [of arg, where 'a = 8] by (simp_all add: word_le_nat_alt ucast_byte_back)
    moreover from this have "(ucast arg :: byte) \<le> 27" by (simp add: word_le_nat_alt)
    ultimately have "is_head mt arg (ucast arg) []"
      using 1 by (simp add: is_head_def write_head_def argument_def p_ret_def)
    then show ?thesis by blast
  next
    case 2
    then have "is_head mt arg 24 [ucast arg]"
      using le(1) by (auto simp: is_head_def write_head_def argument_def p_ret_def p_bind_def
          ucast_byte_back dest!: p_byte_facing)
    then show ?thesis by blast
  next
    case 3
    then have small: "unat arg < 256 ^ 2" and "24 \<le> arg" using le by (auto simp: word_le_nat_alt)
    then have "unat (ucast arg :: u16) = unat arg" using unat_ucast_small [of arg, where 'a = 16] by simp
    with small 3 have "is_head mt arg 25 (be_bytes 2 (unat (ucast arg :: u16)))"
      by (auto simp: is_head_def write_head_def argument_def p_ret_def p_bind_def p_take_facing
          word_le_nat_alt word_less_nat_alt)
    then show ?thesis by blast
  next
    case 4
    then have small: "unat arg < 256 ^ 4" and "24 \<le> arg" using le by (auto simp: word_le_nat_alt)
    then have "unat (ucast arg :: u32) = unat arg" using unat_ucast_small [of arg, where 'a = 32] by simp
    with small 4 have "is_head mt arg 26 (be_bytes 4 (unat (ucast arg :: u32)))"
      by (auto simp: is_head_def write_head_def argument_def p_ret_def p_bind_def p_take_facing
          word_le_nat_alt word_less_nat_alt)
    then show ?thesis by blast
  next
    case 5
    have "unat arg < 256 ^ 8" using unsigned_less [of arg] by simp
    with 5 have "is_head mt arg 27 (be_bytes 8 (unat arg))"
      by (auto simp: is_head_def write_head_def argument_def p_ret_def p_bind_def p_take_facing
          word_le_nat_alt word_less_nat_alt)
    then show ?thesis by blast
  qed
qed

section \<open>Values in the order the encoder writes them\<close>

lemma size_sorted_entries_entry:
  "(k, v) \<in> set (sorted_entries p es) \<Longrightarrow> size k + size v < Suc (size_list (size_prod size size) es)"
  using set_sorted_entries size_entry by blast

function (sequential) normalise :: "profile \<Rightarrow> cbor_value \<Rightarrow> cbor_value" where
  "normalise p (Array xs) = Array (map (normalise p) xs)"
| "normalise p (Map es) = Map (map (\<lambda>(k, v). (normalise p k, normalise p v)) (sorted_entries p es))"
| "normalise p (Tag t v) = Tag t (normalise p v)"
| "normalise p v = v"
  by pat_completeness auto
termination
  by (relation "measure (\<lambda>(p, v). size v)")
    (auto dest!: size_item size_sorted_entries_entry)

lemma normalise_id: "\<not> sort_keys p \<Longrightarrow> normalise p v = v"
proof (induction p v rule: normalise.induct)
  case (2 p es)
  then show ?case by (auto simp: sorted_entries_def intro!: map_idI)
qed (auto intro!: map_idI)

section \<open>Reading back an item\<close>

definition reads :: "nat \<Rightarrow> bytes \<Rightarrow> cbor_value \<Rightarrow> bool" where
  "reads d bs v \<longleftrightarrow> bs \<noteq> [] \<and> hd bs \<noteq> 0xFF \<and>
     (\<forall>p. facing p bs \<longrightarrow> value_nodes v \<le> remaining_nodes p \<longrightarrow>
        item d p = (Inr v, skip (length bs) (spend (value_nodes v) p)))"

lemma readsD:
  "reads d bs v \<Longrightarrow> facing p bs \<Longrightarrow> value_nodes v \<le> remaining_nodes p \<Longrightarrow>
   item d p = (Inr v, skip (length bs) (spend (value_nodes v) p))"
  by (simp add: reads_def)

lemma value_nodes_pos [simp]: "0 < value_nodes v"
  by (cases v) auto

lemma array_definite_reads:
  assumes "list_all2 (reads (d + 1)) bss vs" and "facing p (concat bss)"
    and "sum_list (map value_nodes vs) \<le> remaining_nodes p"
  shows "array_definite (length vs) d acc p =
     (Inr (Array (acc @ vs)), skip (length (concat bss)) (spend (sum_list (map value_nodes vs)) p))"
  using assms
proof (induction bss vs arbitrary: acc p rule: list_all2_induct)
  case Nil
  then show ?case by (simp add: array_definite.simps)
next
  case (Cons bs bss v vs)
  let ?q = "skip (length bs) (spend (value_nodes v) p)"
  have "item (d + 1) p = (Inr v, ?q)"
    using Cons.hyps(1) Cons.prems facing_append [of p bs "concat bss"] by (simp add: reads_def)
  moreover have "facing ?q (concat bss)"
    using Cons.prems facing_append [of "spend (value_nodes v) p" bs "concat bss"] by simp
  ultimately show ?case
    using Cons.IH [of ?q "acc @ [v]"] Cons.prems
    by (subst array_definite.simps) (simp add: p_bind_def add.commute)
qed

lemma array_indefinite_reads:
  assumes "list_all2 (reads (d + 1)) bss vs" and "facing p (concat bss @ [0xFF])"
    and "sum_list (map value_nodes vs) \<le> remaining_nodes p"
  shows "array_indefinite d acc p =
     (Inr (Array (acc @ vs)), skip (length (concat bss) + 1) (spend (sum_list (map value_nodes vs)) p))"
  using assms
proof (induction bss vs arbitrary: acc p rule: list_all2_induct)
  case Nil
  then show ?case
    by (subst array_indefinite.simps) (simp add: p_bind_def at_break_facing)
next
  case (Cons bs bss v vs)
  let ?q = "skip (length bs) (spend (value_nodes v) p)"
  obtain b bs' where bs: "bs = b # bs'" "b \<noteq> 0xFF" using Cons.hyps(1) by (cases bs) (auto simp: reads_def)
  have "item (d + 1) p = (Inr v, ?q)"
    using Cons.hyps(1) Cons.prems facing_append [of p bs "concat bss @ [0xFF]"] by (simp add: reads_def)
  moreover have "at_break p = (Inr False, p)"
    using Cons.prems bs by (simp add: at_break_facing)
  moreover have "facing ?q (concat bss @ [0xFF])"
    using Cons.prems facing_append [of "spend (value_nodes v) p" bs "concat bss @ [0xFF]"] by simp
  ultimately show ?case
    using Cons.IH [of ?q "acc @ [v]"] Cons.prems
    by (subst array_indefinite.simps) (simp add: p_bind_def ac_simps)
qed

definition entry_nodes :: "cbor_value \<times> cbor_value \<Rightarrow> nat" where
  "entry_nodes = (\<lambda>(k, v). value_nodes k + value_nodes v)"

definition reads_entry :: "nat \<Rightarrow> bytes \<Rightarrow> cbor_value \<times> cbor_value \<Rightarrow> bool" where
  "reads_entry d bs e \<longleftrightarrow> (\<exists>kb vb. bs = kb @ vb \<and> reads d kb (fst e) \<and> reads d vb (snd e))"

lemma reads_entryD:
  assumes "reads_entry d bs (k, v)" and "facing p (bs @ rest)" and "entry_nodes (k, v) \<le> remaining_nodes p"
  obtains p1 where "item d p = (Inr k, p1)"
    "item d p1 = (Inr v, skip (length bs) (spend (entry_nodes (k, v)) p))"
    "facing (skip (length bs) (spend (entry_nodes (k, v)) p)) rest"
    "bs \<noteq> []" "hd bs \<noteq> 0xFF"
proof -
  obtain kb vb where bs: "bs = kb @ vb" "reads d kb k" "reads d vb v"
    using assms(1) by (auto simp: reads_entry_def)
  let ?p1 = "skip (length kb) (spend (value_nodes k) p)"
  have f1: "facing p kb" "facing ?p1 vb"
    using assms(2) facing_append [of p kb "vb @ rest"] facing_append [of ?p1 vb rest]
      facing_append [of "spend (value_nodes k) p" kb "vb @ rest"] bs(1) by auto
  have f2: "facing (skip (length bs) (spend (entry_nodes (k, v)) p)) rest"
    using assms(2) facing_append [of "spend (entry_nodes (k, v)) p" bs rest] by simp
  have n: "value_nodes k \<le> remaining_nodes p" "value_nodes v \<le> remaining_nodes ?p1"
    using assms(3) by (simp_all add: entry_nodes_def)
  show thesis
    by (rule that [OF readsD [OF bs(2) f1(1) n(1)] _ f2])
      (use readsD [OF bs(3) f1(2) n(2)] bs in \<open>auto simp: entry_nodes_def reads_def\<close>)
qed

lemma map_definite_reads:
  assumes "list_all2 (reads_entry (d + 1)) bss es" and "facing p (concat bss)"
    and "sum_list (map entry_nodes es) \<le> remaining_nodes p"
  shows "map_definite (length es) d acc p =
     (Inr (Map (acc @ es)), skip (length (concat bss)) (spend (sum_list (map entry_nodes es)) p))"
  using assms
proof (induction bss es arbitrary: acc p rule: list_all2_induct)
  case Nil
  then show ?case by (simp add: map_definite.simps)
next
  case (Cons bs bss e es)
  obtain k v where e: "e = (k, v)" by (cases e)
  have n: "entry_nodes (k, v) \<le> remaining_nodes p" using Cons.prems e by simp
  from Cons.hyps(1) Cons.prems obtain p1 where "item (d + 1) p = (Inr k, p1)"
    "item (d + 1) p1 = (Inr v, skip (length bs) (spend (entry_nodes (k, v)) p))"
    "facing (skip (length bs) (spend (entry_nodes (k, v)) p)) (concat bss)"
    using reads_entryD [of "d + 1" bs k v p "concat bss", OF _ _ n] e by auto
  then show ?case
    using Cons.IH [of "skip (length bs) (spend (entry_nodes (k, v)) p)" "acc @ [(k, v)]"] Cons.prems e
    by (subst map_definite.simps) (simp add: p_bind_def ac_simps)
qed

lemma map_indefinite_reads:
  assumes "list_all2 (reads_entry (d + 1)) bss es" and "facing p (concat bss @ [0xFF])"
    and "sum_list (map entry_nodes es) \<le> remaining_nodes p"
  shows "map_indefinite d acc p =
     (Inr (Map (acc @ es)), skip (length (concat bss) + 1) (spend (sum_list (map entry_nodes es)) p))"
  using assms
proof (induction bss es arbitrary: acc p rule: list_all2_induct)
  case Nil
  then show ?case
    by (subst map_indefinite.simps) (simp add: p_bind_def at_break_facing)
next
  case (Cons bs bss e es)
  obtain k v where e: "e = (k, v)" by (cases e)
  have n: "entry_nodes (k, v) \<le> remaining_nodes p" using Cons.prems e by simp
  from Cons.hyps(1) Cons.prems obtain p1 where r: "item (d + 1) p = (Inr k, p1)"
    "item (d + 1) p1 = (Inr v, skip (length bs) (spend (entry_nodes (k, v)) p))"
    "facing (skip (length bs) (spend (entry_nodes (k, v)) p)) (concat bss @ [0xFF])"
    "bs \<noteq> []" "hd bs \<noteq> 0xFF"
    using reads_entryD [of "d + 1" bs k v p "concat bss @ [0xFF]", OF _ _ n] e by auto
  have "at_break p = (Inr False, p)"
    using Cons.prems r(4,5) by (cases bs) (simp_all add: at_break_facing)
  with r(1-3) show ?case
    using Cons.IH [of "skip (length bs) (spend (entry_nodes (k, v)) p)" "acc @ [(k, v)]"] Cons.prems e
    by (subst map_indefinite.simps) (simp add: p_bind_def ac_simps)
qed

lemma head_not_break:
  fixes k ai :: byte
  assumes "k < 8" and "ai < 32" and "k \<noteq> 7 \<or> ai \<noteq> 31"
  shows "push_bit 5 k OR ai \<noteq> 0xFF"
proof
  assume eq: "push_bit 5 k OR ai = 0xFF"
  have "k = 7" using head_byte_split(1) [OF assms(1,2)] by (simp add: eq)
  moreover have "ai = 31" using head_byte_split(2) [OF assms(1,2)] by (simp add: eq)
  ultimately show False using assms(3) by simp
qed

text \<open>The item reader after the claim and the head byte, at a known major type.\<close>

lemma item_after_head:
  assumes "facing p ((push_bit 5 k OR ai) # tail)" and "d \<le> MAX_DEPTH" and "0 < remaining_nodes p"
    and "k < 8" and "ai < 32"
  shows "k = 0 \<or> k = 1 \<Longrightarrow> argument ai (skip 1 (spend 1 p)) = (Inr (Some n), q) \<Longrightarrow>
           item d p = (Inr (if k = 0 then Integer (uint n) else Integer (- 1 - uint n)), q)"
    and "k = 2 \<Longrightarrow> cbor_string ai d 2 (skip 1 (spend 1 p)) = (Inr bs, q) \<Longrightarrow> item d p = (Inr (Bytes bs), q)"
    and "k = 3 \<Longrightarrow> cbor_string ai d 3 (skip 1 (spend 1 p)) = (Inr bs, q) \<Longrightarrow> utf8_valid bs \<Longrightarrow>
           item d p = (Inr (Text bs), q)"
    and "k = 4 \<Longrightarrow> item d p = array ai d (skip 1 (spend 1 p))"
    and "k = 5 \<Longrightarrow> item d p = map_item ai d (skip 1 (spend 1 p))"
    and "k = 6 \<Longrightarrow> argument ai (skip 1 (spend 1 p)) = (Inr (Some t), q) \<Longrightarrow>
           item (d + 1) q = (Inr v, q') \<Longrightarrow> item d p = (Inr (Tag t v), q')"
    and "k = 7 \<Longrightarrow> item d p = simple ai (skip 1 (spend 1 p))"
proof -
  have cl: "claim_node d p = (Inr (), spend 1 p)" using assms(2,3) by (rule claim_node_spend)
  have bt: "p_byte (spend 1 p) = (Inr (push_bit 5 k OR ai), skip 1 (spend 1 p))"
    using assms(1) p_byte_facing [of "spend 1 p"] by simp
  have eq: "item d p =
     (if k = 0 \<or> k = 1 then
        p_bind (argument ai) (\<lambda>a.
        p_bind (p_lift (ok_or a (Unsupported k 31))) (\<lambda>n.
          p_ret (if k = 0 then Integer (uint n) else Integer (- 1 - uint n)))) (skip 1 (spend 1 p))
      else if k = 2 \<or> k = 3 then
        p_bind (cbor_string ai d k) (\<lambda>bs.
          if k = 2 then p_ret (Bytes bs)
          else if utf8_valid bs then p_ret (Text bs)
          else p_lift (Inl (Unsupported 3 ai))) (skip 1 (spend 1 p))
      else if k = 4 then array ai d (skip 1 (spend 1 p))
      else if k = 5 then map_item ai d (skip 1 (spend 1 p))
      else if k = 6 then
        p_bind (argument ai) (\<lambda>a.
        p_bind (p_lift (ok_or a (Unsupported 6 31))) (\<lambda>tag.
        p_bind (item (d + 1)) (\<lambda>inner. p_ret (Tag tag inner)))) (skip 1 (spend 1 p))
      else simple ai (skip 1 (spend 1 p)))"
    unfolding item.simps [of d p] p_bind_def [of "claim_node d"] cl prod.case sum.case
      p_bind_def [of p_byte] bt Let_def head_byte_split [OF assms(4,5)] ..
  note open_item = eq p_bind_def p_lift_def p_ret_def
  show "k = 0 \<or> k = 1 \<Longrightarrow> argument ai (skip 1 (spend 1 p)) = (Inr (Some n), q) \<Longrightarrow>
           item d p = (Inr (if k = 0 then Integer (uint n) else Integer (- 1 - uint n)), q)"
    by (auto simp: open_item)
  show "k = 2 \<Longrightarrow> cbor_string ai d 2 (skip 1 (spend 1 p)) = (Inr bs, q) \<Longrightarrow> item d p = (Inr (Bytes bs), q)"
    by (simp add: open_item)
  show "k = 3 \<Longrightarrow> cbor_string ai d 3 (skip 1 (spend 1 p)) = (Inr bs, q) \<Longrightarrow> utf8_valid bs \<Longrightarrow>
           item d p = (Inr (Text bs), q)"
    by (simp add: open_item)
  show "k = 4 \<Longrightarrow> item d p = array ai d (skip 1 (spend 1 p))" by (simp add: open_item)
  show "k = 5 \<Longrightarrow> item d p = map_item ai d (skip 1 (spend 1 p))" by (simp add: open_item)
  show "k = 6 \<Longrightarrow> argument ai (skip 1 (spend 1 p)) = (Inr (Some t), q) \<Longrightarrow>
           item (d + 1) q = (Inr v, q') \<Longrightarrow> item d p = (Inr (Tag t v), q')"
    by (simp add: open_item)
  show "k = 7 \<Longrightarrow> item d p = simple ai (skip 1 (spend 1 p))" by (simp add: open_item)
qed

text \<open>The same with a head written by \<open>write_head\<close>.\<close>

lemma head_reads:
  assumes "k < 7"
  obtains ai tail where "write_head [] (push_bit 5 k) arg = (push_bit 5 k OR ai) # tail" "ai < 32"
    "hd (write_head [] (push_bit 5 k) arg) \<noteq> 0xFF"
    "\<And>p rest. facing p (write_head [] (push_bit 5 k) arg @ rest) \<Longrightarrow>
       argument ai (skip 1 (spend 1 p)) =
         (Inr (Some arg), skip (length (write_head [] (push_bit 5 k) arg)) (spend 1 p))
       \<and> facing (skip (length (write_head [] (push_bit 5 k) arg)) (spend 1 p)) rest
       \<and> facing p ((push_bit 5 k OR ai) # tail)"
proof -
  obtain ai tail where h: "is_head (push_bit 5 k) arg ai tail" using write_head_is_head by blast
  then have wh: "write_head [] (push_bit 5 k) arg = (push_bit 5 k OR ai) # tail" and ai: "ai < 32"
    using word_le_less_eq order_le_less_trans [of ai 27 32] by (auto simp: is_head_def)
  have k8: "k < 8" using assms by (rule order_less_trans) simp
  have "hd (write_head [] (push_bit 5 k) arg) \<noteq> 0xFF"
    using wh head_not_break [OF k8 ai] assms by auto
  moreover have "argument ai (skip 1 (spend 1 p)) =
         (Inr (Some arg), skip (length (write_head [] (push_bit 5 k) arg)) (spend 1 p))
       \<and> facing (skip (length (write_head [] (push_bit 5 k) arg)) (spend 1 p)) rest
       \<and> facing p ((push_bit 5 k OR ai) # tail)"
    if f: "facing p (write_head [] (push_bit 5 k) arg @ rest)" for p rest
  proof -
    have f1: "facing (spend 1 p) ((push_bit 5 k OR ai) # tail @ rest)" using f wh by simp
    then have "facing (skip 1 (spend 1 p)) tail"
      using p_byte_facing [OF f1] facing_append by blast
    then have "argument ai (skip 1 (spend 1 p)) = (Inr (Some arg), skip (length tail) (skip 1 (spend 1 p)))"
      using h by (simp add: is_head_def)
    then show ?thesis
      using f facing_append [of "spend 1 p" "write_head [] (push_bit 5 k) arg" rest]
        facing_append [of p "write_head [] (push_bit 5 k) arg" rest] wh
      by simp
  qed
  ultimately show thesis using that wh ai by blast
qed

section \<open>Encoded values read back\<close>

lemma enc_all_parts:
  "enc_all f xs = Inr bs \<Longrightarrow> \<exists>bss. bs = concat bss \<and> list_all2 (\<lambda>x b. f x = Inr b) xs bss"
proof (induction xs arbitrary: bs)
  case (Cons x xs)
  then obtain b bs' where "f x = Inr b" "enc_all f xs = Inr bs'" "bs = b @ bs'"
    by (auto simp: res_simps)
  with Cons.IH [of bs'] obtain bss where "bs' = concat bss" "list_all2 (\<lambda>x b. f x = Inr b) xs bss"
    by blast
  with \<open>f x = Inr b\<close> \<open>bs = b @ bs'\<close> show ?case
    by (intro exI [of _ "b # bss"]) simp
qed simp

lemma length_le_concat: "\<forall>b \<in> set bss. b \<noteq> [] \<Longrightarrow> length bss \<le> length (concat bss)"
proof (induction bss)
  case (Cons b bss)
  then show ?case by (cases b) auto
qed simp

lemma unat_of_nat_usize: "n \<le> usize_max \<Longrightarrow> unat (of_nat n :: u64) = n"
  by (simp add: unat_of_nat usize_max_def)

lemma length_to_usize_ok: "n \<le> usize_max \<Longrightarrow> length_to_usize (of_nat n) = Inr n"
  by (simp add: length_to_usize_def length_to_usize_with_max_def unat_of_nat_usize)

lemma cbor_string_reads:
  assumes "argument ai p = (Inr (Some (of_nat (length b))), q)" and "facing q b"
    and "m = 3 \<longrightarrow> utf8_valid b"
  shows "cbor_string ai d m p = (Inr b, skip (length b) q)"
  using assms p_take_facing [OF assms(2) refl] facing_length [OF assms(2)]
  by (simp add: cbor_string_def p_bind_def p_lift_def p_ret_def length_to_usize_ok)

lemma reads_headI:
  assumes "k < 7"
    and "\<And>p ai tail. \<lbrakk>facing p ((push_bit 5 k OR ai) # tail); value_nodes v \<le> remaining_nodes p; ai < 32;
           argument ai (skip 1 (spend 1 p)) =
             (Inr (Some arg), skip (length (write_head [] (push_bit 5 k) arg)) (spend 1 p));
           facing (skip (length (write_head [] (push_bit 5 k) arg)) (spend 1 p)) body\<rbrakk> \<Longrightarrow>
           item d p = (Inr v, skip (length (write_head [] (push_bit 5 k) arg) + length body)
                                (spend (value_nodes v) p))"
  shows "reads d (write_head [] (push_bit 5 k) arg @ body) v"
proof -
  obtain ai tail where wh: "write_head [] (push_bit 5 k) arg = (push_bit 5 k OR ai) # tail" and ai: "ai < 32"
    and hd: "hd (write_head [] (push_bit 5 k) arg) \<noteq> 0xFF"
    and rd: "\<And>p rest. facing p (write_head [] (push_bit 5 k) arg @ rest) \<Longrightarrow>
       argument ai (skip 1 (spend 1 p)) =
         (Inr (Some arg), skip (length (write_head [] (push_bit 5 k) arg)) (spend 1 p))
       \<and> facing (skip (length (write_head [] (push_bit 5 k) arg)) (spend 1 p)) rest
       \<and> facing p ((push_bit 5 k OR ai) # tail)"
    using head_reads [OF assms(1), of arg] by blast
  show ?thesis
    unfolding reads_def
  proof (intro conjI allI impI)
    show "write_head [] (push_bit 5 k) arg @ body \<noteq> []" by (simp add: write_head_nonempty)
    show "hd (write_head [] (push_bit 5 k) arg @ body) \<noteq> 0xFF" using hd wh by simp
    fix p assume "facing p (write_head [] (push_bit 5 k) arg @ body)" "value_nodes v \<le> remaining_nodes p"
    then show "item d p = (Inr v, skip (length (write_head [] (push_bit 5 k) arg @ body))
                                    (spend (value_nodes v) p))"
      using assms(2) [of p ai tail] rd [of p body] ai by simp
  qed
qed

lemma integer_reads:
  assumes "value_wf (Integer n)" and "d \<le> MAX_DEPTH"
  shows "reads d (encode_int [] n) (Integer n)"
proof (cases "0 \<le> n")
  case True
  then have u: "uint (word_of_int n :: u64) = n"
    using assms by (simp add: uint_word_of_int)
  have "reads d (write_head [] (push_bit 5 0) (word_of_int n) @ []) (Integer n)"
    by (rule reads_headI) (use item_after_head(1) [where k = 0] assms u in simp_all)
  with True show ?thesis by (simp add: encode_int_def MT_UINT_def)
next
  case False
  then have u: "uint (word_of_int (- 1 - n) :: u64) = - 1 - n"
    using assms by (subst uint_word_of_int) (simp del: of_int_diff of_int_minus)
  have "reads d (write_head [] (push_bit 5 1) (word_of_int (- 1 - n)) @ []) (Integer n)"
    by (rule reads_headI) (use item_after_head(1) [where k = 1] assms u in simp_all)
  with False show ?thesis by (simp add: encode_int_def MT_NINT_def)
qed

lemma bytes_reads:
  assumes "d \<le> MAX_DEPTH"
  shows "reads d (write_head [] MT_BYTES (of_nat (length b)) @ b) (Bytes b)"
  unfolding MT_BYTES_def
  by (rule reads_headI)
    (use item_after_head(2) [where k = 2, OF _ assms] cbor_string_reads [where m = 2] in simp_all)

lemma text_reads:
  assumes "d \<le> MAX_DEPTH" and "utf8_valid b"
  shows "reads d (write_head [] MT_TEXT (of_nat (length b)) @ b) (Text b)"
  unfolding MT_TEXT_def
  by (rule reads_headI)
    (use item_after_head(3) [where k = 3, OF _ assms(1)] cbor_string_reads [where m = 3] assms in simp_all)

lemma tag_reads:
  assumes "d \<le> MAX_DEPTH" and "reads (d + 1) bs v"
  shows "reads d (write_head [] MT_TAG t @ bs) (Tag t v)"
  unfolding MT_TAG_def
proof (rule reads_headI)
  fix p ai tail
  let ?n = "length (write_head [] (push_bit 5 6) t)"
  assume a: "facing p ((push_bit 5 6 OR ai) # tail)" "value_nodes (Tag t v) \<le> remaining_nodes p" "ai < 32"
    "argument ai (skip 1 (spend 1 p)) = (Inr (Some t), skip ?n (spend 1 p))"
    "facing (skip ?n (spend 1 p)) bs"
  have it: "item (d + 1) (skip ?n (spend 1 p)) =
      (Inr v, skip (length bs) (spend (value_nodes v) (skip ?n (spend 1 p))))"
    using readsD [OF assms(2) a(5)] a(2) by simp
  have "item d p = (Inr (Tag t v), skip (length bs) (spend (value_nodes v) (skip ?n (spend 1 p))))"
    by (rule item_after_head(6) [OF a(1) assms(1) _ _ a(3) _ a(4) it]) (use a(2) in simp_all)
  then show "item d p = (Inr (Tag t v), skip (?n + length bs) (spend (value_nodes (Tag t v)) p))"
    by (simp add: add.commute)
qed simp

lemma simple_reads:
  assumes "d \<le> MAX_DEPTH" and "value_nodes v = 1" and "ai < 31"
    and "\<And>p. facing p tail \<Longrightarrow> simple ai p = (Inr v, skip (length tail) p)"
  shows "reads d ((MT_SIMPLE OR ai) # tail) v"
proof -
  have ai: "ai < 32" using assms(3) by (rule order_less_trans) simp
  have "MT_SIMPLE OR ai \<noteq> 0xFF"
    unfolding MT_SIMPLE_def using assms(3) by (intro head_not_break) (simp_all add: ai)
  moreover have "item d p = (Inr v, skip (length tail + 1) (spend 1 p))"
    if f: "facing p ((MT_SIMPLE OR ai) # tail)" and n: "0 < remaining_nodes p" for p
  proof -
    have "facing (skip 1 (spend 1 p)) tail" using p_byte_facing [of "spend 1 p"] f by auto
    then have "simple ai (skip 1 (spend 1 p)) = (Inr v, skip (length tail) (skip 1 (spend 1 p)))"
      by (rule assms(4))
    then show ?thesis
      using item_after_head(7) [OF f [unfolded MT_SIMPLE_def] assms(1) n _ ai] by simp
  qed
  ultimately show ?thesis by (auto simp: reads_def assms(2))
qed

lemma array_reads_definite:
  assumes "list_all2 (reads (d + 1)) bss vs" and "d \<le> MAX_DEPTH" and "length (concat bss) \<le> usize_max"
  shows "reads d (write_head [] MT_ARRAY (of_nat (length vs)) @ concat bss) (Array vs)"
  unfolding MT_ARRAY_def
proof (rule reads_headI)
  fix p ai tail
  let ?n = "length (write_head [] (push_bit 5 4) (of_nat (length vs)))"
  let ?q = "skip ?n (spend 1 p)"
  assume a: "facing p ((push_bit 5 4 OR ai) # tail)" "value_nodes (Array vs) \<le> remaining_nodes p" "ai < 32"
    "argument ai (skip 1 (spend 1 p)) = (Inr (Some (of_nat (length vs))), ?q)"
    "facing ?q (concat bss)"
  have "\<forall>b \<in> set bss. b \<noteq> []"
    using assms(1) by (induction rule: list_all2_induct) (auto simp: reads_def)
  then have "length vs \<le> usize_max"
    using length_le_concat [of bss] assms(1,3) by (simp add: list_all2_lengthD)
  then have len: "unat (of_nat (length vs) :: u64) = length vs" by (rule unat_of_nat_usize)
  have loop: "array_definite (length vs) d [] ?q =
      (Inr (Array vs), skip (length (concat bss)) (spend (sum_list (map value_nodes vs)) ?q))"
    using array_definite_reads [OF assms(1) a(5), of "[]"] a(2) by simp
  have "item d p = array ai d (skip 1 (spend 1 p))"
    by (rule item_after_head(4) [OF a(1) assms(2) _ _ a(3)]) (use a(2) in simp_all)
  also have "\<dots> = array_definite (length vs) d [] ?q"
    by (simp only: array.simps [of ai d] p_bind_def a(4) prod.case sum.case option.case len)
  finally show "item d p = (Inr (Array vs), skip (?n + length (concat bss)) (spend (value_nodes (Array vs)) p))"
    using loop by (simp add: add.commute)
qed simp

lemma map_reads_definite:
  assumes "list_all2 (reads_entry (d + 1)) bss es" and "d \<le> MAX_DEPTH" and "length (concat bss) \<le> usize_max"
  shows "reads d (write_head [] MT_MAP (of_nat (length es)) @ concat bss) (Map es)"
  unfolding MT_MAP_def
proof (rule reads_headI)
  fix p ai tail
  let ?n = "length (write_head [] (push_bit 5 5) (of_nat (length es)))"
  let ?q = "skip ?n (spend 1 p)"
  assume a: "facing p ((push_bit 5 5 OR ai) # tail)" "value_nodes (Map es) \<le> remaining_nodes p" "ai < 32"
    "argument ai (skip 1 (spend 1 p)) = (Inr (Some (of_nat (length es))), ?q)"
    "facing ?q (concat bss)"
  have "\<forall>b \<in> set bss. b \<noteq> []"
    using assms(1) by (induction rule: list_all2_induct) (auto simp: reads_entry_def reads_def)
  then have "length es \<le> usize_max"
    using length_le_concat [of bss] assms(1,3) by (simp add: list_all2_lengthD)
  then have len: "unat (of_nat (length es) :: u64) = length es" by (rule unat_of_nat_usize)
  have loop: "map_definite (length es) d [] ?q =
      (Inr (Map es), skip (length (concat bss)) (spend (sum_list (map entry_nodes es)) ?q))"
    using map_definite_reads [OF assms(1) a(5), of "[]"] a(2) by (simp add: entry_nodes_def)
  have "item d p = map_item ai d (skip 1 (spend 1 p))"
    by (rule item_after_head(5) [OF a(1) assms(2) _ _ a(3)]) (use a(2) in simp_all)
  also have "\<dots> = map_definite (length es) d [] ?q"
    by (simp only: map_item.simps [of ai d] p_bind_def a(4) prod.case sum.case option.case len)
  finally show "item d p = (Inr (Map es), skip (?n + length (concat bss)) (spend (value_nodes (Map es)) p))"
    using loop by (simp add: add.commute entry_nodes_def)
qed simp

lemma indefinite_body:
  "facing p (h # body) \<Longrightarrow> facing (skip 1 (spend 1 p)) body"
  using p_byte_facing [of "spend 1 p"] by auto

lemma array_reads_indefinite:
  assumes "list_all2 (reads (d + 1)) bss vs" and "d \<le> MAX_DEPTH"
  shows "reads d ([MT_ARRAY OR 31] @ concat bss @ [0xFF]) (Array vs)"
  unfolding reads_def MT_ARRAY_def
proof (intro conjI allI impI)
  show "hd ([push_bit 5 4 OR 31] @ concat bss @ [0xFF]) \<noteq> (0xFF :: byte)" by simp
  fix p assume f: "facing p ([push_bit 5 4 OR 31] @ concat bss @ [0xFF])"
    and n: "value_nodes (Array vs) \<le> remaining_nodes p"
  have f1: "facing p ((push_bit 5 4 OR 31) # (concat bss @ [0xFF]))" using f by simp
  have "item d p = array 31 d (skip 1 (spend 1 p))"
    by (rule item_after_head(4) [OF f1 assms(2)]) (use n in simp_all)
  also have "\<dots> = array_indefinite d [] (skip 1 (spend 1 p))"
    by (simp add: array.simps p_bind_def argument_def p_ret_def)
  also have "\<dots> = (Inr (Array ([] @ vs)), skip (length (concat bss) + 1)
      (spend (sum_list (map value_nodes vs)) (skip 1 (spend 1 p))))"
    by (rule array_indefinite_reads [OF assms(1) indefinite_body [OF f1]]) (use n in simp_all)
  finally show "item d p = (Inr (Array vs), skip (length ([push_bit 5 4 OR 31] @ concat bss @ [0xFF]))
      (spend (value_nodes (Array vs)) p))"
    by simp
qed simp

lemma map_reads_indefinite:
  assumes "list_all2 (reads_entry (d + 1)) bss es" and "d \<le> MAX_DEPTH"
  shows "reads d ([MT_MAP OR 31] @ concat bss @ [0xFF]) (Map es)"
  unfolding reads_def MT_MAP_def
proof (intro conjI allI impI)
  show "hd ([push_bit 5 5 OR 31] @ concat bss @ [0xFF]) \<noteq> (0xFF :: byte)" by simp
  fix p assume f: "facing p ([push_bit 5 5 OR 31] @ concat bss @ [0xFF])"
    and n: "value_nodes (Map es) \<le> remaining_nodes p"
  have f1: "facing p ((push_bit 5 5 OR 31) # (concat bss @ [0xFF]))" using f by simp
  have "item d p = map_item 31 d (skip 1 (spend 1 p))"
    by (rule item_after_head(5) [OF f1 assms(2)]) (use n in simp_all)
  also have "\<dots> = map_indefinite d [] (skip 1 (spend 1 p))"
    by (simp add: map_item.simps p_bind_def argument_def p_ret_def)
  also have "\<dots> = (Inr (Map ([] @ es)), skip (length (concat bss) + 1)
      (spend (sum_list (map entry_nodes es)) (skip 1 (spend 1 p))))"
    by (rule map_indefinite_reads [OF assms(1) indefinite_body [OF f1]])
      (use n in \<open>simp_all add: entry_nodes_def\<close>)
  finally show "item d p = (Inr (Map es), skip (length ([push_bit 5 5 OR 31] @ concat bss @ [0xFF]))
      (spend (value_nodes (Map es)) p))"
    by (simp add: entry_nodes_def)
qed simp

lemma list_all2_reads:
  assumes "list_all2 (\<lambda>x b. f x = Inr b) xs bss"
    and "\<And>x b. x \<in> set xs \<Longrightarrow> f x = Inr b \<Longrightarrow> b \<in> set bss \<Longrightarrow> R b (g x)"
  shows "list_all2 R bss (map g xs)"
  using assms by (induction rule: list_all2_induct) auto

lemma length_part_le: "b \<in> set bss \<Longrightarrow> length b \<le> length (concat bss)"
  by (induction bss) auto

text \<open>
  The encoding of a value within the nesting limit reads back as the value, in whatever context the
  decoder meets it.
\<close>

lemma encode_reads:
  "encode v prof = Inr bs \<Longrightarrow> value_wf v \<Longrightarrow> d \<le> MAX_DEPTH \<Longrightarrow> fits_depth (MAX_DEPTH - d) v \<Longrightarrow>
   length bs \<le> usize_max \<Longrightarrow> reads d bs (normalise prof v)"
proof (induction v arbitrary: bs d rule: measure_induct_rule [where f = size])
  case (less v)
  note enc = less.prems(1) and wf = less.prems(2) and d = less.prems(3) and fits = less.prems(4)
    and len = less.prems(5)
  show ?case
  proof (cases v)
    case (Integer n)
    then show ?thesis using enc wf d integer_reads [of n d] by (simp add: encode_Integer)
  next
    case (Bytes b)
    then show ?thesis using enc d bytes_reads [of d b] by (simp add: encode_Bytes)
  next
    case (Text b)
    then show ?thesis using enc wf d text_reads [of d b] by (simp add: encode_Text)
  next
    case (Array items)
    from enc obtain body where ea: "enc_all (\<lambda>x. encode x prof) items = Inr body"
      and bs: "bs = (if indefinite prof then [MT_ARRAY OR 31] @ body @ [0xFF]
                     else write_head [] MT_ARRAY (of_nat (length items)) @ body)"
      by (auto simp: Array encode_Array res_bind_eq_Inr)
    from enc_all_parts [OF ea] obtain bss where body: "body = concat bss"
      and parts: "list_all2 (\<lambda>x b. encode x prof = Inr b) items bss" by blast
    have blen: "length (concat bss) \<le> usize_max" using len bs body by (auto split: if_splits)
    have "list_all2 (reads (d + 1)) bss (map (normalise prof) items)"
    proof (rule list_all2_reads [OF parts])
      fix x b assume x: "x \<in> set items" "encode x prof = Inr b" "b \<in> set bss"
      then have "0 < MAX_DEPTH - d" "fits_depth (MAX_DEPTH - d - 1) x" "value_wf x"
        using fits wf Array by auto
      then show "reads (d + 1) b (normalise prof x)"
        using x Array less.IH [of x b "d + 1"] length_part_le [OF x(3)] blen
        by (simp add: size_item)
    qed
    then show ?thesis
      using array_reads_definite [of d bss "map (normalise prof) items"] array_reads_indefinite d blen
        Array bs body by auto
  next
    case (Map es)
    let ?es = "sorted_entries prof es"
    let ?g = "\<lambda>(k, v). (normalise prof k, normalise prof v)"
    from enc obtain body where ea: "enc_all (enc_entry prof) ?es = Inr body"
      and bs: "bs = (if indefinite prof then [MT_MAP OR 31] @ body @ [0xFF]
                     else write_head [] MT_MAP (of_nat (length ?es)) @ body)"
      by (auto simp: Map encode_Map res_bind_eq_Inr)
    from enc_all_parts [OF ea] obtain bss where body: "body = concat bss"
      and parts: "list_all2 (\<lambda>x b. enc_entry prof x = Inr b) ?es bss" by blast
    have blen: "length (concat bss) \<le> usize_max" using len bs body by (auto split: if_splits)
    have "list_all2 (reads_entry (d + 1)) bss (map ?g ?es)"
    proof (rule list_all2_reads [OF parts])
      fix x b assume x: "x \<in> set ?es" "enc_entry prof x = Inr b" "b \<in> set bss"
      obtain k w where kw: "x = (k, w)" by (cases x)
      with x(2) obtain kb wb where e: "encode k prof = Inr kb" "encode w prof = Inr wb" "b = kb @ wb"
        by (auto simp: enc_entry_def res_bind_eq_Inr)
      have mem: "(k, w) \<in> set es" using x(1) kw set_sorted_entries by auto
      then have sub: "0 < MAX_DEPTH - d" "fits_depth (MAX_DEPTH - d - 1) k" "fits_depth (MAX_DEPTH - d - 1) w"
        "value_wf k" "value_wf w" "size k < size v" "size w < size v"
        using fits wf Map size_entry [OF mem] by auto
      have "reads (d + 1) kb (normalise prof k)" "reads (d + 1) wb (normalise prof w)"
        using less.IH [OF sub(6) e(1) sub(4), of "d + 1"] less.IH [OF sub(7) e(2) sub(5), of "d + 1"]
          sub length_part_le [OF x(3)] blen e(3) by simp_all
      then show "reads_entry (d + 1) b (?g x)"
        using e(3) kw by (auto simp: reads_entry_def)
    qed
    then show ?thesis
      using map_reads_definite [of d bss "map ?g ?es"] map_reads_indefinite d blen Map bs body by auto
  next
    case (Tag t w)
    with enc obtain b where b: "encode w prof = Inr b" "bs = write_head [] MT_TAG t @ b"
      by (auto simp: encode_Tag res_bind_eq_Inr)
    have "reads (d + 1) b (normalise prof w)"
      using less.IH [of w b "d + 1"] b Tag wf fits len by simp
    with b(2) show ?thesis using tag_reads [OF d] Tag by simp
  next
    case (Bool b)
    with enc have "bs = [MT_SIMPLE OR (if b then 21 else 20)]" by (simp add: encode_simple)
    then show ?thesis
      using simple_reads [OF d, of "Bool b" "if b then 21 else 20" "[]"] Bool
      by (simp add: simple_def p_ret_def)
  next
    case Null
    with enc have "bs = [MT_SIMPLE OR 22]" by (simp add: encode_simple)
    then show ?thesis
      using simple_reads [OF d, of Null 22 "[]"] Null by (simp add: simple_def p_ret_def)
  next
    case (Float f)
    with enc have "bs = (MT_SIMPLE OR 27) # be_bytes 8 (unat f)"
      by (simp add: encode_simple split: if_splits)
    moreover have "simple 27 p = (Inr (Float f), skip (length (be_bytes 8 (unat f))) p)"
      if "facing p (be_bytes 8 (unat f))" for p
      using p_take_facing [OF that, of 8] be_val_be_bytes_id [of "unat f" 8] unsigned_less [of f, where 'a = nat]
      by (simp add: simple_def p_bind_def p_ret_def)
    ultimately show ?thesis
      using simple_reads [OF d, of "Float f" 27 "be_bytes 8 (unat f)"] Float by simp
  qed
qed

section \<open>The round trip\<close>

lemma item_encode:
  assumes "encode v prof = Inr bs" and "value_wf v" and "fits_depth MAX_DEPTH v"
    and "length bs + length rest \<le> usize_max" and "value_nodes (normalise prof v) \<le> n"
  shows "item 0 \<lparr>p_data = bs @ rest, p_pos = 0, remaining_nodes = n, node_limit = l\<rparr>
    = (Inr (normalise prof v),
       \<lparr>p_data = bs @ rest, p_pos = length bs,
        remaining_nodes = n - value_nodes (normalise prof v), node_limit = l\<rparr>)"
proof -
  let ?p = "\<lparr>p_data = bs @ rest, p_pos = 0, remaining_nodes = n, node_limit = l\<rparr>"
  have "facing ?p bs" using assms(4) by (auto simp: facing_def)
  moreover have "reads 0 bs (normalise prof v)"
    using encode_reads [of v prof bs 0] assms by simp
  ultimately have "item 0 ?p = (Inr (normalise prof v),
      skip (length bs) (spend (value_nodes (normalise prof v)) ?p))"
    using assms(5) by (intro readsD) simp_all
  then show ?thesis by (simp add: skip_def spend_def)
qed

end
