(* ===== verification/Cbor_Canonical.thy ===== *)
theory Cbor_Canonical
  imports Cbor_Encoding
begin

text \<open>
  The canonical key order: shorter encodings first, equal lengths in byte order. Over a map whose
  keys have distinct encodings the sort is a permutation and forgets the order it was given, so the
  canonical bytes, and the digest taken over them, are a function of the set of entries.
\<close>

section \<open>The order\<close>

definition shortlex :: "bytes \<Rightarrow> bytes \<Rightarrow> bool" where
  "shortlex a b \<longleftrightarrow> length a < length b \<or> length a = length b \<and> a < b"

lemma append_less_iff:
  fixes xs ys :: "'a::linorder list"
  shows "length xs = length ys \<Longrightarrow> xs @ a < ys @ b \<longleftrightarrow> xs < ys \<or> xs = ys \<and> a < b"
  by (induction xs ys rule: list_induct2) auto

lemma less_iff_be_val: "length xs = length ys \<Longrightarrow> xs < ys \<longleftrightarrow> be_val xs < be_val ys"
proof (induction xs ys rule: list_induct2)
  case (Cons x xs y ys)
  let ?n = "256 ^ length xs :: nat"
  have bx: "be_val xs < ?n" and byv: "be_val ys < ?n"
    using be_val_bound [of xs] be_val_bound [of ys] Cons.hyps by simp_all
  have lt: "unat a * ?n + u < unat b * ?n + w" if "unat a < unat b" "u < ?n" for a b :: byte and u w
  proof -
    have "unat a * ?n + u < (unat a + 1) * ?n" using that(2) by simp
    also have "\<dots> \<le> unat b * ?n" using that(1) by (intro mult_le_mono1) simp
    finally show ?thesis by simp
  qed
  consider "x < y" | "x = y" | "y < x" by fastforce
  then show ?case
  proof cases
    case 1
    then show ?thesis using lt [of x y] bx Cons.hyps by (simp add: word_less_nat_alt)
  next
    case 2
    then show ?thesis using Cons by simp
  next
    case 3
    then show ?thesis using lt [of y x "be_val ys" "be_val xs"] byv Cons.hyps
      by (auto simp: word_less_nat_alt)
  qed
qed simp

lemma sort_key_less:
  assumes "length a \<le> usize_max" and "length b \<le> usize_max"
  shows "sort_key a < sort_key b \<longleftrightarrow> shortlex a b"
proof -
  have "length a < 256 ^ 8" "length b < 256 ^ 8" using assms by (simp_all add: usize_max_def)
  then have v: "be_val (be_bytes 8 (length a)) = length a" "be_val (be_bytes 8 (length b)) = length b"
    by (simp_all only: be_val_be_bytes_id)
  then have "be_bytes 8 (length a) < be_bytes 8 (length b) \<longleftrightarrow> length a < length b"
    by (simp add: less_iff_be_val)
  moreover have "be_bytes 8 (length a) = be_bytes 8 (length b) \<longleftrightarrow> length a = length b"
    using v by metis
  ultimately show ?thesis
    by (simp add: sort_key_def append_less_iff shortlex_def)
qed

lemma sort_key_inject: "sort_key a = sort_key b \<longleftrightarrow> a = b"
  by (auto simp: sort_key_def)

section \<open>The sort\<close>

definition key_bytes :: "cbor_value \<Rightarrow> bytes" where
  "key_bytes k = unwrap_or (encode k CanonicalForHashedSubstructures) []"

definition keyed_entries :: "(cbor_value \<times> cbor_value) list \<Rightarrow> (bytes \<times> cbor_value \<times> cbor_value) list" where
  "keyed_entries es = foldl (\<lambda>m e. btree_insert (sort_key (key_bytes (fst e))) e m) [] es"

lemma canonical_sort_keyed: "canonical_sort es = map snd (keyed_entries es)"
  by (simp add: canonical_sort_def canonical_sort_with_def keyed_entries_def key_bytes_def
      case_prod_unfold)

lemma keyed_entries_insert_all:
  "keyed_entries = btree.insert_all (\<lambda>e. sort_key (key_bytes (fst e))) (\<lambda>e. e) []"
  by (simp add: keyed_entries_def btree.insert_all_def fun_eq_iff)

lemma keyed_entries_ascending: "ascending (keyed_entries es)"
  unfolding keyed_entries_insert_all by (rule btree.insert_all_invar) (simp add: ascending_def)

lemma keyed_entries_keys:
  "(k, e) \<in> set (keyed_entries es) \<Longrightarrow> k = sort_key (key_bytes (fst e)) \<and> e \<in> set es"
  using foldl_btree_insert_subset [of key_bytes "[]" es]
  by (auto simp: keyed_entries_def case_prod_unfold)

lemma map_of_keyed_entries:
  "map_of (keyed_entries es) = map_of (rev (map (\<lambda>e. (sort_key (key_bytes (fst e)), e)) es))"
  unfolding keyed_entries_insert_all by (rule btree.lookup_insert_all_empty)

definition distinct_keys :: "(cbor_value \<times> cbor_value) list \<Rightarrow> bool" where
  "distinct_keys es \<longleftrightarrow> distinct (map (\<lambda>e. key_bytes (fst e)) es)"

lemma map_of_keyed_entries_distinct:
  assumes "distinct_keys es"
  shows "map_of (keyed_entries es) = map_of (map (\<lambda>e. (sort_key (key_bytes (fst e)), e)) es)"
  unfolding keyed_entries_insert_all
proof (rule btree.lookup_insert_all_distinct)
  have "distinct (map sort_key (map (\<lambda>e. key_bytes (fst e)) es))"
    using assms by (simp add: distinct_map distinct_keys_def inj_on_def sort_key_inject)
  then show "distinct (map (\<lambda>e. sort_key (key_bytes (fst e))) es)" by (simp add: comp_def)
qed

lemma keyed_entries_set:
  assumes "distinct_keys es"
  shows "set (keyed_entries es) = (\<lambda>e. (sort_key (key_bytes (fst e)), e)) ` set es"
proof -
  let ?l = "map (\<lambda>e. (sort_key (key_bytes (fst e)), e)) es"
  have "distinct (map sort_key (map (\<lambda>e. key_bytes (fst e)) es))"
    using assms by (simp add: distinct_map distinct_keys_def inj_on_def sort_key_inject)
  then have "distinct (map fst ?l)" by (simp add: comp_def)
  then have "(map_of (keyed_entries es) = map_of ?l) = (set (keyed_entries es) = set ?l)"
    by (rule map_of_inject_set [OF ascending_distinct [OF keyed_entries_ascending]])
  then show ?thesis
    using map_of_keyed_entries_distinct [OF assms] by simp
qed

lemma canonical_sort_perm:
  assumes "distinct_keys es"
  shows "mset (canonical_sort es) = mset es"
proof -
  have "distinct es"
    using assms by (auto simp: distinct_keys_def distinct_map)
  moreover have "distinct (canonical_sort es)"
  proof -
    have "distinct (map fst (keyed_entries es))"
      by (rule ascending_distinct [OF keyed_entries_ascending])
    moreover have "inj_on snd (set (keyed_entries es))"
      by (rule inj_onI) (metis keyed_entries_keys prod.collapse)
    ultimately show ?thesis by (simp add: canonical_sort_keyed distinct_map)
  qed
  moreover have "set (canonical_sort es) = set es"
    using keyed_entries_set [OF assms] by (auto simp: canonical_sort_keyed image_image)
  ultimately show ?thesis by (simp add: set_eq_iff_mset_eq_distinct)
qed

lemma canonical_sort_order_independent:
  assumes "mset es = mset es'" and "distinct_keys es"
  shows "canonical_sort es = canonical_sort es'"
proof -
  have "mset (map (\<lambda>e. key_bytes (fst e)) es) = mset (map (\<lambda>e. key_bytes (fst e)) es')"
    using assms(1) by simp
  then have "distinct_keys es'"
    using assms(2) mset_eq_imp_distinct_iff unfolding distinct_keys_def by blast
  then have "set (keyed_entries es) = set (keyed_entries es')"
    using keyed_entries_set [OF assms(2)] keyed_entries_set [of es'] mset_eq_setD [OF assms(1)] by simp
  then have "map_of (keyed_entries es) = map_of (keyed_entries es')"
    using map_of_inject_set [OF ascending_distinct [OF keyed_entries_ascending]
        ascending_distinct [OF keyed_entries_ascending]] by blast
  then have "keyed_entries es = keyed_entries es'"
    by (rule ascending_unique [OF keyed_entries_ascending keyed_entries_ascending])
  then show ?thesis by (simp add: canonical_sort_keyed)
qed

lemma sorted_wrt_map_keys:
  "\<forall>(k, e) \<in> set m. k = f e \<Longrightarrow> sorted_wrt R (map fst m) \<Longrightarrow> sorted_wrt (\<lambda>a b. R (f a) (f b)) (map snd m)"
proof (induction m)
  case (Cons x m)
  then show ?case by (cases x) fastforce
qed simp

lemma set_canonical_sort: "set (canonical_sort es) \<subseteq> set es"
  unfolding canonical_sort_def by (rule canonical_sort_with_subset)

lemma canonical_sort_sorted:
  assumes "\<forall>e \<in> set es. length (key_bytes (fst e)) \<le> usize_max"
  shows "sorted_wrt (\<lambda>a b. shortlex (key_bytes (fst a)) (key_bytes (fst b))) (canonical_sort es)"
proof -
  have "sorted_wrt (\<lambda>a b. sort_key (key_bytes (fst a)) < sort_key (key_bytes (fst b))) (canonical_sort es)"
    unfolding canonical_sort_keyed
    by (rule sorted_wrt_map_keys)
      (use keyed_entries_keys keyed_entries_ascending in \<open>auto simp: ascending_def\<close>)
  then show ?thesis
  proof (rule sorted_wrt_mono_rel [rotated])
    fix a b
    assume "a \<in> set (canonical_sort es)" "b \<in> set (canonical_sort es)"
      and less: "sort_key (key_bytes (fst a)) < sort_key (key_bytes (fst b))"
    then have "length (key_bytes (fst a)) \<le> usize_max" "length (key_bytes (fst b)) \<le> usize_max"
      using assms set_canonical_sort by blast+
    then show "shortlex (key_bytes (fst a)) (key_bytes (fst b))"
      using less by (simp add: sort_key_less)
  qed
qed

end
