(* ===== verification/Cbor_Properties.thy ===== *)
theory Cbor_Properties
  imports Cbor_Roundtrip Cbor_Canonical
begin

text \<open>
  The properties of the CBOR layer that the rest of the crate relies on: the encoder and the decoder
  are inverse, the decoder keeps to its resource limits on every input, and the canonical form is a
  function of the map rather than of the order its entries were written in.
\<close>

section \<open>Facts about the entry points\<close>

lemma item_top_ok:
  assumes "item 0 \<lparr>p_data = data, p_pos = 0, remaining_nodes = b, node_limit = l\<rparr> = (Inr v, q)"
  shows "value_nodes v + remaining_nodes q \<le> b" and "fits_depth MAX_DEPTH v" and "value_wf v"
    and "p_pos q \<le> length data"
  using items_ok(1) [OF assms] by (auto simp: item_ok_def advances_def)

lemma encode_Map_canonical:
  "encode (Map es) CanonicalForHashedSubstructures =
     res_bind (enc_all (enc_entry CanonicalForHashedSubstructures) (canonical_sort es))
       (\<lambda>bs. Inr (write_head [] MT_MAP (of_nat (length (canonical_sort es))) @ bs))"
  by (simp add: encode_Map sorted_entries_def sort_keys_def indefinite_def)

lemmas decode_eval = decode_def decode_bounded_def decode_prefix_def item.simps p_bind_def claim_node_def
  MAX_DEPTH_def MAX_VALUE_NODES_def p_byte_def nth_opt_def array.simps argument_def p_ret_def
  array_definite.simps simple_def Let_def p_lift_def

lemmas encode_eval = encode_eqs encode_int_def write_head_def MT_UINT_def MT_ARRAY_def MT_MAP_def
  MT_SIMPLE_def indefinite_def sort_keys_def sorted_entries_def


section \<open>Properties\<close>



text \<open>
  The prefix decoder returns the encoded value and exactly the length of its encoding, whatever
  bytes follow: the encoding is self-delimiting.
\<close>

theorem decode_prefix_encode:
  assumes "encode v prof = Inr bs" and "value_wf v" and "fits_depth MAX_DEPTH v"
    and "length bs + length rest \<le> usize_max"
    and "value_nodes (normalise prof v) \<le> MAX_VALUE_NODES"
  shows "decode_prefix (bs @ rest) = Inr (normalise prof v, length bs)"
  using item_encode [OF assms] by (simp add: decode_prefix_def)

theorem decode_prefix_encode_witness:
  "decode_prefix [0x82, 0xF6, 0x01, 0xFF, 0x00] = Inr (Array [Null, Integer 1], 3)"
proof -
  have "encode (Array [Null, Integer 1]) LegacyPipelineBDefinite = Inr [0x82, 0xF6, 0x01]"
    by (simp add: encode_eval)
  from decode_prefix_encode [OF this, of "[0xFF, 0x00]"] show ?thesis
    by (simp add: MAX_DEPTH_def MAX_VALUE_NODES_def usize_max_def)
qed

text \<open>
  C25: The resource limits hold on every input. A value accepted with a node budget has no more nodes
  than the budget spent on it, nests no deeper than 64 levels, holds only valid UTF-8 texts and only
  integers CBOR can express.
\<close>

theorem decode_bounded_within_limits:
  assumes "decode_bounded data budget = (Inr v, left)"
  shows "value_nodes v + left \<le> budget \<and> fits_depth MAX_DEPTH v \<and> value_wf v"
proof -
  obtain r q where i: "item 0 \<lparr>p_data = data, p_pos = 0, remaining_nodes = budget, node_limit = budget\<rparr> = (r, q)"
    by fastforce
  with assms have "r = Inr v" "left = remaining_nodes q"
    by (auto simp: decode_bounded_def res_simps split: if_splits)
  with i show ?thesis using item_top_ok by blast
qed

theorem decode_bounded_within_limits_witness:
  "value_nodes (Array [Null, Integer 1]) + 4 \<le> 7 \<and> fits_depth MAX_DEPTH (Array [Null, Integer 1])
     \<and> value_wf (Array [Null, Integer 1])"
  by (rule decode_bounded_within_limits [of "[0x82, 0xF6, 0x01]"]) (simp add: decode_eval)

text \<open>
  C26: let the keys of a map have pairwise different encodings. Then its canonical encoding, and the digest computed over it, do not depend
  on the order of the entries: two arrangements of the same entries give the same bytes or the same error. Of entries whose
  keys have one encoding, the sort keeps a single one by position, and nothing is claimed.
\<close>

theorem canonical_sha256_order_independent:
  assumes "mset es = mset es'" and "distinct_keys es"
  shows "canonical_sha256 sha256 (Map es) = canonical_sha256 sha256 (Map es')"
  using canonical_sort_order_independent [OF assms]
  by (simp add: canonical_sha256_def encode_Map_canonical)

theorem canonical_sha256_order_independent_witness:
  "canonical_sha256 (take 3) (Map [(Null, Null), (Bool True, Null)])
    = canonical_sha256 (take 3) (Map [(Bool True, Null), (Null, Null)])"
  by (rule canonical_sha256_order_independent)
    (simp_all add: distinct_keys_def key_bytes_def encode_eval)

text \<open>
  The canonical key order is length first and bytewise within a length, it is strict, and when
  the keys are pairwise different no entry is lost or invented.
\<close>

theorem canonical_sort_shortlex:
  assumes "\<forall>e \<in> set es. length (key_bytes (fst e)) \<le> usize_max" and "distinct_keys es"
  shows "sorted_wrt (\<lambda>a b. shortlex (key_bytes (fst a)) (key_bytes (fst b))) (canonical_sort es)
    \<and> mset (canonical_sort es) = mset es"
  using canonical_sort_sorted [OF assms(1)] canonical_sort_perm [OF assms(2)] by simp

theorem canonical_sort_shortlex_witness:
  "sorted_wrt (\<lambda>a b. shortlex (key_bytes (fst a)) (key_bytes (fst b)))
      (canonical_sort [(Array [Null], Null), (Bool True, Null)])
    \<and> mset (canonical_sort [(Array [Null], Null), (Bool True, Null)])
      = {#(Array [Null], Null), (Bool True, Null)#}"
  using canonical_sort_shortlex [of "[(Array [Null], Null), (Bool True, Null)]"]
  by (simp add: distinct_keys_def key_bytes_def encode_eval MT_NINT_def usize_max_def)

end
