(* ===== verification/Spans.thy ===== *)
theory Spans
  imports C2pa_Prelude
begin

text \<open>
  Byte spans and the interface of every length-prefixed container the verifier reads. A span is a
  half-open range of offsets. \<open>tiles\<close> says that a list of spans covers a range exactly, in order,
  with no gap and no overlap. The locale \<open>walker\<close> is the contract of a header reader: it moves
  forward and stays inside the buffer. Everything a loop over such a reader guarantees follows from
  the two laws: it ends, its boxes tile what it walked, and it fails only where the reader fails.
\<close>

type_synonym span = "nat \<times> nat"

fun tiles :: "nat \<Rightarrow> span list \<Rightarrow> nat \<Rightarrow> bool" where
  "tiles a [] b = (a = b)"
| "tiles a ((s, e) # xs) b = (s = a \<and> s < e \<and> tiles e xs b)"

lemma tiles_le: "tiles a xs b \<Longrightarrow> a \<le> b"
  by (induction a xs b rule: tiles.induct) auto

lemma tiles_append: "tiles a (xs @ ys) c \<longleftrightarrow> (\<exists>b. tiles a xs b \<and> tiles b ys c)"
  by (induction xs arbitrary: a) auto

lemma tiles_snoc [intro]: "tiles a xs s \<Longrightarrow> s < e \<Longrightarrow> tiles a (xs @ [(s, e)]) e"
  by (auto simp: tiles_append)

lemma tiles_length: "tiles a xs b \<Longrightarrow> length xs \<le> b - a"
proof (induction a xs b rule: tiles.induct)
  case (2 a s e xs b)
  then show ?case using tiles_le [of e xs b] by auto
qed simp

lemma tiles_within: "tiles a xs b \<Longrightarrow> (s, e) \<in> set xs \<Longrightarrow> a \<le> s \<and> s < e \<and> e \<le> b"
proof (induction a xs b rule: tiles.induct)
  case (2 a s' e' xs b)
  then show ?case using tiles_le [of e' xs b] by fastforce
qed simp

lemma tiles_disjoint: "tiles a xs b \<Longrightarrow> sorted_wrt (\<lambda>x y. snd x \<le> fst y) xs"
proof (induction a xs b rule: tiles.induct)
  case (2 a s e xs b)
  then show ?case using tiles_within [of e xs b] by fastforce
qed simp

lemma tiles_slices:
  "tiles a xs b \<Longrightarrow> concat (map (\<lambda>(s, e). slice data s e) xs) = slice data a b"
proof (induction a xs b rule: tiles.induct)
  case (1 a b)
  then show ?case by (simp add: slice_def)
next
  case (2 a s e xs b)
  then show ?case using tiles_le [of e xs b] slice_concat [of s e b data] by auto
qed

text \<open>Every offset of the tiled range lies in exactly one tile.\<close>

lemma tiles_covers: "tiles a xs b \<Longrightarrow> a \<le> i \<Longrightarrow> i < b \<Longrightarrow> \<exists>(s, e) \<in> set xs. s \<le> i \<and> i < e"
proof (induction a xs b rule: tiles.induct)
  case (2 a s e xs b)
  then show ?case by (cases "i < e") auto
qed simp

section \<open>Header readers\<close>

locale walker =
  fixes step :: "nat \<Rightarrow> 'e + 'b"
    and nxt :: "'b \<Rightarrow> nat"
    and len :: nat
  assumes step_progress: "step pos = Inr b \<Longrightarrow> pos < nxt b"
    and step_bound: "step pos = Inr b \<Longrightarrow> nxt b \<le> len"
begin

function walk :: "nat \<Rightarrow> 'e + 'b list" where
  "walk pos =
     (if pos < len then
        res_bind (step pos) (\<lambda>b. res_bind (walk (nxt b)) (\<lambda>bs. Inr (b # bs)))
      else Inr [])"
  by pat_completeness auto
termination
  by (relation "measure (\<lambda>pos. len - pos)") (auto dest!: step_progress)

declare walk.simps [simp del]

fun spans :: "nat \<Rightarrow> 'b list \<Rightarrow> span list" where
  "spans pos [] = []"
| "spans pos (b # bs) = (pos, nxt b) # spans (nxt b) bs"

lemma length_spans [simp]: "length (spans pos bs) = length bs"
  by (induction bs arbitrary: pos) auto

lemma walk_Cons: "walk pos = Inr (b # bs) \<longleftrightarrow> pos < len \<and> step pos = Inr b \<and> walk (nxt b) = Inr bs"
  by (subst walk.simps) (auto simp: res_simps)

lemma walk_Nil: "walk pos = Inr [] \<longleftrightarrow> len \<le> pos"
  by (subst walk.simps) (auto simp: res_simps)

lemma walk_tiles: "walk pos = Inr bs \<Longrightarrow> pos \<le> len \<Longrightarrow> tiles pos (spans pos bs) len"
proof (induction bs arbitrary: pos)
  case (Cons b bs)
  then show ?case by (auto simp: walk_Cons step_progress step_bound)
qed (simp add: walk_Nil)

lemma walk_count: "walk pos = Inr bs \<Longrightarrow> pos \<le> len \<Longrightarrow> length bs \<le> len - pos"
  using walk_tiles tiles_length by fastforce

lemma walk_steps:
  "walk pos = Inr bs \<Longrightarrow> i < length bs \<Longrightarrow> step (fst (spans pos bs ! i)) = Inr (bs ! i)"
proof (induction bs arbitrary: pos i)
  case (Cons b bs)
  then show ?case by (cases i) (auto simp: walk_Cons)
qed simp

lemma walk_error: "walk pos = Inl e \<Longrightarrow> \<exists>q. pos \<le> q \<and> q < len \<and> step q = Inl e"
proof (induction pos rule: walk.induct)
  case (1 pos)
  show ?case
  proof (cases "step pos")
    case (Inl e')
    with "1.prems" show ?thesis by (subst (asm) walk.simps) (auto split: if_splits)
  next
    case (Inr b)
    with "1.prems" have "pos < len" "walk (nxt b) = Inl e"
      by (subst (asm) walk.simps; auto simp: res_simps split: if_splits)+
    with "1.IH" Inr obtain q where "nxt b \<le> q" "q < len" "step q = Inl e" by blast
    with step_progress [OF Inr] show ?thesis by (intro exI [of _ q]) simp
  qed
qed

text \<open>The walk can be resumed at any box boundary.\<close>

lemma walk_split:
  "walk pos = Inr (xs @ b # ys) \<Longrightarrow> walk (nxt b) = Inr ys"
  by (induction xs arbitrary: pos) (auto simp: walk_Cons)

end

section \<open>Scanners\<close>

lemma set_subseq: "subseq xs ys \<Longrightarrow> set xs \<subseteq> set ys"
  by (induction rule: list_emb.induct) auto

lemma sorted_wrt_subseq: "subseq xs ys \<Longrightarrow> sorted_wrt P ys \<Longrightarrow> sorted_wrt P xs"
proof (induction rule: list_emb.induct)
  case (list_emb_Cons2 x y xs ys)
  then show ?case using set_subseq [of xs ys] by auto
qed auto

text \<open>
  The loop of the chunked containers: it goes on while \<open>more\<close> holds of the position and stops after
  a chunk that \<open>stop\<close> recognises. A walker is the scanner that goes on to the end of the buffer.
\<close>

locale scanner =
  fixes step :: "nat \<Rightarrow> 'e + 'b"
    and nxt :: "'b \<Rightarrow> nat"
    and len :: nat
    and more :: "nat \<Rightarrow> bool"
    and stop :: "'b \<Rightarrow> bool"
  assumes reads_forward: "step pos = Inr b \<Longrightarrow> pos < nxt b"
    and reads_inside: "step pos = Inr b \<Longrightarrow> nxt b \<le> len"
begin

function scan :: "nat \<Rightarrow> 'e + 'b list" where
  "scan pos =
     (if more pos then
        res_bind (step pos) (\<lambda>b.
          if stop b then Inr [b] else res_bind (scan (nxt b)) (\<lambda>bs. Inr (b # bs)))
      else Inr [])"
  by pat_completeness auto
termination
proof (relation "measure (\<lambda>pos. len - pos)", goal_cases)
  case (2 pos b)
  then show ?case using reads_forward [of pos b] reads_inside [of pos b] by simp
qed simp

declare scan.simps [simp del]

fun chunk_spans :: "nat \<Rightarrow> 'b list \<Rightarrow> span list" where
  "chunk_spans pos [] = []"
| "chunk_spans pos (b # bs) = (pos, nxt b) # chunk_spans (nxt b) bs"

definition scan_end :: "nat \<Rightarrow> 'b list \<Rightarrow> nat" where
  "scan_end pos bs = (if bs = [] then pos else nxt (last bs))"

lemma length_chunk_spans [simp]: "length (chunk_spans pos bs) = length bs"
  by (induction bs arbitrary: pos) auto

lemma scan_Nil: "scan pos = Inr [] \<longleftrightarrow> \<not> more pos"
  by (subst scan.simps) (auto simp: res_simps split: if_splits)

lemma scan_Cons:
  "scan pos = Inr (b # bs) \<longleftrightarrow> more pos \<and> step pos = Inr b \<and> (if stop b then bs = [] else scan (nxt b) = Inr bs)"
  by (subst scan.simps) (auto simp: res_simps split: if_splits)

lemma scan_end_simps [simp]: "scan_end pos [] = pos" "scan_end pos (b # bs) = scan_end (nxt b) bs"
  by (auto simp: scan_end_def)

lemma scan_tiles: "scan pos = Inr bs \<Longrightarrow> tiles pos (chunk_spans pos bs) (scan_end pos bs)"
proof (induction bs arbitrary: pos)
  case (Cons b bs)
  then show ?case by (cases "stop b") (auto simp: scan_Cons reads_forward)
qed simp

lemma scan_end_bound: "scan pos = Inr bs \<Longrightarrow> pos \<le> len \<Longrightarrow> scan_end pos bs \<le> len"
proof (induction bs arbitrary: pos)
  case (Cons b bs)
  then show ?case using reads_inside [of pos b] by (cases "stop b") (auto simp: scan_Cons)
qed simp

lemma scan_finished: "scan pos = Inr bs \<Longrightarrow> \<not> more (scan_end pos bs) \<or> bs \<noteq> [] \<and> stop (last bs)"
proof (induction bs arbitrary: pos)
  case (Cons b bs)
  then show ?case by (cases "stop b") (auto simp: scan_Cons)
qed (simp add: scan_Nil)

lemma scan_stop_last: "scan pos = Inr bs \<Longrightarrow> b \<in> set (butlast bs) \<Longrightarrow> \<not> stop b"
proof (induction bs arbitrary: pos)
  case (Cons c bs)
  then show ?case by (cases "stop c") (auto simp: scan_Cons split: if_splits)
qed simp

lemma scan_steps:
  "scan pos = Inr bs \<Longrightarrow> i < length bs \<Longrightarrow> step (fst (chunk_spans pos bs ! i)) = Inr (bs ! i)"
proof (induction bs arbitrary: pos i)
  case (Cons b bs)
  then show ?case by (cases i; cases "stop b") (auto simp: scan_Cons)
qed simp

text \<open>Any selection of the chunks is in order, disjoint and inside the buffer.\<close>

lemma scan_selection:
  assumes "scan pos = Inr bs" and "pos \<le> len" and "subseq xs (chunk_spans pos bs)"
  shows "sorted_wrt (\<lambda>x y. snd x \<le> fst y) xs" and "\<forall>(s, e) \<in> set xs. pos \<le> s \<and> s < e \<and> e \<le> len"
proof -
  note t = scan_tiles [OF assms(1)]
  show "sorted_wrt (\<lambda>x y. snd x \<le> fst y) xs"
    by (rule sorted_wrt_subseq [OF assms(3) tiles_disjoint [OF t]])
  show "\<forall>(s, e) \<in> set xs. pos \<le> s \<and> s < e \<and> e \<le> len"
    using set_subseq [OF assms(3)] tiles_within [OF t] scan_end_bound [OF assms(1,2)] by fastforce
qed

end

sublocale walker \<subseteq> scanner step nxt len "\<lambda>pos. pos < len" "\<lambda>_. False"
  by unfold_locales (fact step_progress step_bound)+

context walker
begin

lemma walk_scan: "walk = scan"
proof
  show "walk pos = scan pos" for pos
    by (induction pos rule: walk.induct) (subst walk.simps, subst scan.simps, auto intro!: res_bind_cong)
qed

end

end
