(* ===== verification/Jumbf.thy ===== *)
theory Jumbf
  imports Utf8 Spans
begin

text \<open>
  JUMBF boxes and C2PA manifest stores: \<^verbatim>\<open>c2pa-core/jumbf.rs\<close>. The serializer of the fixtures
  (\<open>box_bytes\<close> to \<open>build_manifest_store\<close>), the bounded inflation of compressed manifests, and the
  parser from a single box header up to a whole store, in the order of the source.

  A label is its UTF-8 bytes. A slice of the input that the source borrows is the list of its bytes.
  The Brotli decoder is a parameter: it maps a stream to the chunks it writes to its sink and to
  whether the stream was well formed.
\<close>

section \<open>Constants\<close>

definition UUID_SUFFIX :: bytes where
  "UUID_SUFFIX = [0x00, 0x11, 0x00, 0x10, 0x80, 0x00, 0x00, 0xAA, 0x00, 0x38, 0x9B, 0x71]"

definition type_uuid :: "bytes \<Rightarrow> bytes" where
  "type_uuid pfx = take 4 pfx @ UUID_SUFFIX"

definition UUID_MANIFEST_STORE :: bytes where "UUID_MANIFEST_STORE = type_uuid (ascii ''c2pa'')"
definition UUID_MANIFEST :: bytes where "UUID_MANIFEST = type_uuid (ascii ''c2ma'')"
definition UUID_LEGACY_MANIFEST :: bytes where "UUID_LEGACY_MANIFEST = type_uuid (ascii ''c2md'')"
definition UUID_UPDATE_MANIFEST :: bytes where "UUID_UPDATE_MANIFEST = type_uuid (ascii ''c2um'')"
definition UUID_COMPRESSED_MANIFEST :: bytes where
  "UUID_COMPRESSED_MANIFEST = type_uuid (ascii ''c2cm'')"
definition UUID_ASSERTION_STORE :: bytes where "UUID_ASSERTION_STORE = type_uuid (ascii ''c2as'')"
definition UUID_CLAIM :: bytes where "UUID_CLAIM = type_uuid (ascii ''c2cl'')"
definition UUID_CLAIM_SIGNATURE :: bytes where "UUID_CLAIM_SIGNATURE = type_uuid (ascii ''c2cs'')"
definition UUID_CBOR_CONTENT :: bytes where "UUID_CBOR_CONTENT = type_uuid (ascii ''cbor'')"
definition UUID_JSON_CONTENT :: bytes where "UUID_JSON_CONTENT = type_uuid (ascii ''json'')"
definition UUID_REDACTION :: bytes where
  "UUID_REDACTION = [0xCA, 0xA9, 0x8E, 0xEE, 0x9D, 0x4D, 0xF8, 0x0E, 0x86, 0xAD, 0x4D, 0xFF,
     0xCA, 0x26, 0x39, 0x73]"

definition TYPE_JUMB :: bytes where "TYPE_JUMB = ascii ''jumb''"
definition TYPE_JUMD :: bytes where "TYPE_JUMD = ascii ''jumd''"
definition TYPE_CBOR :: bytes where "TYPE_CBOR = ascii ''cbor''"
definition TYPE_JSON :: bytes where "TYPE_JSON = ascii ''json''"
definition TYPE_BROB :: bytes where "TYPE_BROB = ascii ''brob''"
definition TYPE_FREE :: bytes where "TYPE_FREE = ascii ''free''"
definition TYPE_UUID :: bytes where "TYPE_UUID = ascii ''uuid''"
definition TYPE_SALT :: bytes where "TYPE_SALT = ascii ''c2sh''"
definition LABEL_MANIFEST_STORE :: bytes where "LABEL_MANIFEST_STORE = ascii ''c2pa''"
definition LABEL_ASSERTION_STORE :: bytes where "LABEL_ASSERTION_STORE = ascii ''c2pa.assertions''"
definition LABEL_CLAIM_V1 :: bytes where "LABEL_CLAIM_V1 = ascii ''c2pa.claim''"
definition LABEL_CLAIM_V2 :: bytes where "LABEL_CLAIM_V2 = ascii ''c2pa.claim.v2''"
definition LABEL_CLAIM_SIGNATURE :: bytes where "LABEL_CLAIM_SIGNATURE = ascii ''c2pa.signature''"
definition MAX_MANIFESTS_PER_STORE :: nat where "MAX_MANIFESTS_PER_STORE = 1024"
definition MAX_ASSERTIONS_PER_MANIFEST :: nat where "MAX_ASSERTIONS_PER_MANIFEST = 4096"
definition MAX_CHILD_BOXES_PER_SUPERBOX :: nat where
  "MAX_CHILD_BOXES_PER_SUPERBOX = MAX_ASSERTIONS_PER_MANIFEST"
definition MAX_LABEL_BYTES :: nat where "MAX_LABEL_BYTES = 1024"
definition MAX_MANIFEST_STORE_BYTES :: nat where "MAX_MANIFEST_STORE_BYTES = 64 * 1024 * 1024"
definition MAX_DECOMPRESSED_MANIFEST_BYTES :: nat where
  "MAX_DECOMPRESSED_MANIFEST_BYTES = 16 * 1024 * 1024"

definition TOGGLE_REQUESTABLE :: byte where "TOGGLE_REQUESTABLE = 0x01"
definition TOGGLE_LABEL_PRESENT :: byte where "TOGGLE_LABEL_PRESENT = 0x02"
definition TOGGLE_PRIVATE :: byte where "TOGGLE_PRIVATE = 0x10"

datatype jumbf_error =
    TruncatedHeader nat
  | LengthOverrun u64
  | UnexpectedType bytes bytes
  | UnexpectedUuid
  | DecompressionFailed
  | DecompressedTooLarge
  | CompressedManifestShape string
  | CompressedManifestLabelMismatch bytes bytes
  | NotAManifestSuperbox
  | CompressedManifestInvalid bytes jumbf_error
  | TrailingBytes nat
  | ResourceLimit string
  | AmbiguousLabel bytes
  | UnexpectedLabel bytes bytes
  | InvalidStructure string
  | UnsupportedManifestType string


section \<open>Serializer\<close>

definition box_bytes :: "bytes \<Rightarrow> bytes \<Rightarrow> bytes" where
  "box_bytes box_type payload =
     (let total = 8 + length payload
      in if total < 2 ^ 32 then be_bytes 4 total @ box_type @ payload
         else be_bytes 4 1 @ box_type @ be_bytes 8 (total + 8) @ payload)"

definition description_box :: "bytes \<Rightarrow> bytes \<Rightarrow> bytes option \<Rightarrow> bytes" where
  "description_box uuid label salt =
     (let toggles = TOGGLE_REQUESTABLE OR TOGGLE_LABEL_PRESENT;
          toggles = (if salt \<noteq> None then toggles OR TOGGLE_PRIVATE else toggles);
          payload = uuid @ [toggles] @ label @ [0x00]
      in box_bytes TYPE_JUMD
           (case salt of Some s \<Rightarrow> payload @ box_bytes (ascii ''c2sh'') s | None \<Rightarrow> payload))"

definition superbox :: "bytes \<Rightarrow> bytes \<Rightarrow> bytes list \<Rightarrow> bytes option \<Rightarrow> bytes" where
  "superbox uuid label content salt =
     box_bytes TYPE_JUMB (foldl (@) (description_box uuid label salt) content)"

definition cbor_box :: "bytes \<Rightarrow> bytes" where
  "cbor_box cbor = box_bytes TYPE_CBOR cbor"

definition assertion_box :: "bytes \<Rightarrow> bytes \<Rightarrow> bytes option \<Rightarrow> bytes" where
  "assertion_box label cbor salt = superbox UUID_CBOR_CONTENT label [cbor_box cbor] salt"

definition redacted_assertion_box :: "bytes \<Rightarrow> nat \<Rightarrow> bytes" where
  "redacted_assertion_box label zeros =
     superbox UUID_CBOR_CONTENT label [box_bytes TYPE_UUID (UUID_REDACTION @ replicate zeros 0)] None"

definition build_manifest_with_claim_label ::
    "bytes \<Rightarrow> bytes list \<Rightarrow> bytes \<Rightarrow> bytes \<Rightarrow> bytes \<Rightarrow> bytes" where
  "build_manifest_with_claim_label manifest_label assertion_boxes claim_cbor signature_cose claim_label =
     (let assertion_store = superbox UUID_ASSERTION_STORE (ascii ''c2pa.assertions'') assertion_boxes None;
          claim = superbox UUID_CLAIM claim_label [cbor_box claim_cbor] None;
          sig = superbox UUID_CLAIM_SIGNATURE (ascii ''c2pa.signature'') [cbor_box signature_cose] None
      in superbox UUID_MANIFEST manifest_label [assertion_store, claim, sig] None)"

definition build_manifest :: "bytes \<Rightarrow> bytes list \<Rightarrow> bytes \<Rightarrow> bytes \<Rightarrow> bytes" where
  "build_manifest manifest_label assertion_boxes claim_cbor signature_cose =
     build_manifest_with_claim_label manifest_label assertion_boxes claim_cbor signature_cose
       (ascii ''c2pa.claim.v2'')"

definition build_manifest_store :: "bytes list \<Rightarrow> bytes" where
  "build_manifest_store manifests = superbox UUID_MANIFEST_STORE (ascii ''c2pa'') manifests None"


section \<open>One box\<close>

record parsed_box =
  pb_type :: bytes
  pb_payload :: bytes
  pb_next :: nat

text \<open>
  The unchecked \<open>offset + 8\<close> and \<open>offset + 16\<close> cannot wrap: every caller passes an offset of at most
  the length of the slice, and a slice is at most \<open>isize::MAX\<close> bytes long.
\<close>

definition parse_box :: "bytes \<Rightarrow> nat \<Rightarrow> jumbf_error + parsed_box" where
  "parse_box data offset =
     (if offset + 8 > length data then Inl (TruncatedHeader offset)
      else
        let size = be_val (slice data offset (offset + 4));
            box_type = slice data (offset + 4) (offset + 8)
        in if size = 1 then
             if offset + 16 > length data then Inl (TruncatedHeader offset)
             else
               let xl = be_val (slice data (offset + 8) (offset + 16))
               in res_bind (ok_or (checked_add offset xl) (LengthOverrun (of_nat xl))) (\<lambda>e.
                    if e > length data \<or> xl < 16 then Inl (LengthOverrun (of_nat xl))
                    else Inr \<lparr>pb_type = box_type, pb_payload = slice data (offset + 16) e, pb_next = e\<rparr>)
           else if size = 0 then
             Inr \<lparr>pb_type = box_type, pb_payload = drop (offset + 8) data, pb_next = length data\<rparr>
           else
             res_bind (ok_or (checked_add offset size) (LengthOverrun (of_nat size))) (\<lambda>e.
               if e > length data \<or> size < 8 then Inl (LengthOverrun (of_nat size))
               else Inr \<lparr>pb_type = box_type, pb_payload = slice data (offset + 8) e, pb_next = e\<rparr>))"

lemma parse_box_bounds:
  assumes "parse_box data offset = Inr b"
  shows "offset + 8 \<le> pb_next b" and "pb_next b \<le> length data"
  using assms by (auto simp: parse_box_def Let_def res_simps split: if_splits)

interpretation jumbf: walker "parse_box data" pb_next "length data" for data
  by unfold_locales (use parse_box_bounds in fastforce)+

text \<open>
  The loop every reader of child boxes runs: \<open>while pos < data.len()\<close>, with a check before the box
  is read and a body that gets the box and the offset it was read at.
\<close>

function box_loop :: "bytes \<Rightarrow> ('s \<Rightarrow> 'e option) \<Rightarrow> (jumbf_error \<Rightarrow> 'e) \<Rightarrow>
    ('s \<Rightarrow> nat \<Rightarrow> parsed_box \<Rightarrow> 'e + 's) \<Rightarrow> 's \<Rightarrow> nat \<Rightarrow> 'e + 's" where
  "box_loop data limit fail body s pos =
     (if pos < length data then
        case limit s of
          Some e \<Rightarrow> Inl e
        | None \<Rightarrow>
            res_bind (map_err fail (parse_box data pos)) (\<lambda>b.
            res_bind (body s pos b) (\<lambda>s'. box_loop data limit fail body s' (pb_next b)))
      else Inr s)"
  by pat_completeness auto
termination
  by (relation "measure (\<lambda>(data, g, h, f, s, pos). length data - pos)")
    (auto simp: res_simps dest!: jumbf.step_progress)

declare box_loop.simps [simp del]


section \<open>Superboxes\<close>

definition parse_manifest_store_box :: "bytes \<Rightarrow> jumbf_error + parsed_box" where
  "parse_manifest_store_box data =
     res_bind (parse_box data 0) (\<lambda>top.
       if pb_type top \<noteq> TYPE_JUMB then Inl (UnexpectedType TYPE_JUMB (pb_type top))
       else if pb_next top = length data then Inr top
       else
         res_bind (map_err (\<lambda>_. TrailingBytes (length data - pb_next top)) (parse_box data (pb_next top)))
           (\<lambda>trailing.
              if pb_type trailing \<noteq> TYPE_FREE \<or> pb_next trailing \<noteq> length data
              then Inl (TrailingBytes (length data - pb_next top))
              else Inr top))"

record superbox_description =
  sd_type_uuid :: bytes
  sd_label :: bytes
  sd_content_offset :: nat

text \<open>The characters a label must not hold, by code point.\<close>

definition forbidden_char :: "nat \<Rightarrow> bool" where
  "forbidden_char c \<longleftrightarrow> c \<le> 0x1F \<or> (0x7F \<le> c \<and> c \<le> 0x9F)
     \<or> c \<in> {0x2F, 0x3B, 0x3F, 0x23, 0xFEFF, 0xFFFF}"

definition salt_error :: jumbf_error where
  "salt_error =
     InvalidStructure ''private JUMBF description requires one 16- or 32-byte c2sh box''"

definition parse_superbox_description :: "bytes \<Rightarrow> jumbf_error + superbox_description" where
  "parse_superbox_description payload =
     res_bind (parse_box payload 0) (\<lambda>desc.
       if pb_type desc \<noteq> TYPE_JUMD then Inl (UnexpectedType TYPE_JUMD (pb_type desc))
       else if length (pb_payload desc) < 18 then Inl (TruncatedHeader 0)
       else
         let uuid = take 16 (pb_payload desc);
             toggles = pb_payload desc ! 16;
             required = TOGGLE_REQUESTABLE OR TOGGLE_LABEL_PRESENT
         in if toggles AND required \<noteq> required
            then Inl (InvalidStructure ''C2PA JUMBF description is not labelled and requestable'')
            else
              let label_bytes = drop 17 (pb_payload desc)
              in res_bind (ok_or (position (\<lambda>b. b = 0) label_bytes)
                     (InvalidStructure ''JUMBF label is not null-terminated'')) (\<lambda>null.
                 if null > MAX_LABEL_BYTES then Inl (ResourceLimit ''JUMBF label exceeds verifier bound'')
                 else
                   let label = take null label_bytes
                   in res_bind (ok_or (utf8_chars label)
                          (InvalidStructure ''JUMBF label is not valid UTF-8'')) (\<lambda>chars.
                      if label = [] \<or> list_ex forbidden_char chars
                      then Inl (InvalidStructure ''JUMBF label contains a forbidden character'')
                      else
                        res_bind
                          (if toggles AND TOGGLE_PRIVATE \<noteq> 0 then
                             res_bind (map_err (\<lambda>_. salt_error) (parse_box (pb_payload desc) (17 + null + 1)))
                               (\<lambda>salt.
                                  if pb_type salt \<noteq> TYPE_SALT
                                    \<or> pb_next salt \<noteq> length (pb_payload desc)
                                    \<or> \<not> (length (pb_payload salt) = 16 \<or> length (pb_payload salt) = 32)
                                  then Inl salt_error
                                  else Inr ())
                           else Inr ())
                          (\<lambda>_. Inr \<lparr>sd_type_uuid = uuid, sd_label = label,
                                     sd_content_offset = pb_next desc\<rparr>))))"

record superbox_content_boxes =
  sb_type_uuid :: bytes
  sb_label :: bytes
  sb_content :: "(bytes \<times> bytes) list"

definition parse_superbox_payload :: "bytes \<Rightarrow> jumbf_error + superbox_content_boxes" where
  "parse_superbox_payload payload =
     res_bind (parse_superbox_description payload) (\<lambda>description.
     res_bind
       (box_loop payload
          (\<lambda>content. if length content \<ge> MAX_CHILD_BOXES_PER_SUPERBOX
                     then Some (ResourceLimit ''superbox child count exceeds verifier bound'')
                     else None)
          (\<lambda>e. e)
          (\<lambda>content pos b. Inr (content @ [(pb_type b, pb_payload b)]))
          [] (sd_content_offset description))
       (\<lambda>content.
          Inr \<lparr>sb_type_uuid = sd_type_uuid description, sb_label = sd_label description,
               sb_content = content\<rparr>))"

definition parse_superbox :: "bytes \<Rightarrow> jumbf_error + superbox_content_boxes" where
  "parse_superbox data =
     res_bind (parse_box data 0) (\<lambda>b.
       if pb_type b \<noteq> TYPE_JUMB then Inl (UnexpectedType TYPE_JUMB (pb_type b))
       else if pb_next b \<noteq> length data then Inl (TrailingBytes (length data - pb_next b))
       else parse_superbox_payload (pb_payload b))"

definition superbox_content :: "bytes \<Rightarrow> jumbf_error + bytes" where
  "superbox_content superbox_bytes =
     res_bind (parse_box superbox_bytes 0) (\<lambda>parsed.
       if pb_type parsed \<noteq> TYPE_JUMB then Inl (UnexpectedType TYPE_JUMB (pb_type parsed))
       else Inr (pb_payload parsed))"

definition is_manifest_uuid :: "bytes \<Rightarrow> bool" where
  "is_manifest_uuid u \<longleftrightarrow> u = UUID_MANIFEST \<or> u = UUID_LEGACY_MANIFEST \<or> u = UUID_UPDATE_MANIFEST"


section \<open>Stores\<close>

text \<open>Raw manifest superboxes, in store order; the loop state is the child count and the manifests.\<close>

definition manifest_superboxes_from_store :: "bytes \<Rightarrow> jumbf_error + bytes list" where
  "manifest_superboxes_from_store data =
     res_bind (parse_manifest_store_box data) (\<lambda>top.
       if pb_type top \<noteq> TYPE_JUMB then Inl (UnexpectedType TYPE_JUMB (pb_type top))
       else res_bind (parse_superbox_description (pb_payload top)) (\<lambda>store.
         if sd_type_uuid store \<noteq> UUID_MANIFEST_STORE then Inl UnexpectedUuid
         else if sd_label store \<noteq> LABEL_MANIFEST_STORE
              then Inl (UnexpectedLabel LABEL_MANIFEST_STORE (sd_label store))
         else
           res_bind
             (box_loop (pb_payload top)
                (\<lambda>(child_count, manifests).
                   if child_count \<ge> MAX_CHILD_BOXES_PER_SUPERBOX
                   then Some (ResourceLimit ''superbox child count exceeds verifier bound'')
                   else None)
                (\<lambda>e. e)
                (\<lambda>(child_count, manifests) pos b.
                   if pb_type b = TYPE_JUMB then
                     res_bind (parse_superbox_description (pb_payload b)) (\<lambda>child.
                       if is_manifest_uuid (sd_type_uuid child) then
                         if length manifests \<ge> MAX_MANIFESTS_PER_STORE
                         then Inl (ResourceLimit ''manifest count exceeds verifier bound'')
                         else Inr (child_count + 1, manifests @ [slice (pb_payload top) pos (pb_next b)])
                       else if sd_type_uuid child = UUID_COMPRESSED_MANIFEST
                            then Inl (UnsupportedManifestType ''c2cm'')
                       else Inr (child_count + 1, manifests))
                   else Inr (child_count + 1, manifests))
                (0, []) (sd_content_offset store))
             (\<lambda>(child_count, manifests). Inr manifests)))"

definition merged_limit_error :: jumbf_error where
  "merged_limit_error = ResourceLimit ''merged manifest store exceeds verifier byte bound''"

definition merge_manifest_stores :: "bytes \<Rightarrow> bytes \<Rightarrow> jumbf_error + bytes" where
  "merge_manifest_stores base update =
     res_bind (parse_manifest_store_box base) (\<lambda>base_store.
     res_bind (manifest_superboxes_from_store update) (\<lambda>appended.
     res_bind (try_fold (\<lambda>total manifest. ok_or (checked_add total (length manifest)) merged_limit_error)
                 (length (pb_payload base_store)) appended) (\<lambda>total.
       if total \<le> MAX_MANIFEST_STORE_BYTES
       then Inr (box_bytes TYPE_JUMB (foldl (@) (pb_payload base_store) appended))
       else Inl merged_limit_error)))"

subsection \<open>Compressed manifests\<close>

record bounded_sink =
  sink_bytes :: bytes
  overflowed :: bool

text \<open>\<open>BoundedSink::write\<close>: whether the write succeeded, and the sink after it.\<close>

definition sink_write :: "bytes \<Rightarrow> bounded_sink \<Rightarrow> bool \<times> bounded_sink" where
  "sink_write data sink =
     (if length data > MAX_DECOMPRESSED_MANIFEST_BYTES - length (sink_bytes sink)
      then (False, sink\<lparr>overflowed := True\<rparr>)
      else (True, sink\<lparr>sink_bytes := sink_bytes sink @ data\<rparr>))"

text \<open>The decoder writes its chunks in order and stops at the first write that fails.\<close>

fun write_chunks :: "bytes list \<Rightarrow> bounded_sink \<Rightarrow> bool \<times> bounded_sink" where
  "write_chunks [] sink = (True, sink)"
| "write_chunks (c # cs) sink =
     (case sink_write c sink of
        (False, sink') \<Rightarrow> (False, sink')
      | (True, sink') \<Rightarrow> write_chunks cs sink')"

definition brotli_decompress_bounded ::
    "(bytes \<Rightarrow> bytes list \<times> bool) \<Rightarrow> bytes \<Rightarrow> jumbf_error + bytes" where
  "brotli_decompress_bounded brotli stream =
     (case brotli stream of
        (chunks, well_formed) \<Rightarrow>
          (case write_chunks chunks \<lparr>sink_bytes = [], overflowed = False\<rparr> of
             (written, sink) \<Rightarrow>
               if written \<and> well_formed then Inr (sink_bytes sink)
               else if overflowed sink then Inl DecompressedTooLarge
               else Inl DecompressionFailed))"

record superbox_header_fields =
  sh_type_uuid :: bytes
  sh_label :: bytes

definition superbox_header :: "bytes \<Rightarrow> jumbf_error + superbox_header_fields" where
  "superbox_header bytes =
     res_bind (parse_superbox bytes) (\<lambda>parsed.
       Inr \<lparr>sh_type_uuid = sb_type_uuid parsed, sh_label = sb_label parsed\<rparr>)"

definition inflate_whole ::
    "(bytes \<Rightarrow> bytes list \<times> bool) \<Rightarrow> bytes \<Rightarrow> jumbf_error + (bytes \<times> superbox_header_fields)" where
  "inflate_whole brotli stream =
     res_bind (brotli_decompress_bounded brotli stream) (\<lambda>manifest.
     res_bind (superbox_header manifest) (\<lambda>inner. Inr (manifest, inner)))"

definition inflate_brob_payload ::
    "(bytes \<Rightarrow> bytes list \<times> bool) \<Rightarrow> bytes \<Rightarrow> bytes \<Rightarrow>
       jumbf_error + (bytes \<times> superbox_header_fields)" where
  "inflate_brob_payload brotli stream label =
     (if take 4 stream = TYPE_JUMB then
        (case brotli_decompress_bounded brotli (drop 4 stream) of
           Inl e \<Rightarrow> if e = DecompressedTooLarge then Inl DecompressedTooLarge
                    else inflate_whole brotli stream
         | Inr manifest \<Rightarrow>
             (case superbox_header manifest of
                Inr inner \<Rightarrow>
                  if sh_label inner = label \<and> is_manifest_uuid (sh_type_uuid inner)
                  then Inr (manifest, inner)
                  else inflate_whole brotli stream
              | Inl _ \<Rightarrow> inflate_whole brotli stream))
      else inflate_whole brotli stream)"

definition decompress_manifest_superbox ::
    "(bytes \<Rightarrow> bytes list \<times> bool) \<Rightarrow> superbox_content_boxes \<Rightarrow> jumbf_error + (bytes \<times> bytes)" where
  "decompress_manifest_superbox brotli parsed =
     (if sb_type_uuid parsed \<noteq> UUID_COMPRESSED_MANIFEST then Inl UnexpectedUuid
      else case sb_content parsed of
        [(box_type, stream)] \<Rightarrow>
          if box_type \<noteq> TYPE_BROB then Inl (UnexpectedType TYPE_BROB box_type)
          else if stream = [] then Inl (CompressedManifestShape ''brob box is empty'')
          else
            res_bind (inflate_brob_payload brotli stream (sb_label parsed)) (\<lambda>(manifest, inner).
              if \<not> is_manifest_uuid (sh_type_uuid inner) then Inl NotAManifestSuperbox
              else if sh_label inner \<noteq> sb_label parsed
              then Inl (CompressedManifestLabelMismatch (sb_label parsed) (sh_label inner))
              else Inr (manifest, sh_type_uuid inner))
      | _ \<Rightarrow> Inl (CompressedManifestShape ''expected exactly one brob content box''))"

text \<open>An early \<open>return\<close> of the loop is an \<open>Inl\<close> that carries the returned answer.\<close>

definition store_has_compressed_manifest :: "bytes \<Rightarrow> bool" where
  "store_has_compressed_manifest store =
     (case parse_manifest_store_box store of
        Inl _ \<Rightarrow> False
      | Inr top_box \<Rightarrow>
          (case parse_superbox_description (pb_payload top_box) of
             Inl _ \<Rightarrow> False
           | Inr description \<Rightarrow>
               if sd_type_uuid description \<noteq> UUID_MANIFEST_STORE then False
               else
                 (case box_loop (pb_payload top_box) (\<lambda>_. None) (\<lambda>_. False)
                         (\<lambda>_ position child_box.
                            if pb_type child_box = TYPE_JUMB
                              \<and> (case parse_superbox_payload (pb_payload child_box) of
                                   Inl _ \<Rightarrow> False
                                 | Inr child \<Rightarrow> sb_type_uuid child = UUID_COMPRESSED_MANIFEST)
                            then Inl True else Inr ())
                         () (sd_content_offset description) of
                    Inl answer \<Rightarrow> answer
                  | Inr _ \<Rightarrow> False)))"

record expanded_store =
  es_bytes :: bytes
  es_expanded :: bool
  stored_contents :: "bytes option list"

definition stored_content :: "expanded_store \<Rightarrow> nat \<Rightarrow> bytes option" where
  "stored_content es index = Option.bind (nth_opt (stored_contents es) index) (\<lambda>x. x)"

record expansion =
  compressed_seen :: bool
  rebuilt_payload :: bytes
  x_stored_contents :: "bytes option list"

definition expand_child ::
    "(bytes \<Rightarrow> bytes list \<times> bool) \<Rightarrow> bytes \<Rightarrow> expansion \<Rightarrow> nat \<Rightarrow> parsed_box \<Rightarrow> jumbf_error + expansion" where
  "expand_child brotli payload s pos child_box =
     (if pb_type child_box \<noteq> TYPE_JUMB then
        Inr (s\<lparr>rebuilt_payload := rebuilt_payload s @ slice payload pos (pb_next child_box)\<rparr>)
      else
        res_bind (parse_superbox_payload (pb_payload child_box)) (\<lambda>child.
          if sb_type_uuid child = UUID_COMPRESSED_MANIFEST then
            res_bind (map_err (CompressedManifestInvalid (sb_label child))
                        (decompress_manifest_superbox brotli child)) (\<lambda>(manifest, manifest_type).
              Inr (s\<lparr>compressed_seen := True,
                     rebuilt_payload := rebuilt_payload s @ manifest,
                     x_stored_contents :=
                       (if is_manifest_uuid manifest_type
                        then x_stored_contents s @ [Some (pb_payload child_box)]
                        else x_stored_contents s)\<rparr>))
          else
            Inr (s\<lparr>rebuilt_payload := rebuilt_payload s @ slice payload pos (pb_next child_box),
                   x_stored_contents :=
                     (if is_manifest_uuid (sb_type_uuid child)
                      then x_stored_contents s @ [None] else x_stored_contents s)\<rparr>)))"

definition expand_store :: "(bytes \<Rightarrow> bytes list \<times> bool) \<Rightarrow> bytes \<Rightarrow> jumbf_error + expanded_store" where
  "expand_store brotli store =
     res_bind (parse_manifest_store_box store) (\<lambda>top.
     res_bind (parse_superbox_description (pb_payload top)) (\<lambda>description.
       if sd_type_uuid description \<noteq> UUID_MANIFEST_STORE then Inl UnexpectedUuid
       else if sd_label description \<noteq> LABEL_MANIFEST_STORE
            then Inl (UnexpectedLabel LABEL_MANIFEST_STORE (sd_label description))
       else
         res_bind
           (box_loop (pb_payload top) (\<lambda>_. None) (\<lambda>e. e) (expand_child brotli (pb_payload top))
              \<lparr>compressed_seen = False,
               rebuilt_payload = take (sd_content_offset description) (pb_payload top),
               x_stored_contents = []\<rparr>
              (sd_content_offset description))
           (\<lambda>s.
              if \<not> compressed_seen s then
                Inr \<lparr>es_bytes = store, es_expanded = False, stored_contents = []\<rparr>
              else
                Inr \<lparr>es_bytes = box_bytes TYPE_JUMB (rebuilt_payload s), es_expanded = True,
                     stored_contents = x_stored_contents s\<rparr>)))"

subsection \<open>Manifests\<close>

datatype assertion_content_type = ContentCbor | ContentJson

datatype manifest_kind = Standard | Update

record parsed_manifest =
  pm_label :: bytes
  manifest_jumbf :: bytes
  assertions :: "(bytes \<times> bytes) list"
  assertion_jumbf :: "(bytes \<times> bytes) list"
  claim_cbor :: "bytes option"
  signature_cose :: "bytes option"
  claim_count :: nat
  claim_box_label :: "bytes option"

text \<open>
  The state of the loop over a manifest's content boxes: the manifest under construction, the labels
  of its direct children and of its assertions, and the number of assertion stores seen.
\<close>

record manifest_loop =
  ml_manifest :: parsed_manifest
  assertion_labels :: "bytes set"
  direct_child_labels :: "bytes set"
  assertion_store_count :: nat

text \<open>The checks on the label a direct child carries, with the count of assertion stores.\<close>

definition check_child_label :: "superbox_content_boxes \<Rightarrow> manifest_loop \<Rightarrow> jumbf_error + manifest_loop" where
  "check_child_label inner s =
     (if sb_type_uuid inner = UUID_ASSERTION_STORE then
        let n = assertion_store_count s + 1
        in if n > 1 then
             Inl (InvalidStructure ''manifest contains multiple assertion store superboxes'')
           else if sb_label inner \<noteq> LABEL_ASSERTION_STORE then
             Inl (UnexpectedLabel LABEL_ASSERTION_STORE (sb_label inner))
           else Inr (s\<lparr>assertion_store_count := n\<rparr>)
      else if sb_type_uuid inner = UUID_CLAIM \<and> sb_label inner \<noteq> LABEL_CLAIM_V1
           \<and> sb_label inner \<noteq> LABEL_CLAIM_V2 then
        Inl (UnexpectedLabel (ascii ''c2pa.claim or c2pa.claim.v2'') (sb_label inner))
      else if sb_type_uuid inner = UUID_CLAIM_SIGNATURE \<and> sb_label inner \<noteq> LABEL_CLAIM_SIGNATURE then
        Inl (UnexpectedLabel LABEL_CLAIM_SIGNATURE (sb_label inner))
      else Inr s)"

definition expected_content_type :: "bytes \<Rightarrow> bytes option" where
  "expected_content_type uuid =
     (if uuid = UUID_CBOR_CONTENT then Some TYPE_CBOR
      else if uuid = UUID_JSON_CONTENT then Some TYPE_JSON
      else None)"

definition add_assertion :: "manifest_loop \<Rightarrow> bytes \<times> bytes \<Rightarrow> jumbf_error + manifest_loop" where
  "add_assertion s = (\<lambda>(assertion_type, assertion_payload).
     if assertion_type \<noteq> TYPE_JUMB then Inr s
     else
       res_bind (parse_superbox_payload assertion_payload) (\<lambda>assertion.
         if length (assertion_jumbf (ml_manifest s)) \<ge> MAX_ASSERTIONS_PER_MANIFEST then
           Inl (ResourceLimit ''assertion count exceeds verifier bound'')
         else if sb_label assertion \<in> assertion_labels s then Inl (AmbiguousLabel (sb_label assertion))
         else
           let manifest = ml_manifest s;
               manifest = manifest\<lparr>assertion_jumbf :=
                            assertion_jumbf manifest @ [(sb_label assertion, assertion_payload)]\<rparr>;
               found = (case expected_content_type (sb_type_uuid assertion) of
                          Some t \<Rightarrow> find (\<lambda>(box_type, _). box_type = t) (sb_content assertion)
                        | None \<Rightarrow> None);
               manifest = (case found of
                             Some (_, payload) \<Rightarrow>
                               manifest\<lparr>assertions := assertions manifest @ [(sb_label assertion, payload)]\<rparr>
                           | None \<Rightarrow> manifest)
           in Inr (s\<lparr>ml_manifest := manifest,
                     assertion_labels := insert (sb_label assertion) (assertion_labels s)\<rparr>)))"

definition single_cbor :: "superbox_content_boxes \<Rightarrow> bytes option" where
  "single_cbor inner =
     (case sb_content inner of
        [(box_type, payload)] \<Rightarrow> if box_type = TYPE_CBOR then Some payload else None
      | _ \<Rightarrow> None)"

definition add_claim :: "superbox_content_boxes \<Rightarrow> manifest_loop \<Rightarrow> jumbf_error + manifest_loop" where
  "add_claim inner s =
     (let manifest = ml_manifest s; manifest = manifest\<lparr>claim_count := claim_count manifest + 1\<rparr>
      in case single_cbor inner of
           None \<Rightarrow> Inl (InvalidStructure ''claim superbox must contain exactly one CBOR content box'')
         | Some payload \<Rightarrow>
             Inr (s\<lparr>ml_manifest :=
                     (if claim_box_label manifest = None
                      then manifest\<lparr>claim_cbor := Some payload, claim_box_label := Some (sb_label inner)\<rparr>
                      else manifest)\<rparr>))"

definition add_signature :: "superbox_content_boxes \<Rightarrow> manifest_loop \<Rightarrow> jumbf_error + manifest_loop" where
  "add_signature inner s =
     (case single_cbor inner of
        None \<Rightarrow>
          Inl (InvalidStructure ''claim signature superbox must contain exactly one CBOR content box'')
      | Some payload \<Rightarrow> Inr (s\<lparr>ml_manifest := (ml_manifest s)\<lparr>signature_cose := Some payload\<rparr>\<rparr>))"

definition add_child :: "manifest_loop \<Rightarrow> bytes \<times> bytes \<Rightarrow> jumbf_error + manifest_loop" where
  "add_child s = (\<lambda>(content_type, content_payload).
     if content_type \<noteq> TYPE_JUMB then Inr s
     else
       res_bind (parse_superbox_payload content_payload) (\<lambda>inner.
       res_bind (check_child_label inner s) (\<lambda>s.
         if sb_label inner \<in> direct_child_labels s then Inl (AmbiguousLabel (sb_label inner))
         else
           let s = s\<lparr>direct_child_labels := insert (sb_label inner) (direct_child_labels s)\<rparr>
           in if sb_type_uuid inner = UUID_ASSERTION_STORE then try_fold add_assertion s (sb_content inner)
              else if sb_type_uuid inner = UUID_CLAIM then add_claim inner s
              else if sb_type_uuid inner = UUID_CLAIM_SIGNATURE then add_signature inner s
              else Inr s)))"

definition empty_manifest :: "bytes \<Rightarrow> bytes \<Rightarrow> parsed_manifest" where
  "empty_manifest label payload =
     \<lparr>pm_label = label, manifest_jumbf = payload, assertions = [], assertion_jumbf = [],
      claim_cbor = None, signature_cose = None, claim_count = 0, claim_box_label = None\<rparr>"

definition parse_manifest :: "bytes \<Rightarrow> jumbf_error + parsed_manifest option" where
  "parse_manifest payload =
     res_bind (parse_superbox_payload payload) (\<lambda>parsed.
       if sb_type_uuid parsed = UUID_COMPRESSED_MANIFEST then Inl (UnsupportedManifestType ''c2cm'')
       else if \<not> is_manifest_uuid (sb_type_uuid parsed) then Inr None
       else
         res_bind
           (try_fold add_child
              \<lparr>ml_manifest = empty_manifest (sb_label parsed) payload, assertion_labels = {},
               direct_child_labels = {}, assertion_store_count = 0\<rparr>
              (sb_content parsed))
           (\<lambda>s.
              if assertion_store_count s = 0 then
                Inl (InvalidStructure ''manifest is missing required c2pa.assertions assertion store'')
              else Inr (Some (ml_manifest s))))"

definition add_manifest ::
    "parsed_manifest list \<times> bytes set \<Rightarrow> bytes \<times> bytes \<Rightarrow> jumbf_error + (parsed_manifest list \<times> bytes set)" where
  "add_manifest = (\<lambda>(manifests, manifest_labels) (ctype, cpayload).
     if ctype = TYPE_JUMB then
       res_bind (parse_manifest cpayload) (\<lambda>found.
         case found of
           None \<Rightarrow> Inr (manifests, manifest_labels)
         | Some manifest \<Rightarrow>
             if length manifests \<ge> MAX_MANIFESTS_PER_STORE then
               Inl (ResourceLimit ''manifest count exceeds verifier bound'')
             else if pm_label manifest \<in> manifest_labels then Inl (AmbiguousLabel (pm_label manifest))
             else Inr (manifests @ [manifest], insert (pm_label manifest) manifest_labels))
     else Inr (manifests, manifest_labels))"

definition parse_manifest_store :: "bytes \<Rightarrow> jumbf_error + parsed_manifest list" where
  "parse_manifest_store data =
     (if length data > MAX_MANIFEST_STORE_BYTES then
        Inl (ResourceLimit ''manifest store exceeds verifier byte bound'')
      else
        res_bind (parse_manifest_store_box data) (\<lambda>top.
        res_bind (parse_superbox_payload (pb_payload top)) (\<lambda>store.
          if sb_type_uuid store \<noteq> UUID_MANIFEST_STORE then Inl UnexpectedUuid
          else if sb_label store \<noteq> LABEL_MANIFEST_STORE
               then Inl (UnexpectedLabel LABEL_MANIFEST_STORE (sb_label store))
          else
            res_bind (try_fold add_manifest ([], {}) (sb_content store)) (\<lambda>(manifests, _).
              Inr manifests))))"

definition store_carries_manifest :: "bytes \<Rightarrow> bool" where
  "store_carries_manifest store \<longleftrightarrow>
     (case parse_manifest_store store of Inr manifests \<Rightarrow> manifests \<noteq> [] | Inl _ \<Rightarrow> False)
     \<or> store_has_compressed_manifest store"

definition manifest_kind_of :: "parsed_manifest \<Rightarrow> manifest_kind" where
  "manifest_kind_of m =
     (case parse_superbox_payload (manifest_jumbf m) of
        Inr manifest \<Rightarrow> if sb_type_uuid manifest = UUID_UPDATE_MANIFEST then Update else Standard
      | Inl _ \<Rightarrow> Standard)"

definition assertion_content_type_of :: "parsed_manifest \<Rightarrow> bytes \<Rightarrow> assertion_content_type option" where
  "assertion_content_type_of m label =
     (case find (\<lambda>(candidate, _). candidate = label) (assertion_jumbf m) of
        None \<Rightarrow> None
      | Some (_, payload) \<Rightarrow>
          (case parse_superbox_payload payload of
             Inl _ \<Rightarrow> None
           | Inr assertion \<Rightarrow>
               if sb_type_uuid assertion = UUID_CBOR_CONTENT then Some ContentCbor
               else if sb_type_uuid assertion = UUID_JSON_CONTENT then Some ContentJson
               else None))"

definition zeroed_box :: "bytes \<times> bytes \<Rightarrow> bool" where
  "zeroed_box = (\<lambda>(box_type, content).
     let data = (if box_type = TYPE_UUID \<and> 16 \<le> length content \<and> take 16 content = UUID_REDACTION
                 then drop 16 content else content)
     in list_all (\<lambda>byte. byte = 0) data)"

definition assertion_content_is_zeroed :: "parsed_manifest \<Rightarrow> bytes \<Rightarrow> bool option" where
  "assertion_content_is_zeroed m label =
     (case find (\<lambda>(candidate, _). candidate = label) (assertion_jumbf m) of
        None \<Rightarrow> None
      | Some (_, payload) \<Rightarrow>
          (case parse_superbox_payload payload of
             Inl _ \<Rightarrow> Some False
           | Inr assertion \<Rightarrow> Some (list_all zeroed_box (sb_content assertion))))"

end
