(* ===== verification/Jumbf_Boxes.thy ===== *)
theory Jumbf_Boxes
  imports Jumbf
begin

text \<open>
  Box headers: what \<open>parse_box\<close> reads back from \<open>box_bytes\<close>, how its result depends on the bytes
  around the box, and the induction principle of the child-box loop.
\<close>

section \<open>Headers\<close>

lemma parse_box_eq_Inr:
  "parse_box data offset = Inr b \<longleftrightarrow>
     (let size = be_val (slice data offset (offset + 4));
          xl = be_val (slice data (offset + 8) (offset + 16));
          hdr = (if size = 1 then 16 else 8);
          e = (if size = 1 then offset + xl else if size = 0 then length data else offset + size)
      in offset + hdr \<le> e \<and> e \<le> length data \<and> (size \<noteq> 0 \<longrightarrow> e \<le> usize_max)
         \<and> b = \<lparr>pb_type = slice data (offset + 4) (offset + 8),
                 pb_payload = slice data (offset + hdr) e, pb_next = e\<rparr>)"
  by (auto simp: parse_box_def Let_def res_simps slice_to_end)

lemma slice_append_prefix: "b \<le> length xs \<Longrightarrow> slice (xs @ ys) a b = slice xs a b"
  by (simp add: slice_def)

lemma slice_shift: "slice (pre @ xs) (length pre + a) (length pre + b) = slice xs a b"
  by (simp add: slice_def)

lemma slice_shift2:
  "length pre \<le> a \<Longrightarrow> slice (pre @ xs) a b = slice xs (a - length pre) (b - length pre)"
  by (auto simp: slice_def)

text \<open>A box that states its own size does not depend on what follows it.\<close>

definition sized :: "bytes \<Rightarrow> nat \<Rightarrow> bool" where
  "sized data pos \<longleftrightarrow> be_val (slice data pos (pos + 4)) \<noteq> 0"

lemma parse_box_append:
  assumes "parse_box xs pos = Inr b" and "sized xs pos"
  shows "parse_box (xs @ ys) pos = Inr b"
proof -
  have "pos + 8 \<le> length xs" and "be_val (slice xs pos (pos + 4)) = 1 \<longrightarrow> pos + 16 \<le> length xs"
    using parse_box_bounds [OF assms(1)] assms by (auto simp: parse_box_eq_Inr Let_def)
  then show ?thesis
    using assms unfolding parse_box_eq_Inr sized_def Let_def
    by (auto simp: slice_append_prefix)
qed

lemma parse_box_shift:
  assumes "parse_box xs pos = Inr b" and "length pre + length xs \<le> usize_max"
  shows "parse_box (pre @ xs) (length pre + pos) = Inr (b\<lparr>pb_next := length pre + pb_next b\<rparr>)"
  using assms unfolding parse_box_eq_Inr Let_def add.assoc slice_shift
  by (auto simp: slice_shift)

lemma sized_shift: "sized (pre @ xs) (length pre + pos) = sized xs pos"
  by (simp add: sized_def add.assoc slice_shift)

lemma length_box_bytes: "length (box_bytes t p) = length t + length p + (if 8 + length p < 2 ^ 32 then 4 else 12)"
  by (simp add: box_bytes_def Let_def)

lemma length_TYPE [simp]:
  "length TYPE_JUMB = 4" "length TYPE_JUMD = 4" "length TYPE_CBOR = 4" "length TYPE_JSON = 4"
  "length TYPE_BROB = 4" "length TYPE_FREE = 4" "length TYPE_UUID = 4" "length TYPE_SALT = 4"
  by (simp_all add: TYPE_JUMB_def TYPE_JUMD_def TYPE_CBOR_def TYPE_JSON_def TYPE_BROB_def
      TYPE_FREE_def TYPE_UUID_def TYPE_SALT_def)

lemma parse_box_box_bytes_0:
  assumes "length t = 4" and "length (box_bytes t p) \<le> usize_max"
  shows "parse_box (box_bytes t p) 0 = Inr \<lparr>pb_type = t, pb_payload = p, pb_next = length (box_bytes t p)\<rparr>"
    and "sized (box_bytes t p) 0"
proof -
  let ?n = "8 + length p"
  show "parse_box (box_bytes t p) 0 = Inr \<lparr>pb_type = t, pb_payload = p, pb_next = length (box_bytes t p)\<rparr>"
  proof (cases "?n < 2 ^ 32")
    case True
    then have "be_val (be_bytes 4 ?n) = ?n" by (intro be_val_be_bytes_id) simp
    with True assms show ?thesis
      by (simp add: parse_box_eq_Inr box_bytes_def Let_def slice_def)
  next
    case False
    have "be_val (be_bytes 4 1) = 1" by (rule be_val_be_bytes_id) simp
    moreover have "be_val (be_bytes 8 (?n + 8)) = ?n + 8"
      using assms False by (intro be_val_be_bytes_id) (simp add: length_box_bytes usize_max_def)
    ultimately show ?thesis
      using False assms by (simp add: parse_box_eq_Inr box_bytes_def Let_def slice_def)
  qed
  show "sized (box_bytes t p) 0"
    using be_val_be_bytes_id [of ?n 4] be_val_be_bytes_id [of 1 4]
    by (simp add: sized_def box_bytes_def Let_def slice_def)
qed

lemma parse_box_box_bytes:
  assumes "length t = 4" and "length pre + length (box_bytes t p) + length post \<le> usize_max"
  shows "parse_box (pre @ box_bytes t p @ post) (length pre) =
    Inr \<lparr>pb_type = t, pb_payload = p, pb_next = length pre + length (box_bytes t p)\<rparr>"
proof -
  have "parse_box (box_bytes t p @ post) 0
      = Inr \<lparr>pb_type = t, pb_payload = p, pb_next = length (box_bytes t p)\<rparr>"
    using assms by (intro parse_box_append parse_box_box_bytes_0) simp_all
  from parse_box_shift [OF this, of pre] assms show ?thesis by simp
qed

section \<open>The loop over child boxes\<close>

lemma box_loop_stop: "length data \<le> pos \<Longrightarrow> box_loop data limit fail body s pos = Inr s"
  by (subst box_loop.simps) simp

lemma box_loop_step:
  "pos < length data \<Longrightarrow> limit s = None \<Longrightarrow> parse_box data pos = Inr b \<Longrightarrow>
   box_loop data limit fail body s pos
     = res_bind (body s pos b) (\<lambda>s'. box_loop data limit fail body s' (pb_next b))"
  by (subst box_loop.simps) simp

lemma box_loop_induct [consumes 2, case_names init step]:
  assumes "box_loop data limit fail body s pos = Inr r" and "pos \<le> length data"
    and "P s pos"
    and "\<And>s pos b s'. P s pos \<Longrightarrow> pos < length data \<Longrightarrow> limit s = None \<Longrightarrow> parse_box data pos = Inr b \<Longrightarrow>
           body s pos b = Inr s' \<Longrightarrow> P s' (pb_next b)"
  shows "P r (length data)"
  using assms
proof (induction data limit fail body s pos rule: box_loop.induct)
  case (1 data limit fail body s pos)
  show ?case
  proof (cases "pos < length data")
    case True
    with "1.prems"(1) obtain b s' where *: "limit s = None" "parse_box data pos = Inr b"
        "body s pos b = Inr s'" "box_loop data limit fail body s' (pb_next b) = Inr r"
      by (subst (asm) box_loop.simps) (auto simp: res_simps split: option.splits)
    have "P s' (pb_next b)" using "1.prems" * True by blast
    from "1.IH" [OF True *(1) _ *(3,4) _ this] "1.prems" * show ?thesis
      using parse_box_bounds(2) by (auto simp: map_err_def)
  qed (use "1.prems" in \<open>simp add: box_loop_stop\<close>)
qed

text \<open>A loop that succeeds has read exactly the boxes of the walk, and its body has run on each.\<close>

lemma box_loop_walk:
  assumes "box_loop data limit fail body s pos = Inr r"
  shows "\<exists>bs. jumbf.walk data pos = Inr bs"
  using assms
proof (induction data limit fail body s pos rule: box_loop.induct)
  case (1 data limit fail body s pos)
  show ?case
  proof (cases "pos < length data")
    case True
    with "1.prems" obtain b s' where *: "limit s = None" "parse_box data pos = Inr b"
        "body s pos b = Inr s'" "box_loop data limit fail body s' (pb_next b) = Inr r"
      by (subst (asm) box_loop.simps) (auto simp: res_simps split: option.splits)
    from "1.IH" [OF True *(1) _ *(3,4)] * obtain bs where "jumbf.walk data (pb_next b) = Inr bs"
      by (auto simp: map_err_def)
    with True * have "jumbf.walk data pos = Inr (b # bs)" by (simp add: jumbf.walk_Cons)
    then show ?thesis by blast
  qed (auto simp: jumbf.walk_Nil intro!: exI [of _ "[]"])
qed

end
