(* ===== verification/Jumbf_Superbox.thy ===== *)
theory Jumbf_Superbox
  imports Jumbf_Boxes
begin

text \<open>
  Superboxes: what a parsed description and a parsed superbox promise about the bytes they came
  from, and that the parser reads back what the serializer wrote.
\<close>

section \<open>Labels and salts\<close>

definition valid_label :: "bytes \<Rightarrow> bool" where
  "valid_label label \<longleftrightarrow> label \<noteq> [] \<and> length label \<le> MAX_LABEL_BYTES \<and> 0 \<notin> set label
     \<and> (case utf8_chars label of None \<Rightarrow> False | Some cs \<Rightarrow> \<not> list_ex forbidden_char cs)"

definition valid_salt :: "bytes option \<Rightarrow> bool" where
  "valid_salt salt = (case salt of None \<Rightarrow> True | Some s \<Rightarrow> length s = 16 \<or> length s = 32)"

lemma position_zero_label: "0 \<notin> set label \<Longrightarrow> position (\<lambda>b. b = 0) (label @ 0 # rest) = Some (length label)"
  by (rule position_append_first) auto

lemma description_toggles:
  "(TOGGLE_REQUESTABLE OR TOGGLE_LABEL_PRESENT) AND (TOGGLE_REQUESTABLE OR TOGGLE_LABEL_PRESENT)
     = TOGGLE_REQUESTABLE OR TOGGLE_LABEL_PRESENT"
  "(TOGGLE_REQUESTABLE OR TOGGLE_LABEL_PRESENT OR TOGGLE_PRIVATE) AND (TOGGLE_REQUESTABLE OR TOGGLE_LABEL_PRESENT)
     = TOGGLE_REQUESTABLE OR TOGGLE_LABEL_PRESENT"
  "(TOGGLE_REQUESTABLE OR TOGGLE_LABEL_PRESENT) AND TOGGLE_PRIVATE = 0"
  "(TOGGLE_REQUESTABLE OR TOGGLE_LABEL_PRESENT OR TOGGLE_PRIVATE) AND TOGGLE_PRIVATE \<noteq> 0"
  by (simp_all add: TOGGLE_REQUESTABLE_def TOGGLE_LABEL_PRESENT_def TOGGLE_PRIVATE_def)

lemma parse_description_box:
  assumes "length uuid = 16" and "valid_label label" and "valid_salt salt"
    and "length (description_box uuid label salt) + length rest \<le> usize_max"
  shows "parse_superbox_description (description_box uuid label salt @ rest) =
    Inr \<lparr>sd_type_uuid = uuid, sd_label = label,
         sd_content_offset = length (description_box uuid label salt)\<rparr>"
proof -
  define tail where "tail = (case salt of Some s \<Rightarrow> box_bytes TYPE_SALT s | None \<Rightarrow> [])"
  define tg where "tg = (if salt \<noteq> None then TOGGLE_REQUESTABLE OR TOGGLE_LABEL_PRESENT OR TOGGLE_PRIVATE
    else TOGGLE_REQUESTABLE OR TOGGLE_LABEL_PRESENT)"
  let ?p = "uuid @ tg # label @ 0 # tail"
  have desc: "description_box uuid label salt = box_bytes TYPE_JUMD ?p"
    by (auto simp: description_box_def Let_def tail_def tg_def TYPE_SALT_def or.assoc split: option.splits)
  have box: "parse_box (box_bytes TYPE_JUMD ?p @ rest) 0
      = Inr \<lparr>pb_type = TYPE_JUMD, pb_payload = ?p, pb_next = length (box_bytes TYPE_JUMD ?p)\<rparr>"
    using parse_box_box_bytes [of TYPE_JUMD "[]" ?p rest] assms(4) by (simp add: desc)
  obtain cs where cs: "utf8_chars label = Some cs" "\<not> list_ex forbidden_char cs"
    using assms(2) by (auto simp: valid_label_def split: option.splits)
  have salt: "parse_box ?p (17 + length label + 1)
      = Inr \<lparr>pb_type = TYPE_SALT, pb_payload = s, pb_next = length ?p\<rparr>" if "salt = Some s" for s
  proof -
    have "length ?p \<le> usize_max"
      using assms(4) unfolding desc by (simp add: length_box_bytes split: if_splits)
    then show ?thesis
      using parse_box_box_bytes [of TYPE_SALT "uuid @ tg # label @ [0]" s "[]"] assms(1) that
      by (simp add: tail_def)
  qed
  have tgs: "tg AND (TOGGLE_REQUESTABLE OR TOGGLE_LABEL_PRESENT) = TOGGLE_REQUESTABLE OR TOGGLE_LABEL_PRESENT"
    "(tg AND TOGGLE_PRIVATE \<noteq> 0) = (salt \<noteq> None)"
    using description_toggles by (simp_all add: tg_def)
  have lab: "label \<noteq> []" "\<not> MAX_LABEL_BYTES < length label" "0 \<notin> set label"
    using assms(2) by (auto simp: valid_label_def)
  have pay: "?p ! 16 = tg" "take 16 ?p = uuid" "drop 17 ?p = label @ 0 # tail" "\<not> length ?p < 18"
    using assms(1) lab by (auto simp: nth_append Suc_le_eq)
  show ?thesis
  proof (cases salt)
    case None
    then show ?thesis
      unfolding desc parse_superbox_description_def box
      using tgs lab cs pay by (simp add: position_zero_label)
  next
    case (Some s)
    with assms(3) have "length s = 16 \<or> length s = 32" by (simp add: valid_salt_def)
    with Some salt [OF Some] show ?thesis
      unfolding desc parse_superbox_description_def box
      using tgs lab cs pay by (simp add: position_zero_label)
  qed
qed

section \<open>Child boxes\<close>

abbreviation child_limit :: "(bytes \<times> bytes) list \<Rightarrow> jumbf_error option" where
  "child_limit content \<equiv>
     if length content \<ge> MAX_CHILD_BOXES_PER_SUPERBOX
     then Some (ResourceLimit ''superbox child count exceeds verifier bound'') else None"

abbreviation child_push :: "(bytes \<times> bytes) list \<Rightarrow> nat \<Rightarrow> parsed_box \<Rightarrow> jumbf_error + (bytes \<times> bytes) list" where
  "child_push content pos b \<equiv> Inr (content @ [(pb_type b, pb_payload b)])"

lemma foldl_append: "foldl (@) xs yss = xs @ concat yss"
  by (induction yss arbitrary: xs) auto

lemma child_loop_boxes:
  assumes "\<forall>(t, p) \<in> set cs. length t = 4"
    and "length pre + length (concat (map (\<lambda>(t, p). box_bytes t p) cs)) \<le> usize_max"
    and "length acc + length cs \<le> MAX_CHILD_BOXES_PER_SUPERBOX"
  shows "box_loop (pre @ concat (map (\<lambda>(t, p). box_bytes t p) cs)) child_limit (\<lambda>e. e) child_push acc (length pre)
    = Inr (acc @ cs)"
  using assms
proof (induction cs arbitrary: pre acc)
  case Nil
  then show ?case by (simp add: box_loop_stop)
next
  case (Cons c cs)
  obtain t p where c: "c = (t, p)" by (cases c)
  let ?rest = "concat (map (\<lambda>(t, p). box_bytes t p) cs)"
  have pb: "parse_box (pre @ box_bytes t p @ ?rest) (length pre)
      = Inr \<lparr>pb_type = t, pb_payload = p, pb_next = length pre + length (box_bytes t p)\<rparr>"
    using Cons.prems c by (intro parse_box_box_bytes) auto
  have nonempty: "length pre < length (pre @ box_bytes t p @ ?rest)"
    by (simp add: length_box_bytes)
  have "box_loop (pre @ box_bytes t p @ ?rest) child_limit (\<lambda>e. e) child_push acc (length pre)
      = box_loop (pre @ box_bytes t p @ ?rest) child_limit (\<lambda>e. e) child_push (acc @ [(t, p)])
          (length pre + length (box_bytes t p))"
    using box_loop_step [OF nonempty _ pb, of child_limit acc "\<lambda>e. e" child_push] Cons.prems(3) by simp
  with Cons.IH [of "pre @ box_bytes t p" "acc @ [(t, p)]"] Cons.prems c show ?case by simp
qed

lemma parse_superbox_payload_boxes:
  assumes "length uuid = 16" and "valid_label label" and "valid_salt salt"
    and "\<forall>(t, p) \<in> set cs. length t = 4" and "length cs \<le> MAX_CHILD_BOXES_PER_SUPERBOX"
    and "length (description_box uuid label salt) + length (concat (map (\<lambda>(t, p). box_bytes t p) cs)) \<le> usize_max"
  shows "parse_superbox_payload (description_box uuid label salt @ concat (map (\<lambda>(t, p). box_bytes t p) cs)) =
    Inr \<lparr>sb_type_uuid = uuid, sb_label = label, sb_content = cs\<rparr>"
  using parse_description_box [OF assms(1,2,3,6)] child_loop_boxes [OF assms(4,6), of "[]"] assms(5)
  by (simp add: parse_superbox_payload_def)

lemma parse_superbox_superbox_payload:
  assumes "length (superbox uuid label content salt) \<le> usize_max"
  shows "parse_superbox (superbox uuid label content salt)
    = parse_superbox_payload (description_box uuid label salt @ concat content)"
  using parse_box_box_bytes_0(1) [of TYPE_JUMB "description_box uuid label salt @ concat content"] assms
  by (simp add: parse_superbox_def superbox_def foldl_append)

section \<open>What an accepted superbox promises\<close>

lemma parse_description_ok:
  assumes "parse_superbox_description payload = Inr d"
  shows "valid_label (sd_label d)" and "length (sd_type_uuid d) = 16"
    and "26 \<le> sd_content_offset d" and "sd_content_offset d \<le> length payload"
proof -
  from assms obtain desc null chars where
    box: "parse_box payload 0 = Inr desc" and len: "18 \<le> length (pb_payload desc)"
    and null: "position (\<lambda>b. b = 0) (drop 17 (pb_payload desc)) = Some null" "null \<le> MAX_LABEL_BYTES"
    and utf8: "utf8_chars (take null (drop 17 (pb_payload desc))) = Some chars"
    and chars: "take null (drop 17 (pb_payload desc)) \<noteq> []" "\<not> list_ex forbidden_char chars"
    and d: "d = \<lparr>sd_type_uuid = take 16 (pb_payload desc),
      sd_label = take null (drop 17 (pb_payload desc)), sd_content_offset = pb_next desc\<rparr>"
    by (auto simp: parse_superbox_description_def Let_def res_simps not_less split: if_splits)
  from position_Some [OF null(1)] have "0 \<notin> set (take null (drop 17 (pb_payload desc)))"
    by (auto simp: in_set_conv_nth)
  then show "valid_label (sd_label d)"
    using null utf8 chars d by (simp add: valid_label_def)
  show "length (sd_type_uuid d) = 16" using d len by simp
  have "pb_payload desc = drop 8 (take (pb_next desc) payload) \<or> length (pb_payload desc) + 8 \<le> pb_next desc"
    using box by (auto simp: parse_box_eq_Inr Let_def)
  then show "26 \<le> sd_content_offset d"
    using d len by auto
  show "sd_content_offset d \<le> length payload"
    using d parse_box_bounds(2) [OF box] by simp
qed

lemma child_loop_walk:
  assumes "box_loop data child_limit (\<lambda>e. e) child_push acc pos = Inr content" and "pos \<le> length data"
    and "length acc \<le> MAX_CHILD_BOXES_PER_SUPERBOX"
  shows "\<exists>bs. jumbf.walk data pos = Inr bs \<and> content = acc @ map (\<lambda>b. (pb_type b, pb_payload b)) bs
    \<and> length content \<le> MAX_CHILD_BOXES_PER_SUPERBOX"
proof -
  obtain bs where bs: "jumbf.walk data pos = Inr bs" using box_loop_walk [OF assms(1)] by blast
  have "box_loop data child_limit (\<lambda>e. e) child_push acc pos = Inr content \<Longrightarrow>
      length acc \<le> MAX_CHILD_BOXES_PER_SUPERBOX \<Longrightarrow>
      content = acc @ map (\<lambda>b. (pb_type b, pb_payload b)) bs \<and> length content \<le> MAX_CHILD_BOXES_PER_SUPERBOX"
    using bs
  proof (induction bs arbitrary: acc pos)
    case Nil
    then show ?case by (simp add: jumbf.walk_Nil box_loop_stop)
  next
    case (Cons b bs)
    then have "pos < length data" "parse_box data pos = Inr b" "jumbf.walk data (pb_next b) = Inr bs"
      by (simp_all add: jumbf.walk_Cons)
    moreover from this Cons.prems(1) have "length acc < MAX_CHILD_BOXES_PER_SUPERBOX"
      by (subst (asm) box_loop.simps) (simp split: if_splits)
    ultimately show ?case
      using Cons.IH [of "acc @ [(pb_type b, pb_payload b)]" "pb_next b"] Cons.prems(1)
        box_loop_step [of pos data child_limit acc b "\<lambda>e. e" child_push] by auto
  qed
  with assms bs show ?thesis by blast
qed

lemma parse_superbox_payload_ok:
  assumes "parse_superbox_payload payload = Inr sb"
  shows "\<exists>off bs. 26 \<le> off \<and> off \<le> length payload \<and> jumbf.walk payload off = Inr bs
    \<and> sb_content sb = map (\<lambda>b. (pb_type b, pb_payload b)) bs
    \<and> length bs \<le> MAX_CHILD_BOXES_PER_SUPERBOX \<and> valid_label (sb_label sb) \<and> length (sb_type_uuid sb) = 16"
proof -
  from assms obtain d content where d: "parse_superbox_description payload = Inr d"
    and c: "box_loop payload child_limit (\<lambda>e. e) child_push [] (sd_content_offset d) = Inr content"
    and sb: "sb = \<lparr>sb_type_uuid = sd_type_uuid d, sb_label = sd_label d, sb_content = content\<rparr>"
    by (auto simp: parse_superbox_payload_def res_simps)
  from child_loop_walk [OF c] parse_description_ok [OF d] sb show ?thesis
    by (intro exI [of _ "sd_content_offset d"]) auto
qed

end
