(* ===== verification/Jumbf_Manifest.thy ===== *)
theory Jumbf_Manifest
  imports Jumbf_Superbox
begin

text \<open>
  Manifests: what every parsed manifest promises, and that a manifest the fixture builder wrote is
  read back field by field.
\<close>

section \<open>Constants\<close>

lemma length_UUID [simp]:
  "length UUID_MANIFEST_STORE = 16" "length UUID_MANIFEST = 16" "length UUID_ASSERTION_STORE = 16"
  "length UUID_CLAIM = 16" "length UUID_CLAIM_SIGNATURE = 16" "length UUID_CBOR_CONTENT = 16"
  by (simp_all add: UUID_MANIFEST_STORE_def UUID_MANIFEST_def UUID_ASSERTION_STORE_def UUID_CLAIM_def
      UUID_CLAIM_SIGNATURE_def UUID_CBOR_CONTENT_def type_uuid_def UUID_SUFFIX_def ascii_def)

lemmas UUID_defs = UUID_MANIFEST_STORE_def UUID_MANIFEST_def UUID_LEGACY_MANIFEST_def
  UUID_UPDATE_MANIFEST_def UUID_COMPRESSED_MANIFEST_def UUID_ASSERTION_STORE_def UUID_CLAIM_def
  UUID_CLAIM_SIGNATURE_def UUID_CBOR_CONTENT_def UUID_JSON_CONTENT_def type_uuid_def

lemma UUID_distinct [simp]:
  "UUID_MANIFEST \<noteq> UUID_COMPRESSED_MANIFEST" "UUID_LEGACY_MANIFEST \<noteq> UUID_COMPRESSED_MANIFEST"
  "UUID_UPDATE_MANIFEST \<noteq> UUID_COMPRESSED_MANIFEST"
  "UUID_CLAIM \<noteq> UUID_ASSERTION_STORE" "UUID_CLAIM_SIGNATURE \<noteq> UUID_ASSERTION_STORE"
  "UUID_CLAIM_SIGNATURE \<noteq> UUID_CLAIM" "UUID_JSON_CONTENT \<noteq> UUID_CBOR_CONTENT"
  by (simp_all add: UUID_defs ascii_def)

lemma is_manifest_uuid_simps [simp]:
  "is_manifest_uuid UUID_MANIFEST" "\<not> is_manifest_uuid UUID_COMPRESSED_MANIFEST"
  "\<not> is_manifest_uuid UUID_MANIFEST_STORE"
  by (simp_all add: is_manifest_uuid_def UUID_defs ascii_def)

lemma valid_LABEL:
  "valid_label LABEL_MANIFEST_STORE" "valid_label LABEL_ASSERTION_STORE" "valid_label LABEL_CLAIM_V1"
  "valid_label LABEL_CLAIM_V2" "valid_label LABEL_CLAIM_SIGNATURE"
  by (simp_all add: valid_label_def LABEL_MANIFEST_STORE_def LABEL_ASSERTION_STORE_def LABEL_CLAIM_V1_def
      LABEL_CLAIM_V2_def LABEL_CLAIM_SIGNATURE_def ascii_def utf8_chars_Cons forbidden_char_def
      MAX_LABEL_BYTES_def)

lemma LABEL_distinct [simp]:
  "LABEL_CLAIM_V1 \<noteq> LABEL_CLAIM_V2" "LABEL_CLAIM_V1 \<noteq> LABEL_ASSERTION_STORE"
  "LABEL_CLAIM_V2 \<noteq> LABEL_ASSERTION_STORE" "LABEL_CLAIM_SIGNATURE \<noteq> LABEL_CLAIM_V1"
  "LABEL_CLAIM_SIGNATURE \<noteq> LABEL_CLAIM_V2" "LABEL_CLAIM_SIGNATURE \<noteq> LABEL_ASSERTION_STORE"
  by (simp_all add: LABEL_ASSERTION_STORE_def LABEL_CLAIM_V1_def LABEL_CLAIM_V2_def
      LABEL_CLAIM_SIGNATURE_def ascii_def)

section \<open>No bytes are invented\<close>

lemma sublist_slice: "sublist (slice xs a b) xs"
  unfolding slice_def by (metis sublist_drop sublist_order.order_trans sublist_take)

lemma parse_box_sublist: "parse_box data pos = Inr b \<Longrightarrow> sublist (pb_payload b) data"
  by (auto simp: parse_box_eq_Inr Let_def sublist_slice)

lemma walk_sublist: "jumbf.walk data pos = Inr bs \<Longrightarrow> b \<in> set bs \<Longrightarrow> sublist (pb_payload b) data"
  by (induction bs arbitrary: pos) (auto simp: jumbf.walk_Cons parse_box_sublist)

lemma parse_superbox_payload_sublist:
  assumes "parse_superbox_payload payload = Inr sb" and "(t, p) \<in> set (sb_content sb)"
  shows "sublist p payload"
  using parse_superbox_payload_ok [OF assms(1)] assms(2) walk_sublist by fastforce

section \<open>The invariant of the manifest loop\<close>

definition manifest_ok :: "parsed_manifest \<Rightarrow> bool" where
  "manifest_ok m \<longleftrightarrow>
     distinct (map fst (assertion_jumbf m)) \<and> length (assertion_jumbf m) \<le> MAX_ASSERTIONS_PER_MANIFEST
     \<and> subseq (map fst (assertions m)) (map fst (assertion_jumbf m))
     \<and> claim_count m \<le> 2 \<and> (claim_cbor m = None \<longleftrightarrow> claim_count m = 0)
     \<and> (claim_box_label m = None \<longleftrightarrow> claim_count m = 0)
     \<and> (\<forall>l. claim_box_label m = Some l \<longrightarrow> l = LABEL_CLAIM_V1 \<or> l = LABEL_CLAIM_V2)
     \<and> (\<forall>(l, p) \<in> set (assertions m) \<union> set (assertion_jumbf m). sublist p (manifest_jumbf m))
     \<and> (\<forall>p. claim_cbor m = Some p \<or> signature_cose m = Some p \<longrightarrow> sublist p (manifest_jumbf m))"

definition loop_ok :: "bytes \<Rightarrow> bytes \<Rightarrow> manifest_loop \<Rightarrow> bool" where
  "loop_ok label payload s \<longleftrightarrow>
     manifest_ok (ml_manifest s)
     \<and> assertion_labels s = set (map fst (assertion_jumbf (ml_manifest s)))
     \<and> claim_count (ml_manifest s) \<le> card (direct_child_labels s \<inter> {LABEL_CLAIM_V1, LABEL_CLAIM_V2})
     \<and> assertion_store_count s \<le> 1
     \<and> pm_label (ml_manifest s) = label \<and> manifest_jumbf (ml_manifest s) = payload"

lemma try_fold_invariant:
  assumes "try_fold f s xs = Inr r" and "P s"
    and "\<And>s x s'. P s \<Longrightarrow> x \<in> set xs \<Longrightarrow> f s x = Inr s' \<Longrightarrow> P s'"
  shows "P r"
  using assms
proof (induction xs arbitrary: s)
  case (Cons x xs)
  from Cons.prems(1) obtain s' where "f s x = Inr s'" "try_fold f s' xs = Inr r"
    by (auto simp: res_simps)
  moreover have "P s'" by (rule Cons.prems(3) [OF Cons.prems(2) _ calculation(1)]) simp
  ultimately show ?case
    using Cons.IH Cons.prems(3) by (meson list.set_intros(2))
qed simp

lemma subseq_snoc: "subseq xs ys \<Longrightarrow> subseq (xs @ [a]) (ys @ [a])" "subseq xs ys \<Longrightarrow> subseq xs (ys @ [a])"
  using list_emb_append_mono [of "(=)" xs ys "[]" "[a]"] by simp_all

lemma add_assertion_ok:
  assumes "add_assertion s (t, p) = Inr s'" and "loop_ok label payload s" and "sublist p payload"
  shows "loop_ok label payload s' \<and> direct_child_labels s' = direct_child_labels s"
proof (cases "t = TYPE_JUMB")
  case True
  let ?m = "ml_manifest s"
  from assms(1) True obtain a where a: "parse_superbox_payload p = Inr a"
    and len: "length (assertion_jumbf ?m) < MAX_ASSERTIONS_PER_MANIFEST"
    and new: "sb_label a \<notin> assertion_labels s"
    and s': "s' = s\<lparr>ml_manifest :=
        (case (case expected_content_type (sb_type_uuid a) of
                 Some t \<Rightarrow> find (\<lambda>(box_type, _). box_type = t) (sb_content a) | None \<Rightarrow> None) of
           Some (_, payload) \<Rightarrow>
             ?m\<lparr>assertion_jumbf := assertion_jumbf ?m @ [(sb_label a, p)],
               assertions := assertions ?m @ [(sb_label a, payload)]\<rparr>
         | None \<Rightarrow> ?m\<lparr>assertion_jumbf := assertion_jumbf ?m @ [(sb_label a, p)]\<rparr>),
        assertion_labels := insert (sb_label a) (assertion_labels s)\<rparr>"
    by (auto simp: add_assertion_def Let_def res_simps not_le split: if_splits option.splits prod.splits)
  define found where "found = (case expected_content_type (sb_type_uuid a) of
      Some t \<Rightarrow> find (\<lambda>(box_type, _). box_type = t) (sb_content a) | None \<Rightarrow> None)"
  have sub: "sublist c payload" if "found = Some (t', c)" for t' c
  proof -
    from that have "(t', c) \<in> set (sb_content a)"
      by (auto simp: found_def dest: find_SomeD split: option.splits)
    with a assms(3) show ?thesis
      by (meson parse_superbox_payload_sublist sublist_order.order_trans)
  qed
  show ?thesis
    using assms(2,3) len new sub
    unfolding s' found_def [symmetric]
    by (auto simp: loop_ok_def manifest_ok_def subseq_snoc split: option.splits)
qed (use assms in \<open>simp add: add_assertion_def\<close>)

lemma card_claim_labels:
  "card (D \<inter> {LABEL_CLAIM_V1, LABEL_CLAIM_V2}) \<le> 2"
  "l \<notin> D \<Longrightarrow> l = LABEL_CLAIM_V1 \<or> l = LABEL_CLAIM_V2 \<Longrightarrow>
     card (insert l D \<inter> {LABEL_CLAIM_V1, LABEL_CLAIM_V2}) = Suc (card (D \<inter> {LABEL_CLAIM_V1, LABEL_CLAIM_V2}))"
  "card (D \<inter> {LABEL_CLAIM_V1, LABEL_CLAIM_V2}) \<le> card (insert l D \<inter> {LABEL_CLAIM_V1, LABEL_CLAIM_V2})"
proof -
  show "card (D \<inter> {LABEL_CLAIM_V1, LABEL_CLAIM_V2}) \<le> 2"
    using card_mono [of "{LABEL_CLAIM_V1, LABEL_CLAIM_V2}" "D \<inter> {LABEL_CLAIM_V1, LABEL_CLAIM_V2}"] by simp
  show "l \<notin> D \<Longrightarrow> l = LABEL_CLAIM_V1 \<or> l = LABEL_CLAIM_V2 \<Longrightarrow>
     card (insert l D \<inter> {LABEL_CLAIM_V1, LABEL_CLAIM_V2}) = Suc (card (D \<inter> {LABEL_CLAIM_V1, LABEL_CLAIM_V2}))"
    by (simp add: Int_insert_left)
  show "card (D \<inter> {LABEL_CLAIM_V1, LABEL_CLAIM_V2}) \<le> card (insert l D \<inter> {LABEL_CLAIM_V1, LABEL_CLAIM_V2})"
    by (rule card_mono) auto
qed

lemma single_cbor_mem: "single_cbor sb = Some p \<Longrightarrow> (TYPE_CBOR, p) \<in> set (sb_content sb)"
  by (auto simp: single_cbor_def split: list.splits if_splits)

lemma add_claim_ok:
  assumes "add_claim inner s = Inr s'" and "loop_ok label payload s0"
    and "s = s0\<lparr>direct_child_labels := insert (sb_label inner) (direct_child_labels s0)\<rparr>"
    and "sb_label inner \<notin> direct_child_labels s0"
    and "sb_label inner = LABEL_CLAIM_V1 \<or> sb_label inner = LABEL_CLAIM_V2"
    and "\<forall>(t, p) \<in> set (sb_content inner). sublist p payload"
  shows "loop_ok label payload s'"
proof -
  let ?m = "ml_manifest s0"
  have count: "claim_count ?m + 1 \<le> card (insert (sb_label inner) (direct_child_labels s0) \<inter> {LABEL_CLAIM_V1, LABEL_CLAIM_V2})"
    using assms(2) card_claim_labels(2) [OF assms(4,5)] by (simp add: loop_ok_def)
  then have two: "claim_count ?m + 1 \<le> 2" using card_claim_labels(1) le_trans by blast
  from assms(1) obtain p where p: "single_cbor inner = Some p" by (auto simp: add_claim_def Let_def split: option.splits)
  with assms(6) have sub: "sublist p payload" using single_cbor_mem by fastforce
  show ?thesis
  proof (cases "claim_box_label ?m")
    case None
    then have "s' = s\<lparr>ml_manifest := ?m\<lparr>claim_count := claim_count ?m + 1, claim_cbor := Some p,
        claim_box_label := Some (sb_label inner)\<rparr>\<rparr>"
      using assms(1,3) p by (simp add: add_claim_def Let_def)
    with assms(2,3,5) count two sub show ?thesis
      by (simp add: loop_ok_def manifest_ok_def) (elim conjE, simp)
  next
    case (Some l)
    then have "s' = s\<lparr>ml_manifest := ?m\<lparr>claim_count := claim_count ?m + 1\<rparr>\<rparr>"
      using assms(1,3) p by (simp add: add_claim_def Let_def)
    with assms(2,3) count two Some show ?thesis
      by (simp add: loop_ok_def manifest_ok_def) (elim conjE, simp)
  qed
qed

lemma add_signature_ok:
  assumes "add_signature inner s = Inr s'" and "loop_ok label payload s"
    and "\<forall>(t, p) \<in> set (sb_content inner). sublist p payload"
  shows "loop_ok label payload s'"
proof -
  from assms(1) obtain p where p: "single_cbor inner = Some p"
    and s': "s' = s\<lparr>ml_manifest := (ml_manifest s)\<lparr>signature_cose := Some p\<rparr>\<rparr>"
    by (auto simp: add_signature_def split: option.splits)
  from p assms(3) have "sublist p payload" using single_cbor_mem by fastforce
  with assms(2) s' show ?thesis by (auto simp: loop_ok_def manifest_ok_def)
qed

lemma check_child_label_ok:
  assumes "check_child_label inner s = Inr s'"
  shows "\<exists>n \<le> 1. s' = s\<lparr>assertion_store_count := n\<rparr> \<or> s' = s"
    and "sb_type_uuid inner = UUID_CLAIM \<Longrightarrow> sb_label inner = LABEL_CLAIM_V1 \<or> sb_label inner = LABEL_CLAIM_V2"
  using assms by (auto simp: check_child_label_def Let_def split: if_splits)

lemma loop_ok_child_label: "loop_ok label payload s \<Longrightarrow> loop_ok label payload (s\<lparr>direct_child_labels := insert l (direct_child_labels s)\<rparr>)"
  using card_claim_labels(3) [of "direct_child_labels s" l] by (auto simp: loop_ok_def)

lemma add_child_ok:
  assumes "add_child s (t, p) = Inr s'" and "loop_ok label payload s" and "sublist p payload"
  shows "loop_ok label payload s'"
proof (cases "t = TYPE_JUMB")
  case True
  from assms(1) True obtain inner s1 where inner: "parse_superbox_payload p = Inr inner"
    and chk: "check_child_label inner s = Inr s1" and new: "sb_label inner \<notin> direct_child_labels s1"
    by (auto simp: add_child_def res_bind_eq_Inr Let_def split: if_splits)
  let ?s2 = "s1\<lparr>direct_child_labels := insert (sb_label inner) (direct_child_labels s1)\<rparr>"
  have s': "(if sb_type_uuid inner = UUID_ASSERTION_STORE then try_fold add_assertion ?s2 (sb_content inner)
              else if sb_type_uuid inner = UUID_CLAIM then add_claim inner ?s2
              else if sb_type_uuid inner = UUID_CLAIM_SIGNATURE then add_signature inner ?s2
              else Inr ?s2) = Inr s'"
    using assms(1) True inner chk new by (simp add: add_child_def Let_def)
  have sub: "sublist q payload" if "(u, q) \<in> set (sb_content inner)" for u q
    using parse_superbox_payload_sublist [OF inner that] assms(3) sublist_order.order_trans by blast
  have ok1: "loop_ok label payload s1"
    using check_child_label_ok(1) [OF chk] assms(2) by (elim exE conjE disjE) (simp_all add: loop_ok_def)
  then have ok2: "loop_ok label payload ?s2" by (rule loop_ok_child_label)
  consider (assertions) "sb_type_uuid inner = UUID_ASSERTION_STORE"
    | (claim) "sb_type_uuid inner = UUID_CLAIM" | (sig) "sb_type_uuid inner = UUID_CLAIM_SIGNATURE"
    | (other) "sb_type_uuid inner \<notin> {UUID_ASSERTION_STORE, UUID_CLAIM, UUID_CLAIM_SIGNATURE}"
    by blast
  then show ?thesis
  proof cases
    case assertions
    with s' have "try_fold add_assertion ?s2 (sb_content inner) = Inr s'" by simp
    then show ?thesis
    proof (rule try_fold_invariant)
      fix s c s'
      assume "loop_ok label payload s" "c \<in> set (sb_content inner)" "add_assertion s c = Inr s'"
      then show "loop_ok label payload s'"
        using add_assertion_ok [of s "fst c" "snd c" s'] sub [of "fst c" "snd c"] by simp
    qed (rule ok2)
  next
    case claim
    with s' have "add_claim inner ?s2 = Inr s'" by simp
    from add_claim_ok [OF this ok1 refl new check_child_label_ok(2) [OF chk claim]] sub
    show ?thesis by blast
  next
    case sig
    with s' have "add_signature inner ?s2 = Inr s'" by simp
    from add_signature_ok [OF this ok2] sub show ?thesis by blast
  next
    case other
    with s' have "s' = ?s2" by simp
    with ok2 show ?thesis by blast
  qed
qed (use assms in \<open>simp add: add_child_def\<close>)

lemma parse_manifest_ok:
  assumes "parse_manifest payload = Inr (Some m)"
  shows "manifest_ok m \<and> manifest_jumbf m = payload \<and> valid_label (pm_label m)"
proof -
  from assms obtain sb s where sb: "parse_superbox_payload payload = Inr sb"
    and s: "try_fold add_child \<lparr>ml_manifest = empty_manifest (sb_label sb) payload, assertion_labels = {},
               direct_child_labels = {}, assertion_store_count = 0\<rparr> (sb_content sb) = Inr s"
    and m: "m = ml_manifest s"
    by (auto simp: parse_manifest_def res_simps split: if_splits)
  have "loop_ok (sb_label sb) payload s"
    using s
  proof (rule try_fold_invariant)
    show "loop_ok (sb_label sb) payload \<lparr>ml_manifest = empty_manifest (sb_label sb) payload, assertion_labels = {},
               direct_child_labels = {}, assertion_store_count = 0\<rparr>"
      by (simp add: loop_ok_def manifest_ok_def empty_manifest_def)
  next
    fix s c s'
    assume "loop_ok (sb_label sb) payload s" "c \<in> set (sb_content sb)" "add_child s c = Inr s'"
    then show "loop_ok (sb_label sb) payload s'"
      using add_child_ok parse_superbox_payload_sublist [OF sb] by (cases c) fastforce
  qed
  with m parse_superbox_payload_ok [OF sb] show ?thesis by (auto simp: loop_ok_def)
qed

section \<open>Stores\<close>

definition store_ok :: "parsed_manifest list \<Rightarrow> bool" where
  "store_ok ms \<longleftrightarrow> distinct (map pm_label ms) \<and> length ms \<le> MAX_MANIFESTS_PER_STORE
     \<and> (\<forall>m \<in> set ms. manifest_ok m \<and> valid_label (pm_label m))"

lemma add_manifest_ok:
  assumes "add_manifest (ms, ls) (t, p) = Inr (ms', ls')" and "store_ok ms" and "ls = set (map pm_label ms)"
  shows "store_ok ms' \<and> ls' = set (map pm_label ms') \<and> (\<exists>ns. ms' = ms @ ns \<and> (\<forall>n \<in> set ns. manifest_jumbf n = p))"
proof (cases "t = TYPE_JUMB \<and> parse_manifest p \<noteq> Inr None")
  case True
  with assms(1) obtain m where m: "parse_manifest p = Inr (Some m)"
    and new: "length ms < MAX_MANIFESTS_PER_STORE" "pm_label m \<notin> ls"
    and r: "ms' = ms @ [m]" "ls' = insert (pm_label m) ls"
    by (cases "parse_manifest p") (auto simp: add_manifest_def split: if_splits option.splits)
  from parse_manifest_ok [OF m] new assms(2,3) r show ?thesis by (auto simp: store_ok_def)
qed (use assms in \<open>auto simp: add_manifest_def split: if_splits\<close>)

lemma parse_manifest_store_ok:
  assumes "parse_manifest_store data = Inr ms"
  shows "store_ok ms \<and> (\<forall>m \<in> set ms. sublist (manifest_jumbf m) data) \<and> length data \<le> MAX_MANIFEST_STORE_BYTES"
proof -
  from assms obtain top_box sb ls where top: "parse_manifest_store_box data = Inr top_box"
    and sb: "parse_superbox_payload (pb_payload top_box) = Inr sb"
    and ms: "try_fold add_manifest ([], {}) (sb_content sb) = Inr (ms, ls)"
    and len: "length data \<le> MAX_MANIFEST_STORE_BYTES"
    by (auto simp: parse_manifest_store_def res_simps split: if_splits)
  have tb: "sublist (pb_payload top_box) data"
    using top by (auto simp: parse_manifest_store_box_def res_simps dest!: parse_box_sublist split: if_splits)
  let ?P = "\<lambda>(ms, ls). store_ok ms \<and> ls = set (map pm_label ms) \<and> (\<forall>m \<in> set ms. sublist (manifest_jumbf m) data)"
  have "?P (ms, ls)"
    using ms
  proof (rule try_fold_invariant)
    fix s c s'
    assume s: "?P s" and c: "c \<in> set (sb_content sb)" and "add_manifest s c = Inr s'"
    moreover obtain ms ls where "s = (ms, ls)" by (cases s)
    moreover obtain t p where tp: "c = (t, p)" by (cases c)
    moreover have "sublist p data"
      using parse_superbox_payload_sublist [OF sb] c tp tb sublist_order.order_trans by blast
    ultimately show "?P s'"
      using add_manifest_ok [of ms ls t p "fst s'" "snd s'"] by fastforce
  qed (simp add: store_ok_def)
  with len show ?thesis by simp
qed

end
