(* ===== verification/Jumbf_Build.thy ===== *)
theory Jumbf_Build
  imports Jumbf_Manifest
begin

text \<open>
  The parser inverts the builder: a store assembled from manifests, each with its assertions, claim
  and signature, is parsed into exactly those parts, in order.
\<close>

section \<open>What was built\<close>

record assertion_spec =
  as_label :: bytes
  as_cbor :: bytes
  as_salt :: "bytes option"

record manifest_spec =
  ms_label :: bytes
  ms_assertions :: "assertion_spec list"
  ms_claim :: bytes
  ms_signature :: bytes
  ms_claim_label :: bytes

definition assertion_payload :: "assertion_spec \<Rightarrow> bytes" where
  "assertion_payload a = description_box UUID_CBOR_CONTENT (as_label a) (as_salt a) @ cbor_box (as_cbor a)"

definition assertion_bytes :: "assertion_spec \<Rightarrow> bytes" where
  "assertion_bytes a = assertion_box (as_label a) (as_cbor a) (as_salt a)"

definition manifest_bytes :: "manifest_spec \<Rightarrow> bytes" where
  "manifest_bytes m = build_manifest_with_claim_label (ms_label m) (map assertion_bytes (ms_assertions m))
     (ms_claim m) (ms_signature m) (ms_claim_label m)"

definition store_children :: "manifest_spec \<Rightarrow> (bytes \<times> bytes) list" where
  "store_children m =
     [(TYPE_JUMB, description_box UUID_ASSERTION_STORE LABEL_ASSERTION_STORE None
        @ concat (map assertion_bytes (ms_assertions m))),
      (TYPE_JUMB, description_box UUID_CLAIM (ms_claim_label m) None @ cbor_box (ms_claim m)),
      (TYPE_JUMB, description_box UUID_CLAIM_SIGNATURE LABEL_CLAIM_SIGNATURE None @ cbor_box (ms_signature m))]"

definition manifest_payload :: "manifest_spec \<Rightarrow> bytes" where
  "manifest_payload m = description_box UUID_MANIFEST (ms_label m) None
     @ concat (map (\<lambda>(t, p). box_bytes t p) (store_children m))"

definition spec_ok :: "manifest_spec \<Rightarrow> bool" where
  "spec_ok m \<longleftrightarrow> valid_label (ms_label m)
     \<and> (ms_claim_label m = LABEL_CLAIM_V1 \<or> ms_claim_label m = LABEL_CLAIM_V2)
     \<and> (\<forall>a \<in> set (ms_assertions m). valid_label (as_label a) \<and> valid_salt (as_salt a))
     \<and> distinct (map as_label (ms_assertions m))
     \<and> length (ms_assertions m) \<le> MAX_ASSERTIONS_PER_MANIFEST"

definition spec_parsed :: "manifest_spec \<Rightarrow> parsed_manifest" where
  "spec_parsed m =
     \<lparr>pm_label = ms_label m, manifest_jumbf = manifest_payload m,
      assertions = map (\<lambda>a. (as_label a, as_cbor a)) (ms_assertions m),
      assertion_jumbf = map (\<lambda>a. (as_label a, assertion_payload a)) (ms_assertions m),
      claim_cbor = Some (ms_claim m), signature_cose = Some (ms_signature m), claim_count = 1,
      claim_box_label = Some (ms_claim_label m)\<rparr>"

section \<open>Bytes of the parts\<close>

lemma assertion_bytes_box: "assertion_bytes a = box_bytes TYPE_JUMB (assertion_payload a)"
  by (simp add: assertion_bytes_def assertion_box_def superbox_def assertion_payload_def)

lemma manifest_bytes_box: "manifest_bytes m = box_bytes TYPE_JUMB (manifest_payload m)"
  by (simp add: manifest_bytes_def build_manifest_with_claim_label_def superbox_def Let_def
      manifest_payload_def store_children_def foldl_append LABEL_ASSERTION_STORE_def
      LABEL_CLAIM_SIGNATURE_def)

lemma map_part_bytes:
  "map assertion_bytes as = map (\<lambda>a. box_bytes TYPE_JUMB (assertion_payload a)) as"
  "map manifest_bytes ms = map (\<lambda>m. box_bytes TYPE_JUMB (manifest_payload m)) ms"
  by (simp_all add: assertion_bytes_box manifest_bytes_box)

lemma length_box_ge: "length p \<le> length (box_bytes t p)"
  by (simp add: length_box_bytes)

lemma length_member_concat: "x \<in> set xs \<Longrightarrow> length (f x) \<le> length (concat (map f xs))"
  by (induction xs) auto

section \<open>Parsing the parts\<close>

lemma parse_assertion_payload:
  assumes "valid_label (as_label a)" and "valid_salt (as_salt a)" and "length (assertion_payload a) \<le> usize_max"
  shows "parse_superbox_payload (assertion_payload a) =
    Inr \<lparr>sb_type_uuid = UUID_CBOR_CONTENT, sb_label = as_label a, sb_content = [(TYPE_CBOR, as_cbor a)]\<rparr>"
  using parse_superbox_payload_boxes [of UUID_CBOR_CONTENT "as_label a" "as_salt a" "[(TYPE_CBOR, as_cbor a)]"] assms
  by (simp add: assertion_payload_def cbor_box_def MAX_CHILD_BOXES_PER_SUPERBOX_def MAX_ASSERTIONS_PER_MANIFEST_def)

lemma parse_cbor_payload:
  assumes "length uuid = 16" and "valid_label l" and "length (description_box uuid l None @ cbor_box c) \<le> usize_max"
  shows "parse_superbox_payload (description_box uuid l None @ cbor_box c) =
    Inr \<lparr>sb_type_uuid = uuid, sb_label = l, sb_content = [(TYPE_CBOR, c)]\<rparr>"
  using parse_superbox_payload_boxes [of uuid l None "[(TYPE_CBOR, c)]"] assms
  by (simp add: cbor_box_def valid_salt_def MAX_CHILD_BOXES_PER_SUPERBOX_def MAX_ASSERTIONS_PER_MANIFEST_def)

definition with_assertions :: "manifest_loop \<Rightarrow> assertion_spec list \<Rightarrow> manifest_loop" where
  "with_assertions s as =
     s\<lparr>ml_manifest := (ml_manifest s)
         \<lparr>assertions := assertions (ml_manifest s) @ map (\<lambda>a. (as_label a, as_cbor a)) as,
          assertion_jumbf := assertion_jumbf (ml_manifest s) @ map (\<lambda>a. (as_label a, assertion_payload a)) as\<rparr>,
       assertion_labels := assertion_labels s \<union> set (map as_label as)\<rparr>"

lemma add_assertion_spec:
  assumes "valid_label (as_label a)" and "valid_salt (as_salt a)" and "length (assertion_payload a) \<le> usize_max"
    and "length (assertion_jumbf (ml_manifest s)) < MAX_ASSERTIONS_PER_MANIFEST"
    and "as_label a \<notin> assertion_labels s"
  shows "add_assertion s (TYPE_JUMB, assertion_payload a) = Inr (with_assertions s [a])"
  using assms(4,5) parse_assertion_payload [OF assms(1-3)]
  by (simp add: add_assertion_def expected_content_type_def Let_def with_assertions_def)

lemma with_assertions_Cons: "with_assertions (with_assertions s [a]) as = with_assertions s (a # as)"
  by (simp add: with_assertions_def)

lemma add_assertions_spec:
  assumes "\<forall>a \<in> set as. valid_label (as_label a) \<and> valid_salt (as_salt a) \<and> length (assertion_payload a) \<le> usize_max"
    and "length (assertion_jumbf (ml_manifest s)) + length as \<le> MAX_ASSERTIONS_PER_MANIFEST"
    and "distinct (map as_label as)" and "assertion_labels s \<inter> set (map as_label as) = {}"
  shows "try_fold add_assertion s (map (\<lambda>a. (TYPE_JUMB, assertion_payload a)) as) = Inr (with_assertions s as)"
  using assms
proof (induction as arbitrary: s)
  case Nil
  then show ?case by (simp add: with_assertions_def)
next
  case (Cons a as)
  then have "add_assertion s (TYPE_JUMB, assertion_payload a) = Inr (with_assertions s [a])"
    by (intro add_assertion_spec) auto
  moreover have "try_fold add_assertion (with_assertions s [a]) (map (\<lambda>a. (TYPE_JUMB, assertion_payload a)) as)
      = Inr (with_assertions (with_assertions s [a]) as)"
    by (rule Cons.IH) (use Cons.prems in \<open>auto simp: with_assertions_def\<close>)
  ultimately show ?case by (simp add: with_assertions_Cons)
qed

lemma parse_assertion_store_payload:
  assumes "length (description_box UUID_ASSERTION_STORE LABEL_ASSERTION_STORE None
      @ concat (map assertion_bytes as)) \<le> usize_max" and "length as \<le> MAX_ASSERTIONS_PER_MANIFEST"
  shows "parse_superbox_payload (description_box UUID_ASSERTION_STORE LABEL_ASSERTION_STORE None
      @ concat (map assertion_bytes as)) =
    Inr \<lparr>sb_type_uuid = UUID_ASSERTION_STORE, sb_label = LABEL_ASSERTION_STORE,
         sb_content = map (\<lambda>a. (TYPE_JUMB, assertion_payload a)) as\<rparr>"
  using parse_superbox_payload_boxes [of UUID_ASSERTION_STORE LABEL_ASSERTION_STORE None
      "map (\<lambda>a. (TYPE_JUMB, assertion_payload a)) as"] assms valid_LABEL
  by (simp add: valid_salt_def map_part_bytes comp_def MAX_CHILD_BOXES_PER_SUPERBOX_def)

lemma parse_manifest_spec:
  assumes "spec_ok m" and "length (manifest_payload m) \<le> usize_max"
  shows "parse_manifest (manifest_payload m) = Inr (Some (spec_parsed m))"
proof -
  have labels: "valid_label (ms_label m)" "valid_label (ms_claim_label m)"
    "ms_claim_label m = LABEL_CLAIM_V1 \<or> ms_claim_label m = LABEL_CLAIM_V2"
    using assms(1) valid_LABEL by (auto simp: spec_ok_def)
  have parts: "length p \<le> usize_max" if "(t, p) \<in> set (store_children m)" for t p
    using length_member_concat [OF that, of "\<lambda>(t, p). box_bytes t p"] length_box_ge [of p t] assms(2)
    by (simp add: manifest_payload_def)
  have lens: "length (description_box UUID_ASSERTION_STORE LABEL_ASSERTION_STORE None
        @ concat (map assertion_bytes (ms_assertions m))) \<le> usize_max"
    "length (description_box UUID_CLAIM (ms_claim_label m) None @ cbor_box (ms_claim m)) \<le> usize_max"
    "length (description_box UUID_CLAIM_SIGNATURE LABEL_CLAIM_SIGNATURE None @ cbor_box (ms_signature m)) \<le> usize_max"
    by (rule parts [of TYPE_JUMB], simp add: store_children_def)+
  have assertion_lens: "length (assertion_payload a) \<le> usize_max" if "a \<in> set (ms_assertions m)" for a
    using length_member_concat [OF that, of assertion_bytes] lens(1) length_box_ge [of "assertion_payload a" TYPE_JUMB]
    by (simp add: assertion_bytes_box)
  have outer: "parse_superbox_payload (manifest_payload m) =
      Inr \<lparr>sb_type_uuid = UUID_MANIFEST, sb_label = ms_label m, sb_content = store_children m\<rparr>"
    unfolding manifest_payload_def using assms(2) labels
    by (intro parse_superbox_payload_boxes)
      (auto simp: valid_salt_def store_children_def manifest_payload_def MAX_CHILD_BOXES_PER_SUPERBOX_def
        MAX_ASSERTIONS_PER_MANIFEST_def)
  have claim_differs: "ms_claim_label m \<noteq> LABEL_ASSERTION_STORE" "LABEL_CLAIM_SIGNATURE \<noteq> ms_claim_label m"
    using labels(3) by (metis LABEL_distinct)+
  let ?s0 = "\<lparr>ml_manifest = empty_manifest (ms_label m) (manifest_payload m), assertion_labels = {},
      direct_child_labels = {}, assertion_store_count = 0\<rparr>"
  let ?s1 = "?s0\<lparr>assertion_store_count := 1, direct_child_labels := {LABEL_ASSERTION_STORE}\<rparr>"
  have "try_fold add_assertion ?s1 (map (\<lambda>a. (TYPE_JUMB, assertion_payload a)) (ms_assertions m))
      = Inr (with_assertions ?s1 (ms_assertions m))"
    using assms(1) assertion_lens by (intro add_assertions_spec) (auto simp: spec_ok_def empty_manifest_def)
  moreover have "length (ms_assertions m) \<le> MAX_ASSERTIONS_PER_MANIFEST" using assms(1) by (simp add: spec_ok_def)
  ultimately have "try_fold add_child ?s0 (store_children m) =
      Inr ((with_assertions ?s1 (ms_assertions m))\<lparr>ml_manifest := spec_parsed m,
             direct_child_labels := {LABEL_ASSERTION_STORE, ms_claim_label m, LABEL_CLAIM_SIGNATURE}\<rparr>)"
    using parse_assertion_store_payload [OF lens(1)] parse_cbor_payload [OF _ labels(2) lens(2)]
      parse_cbor_payload [OF _ valid_LABEL(5) lens(3)] labels(3) claim_differs
    by (simp add: store_children_def add_child_def check_child_label_def Let_def add_claim_def add_signature_def
        single_cbor_def with_assertions_def empty_manifest_def spec_parsed_def insert_commute UUID_distinct [symmetric])
  with outer show ?thesis
    by (simp add: parse_manifest_def with_assertions_def)
qed

section \<open>Stores\<close>

lemma add_manifests_spec:
  assumes "\<forall>m \<in> set ms. spec_ok m \<and> length (manifest_payload m) \<le> usize_max"
    and "length acc + length ms \<le> MAX_MANIFESTS_PER_STORE"
    and "distinct (map ms_label ms)" and "ls \<inter> set (map ms_label ms) = {}"
  shows "try_fold add_manifest (acc, ls) (map (\<lambda>m. (TYPE_JUMB, manifest_payload m)) ms)
    = Inr (acc @ map spec_parsed ms, ls \<union> set (map ms_label ms))"
  using assms
proof (induction ms arbitrary: acc ls)
  case (Cons m ms)
  have "add_manifest (acc, ls) (TYPE_JUMB, manifest_payload m) = Inr (acc @ [spec_parsed m], insert (ms_label m) ls)"
    using Cons.prems parse_manifest_spec [of m] by (simp add: add_manifest_def spec_parsed_def)
  with Cons.IH [of "acc @ [spec_parsed m]" "insert (ms_label m) ls"] Cons.prems show ?case by simp
qed simp

lemma build_manifest_store_box:
  "build_manifest_store (map manifest_bytes ms) =
     box_bytes TYPE_JUMB (description_box UUID_MANIFEST_STORE LABEL_MANIFEST_STORE None
       @ concat (map (\<lambda>(t, p). box_bytes t p) (map (\<lambda>m. (TYPE_JUMB, manifest_payload m)) ms)))"
  by (simp add: build_manifest_store_def superbox_def foldl_append LABEL_MANIFEST_STORE_def comp_def map_part_bytes)

lemma parse_store_spec:
  assumes "\<forall>m \<in> set ms. spec_ok m" and "distinct (map ms_label ms)"
    and "length ms \<le> MAX_MANIFESTS_PER_STORE"
    and "length (build_manifest_store (map manifest_bytes ms)) \<le> MAX_MANIFEST_STORE_BYTES"
  shows "parse_manifest_store (build_manifest_store (map manifest_bytes ms)) = Inr (map spec_parsed ms)"
proof -
  let ?cs = "map (\<lambda>m. (TYPE_JUMB, manifest_payload m)) ms"
  let ?p = "description_box UUID_MANIFEST_STORE LABEL_MANIFEST_STORE None @ concat (map (\<lambda>(t, p). box_bytes t p) ?cs)"
  have len: "length (box_bytes TYPE_JUMB ?p) \<le> usize_max"
    using assms(4) by (simp add: build_manifest_store_box MAX_MANIFEST_STORE_BYTES_def usize_max_def)
  then have plen: "length ?p \<le> usize_max" using length_box_ge [of ?p TYPE_JUMB] by linarith
  have "length (manifest_payload m) \<le> usize_max" if "m \<in> set ms" for m
  proof -
    have "length (manifest_payload m) \<le> length (box_bytes TYPE_JUMB (manifest_payload m))" by (rule length_box_ge)
    also have "\<dots> \<le> length (concat (map (\<lambda>(t, p). box_bytes t p) ?cs))"
      using length_member_concat [of "(TYPE_JUMB, manifest_payload m)" ?cs "\<lambda>(t, p). box_bytes t p"] that by force
    finally show ?thesis using plen by simp
  qed
  then have fold: "try_fold add_manifest ([], {}) ?cs = Inr (map spec_parsed ms, set (map ms_label ms))"
    using add_manifests_spec [of ms "[]" "{}"] assms by simp
  have top: "parse_manifest_store_box (box_bytes TYPE_JUMB ?p)
      = Inr \<lparr>pb_type = TYPE_JUMB, pb_payload = ?p, pb_next = length (box_bytes TYPE_JUMB ?p)\<rparr>"
    using parse_box_box_bytes_0(1) [OF _ len] by (simp add: parse_manifest_store_box_def)
  have "parse_superbox_payload ?p = Inr \<lparr>sb_type_uuid = UUID_MANIFEST_STORE, sb_label = LABEL_MANIFEST_STORE, sb_content = ?cs\<rparr>"
    using assms(3) valid_LABEL plen
    by (intro parse_superbox_payload_boxes)
      (auto simp: valid_salt_def MAX_CHILD_BOXES_PER_SUPERBOX_def MAX_ASSERTIONS_PER_MANIFEST_def MAX_MANIFESTS_PER_STORE_def)
  with fold top assms(4) show ?thesis
    by (simp add: parse_manifest_store_def build_manifest_store_box not_less)
qed

end
