(* ===== verification/Jumbf_Merge.thy ===== *)
theory Jumbf_Merge
  imports Jumbf_Manifest
begin

text \<open>
  Merging two stores and expanding a compressed one. The manifests of a store are the sub-slices of
  its payload that the child walk finds; a merged store holds those of both, byte for byte.
\<close>

section \<open>The manifests of a payload\<close>

text \<open>
  What the child loop of \<open>manifest_superboxes_from_store\<close> does with a box, apart from the limits:
  reject it, skip it, or keep it as a manifest.
\<close>

definition classify_child :: "parsed_box \<Rightarrow> jumbf_error + bool" where
  "classify_child b =
     (if pb_type b = TYPE_JUMB then
        res_bind (parse_superbox_description (pb_payload b)) (\<lambda>child.
          if is_manifest_uuid (sd_type_uuid child) then Inr True
          else if sd_type_uuid child = UUID_COMPRESSED_MANIFEST then Inl (UnsupportedManifestType ''c2cm'')
          else Inr False)
      else Inr False)"

abbreviation count_limit :: "nat \<times> bytes list \<Rightarrow> jumbf_error option" where
  "count_limit \<equiv> (\<lambda>(child_count, manifests).
     if child_count \<ge> MAX_CHILD_BOXES_PER_SUPERBOX
     then Some (ResourceLimit ''superbox child count exceeds verifier bound'') else None)"

definition manifest_step ::
    "bytes \<Rightarrow> nat \<times> bytes list \<Rightarrow> nat \<Rightarrow> parsed_box \<Rightarrow> jumbf_error + (nat \<times> bytes list)" where
  "manifest_step payload = (\<lambda>(n, ms) pos b.
     res_bind (classify_child b) (\<lambda>keep.
       if keep then
         if length ms \<ge> MAX_MANIFESTS_PER_STORE
         then Inl (ResourceLimit ''manifest count exceeds verifier bound'')
         else Inr (n + 1, ms @ [slice payload pos (pb_next b)])
       else Inr (n + 1, ms)))"

lemma manifest_superboxes_step:
  "manifest_superboxes_from_store data =
     res_bind (parse_manifest_store_box data) (\<lambda>top.
       if pb_type top \<noteq> TYPE_JUMB then Inl (UnexpectedType TYPE_JUMB (pb_type top))
       else res_bind (parse_superbox_description (pb_payload top)) (\<lambda>store.
         if sd_type_uuid store \<noteq> UUID_MANIFEST_STORE then Inl UnexpectedUuid
         else if sd_label store \<noteq> LABEL_MANIFEST_STORE
              then Inl (UnexpectedLabel LABEL_MANIFEST_STORE (sd_label store))
         else res_bind (box_loop (pb_payload top) count_limit (\<lambda>e. e) (manifest_step (pb_payload top))
                          (0, []) (sd_content_offset store)) (\<lambda>(n, ms). Inr ms)))"
proof -
  have "(\<lambda>(n, ms) pos b.
           if pb_type b = TYPE_JUMB then
             res_bind (parse_superbox_description (pb_payload b)) (\<lambda>child.
               if is_manifest_uuid (sd_type_uuid child) then
                 if length ms \<ge> MAX_MANIFESTS_PER_STORE
                 then Inl (ResourceLimit ''manifest count exceeds verifier bound'')
                 else Inr (n + 1, ms @ [slice payload pos (pb_next b)])
               else if sd_type_uuid child = UUID_COMPRESSED_MANIFEST
                    then Inl (UnsupportedManifestType ''c2cm'')
               else Inr (n + 1, ms))
           else Inr (n + 1, ms)) = manifest_step payload" for payload
    by (auto simp: manifest_step_def classify_child_def fun_eq_iff res_bind_def split: sum.splits)
  then show ?thesis unfolding manifest_superboxes_from_store_def by presburger
qed

section \<open>Self-contained boxes\<close>

text \<open>A manifest as it stands in a store: one whole \<open>jumb\<close> box that the loop keeps.\<close>

definition manifest_box :: "bytes \<Rightarrow> bool" where
  "manifest_box u \<longleftrightarrow> (\<exists>b. parse_box u 0 = Inr b \<and> pb_next b = length u \<and> classify_child b = Inr True)"

lemma parse_box_slice:
  assumes "parse_box data pos = Inr b"
  shows "parse_box (slice data pos (pb_next b)) 0
    = Inr \<lparr>pb_type = pb_type b, pb_payload = pb_payload b, pb_next = pb_next b - pos\<rparr>"
proof -
  define e where "e = pb_next b"
  define size where "size = be_val (slice data pos (pos + 4))"
  define u where "u = slice data pos e"
  have bd: "pos + 8 \<le> e" "e \<le> length data" using parse_box_bounds [OF assms] by (auto simp: e_def)
  have len: "length u = e - pos" using bd by (simp add: u_def)
  have sub: "slice u x y = slice data (pos + x) (pos + y)" if "pos + y \<le> e" for x y
    using that bd by (simp add: u_def slice_def take_drop add.commute min_def)
  have head: "slice u 0 4 = slice data pos (pos + 4)" "slice u 4 8 = slice data (pos + 4) (pos + 8)"
    using sub [of 4 0] sub [of 8 4] bd by simp_all
  have b: "pb_type b = slice data (pos + 4) (pos + 8)"
    using assms by (auto simp: parse_box_eq_Inr Let_def)
  have "parse_box u 0 = Inr \<lparr>pb_type = pb_type b, pb_payload = pb_payload b, pb_next = e - pos\<rparr>"
  proof (cases "size = 1")
    case True
    with assms have "pos + 16 \<le> e" "e = pos + be_val (slice data (pos + 8) (pos + 16))"
      "pb_payload b = slice data (pos + 16) e" "e \<le> usize_max"
      by (auto simp: parse_box_eq_Inr Let_def size_def e_def)
    with True head b len sub [of 16 8] sub [of "e - pos" 16] show ?thesis
      by (simp add: parse_box_eq_Inr Let_def size_def)
  next
    case False
    with assms have "size \<noteq> 0 \<longrightarrow> e = pos + size \<and> e \<le> usize_max" "pb_payload b = slice data (pos + 8) e"
      by (auto simp: parse_box_eq_Inr Let_def size_def e_def)
    with False head b len bd sub [of "e - pos" 8] show ?thesis
      by (auto simp: parse_box_eq_Inr Let_def size_def)
  qed
  then show ?thesis by (simp add: u_def e_def)
qed

lemma sized_slice: "parse_box data pos = Inr b \<Longrightarrow> sized (slice data pos (pb_next b)) 0 = sized data pos"
  using parse_box_bounds [of data pos b]
  by (simp add: sized_def slice_def take_drop min_def add.commute)

lemma classify_child_cong:
  "pb_type b = pb_type b' \<Longrightarrow> pb_payload b = pb_payload b' \<Longrightarrow> classify_child b = classify_child b'"
  by (simp add: classify_child_def)

text \<open>The loop reads a list of self-contained boxes one by one; only the last may run to the end.\<close>

fun chained :: "bytes list \<Rightarrow> bool" where
  "chained [] = True"
| "chained [u] = manifest_box u"
| "chained (u # us) = (manifest_box u \<and> sized u 0 \<and> chained us)"

lemma chained_Cons: "chained (u # us) \<longleftrightarrow> manifest_box u \<and> (us \<noteq> [] \<longrightarrow> sized u 0) \<and> chained us"
  by (cases us) auto

lemma manifest_loop_chained:
  assumes "chained us" and "length pre + length (concat us) \<le> usize_max"
    and "n + length us \<le> MAX_CHILD_BOXES_PER_SUPERBOX" and "length ms + length us \<le> MAX_MANIFESTS_PER_STORE"
  shows "box_loop (pre @ concat us) count_limit (\<lambda>e. e) (manifest_step (pre @ concat us)) (n, ms) (length pre)
    = Inr (n + length us, ms @ us)"
  using assms
proof (induction us arbitrary: pre n ms)
  case Nil
  then show ?case by (simp add: box_loop_stop)
next
  case (Cons u us)
  let ?data = "pre @ u @ concat us"
  from Cons.prems(1) obtain b where b: "parse_box u 0 = Inr b" "pb_next b = length u" "classify_child b = Inr True"
    by (auto simp: chained_Cons manifest_box_def)
  have "parse_box (u @ concat us) 0 = Inr b"
    using parse_box_append [OF b(1)] Cons.prems(1) b(1) by (cases us) (auto simp: chained_Cons)
  from parse_box_shift [OF this, of pre] Cons.prems(2)
  have pb: "parse_box ?data (length pre) = Inr (b\<lparr>pb_next := length pre + length u\<rparr>)"
    using b(2) by simp
  have "length u > 0" using parse_box_bounds [OF b(1)] by linarith
  then have lt: "length pre < length ?data" by simp
  have "manifest_step ?data (n, ms) (length pre) (b\<lparr>pb_next := length pre + length u\<rparr>) = Inr (n + 1, ms @ [u])"
    using Cons.prems(4) b(3) classify_child_cong [of "b\<lparr>pb_next := length pre + length u\<rparr>" b]
    by (simp add: manifest_step_def slice_append_mid)
  with box_loop_step [OF lt _ pb, of count_limit "(n, ms)" "\<lambda>e. e" "manifest_step ?data"] Cons.prems(3)
  have "box_loop ?data count_limit (\<lambda>e. e) (manifest_step ?data) (n, ms) (length pre)
      = box_loop ?data count_limit (\<lambda>e. e) (manifest_step ?data) (n + 1, ms @ [u]) (length (pre @ u))"
    by simp
  also have "\<dots> = Inr (n + 1 + length us, (ms @ [u]) @ us)"
    using Cons.IH [of "pre @ u" "n + 1" "ms @ [u]"] Cons.prems by (simp add: chained_Cons)
  finally show ?case by simp
qed

text \<open>What the loop collects is such a list, when no child but the last runs to the end.\<close>

lemma manifest_loop_collects:
  assumes "box_loop data count_limit (\<lambda>e. e) (manifest_step data) (n, ms) pos = Inr (n', ms')"
  shows "\<exists>us. ms' = ms @ us \<and> chained us \<and> length us \<le> n' - n \<and> n \<le> n'"
  using assms
proof (induction "length data - pos" arbitrary: n ms pos rule: less_induct)
  case less
  show ?case
  proof (cases "pos < length data")
    case True
    with less.prems obtain b k ls where b: "parse_box data pos = Inr b" "count_limit (n, ms) = None"
      and step: "manifest_step data (n, ms) pos b = Inr (k, ls)"
      and rest: "box_loop data count_limit (\<lambda>e. e) (manifest_step data) (k, ls) (pb_next b) = Inr (n', ms')"
      by (subst (asm) box_loop.simps) (auto simp: res_bind_eq_Inr map_err_eq_Inr split: option.splits)
    have bd: "pos + 8 \<le> pb_next b" "pb_next b \<le> length data" using parse_box_bounds [OF b(1)] by auto
    then have "length data - pb_next b < length data - pos" by linarith
    from less.hyps [OF this rest] obtain us
      where us: "ms' = ls @ us" "chained us" "length us \<le> n' - k" "k \<le> n'" by blast
    from step consider (keep) "classify_child b = Inr True" "k = n + 1" "ls = ms @ [slice data pos (pb_next b)]"
      | (skip) "k = n + 1" "ls = ms"
      by (auto simp: manifest_step_def res_bind_eq_Inr split: if_splits)
    then show ?thesis
    proof cases
      case keep
      let ?u = "slice data pos (pb_next b)"
      have "manifest_box ?u"
        using parse_box_slice [OF b(1)] bd keep(1)
          classify_child_cong [of "\<lparr>pb_type = pb_type b, pb_payload = pb_payload b, pb_next = pb_next b - pos\<rparr>" b]
        by (simp add: manifest_box_def)
      moreover have "sized ?u 0" if "us \<noteq> []"
      proof (rule ccontr)
        assume "\<not> sized ?u 0"
        then have "pb_next b = length data"
          using b(1) sized_slice [OF b(1)] by (auto simp: sized_def parse_box_eq_Inr Let_def)
        then have "us = []" using rest us(1) by (simp add: box_loop_stop)
        with that show False by simp
      qed
      ultimately show ?thesis using us keep by (intro exI [of _ "?u # us"]) (auto simp: chained_Cons)
    next
      case skip
      with us show ?thesis by auto
    qed
  qed (use less.prems in \<open>auto simp: box_loop_stop intro!: exI [of _ "[]"]\<close>)
qed

section \<open>Extending a payload\<close>

lemma manifest_loop_extend:
  assumes "box_loop data count_limit (\<lambda>e. e) (manifest_step data) (n, ms) pos = Inr (n', ms')"
    and "jumbf.walk data pos = Inr bs" and "\<forall>(s, e) \<in> set (jumbf.spans pos bs). sized data s"
    and "pos \<le> length data"
  shows "box_loop (data @ ext) count_limit (\<lambda>e. e) (manifest_step (data @ ext)) (n, ms) pos
    = box_loop (data @ ext) count_limit (\<lambda>e. e) (manifest_step (data @ ext)) (n', ms') (length data)
    \<and> n' = n + length bs"
  using assms
proof (induction bs arbitrary: n ms pos)
  case Nil
  then show ?case by (simp add: jumbf.walk_Nil box_loop_stop)
next
  case (Cons b bs)
  from Cons.prems(2) have b: "pos < length data" "parse_box data pos = Inr b" "jumbf.walk data (pb_next b) = Inr bs"
    by (simp_all add: jumbf.walk_Cons)
  have le: "pb_next b \<le> length data" using parse_box_bounds [OF b(2)] by simp
  from Cons.prems(1) b obtain k ls where lim: "count_limit (n, ms) = None"
    and step: "manifest_step data (n, ms) pos b = Inr (k, ls)"
    and rest: "box_loop data count_limit (\<lambda>e. e) (manifest_step data) (k, ls) (pb_next b) = Inr (n', ms')"
    by (subst (asm) box_loop.simps) (auto simp: res_bind_eq_Inr map_err_eq_Inr split: option.splits)
  have pb: "parse_box (data @ ext) pos = Inr b"
    using Cons.prems(3) b(2) by (intro parse_box_append) auto
  have "manifest_step (data @ ext) (n, ms) pos b = Inr (k, ls)"
    using step le by (cases "classify_child b") (simp_all add: manifest_step_def slice_append_prefix split: if_splits)
  then have "box_loop (data @ ext) count_limit (\<lambda>e. e) (manifest_step (data @ ext)) (n, ms) pos
      = box_loop (data @ ext) count_limit (\<lambda>e. e) (manifest_step (data @ ext)) (k, ls) (pb_next b)"
    using box_loop_step [of pos "data @ ext" count_limit "(n, ms)" b "\<lambda>e. e" "manifest_step (data @ ext)"]
      lim pb b(1) by simp
  moreover have "k = n + 1" using step by (auto simp: manifest_step_def res_bind_eq_Inr split: if_splits)
  moreover have "\<forall>(s, e) \<in> set (jumbf.spans (pb_next b) bs). sized data s" using Cons.prems(3) by simp
  ultimately show ?case using Cons.IH [OF rest b(3) _ le] by simp
qed

lemma parse_description_append:
  assumes "parse_superbox_description payload = Inr d" and "sized payload 0"
  shows "parse_superbox_description (payload @ ext) = Inr d"
proof -
  from assms(1) obtain desc where "parse_box payload 0 = Inr desc"
    by (auto simp: parse_superbox_description_def res_bind_eq_Inr)
  with parse_box_append [OF this assms(2)] assms(1) show ?thesis
    by (simp add: parse_superbox_description_def)
qed

section \<open>Merging\<close>

text \<open>The payload of a store, the offset its children start at, and the children.\<close>

definition store_layout :: "bytes \<Rightarrow> (bytes \<times> nat \<times> parsed_box list) option" where
  "store_layout store =
     (case parse_manifest_store_box store of
        Inl _ \<Rightarrow> None
      | Inr outer \<Rightarrow>
          (case parse_superbox_description (pb_payload outer) of
             Inl _ \<Rightarrow> None
           | Inr d \<Rightarrow>
               (case jumbf.walk (pb_payload outer) (sd_content_offset d) of
                  Inl _ \<Rightarrow> None
                | Inr bs \<Rightarrow> Some (pb_payload outer, sd_content_offset d, bs))))"

lemma merge_manifest_stores_ok:
  assumes "merge_manifest_stores base upd = Inr merged"
  shows "\<exists>outer us. parse_manifest_store_box base = Inr outer \<and> manifest_superboxes_from_store upd = Inr us
    \<and> merged = box_bytes TYPE_JUMB (pb_payload outer @ concat us)
    \<and> length (pb_payload outer) + length (concat us) \<le> MAX_MANIFEST_STORE_BYTES"
proof -
  have total: "try_fold (\<lambda>total manifest. ok_or (checked_add total (length manifest)) merged_limit_error) t us = Inr r \<Longrightarrow>
      r = t + length (concat us)" for t us r
  proof (induction us arbitrary: t)
    case (Cons u us)
    then have "try_fold (\<lambda>total manifest. ok_or (checked_add total (length manifest)) merged_limit_error)
        (t + length u) us = Inr r" by (simp add: res_simps)
    from Cons.IH [OF this] show ?case by simp
  qed simp
  from assms show ?thesis
    by (auto simp: merge_manifest_stores_def res_bind_eq_Inr foldl_append split: if_splits dest!: total)
qed

lemma parse_store_box_jumb:
  "length (box_bytes TYPE_JUMB p) \<le> usize_max \<Longrightarrow> parse_manifest_store_box (box_bytes TYPE_JUMB p)
    = Inr \<lparr>pb_type = TYPE_JUMB, pb_payload = p, pb_next = length (box_bytes TYPE_JUMB p)\<rparr>"
  using parse_box_box_bytes_0(1) [of TYPE_JUMB p] by (simp add: parse_manifest_store_box_def)

lemma manifest_superboxes_ok:
  assumes "manifest_superboxes_from_store data = Inr ms"
  shows "\<exists>outer d n. parse_manifest_store_box data = Inr outer
    \<and> parse_superbox_description (pb_payload outer) = Inr d
    \<and> sd_type_uuid d = UUID_MANIFEST_STORE \<and> sd_label d = LABEL_MANIFEST_STORE
    \<and> box_loop (pb_payload outer) count_limit (\<lambda>e. e) (manifest_step (pb_payload outer)) (0, []) (sd_content_offset d)
        = Inr (n, ms)"
  using assms unfolding manifest_superboxes_step by (auto simp: res_bind_eq_Inr split: if_splits)

lemma merge_manifests:
  assumes merged: "merge_manifest_stores base upd = Inr merged"
    and base: "manifest_superboxes_from_store base = Inr bs" and upd: "manifest_superboxes_from_store upd = Inr us"
    and layout: "store_layout base = Some (payload, off, children)"
    and sized: "sized payload 0" "\<forall>(s, e) \<in> set (jumbf.spans off children). sized payload s"
    and counts: "length children + length us \<le> MAX_CHILD_BOXES_PER_SUPERBOX" "length bs + length us \<le> MAX_MANIFESTS_PER_STORE"
  shows "manifest_superboxes_from_store merged = Inr (bs @ us)"
proof -
  from merge_manifest_stores_ok [OF merged] upd layout
  have m: "merged = box_bytes TYPE_JUMB (payload @ concat us)"
    and len: "length payload + length (concat us) \<le> MAX_MANIFEST_STORE_BYTES"
    by (auto simp: store_layout_def split: sum.splits)
  from manifest_superboxes_ok [OF base] layout obtain d n where
    d: "parse_superbox_description payload = Inr d" "sd_type_uuid d = UUID_MANIFEST_STORE" "sd_label d = LABEL_MANIFEST_STORE"
    and off: "off = sd_content_offset d" and walk: "jumbf.walk payload off = Inr children"
    and loop: "box_loop payload count_limit (\<lambda>e. e) (manifest_step payload) (0, []) off = Inr (n, bs)"
    by (auto simp: store_layout_def split: sum.splits)
  have bound: "length (payload @ concat us) \<le> usize_max" "length (box_bytes TYPE_JUMB (payload @ concat us)) \<le> usize_max"
    using len by (simp_all add: length_box_bytes MAX_MANIFEST_STORE_BYTES_def usize_max_def)
  have "off \<le> length payload" using parse_description_ok(4) [OF d(1)] off by simp
  from manifest_loop_extend [OF loop walk sized(2) this, of "concat us"]
  have ext: "box_loop (payload @ concat us) count_limit (\<lambda>e. e) (manifest_step (payload @ concat us)) (0, []) off
      = box_loop (payload @ concat us) count_limit (\<lambda>e. e) (manifest_step (payload @ concat us)) (n, bs) (length payload)"
    and n: "n = length children" by simp_all
  from manifest_superboxes_ok [OF upd] obtain us' where "us = us'" "chained us'"
    using manifest_loop_collects by fastforce
  then have "box_loop (payload @ concat us) count_limit (\<lambda>e. e) (manifest_step (payload @ concat us)) (n, bs) (length payload)
      = Inr (n + length us, bs @ us)"
    using bound(1) counts n by (intro manifest_loop_chained) auto
  with ext have "box_loop (payload @ concat us) count_limit (\<lambda>e. e) (manifest_step (payload @ concat us)) (0, []) off
      = Inr (n + length us, bs @ us)" by simp
  with parse_description_append [OF d(1) sized(1), of "concat us"] parse_store_box_jumb [OF bound(2)] d(2,3) off
  show ?thesis unfolding manifest_superboxes_step m by simp
qed

text \<open>A base store whose only child runs to the end of the store: the child absorbs what is appended.\<close>

lemma merge_absorbed:
  assumes merged: "merge_manifest_stores base upd = Inr merged"
    and base: "manifest_superboxes_from_store base = Inr [u]" and upd: "manifest_superboxes_from_store upd = Inr us"
    and layout: "store_layout base = Some (payload, off, [child])"
    and sized: "sized payload 0" "\<not> sized payload off" "sized (pb_payload child) 0"
  shows "manifest_superboxes_from_store merged = Inr [u @ concat us]"
proof -
  from merge_manifest_stores_ok [OF merged] upd layout
  have m: "merged = box_bytes TYPE_JUMB (payload @ concat us)"
    and len: "length payload + length (concat us) \<le> MAX_MANIFEST_STORE_BYTES"
    by (auto simp: store_layout_def split: sum.splits)
  from manifest_superboxes_ok [OF base] layout obtain d n where
    d: "parse_superbox_description payload = Inr d" "sd_type_uuid d = UUID_MANIFEST_STORE" "sd_label d = LABEL_MANIFEST_STORE"
    and off: "off = sd_content_offset d" and walk: "jumbf.walk payload off = Inr [child]"
    and loop: "box_loop payload count_limit (\<lambda>e. e) (manifest_step payload) (0, []) off = Inr (n, [u])"
    by (auto simp: store_layout_def split: sum.splits)
  have bound: "length (box_bytes TYPE_JUMB (payload @ concat us)) \<le> usize_max"
    using len by (simp add: length_box_bytes MAX_MANIFEST_STORE_BYTES_def usize_max_def)
  have lim: "count_limit (0, []) = None"
    by (simp add: MAX_CHILD_BOXES_PER_SUPERBOX_def MAX_ASSERTIONS_PER_MANIFEST_def)
  from walk have c: "off < length payload" "parse_box payload off = Inr child" "length payload \<le> pb_next child"
    by (simp_all add: jumbf.walk_Cons jumbf.walk_Nil)
  have fin: "pb_next child = length payload" using c(3) parse_box_bounds(2) [OF c(2)] by simp
  from loop box_loop_step [of off payload count_limit "(0, [])" child "\<lambda>e. e" "manifest_step payload"] c lim
  have step: "manifest_step payload (0, []) off child = Inr (n, [u])"
    by (auto simp: res_bind_eq_Inr fin box_loop_stop)
  then have keep: "classify_child child = Inr True" and u: "u = slice payload off (length payload)"
    by (auto simp: manifest_step_def res_bind_eq_Inr fin split: if_splits)
  define child' where "child' = child\<lparr>pb_payload := pb_payload child @ concat us, pb_next := length (payload @ concat us)\<rparr>"
  have o8: "off + 8 \<le> length payload" using parse_box_bounds [OF c(2)] fin by simp
  have "parse_box (payload @ concat us) off = Inr child'"
    using c(2) sized(2) o8 unfolding parse_box_eq_Inr sized_def Let_def child'_def
    by (auto simp: slice_append_prefix slice_def)
  moreover have "classify_child child' = Inr True"
    using keep parse_description_append [OF _ sized(3), of _ "concat us"]
    by (auto simp: classify_child_def child'_def res_bind_eq_Inr split: if_splits)
  ultimately have "box_loop (payload @ concat us) count_limit (\<lambda>e. e) (manifest_step (payload @ concat us)) (0, []) off
      = Inr (1, [u @ concat us])"
    using box_loop_step [of off "payload @ concat us" count_limit "(0, [])" child' "\<lambda>e. e"
        "manifest_step (payload @ concat us)"] lim c(1) u
    by (simp add: manifest_step_def child'_def box_loop_stop MAX_MANIFESTS_PER_STORE_def slice_def)
  with parse_description_append [OF d(1) sized(1), of "concat us"] parse_store_box_jumb [OF bound] d(2,3) off
  show ?thesis unfolding manifest_superboxes_step m by simp
qed

end
