(* ===== verification/Jumbf_Expand.thy ===== *)
theory Jumbf_Expand
  imports Jumbf_Merge
begin

text \<open>
  Compressed manifests: the inflated size is bounded whatever the decoder writes, a manifest is
  accepted only under the label of the box that carried it, and expanding a store changes exactly
  the compressed children.
\<close>

section \<open>The bounded sink\<close>

lemma write_chunks_ok:
  assumes "write_chunks cs sink = (ok, sink')" and "length (sink_bytes sink) \<le> MAX_DECOMPRESSED_MANIFEST_BYTES"
  shows "length (sink_bytes sink') \<le> MAX_DECOMPRESSED_MANIFEST_BYTES
    \<and> (ok \<longrightarrow> sink_bytes sink' = sink_bytes sink @ concat cs)
    \<and> (\<not> overflowed sink \<longrightarrow> overflowed sink' = (\<not> ok))"
  using assms
proof (induction cs arbitrary: sink)
  case (Cons c cs)
  show ?case
  proof (cases "length c > MAX_DECOMPRESSED_MANIFEST_BYTES - length (sink_bytes sink)")
    case True
    with Cons.prems show ?thesis by (auto simp: sink_write_def)
  next
    case False
    with Cons.prems have "write_chunks cs (sink\<lparr>sink_bytes := sink_bytes sink @ c\<rparr>) = (ok, sink')"
      by (simp add: sink_write_def)
    with Cons.IH [OF this] Cons.prems(2) False show ?thesis by simp
  qed
qed simp

lemma brotli_decompress_bounded_ok:
  assumes "brotli_decompress_bounded brotli stream = Inr bs"
  shows "length bs \<le> MAX_DECOMPRESSED_MANIFEST_BYTES \<and> snd (brotli stream) \<and> bs = concat (fst (brotli stream))"
  using assms write_chunks_ok [of "fst (brotli stream)" "\<lparr>sink_bytes = [], overflowed = False\<rparr>", OF prod.collapse [symmetric]]
  by (auto simp: brotli_decompress_bounded_def case_prod_beta split: if_splits)

lemma brotli_decompress_too_large:
  "brotli_decompress_bounded brotli stream = Inl DecompressedTooLarge \<longleftrightarrow>
     \<not> fst (write_chunks (fst (brotli stream)) \<lparr>sink_bytes = [], overflowed = False\<rparr>)"
  using write_chunks_ok [of "fst (brotli stream)" "\<lparr>sink_bytes = [], overflowed = False\<rparr>", OF prod.collapse [symmetric]]
  by (auto simp: brotli_decompress_bounded_def case_prod_beta split: if_splits)

section \<open>One compressed manifest\<close>

lemma inflate_whole_ok:
  assumes "inflate_whole brotli stream = Inr (manifest, inner)"
  shows "superbox_header manifest = Inr inner \<and> length manifest \<le> MAX_DECOMPRESSED_MANIFEST_BYTES"
  using assms brotli_decompress_bounded_ok by (auto simp: inflate_whole_def res_bind_eq_Inr)

lemma inflate_brob_payload_ok:
  assumes "inflate_brob_payload brotli stream label = Inr (manifest, inner)"
  shows "superbox_header manifest = Inr inner \<and> length manifest \<le> MAX_DECOMPRESSED_MANIFEST_BYTES"
proof (cases "inflate_whole brotli stream = Inr (manifest, inner)")
  case False
  with assms show ?thesis
    using brotli_decompress_bounded_ok [of brotli "drop 4 stream" manifest]
    by (auto simp: inflate_brob_payload_def split: if_splits sum.splits)
qed (rule inflate_whole_ok)

lemma decompress_manifest_superbox_ok:
  assumes "decompress_manifest_superbox brotli parsed = Inr (manifest, u)"
  shows "\<exists>sb. parse_superbox manifest = Inr sb \<and> sb_label sb = sb_label parsed \<and> sb_type_uuid sb = u
    \<and> is_manifest_uuid u \<and> length manifest \<le> MAX_DECOMPRESSED_MANIFEST_BYTES"
proof -
  from assms obtain stream inner where i: "inflate_brob_payload brotli stream (sb_label parsed) = Inr (manifest, inner)"
    and "is_manifest_uuid (sh_type_uuid inner)" "sh_label inner = sb_label parsed" "u = sh_type_uuid inner"
    by (auto simp: decompress_manifest_superbox_def res_bind_eq_Inr split: if_splits list.splits)
  with inflate_brob_payload_ok [OF i] show ?thesis
    by (auto simp: superbox_header_def res_bind_eq_Inr)
qed

text \<open>An inflation past the bound is final: the whole payload is not tried after it.\<close>

lemma inflate_too_large_final:
  assumes "take 4 stream = TYPE_JUMB"
    and "brotli_decompress_bounded brotli (drop 4 stream) = Inl DecompressedTooLarge"
  shows "inflate_brob_payload brotli stream label = Inl DecompressedTooLarge"
  using assms by (simp add: inflate_brob_payload_def)

section \<open>Expanding a store\<close>

definition is_compressed :: "parsed_box \<Rightarrow> bool" where
  "is_compressed b \<longleftrightarrow> pb_type b = TYPE_JUMB
     \<and> (case parse_superbox_payload (pb_payload b) of
          Inl _ \<Rightarrow> False | Inr child \<Rightarrow> sb_type_uuid child = UUID_COMPRESSED_MANIFEST)"

lemma store_has_compressed_loop:
  assumes "jumbf.walk data pos = Inr bs"
  shows "box_loop data (\<lambda>_. None) (\<lambda>_. False)
      (\<lambda>_ position b. if pb_type b = TYPE_JUMB
          \<and> (case parse_superbox_payload (pb_payload b) of
               Inl _ \<Rightarrow> False | Inr child \<Rightarrow> sb_type_uuid child = UUID_COMPRESSED_MANIFEST)
        then Inl True else Inr ()) () pos
    = (if list_ex is_compressed bs then Inl True else Inr ())"
  using assms
proof (induction bs arbitrary: pos)
  case (Cons b bs)
  then show ?case
    by (subst box_loop.simps) (auto simp: jumbf.walk_Cons is_compressed_def [symmetric])
qed (simp add: jumbf.walk_Nil box_loop_stop)

text \<open>The bytes a child contributes to the expanded payload.\<close>

definition expanded_piece :: "(bytes \<Rightarrow> bytes list \<times> bool) \<Rightarrow> bytes \<Rightarrow> span \<times> parsed_box \<Rightarrow> bytes" where
  "expanded_piece brotli payload = (\<lambda>((s, e), b).
     if is_compressed b then
       (case parse_superbox_payload (pb_payload b) of
          Inl _ \<Rightarrow> [] | Inr child \<Rightarrow> fst (unwrap_or (decompress_manifest_superbox brotli child) ([], [])))
     else slice payload s e)"

text \<open>The entry a child adds to the stored hash domains: one per manifest, in order.\<close>

definition stored_entry :: "parsed_box \<Rightarrow> bytes option list" where
  "stored_entry b =
     (if pb_type b = TYPE_JUMB then
        (case parse_superbox_payload (pb_payload b) of
           Inl _ \<Rightarrow> []
         | Inr child \<Rightarrow>
             if sb_type_uuid child = UUID_COMPRESSED_MANIFEST then [Some (pb_payload b)]
             else if is_manifest_uuid (sb_type_uuid child) then [None]
             else [])
      else [])"

definition expanded_by ::
    "(bytes \<Rightarrow> bytes list \<times> bool) \<Rightarrow> bytes \<Rightarrow> nat \<Rightarrow> parsed_box list \<Rightarrow> expansion \<Rightarrow> expansion" where
  "expanded_by brotli data pos bs s =
     \<lparr>compressed_seen = (compressed_seen s \<or> list_ex is_compressed bs),
      rebuilt_payload = rebuilt_payload s
        @ concat (map (expanded_piece brotli data) (zip (jumbf.spans pos bs) bs)),
      x_stored_contents = x_stored_contents s @ concat (map stored_entry bs)\<rparr>"

lemma expand_child_ok:
  assumes "expand_child brotli payload s pos b = Inr s'"
  shows "s' = expanded_by brotli payload pos [b] s"
proof (cases "pb_type b = TYPE_JUMB")
  case True
  with assms obtain child where child: "parse_superbox_payload (pb_payload b) = Inr child"
    by (auto simp: expand_child_def res_bind_eq_Inr)
  show ?thesis
  proof (cases "sb_type_uuid child = UUID_COMPRESSED_MANIFEST")
    case comp: True
    with assms True child obtain manifest u where d: "decompress_manifest_superbox brotli child = Inr (manifest, u)"
      by (auto simp: expand_child_def res_bind_eq_Inr map_err_eq_Inr)
    with decompress_manifest_superbox_ok [OF d] assms True child comp show ?thesis
      by (cases s) (auto simp: expand_child_def expanded_piece_def is_compressed_def stored_entry_def expanded_by_def)
  next
    case False
    with assms True child show ?thesis
      by (cases s) (auto simp: expand_child_def expanded_piece_def is_compressed_def stored_entry_def expanded_by_def)
  qed
next
  case False
  with assms show ?thesis
    by (cases s) (auto simp: expand_child_def expanded_piece_def is_compressed_def stored_entry_def expanded_by_def)
qed

lemma expand_loop_ok:
  assumes "box_loop data (\<lambda>_. None) (\<lambda>e. e) (expand_child brotli data) s pos = Inr s'"
    and "jumbf.walk data pos = Inr bs"
  shows "s' = expanded_by brotli data pos bs s"
  using assms
proof (induction bs arbitrary: s pos)
  case Nil
  then show ?case by (cases s) (simp add: jumbf.walk_Nil box_loop_stop expanded_by_def)
next
  case (Cons b bs)
  then obtain s1 where s1: "expand_child brotli data s pos b = Inr s1" "jumbf.walk data (pb_next b) = Inr bs"
    "box_loop data (\<lambda>_. None) (\<lambda>e. e) (expand_child brotli data) s1 (pb_next b) = Inr s'"
    by (subst (asm) (2) box_loop.simps) (auto simp: jumbf.walk_Cons res_bind_eq_Inr)
  from Cons.IH [OF s1(3,2)] expand_child_ok [OF s1(1)] show ?case by (simp add: expanded_by_def)
qed

lemma expand_store_ok:
  assumes "expand_store brotli store = Inr es"
  shows "\<exists>payload off bs. store_layout store = Some (payload, off, bs)
    \<and> es_expanded es = list_ex is_compressed bs
    \<and> (\<not> es_expanded es \<longrightarrow> es_bytes es = store \<and> stored_contents es = [])
    \<and> (es_expanded es \<longrightarrow>
         es_bytes es = box_bytes TYPE_JUMB (take off payload
           @ concat (map (expanded_piece brotli payload) (zip (jumbf.spans off bs) bs)))
         \<and> stored_contents es = concat (map stored_entry bs))"
proof -
  from assms obtain outer d s where t: "parse_manifest_store_box store = Inr outer"
    "parse_superbox_description (pb_payload outer) = Inr d"
    and loop: "box_loop (pb_payload outer) (\<lambda>_. None) (\<lambda>e. e) (expand_child brotli (pb_payload outer))
              \<lparr>compressed_seen = False,
               rebuilt_payload = take (sd_content_offset d) (pb_payload outer),
               x_stored_contents = []\<rparr>
              (sd_content_offset d) = Inr s"
    and es: "es = (if \<not> compressed_seen s then \<lparr>es_bytes = store, es_expanded = False, stored_contents = []\<rparr>
              else \<lparr>es_bytes = box_bytes TYPE_JUMB (rebuilt_payload s), es_expanded = True,
                     stored_contents = x_stored_contents s\<rparr>)"
    by (auto simp: expand_store_def res_bind_eq_Inr split: if_splits)
  from box_loop_walk [OF loop] obtain bs where bs: "jumbf.walk (pb_payload outer) (sd_content_offset d) = Inr bs"
    by blast
  from expand_loop_ok [OF loop bs] es t bs show ?thesis
    by (auto simp: store_layout_def expanded_by_def)
qed

lemma store_has_compressed_layout:
  assumes "store_layout store = Some (payload, off, bs)" and "expand_store brotli store = Inr es"
  shows "store_has_compressed_manifest store = list_ex is_compressed bs"
proof -
  from assms(1) obtain outer d where t: "parse_manifest_store_box store = Inr outer" "payload = pb_payload outer"
    "parse_superbox_description (pb_payload outer) = Inr d" "off = sd_content_offset d" "jumbf.walk payload off = Inr bs"
    by (auto simp: store_layout_def split: sum.splits)
  moreover from assms(2) t have "sd_type_uuid d = UUID_MANIFEST_STORE"
    by (auto simp: expand_store_def res_bind_eq_Inr split: if_splits)
  ultimately show ?thesis
    using store_has_compressed_loop [of payload off bs] by (simp add: store_has_compressed_manifest_def)
qed

end
