(* ===== verification/Jumbf_Properties.thy ===== *)
theory Jumbf_Properties
  imports Jumbf_Build Jumbf_Expand
begin

text \<open>
  The properties of the manifest store layer: parsing inverts building, every accepted store has the
  shape the validator relies on, merging copies manifests verbatim, and expansion is bounded and
  touches only compressed children.
\<close>

section \<open>Built stores\<close>

lemma manifest_bytes_chained:
  assumes "\<forall>m \<in> set ms. valid_label (ms_label m) \<and> length (manifest_bytes m) \<le> usize_max"
  shows "chained (map manifest_bytes ms)" and "\<forall>u \<in> set (map manifest_bytes ms). sized u 0"
proof -
  have one: "manifest_box (manifest_bytes m) \<and> sized (manifest_bytes m) 0" if "m \<in> set ms" for m
  proof -
    let ?p = "manifest_payload m"
    have l: "valid_label (ms_label m)" "length (box_bytes TYPE_JUMB ?p) \<le> usize_max"
      using assms that by (auto simp: manifest_bytes_box)
    then have "length ?p \<le> usize_max" using length_box_ge [of ?p TYPE_JUMB] by linarith
    then have "parse_superbox_description ?p = Inr \<lparr>sd_type_uuid = UUID_MANIFEST, sd_label = ms_label m,
        sd_content_offset = length (description_box UUID_MANIFEST (ms_label m) None)\<rparr>"
      unfolding manifest_payload_def using l(1) by (intro parse_description_box) (auto simp: valid_salt_def)
    with l parse_box_box_bytes_0 [of TYPE_JUMB ?p] show ?thesis
      by (auto simp: manifest_box_def manifest_bytes_box classify_child_def)
  qed
  then show "chained (map manifest_bytes ms)"
    by (induction ms) (auto simp: chained_Cons)
  from one show "\<forall>u \<in> set (map manifest_bytes ms). sized u 0" by auto
qed

abbreviation store_description :: bytes where
  "store_description \<equiv> description_box UUID_MANIFEST_STORE LABEL_MANIFEST_STORE None"

lemma built_store_box:
  "build_manifest_store bs = box_bytes TYPE_JUMB (store_description @ concat bs)"
  by (simp add: build_manifest_store_def superbox_def foldl_append LABEL_MANIFEST_STORE_def)

lemma parse_store_description:
  assumes "length (store_description @ xs) \<le> usize_max"
  shows "parse_superbox_description (store_description @ xs) = Inr \<lparr>sd_type_uuid = UUID_MANIFEST_STORE,
    sd_label = LABEL_MANIFEST_STORE, sd_content_offset = length store_description\<rparr>"
  using assms valid_LABEL by (intro parse_description_box) (auto simp: valid_salt_def)

lemma manifest_superboxes_built:
  assumes "chained bs" and "length bs \<le> MAX_MANIFESTS_PER_STORE" and "length (build_manifest_store bs) \<le> usize_max"
  shows "manifest_superboxes_from_store (build_manifest_store bs) = Inr bs"
proof -
  let ?p = "store_description @ concat bs"
  have len: "length (box_bytes TYPE_JUMB ?p) \<le> usize_max" using assms(3) by (simp add: built_store_box)
  then have plen: "length ?p \<le> usize_max" using length_box_ge [of ?p TYPE_JUMB] by linarith
  have "box_loop ?p count_limit (\<lambda>e. e) (manifest_step ?p) (0, []) (length store_description) = Inr (0 + length bs, [] @ bs)"
    using assms plen by (intro manifest_loop_chained)
      (auto simp: MAX_CHILD_BOXES_PER_SUPERBOX_def MAX_ASSERTIONS_PER_MANIFEST_def MAX_MANIFESTS_PER_STORE_def)
  with parse_store_description [OF plen] parse_store_box_jumb [OF len] show ?thesis
    unfolding manifest_superboxes_step built_store_box by simp
qed

lemma walk_chained:
  assumes "chained us" and "\<forall>u \<in> set us. sized u 0" and "length pre + length (concat us) \<le> usize_max"
  shows "\<exists>bs. jumbf.walk (pre @ concat us) (length pre) = Inr bs \<and> length bs = length us
    \<and> (\<forall>(s, e) \<in> set (walker.spans pb_next (length pre) bs). sized (pre @ concat us) s)"
  using assms
proof (induction us arbitrary: pre)
  case Nil
  then show ?case by (intro exI [of _ "[]"]) (simp add: jumbf.walk_Nil)
next
  case (Cons u us)
  from Cons.prems(1) obtain b where b: "parse_box u 0 = Inr b" "pb_next b = length u"
    by (auto simp: chained_Cons manifest_box_def)
  let ?b = "b\<lparr>pb_next := length pre + length u\<rparr>"
  have "parse_box (u @ concat us) 0 = Inr b" using parse_box_append [OF b(1)] Cons.prems(2) by simp
  from parse_box_shift [OF this, of pre] Cons.prems(3)
  have pb: "parse_box (pre @ u @ concat us) (length pre) = Inr ?b" using b(2) by simp
  have "sized (u @ concat us) 0"
    using Cons.prems(2) parse_box_bounds [OF b(1)] by (simp add: sized_def slice_append_prefix)
  then have sized: "sized (pre @ u @ concat us) (length pre)" using sized_shift [of pre "u @ concat us" 0] by simp
  define data where "data = pre @ u @ concat us"
  have "u \<noteq> []" using parse_box_bounds [OF b(1)] by auto
  moreover obtain bs where "jumbf.walk data (length pre + length u) = Inr bs" "length bs = length us"
    "\<forall>(s, e) \<in> set (walker.spans pb_next (length pre + length u) bs). sized data s"
    using Cons.IH [of "pre @ u"] Cons.prems by (auto simp: chained_Cons data_def)
  moreover have "length pre < length data" using calculation(1) by (simp add: data_def)
  moreover note pb [folded data_def] sized [folded data_def]
  moreover have eq: "pre @ concat (u # us) = data" by (simp add: data_def)
  ultimately show ?case
    unfolding eq by (intro exI [of _ "?b # bs"]) (simp add: jumbf.walk_Cons)
qed

lemma merge_built:
  assumes "chained bs" and "chained us" and "length us \<le> MAX_MANIFESTS_PER_STORE"
    and "length (build_manifest_store bs) \<le> usize_max" and "length (build_manifest_store us) \<le> usize_max"
    and "length store_description + length (concat bs) + length (concat us) \<le> MAX_MANIFEST_STORE_BYTES"
  shows "merge_manifest_stores (build_manifest_store bs) (build_manifest_store us) = Inr (build_manifest_store (bs @ us))"
proof -
  have total: "t + length (concat us) \<le> usize_max \<Longrightarrow>
      try_fold (\<lambda>total manifest. ok_or (checked_add total (length manifest)) merged_limit_error) t us
        = Inr (t + length (concat us))" for t us
  proof (induction us arbitrary: t)
    case (Cons u us)
    from Cons.IH [of "t + length u"] Cons.prems show ?case by (simp add: checked_add_def add.assoc)
  qed simp
  have "length (box_bytes TYPE_JUMB (store_description @ concat bs)) \<le> usize_max"
    using assms(4) by (simp add: built_store_box)
  from parse_store_box_jumb [OF this] manifest_superboxes_built [OF assms(2,3,5)]
    total [of "length store_description + length (concat bs)" us] assms(6)
  show ?thesis
    by (simp add: merge_manifest_stores_def built_store_box foldl_append MAX_MANIFEST_STORE_BYTES_def usize_max_def)
qed

text \<open>A small store used by the witnesses below.\<close>

definition sample_manifest :: "bytes \<Rightarrow> manifest_spec" where
  "sample_manifest label = \<lparr>ms_label = label,
     ms_assertions = [\<lparr>as_label = ascii ''a'', as_cbor = [0xA0], as_salt = None\<rparr>],
     ms_claim = [0xA0], ms_signature = [0x80], ms_claim_label = LABEL_CLAIM_V2\<rparr>"

lemma valid_label_small: "valid_label (ascii ''a'')" "valid_label (ascii ''b'')"
  by (simp_all add: valid_label_def ascii_def utf8_chars_Cons forbidden_char_def MAX_LABEL_BYTES_def)

lemma spec_ok_sample: "valid_label label \<Longrightarrow> spec_ok (sample_manifest label)"
  by (simp add: spec_ok_def sample_manifest_def valid_label_small valid_salt_def MAX_ASSERTIONS_PER_MANIFEST_def)

lemma length_description_box:
  "length (description_box u l None) = (if length u + length l + 10 < 2 ^ 32 then length u + length l + 10
     else length u + length l + 18)"
  by (simp add: description_box_def Let_def length_box_bytes)

lemma length_sample: "length (manifest_bytes (sample_manifest [x])) = 241"
  by (simp add: manifest_bytes_box length_box_bytes manifest_payload_def store_children_def sample_manifest_def
      length_description_box assertion_bytes_box assertion_payload_def cbor_box_def
      LABEL_ASSERTION_STORE_def LABEL_CLAIM_V2_def LABEL_CLAIM_SIGNATURE_def)

lemma length_store_description: "length store_description = 30"
  by (simp add: length_description_box LABEL_MANIFEST_STORE_def)

text \<open>A manifest whose box runs to the end of the store, and a compressed manifest.\<close>

definition open_manifest :: "bytes \<Rightarrow> bytes" where
  "open_manifest label = be_bytes 4 0 @ TYPE_JUMB @ description_box UUID_MANIFEST label None"

lemma parse_open_manifest:
  assumes "length label < 1000"
  shows "parse_box (open_manifest label) 0 = Inr \<lparr>pb_type = TYPE_JUMB,
      pb_payload = description_box UUID_MANIFEST label None, pb_next = length (open_manifest label)\<rparr>"
    and "\<not> sized (open_manifest label) 0"
  using be_val_be_bytes_id [of 0 4] unfolding parse_box_eq_Inr open_manifest_def sized_def
  by (simp_all add: Let_def slice_def)

lemma open_manifest_chained:
  assumes "valid_label label" and "length label < 1000"
  shows "chained [open_manifest label]"
proof -
  have "parse_superbox_description (description_box UUID_MANIFEST label None @ []) = Inr \<lparr>sd_type_uuid = UUID_MANIFEST,
      sd_label = label, sd_content_offset = length (description_box UUID_MANIFEST label None)\<rparr>"
    using assms by (intro parse_description_box) (auto simp: valid_salt_def length_description_box usize_max_def)
  with parse_open_manifest [OF assms(2)] show ?thesis
    by (simp add: manifest_box_def classify_child_def)
qed

definition bare_manifest :: "bytes \<Rightarrow> bytes" where
  "bare_manifest label = superbox UUID_MANIFEST label [] None"

definition brob_payload :: "bytes \<Rightarrow> bytes" where
  "brob_payload label = description_box UUID_COMPRESSED_MANIFEST label None @ box_bytes TYPE_BROB (bare_manifest label)"

definition stored_brotli :: "bytes \<Rightarrow> bytes list \<times> bool" where
  "stored_brotli stream = ([stream], True)"

lemma length_bare_manifest: "length (bare_manifest [x]) = 35"
  by (simp add: bare_manifest_def superbox_def length_box_bytes length_description_box)

lemma length_UUID_COMPRESSED [simp]: "length UUID_COMPRESSED_MANIFEST = 16"
  by (simp add: UUID_COMPRESSED_MANIFEST_def type_uuid_def UUID_SUFFIX_def)

lemma parse_brob_payload:
  assumes "valid_label [x]"
  shows "parse_superbox_payload (brob_payload [x]) = Inr \<lparr>sb_type_uuid = UUID_COMPRESSED_MANIFEST, sb_label = [x],
    sb_content = [(TYPE_BROB, bare_manifest [x])]\<rparr>"
  using parse_superbox_payload_boxes [of UUID_COMPRESSED_MANIFEST "[x]" None "[(TYPE_BROB, bare_manifest [x])]"] assms
  by (simp add: brob_payload_def valid_salt_def length_description_box length_box_bytes length_bare_manifest
      MAX_CHILD_BOXES_PER_SUPERBOX_def MAX_ASSERTIONS_PER_MANIFEST_def usize_max_def)

lemma decompress_sample:
  assumes "valid_label [x]"
  shows "decompress_manifest_superbox stored_brotli \<lparr>sb_type_uuid = UUID_COMPRESSED_MANIFEST, sb_label = [x],
    sb_content = [(TYPE_BROB, bare_manifest [x])]\<rparr> = Inr (bare_manifest [x], UUID_MANIFEST)"
proof -
  have "parse_superbox (bare_manifest [x]) = Inr \<lparr>sb_type_uuid = UUID_MANIFEST, sb_label = [x], sb_content = []\<rparr>"
    using parse_superbox_payload_boxes [of UUID_MANIFEST "[x]" None "[]"] parse_superbox_superbox_payload [of UUID_MANIFEST "[x]" "[]" None]
      length_bare_manifest [of x] assms
    by (simp add: bare_manifest_def valid_salt_def length_description_box usize_max_def)
  then have h: "superbox_header (bare_manifest [x]) = Inr \<lparr>sh_type_uuid = UUID_MANIFEST, sh_label = [x]\<rparr>"
    by (simp add: superbox_header_def)
  have d: "brotli_decompress_bounded stored_brotli (bare_manifest [x]) = Inr (bare_manifest [x])"
    by (simp add: brotli_decompress_bounded_def stored_brotli_def sink_write_def length_bare_manifest
        MAX_DECOMPRESSED_MANIFEST_BYTES_def)
  have "take 4 (bare_manifest [x]) = be_bytes 4 35"
    by (simp add: bare_manifest_def superbox_def box_bytes_def length_description_box)
  moreover have "be_bytes 4 35 = 0 # be_bytes 3 35" using be_bytes.simps(2) [of 3 35] by simp
  ultimately have "take 4 (bare_manifest [x]) \<noteq> TYPE_JUMB"
    by (simp add: TYPE_JUMB_def ascii_def)
  with h d length_bare_manifest [of x] show ?thesis
    by (auto simp: decompress_manifest_superbox_def inflate_brob_payload_def inflate_whole_def)
qed

section \<open>Properties\<close>

text \<open>
  C24: The store parser inverts the store builder. A store assembled from manifests with valid,
  pairwise different labels, each with valid and pairwise different assertion labels, one claim and
  one signature, parses to exactly those manifests in order, with every assertion, claim and
  signature byte for byte.
\<close>

theorem parse_manifest_store_build:
  assumes "\<forall>m \<in> set ms. spec_ok m" and "distinct (map ms_label ms)"
    and "length ms \<le> MAX_MANIFESTS_PER_STORE"
    and "length (build_manifest_store (map manifest_bytes ms)) \<le> MAX_MANIFEST_STORE_BYTES"
  shows "parse_manifest_store (build_manifest_store (map manifest_bytes ms)) = Inr (map spec_parsed ms)"
  using assms by (rule parse_store_spec)

theorem parse_manifest_store_build_witness:
  "parse_manifest_store (build_manifest_store [manifest_bytes (sample_manifest (ascii ''b''))])
     = Inr [spec_parsed (sample_manifest (ascii ''b''))]"
  using parse_manifest_store_build [of "[sample_manifest (ascii ''b'')]"] spec_ok_sample valid_label_small
    length_sample [of 98] length_store_description
  by (simp add: MAX_MANIFESTS_PER_STORE_def MAX_MANIFEST_STORE_BYTES_def built_store_box length_box_bytes ascii_def)

text \<open>
  C9: Whatever bytes are accepted as a store, the result has the shape the validator relies on:
  at most 1024 manifests with pairwise different, valid labels; in each, at most 4096 assertions with
  pairwise different labels; at most two claims (one per claim generation), and claim bytes exactly
  when there is a claim; every byte string exposed is a sub-slice of the input.
\<close>

theorem parse_manifest_store_wf:
  assumes "parse_manifest_store data = Inr ms"
  shows "store_ok ms \<and> (\<forall>m \<in> set ms. sublist (manifest_jumbf m) data)
    \<and> length data \<le> MAX_MANIFEST_STORE_BYTES"
  using assms by (rule parse_manifest_store_ok)

theorem parse_manifest_store_wf_witness:
  "store_ok [spec_parsed (sample_manifest (ascii ''b''))]"
proof -
  have "parse_manifest_store (build_manifest_store (map manifest_bytes [sample_manifest (ascii ''b'')]))
      = Inr (map spec_parsed [sample_manifest (ascii ''b'')])"
    using spec_ok_sample valid_label_small length_sample [of 98] length_store_description
    by (intro parse_store_spec)
      (simp_all add: MAX_MANIFESTS_PER_STORE_def MAX_MANIFEST_STORE_BYTES_def built_store_box length_box_bytes ascii_def)
  from parse_manifest_store_wf [OF this] show ?thesis by simp
qed

text \<open>
  A box of the wire format between two offsets: its length field (32 bits, 64 bits after the type, or zero for a box that runs to the
  end of its container) says where it ends, and its type and payload are what the span holds.
\<close>

definition framed_box :: "bytes \<Rightarrow> span \<Rightarrow> bytes \<times> bytes \<Rightarrow> bool" where
  "framed_box data = (\<lambda>(s, e) (t, p).
     (let size = be_val (slice data s (s + 4)); hdr = (if size = 1 then 16 else 8)
      in s + hdr \<le> e \<and> t = slice data (s + 4) (s + 8) \<and> p = slice data (s + hdr) e
         \<and> (if size = 0 then e = length data else if size = 1 then be_val (slice data (s + 8) (s + 16)) = e - s else size = e - s)))"

lemma parse_box_framed: "parse_box data pos = Inr b \<Longrightarrow> framed_box data (pos, pb_next b) (pb_type b, pb_payload b)"
  by (auto simp: parse_box_eq_Inr framed_box_def Let_def)

lemma walk_framed:
  assumes "jumbf.walk data pos = Inr bs"
  shows "list_all2 (framed_box data) (jumbf.spans pos bs) (map (\<lambda>b. (pb_type b, pb_payload b)) bs)"
  using assms
proof (induction bs arbitrary: pos)
  case (Cons b bs)
  then show ?case by (simp add: jumbf.walk_Cons parse_box_framed)
qed simp

lemma split_at_index: "i < length xs \<Longrightarrow> xs ! i = a \<Longrightarrow> xs = take i xs @ a # drop (Suc i) xs"
  by (metis id_take_nth_drop)

lemma description_framed:
  assumes "parse_superbox_description payload = Inr d"
  obtains desc rest where "parse_box payload 0 = Inr desc" and "pb_type desc = TYPE_JUMD" and "pb_next desc = sd_content_offset d"
    and "take 16 (pb_payload desc) = sd_type_uuid d" and "drop 17 (pb_payload desc) = sd_label d @ 0 # rest"
proof -
  from assms obtain desc null where d: "parse_box payload 0 = Inr desc" "pb_type desc = TYPE_JUMD"
    and null: "position (\<lambda>b. b = 0) (drop 17 (pb_payload desc)) = Some null"
    and eq: "d = \<lparr>sd_type_uuid = take 16 (pb_payload desc), sd_label = take null (drop 17 (pb_payload desc)),
      sd_content_offset = pb_next desc\<rparr>"
    by (auto simp: parse_superbox_description_def Let_def res_simps split: if_splits)
  have "null < length (drop 17 (pb_payload desc))" "drop 17 (pb_payload desc) ! null = 0" using position_Some [OF null] by auto
  from split_at_index [OF this]
  show thesis using that [OF d] unfolding eq superbox_description.select_convs by blast
qed

text \<open>
  C31: An accepted superbox is tiled by boxes: its payload is the description box followed, without gap or overlap and up to the last
  byte, by exactly the content boxes, in order and at most 4096 of them, each with the type and payload its span frames; the type
  UUID is the first sixteen bytes of the description, and the label, which is valid, is its text from byte 17 to the first zero byte.
\<close>

theorem superbox_children_tile:
  assumes "parse_superbox_payload payload = Inr sb"
  shows "\<exists>desc e spans rest. tiles 0 ((0, e) # spans) (length payload)
    \<and> framed_box payload (0, e) (TYPE_JUMD, desc) \<and> list_all2 (framed_box payload) spans (sb_content sb)
    \<and> take 16 desc = sb_type_uuid sb \<and> drop 17 desc = sb_label sb @ 0 # rest \<and> valid_label (sb_label sb)
    \<and> length (sb_content sb) \<le> MAX_CHILD_BOXES_PER_SUPERBOX"
proof -
  from assms obtain d content where d: "parse_superbox_description payload = Inr d"
    and c: "box_loop payload child_limit (\<lambda>e. e) child_push [] (sd_content_offset d) = Inr content"
    and sb: "sb = \<lparr>sb_type_uuid = sd_type_uuid d, sb_label = sd_label d, sb_content = content\<rparr>"
    by (auto simp: parse_superbox_payload_def res_simps)
  from d obtain desc rest where desc: "parse_box payload 0 = Inr desc" "pb_type desc = TYPE_JUMD" "pb_next desc = sd_content_offset d"
    and f: "take 16 (pb_payload desc) = sd_type_uuid d" "drop 17 (pb_payload desc) = sd_label d @ 0 # rest"
    by (rule description_framed)
  note ok = parse_description_ok [OF d]
  from child_loop_walk [OF c ok(4)] obtain bs where bs: "jumbf.walk payload (sd_content_offset d) = Inr bs"
    "content = map (\<lambda>b. (pb_type b, pb_payload b)) bs" "length content \<le> MAX_CHILD_BOXES_PER_SUPERBOX" by auto
  have "tiles 0 ((0, pb_next desc) # jumbf.spans (sd_content_offset d) bs) (length payload)"
    using jumbf.walk_tiles [OF bs(1) ok(4)] ok(3) by (simp add: desc(3))
  moreover have "framed_box payload (0, pb_next desc) (TYPE_JUMD, pb_payload desc)" using parse_box_framed [OF desc(1)] desc(2) by simp
  ultimately show ?thesis using walk_framed [OF bs(1)] f ok(1) bs(2,3)
    unfolding sb superbox_content_boxes.select_convs by blast
qed

theorem superbox_children_tile_witness:
  "\<exists>e spans. tiles 0 ((0, e) # spans) 45 \<and> list_all2 (framed_box (description_box UUID_CBOR_CONTENT (ascii ''a'') None
     @ cbor_box (replicate 10 7))) spans [(TYPE_CBOR, replicate 10 7)]"
proof -
  let ?p = "description_box UUID_CBOR_CONTENT (ascii ''a'') None @ cbor_box (replicate 10 7)"
  have "length ?p = 45" by (simp add: length_description_box cbor_box_def length_box_bytes)
  moreover have "parse_superbox_payload ?p = Inr \<lparr>sb_type_uuid = UUID_CBOR_CONTENT, sb_label = ascii ''a'',
      sb_content = [(TYPE_CBOR, replicate 10 7)]\<rparr>"
    using calculation by (intro parse_cbor_payload valid_label_small) (simp_all add: usize_max_def)
  ultimately show ?thesis using superbox_children_tile [of ?p] by fastforce
qed

text \<open>
  A superbox is read back from its own serialization: type, label and every content box, with
  and without a salt.
\<close>

theorem parse_superbox_superbox:
  assumes "length uuid = 16" and "valid_label label" and "valid_salt salt"
    and "\<forall>(t, p) \<in> set cs. length t = 4" and "length cs \<le> MAX_CHILD_BOXES_PER_SUPERBOX"
    and "length (superbox uuid label (map (\<lambda>(t, p). box_bytes t p) cs) salt) \<le> usize_max"
  shows "parse_superbox (superbox uuid label (map (\<lambda>(t, p). box_bytes t p) cs) salt) =
    Inr \<lparr>sb_type_uuid = uuid, sb_label = label, sb_content = cs\<rparr>"
proof -
  have "length (description_box uuid label salt @ concat (map (\<lambda>(t, p). box_bytes t p) cs)) \<le> usize_max"
    using assms(6) length_box_ge [of "description_box uuid label salt @ concat (map (\<lambda>(t, p). box_bytes t p) cs)" TYPE_JUMB]
    by (simp add: superbox_def foldl_append)
  with parse_superbox_payload_boxes [OF assms(1-5)] parse_superbox_superbox_payload [OF assms(6)]
  show ?thesis by simp
qed

theorem parse_superbox_superbox_witness:
  "parse_superbox (superbox UUID_CLAIM (ascii ''a'') [box_bytes TYPE_CBOR [1, 2]] (Some (replicate 16 7))) =
     Inr \<lparr>sb_type_uuid = UUID_CLAIM, sb_label = ascii ''a'', sb_content = [(TYPE_CBOR, [1, 2])]\<rparr>"
  using parse_superbox_superbox [of UUID_CLAIM "ascii ''a''" "Some (replicate 16 7)" "[(TYPE_CBOR, [1, 2])]"]
    valid_label_small
  by (simp add: valid_salt_def MAX_CHILD_BOXES_PER_SUPERBOX_def MAX_ASSERTIONS_PER_MANIFEST_def superbox_def
      description_box_def length_box_bytes usize_max_def)

text \<open>
  Merging keeps every manifest verbatim and in order. When the children of the base store state
  their own sizes, the manifests of the merged store are those of the base store followed by those
  of the update store.
\<close>

theorem merge_manifest_stores_manifests:
  assumes "merge_manifest_stores base upd = Inr merged"
    and "manifest_superboxes_from_store base = Inr bs" and "manifest_superboxes_from_store upd = Inr us"
    and "store_layout base = Some (payload, off, children)"
    and "sized payload 0" and "\<forall>(s, e) \<in> set (jumbf.spans off children). sized payload s"
    and "length children + length us \<le> MAX_CHILD_BOXES_PER_SUPERBOX"
    and "length bs + length us \<le> MAX_MANIFESTS_PER_STORE"
  shows "manifest_superboxes_from_store merged = Inr (bs @ us)"
  using assms by (rule merge_manifests)

theorem merge_manifest_stores_manifests_witness:
  "manifest_superboxes_from_store (build_manifest_store
      [manifest_bytes (sample_manifest (ascii ''a'')), manifest_bytes (sample_manifest (ascii ''b''))])
    = Inr [manifest_bytes (sample_manifest (ascii ''a'')), manifest_bytes (sample_manifest (ascii ''b''))]"
proof -
  let ?a = "manifest_bytes (sample_manifest (ascii ''a''))" and ?b = "manifest_bytes (sample_manifest (ascii ''b''))"
  have la: "length ?a = 241" "length ?b = 241" using length_sample [of 97] length_sample [of 98] by (simp_all add: ascii_def)
  have ab: "chained [?a]" "chained [?b]" "sized ?a 0"
    using manifest_bytes_chained [of "[sample_manifest (ascii ''a'')]"]
      manifest_bytes_chained [of "[sample_manifest (ascii ''b'')]"] valid_label_small la
    by (simp_all add: sample_manifest_def usize_max_def)
  have len: "length (build_manifest_store [?a]) \<le> usize_max" "length (build_manifest_store [?b]) \<le> usize_max"
    using la length_store_description by (simp_all add: built_store_box length_box_bytes usize_max_def)
  let ?p = "store_description @ ?a"
  obtain c where walk: "jumbf.walk ?p (length store_description) = Inr c" "length c = 1"
    "\<forall>(s, e) \<in> set (walker.spans pb_next (length store_description) c). sized ?p s"
    using walk_chained [of "[?a]" store_description] ab la length_store_description by (auto simp: usize_max_def)
  have layout: "store_layout (build_manifest_store [?a]) = Some (?p, length store_description, c)"
    using parse_store_description [of ?a] parse_store_box_jumb [of ?p] la length_store_description walk(1) len(1)
    by (simp add: store_layout_def built_store_box usize_max_def)
  have s0: "sized ?p 0"
    using parse_box_box_bytes_0(2) [of TYPE_JUMD] length_store_description
    by (simp add: sized_def slice_append_prefix description_box_def Let_def length_box_bytes usize_max_def)
  have counts: "length [?a] \<le> MAX_MANIFESTS_PER_STORE" "length [?b] \<le> MAX_MANIFESTS_PER_STORE"
    "length c + length [?b] \<le> MAX_CHILD_BOXES_PER_SUPERBOX" "length [?a] + length [?b] \<le> MAX_MANIFESTS_PER_STORE"
    using walk(2) by (simp_all add: MAX_CHILD_BOXES_PER_SUPERBOX_def MAX_ASSERTIONS_PER_MANIFEST_def MAX_MANIFESTS_PER_STORE_def)
  have merged: "merge_manifest_stores (build_manifest_store [?a]) (build_manifest_store [?b]) = Inr (build_manifest_store ([?a] @ [?b]))"
    using ab len la counts length_store_description
    by (intro merge_built) (simp_all add: MAX_MANIFEST_STORE_BYTES_def)
  from merge_manifest_stores_manifests [OF merged manifest_superboxes_built [OF ab(1) counts(1) len(1)]
      manifest_superboxes_built [OF ab(2) counts(2) len(2)] layout s0 walk(3) counts(3,4)]
  show ?thesis by simp
qed

text \<open>
  C33: The hypothesis of the previous property is needed. When the only child of the base store is a
  box that runs to the end of its container, the appended manifests become part of that child: the
  merged store holds a single manifest, the base manifest with all update bytes appended.
\<close>

theorem merge_manifest_stores_absorbs:
  assumes "merge_manifest_stores base upd = Inr merged"
    and "manifest_superboxes_from_store base = Inr [u]" and "manifest_superboxes_from_store upd = Inr us"
    and "store_layout base = Some (payload, off, [child])"
    and "sized payload 0" and "\<not> sized payload off" and "sized (pb_payload child) 0"
  shows "manifest_superboxes_from_store merged = Inr [u @ concat us]"
  using assms by (rule merge_absorbed)

theorem merge_manifest_stores_absorbs_witness:
  "manifest_superboxes_from_store (build_manifest_store
      [open_manifest (ascii ''a''), manifest_bytes (sample_manifest (ascii ''b''))])
    = Inr [open_manifest (ascii ''a'') @ manifest_bytes (sample_manifest (ascii ''b''))]"
proof -
  let ?a = "open_manifest (ascii ''a'')" and ?b = "manifest_bytes (sample_manifest (ascii ''b''))"
  let ?p = "store_description @ ?a"
  have la: "length ?a = 35" "length ?b = 241" using length_sample [of 98]
    by (simp_all add: open_manifest_def length_description_box ascii_def)
  have ab: "chained [?a]" "chained [?b]"
    using open_manifest_chained [of "ascii ''a''"] manifest_bytes_chained [of "[sample_manifest (ascii ''b'')]"]
      valid_label_small la by (simp_all add: sample_manifest_def usize_max_def)
  have len: "length (build_manifest_store [?a]) \<le> usize_max" "length (build_manifest_store [?b]) \<le> usize_max"
    using la length_store_description by (simp_all add: built_store_box length_box_bytes usize_max_def)
  have counts: "length [?a] \<le> MAX_MANIFESTS_PER_STORE" "length [?b] \<le> MAX_MANIFESTS_PER_STORE"
    by (simp_all add: MAX_MANIFESTS_PER_STORE_def)
  define c where "c = \<lparr>pb_type = TYPE_JUMB, pb_payload = description_box UUID_MANIFEST (ascii ''a'') None,
    pb_next = length ?p\<rparr>"
  have pb: "parse_box ?p (length store_description) = Inr c"
    using parse_box_shift [OF parse_open_manifest(1) [of "ascii ''a''"], of store_description] la length_store_description
    by (simp add: c_def usize_max_def)
  have walk: "jumbf.walk ?p (length store_description) = Inr [c]"
    using pb la length_store_description by (simp only: jumbf.walk_Cons jumbf.walk_Nil) (simp add: c_def)
  have layout: "store_layout (build_manifest_store [?a]) = Some (?p, length store_description, [c])"
    using parse_store_description [of ?a] parse_store_box_jumb [of ?p] la length_store_description walk len(1)
    by (simp add: store_layout_def built_store_box usize_max_def)
  have desc: "sized (description_box u l None @ xs) 0" if "length u + length l < 1000" for u l xs
  proof -
    have "sized (description_box u l None) 0" "4 \<le> length (description_box u l None)"
      using parse_box_box_bytes_0(2) [of TYPE_JUMD] that
      by (simp_all add: description_box_def Let_def length_box_bytes usize_max_def)
    then show ?thesis by (simp add: sized_def slice_append_prefix)
  qed
  have sized: "sized ?p 0" "\<not> sized ?p (length store_description)" "sized (pb_payload c) 0"
    using desc [of UUID_MANIFEST_STORE LABEL_MANIFEST_STORE ?a] desc [of UUID_MANIFEST "ascii ''a''" "[]"]
      parse_open_manifest(2) [of "ascii ''a''"] sized_shift [of store_description ?a 0]
    by (simp_all add: c_def LABEL_MANIFEST_STORE_def)
  have merged: "merge_manifest_stores (build_manifest_store [?a]) (build_manifest_store [?b])
      = Inr (build_manifest_store ([?a] @ [?b]))"
    using ab len la counts length_store_description
    by (intro merge_built) (simp_all add: MAX_MANIFEST_STORE_BYTES_def)
  from merge_manifest_stores_absorbs [OF merged manifest_superboxes_built [OF ab(1) counts(1) len(1)]
      manifest_superboxes_built [OF ab(2) counts(2) len(2)] layout sized]
  show ?thesis by simp
qed

text \<open>
  Expanding a store touches exactly its compressed children. The result is marked expanded when
  the store carries a compressed manifest; otherwise it is the input unchanged. When it is, every
  uncompressed child is copied byte for byte, every compressed one is replaced by the manifest it
  carries, and the stored hash domains list one entry per manifest, in order.
\<close>

theorem expand_store_children:
  assumes "expand_store brotli store = Inr es"
  shows "es_expanded es = store_has_compressed_manifest store
    \<and> (\<not> es_expanded es \<longrightarrow> es_bytes es = store \<and> stored_contents es = [])
    \<and> (\<exists>payload off bs. store_layout store = Some (payload, off, bs)
        \<and> (es_expanded es \<longrightarrow>
             es_bytes es = box_bytes TYPE_JUMB (take off payload
               @ concat (map (expanded_piece brotli payload) (zip (jumbf.spans off bs) bs)))
             \<and> stored_contents es = concat (map stored_entry bs)))"
  using expand_store_ok [OF assms] store_has_compressed_layout [OF _ assms] by metis

theorem expand_store_children_witness:
  "store_has_compressed_manifest (build_manifest_store [box_bytes TYPE_JUMB (brob_payload (ascii ''a''))])"
proof -
  let ?b = "box_bytes TYPE_JUMB (brob_payload (ascii ''a''))"
  define p where "p = store_description @ ?b"
  have l: "length ?b = 78" "length p = 108" "length (box_bytes TYPE_JUMB p) = 116"
    by (simp_all add: p_def length_box_bytes brob_payload_def length_description_box length_bare_manifest
        length_store_description ascii_def LABEL_MANIFEST_STORE_def)
  define c where "c = \<lparr>pb_type = TYPE_JUMB, pb_payload = brob_payload (ascii ''a''), pb_next = 108\<rparr>"
  have pb: "parse_box p 30 = Inr c"
    using parse_box_box_bytes [of TYPE_JUMB store_description "brob_payload (ascii ''a'')" "[]"] l
    by (simp add: p_def c_def length_store_description usize_max_def)
  have "expand_child stored_brotli p \<lparr>compressed_seen = False, rebuilt_payload = take 30 p, x_stored_contents = []\<rparr> 30 c
      = Inr \<lparr>compressed_seen = True, rebuilt_payload = take 30 p @ bare_manifest (ascii ''a''),
             x_stored_contents = [Some (brob_payload (ascii ''a''))]\<rparr>"
    using parse_brob_payload [of 97] decompress_sample [of 97] valid_label_small
    by (simp add: expand_child_def c_def ascii_def)
  with pb l have "box_loop p (\<lambda>_. None) (\<lambda>e. e) (expand_child stored_brotli p)
        \<lparr>compressed_seen = False, rebuilt_payload = take 30 p, x_stored_contents = []\<rparr> 30
      = Inr \<lparr>compressed_seen = True, rebuilt_payload = take 30 p @ bare_manifest (ascii ''a''),
             x_stored_contents = [Some (brob_payload (ascii ''a''))]\<rparr>"
    by (subst box_loop_step [where b = c]) (simp_all add: c_def box_loop_stop)
  then have "expand_store stored_brotli (build_manifest_store [?b]) = Inr
      \<lparr>es_bytes = box_bytes TYPE_JUMB (take 30 p @ bare_manifest (ascii ''a'')), es_expanded = True,
       stored_contents = [Some (brob_payload (ascii ''a''))]\<rparr>"
    using parse_store_description [of ?b] parse_store_box_jumb [of p] l
    by (simp add: expand_store_def built_store_box p_def [symmetric] length_store_description usize_max_def)
  from expand_store_children [OF this] show ?thesis by simp
qed

text \<open>
  C32: Inflation is bounded and cannot change the label. For every decoder, a compressed manifest
  that is accepted is one manifest superbox of at most 16 MiB, of a manifest type, under the label
  of the box that carried it.
\<close>

theorem decompress_manifest_superbox_bounded:
  assumes "decompress_manifest_superbox brotli parsed = Inr (manifest, u)"
  shows "\<exists>sb. parse_superbox manifest = Inr sb \<and> sb_label sb = sb_label parsed \<and> sb_type_uuid sb = u
    \<and> is_manifest_uuid u \<and> length manifest \<le> MAX_DECOMPRESSED_MANIFEST_BYTES"
  using assms by (rule decompress_manifest_superbox_ok)

theorem decompress_manifest_superbox_bounded_witness:
  "\<exists>sb. parse_superbox (bare_manifest (ascii ''a'')) = Inr sb \<and> sb_label sb = ascii ''a''
    \<and> length (bare_manifest (ascii ''a'')) \<le> MAX_DECOMPRESSED_MANIFEST_BYTES"
  using decompress_manifest_superbox_bounded [OF decompress_sample [of 97]] valid_label_small
  by (auto simp: ascii_def)

end
