(* ===== verification/Format_Common.thy ===== *)
theory Format_Common
  imports Utf8 Spans
begin

text \<open>
  What the container readers share: the format tags, errors, exclusions and box spans of
  \<^verbatim>\<open>c2pa-formats/lib.rs\<close> and the bounds-checked integer readers of \<^verbatim>\<open>c2pa-formats/util.rs\<close>.
\<close>

section \<open>Formats and errors\<close>

datatype append_only_flavor = PlainText | JsonLines

datatype asset_format =
    Jpeg | Png | Bmff | Riff | Tiff | Gif | Svg | Pdf | Zip | Id3 | Flac | Ogg | Font | Jxl
  | TextUnstructured
  | TextStructured bytes bytes
  | TextHtml | C2paStore | Midi | Ttml | Onnx | SafeTensors | Parquet | BlockFact | Warc
  | AppendOnlyText append_only_flavor
  | Opaque | ExternalMedia

datatype format_error =
    NotImplemented asset_format
  | BadStructure asset_format string
  | Truncated asset_format
  | ManifestTooLarge asset_format nat nat
  | UnsupportedVariant asset_format string

record data_hash_exclusion =
  ex_start :: nat
  ex_length :: nat

section \<open>Box spans\<close>

record box_span =
  bs_name :: bytes
  bs_ranges :: "span list"

definition contiguous :: "bytes \<Rightarrow> nat \<Rightarrow> nat \<Rightarrow> box_span" where
  "contiguous name start e = \<lparr>bs_name = name, bs_ranges = [(start, e)]\<rparr>"

definition scattered :: "bytes \<Rightarrow> span list \<Rightarrow> box_span" where
  "scattered name ranges = \<lparr>bs_name = name, bs_ranges = ranges\<rparr>"

definition bs_start :: "box_span \<Rightarrow> nat" where
  "bs_start b = (case bs_ranges b of [] \<Rightarrow> 0 | r # _ \<Rightarrow> fst r)"

definition bs_end :: "box_span \<Rightarrow> nat" where
  "bs_end b = (if bs_ranges b = [] then 0 else snd (last (bs_ranges b)))"

definition byte_len :: "box_span \<Rightarrow> nat" where
  "byte_len b = sum_list (map (\<lambda>(s, e). e - s) (bs_ranges b))"

definition is_contiguous :: "box_span \<Rightarrow> bool" where
  "is_contiguous b \<longleftrightarrow> length (bs_ranges b) = 1"

definition extend_to :: "nat \<Rightarrow> box_span \<Rightarrow> box_span" where
  "extend_to e b =
     (if bs_ranges b = [] then b
      else b\<lparr>bs_ranges := butlast (bs_ranges b) @ [(fst (last (bs_ranges b)), e)]\<rparr>)"

section \<open>Integer readers\<close>

definition be_u16 :: "bytes \<Rightarrow> nat \<Rightarrow> nat option" where
  "be_u16 data off = map_option be_val (slice_get data off (off + 2))"

definition be_u24 :: "bytes \<Rightarrow> nat \<Rightarrow> nat option" where
  "be_u24 data off = map_option be_val (slice_get data off (off + 3))"

definition be_u32 :: "bytes \<Rightarrow> nat \<Rightarrow> nat option" where
  "be_u32 data off = map_option be_val (slice_get data off (off + 4))"

definition be_u64 :: "bytes \<Rightarrow> nat \<Rightarrow> nat option" where
  "be_u64 data off = map_option be_val (slice_get data off (off + 8))"

definition le_u32 :: "bytes \<Rightarrow> nat \<Rightarrow> nat option" where
  "le_u32 data off = map_option le_val (slice_get data off (off + 4))"

definition u64_to_usize_with_max :: "nat \<Rightarrow> nat \<Rightarrow> nat option" where
  "u64_to_usize_with_max value mx = (if value \<le> mx then Some value else None)"

definition u64_to_usize :: "nat \<Rightarrow> nat option" where
  "u64_to_usize value = u64_to_usize_with_max value usize_max"

text \<open>\<open>a.checked_add(b).filter(|&e| e <= limit)\<close>, the check before every jump forward.\<close>

definition add_within :: "nat \<Rightarrow> nat \<Rightarrow> nat \<Rightarrow> nat option" where
  "add_within a b limit =
     (case checked_add a b of Some e \<Rightarrow> if e \<le> limit then Some e else None | None \<Rightarrow> None)"

lemma add_within_eq_Some [simp]:
  "add_within a b limit = Some e \<longleftrightarrow> e = a + b \<and> a + b \<le> limit \<and> a + b \<le> usize_max"
  by (auto simp: add_within_def checked_add_def)

lemma read_int_bounds:
  "be_u16 data off = Some n \<Longrightarrow> off + 2 \<le> length data \<and> n < 2 ^ 16"
  "be_u24 data off = Some n \<Longrightarrow> off + 3 \<le> length data \<and> n < 2 ^ 24"
  "be_u32 data off = Some n \<Longrightarrow> off + 4 \<le> length data \<and> n < 2 ^ 32"
  "le_u32 data off = Some n \<Longrightarrow> off + 4 \<le> length data \<and> n < 2 ^ 32"
  using be_val_bound [of "slice data off (off + 2)"] be_val_bound [of "slice data off (off + 3)"]
    be_val_bound [of "slice data off (off + 4)"] le_val_bound [of "slice data off (off + 4)"]
  by (auto simp: be_u16_def be_u24_def be_u32_def le_u32_def)

section \<open>Chunks\<close>

text \<open>\<open>slice.chunks(n)\<close>, which the writers of fragmented carriers use.\<close>

function chunks_of :: "nat \<Rightarrow> 'a list \<Rightarrow> 'a list list" where
  "chunks_of n xs = (if xs = [] \<or> n = 0 then [] else take n xs # chunks_of n (drop n xs))"
  by pat_completeness auto
termination
  by (relation "measure (\<lambda>(n, xs). length xs)") auto

declare chunks_of.simps [simp del]

lemma chunks_of_facts:
  assumes "0 < n"
  shows "concat (chunks_of n xs) = xs" and "c \<in> set (chunks_of n xs) \<Longrightarrow> length c \<le> n"
    and "length (chunks_of n xs) * n < length xs + n" and "xs \<noteq> [] \<Longrightarrow> chunks_of n xs \<noteq> []"
proof -
  show "concat (chunks_of n xs) = xs"
    using assms by (induction n xs rule: chunks_of.induct) (subst chunks_of.simps, auto)
  show "length c \<le> n" if "c \<in> set (chunks_of n xs)"
    using assms that by (induction n xs rule: chunks_of.induct) (subst (asm) (2) chunks_of.simps, auto split: if_splits)
  show "length (chunks_of n xs) * n < length xs + n"
    using assms
  proof (induction n xs rule: chunks_of.induct)
    case (1 n xs)
    show ?case
    proof (cases "xs = []")
      case False
      then have "length (chunks_of n xs) * n = n + length (chunks_of n (drop n xs)) * n" using "1.prems" by (subst chunks_of.simps) simp
      moreover have "length (chunks_of n (drop n xs)) * n < length (drop n xs) + n" using 1 False by simp
      ultimately show ?thesis using False
        by (cases "n \<le> length xs") (auto simp: chunks_of.simps)
    qed (use "1.prems" in \<open>simp add: chunks_of.simps\<close>)
  qed
  show "chunks_of n xs \<noteq> []" if "xs \<noteq> []" using assms that by (subst chunks_of.simps) simp
qed


section \<open>Segmentations\<close>

text \<open>
  Contiguous boxes laid out back to back: the shape every segmentation for the general box hash has.
  \<open>seg_tiles a spans b\<close> says that the boxes cover the range from \<open>a\<close> to \<open>b\<close>, each byte once.
\<close>

definition seg_tiles :: "nat \<Rightarrow> box_span list \<Rightarrow> nat \<Rightarrow> bool" where
  "seg_tiles a spans b \<longleftrightarrow> tiles a (concat (map bs_ranges spans)) b \<and> list_all is_contiguous spans"

lemma seg_tiles_Nil [simp]: "seg_tiles a [] b \<longleftrightarrow> a = b"
  by (simp add: seg_tiles_def)

lemma seg_tiles_Cons [simp]:
  "seg_tiles a (contiguous name s e # spans) b \<longleftrightarrow> s = a \<and> s < e \<and> seg_tiles e spans b"
  by (auto simp: seg_tiles_def contiguous_def is_contiguous_def)

lemma seg_tiles_append: "seg_tiles a (xs @ ys) c \<longleftrightarrow> (\<exists>b. seg_tiles a xs b \<and> seg_tiles b ys c)"
  by (auto simp: seg_tiles_def tiles_append)

lemma seg_tiles_snoc: "seg_tiles a xs s \<Longrightarrow> s < e \<Longrightarrow> seg_tiles a (xs @ [contiguous name s e]) e"
  by (auto simp: seg_tiles_append)

lemma seg_tiles_le: "seg_tiles a xs b \<Longrightarrow> a \<le> b"
  using tiles_le by (auto simp: seg_tiles_def)

lemma contiguous_cases:
  assumes "is_contiguous x"
  obtains s e where "x = contiguous (bs_name x) s e"
proof -
  from assms obtain r where "bs_ranges x = [r]" by (auto simp: is_contiguous_def length_Suc_conv)
  then have "x = contiguous (bs_name x) (fst r) (snd r)" by (cases x) (simp add: contiguous_def)
  then show ?thesis by (rule that)
qed

lemma seg_tiles_last:
  assumes "seg_tiles a xs b" and "xs \<noteq> []"
  shows "bs_end (last xs) = b"
    and "e > b \<Longrightarrow> seg_tiles a (butlast xs @ [extend_to e (last xs)]) e"
proof -
  obtain ys x where xs: "xs = ys @ [x]" using assms(2) by (cases xs rule: rev_cases) auto
  with assms(1) have "is_contiguous x" by (simp add: seg_tiles_def)
  then obtain s e0 where x: "x = contiguous (bs_name x) s e0" by (rule contiguous_cases)
  then have x': "bs_ranges x = [(s, e0)]" by (metis contiguous_def box_span.select_convs(2))
  with assms(1) xs have s: "tiles a (concat (map bs_ranges ys)) s" "s < e0" "e0 = b" "list_all is_contiguous ys"
    by (auto simp: seg_tiles_def tiles_append)
  then show "bs_end (last xs) = b" using xs x' by (simp add: bs_end_def)
  show "seg_tiles a (butlast xs @ [extend_to e (last xs)]) e" if "e > b"
    using s that xs x' by (auto simp: seg_tiles_def tiles_append extend_to_def is_contiguous_def)
qed

text \<open>Every byte of the covered range is in exactly one box, so hashing the boxes hashes the range.\<close>

lemma seg_tiles_bytes:
  assumes "seg_tiles a spans b"
  shows "concat (map (\<lambda>x. concat (map (\<lambda>(s, e). slice data s e) (bs_ranges x))) spans) = slice data a b"
proof -
  have "concat (map (\<lambda>x. concat (map (\<lambda>(s, e). slice data s e) (bs_ranges x))) spans)
      = concat (map (\<lambda>(s, e). slice data s e) (concat (map bs_ranges spans)))"
    by (induction spans) auto
  also have "\<dots> = slice data a b" using assms by (auto simp: seg_tiles_def intro: tiles_slices)
  finally show ?thesis .
qed

end
