(* ===== verification/Format_Png.thy ===== *)
theory Format_Png
  imports Format_Common
begin

text \<open>
  PNG: \<^verbatim>\<open>c2pa-formats/png.rs\<close>. The manifest store is the data of a \<open>caBX\<close> chunk. The callbacks that
  the source passes to \<open>walk_chunks\<close> become folds over the chunks it visits: a caller never looks at
  what its callback collected when the walk fails.
\<close>

section \<open>Chunks\<close>

definition SIGNATURE :: bytes where "SIGNATURE = [0x89, 0x50, 0x4E, 0x47, 0x0D, 0x0A, 0x1A, 0x0A]"
definition TYPE_CABX :: bytes where "TYPE_CABX = ascii ''caBX''"
definition TYPE_IEND :: bytes where "TYPE_IEND = ascii ''IEND''"

definition png_check_signature :: "bytes \<Rightarrow> format_error + unit" where
  "png_check_signature data =
     (if length data < 8 \<or> take 8 data \<noteq> SIGNATURE
      then Inl (BadStructure Png ''missing PNG signature'') else Inr ())"

record png_chunk =
  pc_type :: bytes
  pc_start :: nat
  pc_data_start :: nat
  pc_data_len :: nat
  pc_end :: nat

definition png_read_chunk :: "bytes \<Rightarrow> nat \<Rightarrow> format_error + png_chunk" where
  "png_read_chunk data pos =
     res_bind (ok_or (be_u32 data pos) (Truncated Png)) (\<lambda>len.
       let type_code = slice data (pos + 4) (pos + 8);
           data_start = pos + 8
       in res_bind (ok_or (case checked_add data_start len of
                             Some e \<Rightarrow> add_within e 4 (length data) | None \<Rightarrow> None) (Truncated Png)) (\<lambda>e.
            Inr \<lparr>pc_type = type_code, pc_start = pos, pc_data_start = data_start, pc_data_len = len,
                 pc_end = e\<rparr>))"

lemma png_read_chunk_eq:
  "png_read_chunk data pos = Inr c \<longleftrightarrow>
     (let len = be_val (slice data pos (pos + 4))
      in pos + 12 + len \<le> length data \<and> pos + 12 + len \<le> usize_max
         \<and> c = \<lparr>pc_type = slice data (pos + 4) (pos + 8), pc_start = pos, pc_data_start = pos + 8,
                 pc_data_len = len, pc_end = pos + 12 + len\<rparr>)"
  by (auto simp: png_read_chunk_def be_u32_def Let_def res_simps checked_add_def split: option.splits if_splits)

function png_chunks :: "bytes \<Rightarrow> nat \<Rightarrow> format_error + png_chunk list" where
  "png_chunks data pos =
     (if pos + 8 \<le> length data then
        res_bind (png_read_chunk data pos) (\<lambda>c.
          if pc_type c = TYPE_IEND then Inr [c]
          else res_bind (png_chunks data (pc_end c)) (\<lambda>cs. Inr (c # cs)))
      else Inr [])"
  by pat_completeness auto
termination
  by (relation "measure (\<lambda>(data, pos). length data - pos)") (auto simp: png_read_chunk_eq Let_def)

declare png_chunks.simps [simp del]

definition png_walk_chunks :: "bytes \<Rightarrow> format_error + png_chunk list" where
  "png_walk_chunks data = res_bind (png_check_signature data) (\<lambda>_. png_chunks data 8)"

section \<open>Operations\<close>

definition placement_step :: "bool \<times> bool \<Rightarrow> png_chunk \<Rightarrow> bool \<times> bool" where
  "placement_step = (\<lambda>(seen_idat, late_cabx) c.
     if pc_type c = ascii ''IDAT'' then (True, late_cabx)
     else if pc_type c = TYPE_CABX \<and> seen_idat then (seen_idat, True)
     else (seen_idat, late_cabx))"

definition png_placement_error_v2_5 :: "bytes \<Rightarrow> format_error + string option" where
  "png_placement_error_v2_5 data =
     res_bind (png_walk_chunks data) (\<lambda>cs.
       Inr (if snd (foldl placement_step (False, False) cs)
            then Some ''PNG caBX chunk does not precede the IDAT chunks'' else None))"

definition png_name :: "png_chunk \<Rightarrow> bytes" where
  "png_name c = (if pc_type c = TYPE_CABX then ascii ''C2PA'' else utf8_lossy (pc_type c))"

definition png_push_span :: "box_span list \<Rightarrow> png_chunk \<Rightarrow> box_span list" where
  "png_push_span spans c =
     (let name = png_name c
      in if name = ascii ''C2PA'' \<and> spans \<noteq> [] \<and> bs_name (last spans) = ascii ''C2PA''
            \<and> bs_end (last spans) = pc_start c
         then butlast spans @ [extend_to (pc_end c) (last spans)]
         else spans @ [contiguous name (pc_start c) (pc_end c)])"

definition png_box_spans :: "bytes \<Rightarrow> format_error + box_span list" where
  "png_box_spans data =
     res_bind (png_check_signature data) (\<lambda>_.
     res_bind (png_walk_chunks data) (\<lambda>cs.
       let spans = foldl png_push_span [contiguous (ascii ''PNGh'') 0 8] cs
       in Inr (if spans \<noteq> [] \<and> bs_end (last spans) < length data \<and> bs_name (last spans) = ascii ''IEND''
               then butlast spans @ [extend_to (length data) (last spans)] else spans)))"

definition png_extract :: "bytes \<Rightarrow> format_error + bytes option" where
  "png_extract data =
     res_bind (png_walk_chunks data) (\<lambda>cs.
       Inr (foldl (\<lambda>found c. if pc_type c = TYPE_CABX \<and> found = None
                             then Some (slice data (pc_data_start c) (pc_data_start c + pc_data_len c))
                             else found) None cs))"

definition png_strip :: "bytes \<Rightarrow> format_error + bytes" where
  "png_strip asset =
     res_bind (png_check_signature asset) (\<lambda>_.
     res_bind (png_walk_chunks asset) (\<lambda>cs.
       case foldl (\<lambda>(out, cursor) c. if pc_type c = TYPE_CABX
                                      then (out @ slice asset cursor (pc_start c), pc_end c)
                                      else (out, cursor)) (take 8 asset, 8) cs of
         (out, cursor) \<Rightarrow> Inr (out @ drop cursor asset)))"

text \<open>CRC-32, one bit at a time, as in \<^verbatim>\<open>util.rs\<close>.\<close>

definition crc_bit :: "u32 \<Rightarrow> u32" where
  "crc_bit v = drop_bit 1 v XOR (0xEDB88320 AND (- (v AND 1)))"

definition crc_update :: "u32 \<Rightarrow> bytes \<Rightarrow> u32" where
  "crc_update = foldl (\<lambda>v b. (crc_bit ^^ 8) (v XOR ucast b))"

definition crc32_finalize :: "u32 \<Rightarrow> u32" where
  "crc32_finalize v = v XOR 0xFFFFFFFF"

definition png_build_chunk :: "bytes \<Rightarrow> bytes \<Rightarrow> bytes" where
  "png_build_chunk type_code data =
     be_bytes 4 (length data) @ type_code @ data
     @ be_bytes 4 (unat (crc32_finalize (crc_update (crc_update 0xFFFFFFFF type_code) data)))"

definition png_embed :: "bytes \<Rightarrow> bytes \<Rightarrow> format_error + bytes" where
  "png_embed asset manifest_store =
     res_bind (png_strip asset) (\<lambda>clean.
     res_bind (png_walk_chunks clean) (\<lambda>cs.
     res_bind (ok_or (foldl (\<lambda>iend c. if pc_type c = TYPE_IEND \<and> iend = None then Some (pc_start c) else iend)
                        None cs) (BadStructure Png ''missing IEND chunk'')) (\<lambda>at.
       Inr (take at clean @ png_build_chunk TYPE_CABX manifest_store @ drop at clean))))"

definition png_exclusions :: "bytes \<Rightarrow> format_error + data_hash_exclusion list" where
  "png_exclusions data =
     res_bind (png_walk_chunks data) (\<lambda>cs.
       Inr (foldl (\<lambda>ex c. if pc_type c = TYPE_CABX
                          then ex @ [\<lparr>ex_start = pc_start c, ex_length = pc_end c - pc_start c\<rparr>]
                          else ex) [] cs))"

section \<open>The chunk scanner\<close>

lemma length_png_types [simp]: "length TYPE_IEND = 4" "length TYPE_CABX = 4"
  by (simp_all add: TYPE_IEND_def TYPE_CABX_def)

interpretation png: scanner "png_read_chunk data" pc_end "length data" "\<lambda>pos. pos + 8 \<le> length data"
    "\<lambda>c. pc_type c = TYPE_IEND" for data
  by unfold_locales (auto simp: png_read_chunk_eq Let_def)

lemma png_chunks_scan: "png_chunks data pos = png.scan data pos"
proof (induction data pos rule: png_chunks.induct)
  case (1 data pos)
  then show ?case
    by (subst png_chunks.simps, subst png.scan.simps) (auto intro!: res_bind_cong)
qed

lemma png_chunk_spans:
  "png_chunks data pos = Inr cs \<Longrightarrow> png.chunk_spans pos cs = map (\<lambda>c. (pc_start c, pc_end c)) cs"
proof (induction cs arbitrary: pos)
  case (Cons c cs)
  then have "png_read_chunk data pos = Inr c" "pc_type c = TYPE_IEND \<and> cs = [] \<or> png_chunks data (pc_end c) = Inr cs"
    by (auto simp: png_chunks_scan png.scan_Cons split: if_splits)
  with Cons.IH [of "pc_end c"] show ?case by (auto simp: png_read_chunk_eq Let_def)
qed simp

lemma png_walk_chunks_ok:
  assumes "png_walk_chunks data = Inr cs"
  shows "take 8 data = SIGNATURE" and "8 \<le> length data" and "png_chunks data 8 = Inr cs"
  using assms by (auto simp: png_walk_chunks_def png_check_signature_def res_simps split: if_splits)

lemma foldl_filter_map:
  "foldl (\<lambda>acc c. if P c then acc @ [f c] else acc) acc cs = acc @ map f (filter P cs)"
  by (induction cs arbitrary: acc) auto

lemma foldl_first:
  "foldl (\<lambda>found c. if P c \<and> found = None then Some (f c) else found) None cs = map_option f (find P cs)"
proof -
  have "foldl (\<lambda>found c. if P c \<and> found = None then Some (f c) else found) (Some x) cs = Some x" for x
    by (induction cs) auto
  then show ?thesis by (induction cs) auto
qed

lemma subseq_filter_map: "subseq (map f (filter P xs)) (map f xs)"
  by (rule subseq_map) simp

text \<open>The exclusions are the carrier chunks: in order, disjoint, inside the asset.\<close>

lemma png_exclusions_ok:
  assumes "png_exclusions data = Inr ex"
  shows "sorted_wrt (\<lambda>x y. ex_start x + ex_length x \<le> ex_start y) ex"
    and "\<forall>x \<in> set ex. 8 \<le> ex_start x \<and> 12 \<le> ex_length x \<and> ex_start x + ex_length x \<le> length data"
proof -
  from assms obtain cs where w: "png_walk_chunks data = Inr cs"
    and ex: "ex = map (\<lambda>c. \<lparr>ex_start = pc_start c, ex_length = pc_end c - pc_start c\<rparr>) (filter (\<lambda>c. pc_type c = TYPE_CABX) cs)"
    by (auto simp: png_exclusions_def res_simps foldl_filter_map)
  note c = png_walk_chunks_ok [OF w]
  let ?xs = "map (\<lambda>c. (pc_start c, pc_end c)) (filter (\<lambda>c. pc_type c = TYPE_CABX) cs)"
  have sub: "subseq ?xs (png.chunk_spans 8 cs)"
    unfolding png_chunk_spans [OF c(3)] by (rule subseq_filter_map)
  note sel = png.scan_selection [OF c(3) [unfolded png_chunks_scan] c(2) sub]
  have each: "pc_start c < pc_end c" if "c \<in> set cs" "pc_type c = TYPE_CABX" for c
    using sel(2) that by fastforce
  from sel(1) show "sorted_wrt (\<lambda>x y. ex_start x + ex_length x \<le> ex_start y) ex"
    unfolding ex sorted_wrt_map using each by (elim sorted_wrt_mono_rel [rotated]) fastforce
  have "pc_start c + 12 \<le> pc_end c" if "c \<in> set cs" for c
  proof -
    from that obtain i where "i < length cs" "cs ! i = c" by (auto simp: in_set_conv_nth)
    with png.scan_steps [OF c(3) [unfolded png_chunks_scan], of i]
    have "png_read_chunk data (fst (png.chunk_spans 8 cs ! i)) = Inr c" by simp
    then show ?thesis by (auto simp: png_read_chunk_eq Let_def)
  qed
  with sel(2) show "\<forall>x \<in> set ex. 8 \<le> ex_start x \<and> 12 \<le> ex_length x \<and> ex_start x + ex_length x \<le> length data"
    unfolding ex by fastforce
qed

section \<open>Segmentation\<close>

lemma png_push_span_tiles:
  assumes "seg_tiles 0 spans (pc_start c)" and "spans \<noteq> []" and "pc_start c < pc_end c"
  shows "seg_tiles 0 (png_push_span spans c) (pc_end c)" and "png_push_span spans c \<noteq> []"
  using assms seg_tiles_last(2) [OF assms(1,2), of "pc_end c"]
  by (auto simp: png_push_span_def Let_def intro: seg_tiles_snoc)

lemma png_spans_tiles:
  assumes "png_chunks data pos = Inr cs" and "seg_tiles 0 spans pos" and "spans \<noteq> []"
  shows "seg_tiles 0 (foldl png_push_span spans cs) (png.scan_end pos cs) \<and> foldl png_push_span spans cs \<noteq> []"
  using assms
proof (induction cs arbitrary: pos spans)
  case (Cons c cs)
  then have c: "png_read_chunk data pos = Inr c" "cs = [] \<or> png_chunks data (pc_end c) = Inr cs"
    by (auto simp: png_chunks_scan png.scan_Cons split: if_splits)
  then have "pc_start c = pos" "pc_start c < pc_end c" by (auto simp: png_read_chunk_eq Let_def)
  with Cons.prems(2,3) png_push_span_tiles [of spans c]
  have "seg_tiles 0 (png_push_span spans c) (pc_end c)" "png_push_span spans c \<noteq> []" by auto
  with c(2) Cons.IH [of "pc_end c" "png_push_span spans c"] show ?case by auto
qed simp

lemma png_name_IEND: "pc_type c = TYPE_IEND \<Longrightarrow> png_name c = ascii ''IEND''"
proof -
  have "utf8_valid (ascii ''IEND'')" by (rule utf8_valid_ascii) (simp add: ascii_def)
  then show "pc_type c = TYPE_IEND \<Longrightarrow> png_name c = ascii ''IEND''"
    by (simp add: png_name_def TYPE_IEND_def TYPE_CABX_def utf8_lossy_valid) (simp add: ascii_def)
qed

lemma png_last_IEND:
  assumes "pc_type (last cs) = TYPE_IEND" and "cs \<noteq> []"
  shows "bs_name (last (foldl png_push_span spans cs)) = ascii ''IEND''"
proof -
  obtain ds c where cs: "cs = ds @ [c]" using assms(2) by (cases cs rule: rev_cases) auto
  with assms(1) png_name_IEND [of c] show ?thesis
    by (simp add: png_push_span_def Let_def contiguous_def) (simp add: ascii_def)
qed

text \<open>The boxes cover the asset up to its end, except for a tail too short to hold a chunk header.\<close>

lemma png_box_spans_ok:
  assumes "png_box_spans data = Inr spans"
  shows "\<exists>e \<le> length data. seg_tiles 0 spans e \<and> length data < e + 8
    \<and> (bs_name (last spans) = ascii ''IEND'' \<longrightarrow> e = length data)"
proof -
  from assms obtain cs where w: "png_walk_chunks data = Inr cs"
    and sp: "spans = (let spans = foldl png_push_span [contiguous (ascii ''PNGh'') 0 8] cs
       in if spans \<noteq> [] \<and> bs_end (last spans) < length data \<and> bs_name (last spans) = ascii ''IEND''
               then butlast spans @ [extend_to (length data) (last spans)] else spans)"
    by (auto simp: png_box_spans_def res_bind_eq_Inr Let_def)
  note c = png_walk_chunks_ok [OF w]
  let ?s = "foldl png_push_span [contiguous (ascii ''PNGh'') 0 8] cs" and ?e = "png.scan_end 8 cs"
  have t: "seg_tiles 0 ?s ?e" "?s \<noteq> []"
    using png_spans_tiles [OF c(3), of "[contiguous (ascii ''PNGh'') 0 8]"] by auto
  have e: "?e \<le> length data" by (rule png.scan_end_bound [OF c(3) [unfolded png_chunks_scan] c(2)])
  note fin = seg_tiles_last(1) [OF t]
  show ?thesis
  proof (cases "?e < length data \<and> bs_name (last ?s) = ascii ''IEND''")
    case True
    then have "spans = butlast ?s @ [extend_to (length data) (last ?s)]" using sp t(2) fin by (simp add: Let_def)
    with seg_tiles_last(2) [OF t, of "length data"] True show ?thesis by auto
  next
    case False
    then have "spans = ?s" using sp fin by (auto simp: Let_def)
    moreover have "length data < ?e + 8"
      using png.scan_finished [OF c(3) [unfolded png_chunks_scan]] False e png_last_IEND [of cs]
      by force
    ultimately show ?thesis using t e False by (intro exI [of _ ?e]) auto
  qed
qed


section \<open>Chunk contents\<close>

text \<open>A chunk as type, data and checksum, wherever it stands.\<close>

type_synonym png_piece = "bytes \<times> bytes \<times> bytes"

fun piece_bytes :: "png_piece \<Rightarrow> bytes" where
  "piece_bytes (t, d, k) = be_bytes 4 (length d) @ t @ d @ k"

fun piece_ok :: "png_piece \<Rightarrow> bool" where
  "piece_ok (t, d, k) \<longleftrightarrow> length t = 4 \<and> length k = 4 \<and> length d < 2 ^ 32"

fun placed :: "nat \<Rightarrow> png_piece list \<Rightarrow> png_chunk list" where
  "placed pos [] = []"
| "placed pos ((t, d, k) # ps) =
     \<lparr>pc_type = t, pc_start = pos, pc_data_start = pos + 8, pc_data_len = length d, pc_end = pos + 12 + length d\<rparr>
     # placed (pos + 12 + length d) ps"

text \<open>The walk stops at \<open>IEND\<close>, or where no header fits.\<close>

definition ends_well :: "png_piece list \<Rightarrow> bytes \<Rightarrow> bool" where
  "ends_well ps rest \<longleftrightarrow> (\<forall>p \<in> set (butlast ps). fst p \<noteq> TYPE_IEND)
     \<and> (length rest < 8 \<or> ps \<noteq> [] \<and> fst (last ps) = TYPE_IEND)"

lemma length_piece: "piece_ok (t, d, k) \<Longrightarrow> length (piece_bytes (t, d, k)) = 12 + length d"
  by simp

lemma slice_piece:
  assumes "piece_ok (t, d, k)"
  shows "be_val (slice (pre @ piece_bytes (t, d, k) @ post) (length pre) (length pre + 4)) = length d"
    and "slice (pre @ piece_bytes (t, d, k) @ post) (length pre + 4) (length pre + 8) = t"
    and "slice (pre @ piece_bytes (t, d, k) @ post) (length pre + 8) (length pre + 8 + length d) = d"
  using assms be_val_be_bytes_id [of "length d" 4] by (simp_all add: slice_def)

lemma png_read_piece:
  assumes "piece_ok (t, d, k)" and "length pre + length (piece_bytes (t, d, k)) + length post \<le> usize_max"
  shows "png_read_chunk (pre @ piece_bytes (t, d, k) @ post) (length pre)
    = Inr \<lparr>pc_type = t, pc_start = length pre, pc_data_start = length pre + 8, pc_data_len = length d,
           pc_end = length pre + 12 + length d\<rparr>"
  using assms slice_piece [OF assms(1), of pre post] unfolding png_read_chunk_eq Let_def by simp

lemma png_chunks_placed:
  assumes "list_all piece_ok ps" and "ends_well ps rest"
    and "length pre + length (concat (map piece_bytes ps)) + length rest \<le> usize_max"
  shows "png_chunks (pre @ concat (map piece_bytes ps) @ rest) (length pre) = Inr (placed (length pre) ps)"
  using assms
proof (induction ps arbitrary: pre)
  case Nil
  then show ?case by (subst png_chunks.simps) (simp add: ends_well_def)
next
  case (Cons p ps)
  obtain t d k where p: "p = (t, d, k)" by (cases p)
  let ?rest = "concat (map piece_bytes ps) @ rest" and ?u = "piece_bytes (t, d, k)"
  have ok: "piece_ok (t, d, k)" using Cons.prems(1) p by simp
  define data where "data = pre @ ?u @ ?rest"
  let ?c = "\<lparr>pc_type = t, pc_start = length pre, pc_data_start = length pre + 8, pc_data_len = length d,
           pc_end = length pre + 12 + length d\<rparr>"
  have read: "png_read_chunk data (length pre) = Inr ?c"
    unfolding data_def using Cons.prems(3) p by (intro png_read_piece ok) simp
  have fits: "length pre + 8 \<le> length data" using ok by (simp add: data_def)
  show ?case
  proof (cases "t = TYPE_IEND")
    case True
    with Cons.prems(2) p have "ps = []" by (auto simp: ends_well_def split: if_splits)
    with True read fits p show ?thesis
      unfolding data_def by (subst png_chunks.simps) simp
  next
    case False
    have "ends_well ps rest" using Cons.prems(2) False p by (auto simp: ends_well_def split: if_splits)
    then have "png_chunks data (length pre + 12 + length d) = Inr (placed (length pre + 12 + length d) ps)"
      using Cons.IH [of "pre @ ?u"] Cons.prems ok p by (simp add: data_def add.assoc)
    with False read fits have "png_chunks data (length pre) = Inr (placed (length pre) (p # ps))"
      by (subst png_chunks.simps) (simp add: p)
    then show ?thesis by (simp add: data_def p)
  qed
qed

lemma png_chunks_pieces:
  assumes "png_chunks data pos = Inr cs" and "pos \<le> length data"
  shows "\<exists>ps rest. drop pos data = concat (map piece_bytes ps) @ rest \<and> list_all piece_ok ps
    \<and> ends_well ps rest \<and> cs = placed pos ps"
  using assms
proof (induction cs arbitrary: pos)
  case Nil
  then have "length data < pos + 8" by (simp add: png_chunks_scan png.scan_Nil)
  then have "drop pos data = concat (map piece_bytes []) @ drop pos data \<and> list_all piece_ok []
      \<and> ends_well [] (drop pos data) \<and> [] = placed pos []" by (auto simp: ends_well_def)
  then show ?case by blast
next
  case (Cons c cs)
  then have read: "png_read_chunk data pos = Inr c"
    and rest: "if pc_type c = TYPE_IEND then cs = [] else png_chunks data (pc_end c) = Inr cs"
    by (auto simp: png_chunks_scan png.scan_Cons)
  define n where "n = be_val (slice data pos (pos + 4))"
  have c: "c = \<lparr>pc_type = slice data (pos + 4) (pos + 8), pc_start = pos, pc_data_start = pos + 8,
      pc_data_len = n, pc_end = pos + 12 + n\<rparr>" and n: "pos + 12 + n \<le> length data"
    using read by (auto simp: png_read_chunk_eq Let_def n_def)
  let ?p = "(slice data (pos + 4) (pos + 8), slice data (pos + 8) (pos + 8 + n), slice data (pos + 8 + n) (pos + 12 + n))"
  have "be_bytes 4 n = slice data pos (pos + 4)"
    using be_bytes_be_val [of "slice data pos (pos + 4)"] n by (simp add: n_def)
  then have "piece_bytes ?p = slice data pos (pos + 12 + n)"
    using n slice_concat [of pos "pos + 4" "pos + 8" data] slice_concat [of pos "pos + 8" "pos + 8 + n" data]
      slice_concat [of pos "pos + 8 + n" "pos + 12 + n" data] by (simp add: append_assoc [symmetric] del: append_assoc)
  then have split: "drop pos data = piece_bytes ?p @ drop (pos + 12 + n) data"
    by (simp add: slice_def del: piece_bytes.simps) (metis append_take_drop_id drop_drop add.commute add.assoc)
  have "n < 2 ^ 32" using be_val_bound [of "slice data pos (pos + 4)"] n by (simp add: n_def)
  then have ok: "piece_ok ?p" using n by simp
  show ?case
  proof (cases "pc_type c = TYPE_IEND")
    case True
    with rest c split ok n show ?thesis
      by (intro exI [of _ "[?p]"] exI [of _ "drop (pos + 12 + n) data"])
        (simp add: ends_well_def del: piece_bytes.simps)
  next
    case False
    with rest c have "png_chunks data (pos + 12 + n) = Inr cs" by simp
    with Cons.IH [OF this n] obtain ps rest' where ps: "drop (pos + 12 + n) data = concat (map piece_bytes ps) @ rest'"
      "list_all piece_ok ps" "ends_well ps rest'" "cs = placed (pos + 12 + n) ps" by blast
    with False c split ok n show ?thesis
      by (intro exI [of _ "?p # ps"] exI [of _ rest'])
        (auto simp: ends_well_def simp del: piece_bytes.simps piece_ok.simps)
  qed
qed

section \<open>Stripping and embedding\<close>

definition carrier :: "png_piece \<Rightarrow> bool" where
  "carrier p \<longleftrightarrow> fst p = TYPE_CABX"

definition strip_step :: "bytes \<Rightarrow> bytes \<times> nat \<Rightarrow> png_chunk \<Rightarrow> bytes \<times> nat" where
  "strip_step asset = (\<lambda>(out, cursor) c.
     if pc_type c = TYPE_CABX then (out @ slice asset cursor (pc_start c), pc_end c) else (out, cursor))"

lemma strip_placed:
  assumes "drop pos asset = concat (map piece_bytes ps) @ rest" and "list_all piece_ok ps"
    and "cursor \<le> pos" and "pos \<le> length asset"
  shows "(case foldl (strip_step asset) (out, cursor) (placed pos ps) of (o', c') \<Rightarrow> o' @ drop c' asset)
    = out @ slice asset cursor pos @ concat (map piece_bytes (filter (Not \<circ> carrier) ps)) @ rest"
  using assms
proof (induction ps arbitrary: pos cursor out)
  case Nil
  have "drop cursor asset = slice asset cursor pos @ drop pos asset"
    using Nil.prems(3) by (simp add: slice_def) (metis append_take_drop_id drop_drop le_add_diff_inverse2)
  with Nil.prems(1) show ?case by simp
next
  case (Cons p ps)
  obtain t d k where p: "p = (t, d, k)" by (cases p)
  let ?pos = "pos + 12 + length d"
  have ok: "piece_ok (t, d, k)" using Cons.prems(2) p by simp
  have u: "slice asset pos ?pos = piece_bytes (t, d, k)"
    using Cons.prems(1) length_piece [OF ok] p by (simp add: slice_def add.assoc del: piece_bytes.simps)
  have d: "drop ?pos asset = concat (map piece_bytes ps) @ rest"
  proof -
    have "drop ?pos asset = drop (12 + length d) (drop pos asset)" by (simp add: add.commute add.left_commute)
    then show ?thesis using Cons.prems(1) length_piece [OF ok] p by (simp del: piece_bytes.simps drop_drop)
  qed
  have len: "?pos \<le> length asset"
  proof -
    have "length (drop pos asset) \<ge> 12 + length d" unfolding Cons.prems(1) p using ok by simp
    then show ?thesis using Cons.prems(4) by simp
  qed
  have "slice asset cursor ?pos = slice asset cursor pos @ piece_bytes (t, d, k)"
    using slice_concat [of cursor pos ?pos asset] Cons.prems(3) u by simp
  with Cons.IH [OF d _ _ len, of "pos + 12 + length d" "out @ slice asset cursor pos"]
    Cons.IH [OF d _ _ len, of cursor out] Cons.prems p
  show ?case
    by (auto simp: strip_step_def carrier_def slice_def simp del: piece_bytes.simps)
qed

lemma png_strip_pieces:
  assumes "png_strip asset = Inr clean"
  shows "\<exists>ps rest. asset = SIGNATURE @ concat (map piece_bytes ps) @ rest \<and> list_all piece_ok ps
    \<and> ends_well ps rest
    \<and> clean = SIGNATURE @ concat (map piece_bytes (filter (Not \<circ> carrier) ps)) @ rest"
proof -
  from assms obtain cs where w: "png_walk_chunks asset = Inr cs"
    and clean: "clean = (case foldl (strip_step asset) (take 8 asset, 8) cs of (o', c') \<Rightarrow> o' @ drop c' asset)"
    by (auto simp: png_strip_def strip_step_def res_bind_eq_Inr case_prod_beta)
  note c = png_walk_chunks_ok [OF w]
  from png_chunks_pieces [OF c(3,2)] obtain ps rest where ps: "drop 8 asset = concat (map piece_bytes ps) @ rest"
    "list_all piece_ok ps" "ends_well ps rest" "cs = placed 8 ps" by blast
  have "asset = SIGNATURE @ drop 8 asset" using c(1) append_take_drop_id [of 8 asset] by simp
  moreover have "clean = SIGNATURE @ slice asset 8 8 @ concat (map piece_bytes (filter (Not \<circ> carrier) ps)) @ rest"
    using strip_placed [OF ps(1,2), of 8 SIGNATURE] c(1,2) clean ps(4) by simp
  ultimately show ?thesis using ps by (intro exI [of _ ps] exI [of _ rest]) (simp add: slice_def)
qed

lemma ends_well_filter:
  assumes "ends_well ps rest"
  shows "ends_well (filter (Not \<circ> carrier) ps) rest"
proof (cases "ps = []")
  case False
  then obtain qs p where ps: "ps = qs @ [p]" by (cases ps rule: rev_cases) auto
  have "\<forall>q \<in> set qs. fst q \<noteq> TYPE_IEND" using assms ps by (simp add: ends_well_def)
  moreover have "fst p = TYPE_IEND \<Longrightarrow> \<not> carrier p" by (simp add: carrier_def TYPE_IEND_def TYPE_CABX_def ascii_def)
  ultimately show ?thesis using assms ps by (fastforce simp: ends_well_def butlast_append dest: in_set_butlastD)
qed (use assms in simp)

lemma png_walk_pieces:
  assumes "list_all piece_ok ps" and "ends_well ps rest"
    and "length (SIGNATURE @ concat (map piece_bytes ps) @ rest) \<le> usize_max"
  shows "png_walk_chunks (SIGNATURE @ concat (map piece_bytes ps) @ rest) = Inr (placed 8 ps)"
proof -
  have "length SIGNATURE = 8" by (simp add: SIGNATURE_def)
  with png_chunks_placed [OF assms(1,2), of SIGNATURE] assms(3) show ?thesis
    by (simp add: png_walk_chunks_def png_check_signature_def)
qed

lemma map_type_placed: "map pc_type (placed pos ps) = map fst ps"
  by (induction pos ps rule: placed.induct) auto

lemma find_placed:
  "find (\<lambda>c. pc_type c = t) (placed pos (ps @ q # rs)) =
     (if \<exists>p \<in> set ps. fst p = t then find (\<lambda>c. pc_type c = t) (placed pos ps)
      else if fst q = t then Some (hd (placed (pos + sum_list (map (\<lambda>(t, d, k). 12 + length d) ps)) [q]))
      else find (\<lambda>c. pc_type c = t) (placed (pos + sum_list (map (\<lambda>(t, d, k). 12 + length d) (ps @ [q]))) rs))"
proof (induction ps arbitrary: pos)
  case Nil
  then show ?case by (cases q) (auto simp: add.assoc)
next
  case (Cons p ps)
  obtain t' d k where "p = (t', d, k)" by (cases p)
  with Cons show ?case by (simp add: add.assoc)
qed

lemma length_pieces:
  "list_all piece_ok ps \<Longrightarrow> sum_list (map (\<lambda>(t, d, k). 12 + length d) ps) = length (concat (map piece_bytes ps))"
  by (induction ps) auto

text \<open>The manifest that was embedded is the one that is read back, whatever the asset carried before.\<close>

lemma png_extract_embed_aux:
  assumes embed: "png_embed asset store = Inr out" and store: "length store < 2 ^ 32"
    and out: "length out \<le> usize_max"
  shows "png_extract out = Inr (Some store)"
proof -
  from embed obtain clean cs at where strip: "png_strip asset = Inr clean" and walk: "png_walk_chunks clean = Inr cs"
    and at: "map_option pc_start (find (\<lambda>c. pc_type c = TYPE_IEND) cs) = Some at"
    and o: "out = take at clean @ png_build_chunk TYPE_CABX store @ drop at clean"
    by (auto simp: png_embed_def res_bind_eq_Inr ok_or_eq_Inr foldl_first)
  from png_strip_pieces [OF strip] obtain ps0 rest where ps0: "list_all piece_ok ps0" "ends_well ps0 rest"
    and clean: "clean = SIGNATURE @ concat (map piece_bytes (filter (Not \<circ> carrier) ps0)) @ rest" by blast
  define ps where "ps = filter (Not \<circ> carrier) ps0"
  have ps: "list_all piece_ok ps" "ends_well ps rest" "\<forall>p \<in> set ps. \<not> carrier p"
    using ps0 ends_well_filter [OF ps0(2)] by (auto simp: ps_def list_all_iff)
  have cl: "clean = SIGNATURE @ concat (map piece_bytes ps) @ rest" by (simp add: clean ps_def)
  have "length clean \<le> length out" by (simp add: o)
  then have cs: "cs = placed 8 ps" using png_walk_pieces [OF ps(1,2)] walk out cl by simp
  have "\<exists>p \<in> set ps. fst p = TYPE_IEND"
  proof -
    from at obtain c where "c \<in> set cs" "pc_type c = TYPE_IEND" by (auto dest: find_SomeD)
    then have "TYPE_IEND \<in> set (map pc_type cs)" by force
    then show ?thesis unfolding cs map_type_placed by force
  qed
  then obtain qs iend where qs: "ps = qs @ [iend]" "fst iend = TYPE_IEND" "\<forall>q \<in> set qs. fst q \<noteq> TYPE_IEND"
    using ps(2) by (cases ps rule: rev_cases) (auto simp: ends_well_def)
  have at8: "at = 8 + length (concat (map piece_bytes qs))"
    using at qs ps(1) length_pieces [of qs] unfolding cs qs(1) find_placed by (cases iend) auto
  define piece where "piece = (TYPE_CABX, store, be_bytes 4 (unat (crc32_finalize (crc_update (crc_update 0xFFFFFFFF TYPE_CABX) store))))"
  have piece: "png_build_chunk TYPE_CABX store = piece_bytes piece" "piece_ok piece" "carrier piece"
    using store by (simp_all add: piece_def png_build_chunk_def carrier_def TYPE_CABX_def)
  have sig: "length SIGNATURE = 8" by (simp add: SIGNATURE_def)
  let ?ps = "qs @ [piece, iend]"
  have o': "out = SIGNATURE @ concat (map piece_bytes ?ps) @ rest"
    using at8 sig by (simp add: o cl qs(1) piece(1))
  have ok: "list_all piece_ok ?ps" "ends_well ?ps rest"
    using ps(1,2) qs piece(2,3) by (auto simp: ends_well_def butlast_append carrier_def TYPE_IEND_def TYPE_CABX_def ascii_def)
  have "png_walk_chunks out = Inr (placed 8 ?ps)" using png_walk_pieces [OF ok] out o' by simp
  moreover have "find (\<lambda>c. pc_type c = TYPE_CABX) (placed 8 ?ps)
      = Some \<lparr>pc_type = TYPE_CABX, pc_start = at, pc_data_start = at + 8, pc_data_len = length store, pc_end = at + 12 + length store\<rparr>"
    using ps(1,3) qs(1) length_pieces [of qs] at8 piece(3) find_placed [of TYPE_CABX 8 qs piece "[iend]"]
    by (auto simp: carrier_def piece_def list_all_iff)
  moreover have "slice out (at + 8) (at + 8 + length store) = store"
  proof -
    have "length (take at clean) = at" using at8 sig by (simp add: cl qs(1))
    with slice_piece(3) [of TYPE_CABX store "snd (snd piece)" "take at clean" "drop at clean"] piece o show ?thesis
      by (simp add: piece_def del: piece_bytes.simps)
  qed
  ultimately show ?thesis by (simp add: png_extract_def foldl_first)
qed

end
