(* ===== verification/Format_Riff.thy ===== *)
theory Format_Riff
  imports Format_Png
begin

text \<open>
  RIFF (WAV, AVI, WebP): \<^verbatim>\<open>c2pa-formats/riff.rs\<close>. The manifest store is the data of a \<open>C2PA\<close> chunk.
  The segmentation for the general box hash walks every \<open>RIFF\<close> root and its direct sub-chunks and
  accounts for every byte of the file.
\<close>

section \<open>Chunks\<close>

definition RIFF :: bytes where "RIFF = ascii ''RIFF''"
definition CHUNK_C2PA :: bytes where "CHUNK_C2PA = ascii ''C2PA''"

definition check_riff :: "bytes \<Rightarrow> format_error + unit" where
  "check_riff data =
     (if length data < 12 \<or> take 4 data \<noteq> RIFF
      then Inl (BadStructure Riff ''missing RIFF header'') else Inr ())"

record riff_chunk =
  rc_id :: bytes
  rc_start :: nat
  rc_data_start :: nat
  rc_data_len :: nat
  rc_end :: nat

text \<open>The end of a chunk's data, and the end with the pad byte that follows an odd length.\<close>

definition padded :: "nat \<Rightarrow> nat \<Rightarrow> nat \<Rightarrow> nat" where
  "padded len data_end limit = (if len mod 2 = 1 \<and> data_end < limit then data_end + 1 else data_end)"

definition riff_read_chunk :: "bytes \<Rightarrow> nat \<Rightarrow> format_error + riff_chunk" where
  "riff_read_chunk data pos =
     (let ident = slice data pos (pos + 4)
      in res_bind (ok_or (le_u32 data (pos + 4)) (Truncated Riff)) (\<lambda>len.
           let data_start = pos + 8
           in res_bind (ok_or (add_within data_start len (length data)) (Truncated Riff)) (\<lambda>data_end.
                Inr \<lparr>rc_id = ident, rc_start = pos, rc_data_start = data_start, rc_data_len = len,
                     rc_end = padded len data_end (length data)\<rparr>)))"

lemma riff_read_chunk_ok:
  assumes "riff_read_chunk data pos = Inr c"
  shows "rc_start c = pos" and "rc_data_start c = pos + 8" and "pos + 8 + rc_data_len c \<le> rc_end c"
    and "rc_end c \<le> length data"
  using assms by (auto simp: riff_read_chunk_def Let_def res_simps padded_def)

function riff_chunks :: "bytes \<Rightarrow> nat \<Rightarrow> format_error + riff_chunk list" where
  "riff_chunks data pos =
     (if pos + 8 \<le> length data then
        res_bind (riff_read_chunk data pos) (\<lambda>c.
        res_bind (riff_chunks data (rc_end c)) (\<lambda>cs. Inr (c # cs)))
      else Inr [])"
  by pat_completeness auto
termination
proof (relation "measure (\<lambda>(data, pos). length data - pos)", goal_cases)
  case (2 data pos c)
  then show ?case using riff_read_chunk_ok [of data pos c] by simp
qed simp

declare riff_chunks.simps [simp del]

definition riff_walk_chunks :: "bytes \<Rightarrow> format_error + riff_chunk list" where
  "riff_walk_chunks data = res_bind (check_riff data) (\<lambda>_. riff_chunks data 12)"

section \<open>Operations\<close>

definition riff_extract :: "bytes \<Rightarrow> format_error + bytes option" where
  "riff_extract data =
     res_bind (riff_walk_chunks data) (\<lambda>cs.
       Inr (foldl (\<lambda>found c. if rc_id c = CHUNK_C2PA \<and> found = None
                             then Some (slice data (rc_data_start c) (rc_data_start c + rc_data_len c))
                             else found) None cs))"

definition set_riff_size :: "bytes \<Rightarrow> bytes" where
  "set_riff_size out = take 4 out @ le_bytes 4 (unat (of_nat (length out - 8) :: u32)) @ drop 8 out"

definition riff_strip :: "bytes \<Rightarrow> format_error + bytes" where
  "riff_strip asset =
     res_bind (check_riff asset) (\<lambda>_.
     res_bind (riff_walk_chunks asset) (\<lambda>cs.
       case foldl (\<lambda>(out, cursor) c. if rc_id c = CHUNK_C2PA
                                      then (out @ slice asset cursor (rc_start c), rc_end c)
                                      else (out, cursor)) (take 12 asset, 12) cs of
         (out, cursor) \<Rightarrow> Inr (set_riff_size (out @ drop cursor asset))))"

definition build_c2pa_chunk :: "bytes \<Rightarrow> format_error + bytes" where
  "build_c2pa_chunk manifest_store =
     (if length manifest_store > 2 ^ 32 - 1
      then Inl (ManifestTooLarge Riff (2 ^ 32 - 1) (length manifest_store))
      else Inr (CHUNK_C2PA @ le_bytes 4 (length manifest_store) @ manifest_store
                @ (if length manifest_store mod 2 = 1 then [0] else [])))"

definition riff_embed :: "bytes \<Rightarrow> bytes \<Rightarrow> format_error + bytes" where
  "riff_embed asset manifest_store =
     res_bind (build_c2pa_chunk manifest_store) (\<lambda>carrier.
     res_bind (riff_strip asset) (\<lambda>clean.
       let out = clean @ (if length clean mod 2 = 1 then [0] else []) @ carrier
       in Inr (set_riff_size out)))"

definition riff_exclusions :: "bytes \<Rightarrow> format_error + data_hash_exclusion list" where
  "riff_exclusions data =
     res_bind (riff_walk_chunks data) (\<lambda>cs.
       Inr (foldl (\<lambda>ex c. if rc_id c = CHUNK_C2PA
                          then ex @ [\<lparr>ex_start = rc_start c, ex_length = rc_end c - rc_start c\<rparr>]
                          else ex) [] cs))"

section \<open>Segmentation\<close>

text \<open>The name of a sub-chunk: the list type of a \<open>LIST\<close>, else the chunk identifier.\<close>

definition riff_child_name :: "bytes \<Rightarrow> nat \<Rightarrow> nat \<Rightarrow> format_error + bytes" where
  "riff_child_name data child data_end =
     (let ident = slice data child (child + 4)
      in if ident = ascii ''LIST'' then
           res_bind (ok_or (add_within child 12 data_end)
                       (BadStructure Riff ''LIST chunk shorter than its list type identifier'')) (\<lambda>type_end.
             Inr (utf8_lossy (slice data (child + 8) type_end)))
         else Inr (utf8_lossy ident))"

text \<open>One sub-chunk of a root that ends at \<open>riff_end\<close>: its span, already named.\<close>

definition riff_child :: "bytes \<Rightarrow> nat \<Rightarrow> nat \<Rightarrow> format_error + box_span" where
  "riff_child data riff_end child =
     res_bind (ok_or (le_u32 data (child + 4)) (Truncated Riff)) (\<lambda>len.
     res_bind (ok_or (case checked_add child 8 of
                        Some start \<Rightarrow> add_within start len riff_end | None \<Rightarrow> None) (Truncated Riff)) (\<lambda>data_end.
     res_bind (riff_child_name data child data_end) (\<lambda>name.
       Inr (contiguous name child (padded len data_end riff_end)))))"

lemma riff_child_ok:
  assumes "riff_child data riff_end child = Inr b"
  shows "\<exists>name e. b = contiguous name child e \<and> child + 8 \<le> e \<and> e \<le> riff_end"
proof -
  from assms obtain len name where "b = contiguous name child (padded len (child + 8 + len) riff_end)"
    and "child + 8 + len \<le> riff_end"
    by (auto simp: riff_child_def res_simps checked_add_def split: if_splits option.splits)
  then show ?thesis
    by (intro exI [of _ name] exI [of _ "padded len (child + 8 + len) riff_end"]) (auto simp: padded_def)
qed

lemma bs_end_contiguous [simp]: "bs_end (contiguous n s e) = e"
  by (simp add: bs_end_def contiguous_def)

function riff_children :: "bytes \<Rightarrow> nat \<Rightarrow> box_span list \<Rightarrow> nat \<Rightarrow> format_error + (box_span list \<times> nat)" where
  "riff_children data riff_end spans child =
     (if child + 8 \<le> riff_end then
        res_bind (riff_child data riff_end child) (\<lambda>b.
          riff_children data riff_end (spans @ [b]) (bs_end b))
      else Inr (spans, child))"
  by pat_completeness auto
termination
proof (relation "measure (\<lambda>(data, riff_end, spans, child). riff_end - child)", goal_cases)
  case (2 data riff_end spans child b)
  then show ?case using riff_child_ok [of data riff_end child b] by auto
qed simp

declare riff_children.simps [simp del]

function riff_roots :: "bytes \<Rightarrow> box_span list \<Rightarrow> nat \<Rightarrow> format_error + (box_span list \<times> nat)" where
  "riff_roots data spans pos =
     (if pos + 12 \<le> length data \<and> slice data pos (pos + 4) = RIFF then
        res_bind (ok_or (le_u32 data (pos + 4)) (Truncated Riff)) (\<lambda>declared.
        res_bind (ok_or (case checked_add pos 8 of
                           Some start \<Rightarrow> add_within start declared (length data) | None \<Rightarrow> None)
                    (Truncated Riff)) (\<lambda>riff_end.
          let name = utf8_lossy (slice data (pos + 8) (pos + 12))
          in res_bind (riff_children data riff_end (spans @ [contiguous name pos (pos + 12)]) (pos + 12))
               (\<lambda>(spans', child).
                  if child \<noteq> riff_end
                  then Inl (BadStructure Riff ''RIFF chunk content does not divide into whole sub-chunks'')
                  else riff_roots data spans' riff_end)))
      else Inr (spans, pos))"
  by pat_completeness auto
termination
  by (relation "measure (\<lambda>(data, spans, pos). length data - pos)")
    (auto simp: res_simps checked_add_def split: if_splits)

declare riff_roots.simps [simp del]

definition riff_box_spans :: "bytes \<Rightarrow> format_error + box_span list" where
  "riff_box_spans data =
     res_bind (check_riff data) (\<lambda>_.
     res_bind (riff_roots data [] 0) (\<lambda>(spans, pos).
       Inr (if pos < length data then spans @ [contiguous (ascii ''c2pa.after'') pos (length data)] else spans)))"

section \<open>The chunk scanner\<close>

interpretation riff: scanner "riff_read_chunk data" rc_end "length data" "\<lambda>pos. pos + 8 \<le> length data"
    "\<lambda>_. False" for data
  by unfold_locales (use riff_read_chunk_ok in fastforce)+

lemma riff_chunks_scan: "riff_chunks data pos = riff.scan data pos"
proof (induction data pos rule: riff_chunks.induct)
  case (1 data pos)
  then show ?case
    by (subst riff_chunks.simps, subst riff.scan.simps) (auto intro!: res_bind_cong)
qed

lemma riff_chunk_spans:
  "riff_chunks data pos = Inr cs \<Longrightarrow> riff.chunk_spans pos cs = map (\<lambda>c. (rc_start c, rc_end c)) cs"
proof (induction cs arbitrary: pos)
  case (Cons c cs)
  then have "riff_read_chunk data pos = Inr c" "riff_chunks data (rc_end c) = Inr cs"
    by (auto simp: riff_chunks_scan riff.scan_Cons)
  with Cons.IH [of "rc_end c"] show ?case using riff_read_chunk_ok(1) by simp
qed simp

lemma riff_exclusions_ok:
  assumes "riff_exclusions data = Inr ex"
  shows "sorted_wrt (\<lambda>x y. ex_start x + ex_length x \<le> ex_start y) ex"
    and "\<forall>x \<in> set ex. 12 \<le> ex_start x \<and> 0 < ex_length x \<and> ex_start x + ex_length x \<le> length data"
proof -
  from assms obtain cs where len: "12 \<le> length data" and cs: "riff_chunks data 12 = Inr cs"
    and ex: "ex = map (\<lambda>c. \<lparr>ex_start = rc_start c, ex_length = rc_end c - rc_start c\<rparr>) (filter (\<lambda>c. rc_id c = CHUNK_C2PA) cs)"
    by (auto simp: riff_exclusions_def riff_walk_chunks_def check_riff_def res_simps foldl_filter_map split: if_splits)
  let ?xs = "map (\<lambda>c. (rc_start c, rc_end c)) (filter (\<lambda>c. rc_id c = CHUNK_C2PA) cs)"
  have sub: "subseq ?xs (riff.chunk_spans 12 cs)"
    unfolding riff_chunk_spans [OF cs] by (rule subseq_filter_map)
  note sel = riff.scan_selection [OF cs [unfolded riff_chunks_scan] len sub]
  have each: "rc_start c < rc_end c" if "c \<in> set cs" "rc_id c = CHUNK_C2PA" for c
    using sel(2) that by fastforce
  from sel(1) show "sorted_wrt (\<lambda>x y. ex_start x + ex_length x \<le> ex_start y) ex"
    unfolding ex sorted_wrt_map using each by (elim sorted_wrt_mono_rel [rotated]) fastforce
  from sel(2) show "\<forall>x \<in> set ex. 12 \<le> ex_start x \<and> 0 < ex_length x \<and> ex_start x + ex_length x \<le> length data"
    unfolding ex by fastforce
qed

section \<open>The segmentation covers the file\<close>

lemma riff_children_tiles:
  assumes "riff_children data riff_end spans child = Inr (spans', e)" and "seg_tiles 0 spans child"
    and "child \<le> riff_end"
  shows "seg_tiles 0 spans' e \<and> e \<le> riff_end"
  using assms
proof (induction data riff_end spans child rule: riff_children.induct)
  case (1 data riff_end spans child)
  show ?case
  proof (cases "child + 8 \<le> riff_end")
    case True
    with "1.prems"(1) obtain b where b: "riff_child data riff_end child = Inr b"
      "riff_children data riff_end (spans @ [b]) (bs_end b) = Inr (spans', e)"
      by (subst (asm) riff_children.simps) (auto simp: res_simps)
    from riff_child_ok [OF b(1)] obtain n x where "b = contiguous n child x" "child + 8 \<le> x" "x \<le> riff_end" by blast
    with "1.IH" [OF True b] seg_tiles_snoc [OF "1.prems"(2), of x n] show ?thesis by simp
  next
    case False
    with "1.prems" show ?thesis by (subst (asm) riff_children.simps) auto
  qed
qed

lemma riff_roots_tiles:
  assumes "riff_roots data spans pos = Inr (spans', e)" and "seg_tiles 0 spans pos" and "pos \<le> length data"
  shows "seg_tiles 0 spans' e \<and> e \<le> length data"
  using assms
proof (induction data spans pos rule: riff_roots.induct)
  case (1 data spans pos)
  show ?case
  proof (cases "pos + 12 \<le> length data \<and> slice data pos (pos + 4) = RIFF")
    case True
    let ?n = "utf8_lossy (slice data (pos + 8) (pos + 12))"
    from "1.prems"(1) True obtain declared riff_end s1 where d: "ok_or (le_u32 data (pos + 4)) (Truncated Riff) = Inr declared"
      "ok_or (case checked_add pos 8 of Some start \<Rightarrow> add_within start declared (length data) | None \<Rightarrow> None) (Truncated Riff) = Inr riff_end"
      and ch: "riff_children data riff_end (spans @ [contiguous ?n pos (pos + 12)]) (pos + 12) = Inr (s1, riff_end)"
      and rest: "riff_roots data s1 riff_end = Inr (spans', e)"
      by (subst (asm) riff_roots.simps) (auto simp: res_simps Let_def split: if_splits)
    have re: "riff_end \<le> length data" using d(2) by (auto simp: res_simps split: option.splits)
    have "pos + 12 \<le> riff_end"
    proof (rule ccontr)
      assume "\<not> pos + 12 \<le> riff_end"
      then have "riff_children data riff_end (spans @ [contiguous ?n pos (pos + 12)]) (pos + 12)
          = Inr (spans @ [contiguous ?n pos (pos + 12)], pos + 12)"
        by (subst riff_children.simps) simp
      with ch \<open>\<not> pos + 12 \<le> riff_end\<close> show False by simp
    qed
    from riff_children_tiles [OF ch seg_tiles_snoc [OF "1.prems"(2)] this]
    have "seg_tiles 0 s1 riff_end" by simp
    from "1.IH" [OF True d refl ch refl _ rest this re] show ?thesis by simp
  next
    case False
    with "1.prems" show ?thesis by (subst (asm) riff_roots.simps) auto
  qed
qed

lemma riff_box_spans_ok:
  assumes "riff_box_spans data = Inr spans"
  shows "seg_tiles 0 spans (length data)"
proof -
  from assms obtain s pos where r: "riff_roots data [] 0 = Inr (s, pos)"
    and spans: "spans = (if pos < length data then s @ [contiguous (ascii ''c2pa.after'') pos (length data)] else s)"
    by (auto simp: riff_box_spans_def res_simps)
  from riff_roots_tiles [OF r] have "seg_tiles 0 s pos" "pos \<le> length data" by simp_all
  with spans show ?thesis by (auto intro: seg_tiles_snoc)
qed

end
