(* ===== verification/Format_Gif.thy ===== *)
theory Format_Gif
  imports Format_Common
begin

text \<open>
  GIF: \<^verbatim>\<open>c2pa-formats/gif.rs\<close>. The manifest store is split over the data sub-blocks of an Application
  Extension. Every reader loop runs over the same block structure; \<open>gif_image_end\<close> and
  \<open>gif_ext_header\<close> are the two block headers they have in common.
\<close>

section \<open>Blocks\<close>

definition EXTENSION_INTRODUCER :: byte where "EXTENSION_INTRODUCER = 0x21"
definition APP_EXTENSION_LABEL :: byte where "APP_EXTENSION_LABEL = 0xFF"
definition IMAGE_SEPARATOR :: byte where "IMAGE_SEPARATOR = 0x2C"
definition TRAILER :: byte where "TRAILER = 0x3B"
definition APP_BLOCK_SIZE :: nat where "APP_BLOCK_SIZE = 0x0B"
definition APP_ID :: bytes where "APP_ID = ascii ''C2PA_GIF'' @ [1, 0, 0]"

definition gif_get :: "bytes \<Rightarrow> nat \<Rightarrow> format_error + byte" where
  "gif_get data pos = ok_or (nth_opt data pos) (Truncated Gif)"

definition gif_check_header :: "bytes \<Rightarrow> format_error + unit" where
  "gif_check_header data =
     (if length data < 13 \<or> (take 6 data \<noteq> ascii ''GIF87a'' \<and> take 6 data \<noteq> ascii ''GIF89a'')
      then Inl (BadStructure Gif ''missing GIF signature'') else Inr ())"

text \<open>The size of a colour table announced by a packed field.\<close>

definition color_table :: "byte \<Rightarrow> nat" where
  "color_table packed = (if packed AND 0x80 \<noteq> 0 then 3 * 2 ^ (unat (packed AND 0x07) + 1) else 0)"

definition gif_first_block_offset :: "bytes \<Rightarrow> format_error + nat" where
  "gif_first_block_offset data =
     res_bind (gif_check_header data) (\<lambda>_.
       let off = 13 + color_table (data ! 10)
       in if off > length data then Inl (Truncated Gif) else Inr off)"

function gif_skip_subblocks :: "bytes \<Rightarrow> nat \<Rightarrow> format_error + nat" where
  "gif_skip_subblocks data pos =
     res_bind (gif_get data pos) (\<lambda>b.
       let len = unat b
       in if len = 0 then Inr (pos + 1)
          else res_bind (ok_or (add_within (pos + 1) len (length data)) (Truncated Gif)) (\<lambda>e.
                 gif_skip_subblocks data e))"
  by pat_completeness auto
termination
  by (relation "measure (\<lambda>(data, pos). length data - pos)") (auto simp: gif_get_def res_simps)

function gif_read_subblocks :: "bytes \<Rightarrow> bytes \<Rightarrow> nat \<Rightarrow> format_error + (bytes \<times> nat)" where
  "gif_read_subblocks data out pos =
     res_bind (gif_get data pos) (\<lambda>b.
       let len = unat b
       in if len = 0 then Inr (out, pos + 1)
          else res_bind (ok_or (add_within (pos + 1) len (length data)) (Truncated Gif)) (\<lambda>e.
                 gif_read_subblocks data (out @ slice data (pos + 1) e) e))"
  by pat_completeness auto
termination
  by (relation "measure (\<lambda>(data, out, pos). length data - pos)") (auto simp: gif_get_def res_simps)

declare gif_skip_subblocks.simps [simp del] gif_read_subblocks.simps [simp del]

text \<open>An image descriptor at \<open>pos\<close>: where its colour table ends, and where its data ends.\<close>

definition gif_image_end :: "bytes \<Rightarrow> nat \<Rightarrow> format_error + (nat \<times> nat)" where
  "gif_image_end data pos =
     res_bind (gif_get data (pos + 9)) (\<lambda>packed.
       let descriptor_end = pos + 10 + color_table packed
       in res_bind (ok_or (add_within descriptor_end 1 (length data)) (Truncated Gif)) (\<lambda>data_start.
          res_bind (gif_skip_subblocks data data_start) (\<lambda>e. Inr (descriptor_end, e))))"

text \<open>An extension at \<open>pos\<close>: its label, whether it is the C2PA application, and its sub-blocks.\<close>

definition gif_ext_header :: "bytes \<Rightarrow> nat \<Rightarrow> format_error + (byte \<times> bool \<times> nat)" where
  "gif_ext_header data pos =
     res_bind (gif_get data (pos + 1)) (\<lambda>label.
       let sub_start = pos + 2
       in if label = APP_EXTENSION_LABEL then
            res_bind (gif_get data sub_start) (\<lambda>b.
              let id_len = unat b; id_start = sub_start + 1
              in res_bind (ok_or (add_within id_start id_len (length data)) (Truncated Gif)) (\<lambda>id_end.
                   Inr (label, id_len = APP_BLOCK_SIZE \<and> slice data id_start id_end = APP_ID, id_end)))
          else Inr (label, False, sub_start))"

lemma gif_skip_subblocks_ok: "gif_skip_subblocks data pos = Inr e \<Longrightarrow> pos < e \<and> e \<le> length data"
proof (induction data pos rule: gif_skip_subblocks.induct)
  case (1 data pos)
  from "1.prems" obtain b where b: "gif_get data pos = Inr b" by (subst (asm) gif_skip_subblocks.simps) (auto simp: res_simps)
  then have pos: "pos < length data" by (auto simp: gif_get_def res_simps)
  show ?case
  proof (cases "unat b = 0")
    case True
    with "1.prems" b pos show ?thesis by (subst (asm) gif_skip_subblocks.simps) auto
  next
    case False
    with "1.prems" b obtain x where x: "ok_or (add_within (pos + 1) (unat b) (length data)) (Truncated Gif) = Inr x"
      "gif_skip_subblocks data x = Inr e"
      by (subst (asm) gif_skip_subblocks.simps) (auto simp: res_bind_eq_Inr Let_def)
    from "1.IH" [OF b refl False x] x(1) show ?thesis by (auto simp: res_simps)
  qed
qed

lemma gif_read_subblocks_skip:
  "gif_read_subblocks data out pos = Inr (p, e) \<Longrightarrow> gif_skip_subblocks data pos = Inr e"
proof (induction data out pos rule: gif_read_subblocks.induct)
  case (1 data out pos)
  from "1.prems" obtain b where b: "gif_get data pos = Inr b" by (subst (asm) gif_read_subblocks.simps) (auto simp: res_simps)
  show ?case
  proof (cases "unat b = 0")
    case True
    with "1.prems" b show ?thesis
      by (subst (asm) gif_read_subblocks.simps) (subst gif_skip_subblocks.simps, auto)
  next
    case False
    with "1.prems" b obtain x where x: "ok_or (add_within (pos + 1) (unat b) (length data)) (Truncated Gif) = Inr x"
      "gif_read_subblocks data (out @ slice data (pos + 1) x) x = Inr (p, e)"
      by (subst (asm) gif_read_subblocks.simps) (auto simp: res_bind_eq_Inr Let_def)
    from "1.IH" [OF b refl False x] False b x(1) show ?thesis
      by (subst gif_skip_subblocks.simps) (simp add: Let_def)
  qed
qed

lemma gif_image_end_ok: "gif_image_end data pos = Inr (d, e) \<Longrightarrow> pos + 10 \<le> d \<and> d < e \<and> e \<le> length data"
  by (auto simp: gif_image_end_def Let_def res_simps dest!: gif_skip_subblocks_ok)

lemma gif_ext_header_ok: "gif_ext_header data pos = Inr (l, c, s) \<Longrightarrow> pos + 2 \<le> s"
  by (auto simp: gif_ext_header_def Let_def res_simps split: if_splits)

section \<open>Operations\<close>

definition gif_block_error :: format_error where
  "gif_block_error = BadStructure Gif ''unexpected GIF block''"

function gif_find :: "bytes \<Rightarrow> (nat \<times> nat \<times> bytes) list \<Rightarrow> nat \<Rightarrow> format_error + (nat \<times> nat \<times> bytes) list" where
  "gif_find data found pos =
     (if pos < length data then
        if data ! pos = TRAILER then Inr found
        else if data ! pos = IMAGE_SEPARATOR then
          res_bind (gif_image_end data pos) (\<lambda>(_, e). gif_find data found e)
        else if data ! pos = EXTENSION_INTRODUCER then
          res_bind (gif_ext_header data pos) (\<lambda>(label, is_c2pa, sub_start).
            if is_c2pa then
              res_bind (gif_read_subblocks data [] sub_start) (\<lambda>(payload, block_end).
                gif_find data (found @ [(pos, block_end, payload)]) block_end)
            else res_bind (gif_skip_subblocks data sub_start) (\<lambda>e. gif_find data found e))
        else Inl gif_block_error
      else Inr found)"
  by pat_completeness auto
termination
  by (relation "measure (\<lambda>(data, found, pos). length data - pos)")
    (auto dest!: gif_image_end_ok gif_ext_header_ok gif_skip_subblocks_ok gif_read_subblocks_skip)

declare gif_find.simps [simp del]

definition gif_find_c2pa_extensions :: "bytes \<Rightarrow> format_error + (nat \<times> nat \<times> bytes) list" where
  "gif_find_c2pa_extensions data = res_bind (gif_first_block_offset data) (\<lambda>pos. gif_find data [] pos)"

function gif_first_image :: "bytes \<Rightarrow> nat \<Rightarrow> format_error + nat option" where
  "gif_first_image data pos =
     (if pos < length data then
        if data ! pos = IMAGE_SEPARATOR then Inr (Some pos)
        else if data ! pos = TRAILER then Inr None
        else if data ! pos = EXTENSION_INTRODUCER then
          res_bind (gif_ext_header data pos) (\<lambda>(label, is_c2pa, sub_start).
          res_bind (gif_skip_subblocks data sub_start) (\<lambda>e. gif_first_image data e))
        else Inl gif_block_error
      else Inr None)"
  by pat_completeness auto
termination
  by (relation "measure (\<lambda>(data, pos). length data - pos)")
    (auto dest!: gif_ext_header_ok gif_skip_subblocks_ok)

declare gif_first_image.simps [simp del]

definition gif_first_image_descriptor :: "bytes \<Rightarrow> format_error + nat option" where
  "gif_first_image_descriptor data = res_bind (gif_first_block_offset data) (\<lambda>pos. gif_first_image data pos)"

definition gif_placement_error :: "bytes \<Rightarrow> format_error + string option" where
  "gif_placement_error data =
     res_bind (gif_first_image_descriptor data) (\<lambda>img.
       case img of
         None \<Rightarrow> Inr None
       | Some first_image \<Rightarrow>
           res_bind (gif_find_c2pa_extensions data) (\<lambda>found.
             Inr (if list_ex (\<lambda>(start, _, _). start > first_image) found
                  then Some ''GIF C2PA Application Extension follows the first image descriptor'' else None)))"

definition gif_extract :: "bytes \<Rightarrow> format_error + bytes option" where
  "gif_extract data =
     res_bind (gif_find_c2pa_extensions data) (\<lambda>found.
       Inr (case found of [] \<Rightarrow> None | (_, _, payload) # _ \<Rightarrow> Some payload))"

definition gif_strip :: "bytes \<Rightarrow> format_error + bytes" where
  "gif_strip asset =
     res_bind (gif_find_c2pa_extensions asset) (\<lambda>spans.
       if spans = [] then Inr asset
       else (case foldl (\<lambda>(out, cursor) (start, e, _). (out @ slice asset cursor start, e)) ([], 0) spans of
               (out, cursor) \<Rightarrow> Inr (out @ drop cursor asset)))"

definition build_application_extension :: "bytes \<Rightarrow> bytes" where
  "build_application_extension manifest_store =
     [EXTENSION_INTRODUCER, APP_EXTENSION_LABEL, of_nat APP_BLOCK_SIZE] @ APP_ID
     @ concat (map (\<lambda>chunk. of_nat (length chunk) # chunk) (chunks_of 255 manifest_store)) @ [0]"

definition gif_embed :: "bytes \<Rightarrow> bytes \<Rightarrow> format_error + bytes" where
  "gif_embed asset manifest_store =
     res_bind (gif_strip asset) (\<lambda>clean.
     res_bind (gif_first_block_offset clean) (\<lambda>at.
       Inr (take at clean @ build_application_extension manifest_store @ drop at clean)))"

definition gif_exclusions :: "bytes \<Rightarrow> format_error + data_hash_exclusion list" where
  "gif_exclusions data =
     res_bind (gif_find_c2pa_extensions data) (\<lambda>found.
       Inr (map (\<lambda>(start, e, _). \<lparr>ex_start = start, ex_length = e - start\<rparr>) found))"

text \<open>\<open>format!("21{label:02X}")\<close>\<close>

definition hex_digit :: "nat \<Rightarrow> byte" where
  "hex_digit n = (if n < 10 then of_nat (48 + n) else of_nat (55 + n))"

definition gif_ext_name :: "byte \<Rightarrow> bytes" where
  "gif_ext_name label = ascii ''21'' @ [hex_digit (unat label div 16), hex_digit (unat label mod 16)]"

function gif_spans :: "bytes \<Rightarrow> box_span list \<Rightarrow> nat \<Rightarrow> format_error + (box_span list \<times> nat \<times> bool)" where
  "gif_spans data spans pos =
     (if pos < length data then
        if data ! pos = TRAILER then Inr (spans @ [contiguous (ascii ''3B'') pos (pos + 1)], pos + 1, True)
        else if data ! pos = IMAGE_SEPARATOR then
          res_bind (gif_image_end data pos) (\<lambda>(descriptor_end, e).
            gif_spans data (spans @ [contiguous (ascii ''2C'') pos descriptor_end]
                            @ [contiguous (ascii ''TBID'') descriptor_end e]) e)
        else if data ! pos = EXTENSION_INTRODUCER then
          res_bind (gif_ext_header data pos) (\<lambda>(label, is_c2pa, sub_start).
          res_bind (gif_skip_subblocks data sub_start) (\<lambda>e.
            let name = (if label = APP_EXTENSION_LABEL
                        then (if is_c2pa then ascii ''C2PA'' else ascii ''21FF'') else gif_ext_name label)
            in gif_spans data (spans @ [contiguous name pos e]) e))
        else Inl gif_block_error
      else Inr (spans, pos, False))"
  by pat_completeness auto
termination
  by (relation "measure (\<lambda>(data, spans, pos). length data - pos)")
    (auto dest!: gif_image_end_ok gif_ext_header_ok gif_skip_subblocks_ok)

declare gif_spans.simps [simp del]

definition gif_box_spans :: "bytes \<Rightarrow> format_error + box_span list" where
  "gif_box_spans data =
     res_bind (gif_first_block_offset data) (\<lambda>first_block.
     res_bind (gif_spans data [contiguous (ascii ''GIF89a'') 0 6, contiguous (ascii ''LSD'') 6 first_block]
                 first_block) (\<lambda>(spans, pos, trailer_seen).
       if \<not> trailer_seen then Inl (Truncated Gif)
       else Inr (if pos < length data then spans @ [contiguous (ascii ''c2pa.after'') pos (length data)]
                 else spans)))"

section \<open>The segmentation covers the file\<close>

lemma gif_first_block_offset_ok:
  "gif_first_block_offset data = Inr off \<Longrightarrow> 13 \<le> off \<and> off \<le> length data"
  by (auto simp: gif_first_block_offset_def res_simps Let_def split: if_splits)

lemma gif_spans_tiles:
  assumes "gif_spans data spans pos = Inr (spans', e, t)" and "seg_tiles 0 spans pos" and "pos \<le> length data"
  shows "seg_tiles 0 spans' e \<and> e \<le> length data"
  using assms
proof (induction data spans pos rule: gif_spans.induct)
  case (1 data spans pos)
  show ?case
  proof (cases "pos < length data \<and> data ! pos \<noteq> TRAILER")
    case False
    with "1.prems" show ?thesis by (subst (asm) gif_spans.simps) (auto intro: seg_tiles_snoc split: if_splits)
  next
    case go: True
    show ?thesis
    proof (cases "data ! pos = IMAGE_SEPARATOR")
      case True
      with "1.prems"(1) go obtain d x where x: "gif_image_end data pos = Inr (d, x)"
        and rest: "gif_spans data (spans @ [contiguous (ascii ''2C'') pos d] @ [contiguous (ascii ''TBID'') d x]) x
          = Inr (spans', e, t)"
        by (subst (asm) gif_spans.simps) (auto simp: res_bind_eq_Inr)
      from gif_image_end_ok [OF x] seg_tiles_snoc [OF seg_tiles_snoc [OF "1.prems"(2)], of d x]
      have "seg_tiles 0 (spans @ [contiguous (ascii ''2C'') pos d] @ [contiguous (ascii ''TBID'') d x]) x" by simp
      with "1.IH"(1) [OF _ _ True x refl rest] go gif_image_end_ok [OF x] show ?thesis by simp
    next
      case img: False
      with "1.prems"(1) go have ext: "data ! pos = EXTENSION_INTRODUCER"
        by (subst (asm) gif_spans.simps) (auto split: if_splits)
      with "1.prems"(1) go img obtain l c s x where x: "gif_ext_header data pos = Inr (l, c, s)"
        "gif_skip_subblocks data s = Inr x" and
        rest: "gif_spans data (spans @ [contiguous (if l = APP_EXTENSION_LABEL
            then (if c then ascii ''C2PA'' else ascii ''21FF'') else gif_ext_name l) pos x]) x = Inr (spans', e, t)"
        by (subst (asm) gif_spans.simps) (auto simp: res_bind_eq_Inr Let_def)
      have "pos < x" "x \<le> length data" using gif_ext_header_ok [OF x(1)] gif_skip_subblocks_ok [OF x(2)] by auto
      with "1.IH"(2) [OF _ _ img ext x(1) refl refl x(2) refl rest] go seg_tiles_snoc [OF "1.prems"(2)]
      show ?thesis by simp
    qed
  qed
qed

lemma gif_box_spans_ok:
  assumes "gif_box_spans data = Inr spans"
  shows "seg_tiles 0 spans (length data)"
proof -
  from assms obtain fb s pos where fb: "gif_first_block_offset data = Inr fb"
    and r: "gif_spans data [contiguous (ascii ''GIF89a'') 0 6, contiguous (ascii ''LSD'') 6 fb] fb = Inr (s, pos, True)"
    and spans: "spans = (if pos < length data then s @ [contiguous (ascii ''c2pa.after'') pos (length data)] else s)"
    by (auto simp: gif_box_spans_def res_bind_eq_Inr split: if_splits)
  from gif_first_block_offset_ok [OF fb] gif_spans_tiles [OF r] have "seg_tiles 0 s pos" "pos \<le> length data" by auto
  with spans show ?thesis by (auto intro: seg_tiles_snoc)
qed

section \<open>The extensions that were found\<close>

fun ext_list :: "nat \<Rightarrow> (nat \<times> nat \<times> bytes) list \<Rightarrow> nat \<Rightarrow> bool" where
  "ext_list pos [] n = (pos \<le> n)"
| "ext_list pos ((s, e, p) # fs) n = (pos \<le> s \<and> s < e \<and> ext_list e fs n)"

lemma ext_list_weaken: "ext_list e fs n \<Longrightarrow> pos \<le> e \<Longrightarrow> ext_list pos fs n"
  by (cases fs) auto

lemma ext_list_le: "ext_list pos fs n \<Longrightarrow> pos \<le> n"
proof (induction pos fs n rule: ext_list.induct)
  case (2 pos s e p fs n)
  then show ?case by simp
qed simp

lemma ext_list_within: "ext_list pos fs n \<Longrightarrow> (s, e, p) \<in> set fs \<Longrightarrow> pos \<le> s \<and> s < e \<and> e \<le> n"
proof (induction pos fs n rule: ext_list.induct)
  case (2 pos s' e' p' fs n)
  then show ?case using ext_list_le [of e' fs n] by fastforce
qed simp

lemma ext_list_sorted: "ext_list pos fs n \<Longrightarrow> sorted_wrt (\<lambda>x y. fst (snd x) \<le> fst y) fs"
proof (induction pos fs n rule: ext_list.induct)
  case (2 pos s e p fs n)
  then show ?case using ext_list_within [of e fs n] by fastforce
qed simp

text \<open>One block of the scan, as the search sees it: its end, and its payload when it is a carrier.\<close>

definition gif_block :: "bytes \<Rightarrow> nat \<Rightarrow> format_error + (nat \<times> bytes option)" where
  "gif_block data pos =
     (if data ! pos = IMAGE_SEPARATOR then res_bind (gif_image_end data pos) (\<lambda>(_, e). Inr (e, None))
      else if data ! pos = EXTENSION_INTRODUCER then
        res_bind (gif_ext_header data pos) (\<lambda>(label, is_c2pa, sub_start).
          if is_c2pa then res_bind (gif_read_subblocks data [] sub_start) (\<lambda>(payload, e). Inr (e, Some payload))
          else res_bind (gif_skip_subblocks data sub_start) (\<lambda>e. Inr (e, None)))
      else Inl gif_block_error)"

lemma gif_block_ok: "gif_block data pos = Inr (e, p) \<Longrightarrow> pos < e \<and> e \<le> length data"
  by (auto simp: gif_block_def res_bind_eq_Inr split: if_splits
      dest!: gif_image_end_ok gif_ext_header_ok gif_skip_subblocks_ok gif_read_subblocks_skip)

lemma gif_find_eq:
  "gif_find data found pos =
     (if pos < length data \<and> data ! pos \<noteq> TRAILER then
        res_bind (gif_block data pos) (\<lambda>(e, p).
          gif_find data (found @ (case p of None \<Rightarrow> [] | Some payload \<Rightarrow> [(pos, e, payload)])) e)
      else Inr found)"
proof -
  consider "\<not> (pos < length data \<and> data ! pos \<noteq> TRAILER)"
    | "pos < length data" "data ! pos \<noteq> TRAILER" "data ! pos = IMAGE_SEPARATOR"
    | "pos < length data" "data ! pos \<noteq> TRAILER" "data ! pos \<noteq> IMAGE_SEPARATOR" "data ! pos = EXTENSION_INTRODUCER"
    | "pos < length data" "data ! pos \<noteq> TRAILER" "data ! pos \<noteq> IMAGE_SEPARATOR" "data ! pos \<noteq> EXTENSION_INTRODUCER"
    by blast
  then show ?thesis
  proof cases
    case 2
    then show ?thesis by (subst gif_find.simps) (cases "gif_image_end data pos", auto simp: gif_block_def)
  next
    case 3
    show ?thesis
    proof (cases "gif_ext_header data pos")
      case (Inr h)
      obtain l c s where h: "h = (l, c, s)" by (cases h)
      with 3 Inr show ?thesis
        by (subst gif_find.simps)
          (cases "gif_read_subblocks data [] s"; cases "gif_skip_subblocks data s"; auto simp: gif_block_def)
    qed (use 3 in \<open>subst gif_find.simps, auto simp: gif_block_def\<close>)
  qed (subst gif_find.simps, auto simp: gif_block_def)+
qed

lemma gif_find_list:
  assumes "gif_find data found pos = Inr r" and "pos \<le> length data"
  shows "\<exists>fs. r = found @ fs \<and> ext_list pos fs (length data)"
  using assms
proof (induction "length data - pos" arbitrary: found pos rule: less_induct)
  case less
  show ?case
  proof (cases "pos < length data \<and> data ! pos \<noteq> TRAILER")
    case True
    with less.prems obtain e p where b: "gif_block data pos = Inr (e, p)"
      and rest: "gif_find data (found @ (case p of None \<Rightarrow> [] | Some payload \<Rightarrow> [(pos, e, payload)])) e = Inr r"
      by (subst (asm) gif_find_eq) (auto simp: res_bind_eq_Inr)
    have "length data - e < length data - pos" using gif_block_ok [OF b] by linarith
    from less.hyps [OF this rest] gif_block_ok [OF b] obtain fs where
      "r = found @ (case p of None \<Rightarrow> [] | Some payload \<Rightarrow> [(pos, e, payload)]) @ fs" "ext_list e fs (length data)"
      by auto
    with gif_block_ok [OF b] show ?thesis by (cases p) (auto intro: ext_list_weaken)
  qed (use less.prems in \<open>subst (asm) gif_find_eq, auto\<close>)
qed

lemma gif_exclusions_ok:
  assumes "gif_exclusions data = Inr ex"
  shows "sorted_wrt (\<lambda>x y. ex_start x + ex_length x \<le> ex_start y) ex"
    and "\<forall>x \<in> set ex. 13 \<le> ex_start x \<and> 0 < ex_length x \<and> ex_start x + ex_length x \<le> length data"
proof -
  from assms obtain at fs where at: "gif_first_block_offset data = Inr at" and fs: "gif_find data [] at = Inr fs"
    and ex: "ex = map (\<lambda>(start, e, _). \<lparr>ex_start = start, ex_length = e - start\<rparr>) fs"
    by (auto simp: gif_exclusions_def gif_find_c2pa_extensions_def res_bind_eq_Inr)
  from gif_find_list [OF fs] gif_first_block_offset_ok [OF at] have l: "ext_list at fs (length data)" by auto
  have w: "13 \<le> s \<and> s < e \<and> e \<le> length data" if "(s, e, p) \<in> set fs" for s e p
    using ext_list_within [OF l that] gif_first_block_offset_ok [OF at] by simp
  then show "\<forall>x \<in> set ex. 13 \<le> ex_start x \<and> 0 < ex_length x \<and> ex_start x + ex_length x \<le> length data"
    unfolding ex by fastforce
  from ext_list_sorted [OF l] show "sorted_wrt (\<lambda>x y. ex_start x + ex_length x \<le> ex_start y) ex"
    unfolding ex sorted_wrt_map by (rule sorted_wrt_mono_rel [rotated]) (use w in fastforce)
qed

section \<open>Blocks read the same wherever they stand\<close>

definition agree :: "bytes \<Rightarrow> nat \<Rightarrow> bytes \<Rightarrow> nat \<Rightarrow> nat \<Rightarrow> bool" where
  "agree data p data' p' n \<longleftrightarrow> p + n \<le> length data \<and> p' + n \<le> length data' \<and> length data' \<le> usize_max
     \<and> slice data p (p + n) = slice data' p' (p' + n)"

lemma agree_nth: "agree data p data' p' n \<Longrightarrow> i < n \<Longrightarrow> data' ! (p' + i) = data ! (p + i)"
proof -
  assume a: "agree data p data' p' n" and i: "i < n"
  then have "slice data p (p + n) ! i = slice data' p' (p' + n) ! i" by (simp add: agree_def)
  with i have "drop p data ! i = drop p' data' ! i" by (simp add: slice_def)
  then show ?thesis using a by (simp add: agree_def)
qed

lemma agree_get: "agree data p data' p' n \<Longrightarrow> i < n \<Longrightarrow> gif_get data' (p' + i) = gif_get data (p + i)"
proof -
  assume a: "agree data p data' p' n" and i: "i < n"
  then have "p + i < length data" "p' + i < length data'" unfolding agree_def by linarith+
  with agree_nth [OF a i] show ?thesis by (simp add: gif_get_def nth_opt_def)
qed

lemma bind_add_within:
  "res_bind (ok_or (add_within a b limit) e) f = (if a + b \<le> limit \<and> a + b \<le> usize_max then f (a + b) else Inl e)"
  by (simp add: add_within_def checked_add_def)

lemma agree_sub:
  assumes "agree data p data' p' n" and "i + m \<le> n"
  shows "agree data (p + i) data' (p' + i) m"
proof -
  have "slice (slice data p (p + n)) i (i + m) = slice (slice data' p' (p' + n)) i (i + m)"
    using assms(1) by (simp add: agree_def)
  then have "slice data (p + i) (p + i + m) = slice data' (p' + i) (p' + i + m)"
    using assms(2) slice_slice [of i "i + m" n data p] slice_slice [of i "i + m" n data' p'] by (simp add: add.assoc)
  with assms show ?thesis by (simp add: agree_def)
qed

lemma agree_slice:
  "agree data p data' p' n \<Longrightarrow> i + m \<le> n \<Longrightarrow> slice data' (p' + i) (p' + i + m) = slice data (p + i) (p + i + m)"
  using agree_sub [of data p data' p' n i m] by (simp add: agree_def)

lemma gif_read_subblocks_local:
  assumes "gif_read_subblocks data out pos = Inr (p, e)" and "agree data pos data' pos' (e - pos)"
  shows "gif_read_subblocks data' out pos' = Inr (p, pos' + (e - pos))"
  using assms
proof (induction data out pos arbitrary: pos' rule: gif_read_subblocks.induct)
  case (1 data out pos)
  from "1.prems" obtain b where b: "gif_get data pos = Inr b" by (subst (asm) gif_read_subblocks.simps) (auto simp: res_simps)
  have e: "pos < e" using gif_skip_subblocks_ok [OF gif_read_subblocks_skip [OF "1.prems"(1)]] by simp
  then have b': "gif_get data' pos' = Inr b" using agree_get [OF "1.prems"(2), of 0] b by simp
  show ?case
  proof (cases "unat b = 0")
    case True
    with "1.prems" b b' show ?thesis
      by (subst (asm) gif_read_subblocks.simps) (subst gif_read_subblocks.simps, auto)
  next
    case False
    with "1.prems" b obtain x where x: "ok_or (add_within (pos + 1) (unat b) (length data)) (Truncated Gif) = Inr x"
      "gif_read_subblocks data (out @ slice data (pos + 1) x) x = Inr (p, e)"
      by (subst (asm) gif_read_subblocks.simps) (auto simp: res_bind_eq_Inr Let_def)
    have x': "x = pos + 1 + unat b" "x < e"
      using x(1) gif_skip_subblocks_ok [OF gif_read_subblocks_skip [OF x(2)]] by (auto simp: res_simps)
    let ?x = "pos' + 1 + unat b"
    have "agree data x data' ?x (e - x)"
      using agree_sub [OF "1.prems"(2), of "1 + unat b" "e - x"] x' by (simp add: add.assoc)
    from "1.IH" [OF b refl False x this]
    have "gif_read_subblocks data' (out @ slice data (pos + 1) x) ?x = Inr (p, ?x + (e - x))" .
    moreover have "slice data' (pos' + 1) ?x = slice data (pos + 1) x"
      using agree_slice [OF "1.prems"(2), of 1 "unat b"] x' by (simp add: add.assoc)
    moreover have "?x \<le> length data' \<and> ?x \<le> usize_max"
      using "1.prems"(2) x' by (auto simp: agree_def)
    moreover have "?x + (e - x) = pos' + (e - pos)" using x' by simp
    ultimately show ?thesis using False b' x' by (subst gif_read_subblocks.simps) (simp add: Let_def bind_add_within)
  qed
qed

lemma gif_skip_subblocks_read: "gif_skip_subblocks data pos = Inr e \<Longrightarrow> \<exists>p. gif_read_subblocks data out pos = Inr (p, e)"
proof (induction data pos arbitrary: out rule: gif_skip_subblocks.induct)
  case (1 data pos)
  from "1.prems" obtain b where b: "gif_get data pos = Inr b" by (subst (asm) gif_skip_subblocks.simps) (auto simp: res_simps)
  show ?case
  proof (cases "unat b = 0")
    case True
    with "1.prems" b show ?thesis
      by (subst (asm) gif_skip_subblocks.simps) (subst gif_read_subblocks.simps, auto)
  next
    case False
    with "1.prems" b obtain x where x: "ok_or (add_within (pos + 1) (unat b) (length data)) (Truncated Gif) = Inr x"
      "gif_skip_subblocks data x = Inr e"
      by (subst (asm) gif_skip_subblocks.simps) (auto simp: res_bind_eq_Inr Let_def)
    from "1.IH" [OF b refl False x] False b x(1) show ?thesis
      by (subst gif_read_subblocks.simps) (simp add: Let_def)
  qed
qed

lemma gif_skip_subblocks_local:
  assumes "gif_skip_subblocks data pos = Inr e" and "agree data pos data' pos' (e - pos)"
  shows "gif_skip_subblocks data' pos' = Inr (pos' + (e - pos))"
proof -
  obtain p where "gif_read_subblocks data [] pos = Inr (p, e)" using gif_skip_subblocks_read [OF assms(1)] by blast
  from gif_read_subblocks_skip [OF gif_read_subblocks_local [OF this assms(2)]] show ?thesis .
qed

lemma gif_image_end_local:
  assumes "gif_image_end data pos = Inr (d, e)" and "agree data pos data' pos' (e - pos)"
  shows "gif_image_end data' pos' = Inr (pos' + (d - pos), pos' + (e - pos))"
proof -
  from assms(1) obtain k where k: "gif_get data (pos + 9) = Inr k" "d = pos + 10 + color_table k"
    "gif_skip_subblocks data (d + 1) = Inr e"
    by (auto simp: gif_image_end_def Let_def res_simps)
  have e: "d + 1 < e" using gif_skip_subblocks_ok [OF k(3)] by simp
  have "gif_get data' (pos' + 9) = Inr k" using agree_get [OF assms(2), of 9] k e by simp
  moreover have "gif_skip_subblocks data' (pos' + (d + 1 - pos)) = Inr (pos' + (d + 1 - pos) + (e - (d + 1)))"
    by (rule gif_skip_subblocks_local [OF k(3)])
      (use agree_sub [OF assms(2), of "d + 1 - pos" "e - (d + 1)"] k(2) e in \<open>simp add: ac_simps\<close>)
  moreover have "pos' + 10 + color_table k + 1 \<le> length data' \<and> pos' + 10 + color_table k + 1 \<le> usize_max"
    using assms(2) k(2) e by (auto simp: agree_def)
  ultimately show ?thesis using k(1,2) e by (simp add: gif_image_end_def Let_def bind_add_within ac_simps)
qed

lemma gif_ext_header_local:
  assumes "gif_ext_header data pos = Inr (l, c, s)" and "agree data pos data' pos' n" and "s \<le> pos + n"
  shows "gif_ext_header data' pos' = Inr (l, c, pos' + (s - pos))"
proof -
  have s: "pos + 2 \<le> s" by (rule gif_ext_header_ok [OF assms(1)])
  from assms(1) have l: "gif_get data (pos + 1) = Inr l" by (auto simp: gif_ext_header_def res_bind_eq_Inr Let_def split: if_splits)
  then have l': "gif_get data' (pos' + 1) = Inr l" using agree_get [OF assms(2), of 1] s assms(3) by simp
  show ?thesis
  proof (cases "l = APP_EXTENSION_LABEL")
    case True
    with assms(1) l obtain b where b: "gif_get data (pos + 2) = Inr b" "s = pos + 3 + unat b"
      "c = (unat b = APP_BLOCK_SIZE \<and> slice data (pos + 3) s = APP_ID)"
      by (auto simp: gif_ext_header_def Let_def res_bind_eq_Inr ok_or_eq_Inr numeral_3_eq_3)
    then have b': "gif_get data' (pos' + 2) = Inr b" using agree_get [OF assms(2), of 2] assms(3) by simp
    have "slice data' (pos' + 3) (pos' + (s - pos)) = slice data (pos + 3) s"
      using agree_slice [OF assms(2), of 3 "unat b"] b(2) assms(3) by (simp add: add.assoc)
    moreover have "pos' + 3 + unat b \<le> length data' \<and> pos' + 3 + unat b \<le> usize_max"
      using assms(2,3) b(2) by (auto simp: agree_def)
    ultimately show ?thesis using True l' b b'
      by (simp add: gif_ext_header_def Let_def numeral_3_eq_3 bind_add_within)
  next
    case False
    with assms(1) l l' show ?thesis by (auto simp: gif_ext_header_def Let_def)
  qed
qed

lemma gif_block_local:
  assumes "gif_block data pos = Inr (e, p)" and "agree data pos data' pos' (e - pos)"
  shows "gif_block data' pos' = Inr (pos' + (e - pos), p)"
proof -
  note e = gif_block_ok [OF assms(1)]
  have hd: "data' ! pos' = data ! pos" using agree_nth [OF assms(2), of 0] e by simp
  show ?thesis
  proof (cases "data ! pos = IMAGE_SEPARATOR")
    case True
    with assms(1) obtain d where "gif_image_end data pos = Inr (d, e)" "p = None"
      by (auto simp: gif_block_def res_bind_eq_Inr)
    with gif_image_end_local [OF _ assms(2)] True hd show ?thesis by (simp add: gif_block_def)
  next
    case False
    with assms(1) obtain l c s where h: "gif_ext_header data pos = Inr (l, c, s)" "data ! pos = EXTENSION_INTRODUCER"
      and r: "if c then (\<exists>q. gif_read_subblocks data [] s = Inr (q, e) \<and> p = Some q)
              else gif_skip_subblocks data s = Inr e \<and> p = None"
      by (auto simp: gif_block_def res_bind_eq_Inr split: if_splits)
    have s: "pos + 2 \<le> s" "s < e"
      using gif_ext_header_ok [OF h(1)] r
      by (auto split: if_splits dest!: gif_skip_subblocks_ok gif_read_subblocks_skip)
    have h': "gif_ext_header data' pos' = Inr (l, c, pos' + (s - pos))"
      using gif_ext_header_local [OF h(1) assms(2)] s by simp
    have a: "agree data s data' (pos' + (s - pos)) (e - s)"
      using agree_sub [OF assms(2), of "s - pos" "e - s"] s by simp
    have "pos' + (s - pos) + (e - s) = pos' + (e - pos)" using s by simp
    with h' False h hd r s gif_read_subblocks_local [OF _ a, of "[]"] gif_skip_subblocks_local [OF _ a] show ?thesis
      by (cases c) (auto simp: gif_block_def)
  qed
qed

section \<open>Embedding and extraction\<close>

fun gif_cut :: "bytes \<Rightarrow> nat \<Rightarrow> (nat \<times> nat \<times> bytes) list \<Rightarrow> bytes" where
  "gif_cut data cursor [] = drop cursor data"
| "gif_cut data cursor ((s, e, _) # fs) = slice data cursor s @ gif_cut data e fs"

lemma gif_strip_cut:
  "(case foldl (\<lambda>(out, cursor) (start, e, _). (out @ slice asset cursor start, e)) (out, cursor) fs of
      (out, cursor) \<Rightarrow> out @ drop cursor asset) = out @ gif_cut asset cursor fs"
  by (induction fs arbitrary: out cursor) auto

lemma gif_strip_eq:
  "gif_strip asset = res_bind (gif_find_c2pa_extensions asset) (\<lambda>fs. Inr (gif_cut asset 0 fs))"
proof (cases "gif_find_c2pa_extensions asset")
  case (Inr fs)
  have "gif_strip asset = (if fs = [] then Inr asset else Inr (gif_cut asset 0 fs))"
    using gif_strip_cut [of asset "[]" 0 fs] by (simp add: gif_strip_def Inr split: prod.splits)
  then show ?thesis by (simp add: Inr)
qed (simp add: gif_strip_def)

lemma gif_cut_split: "ext_list pos fs n \<Longrightarrow> cursor \<le> pos \<Longrightarrow> gif_cut data cursor fs = slice data cursor pos @ gif_cut data pos fs"
proof (cases fs)
  case Nil
  assume "cursor \<le> pos"
  then have "drop cursor data = take (pos - cursor) (drop cursor data) @ drop (pos - cursor) (drop cursor data)"
    by (simp only: append_take_drop_id)
  with Nil \<open>cursor \<le> pos\<close> show ?thesis by (simp add: slice_def)
next
  case (Cons f gs)
  assume "ext_list pos fs n" "cursor \<le> pos"
  with Cons show ?thesis using slice_concat [of cursor pos "fst f" data] by (cases f) auto
qed

lemma drop_eq_ConsD: "drop p xs = y # ys \<Longrightarrow> p < length xs \<and> xs ! p = y \<and> drop (p + 1) xs = ys"
proof -
  assume a: "drop p xs = y # ys"
  then have "p < length xs" by (cases "p < length xs") auto
  with a show ?thesis by (simp add: Cons_nth_drop_Suc [symmetric])
qed

lemma agree_drop:
  assumes "drop p' data' = slice data p e @ rest" and "e \<le> length data" and "p \<le> e" and "p' \<le> length data'"
    and "length data' \<le> usize_max"
  shows "agree data p data' p' (e - p)" and "drop (p' + (e - p)) data' = rest"
proof -
  from arg_cong [OF assms(1), of length] assms(2-4) have "p' + (e - p) \<le> length data'" by simp
  moreover have "slice data' p' (p' + (e - p)) = slice data p e"
    using assms(1-3) by (simp add: slice_def)
  ultimately show "agree data p data' p' (e - p)" using assms by (simp add: agree_def)
  have "drop (p' + (e - p)) data' = drop (e - p) (drop p' data')" by (simp add: add.commute)
  with assms(1-3) show "drop (p' + (e - p)) data' = rest" by simp
qed

text \<open>Cutting the carriers out leaves a block sequence without carriers, wherever it is put.\<close>

lemma gif_find_cut:
  assumes "gif_find data found pos = Inr (found @ fs)" and "pos \<le> length data"
    and "drop pos' data' = gif_cut data pos fs" and "pos' \<le> length data'" and "length data' \<le> usize_max"
  shows "gif_find data' acc pos' = Inr acc"
  using assms
proof (induction "length data - pos" arbitrary: found pos fs pos' rule: less_induct)
  case less
  show ?case
  proof (cases "pos < length data \<and> data ! pos \<noteq> TRAILER")
    case False
    with less.prems(1) have "fs = []" by (subst (asm) gif_find_eq) auto
    with less.prems have d: "drop pos' data' = drop pos data" by simp
    have "pos' = length data' \<or> data' ! pos' = TRAILER"
    proof (cases "drop pos data")
      case Nil
      with d less.prems(4) show ?thesis by simp
    next
      case (Cons y ys)
      with d False drop_eq_ConsD [of pos data y ys] drop_eq_ConsD [of pos' data' y ys] show ?thesis by auto
    qed
    then show ?thesis by (subst gif_find_eq) auto
  next
    case True
    with less.prems obtain e p where b: "gif_block data pos = Inr (e, p)"
      and rest: "gif_find data (found @ (case p of None \<Rightarrow> [] | Some payload \<Rightarrow> [(pos, e, payload)])) e = Inr (found @ fs)"
      by (subst (asm) gif_find_eq) (auto simp: res_bind_eq_Inr)
    note e = gif_block_ok [OF b]
    from gif_find_list [OF rest] e obtain gs where
      gs: "fs = (case p of None \<Rightarrow> [] | Some payload \<Rightarrow> [(pos, e, payload)]) @ gs" "ext_list e gs (length data)"
      by auto
    have dec: "length data - e < length data - pos" using e by linarith
    note IH = less.hyps [OF dec, of "found @ (case p of None \<Rightarrow> [] | Some payload \<Rightarrow> [(pos, e, payload)])" gs]
    show ?thesis
    proof (cases p)
      case None
      with gs gif_cut_split [of e gs "length data" pos data] e less.prems(3)
      have d: "drop pos' data' = slice data pos e @ gif_cut data e gs" by simp
      have a: "agree data pos data' pos' (e - pos)" "drop (pos' + (e - pos)) data' = gif_cut data e gs"
        using agree_drop [OF d _ _ less.prems(4,5)] e by simp_all
      have "gif_find data' acc (pos' + (e - pos)) = Inr acc"
        using IH [OF _ _ a(2)] rest gs e a(1) less.prems(5) by (simp add: agree_def None)
      moreover have "data' ! pos' = data ! pos" "pos' < length data'"
        using agree_nth [OF a(1), of 0] a(1) e by (auto simp: agree_def)
      ultimately show ?thesis using gif_block_local [OF b a(1)] True
        by (subst gif_find_eq) (simp add: None)
    next
      case (Some payload)
      with gs less.prems(3) have "drop pos' data' = gif_cut data e gs" by (simp add: slice_def)
      with IH rest gs e less.prems(4,5) Some show ?thesis by simp
    qed
  qed
qed

lemma gif_read_chunks:
  assumes "length data \<le> usize_max"
    and "drop pos data = concat (map (\<lambda>c. of_nat (length c) # c) (chunks_of 255 store)) @ 0 # rest"
  shows "gif_read_subblocks data out pos
    = Inr (out @ store, pos + length (concat (map (\<lambda>c. of_nat (length c) # c) (chunks_of 255 store))) + 1)"
  using assms
proof (induction "255::nat" store arbitrary: out pos rule: chunks_of.induct)
  case (1 store)
  let ?enc = "\<lambda>xs. concat (map (\<lambda>c. of_nat (length c) # c) (chunks_of 255 xs)) :: bytes"
  show ?case
  proof (cases "store = []")
    case True
    then have "?enc store = []" by (subst chunks_of.simps) simp
    moreover have "data ! pos = 0 \<and> pos < length data" using "1.prems"(2) calculation drop_eq_ConsD [of pos data 0 rest] by simp
    ultimately show ?thesis using True by (subst gif_read_subblocks.simps) (simp add: gif_get_def nth_opt_def)
  next
    case False
    let ?c = "take 255 store" and ?e = "?enc (drop 255 store)"
    have enc: "?enc store = of_nat (length ?c) # ?c @ ?e" using False by (subst chunks_of.simps) simp
    have d: "drop pos data = of_nat (length ?c) # ?c @ ?e @ 0 # rest" using "1.prems"(2) by (simp add: enc)
    from drop_eq_ConsD [OF d] have pos: "pos < length data" and b: "data ! pos = of_nat (length ?c)"
      and d1: "drop (pos + 1) data = ?c @ ?e @ 0 # rest" by blast+
    have n: "unat (data ! pos) = length ?c" "length ?c \<noteq> 0" using False by (simp_all add: b unat_of_nat)
    have sl: "slice data (pos + 1) (pos + 1 + length ?c) = ?c" unfolding slice_def d1 by (simp add: min_def)
    have "drop (pos + 1 + length ?c) data = drop (length ?c) (drop (pos + 1) data)" by (simp only: drop_drop add.commute)
    then have d2: "drop (pos + 1 + length ?c) data = ?e @ 0 # rest" unfolding d1 by simp
    have le: "pos + 1 + length ?c \<le> length data" using arg_cong [OF d1, of length] by simp
    have "gif_read_subblocks data (out @ ?c) (pos + 1 + length ?c)
        = Inr ((out @ ?c) @ drop 255 store, pos + 1 + length ?c + length ?e + 1)"
      using "1.hyps" [OF _ "1.prems"(1) d2] False by simp
    moreover have "gif_read_subblocks data out pos = gif_read_subblocks data (out @ ?c) (pos + 1 + length ?c)"
      using pos n sl le "1.prems"(1)
      by (subst gif_read_subblocks.simps) (auto simp: gif_get_def nth_opt_def bind_add_within Let_def min_def)
    ultimately show ?thesis by (simp add: enc)
  qed
qed

lemma gif_first_block_offset_cong:
  assumes "gif_first_block_offset data = Inr at" and "take at data' = take at data" and "at \<le> length data'"
  shows "gif_first_block_offset data' = Inr at"
proof -
  note at = gif_first_block_offset_ok [OF assms(1)]
  have "take 6 data' = take 6 data" "data' ! 10 = data ! 10"
    using arg_cong [OF assms(2), of "take 6"] arg_cong [OF assms(2), of "\<lambda>xs. xs ! 10"] at by (simp_all add: min_def)
  with assms at show ?thesis
    by (auto simp: gif_first_block_offset_def gif_check_header_def Let_def res_bind_eq_Inr split: if_splits)
qed

lemma gif_ext_header_built:
  assumes "drop pos data = build_application_extension store @ rest" and "length data \<le> usize_max"
  shows "gif_ext_header data pos = Inr (APP_EXTENSION_LABEL, True, pos + 14)" and "data ! pos = EXTENSION_INTRODUCER"
    and "drop (pos + 14) data = concat (map (\<lambda>c. of_nat (length c) # c) (chunks_of 255 store)) @ 0 # rest"
proof -
  let ?enc = "concat (map (\<lambda>c. of_nat (length c) # c) (chunks_of 255 store)) :: bytes"
  have d: "drop pos data = EXTENSION_INTRODUCER # APP_EXTENSION_LABEL # of_nat APP_BLOCK_SIZE # APP_ID @ ?enc @ 0 # rest"
    using assms(1) by (simp add: build_application_extension_def)
  from drop_eq_ConsD [OF d] show "data ! pos = EXTENSION_INTRODUCER" by blast
  from drop_eq_ConsD [OF d] have d1: "drop (pos + 1) data = APP_EXTENSION_LABEL # of_nat APP_BLOCK_SIZE # APP_ID @ ?enc @ 0 # rest" by blast
  from drop_eq_ConsD [OF d1] have l: "gif_get data (pos + 1) = Inr APP_EXTENSION_LABEL"
    and d2: "drop (pos + 2) data = of_nat APP_BLOCK_SIZE # APP_ID @ ?enc @ 0 # rest"
    by (simp_all add: gif_get_def nth_opt_def)
  from drop_eq_ConsD [OF d2] have b: "gif_get data (pos + 2) = Inr (of_nat APP_BLOCK_SIZE)"
    and d3: "drop (pos + 3) data = APP_ID @ ?enc @ 0 # rest"
    by (simp_all add: gif_get_def nth_opt_def numeral_3_eq_3)
  have len: "length APP_ID = 11" "APP_BLOCK_SIZE = 11" "unat (of_nat APP_BLOCK_SIZE :: byte) = 11"
    by (simp_all add: APP_ID_def APP_BLOCK_SIZE_def)
  have le: "pos + 14 \<le> length data" using arg_cong [OF d3, of length] len by simp
  have "slice data (pos + 3) (pos + 14) = APP_ID" using len unfolding slice_def d3 by simp
  then have "slice data (Suc (Suc (Suc pos))) (Suc (Suc (Suc (pos + 11)))) = APP_ID" by (simp add: numeral_eq_Suc)
  with l b le assms(2) len show "gif_ext_header data pos = Inr (APP_EXTENSION_LABEL, True, pos + 14)"
    by (simp add: gif_ext_header_def Let_def bind_add_within)
  have "drop (pos + 14) data = drop 11 (drop (pos + 3) data)" by (simp add: add.commute)
  then show "drop (pos + 14) data = ?enc @ 0 # rest" unfolding d3 using len by simp
qed

lemma gif_extract_embed_aux:
  assumes "gif_embed asset store = Inr out" and "length out \<le> usize_max"
  shows "gif_extract out = Inr (Some store)"
proof -
  from assms(1) obtain at0 fs where at0: "gif_first_block_offset asset = Inr at0" and fs: "gif_find asset [] at0 = Inr fs"
    and emb: "res_bind (gif_first_block_offset (gif_cut asset 0 fs)) (\<lambda>at.
       Inr (take at (gif_cut asset 0 fs) @ build_application_extension store @ drop at (gif_cut asset 0 fs))) = Inr out"
    by (auto simp: gif_embed_def gif_strip_eq gif_find_c2pa_extensions_def res_bind_eq_Inr)
  note at = gif_first_block_offset_ok [OF at0]
  from gif_find_list [OF fs] at have l: "ext_list at0 fs (length asset)" by auto
  define tail where "tail = gif_cut asset at0 fs"
  define head where "head = take at0 asset"
  have cut: "gif_cut asset 0 fs = head @ tail" and head: "length head = at0"
    using gif_cut_split [OF l, of 0 asset] at by (simp_all add: slice_def tail_def head_def)
  let ?ext = "build_application_extension store"
  have "gif_first_block_offset (head @ tail) = Inr at0"
    by (rule gif_first_block_offset_cong [OF at0]) (use head in \<open>simp_all add: head_def\<close>)
  with emb cut head have out: "out = head @ ?ext @ tail" by simp
  have at_out: "gif_first_block_offset out = Inr at0"
    by (rule gif_first_block_offset_cong [OF at0]) (use head out in \<open>simp_all add: head_def\<close>)
  have d: "drop at0 out = ?ext @ tail" using out head by simp
  note h = gif_ext_header_built [OF d assms(2)]
  let ?e = "at0 + length ?ext"
  have e: "?e = at0 + 14 + length (concat (map (\<lambda>c. of_nat (length c) # c) (chunks_of 255 store)) :: bytes) + 1"
    by (simp add: build_application_extension_def APP_ID_def)
  have "gif_read_subblocks out [] (at0 + 14) = Inr (store, ?e)"
    using gif_read_chunks [OF assms(2) h(3), of "[]"] e by simp
  then have "gif_block out at0 = Inr (?e, Some store)"
    using h(1,2) by (simp add: gif_block_def EXTENSION_INTRODUCER_def IMAGE_SEPARATOR_def)
  moreover have "gif_find out [(at0, ?e, store)] ?e = Inr [(at0, ?e, store)]"
    by (rule gif_find_cut [of asset "[]" at0 fs]) (use fs at out head assms(2) in \<open>simp_all add: tail_def\<close>)
  ultimately have "gif_find out [] at0 = Inr [(at0, ?e, store)]"
    using h(2) out head by (subst gif_find_eq) (simp add: EXTENSION_INTRODUCER_def TRAILER_def build_application_extension_def)
  then show ?thesis by (simp add: gif_extract_def gif_find_c2pa_extensions_def at_out)
qed

end
