(* ===== verification/Formats_Properties.thy ===== *)
theory Formats_Properties
  imports Format_Png Format_Riff Format_Gif
begin

text \<open>
  What the chunked containers promise the verifier: a manifest store that was embedded is the one
  extracted, the byte ranges reported for exclusion are the carrier's and nothing else can hide in
  them by overlapping, and a segmentation for the general box hash leaves no byte out.
\<close>

section \<open>Concrete assets\<close>

definition png_sample :: bytes where
  "png_sample = [0x89, 0x50, 0x4E, 0x47, 0x0D, 0x0A, 0x1A, 0x0A, 0, 0, 0, 0, 0x49, 0x45, 0x4E, 0x44, 0xAE, 0x42, 0x60, 0x82]"

definition png_signed_sample :: bytes where
  "png_signed_sample = [0x89, 0x50, 0x4E, 0x47, 0x0D, 0x0A, 0x1A, 0x0A, 0, 0, 0, 1, 0x63, 0x61, 0x42, 0x58, 7, 1, 2, 3, 4,
     0, 0, 0, 0, 0x49, 0x45, 0x4E, 0x44, 0xAE, 0x42, 0x60, 0x82]"

definition png_truncated_sample :: bytes where
  "png_truncated_sample = [0x89, 0x50, 0x4E, 0x47, 0x0D, 0x0A, 0x1A, 0x0A, 0, 0, 0, 0, 0, 0, 0]"

definition gif_sample :: bytes where
  "gif_sample = [0x47, 0x49, 0x46, 0x38, 0x39, 0x61, 1, 0, 1, 0, 0, 0, 0, 0x3B]"

definition gif_signed_sample :: bytes where
  "gif_signed_sample = [0x47, 0x49, 0x46, 0x38, 0x39, 0x61, 1, 0, 1, 0, 0, 0, 0,
     0x21, 0xFF, 11, 0x43, 0x32, 0x50, 0x41, 0x5F, 0x47, 0x49, 0x46, 1, 0, 0, 1, 7, 0, 0x3B]"

definition riff_signed_sample :: bytes where
  "riff_signed_sample = [0x52, 0x49, 0x46, 0x46, 14, 0, 0, 0, 0x57, 0x41, 0x56, 0x45,
     0x43, 0x32, 0x50, 0x41, 1, 0, 0, 0, 7, 0]"

lemmas sample_defs = png_sample_def png_signed_sample_def png_truncated_sample_def gif_sample_def
  gif_signed_sample_def riff_signed_sample_def

lemma usize_max_eq: "usize_max = 18446744073709551615"
  by (simp add: usize_max_def)

lemmas int_eval = be_u32_def le_u32_def le_val_def slice_get_def slice_def checked_add_def add_within_def usize_max_eq
  ascii_def Let_def nth_opt_def

lemmas png_eval = png_strip_def png_walk_chunks_def png_check_signature_def png_chunks.simps png_read_chunk_def
  SIGNATURE_def TYPE_IEND_def TYPE_CABX_def

lemmas gif_eval = gif_find_c2pa_extensions_def gif_first_block_offset_def gif_check_header_def color_table_def
  gif_find.simps gif_ext_header_def gif_get_def gif_read_subblocks.simps gif_skip_subblocks.simps
  TRAILER_def IMAGE_SEPARATOR_def EXTENSION_INTRODUCER_def APP_EXTENSION_LABEL_def APP_ID_def APP_BLOCK_SIZE_def

lemmas riff_eval = riff_walk_chunks_def check_riff_def riff_roots.simps riff_children.simps riff_child_def
  riff_child_name_def riff_chunks.simps riff_read_chunk_def RIFF_def CHUNK_C2PA_def padded_def utf8_lossy.simps

section \<open>Embedding and extraction\<close>

text \<open>
  Whatever the asset, when embedding a manifest store succeeds, extraction from the result gives that
  store back byte for byte. A store already present is replaced, since embedding strips it first.
\<close>

theorem png_extract_embed:
  assumes "png_embed asset store = Inr out" and "length store < 2 ^ 32" and "length out \<le> usize_max"
  shows "png_extract out = Inr (Some store)"
  using assms by (rule png_extract_embed_aux)

definition png_embedded_sample :: bytes where
  "png_embedded_sample = take 8 png_sample @ png_build_chunk TYPE_CABX [1, 2, 3] @ drop 8 png_sample"

theorem png_extract_embed_witness:
  "png_embed png_sample [1, 2, 3] = Inr png_embedded_sample \<and> png_extract png_embedded_sample = Inr (Some [1, 2, 3])"
proof -
  have "png_embed png_sample [1, 2, 3] = Inr png_embedded_sample"
    by (simp add: png_embed_def png_embedded_sample_def png_eval int_eval sample_defs)
  moreover have "length png_embedded_sample \<le> usize_max"
    by (simp add: png_embedded_sample_def png_build_chunk_def sample_defs usize_max_eq)
  ultimately show ?thesis using png_extract_embed [of png_sample "[1, 2, 3]" png_embedded_sample] by simp
qed

text \<open>
  The same for GIF, where the store is cut into sub-blocks of at most 255 bytes: the reader puts them
  together again, and no carrier of the original asset survives to shadow the new one.
\<close>

theorem gif_extract_embed:
  assumes "gif_embed asset store = Inr out" and "length out \<le> usize_max"
  shows "gif_extract out = Inr (Some store)"
  using assms by (rule gif_extract_embed_aux)

definition gif_embedded_sample :: bytes where
  "gif_embedded_sample = take 13 gif_signed_sample @ build_application_extension [9, 8] @ drop 30 gif_signed_sample"

theorem gif_extract_embed_witness:
  "gif_embed gif_signed_sample [9, 8] = Inr gif_embedded_sample \<and> gif_extract gif_embedded_sample = Inr (Some [9, 8])"
proof -
  have "gif_embed gif_signed_sample [9, 8] = Inr gif_embedded_sample"
    by (simp add: gif_embed_def gif_strip_def gif_embedded_sample_def gif_eval int_eval sample_defs)
  moreover have "length gif_embedded_sample \<le> usize_max"
    by (simp add: gif_embedded_sample_def build_application_extension_def chunks_of.simps sample_defs usize_max_eq APP_ID_def)
  ultimately show ?thesis using gif_extract_embed [of gif_signed_sample "[9, 8]" gif_embedded_sample] by simp
qed

section \<open>Exclusions\<close>

text \<open>
  The ranges a PNG, RIFF or GIF file reports for exclusion from the data hash come in file order, do not overlap, start after
  the file header, are not empty (in PNG they hold at least a chunk header and checksum), and end inside the asset.
\<close>

definition exclusions_within :: "nat \<Rightarrow> nat \<Rightarrow> bytes \<Rightarrow> data_hash_exclusion list \<Rightarrow> bool" where
  "exclusions_within first least data ex \<longleftrightarrow>
     sorted_wrt (\<lambda>x y. ex_start x + ex_length x \<le> ex_start y) ex
     \<and> (\<forall>x \<in> set ex. first \<le> ex_start x \<and> least \<le> ex_length x \<and> ex_start x + ex_length x \<le> length data)"

theorem chunked_exclusions_disjoint:
  "(png_exclusions data = Inr ex \<longrightarrow> exclusions_within 8 12 data ex)
    \<and> (riff_exclusions data = Inr ex \<longrightarrow> exclusions_within 12 1 data ex)
    \<and> (gif_exclusions data = Inr ex \<longrightarrow> exclusions_within 13 1 data ex)"
  using png_exclusions_ok [of data ex] riff_exclusions_ok [of data ex] gif_exclusions_ok [of data ex]
  by (auto simp: exclusions_within_def Suc_le_eq)

theorem chunked_exclusions_disjoint_witness:
  "exclusions_within 8 12 png_signed_sample [\<lparr>ex_start = 8, ex_length = 13\<rparr>]
    \<and> exclusions_within 12 1 riff_signed_sample [\<lparr>ex_start = 12, ex_length = 10\<rparr>]
    \<and> exclusions_within 13 1 gif_signed_sample [\<lparr>ex_start = 13, ex_length = 17\<rparr>]"
proof -
  have "png_exclusions png_signed_sample = Inr [\<lparr>ex_start = 8, ex_length = 13\<rparr>]"
    by (simp add: png_exclusions_def png_eval int_eval sample_defs)
  moreover have "riff_exclusions riff_signed_sample = Inr [\<lparr>ex_start = 12, ex_length = 10\<rparr>]"
    by (simp add: riff_exclusions_def riff_eval int_eval sample_defs)
  moreover have "gif_exclusions gif_signed_sample = Inr [\<lparr>ex_start = 13, ex_length = 17\<rparr>]"
    by (simp add: gif_exclusions_def gif_eval int_eval sample_defs)
  ultimately show ?thesis using chunked_exclusions_disjoint by blast
qed

section \<open>Segmentation\<close>

text \<open>
  An accepted segmentation of a RIFF or GIF file tiles it: consecutive boxes, none empty, from the first byte to the last
  (bytes after the GIF trailer included), so hashing the boxes in order hashes the file.
\<close>

theorem chunked_box_spans_cover:
  assumes "riff_box_spans data = Inr spans \<or> gif_box_spans data = Inr spans"
  shows "seg_tiles 0 spans (length data)
    \<and> concat (map (\<lambda>b. concat (map (\<lambda>(s, e). slice data s e) (bs_ranges b))) spans) = data"
proof -
  have "seg_tiles 0 spans (length data)" using assms riff_box_spans_ok gif_box_spans_ok by blast
  then show ?thesis using seg_tiles_bytes [of 0 spans "length data" data] by simp
qed

theorem chunked_box_spans_cover_witness:
  "(\<exists>spans. riff_box_spans riff_signed_sample = Inr spans \<and> length spans = 2 \<and> seg_tiles 0 spans 22)
    \<and> (\<exists>spans. gif_box_spans gif_signed_sample = Inr spans \<and> length spans = 4 \<and> seg_tiles 0 spans 31)"
proof -
  have r: "riff_box_spans riff_signed_sample
      = Inr [contiguous (ascii ''WAVE'') 0 12, contiguous (ascii ''C2PA'') 12 22]"
    by (simp add: riff_box_spans_def riff_eval int_eval sample_defs)
  have g: "gif_box_spans gif_signed_sample
      = Inr [contiguous (ascii ''GIF89a'') 0 6, contiguous (ascii ''LSD'') 6 13,
             contiguous (ascii ''C2PA'') 13 30, contiguous (ascii ''3B'') 30 31]"
    by (simp add: gif_box_spans_def gif_spans.simps gif_eval int_eval sample_defs)
  from r g chunked_box_spans_cover [OF disjI1 [OF r]] chunked_box_spans_cover [OF disjI2 [OF g]]
  show ?thesis by (simp add: sample_defs)
qed

text \<open>
  A PNG segmentation tiles the file from its first byte up to some position fewer than eight bytes before
  the end; when the last box is \<open>IEND\<close> it reaches the end. The short tail of a file without \<open>IEND\<close> is in no
  box: the sample of the witness has seven such bytes.
\<close>

theorem png_box_spans_cover:
  assumes "png_box_spans data = Inr spans"
  shows "\<exists>e \<le> length data. seg_tiles 0 spans e \<and> length data < e + 8
    \<and> (bs_name (last spans) = ascii ''IEND'' \<longrightarrow> e = length data)"
  using assms by (rule png_box_spans_ok)

theorem png_box_spans_cover_witness:
  "\<exists>spans. png_box_spans png_truncated_sample = Inr spans \<and> seg_tiles 0 spans 8 \<and> length png_truncated_sample = 15
    \<and> (\<exists>e \<le> 15. seg_tiles 0 spans e \<and> 15 < e + 8)"
proof -
  have "png_box_spans png_truncated_sample = Inr [contiguous (ascii ''PNGh'') 0 8]"
    by (simp add: png_box_spans_def png_eval int_eval sample_defs contiguous_def bs_end_def)
  with png_box_spans_cover [OF this] show ?thesis by (auto simp: sample_defs)
qed

end
