(* ===== verification/Report_Json.thy ===== *)
theory Report_Json
  imports C2pa_Prelude
begin

text \<open>
  JSON values as the report code builds them, and the text formatting it uses. \<open>serde_json\<close> is built
  with insertion-ordered objects, so an object is an association list without repeated keys: inserting
  replaces the value of a key in place or appends a new entry.
\<close>

datatype json =
    JNull
  | JBool bool
  | JInt int
  | JFloat u64
  | JString string
  | JArray "json list"
  | JObject "(string \<times> json) list"

fun object_insert :: "string \<Rightarrow> json \<Rightarrow> (string \<times> json) list \<Rightarrow> (string \<times> json) list" where
  "object_insert k v [] = [(k, v)]"
| "object_insert k v ((k', v') # xs) = (if k = k' then (k, v) # xs else (k', v') # object_insert k v xs)"

fun json_get :: "json \<Rightarrow> string \<Rightarrow> json option" where
  "json_get (JObject xs) k = map_of xs k"
| "json_get _ k = None"

fun json_insert :: "string \<Rightarrow> json \<Rightarrow> json \<Rightarrow> json" where
  "json_insert k v (JObject xs) = JObject (object_insert k v xs)"
| "json_insert k v j = j"

fun json_as_bool :: "json \<Rightarrow> bool option" where
  "json_as_bool (JBool b) = Some b"
| "json_as_bool _ = None"

fun json_as_str :: "json \<Rightarrow> string option" where
  "json_as_str (JString s) = Some s"
| "json_as_str _ = None"

text \<open>\<open>format!("{n}")\<close> of an unsigned integer, and a byte string as text.\<close>

definition digit_char :: "nat \<Rightarrow> char" where
  "digit_char d = char_of (48 + d)"

fun fmt_nat :: "nat \<Rightarrow> string" where
  "fmt_nat n = (if n < 10 then [digit_char n] else fmt_nat (n div 10) @ [digit_char (n mod 10)])"

declare fmt_nat.simps [simp del]

definition str_of_bytes :: "bytes \<Rightarrow> string" where
  "str_of_bytes bs = map (\<lambda>b. char_of (unat b)) bs"

section \<open>Lemmas\<close>

lemma str_of_bytes_ascii [simp]: "str_of_bytes (ascii s) = s"
  by (induction s) (simp_all add: str_of_bytes_def ascii_def unat_of_nat)

lemma ascii_eq_iff [simp]: "ascii s = ascii t \<longleftrightarrow> s = t"
  using str_of_bytes_ascii by metis

lemma map_of_object_insert: "map_of (object_insert k v xs) = (map_of xs)(k \<mapsto> v)"
  by (induction k v xs rule: object_insert.induct) auto

lemma fst_object_insert: "fst ` set (object_insert k v xs) = insert k (fst ` set xs)"
  by (induction k v xs rule: object_insert.induct) auto

lemma distinct_object_insert: "distinct (map fst xs) \<Longrightarrow> distinct (map fst (object_insert k v xs))"
proof (induction k v xs rule: object_insert.induct)
  case (2 k v k' v' xs)
  then show ?case using fst_object_insert [of k v xs] by auto
qed simp

lemma json_get_insert [simp]:
  "json_get (json_insert k v (JObject xs)) k' = (if k' = k then Some v else map_of xs k')"
  by (simp add: map_of_object_insert)

end
