(* ===== verification/Network_Needs.thy ===== *)
theory Network_Needs
  imports Report_Json
begin

text \<open>
  What an offline verification could not settle: \<^verbatim>\<open>c2pa-validate/network_needs.rs\<close>. A need describes
  one request; a verification records each at most once and at most 64 of them.
\<close>

datatype ocsp_purpose = ClaimSigner | CawgIdentity string

fun purpose_str :: "ocsp_purpose \<Rightarrow> string" where
  "purpose_str ClaimSigner = ''claim_signer''"
| "purpose_str (CawgIdentity _) = ''cawg_identity''"

datatype network_need =
    RemoteManifest string
  | Ocsp ocsp_purpose string bytes string
  | DidDocument string string
  | ExternalData string string

fun need_to_json :: "network_need \<Rightarrow> json" where
  "need_to_json (RemoteManifest uri) =
     JObject [(''kind'', JString ''remote_manifest''), (''uri'', JString uri)]"
| "need_to_json (Ocsp purpose responder_url request_der certificate_sha256_hex) =
     (let value = JObject [(''kind'', JString ''ocsp''), (''purpose'', JString (purpose_str purpose)),
                           (''responder_url'', JString responder_url),
                           (''certificate_sha256'', JString certificate_sha256_hex)]
      in case purpose of
           CawgIdentity assertion_label \<Rightarrow> json_insert ''assertion_label'' (JString assertion_label) value
         | ClaimSigner \<Rightarrow> value)"
| "need_to_json (DidDocument did url) =
     JObject [(''kind'', JString ''did_document''), (''did'', JString did), (''url'', JString url)]"
| "need_to_json (ExternalData uri assertion_label) =
     JObject [(''kind'', JString ''external_data''), (''uri'', JString uri),
              (''assertion_label'', JString assertion_label)]"

definition MAX_NETWORK_NEEDS :: nat where "MAX_NETWORK_NEEDS = 64"

definition push_unique :: "network_need list \<Rightarrow> network_need \<Rightarrow> network_need list" where
  "push_unique needs need =
     (if length needs \<ge> MAX_NETWORK_NEEDS \<or> need \<in> set needs then needs else needs @ [need])"

section \<open>The URL of a web identifier\<close>

text \<open>\<open>str::split\<close> on one separator: always at least one piece.\<close>

fun split_on :: "char \<Rightarrow> string \<Rightarrow> string list" where
  "split_on c [] = [[]]"
| "split_on c (x # xs) =
     (if x = c then [] # split_on c xs
      else (case split_on c xs of [] \<Rightarrow> [[x]] | p # ps \<Rightarrow> (x # p) # ps))"

text \<open>\<open>str::replace\<close> of a three-character escape by one character, left to right.\<close>

fun replace3 :: "char \<Rightarrow> char \<Rightarrow> char \<Rightarrow> char \<Rightarrow> string \<Rightarrow> string" where
  "replace3 a b c d (x # y # z # xs) =
     (if x = a \<and> y = b \<and> z = c then d # replace3 a b c d xs else x # replace3 a b c d (y # z # xs))"
| "replace3 a b c d xs = xs"

definition join_with :: "char \<Rightarrow> string list \<Rightarrow> string" where
  "join_with c parts = (case parts of [] \<Rightarrow> [] | p # ps \<Rightarrow> p @ concat (map (\<lambda>q. c # q) ps))"

definition did_web_url :: "string \<Rightarrow> string option" where
  "did_web_url did =
     (if \<not> prefix ''did:web:'' did then None
      else let identifier = hd (split_on CHR ''#'' (drop 8 did));
               identifier = hd (split_on CHR ''?'' identifier)
           in if identifier = [] then None
              else let segments = split_on CHR '':'' identifier;
                       host = replace3 CHR ''%'' CHR ''3'' CHR ''a'' CHR '':''
                                (replace3 CHR ''%'' CHR ''3'' CHR ''A'' CHR '':'' (hd segments))
                   in if host = [] \<or> CHR ''/'' \<in> set host then None
                      else let path = filter (\<lambda>s. s \<noteq> []) (tl segments)
                           in if path = [] then Some (''https://'' @ host @ ''/.well-known/did.json'')
                              else Some (''https://'' @ host @ ''/'' @ join_with CHR ''/'' path @ ''/did.json''))"

section \<open>Lemmas\<close>

lemma push_unique_ok:
  assumes "distinct needs" and "length needs \<le> MAX_NETWORK_NEEDS"
  shows "distinct (push_unique needs need)" and "length (push_unique needs need) \<le> MAX_NETWORK_NEEDS"
    and "set needs \<subseteq> set (push_unique needs need)"
  using assms by (auto simp: push_unique_def)

lemma push_unique_idem: "push_unique (push_unique needs need) need = push_unique needs need"
  by (auto simp: push_unique_def)

lemma split_on_ne [simp]: "split_on c xs \<noteq> []"
  by (induction xs) (auto split: list.splits)

lemma split_on_no_sep: "p \<in> set (split_on c xs) \<Longrightarrow> c \<notin> set p"
proof (induction xs arbitrary: p)
  case (Cons x xs)
  then show ?case by (cases "split_on c xs") (fastforce split: if_splits)+
qed simp

lemma join_split_on: "join_with c (split_on c xs) = xs"
proof (induction xs)
  case (Cons x xs)
  then show ?case by (cases "split_on c xs") (auto simp: join_with_def)
qed (simp add: join_with_def)

end
