(* ===== verification/Engine_Profile.thy ===== *)
theory Engine_Profile
  imports C2pa_Prelude
begin

text \<open>
  The engine profile and the per-version format registry of \<^verbatim>\<open>c2pa-core/spec.rs\<close>: specification
  revisions, operating modes, compliance levels, MIME canonicalisation and the question which
  formats a profile may read. Media types are UTF-8 byte strings, here Isabelle strings.
\<close>

section \<open>Axes\<close>

datatype spec_version = V1_4 | V2_0 | V2_1 | V2_2 | V2_3 | V2_4 | V2_5

text \<open>The derived order is the order of release.\<close>

fun version_rank :: "spec_version \<Rightarrow> nat" where
  "version_rank V1_4 = 0"
| "version_rank V2_0 = 1"
| "version_rank V2_1 = 2"
| "version_rank V2_2 = 3"
| "version_rank V2_3 = 4"
| "version_rank V2_4 = 5"
| "version_rank V2_5 = 6"

lemma version_rank_inj: "version_rank v = version_rank w \<Longrightarrow> v = w"
  by (cases v; cases w) auto

instantiation spec_version :: linorder
begin

definition less_eq_spec_version :: "spec_version \<Rightarrow> spec_version \<Rightarrow> bool" where
  "v \<le> w \<longleftrightarrow> version_rank v \<le> version_rank w"

definition less_spec_version :: "spec_version \<Rightarrow> spec_version \<Rightarrow> bool" where
  "v < w \<longleftrightarrow> version_rank v < version_rank w"

instance
  by standard (auto simp: less_eq_spec_version_def less_spec_version_def version_rank_inj)

end

definition version_all :: "spec_version list" where
  "version_all = [V1_4, V2_0, V2_1, V2_2, V2_3, V2_4, V2_5]"

definition PUBLIC_POLICIES :: "spec_version list" where "PUBLIC_POLICIES = [V2_2, V2_4, V2_5]"

definition PUBLIC_POLICY_STRINGS :: "string list" where "PUBLIC_POLICY_STRINGS = [''2.2'', ''2.4'', ''2.5'']"

fun version_str :: "spec_version \<Rightarrow> string" where
  "version_str V1_4 = ''1.4''"
| "version_str V2_0 = ''2.0''"
| "version_str V2_1 = ''2.1''"
| "version_str V2_2 = ''2.2''"
| "version_str V2_3 = ''2.3''"
| "version_str V2_4 = ''2.4''"
| "version_str V2_5 = ''2.5''"

text \<open>
  \<open>str::trim\<close> removes Unicode white space at both ends. On UTF-8 bytes that is the removal of the
  encodings listed here.
\<close>

definition white_space :: "string list" where
  "white_space =
     map (\<lambda>n. [char_of n]) ([9, 10, 11, 12, 13, 32] :: nat list)
     @ map (map char_of) ([[0xC2, 0x85], [0xC2, 0xA0], [0xE1, 0x9A, 0x80]] :: nat list list)
     @ map (\<lambda>n. map char_of ([0xE2, 0x80, n] :: nat list)) ([0x80..<0x8B] @ [0xA8, 0xA9, 0xAF])
     @ map (map char_of) ([[0xE2, 0x81, 0x9F], [0xE3, 0x80, 0x80]] :: nat list list)"

lemma white_space_nonempty: "[] \<notin> set white_space"
  by (auto simp: white_space_def)

function trim_start :: "string \<Rightarrow> string" where
  "trim_start s =
     (case find (\<lambda>w. prefix w s) white_space of None \<Rightarrow> s | Some w \<Rightarrow> trim_start (drop (length w) s))"
  by pat_completeness auto
termination
proof (relation "measure length", goal_cases)
  case (2 s w)
  then have "w \<in> set white_space" "prefix w s" by (auto dest: find_SomeD)
  with white_space_nonempty show ?case by (cases w) (auto simp: prefix_def)
qed simp

function trim_end :: "string \<Rightarrow> string" where
  "trim_end s =
     (case find (\<lambda>w. suffix w s) white_space of None \<Rightarrow> s | Some w \<Rightarrow> trim_end (take (length s - length w) s))"
  by pat_completeness auto
termination
proof (relation "measure length", goal_cases)
  case (2 s w)
  then have "w \<in> set white_space" "suffix w s" by (auto dest: find_SomeD)
  with white_space_nonempty show ?case by (cases w) (auto simp: suffix_def)
qed simp

declare trim_start.simps [simp del] trim_end.simps [simp del]

definition str_trim :: "string \<Rightarrow> string" where
  "str_trim s = trim_end (trim_start s)"

definition version_from_str :: "string \<Rightarrow> spec_version option" where
  "version_from_str s =
     (let t = str_trim s
      in if t \<in> {''1.0'', ''1.1'', ''1.2'', ''1.3'', ''1.4''} then Some V1_4
         else if t = ''2.0'' then Some V2_0
         else if t = ''2.1'' then Some V2_1
         else if t = ''2.2'' then Some V2_2
         else if t = ''2.3'' then Some V2_3
         else if t = ''2.4'' then Some V2_4
         else if t = ''2.5'' then Some V2_5
         else None)"

definition public_policy_from_str :: "string \<Rightarrow> spec_version option" where
  "public_policy_from_str s =
     (case version_from_str s of
        None \<Rightarrow> None
      | Some version \<Rightarrow> if version \<in> set PUBLIC_POLICIES then Some version else None)"

datatype operating_mode = Conformance | Regular

datatype compliance_level = CoreSpec | ConformanceProgram

record engine_profile =
  ep_version :: spec_version
  ep_mode :: operating_mode
  ep_compliance :: compliance_level
  ep_debug :: bool

definition CONFORMANCE_V2_2 :: engine_profile where
  "CONFORMANCE_V2_2 = \<lparr>ep_version = V2_2, ep_mode = Conformance, ep_compliance = ConformanceProgram, ep_debug = False\<rparr>"

definition GENEROUS :: engine_profile where
  "GENEROUS = \<lparr>ep_version = V2_4, ep_mode = Regular, ep_compliance = CoreSpec, ep_debug = False\<rparr>"

definition profile_strict :: "spec_version \<Rightarrow> engine_profile" where
  "profile_strict version = \<lparr>ep_version = version, ep_mode = Conformance, ep_compliance = ConformanceProgram, ep_debug = True\<rparr>"

definition profile_new :: "spec_version \<Rightarrow> operating_mode \<Rightarrow> engine_profile" where
  "profile_new version mode = \<lparr>ep_version = version, ep_mode = mode, ep_compliance = CoreSpec, ep_debug = False\<rparr>"

definition with_compliance :: "engine_profile \<Rightarrow> compliance_level \<Rightarrow> engine_profile" where
  "with_compliance p c = p\<lparr>ep_compliance := c\<rparr>"

definition with_debug :: "engine_profile \<Rightarrow> bool \<Rightarrow> engine_profile" where
  "with_debug p d = p\<lparr>ep_debug := d\<rparr>"

section \<open>Media types\<close>

definition ascii_lower :: "char \<Rightarrow> char" where
  "ascii_lower c = (let n = of_char c :: nat in if 65 \<le> n \<and> n \<le> 90 then char_of (n + 32) else c)"

definition to_ascii_lowercase :: "string \<Rightarrow> string" where
  "to_ascii_lowercase = map ascii_lower"

definition eq_ignore_ascii_case :: "string \<Rightarrow> string \<Rightarrow> bool" where
  "eq_ignore_ascii_case a b \<longleftrightarrow> to_ascii_lowercase a = to_ascii_lowercase b"

definition mime_aliases :: "(string \<times> string) list" where
  "mime_aliases =
    [(''audio/mpa'', ''audio/mpeg''),
     (''audio/aac'', ''audio/mp4''),
     (''audio/wave'', ''audio/wav''),
     (''audio/vnd.wave'', ''audio/wav''),
     (''audio/x-wav'', ''audio/wav''),
     (''audio/x-flac'', ''audio/flac''),
     (''application/ogg'', ''audio/ogg''),
     (''video/avi'', ''video/x-msvideo''),
     (''video/msvideo'', ''video/x-msvideo''),
     (''application/x-troff-msvideo'', ''video/x-msvideo''),
     (''image/dng'', ''image/x-adobe-dng''),
     (''application/svg+xml'', ''image/svg+xml''),
     (''text/javascript'', ''application/javascript''),
     (''text/yaml'', ''application/yaml''),
     (''application/x-yaml'', ''application/yaml''),
     (''audio/x-midi'', ''audio/midi''),
     (''audio/mid'', ''audio/midi''),
     (''application/x-onnx'', ''application/onnx''),
     (''application/x-safetensors'', ''application/safetensors''),
     (''application/x-ndjson'', ''application/jsonl''),
     (''application/ndjson'', ''application/jsonl''),
     (''application/jsonlines'', ''application/jsonl''),
     (''application/x-jsonlines'', ''application/jsonl''),
     (''application/x-parquet'', ''application/vnd.apache.parquet'')]"

definition canonicalize_mime :: "string \<Rightarrow> string" where
  "canonicalize_mime mime =
     (let base = to_ascii_lowercase (str_trim (takeWhile (\<lambda>c. c \<noteq> CHR '';'') mime))
      in case map_of mime_aliases base of Some c \<Rightarrow> c | None \<Rightarrow> base)"

section \<open>The registry\<close>

record format_entry =
  fe_mime :: string
  fe_versions :: "spec_version list"

definition registry_certified :: "format_entry list" where
  "registry_certified =
    [\<lparr>fe_mime = ''application/pdf'', fe_versions = [V2_2, V2_4]\<rparr>,
     \<lparr>fe_mime = ''audio/mp4'', fe_versions = [V2_2, V2_4]\<rparr>,
     \<lparr>fe_mime = ''audio/mpeg'', fe_versions = [V2_2, V2_4]\<rparr>,
     \<lparr>fe_mime = ''audio/wav'', fe_versions = [V2_2, V2_4]\<rparr>,
     \<lparr>fe_mime = ''image/avif'', fe_versions = [V2_2, V2_4]\<rparr>,
     \<lparr>fe_mime = ''image/gif'', fe_versions = [V2_2, V2_4]\<rparr>,
     \<lparr>fe_mime = ''image/heic'', fe_versions = [V2_2, V2_4]\<rparr>,
     \<lparr>fe_mime = ''image/heif'', fe_versions = [V2_2, V2_4]\<rparr>,
     \<lparr>fe_mime = ''image/heic-sequence'', fe_versions = [V2_4]\<rparr>,
     \<lparr>fe_mime = ''image/heif-sequence'', fe_versions = [V2_4]\<rparr>,
     \<lparr>fe_mime = ''image/jpeg'', fe_versions = [V2_2, V2_4]\<rparr>,
     \<lparr>fe_mime = ''image/jxl'', fe_versions = [V2_2, V2_4]\<rparr>,
     \<lparr>fe_mime = ''image/png'', fe_versions = [V2_2, V2_4]\<rparr>,
     \<lparr>fe_mime = ''image/svg+xml'', fe_versions = [V2_2, V2_4]\<rparr>,
     \<lparr>fe_mime = ''image/tiff'', fe_versions = [V2_2, V2_4]\<rparr>,
     \<lparr>fe_mime = ''image/webp'', fe_versions = [V2_2, V2_4]\<rparr>,
     \<lparr>fe_mime = ''image/x-adobe-dng'', fe_versions = [V2_2, V2_4]\<rparr>,
     \<lparr>fe_mime = ''video/mp4'', fe_versions = [V2_2, V2_4]\<rparr>,
     \<lparr>fe_mime = ''video/quicktime'', fe_versions = [V2_2, V2_4]\<rparr>,
     \<lparr>fe_mime = ''video/x-msvideo'', fe_versions = [V2_2, V2_4]\<rparr>]"

definition registry_media :: "format_entry list" where
  "registry_media =
    [\<lparr>fe_mime = ''audio/flac'', fe_versions = [V2_4]\<rparr>,
     \<lparr>fe_mime = ''audio/ogg'', fe_versions = [V2_4]\<rparr>,
     \<lparr>fe_mime = ''video/x-m4v'', fe_versions = [V2_4]\<rparr>,
     \<lparr>fe_mime = ''application/mp4'', fe_versions = [V2_4]\<rparr>]"

definition registry_text :: "format_entry list" where
  "registry_text =
    [\<lparr>fe_mime = ''text/plain'', fe_versions = [V2_4]\<rparr>,
     \<lparr>fe_mime = ''text/csv'', fe_versions = [V2_4]\<rparr>,
     \<lparr>fe_mime = ''text/tab-separated-values'', fe_versions = [V2_4]\<rparr>,
     \<lparr>fe_mime = ''text/html'', fe_versions = [V2_4]\<rparr>,
     \<lparr>fe_mime = ''text/markdown'', fe_versions = [V2_4]\<rparr>,
     \<lparr>fe_mime = ''text/xml'', fe_versions = [V2_4]\<rparr>,
     \<lparr>fe_mime = ''application/xml'', fe_versions = [V2_4]\<rparr>,
     \<lparr>fe_mime = ''application/xhtml+xml'', fe_versions = [V2_4]\<rparr>,
     \<lparr>fe_mime = ''application/json'', fe_versions = [V2_4]\<rparr>,
     \<lparr>fe_mime = ''application/yaml'', fe_versions = [V2_4]\<rparr>,
     \<lparr>fe_mime = ''application/toml'', fe_versions = [V2_4]\<rparr>,
     \<lparr>fe_mime = ''text/css'', fe_versions = [V2_4]\<rparr>,
     \<lparr>fe_mime = ''application/javascript'', fe_versions = [V2_4]\<rparr>,
     \<lparr>fe_mime = ''text/x-python'', fe_versions = [V2_4]\<rparr>]"

definition registry_documents :: "format_entry list" where
  "registry_documents =
    [\<lparr>fe_mime = ''application/zip'', fe_versions = [V2_4]\<rparr>,
     \<lparr>fe_mime = ''application/x-zip-based'', fe_versions = [V2_4]\<rparr>,
     \<lparr>fe_mime = ''application/epub+zip'', fe_versions = [V2_4]\<rparr>,
     \<lparr>fe_mime = ''application/vnd.openxmlformats-officedocument.wordprocessingml.document'', fe_versions = [V2_4]\<rparr>,
     \<lparr>fe_mime = ''application/vnd.openxmlformats-officedocument.spreadsheetml.sheet'', fe_versions = [V2_4]\<rparr>,
     \<lparr>fe_mime = ''application/vnd.openxmlformats-officedocument.presentationml.presentation'', fe_versions = [V2_4]\<rparr>,
     \<lparr>fe_mime = ''application/vnd.openxmlformats-officedocument.wordprocessingml.template'', fe_versions = [V2_4]\<rparr>,
     \<lparr>fe_mime = ''application/vnd.ms-word.document.macroenabled.12'', fe_versions = [V2_4]\<rparr>,
     \<lparr>fe_mime = ''application/vnd.ms-word.template.macroenabled.12'', fe_versions = [V2_4]\<rparr>,
     \<lparr>fe_mime = ''application/vnd.openxmlformats-officedocument.spreadsheetml.template'', fe_versions = [V2_4]\<rparr>,
     \<lparr>fe_mime = ''application/vnd.ms-excel.sheet.macroenabled.12'', fe_versions = [V2_4]\<rparr>,
     \<lparr>fe_mime = ''application/vnd.ms-excel.template.macroenabled.12'', fe_versions = [V2_4]\<rparr>,
     \<lparr>fe_mime = ''application/vnd.ms-excel.sheet.binary.macroenabled.12'', fe_versions = [V2_4]\<rparr>,
     \<lparr>fe_mime = ''application/vnd.openxmlformats-officedocument.presentationml.template'', fe_versions = [V2_4]\<rparr>,
     \<lparr>fe_mime = ''application/vnd.openxmlformats-officedocument.presentationml.slideshow'', fe_versions = [V2_4]\<rparr>,
     \<lparr>fe_mime = ''application/vnd.ms-powerpoint.presentation.macroenabled.12'', fe_versions = [V2_4]\<rparr>,
     \<lparr>fe_mime = ''application/vnd.ms-powerpoint.template.macroenabled.12'', fe_versions = [V2_4]\<rparr>,
     \<lparr>fe_mime = ''application/vnd.ms-powerpoint.slideshow.macroenabled.12'', fe_versions = [V2_4]\<rparr>,
     \<lparr>fe_mime = ''application/vnd.ms-visio.drawing'', fe_versions = [V2_4]\<rparr>,
     \<lparr>fe_mime = ''application/vnd.ms-visio.drawing.macroenabled.12'', fe_versions = [V2_4]\<rparr>,
     \<lparr>fe_mime = ''application/vnd.ms-visio.stencil'', fe_versions = [V2_4]\<rparr>,
     \<lparr>fe_mime = ''application/vnd.ms-visio.stencil.macroenabled.12'', fe_versions = [V2_4]\<rparr>,
     \<lparr>fe_mime = ''application/vnd.ms-visio.template'', fe_versions = [V2_4]\<rparr>,
     \<lparr>fe_mime = ''application/vnd.ms-visio.template.macroenabled.12'', fe_versions = [V2_4]\<rparr>,
     \<lparr>fe_mime = ''application/vnd.oasis.opendocument.text'', fe_versions = [V2_4]\<rparr>,
     \<lparr>fe_mime = ''application/vnd.oasis.opendocument.spreadsheet'', fe_versions = [V2_4]\<rparr>,
     \<lparr>fe_mime = ''application/vnd.oasis.opendocument.presentation'', fe_versions = [V2_4]\<rparr>,
     \<lparr>fe_mime = ''application/vnd.oasis.opendocument.graphics'', fe_versions = [V2_4]\<rparr>,
     \<lparr>fe_mime = ''application/oxps'', fe_versions = [V2_4]\<rparr>,
     \<lparr>fe_mime = ''application/vnd.ms-xpsdocument'', fe_versions = [V2_4]\<rparr>,
     \<lparr>fe_mime = ''font/otf'', fe_versions = [V2_4]\<rparr>,
     \<lparr>fe_mime = ''font/ttf'', fe_versions = [V2_4]\<rparr>,
     \<lparr>fe_mime = ''font/sfnt'', fe_versions = [V2_4]\<rparr>,
     \<lparr>fe_mime = ''application/font-sfnt'', fe_versions = [V2_4]\<rparr>,
     \<lparr>fe_mime = ''application/x-font-ttf'', fe_versions = [V2_4]\<rparr>]"

definition FORMAT_REGISTRY :: "format_entry list" where
  "FORMAT_REGISTRY = registry_certified @ registry_media @ registry_text @ registry_documents"

definition mime_in_version :: "string \<Rightarrow> spec_version \<Rightarrow> bool" where
  "mime_in_version canon_mime version =
     list_ex (\<lambda>e. eq_ignore_ascii_case (fe_mime e) canon_mime \<and> version \<in> set (fe_versions e)) FORMAT_REGISTRY"

definition mime_known :: "string \<Rightarrow> bool" where
  "mime_known canon_mime = list_ex (\<lambda>e. eq_ignore_ascii_case (fe_mime e) canon_mime) FORMAT_REGISTRY"

definition version_has_scope :: "spec_version \<Rightarrow> bool" where
  "version_has_scope version = list_ex (\<lambda>e. version \<in> set (fe_versions e)) FORMAT_REGISTRY"

definition mimes_for_version :: "spec_version \<Rightarrow> string list" where
  "mimes_for_version version = map fe_mime (filter (\<lambda>e. version \<in> set (fe_versions e)) FORMAT_REGISTRY)"

definition permits_mime :: "engine_profile \<Rightarrow> string \<Rightarrow> bool" where
  "permits_mime p mime =
     (let canon = canonicalize_mime mime
      in if ep_mode p = Conformance \<and> version_has_scope (ep_version p)
         then mime_in_version canon (ep_version p) else mime_known canon)"

definition V2_5_READER_MIMES :: "string list" where
  "V2_5_READER_MIMES =
    [''application/vnd.apple.keynote'',
     ''application/vnd.apple.pages'',
     ''application/vnd.apple.numbers'',
     ''application/x-krita'',
     ''image/openraster'',
     ''application/vnd.adobe.indesign-idml-package'',
     ''application/vnd.google-earth.kmz'',
     ''model/3mf'',
     ''image/x-tiff-based'',
     ''image/x-riff-based'',
     ''video/x-riff-based'',
     ''audio/x-riff-based'',
     ''video/x-bmff-based'',
     ''application/warc'',
     ''application/ttml+xml'',
     ''application/vnd.apache.parquet'',
     ''image/vnd.blockfact.facti'',
     ''audio/vnd.blockfact.facta'',
     ''video/vnd.blockfact.factv'',
     ''audio/midi'',
     ''application/onnx'',
     ''application/safetensors'',
     ''application/jsonl'',
     ''text/vtt'',
     ''application/sql'',
     ''application/x-sh'',
     ''application/postscript'',
     ''application/x-tex'',
     ''application/x-latex'']"

definition is_ascii_alphanumeric :: "char \<Rightarrow> bool" where
  "is_ascii_alphanumeric c =
     (let n = of_char c :: nat in (48 \<le> n \<and> n \<le> 57) \<or> (65 \<le> n \<and> n \<le> 90) \<or> (97 \<le> n \<and> n \<le> 122))"

definition is_open_document_family :: "string \<Rightarrow> bool" where
  "is_open_document_family canon_mime =
     (let p = ''application/vnd.oasis.opendocument.''
      in prefix p canon_mime \<and> drop (length p) canon_mime \<noteq> []
         \<and> list_all (\<lambda>c. is_ascii_alphanumeric c \<or> c \<in> set ''!#$&-^_.+'') (drop (length p) canon_mime))"

definition reader_permits :: "string \<Rightarrow> spec_version \<Rightarrow> bool" where
  "reader_permits canon_mime version =
     (if version = V2_2 then mime_in_version canon_mime V2_2
      else if mime_in_version canon_mime V2_4 then True
      else version = V2_5
           \<and> (canon_mime \<in> set V2_5_READER_MIMES \<or> is_open_document_family canon_mime
              \<or> prefix ''text/'' canon_mime \<or> suffix ''+xml'' canon_mime))"

definition v2_2_certified_mimes :: "string list" where
  "v2_2_certified_mimes = mimes_for_version V2_2 @ [''audio/MPA'', ''audio/aac'']"

section \<open>Lemmas\<close>

lemma ascii_lower_idem [simp]: "ascii_lower (ascii_lower c) = ascii_lower c"
proof -
  have "of_char (char_of (n + 32) :: char) = n + 32" if "n \<le> 90" for n :: nat
    using that by (simp add: of_char_mod_256)
  then show ?thesis by (auto simp: ascii_lower_def Let_def)
qed

lemma lowercase_idem [simp]: "to_ascii_lowercase (to_ascii_lowercase s) = to_ascii_lowercase s"
  by (simp add: to_ascii_lowercase_def)

lemma registry_scopes: "\<forall>e \<in> set FORMAT_REGISTRY. V2_2 \<in> set (fe_versions e) \<longrightarrow> V2_4 \<in> set (fe_versions e)"
  by (simp add: FORMAT_REGISTRY_def registry_certified_def registry_media_def registry_text_def registry_documents_def)

lemma mime_in_version_mono: "mime_in_version m V2_2 \<Longrightarrow> mime_in_version m V2_4"
  using registry_scopes by (auto simp: mime_in_version_def list_ex_iff)

lemma version_has_scope_iff: "version_has_scope v \<longleftrightarrow> v = V2_2 \<or> v = V2_4"
  by (cases v) (simp_all add: version_has_scope_def FORMAT_REGISTRY_def registry_certified_def registry_media_def
      registry_text_def registry_documents_def)

text \<open>Trimming and canonicalisation are idempotent.\<close>

definition trimmed :: "string \<Rightarrow> bool" where
  "trimmed s \<longleftrightarrow> (\<forall>w \<in> set white_space. \<not> prefix w s \<and> \<not> suffix w s)"

lemma trim_start_ok: "suffix (trim_start s) s \<and> (\<forall>w \<in> set white_space. \<not> prefix w (trim_start s))"
proof (induction s rule: trim_start.induct)
  case (1 s)
  show ?case
  proof (cases "find (\<lambda>w. prefix w s) white_space")
    case None
    then have "trim_start s = s" by (subst trim_start.simps) simp
    with None show ?thesis by (auto simp: find_None_iff)
  next
    case (Some w)
    with 1 [OF Some] have "suffix (trim_start (drop (length w) s)) s"
      using suffix_drop suffix_order.order_trans by blast
    with 1 [OF Some] Some show ?thesis by (subst (1 2) trim_start.simps) simp
  qed
qed

lemma trim_end_ok: "prefix (trim_end s) s \<and> (\<forall>w \<in> set white_space. \<not> suffix w (trim_end s))"
proof (induction s rule: trim_end.induct)
  case (1 s)
  show ?case
  proof (cases "find (\<lambda>w. suffix w s) white_space")
    case None
    then have "trim_end s = s" by (subst trim_end.simps) simp
    with None show ?thesis by (auto simp: find_None_iff)
  next
    case (Some w)
    with 1 [OF Some] have "prefix (trim_end (take (length s - length w) s)) s"
      using take_is_prefix prefix_order.order_trans by blast
    with 1 [OF Some] Some show ?thesis by (subst (1 2) trim_end.simps) simp
  qed
qed

lemma trimmed_str_trim: "trimmed (str_trim s)"
proof -
  have "prefix w (trim_start s)" if "prefix w (trim_end (trim_start s))" for w
    using that trim_end_ok [of "trim_start s"] prefix_order.order_trans by blast
  with trim_start_ok [of s] trim_end_ok [of "trim_start s"] show ?thesis by (auto simp: trimmed_def str_trim_def)
qed

lemma set_str_trim: "set (str_trim s) \<subseteq> set s"
  using trim_start_ok [of s] trim_end_ok [of "trim_start s"]
  by (auto simp: str_trim_def dest!: set_mono_prefix set_mono_suffix)

lemma str_trim_trimmed: "trimmed s \<Longrightarrow> str_trim s = s"
proof -
  assume t: "trimmed s"
  then have "find (\<lambda>w. prefix w s) white_space = None" "find (\<lambda>w. suffix w s) white_space = None"
    by (auto simp: trimmed_def find_None_iff)
  then show ?thesis by (simp add: str_trim_def trim_start.simps trim_end.simps)
qed

lemma ascii_lower_other: "ascii_lower c = d \<Longrightarrow> \<not> (97 \<le> (of_char d :: nat) \<and> (of_char d :: nat) \<le> 122) \<Longrightarrow> c = d"
proof -
  have "of_char (char_of (n + 32) :: char) = n + 32" if "n \<le> 90" for n :: nat
    using that by (simp add: of_char_mod_256)
  then show "ascii_lower c = d \<Longrightarrow> \<not> (97 \<le> (of_char d :: nat) \<and> (of_char d :: nat) \<le> 122) \<Longrightarrow> c = d"
    by (auto simp: ascii_lower_def Let_def split: if_splits)
qed

lemma white_space_no_letter:
  "w \<in> set white_space \<Longrightarrow> d \<in> set w \<Longrightarrow> \<not> (97 \<le> (of_char d :: nat) \<and> (of_char d :: nat) \<le> 122)"
  by (auto simp: white_space_def)

lemma map_lower_white:
  assumes "w \<in> set white_space" and "map ascii_lower v = w"
  shows "v = w"
proof -
  have "c = ascii_lower c" if "c \<in> set v" for c
    using that assms ascii_lower_other [of c "ascii_lower c"] white_space_no_letter [of w "ascii_lower c"] by auto
  then have "map ascii_lower v = v" by (intro map_idI) metis
  with assms show ?thesis by simp
qed

lemma trimmed_lower: "trimmed s \<Longrightarrow> trimmed (to_ascii_lowercase s)"
proof (rule ccontr)
  assume t: "trimmed s" and "\<not> trimmed (to_ascii_lowercase s)"
  then obtain w where w: "w \<in> set white_space"
    and "prefix w (map ascii_lower s) \<or> suffix w (map ascii_lower s)"
    by (auto simp: trimmed_def to_ascii_lowercase_def)
  then consider zs where "map ascii_lower s = w @ zs" | zs where "map ascii_lower s = zs @ w"
    by (auto simp: prefix_def suffix_def)
  then consider "map ascii_lower (take (length w) s) = w"
    | "map ascii_lower (drop (length s - length w) s) = w"
  proof cases
    case 1
    then have "map ascii_lower (take (length w) s) = w" by (simp add: take_map [symmetric])
    then show ?thesis by (rule that)
  next
    case 2
    from arg_cong [OF this, of length] have "length s - length w = length zs" by simp
    with 2 have "map ascii_lower (drop (length s - length w) s) = w" by (simp add: drop_map [symmetric])
    then show ?thesis by (rule that)
  qed
  then show False
  proof cases
    case 1
    from map_lower_white [OF w 1] have "prefix w s" by (metis take_is_prefix)
    with t w show False by (auto simp: trimmed_def)
  next
    case 2
    from map_lower_white [OF w 2] have "suffix w s" by (metis suffix_drop)
    with t w show False by (auto simp: trimmed_def)
  qed
qed

lemma mime_aliases_canonical: "list_all (\<lambda>(k, c). canonicalize_mime c = c) mime_aliases"
  by code_simp

lemma canonicalize_mime_idem: "canonicalize_mime (canonicalize_mime m) = canonicalize_mime m"
proof -
  define base where "base = to_ascii_lowercase (str_trim (takeWhile (\<lambda>c. c \<noteq> CHR '';'') m))"
  have eq: "canonicalize_mime m = (case map_of mime_aliases base of Some c \<Rightarrow> c | None \<Rightarrow> base)"
    unfolding canonicalize_mime_def Let_def base_def by (rule refl)
  show ?thesis
  proof (cases "map_of mime_aliases base")
    case (Some c)
    then have "(base, c) \<in> set mime_aliases" by (rule map_of_SomeD)
    with mime_aliases_canonical have "canonicalize_mime c = c" by (auto simp: list_all_iff)
    with eq Some show ?thesis by simp
  next
    case None
    have "c \<noteq> CHR '';''" if "c \<in> set base" for c
    proof
      assume "c = CHR '';''"
      from that obtain d where d: "d \<in> set (str_trim (takeWhile (\<lambda>c. c \<noteq> CHR '';'') m))" "ascii_lower d = c"
        by (auto simp: base_def to_ascii_lowercase_def)
      from ascii_lower_other [OF d(2)] \<open>c = CHR '';''\<close> have "d = CHR '';''" by simp
      with d(1) set_str_trim show False by (auto dest!: set_takeWhileD subsetD)
    qed
    then have t: "takeWhile (\<lambda>c. c \<noteq> CHR '';'') base = base" by simp
    have "str_trim base = base" unfolding base_def by (intro str_trim_trimmed trimmed_lower trimmed_str_trim)
    moreover have "to_ascii_lowercase base = base" by (simp add: base_def)
    ultimately have "canonicalize_mime base = (case map_of mime_aliases base of Some c \<Rightarrow> c | None \<Rightarrow> base)"
      by (simp only: canonicalize_mime_def Let_def t)
    with None eq show ?thesis by simp
  qed
qed

end
