(* ===== verification/Validation_Results.thy ===== *)
theory Validation_Results
  imports Network_Needs Engine_Profile
begin

text \<open>
  The status codes a verification collects and the verdict drawn from them: the result types and the
  state and report assembly of \<^verbatim>\<open>c2pa-validate/lib.rs\<close>, and the conformance-program upgrades of
  \<^verbatim>\<open>c2pa-validate/program.rs\<close>.
\<close>

section \<open>Results\<close>

datatype validation_state = Valid | Invalid | Trusted | NoProvenance

fun state_str :: "validation_state \<Rightarrow> string" where
  "state_str Valid = ''Valid''"
| "state_str Invalid = ''Invalid''"
| "state_str Trusted = ''Trusted''"
| "state_str NoProvenance = ''None''"

record status_code =
  sc_code :: string
  sc_url :: string
  sc_resource_url :: "string option"
  sc_explanation :: string
  sc_details :: "json option"

record trust_source =
  ts_uri :: string
  ts_source_type :: string
  ts_identifier :: "string option"

record validation_results =
  success :: "status_code list"
  informational :: "status_code list"
  failure :: "status_code list"
  network_needs :: "network_need list"
  trust_list_sources :: "trust_source list"

definition results_default :: validation_results where
  "results_default = \<lparr>success = [], informational = [], failure = [], network_needs = [], trust_list_sources = []\<rparr>"

definition has_success :: "validation_results \<Rightarrow> string \<Rightarrow> bool" where
  "has_success r code = list_ex (\<lambda>s. sc_code s = code) (success r)"

definition has_failure :: "validation_results \<Rightarrow> string \<Rightarrow> bool" where
  "has_failure r code = list_ex (\<lambda>s. sc_code s = code) (failure r)"

definition has_informational :: "validation_results \<Rightarrow> string \<Rightarrow> bool" where
  "has_informational r code = list_ex (\<lambda>s. sc_code s = code) (informational r)"

definition status :: "string \<Rightarrow> string \<Rightarrow> string \<Rightarrow> json option \<Rightarrow> status_code" where
  "status code url explanation details =
     \<lparr>sc_code = code, sc_url = url, sc_resource_url = None, sc_explanation = explanation, sc_details = details\<rparr>"

definition push_success :: "string \<Rightarrow> string \<Rightarrow> string \<Rightarrow> validation_results \<Rightarrow> validation_results" where
  "push_success code url explanation r = r\<lparr>success := success r @ [status code url explanation None]\<rparr>"

definition push_success_with_details ::
    "string \<Rightarrow> string \<Rightarrow> string \<Rightarrow> json \<Rightarrow> validation_results \<Rightarrow> validation_results" where
  "push_success_with_details code url explanation details r =
     r\<lparr>success := success r @ [status code url explanation (Some details)]\<rparr>"

definition push_failure :: "string \<Rightarrow> string \<Rightarrow> string \<Rightarrow> validation_results \<Rightarrow> validation_results" where
  "push_failure code url explanation r = r\<lparr>failure := failure r @ [status code url explanation None]\<rparr>"

definition push_failure_with_details ::
    "string \<Rightarrow> string \<Rightarrow> string \<Rightarrow> json \<Rightarrow> validation_results \<Rightarrow> validation_results" where
  "push_failure_with_details code url explanation details r =
     r\<lparr>failure := failure r @ [status code url explanation (Some details)]\<rparr>"

definition push_informational :: "string \<Rightarrow> string \<Rightarrow> string \<Rightarrow> validation_results \<Rightarrow> validation_results" where
  "push_informational code url explanation r =
     r\<lparr>informational := informational r @ [status code url explanation None]\<rparr>"

definition push_informational_with_details ::
    "string \<Rightarrow> string \<Rightarrow> string \<Rightarrow> json \<Rightarrow> validation_results \<Rightarrow> validation_results" where
  "push_informational_with_details code url explanation details r =
     r\<lparr>informational := informational r @ [status code url explanation (Some details)]\<rparr>"

section \<open>Codes\<close>

definition CLAIM_SIGNATURE_OUTSIDE_VALIDITY :: string where "CLAIM_SIGNATURE_OUTSIDE_VALIDITY = ''claimSignature.outsideValidity''"
definition ASSERTION_HASHED_URI_MISMATCH :: string where "ASSERTION_HASHED_URI_MISMATCH = ''assertion.hashedURI.mismatch''"
definition SIGNING_CREDENTIAL_TRUSTED :: string where "SIGNING_CREDENTIAL_TRUSTED = ''signingCredential.trusted''"
definition SIGNING_CREDENTIAL_UNTRUSTED :: string where "SIGNING_CREDENTIAL_UNTRUSTED = ''signingCredential.untrusted''"
definition SIGNING_CREDENTIAL_OCSP_REVOKED :: string where "SIGNING_CREDENTIAL_OCSP_REVOKED = ''signingCredential.ocsp.revoked''"
definition SIGNING_CREDENTIAL_OCSP_SKIPPED :: string where "SIGNING_CREDENTIAL_OCSP_SKIPPED = ''signingCredential.ocsp.skipped''"
definition SIGNING_CREDENTIAL_OCSP_INACCESSIBLE :: string where "SIGNING_CREDENTIAL_OCSP_INACCESSIBLE = ''signingCredential.ocsp.inaccessible''"
definition SIGNING_CREDENTIAL_OCSP_UNKNOWN :: string where "SIGNING_CREDENTIAL_OCSP_UNKNOWN = ''signingCredential.ocsp.unknown''"
definition TIME_STAMP_UNTRUSTED :: string where "TIME_STAMP_UNTRUSTED = ''timeStamp.untrusted''"
definition TIME_STAMP_TRUSTED :: string where "TIME_STAMP_TRUSTED = ''timeStamp.trusted''"
definition TIME_STAMP_OUTSIDE_VALIDITY :: string where "TIME_STAMP_OUTSIDE_VALIDITY = ''timeStamp.outsideValidity''"
definition CLAIM_MISSING :: string where "CLAIM_MISSING = ''claim.missing''"
definition ASSERTION_INACCESSIBLE :: string where "ASSERTION_INACCESSIBLE = ''assertion.inaccessible''"
definition CONFORMANCE_OUT_OF_SCOPE :: string where "CONFORMANCE_OUT_OF_SCOPE = ''com.encypher.conformance.outOfScope''"
definition CONFORMANCE_SPEC_VERSION_NONCONFORMANT :: string where "CONFORMANCE_SPEC_VERSION_NONCONFORMANT = ''com.encypher.conformance.specVersionNonConformant''"
definition PROGRAM_REVOCATION_INFORMATION_MISSING :: string where "PROGRAM_REVOCATION_INFORMATION_MISSING = ''com.encypher.conformance.revocationInformationMissing''"
definition PROGRAM_TRUSTED_TIMESTAMP_MISSING :: string where "PROGRAM_TRUSTED_TIMESTAMP_MISSING = ''com.encypher.conformance.trustedTimeStampMissing''"

section \<open>The conformance program\<close>

definition PROGRAM_FAILURE_CODES :: "string list" where
  "PROGRAM_FAILURE_CODES = [PROGRAM_REVOCATION_INFORMATION_MISSING, PROGRAM_TRUSTED_TIMESTAMP_MISSING]"

definition apply_compliance_upgrades :: "validation_results \<Rightarrow> compliance_level \<Rightarrow> string \<Rightarrow> validation_results" where
  "apply_compliance_upgrades results compliance sig_url =
     (if compliance \<noteq> ConformanceProgram then results
      else let results =
                 (if has_informational results SIGNING_CREDENTIAL_OCSP_SKIPPED
                     \<or> has_informational results SIGNING_CREDENTIAL_OCSP_UNKNOWN
                     \<or> has_informational results SIGNING_CREDENTIAL_OCSP_INACCESSIBLE
                  then push_failure PROGRAM_REVOCATION_INFORMATION_MISSING sig_url
                         ''conformance program requires usable revocation information (SHALL); the core spec reports this as signingCredential.ocsp.skipped, .unknown, or .inaccessible'' results
                  else results)
           in if \<not> has_success results TIME_STAMP_TRUSTED
              then push_failure PROGRAM_TRUSTED_TIMESTAMP_MISSING sig_url
                     ''conformance program requires a trusted time-stamp (SHALL)'' results
              else results)"

section \<open>The verdict\<close>

definition REGULAR_INTEGRITY_CAVEATS :: "string list" where
  "REGULAR_INTEGRITY_CAVEATS =
     [SIGNING_CREDENTIAL_UNTRUSTED, CLAIM_SIGNATURE_OUTSIDE_VALIDITY, SIGNING_CREDENTIAL_OCSP_SKIPPED,
      SIGNING_CREDENTIAL_OCSP_REVOKED, TIME_STAMP_UNTRUSTED, TIME_STAMP_OUTSIDE_VALIDITY,
      PROGRAM_REVOCATION_INFORMATION_MISSING, PROGRAM_TRUSTED_TIMESTAMP_MISSING,
      CONFORMANCE_OUT_OF_SCOPE, CONFORMANCE_SPEC_VERSION_NONCONFORMANT]"

definition is_generous :: "engine_profile \<Rightarrow> bool" where
  "is_generous p \<longleftrightarrow> ep_mode p = Regular \<and> ep_compliance p = CoreSpec"

definition is_identity_assertion_scoped :: "string \<Rightarrow> bool" where
  "is_identity_assertion_scoped code \<longleftrightarrow> prefix ''cawg.'' code \<or> prefix ''com.encypher.cawg.'' code"

definition is_external_data_scoped :: "status_code \<Rightarrow> bool" where
  "is_external_data_scoped s =
     (if sc_code s = ASSERTION_INACCESSIBLE then True
      else sc_code s = ASSERTION_HASHED_URI_MISMATCH
           \<and> Option.bind (Option.bind (sc_details s) (\<lambda>d. json_get d ''external_data'')) json_as_bool = Some True)"

definition is_construction_integrity_invalidating :: "status_code \<Rightarrow> bool" where
  "is_construction_integrity_invalidating s \<longleftrightarrow>
     sc_code s \<notin> set REGULAR_INTEGRITY_CAVEATS \<and> \<not> is_identity_assertion_scoped (sc_code s)
     \<and> \<not> is_external_data_scoped s"

definition is_integrity_invalidating :: "status_code \<Rightarrow> engine_profile \<Rightarrow> bool" where
  "is_integrity_invalidating s profile =
     (if is_generous profile then is_construction_integrity_invalidating s
      else sc_code s \<noteq> SIGNING_CREDENTIAL_UNTRUSTED \<and> \<not> is_identity_assertion_scoped (sc_code s)
           \<and> \<not> is_external_data_scoped s)"

definition is_surfaced_caveat :: "string \<Rightarrow> bool" where
  "is_surfaced_caveat code \<longleftrightarrow> code \<noteq> SIGNING_CREDENTIAL_UNTRUSTED \<and> code \<in> set REGULAR_INTEGRITY_CAVEATS"

definition compute_state :: "validation_results \<Rightarrow> engine_profile \<Rightarrow> validation_state" where
  "compute_state results profile =
     (if list_ex (\<lambda>s. is_integrity_invalidating s profile) (failure results) then Invalid
      else if has_success results SIGNING_CREDENTIAL_TRUSTED then Trusted
      else Valid)"

text \<open>The two axes of the provenance verdict, before they are rendered.\<close>

definition strict_credential_failure :: "validation_results \<Rightarrow> engine_profile \<Rightarrow> bool" where
  "strict_credential_failure results profile \<longleftrightarrow>
     \<not> is_generous profile
     \<and> list_ex (\<lambda>s. sc_code s = SIGNING_CREDENTIAL_OCSP_REVOKED \<or> sc_code s = CLAIM_SIGNATURE_OUTSIDE_VALIDITY)
         (failure results)"

definition integrity_invalid :: "validation_results \<Rightarrow> bool \<Rightarrow> engine_profile \<Rightarrow> bool" where
  "integrity_invalid results present profile \<longleftrightarrow>
     \<not> present \<or> strict_credential_failure results profile
     \<or> list_ex is_construction_integrity_invalidating (failure results)"

definition credential_trusted :: "validation_results \<Rightarrow> bool" where
  "credential_trusted results \<longleftrightarrow>
     has_success results SIGNING_CREDENTIAL_TRUSTED \<and> \<not> has_failure results SIGNING_CREDENTIAL_OCSP_REVOKED"

definition verdict_trust :: "validation_results \<Rightarrow> bool \<Rightarrow> engine_profile \<Rightarrow> string" where
  "verdict_trust results present profile =
     (if \<not> present then ''unknown''
      else if \<not> integrity_invalid results present profile \<and> credential_trusted results then ''trusted''
      else ''untrusted'')"

definition verdict_caveats :: "validation_results \<Rightarrow> string list" where
  "verdict_caveats results =
     foldl (\<lambda>caveats s. if is_surfaced_caveat (sc_code s) \<and> sc_code s \<notin> set caveats
                        then caveats @ [sc_code s] else caveats)
       [] (failure results @ informational results)"

definition provenance_verdict_json :: "validation_results \<Rightarrow> bool \<Rightarrow> engine_profile \<Rightarrow> json" where
  "provenance_verdict_json results present profile =
     JObject [(''present'', JBool present),
              (''integrity'', JString (if integrity_invalid results present profile then ''invalid'' else ''valid'')),
              (''trust'', JString (verdict_trust results present profile)),
              (''caveats'', JArray (map JString (verdict_caveats results)))]"

end
