(* ===== verification/Versions.thy ===== *)
theory Versions
  imports Validation_Results Cbor Jumbf Format_Common
begin

text \<open>
  The version ladder of \<^verbatim>\<open>c2pa-validate/versions.rs\<close>: for every specification revision up to a ceiling,
  whether the observable structure of a manifest conforms to that revision's creation rules, and the
  revision the manifest validated under.
\<close>

section \<open>Reading claims\<close>

definition get_field :: "cbor_value \<Rightarrow> string \<Rightarrow> cbor_value option" where
  "get_field v key = value_get v (ascii key)"

definition text_field :: "cbor_value \<Rightarrow> string \<Rightarrow> string option" where
  "text_field v key = map_option str_of_bytes (Option.bind (get_field v key) as_text)"

definition HISTORICAL_CEILING :: spec_version where "HISTORICAL_CEILING = V2_4"

definition ladder_ceiling :: "spec_version \<Rightarrow> spec_version" where "ladder_ceiling policy = policy"

datatype claim_generation = ClaimV1 | ClaimV2

fun generation_as_u8 :: "claim_generation \<Rightarrow> nat" where
  "generation_as_u8 ClaimV1 = 1"
| "generation_as_u8 ClaimV2 = 2"

definition claim_generation_of :: "parsed_manifest \<Rightarrow> cbor_value \<Rightarrow> claim_generation" where
  "claim_generation_of manifest claim =
     (if claim_box_label manifest = Some (ascii ''c2pa.claim.v2'') then ClaimV2
      else if claim_box_label manifest = Some (ascii ''c2pa.claim'') then ClaimV1
      else if get_field claim ''created_assertions'' \<noteq> None \<or> get_field claim ''gathered_assertions'' \<noteq> None then ClaimV2
      else if get_field claim ''assertions'' \<noteq> None \<or> get_field claim ''claim_generator'' \<noteq> None then ClaimV1
      else ClaimV2)"

definition declared_spec_version :: "cbor_value \<Rightarrow> string option" where
  "declared_spec_version claim =
     Option.bind (get_field claim ''claim_generator_info'') (\<lambda>info.
       case info of
         Array items \<Rightarrow> (case items of [] \<Rightarrow> None | entry # _ \<Rightarrow> text_field entry ''specVersion'')
       | other \<Rightarrow> text_field other ''specVersion'')"

section \<open>Schema checks\<close>

definition is_ascii_digit :: "char \<Rightarrow> bool" where
  "is_ascii_digit c = (let n = of_char c :: nat in 48 \<le> n \<and> n \<le> 57)"

definition is_ascii_lowercase :: "char \<Rightarrow> bool" where
  "is_ascii_lowercase c = (let n = of_char c :: nat in 97 \<le> n \<and> n \<le> 122)"

definition semver_identifier_is_valid :: "string \<Rightarrow> bool \<Rightarrow> bool" where
  "semver_identifier_is_valid identifier reject_numeric_leading_zero \<longleftrightarrow>
     identifier \<noteq> [] \<and> list_all (\<lambda>c. is_ascii_alphanumeric c \<or> c = CHR ''-'') identifier
     \<and> \<not> (reject_numeric_leading_zero \<and> length identifier > 1 \<and> list_all is_ascii_digit identifier
          \<and> prefix ''0'' identifier)"

text \<open>The optional part after a separator: absent, or present once with valid identifiers.\<close>

definition semver_part_ok :: "bool \<Rightarrow> string list \<Rightarrow> bool" where
  "semver_part_ok reject_zero rest =
     (case rest of
        [] \<Rightarrow> True
      | part # others \<Rightarrow> others = [] \<and> list_all (\<lambda>i. semver_identifier_is_valid i reject_zero) (split_on CHR ''.'' part))"

definition semver_core_ok :: "string \<Rightarrow> bool" where
  "semver_core_ok core =
     (let components = split_on CHR ''.'' core
      in length components = 3
         \<and> list_all (\<lambda>c. c \<noteq> [] \<and> list_all is_ascii_digit c \<and> (c = ''0'' \<or> \<not> prefix ''0'' c)) components)"

definition semver_is_valid :: "string \<Rightarrow> bool" where
  "semver_is_valid version =
     (let build_split = split_on CHR ''+'' version
      in if hd build_split = [] then False
         else if \<not> semver_part_ok False (tl build_split) then False
         else let prerelease_split = split_on CHR ''-'' (hd build_split)
              in if \<not> semver_part_ok True (tl prerelease_split) then False
                 else semver_core_ok (hd prerelease_split))"

definition non_semver_declared_spec_version :: "cbor_value \<Rightarrow> string option" where
  "non_semver_declared_spec_version claim =
     (case declared_spec_version claim of
        None \<Rightarrow> None
      | Some version \<Rightarrow> if semver_is_valid version then None else Some version)"

definition optional_text_member_is_valid :: "cbor_value \<Rightarrow> string \<Rightarrow> bool" where
  "optional_text_member_is_valid v key \<longleftrightarrow> get_field v key = None \<or> text_field v key \<noteq> None"

definition declared_spec_revision :: "string \<Rightarrow> spec_version option" where
  "declared_spec_revision version =
     (let core = takeWhile (\<lambda>c. c \<noteq> CHR ''-'' \<and> c \<noteq> CHR ''+'') version
      in case split_on CHR ''.'' core of
           [major, minor, patch] \<Rightarrow> if patch \<noteq> ''0'' then None else version_from_str (major @ ''.'' @ minor)
         | _ \<Rightarrow> None)"

definition strip_prefix :: "string \<Rightarrow> string \<Rightarrow> string option" where
  "strip_prefix p s = (if prefix p s then Some (drop (length p) s) else None)"

text \<open>\<open>rsplit_once\<close> and \<open>split_once\<close>: around the last and around the first separator.\<close>

definition rsplit_once :: "char \<Rightarrow> string \<Rightarrow> (string \<times> string) option" where
  "rsplit_once c s =
     (if c \<in> set s
      then let suffix_part = rev (takeWhile (\<lambda>x. x \<noteq> c) (rev s))
           in Some (take (length s - length suffix_part - 1) s, suffix_part)
      else None)"

definition split_once :: "char \<Rightarrow> string \<Rightarrow> (string \<times> string) option" where
  "split_once c s =
     (if c \<in> set s then Some (takeWhile (\<lambda>x. x \<noteq> c) s, tl (dropWhile (\<lambda>x. x \<noteq> c) s)) else None)"

definition external_url_is_valid :: "string \<Rightarrow> bool" where
  "external_url_is_valid url =
     (case (case strip_prefix ''https://'' url of Some r \<Rightarrow> Some r | None \<Rightarrow> strip_prefix ''http://'' url) of
        None \<Rightarrow> False
      | Some remainder \<Rightarrow>
          let authority = takeWhile (\<lambda>c. c \<noteq> CHR ''/'' \<and> c \<noteq> CHR ''?'' \<and> c \<noteq> CHR ''#'') remainder;
              host = hd (split_on CHR '':'' (last (split_on CHR ''@'' authority)))
          in case rsplit_once CHR ''.'' host of
               None \<Rightarrow> False
             | Some (domain, suffix_part) \<Rightarrow>
                 length domain \<ge> 2 \<and> 2 \<le> length suffix_part \<and> length suffix_part \<le> 6
                 \<and> list_all is_ascii_lowercase suffix_part)"

definition format_string_is_valid :: "string \<Rightarrow> bool" where
  "format_string_is_valid format =
     (case split_once CHR ''/'' format of
        None \<Rightarrow> False
      | Some (kind, subtype) \<Rightarrow>
          kind \<noteq> [] \<and> subtype \<noteq> []
          \<and> list_all (\<lambda>c. is_ascii_alphanumeric c \<or> c = CHR ''_'') kind
          \<and> list_all (\<lambda>c. is_ascii_alphanumeric c \<or> c \<in> {CHR ''_'', CHR ''-'', CHR ''+'', CHR ''.''}) subtype)"

definition is_map :: "cbor_value \<Rightarrow> bool" where
  "is_map v = (case v of Map _ \<Rightarrow> True | _ \<Rightarrow> False)"

definition asset_type_map_is_valid :: "cbor_value \<Rightarrow> bool" where
  "asset_type_map_is_valid v \<longleftrightarrow>
     is_map v
     \<and> (case text_field v ''type'' of
          None \<Rightarrow> False
        | Some asset_type \<Rightarrow>
            CHR ''.'' \<in> set asset_type
            \<and> list_all (\<lambda>component. component \<noteq> []
                 \<and> list_all (\<lambda>c. is_ascii_alphanumeric c \<or> c = CHR ''_'' \<or> c = CHR ''-'') component)
                (split_on CHR ''.'' asset_type))
     \<and> (case get_field v ''version'' of
          None \<Rightarrow> True
        | Some _ \<Rightarrow> (case text_field v ''version'' of Some s \<Rightarrow> semver_is_valid s | None \<Rightarrow> False))"

definition hashed_uri_map_is_valid :: "cbor_value \<Rightarrow> bool" where
  "hashed_uri_map_is_valid v =
     (case text_field v ''url'' of
        None \<Rightarrow> False
      | Some url \<Rightarrow>
          if url = [] \<or> (case Option.bind (get_field v ''hash'') as_bytes of None \<Rightarrow> True | Some hash \<Rightarrow> hash = [])
          then False
          else let local = prefix ''self#jumbf='' url; external = external_url_is_valid url
               in if \<not> local \<and> \<not> external then False
                  else if external \<and> (case text_field v ''alg'' of None \<Rightarrow> True | Some algorithm \<Rightarrow> algorithm = [])
                  then False
                  else optional_text_member_is_valid v ''alg''
                       \<and> (case get_field v ''dc:format'' of
                            None \<Rightarrow> True
                          | Some _ \<Rightarrow> (case text_field v ''dc:format'' of Some f \<Rightarrow> format_string_is_valid f | None \<Rightarrow> False))
                       \<and> (case get_field v ''size'' of None \<Rightarrow> True | Some (Integer n) \<Rightarrow> n > 0 | Some _ \<Rightarrow> False)
                       \<and> (case get_field v ''data_types'' of
                            None \<Rightarrow> True
                          | Some (Array items) \<Rightarrow> items \<noteq> [] \<and> list_all asset_type_map_is_valid items
                          | Some _ \<Rightarrow> False))"

definition generator_info_map_is_valid :: "cbor_value \<Rightarrow> bool" where
  "generator_info_map_is_valid v \<longleftrightarrow>
     is_map v
     \<and> (case text_field v ''name'' of Some name \<Rightarrow> name \<noteq> [] | None \<Rightarrow> False)
     \<and> optional_text_member_is_valid v ''version''
     \<and> optional_text_member_is_valid v ''operating_system''
     \<and> optional_text_member_is_valid v ''specVersion''
     \<and> (case get_field v ''icon'' of None \<Rightarrow> True | Some icon \<Rightarrow> hashed_uri_map_is_valid icon)"

definition nonempty_array :: "cbor_value option \<Rightarrow> bool" where
  "nonempty_array v = (case v of Some (Array a) \<Rightarrow> a \<noteq> [] | _ \<Rightarrow> False)"

definition empty_or_absent :: "string option \<Rightarrow> bool" where
  "empty_or_absent s = (case s of None \<Rightarrow> True | Some t \<Rightarrow> t = [])"

definition v1_missing_fields :: "cbor_value \<Rightarrow> string list" where
  "v1_missing_fields claim =
     (if empty_or_absent (text_field claim ''instanceID'') then [''instanceID''] else [])
     @ (if text_field claim ''claim_generator'' = None then [''claim_generator''] else [])
     @ (if text_field claim ''dc:format'' = None then [''dc:format''] else [])
     @ (if \<not> nonempty_array (get_field claim ''assertions'') then [''assertions''] else [])
     @ (if empty_or_absent (text_field claim ''signature'') then [''signature''] else [])
     @ (if \<not> (case get_field claim ''claim_generator_info'' of
                 Some (Array entries) \<Rightarrow> entries \<noteq> [] \<and> list_all generator_info_map_is_valid entries
               | _ \<Rightarrow> False) then [''claim_generator_info''] else [])"

definition v2_missing_fields :: "cbor_value \<Rightarrow> string list" where
  "v2_missing_fields claim =
     (if empty_or_absent (text_field claim ''instanceID'') then [''instanceID''] else [])
     @ (if \<not> (case get_field claim ''claim_generator_info'' of
                 Some info \<Rightarrow> generator_info_map_is_valid info | None \<Rightarrow> False) then [''claim_generator_info''] else [])
     @ (if \<not> nonempty_array (get_field claim ''created_assertions'') then [''created_assertions''] else [])
     @ (if empty_or_absent (text_field claim ''signature'') then [''signature''] else [])"

section \<open>Feature minimums\<close>

definition assertion_min_version :: "string \<Rightarrow> spec_version option" where
  "assertion_min_version label =
     (if prefix ''c2pa.linked-resource-integrity'' label \<or> prefix ''c2pa.hash.segment'' label then Some V2_5
      else if prefix ''c2pa.hash.multi-asset'' label \<or> prefix ''c2pa.hash.data.part'' label then Some V2_2
      else if prefix ''c2pa.ingredient.v3'' label \<or> prefix ''c2pa.hash.collection'' label then Some V2_1
      else None)"

definition is_actions_v2_label :: "string \<Rightarrow> bool" where
  "is_actions_v2_label label \<longleftrightarrow> label = ''c2pa.actions.v2'' \<or> prefix ''c2pa.actions.v2__'' label"

definition is_actions_label :: "string \<Rightarrow> bool" where
  "is_actions_label label \<longleftrightarrow>
     is_actions_v2_label label \<or> label = ''c2pa.actions'' \<or> prefix ''c2pa.actions__'' label"

definition writes_removed :: "cbor_value \<Rightarrow> bool" where
  "writes_removed assertion =
     (case get_field assertion ''actions'' of
        Some (Array actions) \<Rightarrow> list_ex (\<lambda>action. text_field action ''action'' = Some ''c2pa.removed'') actions
      | _ \<Rightarrow> False)"

definition quoted :: "string \<Rightarrow> string" where
  "quoted s = [char_of (39::nat)] @ s @ [char_of (39::nat)]"

text \<open>One assertion of the loop: the reasons and the deprecation notes it adds.\<close>

definition actions_finding :: "bytes \<times> bytes \<Rightarrow> string list \<times> string list" where
  "actions_finding = (\<lambda>(label_bytes, payload).
     let label = str_of_bytes label_bytes
     in if \<not> is_actions_label label then ([], [])
        else case decode payload of
               Inl _ \<Rightarrow> ([], [])
             | Inr assertion \<Rightarrow>
                 ((if is_actions_v2_label label
                      \<and> \<not> (case get_field assertion ''allActionsIncluded'' of Some (Bool _) \<Rightarrow> True | _ \<Rightarrow> False)
                   then [''actions assertion '' @ quoted label
                         @ '' omits the boolean allActionsIncluded field, required from 2.5''] else []),
                  (if writes_removed assertion
                   then [''actions assertion '' @ quoted label
                         @ '' writes c2pa.removed, deprecated as of 2.5''] else [])))"

definition actions_creation_findings :: "parsed_manifest \<Rightarrow> string list \<times> string list" where
  "actions_creation_findings manifest =
     (concat (map (fst \<circ> actions_finding) (assertions manifest)),
      concat (map (snd \<circ> actions_finding) (assertions manifest)))"

fun format_min_version :: "asset_format \<Rightarrow> spec_version option" where
  "format_min_version Ogg = Some V2_4"
| "format_min_version TextUnstructured = Some V2_4"
| "format_min_version (TextStructured _ _) = Some V2_4"
| "format_min_version TextHtml = Some V2_4"
| "format_min_version Midi = Some V2_5"
| "format_min_version Ttml = Some V2_5"
| "format_min_version Onnx = Some V2_5"
| "format_min_version SafeTensors = Some V2_5"
| "format_min_version Parquet = Some V2_5"
| "format_min_version BlockFact = Some V2_5"
| "format_min_version Warc = Some V2_5"
| "format_min_version (AppendOnlyText _) = Some V2_5"
| "format_min_version _ = None"

definition assertion_deprecated_in :: "string \<Rightarrow> spec_version option" where
  "assertion_deprecated_in label =
     (let is = (\<lambda>base. label = base \<or> prefix (base @ ''__'') label)
      in if is ''c2pa.ingredient'' \<or> is ''c2pa.ingredient.v2'' then Some V2_4 else None)"

section \<open>The ladder\<close>

record version_evaluation =
  ve_version :: spec_version
  structure_conformant :: bool
  reasons :: "string list"
  deprecations :: "string list"

record version_verdict =
  vv_claim_generation :: claim_generation
  vv_declared_spec_version :: "string option"
  validated_under :: "spec_version option"
  evaluations :: "version_evaluation list"

definition field_defects :: "claim_generation \<Rightarrow> cbor_value \<Rightarrow> string list" where
  "field_defects generation claim =
     (case generation of
        ClaimV1 \<Rightarrow> map (\<lambda>f. ''claim missing required v1 field: '' @ f) (v1_missing_fields claim)
      | ClaimV2 \<Rightarrow> map (\<lambda>f. ''claim missing required v2 field: '' @ f) (v2_missing_fields claim))"

definition feature_minimums ::
    "parsed_manifest \<Rightarrow> asset_format option \<Rightarrow> spec_version \<Rightarrow> (spec_version \<times> string) list" where
  "feature_minimums manifest format ceiling =
     concat (map (\<lambda>(l, _). let label = str_of_bytes l in
       case assertion_min_version label of
         None \<Rightarrow> []
       | Some mn \<Rightarrow> if mn \<le> ceiling
                    then [(mn, ''assertion '' @ quoted label @ '' requires >= '' @ version_str mn)] else [])
       (assertions manifest))
     @ (case Option.bind format format_min_version of
          None \<Rightarrow> []
        | Some mn \<Rightarrow> [(mn, ''text embedding (A.7/A.8/A.9) requires >= '' @ version_str mn)])"

definition deprecation_notes :: "parsed_manifest \<Rightarrow> spec_version \<Rightarrow> (spec_version \<times> string) list" where
  "deprecation_notes manifest ceiling =
     concat (map (\<lambda>(l, _). let label = str_of_bytes l in
       case assertion_deprecated_in label of
         None \<Rightarrow> []
       | Some since \<Rightarrow> [(since, ''assertion '' @ quoted label @ '' is deprecated as of '' @ version_str since)])
       (assertions manifest))
     @ (if ceiling = V2_5 then map (\<lambda>note. (V2_5, note)) (snd (actions_creation_findings manifest)) else [])"

definition rung_reasons ::
    "parsed_manifest \<Rightarrow> cbor_value \<Rightarrow> asset_format option \<Rightarrow> spec_version \<Rightarrow> spec_version \<Rightarrow> string list" where
  "rung_reasons manifest claim format ceiling version =
     (let generation = claim_generation_of manifest claim
      in (if generation = ClaimV1 \<and> version \<ge> V2_0
          then [''claim is v1 (c2pa.claim); 2.x manifests require claim v2'']
          else if generation = ClaimV2 \<and> version < V2_0
          then [''claim is v2 (c2pa.claim.v2); introduced in 2.0''] else [])
         @ field_defects generation claim
         @ map snd (filter (\<lambda>(mn, _). version < mn) (feature_minimums manifest format ceiling))
         @ (if version = V2_5 \<and> ceiling = V2_5 then fst (actions_creation_findings manifest) else []))"

definition rung ::
    "parsed_manifest \<Rightarrow> cbor_value \<Rightarrow> asset_format option \<Rightarrow> spec_version \<Rightarrow> spec_version \<Rightarrow> version_evaluation" where
  "rung manifest claim format ceiling version =
     (let rs = rung_reasons manifest claim format ceiling version
      in \<lparr>ve_version = version, structure_conformant = (rs = []), reasons = rs,
          deprecations = map snd (filter (\<lambda>(since, _). version \<ge> since) (deprecation_notes manifest ceiling))\<rparr>)"

definition evaluate_for ::
    "parsed_manifest \<Rightarrow> cbor_value \<Rightarrow> asset_format option \<Rightarrow> spec_version \<Rightarrow> version_verdict" where
  "evaluate_for manifest claim format ceiling =
     (let declared = declared_spec_version claim;
          evals = map (rung manifest claim format ceiling) (filter (\<lambda>v. v \<le> ceiling) version_all);
          passes = (\<lambda>v. list_ex (\<lambda>e. ve_version e = v \<and> structure_conformant e) evals);
          highest = map_option ve_version (find structure_conformant (rev evals))
      in \<lparr>vv_claim_generation = claim_generation_of manifest claim,
          vv_declared_spec_version = declared,
          validated_under =
            (case Option.bind declared declared_spec_revision of
               Some dv \<Rightarrow> if passes dv then Some dv else highest
             | None \<Rightarrow> highest),
          evaluations = evals\<rparr>)"

definition evaluate :: "parsed_manifest \<Rightarrow> cbor_value \<Rightarrow> asset_format \<Rightarrow> version_verdict" where
  "evaluate manifest claim format = evaluate_for manifest claim (Some format) HISTORICAL_CEILING"

definition verdict_to_json :: "version_verdict \<Rightarrow> json" where
  "verdict_to_json v =
     JObject [(''claim_generation'', JInt (int (generation_as_u8 (vv_claim_generation v)))),
              (''declared_spec_version'', case vv_declared_spec_version v of None \<Rightarrow> JNull | Some s \<Rightarrow> JString s),
              (''validated_under'', case validated_under v of None \<Rightarrow> JNull | Some u \<Rightarrow> JString (version_str u)),
              (''evaluations'', JArray (map (\<lambda>e. JObject
                 [(''version'', JString (version_str (ve_version e))),
                  (''structure_conformant'', JBool (structure_conformant e)),
                  (''reasons'', JArray (map JString (reasons e))),
                  (''deprecations'', JArray (map JString (deprecations e)))]) (evaluations v)))]"

end
