(* ===== verification/Verify_Output.thy ===== *)
theory Verify_Output
  imports Versions
begin

text \<open>
  Assembly of the verification output in \<^verbatim>\<open>c2pa-validate/lib.rs\<close>: the report fragments computed from the
  results, the outputs for assets without a usable manifest, and the decision of \<open>finish\<close> which
  revision a manifest validated under. The text of a JUMBF error and SHA-256 come from other crates
  and are parameters. The metrics of \<^verbatim>\<open>c2pa-validate/observe.rs\<close> count the outcomes.
\<close>

section \<open>Report fragments\<close>

definition serialize_status :: "status_code \<Rightarrow> json" where
  "serialize_status s =
     JObject ([(''code'', JString (sc_code s))]
       @ (case sc_resource_url s of
            Some resource_url \<Rightarrow> [(''resourceUrl'', JString resource_url)]
          | None \<Rightarrow> [(''url'', JString (sc_url s))])
       @ [(''explanation'', JString (sc_explanation s))]
       @ (case sc_details s of Some details \<Rightarrow> [(''details'', details)] | None \<Rightarrow> []))"

definition status_array :: "status_code list \<Rightarrow> json" where
  "status_array codes = JArray (map serialize_status codes)"

definition validation_results_json :: "validation_results \<Rightarrow> json" where
  "validation_results_json results =
     JObject [(''activeManifest'', JObject [(''success'', status_array (success results)),
                                            (''informational'', status_array (informational results)),
                                            (''failure'', status_array (failure results))])]"

definition restate_validation_results :: "json \<Rightarrow> validation_results \<Rightarrow> json" where
  "restate_validation_results report results =
     (let deltas = Option.bind (json_get report ''validation_results'') (\<lambda>v. json_get v ''ingredientDeltas'');
          restated = validation_results_json results;
          restated = (case deltas of Some d \<Rightarrow> json_insert ''ingredientDeltas'' d restated | None \<Rightarrow> restated)
      in json_insert ''validation_results'' restated report)"

section \<open>Outputs\<close>

record verify_output =
  vo_validation_state :: validation_state
  vo_results :: validation_results
  report_json :: json
  crjson :: "json option"
  vo_version_verdict :: "version_verdict option"
  vo_network_needs :: "network_need list"
  vo_manifest_store :: "bytes option"
  hard_binding_label :: "string option"

definition spec25_applies :: "engine_profile \<Rightarrow> bool" where
  "spec25_applies profile \<longleftrightarrow> ep_version profile = V2_5"

definition engine_profile_json :: "engine_profile \<Rightarrow> json" where
  "engine_profile_json profile =
     JObject [(''spec_version'', JString (version_str (ep_version profile))),
              (''operating_mode'', JString (case ep_mode profile of Conformance \<Rightarrow> ''conformance'' | Regular \<Rightarrow> ''regular'')),
              (''compliance_level'', JString (case ep_compliance profile of
                 CoreSpec \<Rightarrow> ''core-spec'' | ConformanceProgram \<Rightarrow> ''conformance-program''))]"

definition stamp_profile :: "engine_profile \<Rightarrow> verify_output \<Rightarrow> verify_output" where
  "stamp_profile profile out =
     out\<lparr>report_json := json_insert ''engine_profile'' (engine_profile_json profile) (report_json out)\<rparr>"

definition stamp_selected_policy :: "engine_profile \<Rightarrow> verify_output \<Rightarrow> verify_output" where
  "stamp_selected_policy profile out = (if spec25_applies profile then stamp_profile profile out else out)"

definition hex_lower :: "nat \<Rightarrow> char" where
  "hex_lower n = (if n < 10 then char_of (48 + n) else char_of (87 + n))"

definition hex_bytes :: "bytes \<Rightarrow> string" where
  "hex_bytes bs = concat (map (\<lambda>b. [hex_lower (unat b div 16), hex_lower (unat b mod 16)]) bs)"

definition stamp_manifest_store_hash :: "(bytes \<Rightarrow> bytes) \<Rightarrow> bytes \<Rightarrow> verify_output \<Rightarrow> verify_output" where
  "stamp_manifest_store_hash sha256 manifest_store out =
     out\<lparr>report_json := json_insert ''manifest_store_sha256'' (JString (hex_bytes (sha256 manifest_store))) (report_json out)\<rparr>"

text \<open>The report of an output that never reached a manifest.\<close>

definition bare_report :: "validation_results \<Rightarrow> validation_state \<Rightarrow> bool \<Rightarrow> engine_profile \<Rightarrow> json" where
  "bare_report results state present profile =
     JObject [(''active_manifest'', JNull),
              (''manifests'', JObject []),
              (''validation_status'', status_array (failure results)),
              (''validation_results'', validation_results_json results),
              (''validation_state'', JString (state_str state)),
              (''provenance_verdict'', provenance_verdict_json results present profile)]"

definition bare_output :: "validation_results \<Rightarrow> validation_state \<Rightarrow> bool \<Rightarrow> engine_profile \<Rightarrow> verify_output" where
  "bare_output results state present profile =
     \<lparr>vo_validation_state = state, vo_results = results\<lparr>network_needs := []\<rparr>,
      report_json = bare_report results state present profile, crjson = None, vo_version_verdict = None,
      vo_network_needs = network_needs results, vo_manifest_store = None, hard_binding_label = None\<rparr>"

definition no_manifest_output :: "string \<Rightarrow> engine_profile \<Rightarrow> bool \<Rightarrow> verify_output" where
  "no_manifest_output explanation profile present =
     (if is_generous profile \<and> \<not> present
      then stamp_selected_policy profile (bare_output results_default NoProvenance present profile)
      else stamp_selected_policy profile
             (bare_output (push_failure CLAIM_MISSING [] explanation results_default) Invalid present profile))"

definition failure_only_output_with_details ::
    "string \<Rightarrow> string \<Rightarrow> string \<Rightarrow> json option \<Rightarrow> engine_profile \<Rightarrow> verify_output" where
  "failure_only_output_with_details code url explanation details profile =
     (let results = (case details of
                       Some d \<Rightarrow> push_failure_with_details code url explanation d results_default
                     | None \<Rightarrow> push_failure code url explanation results_default)
      in stamp_profile profile (bare_output results Invalid True profile))"

definition failure_only_output :: "string \<Rightarrow> string \<Rightarrow> string \<Rightarrow> engine_profile \<Rightarrow> verify_output" where
  "failure_only_output code url explanation profile =
     failure_only_output_with_details code url explanation None profile"

definition container_failure_output :: "string \<Rightarrow> string \<Rightarrow> engine_profile \<Rightarrow> verify_output" where
  "container_failure_output code explanation profile =
     stamp_selected_policy profile
       (bare_output (push_failure code [] explanation results_default) Invalid True profile)"

definition MANIFEST_COMPRESSED_INVALID :: string where "MANIFEST_COMPRESSED_INVALID = ''manifest.compressed.invalid''"
definition CLAIM_SIGNATURE_MISSING :: string where "CLAIM_SIGNATURE_MISSING = ''claimSignature.missing''"
definition GENERAL_ERROR :: string where "GENERAL_ERROR = ''general.error''"
definition CLAIM_MALFORMED :: string where "CLAIM_MALFORMED = ''claim.malformed''"
definition MANIFEST_INACCESSIBLE_MALFORMED :: string where
  "MANIFEST_INACCESSIBLE_MALFORMED = ''manifest.inaccessible.malformed''"

definition jumbf_failure_code :: "jumbf_error \<Rightarrow> engine_profile \<Rightarrow> string \<times> string" where
  "jumbf_failure_code err profile =
     (let store = ''self#jumbf=/c2pa'';
          rest = (if spec25_applies profile then (MANIFEST_INACCESSIBLE_MALFORMED, store)
                  else (case err of
                          UnexpectedLabel _ _ \<Rightarrow> (CLAIM_MALFORMED, store)
                        | InvalidStructure _ \<Rightarrow> (CLAIM_MALFORMED, store)
                        | AmbiguousLabel _ \<Rightarrow> (CLAIM_MALFORMED, store)
                        | _ \<Rightarrow> (GENERAL_ERROR, store)))
      in case err of
           CompressedManifestInvalid label _ \<Rightarrow> (MANIFEST_COMPRESSED_INVALID, ''self#jumbf=/c2pa/'' @ str_of_bytes label)
         | UnexpectedLabel expected _ \<Rightarrow>
             if expected = ascii ''c2pa.signature'' then (CLAIM_SIGNATURE_MISSING, ''self#jumbf=/c2pa/c2pa.signature'') else rest
         | ResourceLimit _ \<Rightarrow> (GENERAL_ERROR, store)
         | _ \<Rightarrow> rest)"

definition jumbf_failure_output ::
    "(jumbf_error \<Rightarrow> string) \<Rightarrow> (bytes \<Rightarrow> bytes) \<Rightarrow> jumbf_error \<Rightarrow> bytes \<Rightarrow> engine_profile \<Rightarrow> verify_output" where
  "jumbf_failure_output display sha256 err manifest_store profile =
     (case jumbf_failure_code err profile of
        (code, url) \<Rightarrow> stamp_manifest_store_hash sha256 manifest_store
                         (failure_only_output code url (display err) profile))"

definition note_out_of_scope :: "string \<Rightarrow> engine_profile \<Rightarrow> verify_output \<Rightarrow> verify_output" where
  "note_out_of_scope mime profile out =
     (let results = push_informational CONFORMANCE_OUT_OF_SCOPE []
                      (''format '' @ mime @ '' is outside the certified conformance scope'') (vo_results out);
          report = restate_validation_results (report_json out) results;
          present = (case Option.bind (Option.bind (json_get report ''provenance_verdict'') (\<lambda>v. json_get v ''present''))
                            json_as_bool of Some b \<Rightarrow> b | None \<Rightarrow> True)
      in out\<lparr>vo_results := results,
             report_json := json_insert ''provenance_verdict'' (provenance_verdict_json results present profile) report\<rparr>)"

section \<open>Finishing a manifest\<close>

definition POLICY_CODES :: "string list" where
  "POLICY_CODES = [SIGNING_CREDENTIAL_UNTRUSTED, SIGNING_CREDENTIAL_OCSP_SKIPPED, CONFORMANCE_SPEC_VERSION_NONCONFORMANT]"

definition integrity_broken :: "validation_results \<Rightarrow> engine_profile \<Rightarrow> bool" where
  "integrity_broken results profile =
     (if is_generous profile then list_ex is_construction_integrity_invalidating (failure results)
      else list_ex (\<lambda>s. sc_code s \<notin> set POLICY_CODES \<and> sc_code s \<notin> set PROGRAM_FAILURE_CODES
                        \<and> \<not> is_identity_assertion_scoped (sc_code s)) (failure results))"

definition finish_verdict :: "validation_results \<Rightarrow> engine_profile \<Rightarrow> version_verdict option \<Rightarrow> version_verdict option" where
  "finish_verdict results profile verdict =
     (if integrity_broken results profile then map_option (\<lambda>v. v\<lparr>validated_under := None\<rparr>) verdict else verdict)"

text \<open>The manifest report of \<open>build_report\<close> is an argument.\<close>

definition finish :: "json \<Rightarrow> validation_results \<Rightarrow> version_verdict option \<Rightarrow> engine_profile \<Rightarrow> verify_output" where
  "finish manifest_report results verdict profile =
     (let verdict = finish_verdict results profile verdict;
          report = json_insert ''provenance_verdict'' (provenance_verdict_json results True profile) manifest_report;
          report = (case verdict of Some v \<Rightarrow> json_insert ''version_verdict'' (verdict_to_json v) report | None \<Rightarrow> report)
      in \<lparr>vo_validation_state = compute_state results profile, vo_results = results\<lparr>network_needs := []\<rparr>,
          report_json = report, crjson = None, vo_version_verdict = verdict,
          vo_network_needs = network_needs results, vo_manifest_store = None, hard_binding_label = None\<rparr>)"

section \<open>Metrics\<close>

record metrics =
  verifications :: u64
  m_trusted :: u64
  m_valid :: u64
  m_invalid :: u64
  no_manifest :: u64
  m_errors :: u64
  panics :: u64

definition metrics_new :: metrics where
  "metrics_new = \<lparr>verifications = 0, m_trusted = 0, m_valid = 0, m_invalid = 0, no_manifest = 0, m_errors = 0, panics = 0\<rparr>"

definition record_state :: "validation_state \<Rightarrow> metrics \<Rightarrow> metrics" where
  "record_state state m =
     (let m = m\<lparr>verifications := verifications m + 1\<rparr>
      in case state of
           Trusted \<Rightarrow> m\<lparr>m_trusted := m_trusted m + 1\<rparr>
         | Valid \<Rightarrow> m\<lparr>m_valid := m_valid m + 1\<rparr>
         | Invalid \<Rightarrow> m\<lparr>m_invalid := m_invalid m + 1\<rparr>
         | NoProvenance \<Rightarrow> m\<lparr>no_manifest := no_manifest m + 1\<rparr>)"

definition record_no_manifest :: "metrics \<Rightarrow> metrics" where
  "record_no_manifest m = m\<lparr>no_manifest := no_manifest m + 1\<rparr>"

definition record_error :: "metrics \<Rightarrow> metrics" where
  "record_error m = m\<lparr>m_errors := m_errors m + 1\<rparr>"

definition record_panic :: "metrics \<Rightarrow> metrics" where
  "record_panic m = m\<lparr>panics := panics m + 1\<rparr>"

end
