(* ===== verification/Format_Jpeg.thy ===== *)
theory Format_Jpeg
  imports Format_Common Jumbf Verify_Output
begin

text \<open>
  The JPEG container, \<^verbatim>\<open>c2pa-formats/jpeg.rs\<close>: marker segments, the \<open>APP11\<close> packets that carry a manifest store
  in fragments, their reassembly, and the segmentation for the general box hash.
\<close>

section \<open>Marker segments\<close>

definition MARKER_APP0 :: "8 word" where "MARKER_APP0 = 0xE0"
definition MARKER_APP11 :: "8 word" where "MARKER_APP11 = 0xEB"
definition MARKER_SOS :: "8 word" where "MARKER_SOS = 0xDA"
definition MARKER_EOI :: "8 word" where "MARKER_EOI = 0xD9"
definition CI_JP :: bytes where "CI_JP = [0x4A, 0x50]"
definition MAX_APP11_PACKET_COUNT :: nat where "MAX_APP11_PACKET_COUNT = 16 * 1024"

definition check_soi :: "bytes \<Rightarrow> format_error + unit" where
  "check_soi data =
     (if length data < 2 \<or> data ! 0 \<noteq> 0xFF \<or> data ! 1 \<noteq> 0xD8
      then Inl (BadStructure Jpeg ''missing SOI marker'') else Inr ())"

record jpeg_segment =
  sg_marker :: "8 word"
  sg_start :: nat
  sg_payload_start :: nat
  sg_end :: nat

text \<open>The offset after the fill bytes from \<open>mp\<close> on.\<close>

definition fill_end :: "bytes \<Rightarrow> nat \<Rightarrow> nat" where
  "fill_end data mp = mp + length (takeWhile (\<lambda>b. b = 0xFF) (drop mp data))"

definition is_rst :: "8 word \<Rightarrow> bool" where
  "is_rst marker \<longleftrightarrow> 0xD0 \<le> marker \<and> marker \<le> 0xD7"

definition jpeg_segment_at :: "bytes \<Rightarrow> nat \<Rightarrow> nat \<Rightarrow> format_error + jpeg_segment" where
  "jpeg_segment_at data pos mp =
     res_bind (ok_or (be_u16 data (mp + 1)) (Truncated Jpeg)) (\<lambda>len.
       if len < 2 then Inl (BadStructure Jpeg ''segment length < 2'')
       else let e = mp + 1 + len
            in if e > length data then Inl (Truncated Jpeg)
               else Inr \<lparr>sg_marker = data ! mp, sg_start = pos, sg_payload_start = mp + 3, sg_end = e\<rparr>)"

lemma jpeg_segment_at_ok:
  "jpeg_segment_at data pos mp = Inr s \<Longrightarrow>
     mp + 3 \<le> sg_end s \<and> sg_end s \<le> length data \<and> sg_start s = pos \<and> sg_payload_start s = mp + 3 \<and> sg_marker s = data ! mp"
  by (auto simp: jpeg_segment_at_def res_bind_eq_Inr Let_def split: if_splits)

lemma fill_end_ge: "mp \<le> fill_end data mp"
  by (simp add: fill_end_def)

function jpeg_segments :: "bytes \<Rightarrow> nat \<Rightarrow> format_error + jpeg_segment list" where
  "jpeg_segments data pos =
     (if pos + 1 < length data then
        if data ! pos \<noteq> 0xFF then Inl (BadStructure Jpeg ''expected marker prefix 0xFF'')
        else let mp = fill_end data (pos + 1)
             in if mp \<ge> length data then Inr []
                else let marker = data ! mp
                     in if marker = MARKER_EOI then Inr []
                        else if marker = 0x01 \<or> is_rst marker then jpeg_segments data (mp + 1)
                        else if marker = MARKER_SOS then Inr []
                        else res_bind (jpeg_segment_at data pos mp) (\<lambda>s.
                               res_bind (jpeg_segments data (sg_end s)) (\<lambda>ss. Inr (s # ss)))
      else Inr [])"
  by pat_completeness auto
termination
proof (relation "measure (\<lambda>(data, pos). length data - pos)", goal_cases)
  case (2 data pos mp marker)
  then show ?case using fill_end_ge [of "pos + 1" data] by simp
next
  case (3 data pos mp marker s)
  then show ?case using fill_end_ge [of "pos + 1" data] jpeg_segment_at_ok [of data pos mp s] by auto
qed simp

declare jpeg_segments.simps [simp del]

definition jpeg_walk_segments :: "bytes \<Rightarrow> format_error + jpeg_segment list" where
  "jpeg_walk_segments data = res_bind (check_soi data) (\<lambda>_. jpeg_segments data 2)"

section \<open>Packets and families\<close>

record app11_packet =
  ap_start :: nat
  ap_end :: nat
  ap_en :: nat
  ap_z :: nat
  ap_header :: bytes
  ap_dbox :: bytes

definition parse_app11_packet :: "bytes \<Rightarrow> jpeg_segment \<Rightarrow> app11_packet option" where
  "parse_app11_packet data seg =
     (if sg_marker seg \<noteq> MARKER_APP11 then None
      else let payload = slice data (sg_payload_start seg) (sg_end seg)
           in if length payload < 16 \<or> slice payload 0 2 \<noteq> CI_JP then None
              else let lbox = be_val (slice payload 8 12);
                       header_len = (if lbox = 1 then 16 else 8)
                   in if length payload < 8 + header_len \<or> slice payload 12 16 \<noteq> ascii ''jumb'' then None
                      else Some \<lparr>ap_start = sg_start seg, ap_end = sg_end seg,
                                 ap_en = be_val (slice payload 2 4), ap_z = be_val (slice payload 4 8),
                                 ap_header = slice payload 8 (8 + header_len), ap_dbox = drop (8 + header_len) payload\<rparr>)"

definition declared_box_len :: "bytes \<Rightarrow> nat option" where
  "declared_box_len header =
     Option.bind (slice_get header 0 4) (\<lambda>l.
       let lbox = be_val l
       in if lbox = 0 then None
          else if lbox = 1 then Option.bind (slice_get header 8 16) (\<lambda>x. u64_to_usize (be_val x))
          else u64_to_usize lbox)"

definition ensure_manifest_store_size :: "asset_format \<Rightarrow> nat \<Rightarrow> format_error + unit" where
  "ensure_manifest_store_size format got =
     (if got > MAX_MANIFEST_STORE_BYTES then Inl (ManifestTooLarge format MAX_MANIFEST_STORE_BYTES got) else Inr ())"

definition assemble_family :: "app11_packet list \<Rightarrow> bytes" where
  "assemble_family family = ap_header (hd family) @ concat (map ap_dbox family)"

definition sequence_is_valid :: "app11_packet list \<Rightarrow> bool" where
  "sequence_is_valid family \<longleftrightarrow>
     list_all (\<lambda>i. let p = family ! i
                   in ap_z p = i + 1 \<and> ap_header p = ap_header (hd family)
                      \<and> (i = 0 \<or> ap_end (family ! (i - 1)) = ap_start p)) [0..<length family]"

text \<open>\<open>try_fold(0, checked_add)\<close> over the fragment lengths.\<close>

fun checked_sum :: "nat \<Rightarrow> nat list \<Rightarrow> nat option" where
  "checked_sum acc [] = Some acc"
| "checked_sum acc (n # ns) = Option.bind (checked_add acc n) (\<lambda>acc. checked_sum acc ns)"

definition app11_family_is_valid :: "app11_packet list \<Rightarrow> format_error + bool" where
  "app11_family_is_valid family =
     (case family of
        [] \<Rightarrow> Inr False
      | first # _ \<Rightarrow>
          (case Option.bind (checked_sum 0 (map (\<lambda>p. length (ap_dbox p)) family)) (checked_add (length (ap_header first))) of
             None \<Rightarrow> Inl (ManifestTooLarge Jpeg MAX_MANIFEST_STORE_BYTES usize_max)
           | Some assembled_len \<Rightarrow>
               if \<not> sequence_is_valid family \<or> declared_box_len (ap_header first) \<noteq> Some assembled_len then Inr False
               else res_bind (ensure_manifest_store_size Jpeg assembled_len) (\<lambda>_.
                      Inr (store_carries_manifest (assemble_family family)))))"

record family_state =
  fs_families :: "app11_packet list list"
  fs_current :: "app11_packet list"
  fs_packet_count :: nat

definition continues :: "app11_packet list \<Rightarrow> app11_packet \<Rightarrow> bool" where
  "continues current packet \<longleftrightarrow>
     current \<noteq> []
     \<and> (let previous = last current
        in ap_en previous = ap_en packet \<and> ap_z previous + 1 < 2 ^ 32 \<and> ap_z previous + 1 = ap_z packet
           \<and> ap_header previous = ap_header packet \<and> ap_end previous = ap_start packet)"

text \<open>The callback of the walk: once it has recorded an error it does nothing more.\<close>

definition family_step :: "bytes \<Rightarrow> family_state \<Rightarrow> jpeg_segment \<Rightarrow> format_error + family_state" where
  "family_step data st seg =
     (case parse_app11_packet data seg of
        None \<Rightarrow> Inr st
      | Some packet \<Rightarrow>
          let st = st\<lparr>fs_packet_count := fs_packet_count st + 1\<rparr>
          in if fs_packet_count st > MAX_APP11_PACKET_COUNT
             then Inl (BadStructure Jpeg ''APP11 packet metadata limit exceeded'')
             else res_bind (if fs_current st \<noteq> [] \<and> \<not> continues (fs_current st) packet
                            then res_bind (app11_family_is_valid (fs_current st)) (\<lambda>ok.
                                   Inr (st\<lparr>fs_families := (if ok then fs_families st @ [fs_current st] else fs_families st),
                                           fs_current := []\<rparr>))
                            else Inr st) (\<lambda>st.
                    Inr (st\<lparr>fs_current := fs_current st @ [packet]\<rparr>)))"

definition valid_app11_families :: "bytes \<Rightarrow> format_error + app11_packet list list" where
  "valid_app11_families data =
     res_bind (jpeg_walk_segments data) (\<lambda>segs.
     res_bind (try_fold (family_step data) \<lparr>fs_families = [], fs_current = [], fs_packet_count = 0\<rparr> segs) (\<lambda>st.
     res_bind (app11_family_is_valid (fs_current st)) (\<lambda>ok.
       Inr (if ok then fs_families st @ [fs_current st] else fs_families st))))"

definition valid_app11_spans :: "bytes \<Rightarrow> format_error + span list" where
  "valid_app11_spans data =
     res_bind (valid_app11_families data) (\<lambda>families.
       Inr (map (\<lambda>family. (ap_start (hd family), ap_end (last family))) families))"

definition jpeg_extract :: "bytes \<Rightarrow> format_error + bytes option" where
  "jpeg_extract data =
     res_bind (valid_app11_families data) (\<lambda>families.
       Inr (if families = [] then None else Some (assemble_family (last families))))"

definition jpeg_exclusions :: "bytes \<Rightarrow> format_error + data_hash_exclusion list" where
  "jpeg_exclusions data =
     res_bind (valid_app11_spans data) (\<lambda>spans.
       Inr (map (\<lambda>(start, e). \<lparr>ex_start = start, ex_length = e - start\<rparr>) spans))"

section \<open>Segmentation\<close>

definition hex_upper :: "nat \<Rightarrow> char" where
  "hex_upper n = (if n < 10 then char_of (48 + n) else char_of (55 + n))"

definition marker_name :: "8 word \<Rightarrow> bytes" where
  "marker_name marker =
     (let n = unat marker
      in if marker = 0xC4 then ascii ''DHT''
         else if marker = 0xC8 then ascii ''JPG''
         else if marker = 0xCC then ascii ''DAC''
         else if 0xC0 \<le> n \<and> n \<le> 0xCF then ascii (''SOF'' @ fmt_nat (n - 0xC0))
         else if marker = 0xD8 then ascii ''SOI''
         else if marker = 0xD9 then ascii ''EOI''
         else if marker = 0xDA then ascii ''SOS''
         else if marker = 0xDB then ascii ''DQT''
         else if marker = 0xDC then ascii ''DNL''
         else if marker = 0xDD then ascii ''DRI''
         else if marker = 0xDE then ascii ''DHP''
         else if marker = 0xDF then ascii ''EXP''
         else if 0xE0 \<le> n \<and> n \<le> 0xEF then ascii (''APP'' @ fmt_nat (n - 0xE0))
         else if 0xF0 \<le> n \<and> n \<le> 0xFD then ascii (''JPG'' @ fmt_nat (n - 0xF0))
         else if marker = 0xFE then ascii ''COM''
         else ascii (''FF'' @ [hex_upper (n div 16), hex_upper (n mod 16)]))"

function entropy_end :: "bytes \<Rightarrow> nat \<Rightarrow> nat" where
  "entropy_end data e =
     (if e + 1 < length data then
        if data ! e = 0xFF \<and> data ! (e + 1) \<noteq> 0 \<and> data ! (e + 1) \<noteq> 0xFF then e else entropy_end data (e + 1)
      else length data)"
  by pat_completeness auto
termination
  by (relation "measure (\<lambda>(data, e). length data - e)") auto

declare entropy_end.simps [simp del]

definition jpeg_push :: "box_span list \<Rightarrow> bytes \<Rightarrow> nat \<Rightarrow> nat \<Rightarrow> box_span list" where
  "jpeg_push spans name start e =
     (if name = ascii ''C2PA'' \<and> spans \<noteq> [] \<and> bs_name (last spans) = ascii ''C2PA'' \<and> bs_end (last spans) = start
      then butlast spans @ [extend_to e (last spans)]
      else spans @ [contiguous name start e])"

lemma entropy_end_bounds: "e \<le> length data \<Longrightarrow> e \<le> entropy_end data e \<and> entropy_end data e \<le> length data"
proof (induction data e rule: entropy_end.induct)
  case (1 data e)
  then show ?case by (subst (1 2) entropy_end.simps) auto
qed

text \<open>The end of the header of a scan or restart segment, and of any other segment.\<close>

definition scan_header_end :: "bytes \<Rightarrow> nat \<Rightarrow> format_error + nat" where
  "scan_header_end data mp =
     res_bind (if data ! mp = MARKER_SOS
               then res_bind (ok_or (be_u16 data (mp + 1)) (Truncated Jpeg)) (\<lambda>len. Inr (mp + 1 + len))
               else Inr (mp + 1)) (\<lambda>hdr_end.
       if hdr_end > length data then Inl (Truncated Jpeg) else Inr hdr_end)"

lemma scan_header_end_ok: "scan_header_end data mp = Inr h \<Longrightarrow> mp + 1 \<le> h \<and> h \<le> length data"
  by (auto simp: scan_header_end_def res_bind_eq_Inr split: if_splits)

function jpeg_spans :: "bytes \<Rightarrow> span list \<Rightarrow> box_span list \<Rightarrow> nat \<Rightarrow> format_error + box_span list" where
  "jpeg_spans data c2pa_spans spans pos =
     (if pos + 1 < length data then
        if data ! pos \<noteq> 0xFF then Inl (BadStructure Jpeg ''expected marker prefix 0xFF'')
        else let mp = fill_end data (pos + 1)
             in if mp \<ge> length data then Inr spans
                else let marker = data ! mp
                     in if marker = MARKER_EOI then Inr (jpeg_push spans (ascii ''EOI'') pos (length data))
                        else if is_rst marker \<or> marker = MARKER_SOS then
                          res_bind (scan_header_end data mp) (\<lambda>hdr_end.
                            let e = entropy_end data hdr_end;
                                name = (if marker = MARKER_SOS then ascii ''SOS'' else ascii (''RST'' @ fmt_nat (unat marker - 0xD0)))
                            in jpeg_spans data c2pa_spans (jpeg_push spans name pos e) e)
                        else
                          res_bind (jpeg_segment_at data pos mp) (\<lambda>s.
                            let e = sg_end s;
                                name = (if marker = MARKER_APP11
                                           \<and> list_ex (\<lambda>(start, family_end). pos \<ge> start \<and> e \<le> family_end) c2pa_spans
                                        then ascii ''C2PA'' else marker_name marker)
                            in jpeg_spans data c2pa_spans (jpeg_push spans name pos e) e)
      else Inr spans)"
  by pat_completeness auto
termination
proof (relation "measure (\<lambda>(data, c2pa_spans, spans, pos). length data - pos)", goal_cases)
  case (2 data c2pa_spans spans pos mp marker h e name)
  then show ?case
    using fill_end_ge [of "pos + 1" data] scan_header_end_ok [of data mp h] entropy_end_bounds [of h data] by auto
next
  case (3 data c2pa_spans spans pos mp marker s e name)
  then show ?case using fill_end_ge [of "pos + 1" data] jpeg_segment_at_ok [of data pos mp s] by auto
qed simp

declare jpeg_spans.simps [simp del]

definition jpeg_box_spans :: "bytes \<Rightarrow> format_error + box_span list" where
  "jpeg_box_spans data =
     res_bind (check_soi data) (\<lambda>_.
     res_bind (valid_app11_spans data) (\<lambda>c2pa_spans.
       jpeg_spans data c2pa_spans [contiguous (ascii ''SOI'') 0 2] 2))"

text \<open>
  The historical layout: a scan takes in the restart segments after it, and each of these is a box of the two marker
  bytes. \<open>restarts\<close> splits off the restart boxes that follow.
\<close>

definition is_restart :: "box_span \<Rightarrow> bool" where
  "is_restart b \<longleftrightarrow> prefix ''RST'' (str_of_bytes (bs_name b))"

definition shrink_restart :: "nat \<Rightarrow> box_span \<Rightarrow> box_span" where
  "shrink_restart len b = contiguous (bs_name b) (bs_start b) (min (min (bs_start b + 2) usize_max) len)"

function overlap_restarts :: "nat \<Rightarrow> box_span list \<Rightarrow> box_span list" where
  "overlap_restarts len [] = []"
| "overlap_restarts len (b # bs) =
     (if bs_name b \<noteq> ascii ''SOS'' then b # overlap_restarts len bs
      else let rs = takeWhile is_restart bs
           in (if rs = [] then b else contiguous (ascii ''SOS'') (bs_start b) (bs_end (last rs)))
              # map (shrink_restart len) rs @ overlap_restarts len (dropWhile is_restart bs))"
  by pat_completeness auto
termination
  by (relation "measure (\<lambda>(len, bs). length bs)") (auto intro: le_imp_less_Suc length_dropWhile_le)

definition box_spans_with_overlapping_restart_segments :: "bytes \<Rightarrow> format_error + box_span list" where
  "box_spans_with_overlapping_restart_segments data =
     res_bind (jpeg_box_spans data) (\<lambda>spans. Inr (overlap_restarts (length data) spans))"

section \<open>Coverage\<close>

lemma jpeg_push_tiles:
  assumes "seg_tiles 0 spans s" and "spans \<noteq> []" and "s < e"
  shows "seg_tiles 0 (jpeg_push spans name s e) e \<and> jpeg_push spans name s e \<noteq> []"
  using assms seg_tiles_last [OF assms(1,2)] seg_tiles_snoc [OF assms(1,3)] by (auto simp: jpeg_push_def)

text \<open>What a segmentation may leave out: one byte, or a tail of fill bytes.\<close>

definition fill_tail :: "bytes \<Rightarrow> nat \<Rightarrow> bool" where
  "fill_tail data e \<longleftrightarrow> e = length data \<or> e + 1 = length data \<or> (\<forall>i. e \<le> i \<and> i < length data \<longrightarrow> data ! i = 0xFF)"

lemma fill_end_all:
  assumes "length data \<le> fill_end data mp" and "mp \<le> i" and "i < length data"
  shows "data ! i = 0xFF"
proof -
  let ?t = "takeWhile (\<lambda>b. b = 0xFF) (drop mp data)"
  have "length (drop mp data) \<le> length ?t" using assms by (simp add: fill_end_def)
  then have "length ?t = length (drop mp data)" using length_takeWhile_le [of "\<lambda>b. b = 0xFF" "drop mp data"] by simp
  then have "?t = drop mp data" by (metis takeWhile_eq_take take_all_iff order_refl)
  then have "\<forall>b \<in> set (drop mp data). b = 0xFF" by (metis set_takeWhileD)
  moreover have "data ! i \<in> set (drop mp data)" using assms(2,3) by (auto simp: in_set_conv_nth intro!: exI [of _ "i - mp"])
  ultimately show ?thesis by blast
qed

lemma jpeg_spans_tiles:
  assumes "jpeg_spans data c2pa_spans spans pos = Inr spans'" and "seg_tiles 0 spans pos" and "spans \<noteq> []" and "pos \<le> length data"
  shows "\<exists>e \<le> length data. seg_tiles 0 spans' e \<and> fill_tail data e"
  using assms
proof (induction data c2pa_spans spans pos rule: jpeg_spans.induct)
  case (1 data c2pa_spans spans pos)
  define mp where "mp = fill_end data (pos + 1)"
  show ?case
  proof (cases "pos + 1 < length data")
    case False
    with "1.prems" have "spans' = spans" "pos = length data \<or> pos + 1 = length data" by (auto simp: jpeg_spans.simps [of data])
    with "1.prems" show ?thesis by (auto simp: fill_tail_def)
  next
    case more: True
    then have ff: "data ! pos = 0xFF" using "1.prems"(1) by (subst (asm) jpeg_spans.simps) (auto split: if_splits)
    have mp: "pos < mp" using fill_end_ge [of "pos + 1" data] by (simp add: mp_def)
    note unfolded = "1.prems"(1) [unfolded jpeg_spans.simps [of data c2pa_spans spans pos], folded mp_def]
    consider (out) "mp \<ge> length data" | (eoi) "mp < length data" "data ! mp = MARKER_EOI"
      | (scan) "mp < length data" "data ! mp \<noteq> MARKER_EOI" "is_rst (data ! mp) \<or> data ! mp = MARKER_SOS"
      | (seg) "mp < length data" "data ! mp \<noteq> MARKER_EOI" "\<not> (is_rst (data ! mp) \<or> data ! mp = MARKER_SOS)"
      by linarith
    then show ?thesis
    proof cases
      case out
      with more ff unfolded have "spans' = spans" by (simp add: Let_def)
      moreover have "fill_tail data pos"
      proof -
        have "data ! i = 0xFF" if "pos \<le> i" "i < length data" for i
          using that ff fill_end_all [OF out [unfolded mp_def], of i] by (cases "i = pos") auto
        then show ?thesis by (simp add: fill_tail_def)
      qed
      ultimately show ?thesis using "1.prems" by auto
    next
      case eoi
      with more ff unfolded have "spans' = jpeg_push spans (ascii ''EOI'') pos (length data)" by (simp add: Let_def)
      with jpeg_push_tiles [OF "1.prems"(2,3), of "length data"] more show ?thesis by (auto simp: fill_tail_def)
    next
      case scan
      with more ff unfolded obtain h name where h: "scan_header_end data mp = Inr h"
        and name: "name = (if data ! mp = MARKER_SOS then ascii ''SOS''
            else ascii (''RST'' @ fmt_nat (unat (data ! mp) - 0xD0)))"
        and rest: "jpeg_spans data c2pa_spans (jpeg_push spans name pos (entropy_end data h)) (entropy_end data h) = Inr spans'"
        by (auto simp: Let_def res_bind_eq_Inr)
      have b: "pos < entropy_end data h" "entropy_end data h \<le> length data"
        using scan_header_end_ok [OF h] entropy_end_bounds [of h data] mp by auto
      from "1.IH"(1) [OF more _ mp_def _ refl scan(2,3) h refl name rest] ff scan(1) jpeg_push_tiles [OF "1.prems"(2,3) b(1)] b(2)
      show ?thesis by auto
    next
      case seg
      with more ff unfolded obtain s name where s: "jpeg_segment_at data pos mp = Inr s"
        and name: "name = (if data ! mp = MARKER_APP11
              \<and> list_ex (\<lambda>(start, family_end). pos \<ge> start \<and> sg_end s \<le> family_end) c2pa_spans
            then ascii ''C2PA'' else marker_name (data ! mp))"
        and rest: "jpeg_spans data c2pa_spans (jpeg_push spans name pos (sg_end s)) (sg_end s) = Inr spans'"
        by (auto simp: Let_def res_bind_eq_Inr)
      have b: "pos < sg_end s" "sg_end s \<le> length data" using jpeg_segment_at_ok [OF s] mp by auto
      from "1.IH"(2) [OF more _ mp_def _ refl seg(2,3) s refl name rest] ff seg(1) jpeg_push_tiles [OF "1.prems"(2,3) b(1)] b(2)
      show ?thesis by auto
    qed
  qed
qed

text \<open>The box of the end marker is only written by the branch that ends the segmentation.\<close>

lemma marker_name_not_EOI: "m \<noteq> MARKER_EOI \<Longrightarrow> marker_name m \<noteq> ascii ''EOI''"
  by (simp add: marker_name_def MARKER_EOI_def ascii_def Let_def)

lemma jpeg_push_last:
  "bs_name (last (jpeg_push spans name s e)) = name"
  by (auto simp: jpeg_push_def contiguous_def extend_to_def)

lemma jpeg_spans_EOI:
  assumes "jpeg_spans data c2pa_spans spans pos = Inr spans'" and "bs_name (last spans) \<noteq> ascii ''EOI''"
    and "bs_name (last spans') = ascii ''EOI''" and "seg_tiles 0 spans' e" and "spans \<noteq> []" and "seg_tiles 0 spans pos"
  shows "e = length data"
  using assms
proof (induction data c2pa_spans spans pos rule: jpeg_spans.induct)
  case (1 data c2pa_spans spans pos)
  define mp where "mp = fill_end data (pos + 1)"
  have mp: "pos < mp" using fill_end_ge [of "pos + 1" data] by (simp add: mp_def)
  note unfolded = "1.prems"(1) [unfolded jpeg_spans.simps [of data c2pa_spans spans pos], folded mp_def]
  from "1.prems"(2,3) have ne: "spans' \<noteq> spans" by auto
  then have c: "pos + 1 < length data" "\<not> data ! pos \<noteq> 0xFF" "\<not> mp \<ge> length data"
    using unfolded by (auto simp: Let_def split: if_splits)
  note ih = "1.IH" [OF c(1,2) mp_def c(3) refl]
  show ?case
  proof (cases "data ! mp = MARKER_EOI")
    case True
    with c unfolded have "spans' = jpeg_push spans (ascii ''EOI'') pos (length data)" by (simp add: Let_def)
    with jpeg_push_tiles [OF "1.prems"(6,5), of "length data" "ascii ''EOI''"] c
    have "seg_tiles 0 spans' (length data)" "spans' \<noteq> []" by auto
    from seg_tiles_last(1) [OF this] seg_tiles_last(1) [OF "1.prems"(4) this(2)] show ?thesis by simp
  next
    case eoi: False
    show ?thesis
    proof (cases "is_rst (data ! mp) \<or> data ! mp = MARKER_SOS")
      case True
      with c eoi unfolded obtain h name where h: "scan_header_end data mp = Inr h"
        and name: "name = (if data ! mp = MARKER_SOS then ascii ''SOS''
            else ascii (''RST'' @ fmt_nat (unat (data ! mp) - 0xD0)))"
        and rest: "jpeg_spans data c2pa_spans (jpeg_push spans name pos (entropy_end data h)) (entropy_end data h) = Inr spans'"
        by (auto simp: Let_def res_bind_eq_Inr)
      have "pos < entropy_end data h" using scan_header_end_ok [OF h] entropy_end_bounds [of h data] mp by auto
      moreover have "name \<noteq> ascii ''EOI''" by (simp add: name ascii_def)
      ultimately show ?thesis
        using ih(1) [OF eoi True h refl name rest] jpeg_push_tiles [OF "1.prems"(6,5)] "1.prems"(3,4) by (simp add: jpeg_push_last)
    next
      case False
      with c eoi unfolded obtain s name where s: "jpeg_segment_at data pos mp = Inr s"
        and name: "name = (if data ! mp = MARKER_APP11
              \<and> list_ex (\<lambda>(start, family_end). pos \<ge> start \<and> sg_end s \<le> family_end) c2pa_spans
            then ascii ''C2PA'' else marker_name (data ! mp))"
        and rest: "jpeg_spans data c2pa_spans (jpeg_push spans name pos (sg_end s)) (sg_end s) = Inr spans'"
        by (auto simp: Let_def res_bind_eq_Inr)
      have "pos < sg_end s" using jpeg_segment_at_ok [OF s] mp by auto
      moreover have "name \<noteq> ascii ''EOI''" using marker_name_not_EOI [OF eoi] by (auto simp: name ascii_def)
      ultimately show ?thesis
        using ih(2) [OF eoi False s refl name rest] jpeg_push_tiles [OF "1.prems"(6,5)] "1.prems"(3,4) by (simp add: jpeg_push_last)
    qed
  qed
qed

lemma jpeg_box_spans_ok:
  assumes "jpeg_box_spans data = Inr spans"
  shows "\<exists>e \<le> length data. seg_tiles 0 spans e \<and> fill_tail data e \<and> (bs_name (last spans) = ascii ''EOI'' \<longrightarrow> e = length data)"
proof -
  from assms obtain c where "check_soi data = Inr ()" "jpeg_spans data c [contiguous (ascii ''SOI'') 0 2] 2 = Inr spans"
    by (auto simp: jpeg_box_spans_def res_bind_eq_Inr)
  moreover from this obtain e where "e \<le> length data" "seg_tiles 0 spans e" "fill_tail data e"
    using jpeg_spans_tiles [of data c "[contiguous (ascii ''SOI'') 0 2]" 2 spans] by (auto simp: check_soi_def split: if_splits)
  moreover have "bs_name (contiguous (ascii ''SOI'') 0 2) \<noteq> ascii ''EOI''" by (simp add: contiguous_def ascii_def)
  ultimately show ?thesis using jpeg_spans_EOI [of data c "[contiguous (ascii ''SOI'') 0 2]" 2 spans e] by auto
qed

text \<open>The historical layout leaves out no byte of the strict one.\<close>

lemma seg_tiles_covers:
  "seg_tiles a spans b \<Longrightarrow> a \<le> i \<Longrightarrow> i < b \<Longrightarrow> \<exists>x \<in> set spans. bs_start x \<le> i \<and> i < bs_end x"
proof (induction spans arbitrary: a)
  case (Cons x spans)
  from Cons.prems(1) have "is_contiguous x" by (simp add: seg_tiles_def)
  then obtain s e where x: "x = contiguous (bs_name x) s e" by (rule contiguous_cases)
  then have se: "bs_start x = s" "bs_end x = e" by (metis bs_start_def bs_end_def contiguous_def box_span.select_convs(2)
      list.simps(5) fst_conv snd_conv last.simps list.distinct(1))+
  from Cons.prems(1) x have "s = a" "seg_tiles e spans b" by (metis seg_tiles_Cons)+
  with Cons se show ?case by (cases "i < e") auto
qed simp

lemma overlap_restarts_covers:
  "seg_tiles a spans b \<Longrightarrow> a \<le> i \<Longrightarrow> i < b \<Longrightarrow> \<exists>x \<in> set (overlap_restarts len spans). bs_start x \<le> i \<and> i < bs_end x"
proof (induction len spans arbitrary: a rule: overlap_restarts.induct)
  case (2 len x spans)
  from "2.prems"(1) have "is_contiguous x" by (simp add: seg_tiles_def)
  then obtain s e where x: "x = contiguous (bs_name x) s e" by (rule contiguous_cases)
  then have se: "bs_start x = s" "bs_end x = e" by (metis bs_start_def bs_end_def contiguous_def box_span.select_convs(2)
      list.simps(5) fst_conv snd_conv last.simps list.distinct(1))+
  from "2.prems"(1) x have t: "s = a" "seg_tiles e spans b" by (metis seg_tiles_Cons)+
  show ?case
  proof (cases "bs_name x \<noteq> ascii ''SOS''")
    case True
    with "2.IH"(1) [OF True t(2)] "2.prems" se t show ?thesis by (cases "i < e") auto
  next
    case False
    define rs where "rs = takeWhile is_restart spans"
    from t(2) obtain m where m: "seg_tiles e rs m" "seg_tiles m (dropWhile is_restart spans) b"
      by (metis takeWhile_dropWhile_id seg_tiles_append rs_def)
    show ?thesis
    proof (cases "i < m")
      case True
      let ?y = "if rs = [] then x else contiguous (ascii ''SOS'') (bs_start x) (bs_end (last rs))"
      have "bs_start ?y \<le> i \<and> i < bs_end ?y"
        using True m(1) seg_tiles_last(1) [OF m(1)] se t "2.prems"(2) by (auto simp: contiguous_def bs_start_def bs_end_def)
      then show ?thesis using False by (auto simp: rs_def Let_def)
    next
      case notin: False
      then have "\<exists>x \<in> set (overlap_restarts len (dropWhile is_restart spans)). bs_start x \<le> i \<and> i < bs_end x"
        using "2.IH"(2) [of rs m] False rs_def m(2) "2.prems"(3) by auto
      then show ?thesis using False by (auto simp: Let_def)
    qed
  qed
qed simp

section \<open>Accepted families\<close>

lemma jpeg_segments_ok:
  "jpeg_segments data pos = Inr ss \<Longrightarrow>
     sorted_wrt (\<lambda>x y. sg_end x \<le> sg_start y) ss
     \<and> (\<forall>s \<in> set ss. pos \<le> sg_start s \<and> sg_start s < sg_end s \<and> sg_end s \<le> length data)"
proof (induction data pos arbitrary: ss rule: jpeg_segments.induct)
  case (1 data pos)
  define mp where "mp = fill_end data (pos + 1)"
  have mp: "pos < mp" using fill_end_ge [of "pos + 1" data] by (simp add: mp_def)
  note unfolded = "1.prems" [unfolded jpeg_segments.simps [of data pos], folded mp_def]
  show ?case
  proof (cases "ss = []")
    case ne: False
    then have pre: "pos + 1 < length data" "data ! pos = 0xFF" "mp < length data" "data ! mp \<noteq> MARKER_EOI"
      using unfolded by (auto simp: Let_def split: if_splits)
    then have m: "\<not> data ! pos \<noteq> 0xFF" "\<not> mp \<ge> length data" by auto
    show ?thesis
    proof (cases "data ! mp = 0x01 \<or> is_rst (data ! mp)")
      case True
      with unfolded pre have "jpeg_segments data (mp + 1) = Inr ss" by (simp add: Let_def)
      with "1.IH"(1) [OF pre(1) m(1) mp_def m(2) refl pre(4) True] mp show ?thesis by fastforce
    next
      case False
      with unfolded pre ne obtain x xs where x: "jpeg_segment_at data pos mp = Inr x" "jpeg_segments data (sg_end x) = Inr xs"
        and ss: "ss = x # xs" and sos: "data ! mp \<noteq> MARKER_SOS"
        by (auto simp: Let_def res_bind_eq_Inr split: if_splits)
      from "1.IH"(2) [OF pre(1) m(1) mp_def m(2) refl pre(4) False sos x] jpeg_segment_at_ok [OF x(1)] mp
      show ?thesis by (fastforce simp: ss)
    qed
  qed simp
qed

definition packets_of :: "bytes \<Rightarrow> jpeg_segment list \<Rightarrow> app11_packet list" where
  "packets_of data segs = List.map_filter (parse_app11_packet data) segs"

lemma parse_app11_packet_ok:
  "parse_app11_packet data s = Some p \<Longrightarrow> ap_start p = sg_start s \<and> ap_end p = sg_end s \<and> sg_marker s = MARKER_APP11"
  by (auto simp: parse_app11_packet_def Let_def split: if_splits)

lemma packets_of_Cons:
  "packets_of data (s # ss) = (case parse_app11_packet data s of None \<Rightarrow> [] | Some p \<Rightarrow> [p]) @ packets_of data ss"
  by (simp add: packets_of_def map_filter_simps split: option.splits)

lemma packets_of_ok:
  assumes "sorted_wrt (\<lambda>x y. sg_end x \<le> sg_start y) ss" and "\<forall>s \<in> set ss. a \<le> sg_start s \<and> sg_start s < sg_end s \<and> sg_end s \<le> b"
  shows "sorted_wrt (\<lambda>x y. ap_end x \<le> ap_start y) (packets_of data ss)
    \<and> (\<forall>p \<in> set (packets_of data ss). a \<le> ap_start p \<and> ap_start p < ap_end p \<and> ap_end p \<le> b
         \<and> (\<exists>s \<in> set ss. parse_app11_packet data s = Some p))"
  using assms
proof (induction ss)
  case (Cons s ss)
  then have IH: "sorted_wrt (\<lambda>x y. ap_end x \<le> ap_start y) (packets_of data ss)"
    "\<forall>p \<in> set (packets_of data ss). a \<le> ap_start p \<and> ap_start p < ap_end p \<and> ap_end p \<le> b
         \<and> (\<exists>s \<in> set ss. parse_app11_packet data s = Some p)" by auto
  show ?case
  proof (cases "parse_app11_packet data s")
    case (Some p)
    have "ap_end p \<le> ap_start q" if q: "q \<in> set (packets_of data ss)" for q
    proof -
      from q IH(2) obtain t where "t \<in> set ss" "parse_app11_packet data t = Some q" by auto
      with Cons.prems(1) parse_app11_packet_ok [OF Some] parse_app11_packet_ok [of data t q] show ?thesis by auto
    qed
    with IH Some Cons.prems parse_app11_packet_ok [OF Some] show ?thesis by (auto simp: packets_of_Cons)
  qed (use IH in \<open>auto simp: packets_of_Cons\<close>)
qed (simp add: packets_of_def map_filter_simps)

definition families_inv :: "family_state \<Rightarrow> app11_packet list \<Rightarrow> bool" where
  "families_inv st ps \<longleftrightarrow> subseq (concat (fs_families st) @ fs_current st) ps
     \<and> (\<forall>f \<in> set (fs_families st). app11_family_is_valid f = Inr True)"

lemma subseq_drop_tail: "subseq (xs @ ys) zs \<Longrightarrow> subseq xs zs"
  using subseq_order.trans [OF prefix_imp_subseq [of xs "xs @ ys"]] by simp

lemma family_step_inv:
  assumes "family_step data st s = Inr st'" and "families_inv st ps"
  shows "families_inv st' (ps @ (case parse_app11_packet data s of None \<Rightarrow> [] | Some p \<Rightarrow> [p]))"
proof (cases "parse_app11_packet data s")
  case None
  with assms show ?thesis by (simp add: family_step_def)
next
  case (Some p)
  from assms(2) have sub: "subseq (concat (fs_families st) @ fs_current st) ps" by (simp add: families_inv_def)
  have one: "subseq (xs @ [p]) (ps @ [p])" if "subseq xs ps" for xs using that by (simp add: list_emb_append_mono)
  show ?thesis
    using assms one [OF sub] one [OF subseq_drop_tail [OF sub]]
    by (auto simp: family_step_def Some families_inv_def Let_def res_bind_eq_Inr split: if_splits)
qed

lemma families_fold:
  "try_fold (family_step data) st ss = Inr st' \<Longrightarrow> families_inv st ps \<Longrightarrow> families_inv st' (ps @ packets_of data ss)"
proof (induction ss arbitrary: st ps)
  case Nil
  then show ?case by (simp add: packets_of_def map_filter_simps)
next
  case (Cons s ss)
  then obtain st1 where "family_step data st s = Inr st1" "try_fold (family_step data) st1 ss = Inr st'"
    by (auto simp: res_bind_eq_Inr)
  with Cons.IH [OF _ family_step_inv] Cons.prems(2) show ?case by (simp add: packets_of_Cons)
qed

lemma valid_families_ok:
  assumes "valid_app11_families data = Inr fams"
  shows "sorted_wrt (\<lambda>x y. ap_end x \<le> ap_start y) (concat fams)"
    and "\<forall>p \<in> set (concat fams). 2 \<le> ap_start p \<and> ap_start p < ap_end p \<and> ap_end p \<le> length data"
    and "\<forall>f \<in> set fams. app11_family_is_valid f = Inr True"
proof -
  from assms obtain segs st ok where w: "jpeg_segments data 2 = Inr segs"
    and st: "try_fold (family_step data) \<lparr>fs_families = [], fs_current = [], fs_packet_count = 0\<rparr> segs = Inr st"
    and ok: "app11_family_is_valid (fs_current st) = Inr ok"
    and fams: "fams = (if ok then fs_families st @ [fs_current st] else fs_families st)"
    by (auto simp: valid_app11_families_def jpeg_walk_segments_def res_bind_eq_Inr)
  have inv: "families_inv st (packets_of data segs)"
    using families_fold [OF st, of "[]"] by (simp add: families_inv_def)
  then have sub: "subseq (concat fams) (packets_of data segs)"
    using subseq_drop_tail by (auto simp: fams families_inv_def)
  note s = jpeg_segments_ok [OF w]
  note p = packets_of_ok [OF conjunct1 [OF s] conjunct2 [OF s], of data]
  show "sorted_wrt (\<lambda>x y. ap_end x \<le> ap_start y) (concat fams)" using p sorted_wrt_subseq [OF sub] by blast
  show "\<forall>p \<in> set (concat fams). 2 \<le> ap_start p \<and> ap_start p < ap_end p \<and> ap_end p \<le> length data"
    using p set_subseq [OF sub] by blast
  show "\<forall>f \<in> set fams. app11_family_is_valid f = Inr True" using inv ok by (auto simp: fams families_inv_def)
qed

lemma checked_sum_eq: "checked_sum acc ns = Some t \<Longrightarrow> t = acc + sum_list ns"
proof (induction ns arbitrary: acc)
  case (Cons a ns)
  then have "checked_sum (acc + a) ns = Some t" by (auto simp: Option.bind_eq_Some_conv split: if_splits)
  from Cons.IH [OF this] show ?case by simp
qed simp

lemma app11_family_ok:
  assumes "app11_family_is_valid f = Inr True"
  shows "f \<noteq> []" and "sequence_is_valid f" and "declared_box_len (ap_header (hd f)) = Some (length (assemble_family f))"
    and "length (assemble_family f) \<le> MAX_MANIFEST_STORE_BYTES" and "store_carries_manifest (assemble_family f)"
proof -
  from assms obtain first rest n where f: "f = first # rest"
    and n: "Option.bind (checked_sum 0 (map (\<lambda>p. length (ap_dbox p)) f)) (checked_add (length (ap_header first))) = Some n"
    and v: "sequence_is_valid f" "declared_box_len (ap_header first) = Some n"
    and sz: "ensure_manifest_store_size Jpeg n = Inr ()" and c: "store_carries_manifest (assemble_family f)"
    by (auto simp: app11_family_is_valid_def res_bind_eq_Inr split: list.splits option.splits if_splits)
  from n have "n = length (ap_header first) + sum_list (map (\<lambda>p. length (ap_dbox p)) f)"
    using checked_sum_eq [of 0] by (fastforce simp: Option.bind_eq_Some_conv)
  then have "n = length (assemble_family f)" by (simp add: assemble_family_def f length_concat o_def)
  with f v sz c show "f \<noteq> []" "sequence_is_valid f" "declared_box_len (ap_header (hd f)) = Some (length (assemble_family f))"
    "length (assemble_family f) \<le> MAX_MANIFEST_STORE_BYTES" "store_carries_manifest (assemble_family f)"
    by (auto simp: ensure_manifest_store_size_def split: if_splits)
qed

lemma consecutive_tiles:
  assumes "f \<noteq> []" and "\<forall>i. Suc i < length f \<longrightarrow> ap_end (f ! i) = ap_start (f ! Suc i)" and "\<forall>p \<in> set f. ap_start p < ap_end p"
  shows "tiles (ap_start (hd f)) (map (\<lambda>p. (ap_start p, ap_end p)) f) (ap_end (last f))"
  using assms
proof (induction f)
  case (Cons p f)
  show ?case
  proof (cases "f = []")
    case False
    have "\<forall>i. Suc i < length f \<longrightarrow> ap_end (f ! i) = ap_start (f ! Suc i)" using Cons.prems(2) by auto
    moreover have "ap_end p = ap_start (hd f)" using Cons.prems(2) False by (auto simp: hd_conv_nth)
    ultimately show ?thesis using Cons False by auto
  qed (use Cons.prems in simp)
qed simp

lemma family_tiles:
  assumes "sequence_is_valid f" and "f \<noteq> []" and "\<forall>p \<in> set f. ap_start p < ap_end p"
  shows "tiles (ap_start (hd f)) (map (\<lambda>p. (ap_start p, ap_end p)) f) (ap_end (last f))"
proof (rule consecutive_tiles [OF assms(2) _ assms(3)], intro allI impI)
  fix i assume "Suc i < length f"
  then show "ap_end (f ! i) = ap_start (f ! Suc i)"
    using assms(1) by (auto simp: sequence_is_valid_def list_all_iff Let_def dest!: bspec [of _ _ "Suc i"])
qed

lemma family_spans_sorted:
  "sorted_wrt (\<lambda>x y. ap_end x \<le> ap_start y) (concat fams) \<Longrightarrow> [] \<notin> set fams \<Longrightarrow>
     sorted_wrt (\<lambda>f g. ap_end (last f) \<le> ap_start (hd g)) fams"
proof (induction fams)
  case (Cons f fams)
  have "ap_end (last f) \<le> ap_start (hd g)" if g: "g \<in> set fams" for g
  proof -
    have "f \<noteq> []" "g \<noteq> []" using Cons.prems(2) g by auto
    then have "last f \<in> set f" "hd g \<in> set (concat fams)" using g hd_in_set [of g] by (auto simp del: hd_in_set)
    with Cons.prems(1) show ?thesis by (simp only: concat.simps sorted_wrt_append)
  qed
  with Cons show ?case by (auto simp: sorted_wrt_append)
qed simp

text \<open>The exclusions of a JPEG and the families behind them.\<close>

lemma jpeg_exclusions_ok:
  assumes "jpeg_exclusions data = Inr ex"
  shows "sorted_wrt (\<lambda>x y. ex_start x + ex_length x \<le> ex_start y) ex"
    and "\<forall>x \<in> set ex. \<exists>f. app11_family_is_valid f = Inr True \<and> 2 \<le> ex_start x \<and> ex_start x + ex_length x \<le> length data
      \<and> tiles (ex_start x) (map (\<lambda>p. (ap_start p, ap_end p)) f) (ex_start x + ex_length x)"
proof -
  from assms obtain fams where fams: "valid_app11_families data = Inr fams"
    and ex: "ex = map (\<lambda>f. \<lparr>ex_start = ap_start (hd f), ex_length = ap_end (last f) - ap_start (hd f)\<rparr>) fams"
    by (auto simp: jpeg_exclusions_def valid_app11_spans_def res_bind_eq_Inr)
  note ok = valid_families_ok [OF fams]
  have ne: "f \<noteq> []" if "f \<in> set fams" for f using that ok(3) app11_family_ok(1) by blast
  have t: "tiles (ap_start (hd f)) (map (\<lambda>p. (ap_start p, ap_end p)) f) (ap_end (last f))" if "f \<in> set fams" for f
    using that ok(2,3) ne [OF that] app11_family_ok(2) [of f] by (intro family_tiles) auto
  have le: "ap_start (hd f) \<le> ap_end (last f)" if "f \<in> set fams" for f using tiles_le [OF t [OF that]] .
  have "sorted_wrt (\<lambda>f g. ap_end (last f) \<le> ap_start (hd g)) fams" using family_spans_sorted [OF ok(1)] ne by blast
  then show "sorted_wrt (\<lambda>x y. ex_start x + ex_length x \<le> ex_start y) ex"
    unfolding ex sorted_wrt_map by (rule sorted_wrt_mono_rel [rotated]) (use le in auto)
  show "\<forall>x \<in> set ex. \<exists>f. app11_family_is_valid f = Inr True \<and> 2 \<le> ex_start x \<and> ex_start x + ex_length x \<le> length data
      \<and> tiles (ex_start x) (map (\<lambda>p. (ap_start p, ap_end p)) f) (ex_start x + ex_length x)"
  proof
    fix x assume "x \<in> set ex"
    then obtain f where f: "f \<in> set fams" "ex_start x = ap_start (hd f)" "ex_start x + ex_length x = ap_end (last f)"
      using le by (auto simp: ex)
    moreover have "hd f \<in> set (concat fams)" "last f \<in> set (concat fams)" using f(1) hd_in_set [OF ne [OF f(1)]] last_in_set [OF ne [OF f(1)]] by (auto simp del: hd_in_set last_in_set)
    ultimately show "\<exists>f. app11_family_is_valid f = Inr True \<and> 2 \<le> ex_start x \<and> ex_start x + ex_length x \<le> length data
      \<and> tiles (ex_start x) (map (\<lambda>p. (ap_start p, ap_end p)) f) (ex_start x + ex_length x)"
      using ok(2,3) t [OF f(1)] by auto
  qed
qed

lemma jpeg_extract_ok:
  assumes "jpeg_extract data = Inr (Some store)"
  shows "\<exists>f. app11_family_is_valid f = Inr True \<and> store = assemble_family f"
proof -
  from assms obtain fams where "valid_app11_families data = Inr fams" "fams \<noteq> []" "store = assemble_family (last fams)"
    by (auto simp: jpeg_extract_def res_bind_eq_Inr split: if_splits)
  with valid_families_ok(3) [of data fams] show ?thesis by (metis last_in_set)
qed

end
