(* ===== verification/Jpeg_Embed.thy ===== *)
theory Jpeg_Embed
  imports Format_Jpeg Jumbf_Build
begin

text \<open>
  Writing a manifest store into a JPEG and reading it back: the writers of \<^verbatim>\<open>c2pa-formats/jpeg.rs\<close> cut the store into
  \<open>APP11\<close> segments, and the readers of \<open>Format_Jpeg\<close> find exactly these and put them together again.
\<close>

section \<open>The writers\<close>

definition BOX_INSTANCE :: nat where "BOX_INSTANCE = 1"
definition MAX_SEGMENT_LEN :: nat where "MAX_SEGMENT_LEN = 0xFFFF"

text \<open>The closure \<open>emit\<close>: one segment with its length field, packet number, box header and fragment.\<close>

definition app11_segment :: "bytes \<Rightarrow> nat \<Rightarrow> bytes \<Rightarrow> bytes" where
  "app11_segment header z chunk =
     [0xFF, MARKER_APP11] @ be_bytes 2 (2 + 2 + 2 + 4 + length header + length chunk)
     @ CI_JP @ be_bytes 2 BOX_INSTANCE @ be_bytes 4 z @ header @ chunk"

definition build_app11_segments :: "bytes \<Rightarrow> format_error + bytes" where
  "build_app11_segments manifest_store =
     (if length manifest_store < 8 then Inl (BadStructure Jpeg ''manifest store too short'')
      else let header_len = (if slice manifest_store 0 4 = [0, 0, 0, 1] then 16 else 8)
           in if length manifest_store < header_len then Inl (Truncated Jpeg)
              else let header = take header_len manifest_store;
                       content = drop header_len manifest_store;
                       max_chunk = MAX_SEGMENT_LEN - 2 - 2 - 2 - 4 - header_len;
                       chunks = (if content = [] then [[]] else chunks_of max_chunk content)
                   in Inr (concat (map2 (app11_segment header) [1..<1 + length chunks] chunks)))"

definition insertion_offset :: "bytes \<Rightarrow> format_error + nat" where
  "insertion_offset data =
     res_bind (check_soi data) (\<lambda>_.
     res_bind (jpeg_walk_segments data) (\<lambda>segs.
       Inr (foldl (\<lambda>insert_at seg. if sg_start seg = 2 \<and> sg_marker seg = MARKER_APP0 then sg_end seg else insert_at) 2 segs)))"

definition jpeg_strip :: "bytes \<Rightarrow> format_error + bytes" where
  "jpeg_strip asset =
     res_bind (check_soi asset) (\<lambda>_.
     res_bind (valid_app11_spans asset) (\<lambda>spans.
       case foldl (\<lambda>(out, cursor) (start, e). (out @ slice asset cursor start, e)) ([], 0) spans of
         (out, cursor) \<Rightarrow> Inr (out @ drop cursor asset)))"

definition jpeg_embed :: "bytes \<Rightarrow> bytes \<Rightarrow> format_error + bytes" where
  "jpeg_embed asset manifest_store =
     res_bind (jpeg_strip asset) (\<lambda>clean.
     res_bind (insertion_offset clean) (\<lambda>at.
     res_bind (build_app11_segments manifest_store) (\<lambda>segments.
       Inr (take at clean @ segments @ drop at clean))))"

section \<open>Segments do not depend on what stands before them\<close>

definition seg_shift :: "nat \<Rightarrow> jpeg_segment \<Rightarrow> jpeg_segment" where
  "seg_shift n s = \<lparr>sg_marker = sg_marker s, sg_start = n + sg_start s, sg_payload_start = n + sg_payload_start s, sg_end = n + sg_end s\<rparr>"

lemma seg_shift_sel [simp]:
  "sg_marker (seg_shift n s) = sg_marker s" "sg_start (seg_shift n s) = n + sg_start s"
  "sg_payload_start (seg_shift n s) = n + sg_payload_start s" "sg_end (seg_shift n s) = n + sg_end s"
  by (simp_all add: seg_shift_def)

lemma be_u16_shift: "be_u16 (pre @ xs) (length pre + p) = be_u16 xs p"
  using slice_shift [of pre xs p "p + 2"] by (simp add: be_u16_def slice_get_def add.assoc)

lemma fill_end_shift: "fill_end (pre @ xs) (length pre + p) = length pre + fill_end xs p"
  by (simp add: fill_end_def)

lemma map_sum_res_bind:
  "map_sum id f (res_bind m g) = res_bind m (\<lambda>x. map_sum id f (g x))"
  "map_sum (\<lambda>a. a) f (res_bind m g) = res_bind m (\<lambda>x. map_sum id f (g x))"
  by (cases m; simp add: id_def)+

lemma res_bind_map_sum:
  "res_bind (map_sum id f m) g = res_bind m (\<lambda>x. g (f x))" "res_bind (map_sum (\<lambda>a. a) f m) g = res_bind m (\<lambda>x. g (f x))"
  by (cases m; simp)+

lemma jpeg_segment_at_shift:
  assumes "mp < length xs"
  shows "jpeg_segment_at (pre @ xs) (length pre + pos) (length pre + mp)
    = map_sum id (seg_shift (length pre)) (jpeg_segment_at xs pos mp)"
  using be_u16_shift [of pre xs "Suc mp"]
  by (cases "be_u16 xs (Suc mp)") (auto simp: jpeg_segment_at_def seg_shift_def Let_def add.assoc nth_append)

lemma jpeg_segments_shift:
  "jpeg_segments (pre @ xs) (length pre + pos) = map_sum id (map (seg_shift (length pre))) (jpeg_segments xs pos)"
proof (induction xs pos rule: jpeg_segments.induct)
  case (1 xs pos)
  define mp where "mp = fill_end xs (pos + 1)"
  have mp: "fill_end (pre @ xs) (length pre + pos + 1) = length pre + mp"
    using fill_end_shift [of pre xs "pos + 1"] by (simp add: mp_def)
  show ?case
  proof (cases "pos + 1 < length xs \<and> xs ! pos = 0xFF \<and> mp < length xs \<and> xs ! mp \<noteq> MARKER_EOI")
    case False
    then show ?thesis
      by (subst (1 2) jpeg_segments.simps) (auto simp: mp [simplified] mp_def [symmetric, simplified] Let_def nth_append)
  next
    case go: True
    then have c: "pos + 1 < length xs" "\<not> xs ! pos \<noteq> 0xFF" "\<not> mp \<ge> length xs" "xs ! mp \<noteq> MARKER_EOI" by auto
    note unfold = jpeg_segments.simps [of "pre @ xs" "length pre + pos"] jpeg_segments.simps [of xs pos]
    note ih = "1.IH" [OF c(1,2) mp_def c(3) refl c(4)]
    show ?thesis
    proof (cases "xs ! mp = 0x01 \<or> is_rst (xs ! mp)")
      case True
      from ih(1) [OF True] True go show ?thesis
        unfolding unfold by (simp add: mp [simplified] mp_def [symmetric, simplified] nth_append add.assoc)
    next
      case False
      show ?thesis
      proof (cases "xs ! mp = MARKER_SOS")
        case False
        note ih2 = ih(2) [OF \<open>\<not> (xs ! mp = 0x01 \<or> is_rst (xs ! mp))\<close> False]
        have "res_bind (jpeg_segment_at xs pos mp) (\<lambda>s. res_bind (jpeg_segments (pre @ xs) (length pre + sg_end s))
            (\<lambda>ss. Inr (seg_shift (length pre) s # ss)))
          = res_bind (jpeg_segment_at xs pos mp) (\<lambda>s. map_sum id (map (seg_shift (length pre)))
              (res_bind (jpeg_segments xs (sg_end s)) (\<lambda>ss. Inr (s # ss))))"
          by (rule res_bind_cong [OF refl]) (simp add: ih2 map_sum_res_bind res_bind_map_sum)
        then show ?thesis
          unfolding unfold using go False \<open>\<not> (xs ! mp = 0x01 \<or> is_rst (xs ! mp))\<close>
          by (simp add: mp [simplified] mp_def [symmetric, simplified] nth_append jpeg_segment_at_shift
              res_bind_map_sum map_sum_res_bind)
      qed (use go False unfold in \<open>simp add: mp [simplified] mp_def [symmetric, simplified] nth_append\<close>)
    qed
  qed
qed

definition packet_shift :: "nat \<Rightarrow> app11_packet \<Rightarrow> app11_packet" where
  "packet_shift n p = p\<lparr>ap_start := n + ap_start p, ap_end := n + ap_end p\<rparr>"

lemma parse_app11_packet_shift:
  "parse_app11_packet (pre @ xs) (seg_shift (length pre) s) = map_option (packet_shift (length pre)) (parse_app11_packet xs s)"
  by (simp add: parse_app11_packet_def packet_shift_def slice_shift Let_def)

section \<open>The written segments, as they are read\<close>

lemma length_app11_segment [simp]: "length (app11_segment h z c) = 12 + length h + length c"
  by (simp add: app11_segment_def CI_JP_def)

definition app11_header :: "bytes \<Rightarrow> bool" where
  "app11_header h \<longleftrightarrow> length h = (if be_val (take 4 h) = 1 then 16 else 8) \<and> slice h 4 8 = ascii ''jumb''"

fun app11_run :: "bytes \<Rightarrow> nat \<Rightarrow> bytes list \<Rightarrow> bytes" where
  "app11_run h z [] = []"
| "app11_run h z (c # cs) = app11_segment h z c @ app11_run h (Suc z) cs"

fun run_segs :: "nat \<Rightarrow> bytes \<Rightarrow> bytes list \<Rightarrow> jpeg_segment list" where
  "run_segs pos h [] = []"
| "run_segs pos h (c # cs) =
     \<lparr>sg_marker = MARKER_APP11, sg_start = pos, sg_payload_start = pos + 4, sg_end = pos + (12 + length h + length c)\<rparr>
     # run_segs (pos + (12 + length h + length c)) h cs"

fun run_packets :: "nat \<Rightarrow> bytes \<Rightarrow> nat \<Rightarrow> bytes list \<Rightarrow> app11_packet list" where
  "run_packets pos h z [] = []"
| "run_packets pos h z (c # cs) =
     \<lparr>ap_start = pos, ap_end = pos + (12 + length h + length c), ap_en = BOX_INSTANCE, ap_z = z, ap_header = h, ap_dbox = c\<rparr>
     # run_packets (pos + (12 + length h + length c)) h (Suc z) cs"

lemma app11_run_map2: "app11_run h z cs = concat (map2 (app11_segment h) [z..<z + length cs] cs)"
proof (induction cs arbitrary: z)
  case (Cons c cs)
  have "[z..<z + length (c # cs)] = z # [Suc z..<Suc z + length cs]" by (subst upt_conv_Cons) auto
  then show ?case by (simp only: app11_run.simps Cons.IH) simp
qed simp

lemma jpeg_segments_app11:
  assumes "10 + length h + length c < 2 ^ 16"
  shows "jpeg_segments (pre @ app11_segment h z c @ xs) (length pre)
    = res_bind (jpeg_segments (pre @ app11_segment h z c @ xs) (length pre + (12 + length h + length c)))
        (\<lambda>ss. Inr (\<lparr>sg_marker = MARKER_APP11, sg_start = length pre, sg_payload_start = length pre + 4,
                    sg_end = length pre + (12 + length h + length c)\<rparr> # ss))"
proof -
  let ?s = "app11_segment h z c @ xs"
  have nth: "(pre @ ?s) ! length pre = 0xFF" "(pre @ ?s) ! (length pre + 1) = MARKER_APP11"
    by (simp_all add: nth_append app11_segment_def)
  have fe: "fill_end (pre @ ?s) (length pre + 1) = length pre + 1"
    using fill_end_shift [of pre ?s 1] by (simp add: fill_end_def app11_segment_def MARKER_APP11_def)
  have "be_val (be_bytes 2 (10 + length h + length c)) = 10 + length h + length c"
    using assms by (intro be_val_be_bytes_id) simp
  then have "be_u16 ?s 2 = Some (10 + length h + length c)"
    by (simp add: be_u16_def slice_get_def app11_segment_def slice_def)
  then have "be_u16 (pre @ ?s) (length pre + 2) = Some (10 + length h + length c)" using be_u16_shift by metis
  then have "jpeg_segment_at (pre @ ?s) (length pre) (length pre + 1)
    = Inr \<lparr>sg_marker = MARKER_APP11, sg_start = length pre, sg_payload_start = length pre + 4,
           sg_end = length pre + (12 + length h + length c)\<rparr>"
    using nth by (simp add: jpeg_segment_at_def add.assoc)
  with nth fe show ?thesis
    by (subst jpeg_segments.simps) (simp add: MARKER_APP11_def MARKER_EOI_def MARKER_SOS_def is_rst_def Let_def)
qed

lemma parse_app11_segment:
  assumes "app11_header h" and "z < 2 ^ 32"
  shows "parse_app11_packet (pre @ app11_segment h z c @ xs)
      \<lparr>sg_marker = MARKER_APP11, sg_start = length pre, sg_payload_start = length pre + 4,
       sg_end = length pre + (12 + length h + length c)\<rparr>
    = Some \<lparr>ap_start = length pre, ap_end = length pre + (12 + length h + length c), ap_en = BOX_INSTANCE, ap_z = z,
            ap_header = h, ap_dbox = c\<rparr>"
proof -
  let ?p = "CI_JP @ be_bytes 2 BOX_INSTANCE @ be_bytes 4 z @ h @ c"
  have pay: "slice (pre @ app11_segment h z c @ xs) (length pre + 4) (length pre + (12 + length h + length c)) = ?p"
  proof -
    let ?pre = "pre @ [0xFF, MARKER_APP11] @ be_bytes 2 (2 + 2 + 2 + 4 + length h + length c)"
    have "pre @ app11_segment h z c @ xs = ?pre @ ?p @ xs" by (simp add: app11_segment_def)
    then show ?thesis by (simp only:) (rule slice_append_mid; simp add: CI_JP_def)
  qed
  have "length h = 16 \<or> length h = 8" using assms(1) unfolding app11_header_def by metis
  then have h: "8 \<le> length h" by auto
  have f: "slice ?p 0 2 = CI_JP" "slice ?p 2 4 = be_bytes 2 BOX_INSTANCE" "slice ?p 4 8 = be_bytes 4 z"
    "slice ?p 8 12 = take 4 h" "slice ?p 12 16 = slice h 4 8" "slice ?p 8 (8 + length h) = h"
    using h by (simp_all add: slice_def CI_JP_def)
  have d: "drop (8 + length h) ?p = c"
  proof -
    have "?p = (CI_JP @ be_bytes 2 BOX_INSTANCE @ be_bytes 4 z @ h) @ c"
      "length (CI_JP @ be_bytes 2 BOX_INSTANCE @ be_bytes 4 z @ h) = 8 + length h" by (simp_all add: CI_JP_def)
    then show ?thesis by (metis append_eq_conv_conj)
  qed
  have v: "be_val (be_bytes 2 BOX_INSTANCE) = BOX_INSTANCE" "be_val (be_bytes 4 z) = z"
    using assms(2) by (intro be_val_be_bytes_id; simp add: BOX_INSTANCE_def)+
  have l: "length ?p = 8 + length h + length c" by (simp add: CI_JP_def)
  have hl: "(if be_val (take 4 h) = 1 then 16 else 8) = length h" using assms(1) unfolding app11_header_def by metis
  have j: "slice h 4 8 = ascii ''jumb''" using assms(1) by (simp add: app11_header_def)
  show ?thesis
    unfolding parse_app11_packet_def jpeg_segment.select_convs pay Let_def f d hl j v l using h by simp
qed

lemma jpeg_segments_run:
  assumes "\<forall>c \<in> set cs. 10 + length h + length c < 2 ^ 16"
  shows "jpeg_segments (pre @ app11_run h z cs @ xs) (length pre)
    = res_bind (jpeg_segments (pre @ app11_run h z cs @ xs) (length (pre @ app11_run h z cs)))
        (\<lambda>ss. Inr (run_segs (length pre) h cs @ ss))"
  using assms
proof (induction cs arbitrary: pre z)
  case (Cons c cs)
  let ?d = "pre @ app11_segment h z c @ app11_run h (Suc z) cs @ xs"
  have "jpeg_segments ?d (length pre + (12 + length h + length c))
      = res_bind (jpeg_segments ?d (length (pre @ app11_run h z (c # cs))))
          (\<lambda>ss. Inr (run_segs (length pre + (12 + length h + length c)) h cs @ ss))"
    using Cons.IH [of "pre @ app11_segment h z c" "Suc z"] Cons.prems by (simp add: add.assoc)
  with jpeg_segments_app11 [of h c pre z "app11_run h (Suc z) cs @ xs"] Cons.prems
  show ?case by (cases "jpeg_segments ?d (length (pre @ app11_run h z (c # cs)))") simp_all
qed simp

lemma run_packets_parse:
  assumes "app11_header h" and "z + length cs \<le> 2 ^ 32"
  shows "map (parse_app11_packet (pre @ app11_run h z cs @ xs)) (run_segs (length pre) h cs)
    = map Some (run_packets (length pre) h z cs)"
  using assms(2)
proof (induction cs arbitrary: pre z)
  case (Cons c cs)
  from Cons.IH [of "Suc z" "pre @ app11_segment h z c"] Cons.prems
    parse_app11_segment [OF assms(1), of z pre c "app11_run h (Suc z) cs @ xs"]
  show ?case by (simp add: add.assoc)
qed simp


section \<open>Grouping the packets\<close>

lemma fold_run:
  assumes "map (parse_app11_packet data) segs = map Some (run_packets pos h z cs)"
    and "fs_packet_count st + length cs \<le> MAX_APP11_PACKET_COUNT" and "z + length cs \<le> 2 ^ 32"
    and "fs_current st \<noteq> [] \<Longrightarrow> ap_en (last (fs_current st)) = BOX_INSTANCE \<and> ap_z (last (fs_current st)) + 1 = z
      \<and> ap_header (last (fs_current st)) = h \<and> ap_end (last (fs_current st)) = pos"
  shows "try_fold (family_step data) st segs
    = Inr (st\<lparr>fs_current := fs_current st @ run_packets pos h z cs, fs_packet_count := fs_packet_count st + length cs\<rparr>)"
  using assms
proof (induction cs arbitrary: segs st pos z)
  case (Cons c cs)
  let ?p = "\<lparr>ap_start = pos, ap_end = pos + (12 + length h + length c), ap_en = BOX_INSTANCE, ap_z = z, ap_header = h, ap_dbox = c\<rparr>"
  from Cons.prems(1) obtain s ss where segs: "segs = s # ss" and s: "parse_app11_packet data s = Some ?p"
    and ss: "map (parse_app11_packet data) ss = map Some (run_packets (pos + (12 + length h + length c)) h (Suc z) cs)"
    by (cases segs) auto
  let ?st = "st\<lparr>fs_current := fs_current st @ [?p], fs_packet_count := fs_packet_count st + 1\<rparr>"
  have "fs_current st \<noteq> [] \<Longrightarrow> continues (fs_current st) ?p"
    using Cons.prems(3,4) by (simp add: continues_def)
  then have "family_step data st s = Inr ?st" using s Cons.prems(2) by (auto simp: family_step_def Let_def)
  moreover have "try_fold (family_step data) ?st ss = Inr (?st\<lparr>fs_current := fs_current ?st
      @ run_packets (pos + (12 + length h + length c)) h (Suc z) cs, fs_packet_count := fs_packet_count ?st + length cs\<rparr>)"
    using ss Cons.prems by (intro Cons.IH) auto
  ultimately show ?case by (simp add: segs)
qed simp

lemma fold_no_packets: "\<forall>s \<in> set segs. parse_app11_packet data s = None \<Longrightarrow> try_fold (family_step data) st segs = Inr st"
  by (induction segs) (auto simp: family_step_def)

lemma length_run_packets [simp]: "length (run_packets pos h z cs) = length cs"
  by (induction cs arbitrary: pos z) auto

lemma map_dbox_run_packets [simp]: "map ap_dbox (run_packets pos h z cs) = cs"
  by (induction cs arbitrary: pos z) auto

lemma run_packets_nth:
  "i < length cs \<Longrightarrow> ap_z (run_packets pos h z cs ! i) = z + i \<and> ap_header (run_packets pos h z cs ! i) = h"
  by (induction cs arbitrary: pos z i) (auto simp: nth_Cons split: nat.splits)

lemma run_packets_step:
  "Suc i < length cs \<Longrightarrow> ap_end (run_packets pos h z cs ! i) = ap_start (run_packets pos h z cs ! Suc i)"
proof (induction cs arbitrary: pos z i)
  case (Cons c cs)
  show ?case
  proof (cases i)
    case 0
    with Cons.prems show ?thesis by (cases cs) auto
  next
    case (Suc j)
    with Cons show ?thesis by simp
  qed
qed simp

lemma hd_run_packets: "cs \<noteq> [] \<Longrightarrow> ap_header (hd (run_packets pos h z cs)) = h"
  by (cases cs) auto

lemma run_sequence_is_valid: "sequence_is_valid (run_packets pos h 1 cs)"
proof -
  let ?f = "run_packets pos h 1 cs"
  have "ap_z (?f ! i) = i + 1 \<and> ap_header (?f ! i) = ap_header (hd ?f) \<and> (i = 0 \<or> ap_end (?f ! (i - 1)) = ap_start (?f ! i))"
    if "i < length cs" for i
  proof -
    have "cs \<noteq> []" using that by auto
    then show ?thesis
      using that run_packets_nth [of i cs pos h 1] run_packets_step [of "i - 1" cs pos h 1] hd_run_packets [of cs pos h 1]
      by (cases i) auto
  qed
  then show ?thesis by (simp add: sequence_is_valid_def list_all_iff Let_def)
qed

lemma checked_sum_Some: "acc + sum_list ns \<le> usize_max \<Longrightarrow> checked_sum acc ns = Some (acc + sum_list ns)"
  by (induction ns arbitrary: acc) (auto simp: checked_add_def)

lemma assemble_run: "cs \<noteq> [] \<Longrightarrow> assemble_family (run_packets pos h z cs) = h @ concat cs"
  by (simp add: assemble_family_def hd_run_packets)

lemma run_family_is_valid:
  assumes "cs \<noteq> []" and "declared_box_len h = Some (length (h @ concat cs))"
    and "length (h @ concat cs) \<le> MAX_MANIFEST_STORE_BYTES" and "store_carries_manifest (h @ concat cs)"
  shows "app11_family_is_valid (run_packets pos h 1 cs) = Inr True"
proof -
  let ?f = "run_packets pos h 1 cs"
  obtain first rest where f: "?f = first # rest" using assms(1) by (cases cs) auto
  then have first: "ap_header first = h" using hd_run_packets [OF assms(1), of pos h 1] by simp
  have "map (\<lambda>p. length (ap_dbox p)) ?f = map length cs" using map_dbox_run_packets [of pos h 1 cs] by (metis map_map comp_apply map_eq_conv)
  moreover have "length h + sum_list (map length cs) \<le> usize_max"
    using assms(3) by (simp add: MAX_MANIFEST_STORE_BYTES_def usize_max_def length_concat)
  ultimately have "Option.bind (checked_sum 0 (map (\<lambda>p. length (ap_dbox p)) ?f)) (checked_add (length (ap_header first)))
      = Some (length (h @ concat cs))"
    using checked_sum_Some [of 0 "map length cs"] by (simp add: first length_concat checked_add_def)
  then have "Option.bind (checked_sum 0 (map (\<lambda>p. length (ap_dbox p)) (first # rest))) (checked_add (length (ap_header first)))
      = Some (length (h @ concat cs))" by (simp only: f)
  with assms(2-4) run_sequence_is_valid [of pos h cs, unfolded f] assemble_run [OF assms(1), of pos h 1, unfolded f] first
  show ?thesis unfolding app11_family_is_valid_def f list.case by (simp add: ensure_manifest_store_size_def)
qed

section \<open>Reading back what was embedded\<close>

lemma fill_end_stops:
  assumes "fill_end data q < length data"
  shows "data ! fill_end data q \<noteq> 0xFF" and "q \<le> i \<Longrightarrow> i < fill_end data q \<Longrightarrow> data ! i = 0xFF"
proof -
  let ?xs = "drop q data"
  let ?n = "length (takeWhile (\<lambda>b. b = 0xFF) ?xs)"
  have q: "fill_end data q = q + ?n" by (simp add: fill_end_def)
  with assms have n: "?n < length ?xs" by simp
  show "data ! fill_end data q \<noteq> 0xFF" using nth_length_takeWhile [OF n] n by (simp add: q)
  assume "q \<le> i" "i < fill_end data q"
  then have "i - q < ?n" by (simp add: q)
  from takeWhile_nth [OF this] nth_mem [OF this] \<open>q \<le> i\<close> n show "data ! i = 0xFF"
    by (auto dest!: set_takeWhileD simp: q)
qed

lemma fill_end_eqI:
  assumes "q \<le> mp" and "mp < length data" and "data ! mp \<noteq> 0xFF" and "\<And>i. q \<le> i \<Longrightarrow> i < mp \<Longrightarrow> data ! i = 0xFF"
  shows "fill_end data q = mp"
proof -
  have "takeWhile (\<lambda>b. b = 0xFF) (drop q data) = take (mp - q) (drop q data)"
    using assms by (intro takeWhile_eq_take_P_nth) auto
  then show ?thesis using assms(1,2) by (simp add: fill_end_def)
qed

text \<open>A first segment is read the same way whatever follows it.\<close>

lemma jpeg_segments_first:
  assumes "jpeg_segments data pos = Inr (s # rest)" and "sg_start s = pos"
  shows "jpeg_segments data (sg_end s) = Inr rest"
    and "jpeg_segments (take (sg_end s) data @ ys) pos
      = res_bind (jpeg_segments (take (sg_end s) data @ ys) (sg_end s)) (\<lambda>ss. Inr (s # ss))"
proof -
  define mp where "mp = fill_end data (pos + 1)"
  have mp: "pos < mp" using fill_end_ge [of "pos + 1" data] by (simp add: mp_def)
  note unfolded = assms(1) [unfolded jpeg_segments.simps [of data pos], folded mp_def]
  have c: "pos + 1 < length data" "data ! pos = 0xFF" "mp < length data" "data ! mp \<noteq> MARKER_EOI"
    using unfolded by (auto simp: Let_def split: if_splits)
  have m: "\<not> (data ! mp = 0x01 \<or> is_rst (data ! mp))"
  proof
    assume "data ! mp = 0x01 \<or> is_rst (data ! mp)"
    with unfolded c have "jpeg_segments data (mp + 1) = Inr (s # rest)" by (simp add: Let_def)
    from jpeg_segments_ok [OF this] assms(2) mp show False by simp
  qed
  have sos: "data ! mp \<noteq> MARKER_SOS" using unfolded c m by (auto simp: Let_def split: if_splits)
  then have sg: "jpeg_segment_at data pos mp = Inr s" and rest: "jpeg_segments data (sg_end s) = Inr rest"
    using unfolded c m by (auto simp: Let_def res_bind_eq_Inr split: if_splits)
  show "jpeg_segments data (sg_end s) = Inr rest" by (rule rest)
  let ?d = "take (sg_end s) data @ ys"
  note e = jpeg_segment_at_ok [OF sg]
  have same: "?d ! i = data ! i" if "i < sg_end s" for i using that e by (simp add: nth_append)
  have "fill_end ?d (pos + 1) = mp"
  proof (rule fill_end_eqI)
    show "?d ! mp \<noteq> 0xFF" using same [of mp] e fill_end_stops(1) [of data "pos + 1"] c by (simp add: mp_def)
    show "?d ! i = 0xFF" if "pos + 1 \<le> i" "i < mp" for i
      using same [of i] e that fill_end_stops(2) [of data "pos + 1" i] c by (simp add: mp_def)
  qed (use mp e in auto)
  moreover have "be_u16 ?d (mp + 1) = be_u16 data (mp + 1)"
    using conjunct1 [OF e] conjunct1 [OF conjunct2 [OF e]] by (auto simp: be_u16_def slice_get_def slice_def drop_take min_def)
  then have "jpeg_segment_at ?d pos mp = Inr s"
  proof -
    assume u: "be_u16 ?d (mp + 1) = be_u16 data (mp + 1)"
    from sg obtain len where len: "be_u16 data (mp + 1) = Some len" "\<not> len < 2"
      and s: "s = \<lparr>sg_marker = data ! mp, sg_start = pos, sg_payload_start = mp + 3, sg_end = mp + 1 + len\<rparr>"
      by (auto simp: jpeg_segment_at_def res_bind_eq_Inr ok_or_eq_Inr Let_def split: if_splits)
    then show ?thesis unfolding jpeg_segment_at_def u len ok_or_simps res_bind_Inr using same [of mp] e by (simp add: s)
  qed
  ultimately show "jpeg_segments ?d pos = res_bind (jpeg_segments ?d (sg_end s)) (\<lambda>ss. Inr (s # ss))"
    using c m sos same [of pos] same [of mp] mp e by (subst jpeg_segments.simps) (simp add: Let_def)
qed

lemma foldl_unchanged: "\<forall>x \<in> set xs. \<not> P x \<Longrightarrow> foldl (\<lambda>a x. if P x then f x else a) a xs = a"
  by (induction xs) auto

lemma insertion_offset_cases:
  assumes "insertion_offset data = Inr at" and "jpeg_walk_segments data = Inr segs"
  obtains (start) "at = 2" | (app0) s rest where "segs = s # rest" "sg_start s = 2" "sg_marker s = MARKER_APP0" "at = sg_end s"
proof (cases segs)
  case Nil
  with assms show ?thesis by (intro start) (auto simp: insertion_offset_def res_bind_eq_Inr)
next
  case (Cons s rest)
  from assms(2) have ok: "sorted_wrt (\<lambda>x y. sg_end x \<le> sg_start y) segs"
    "\<forall>s \<in> set segs. 2 \<le> sg_start s \<and> sg_start s < sg_end s"
    using jpeg_segments_ok [of data 2 segs] by (auto simp: jpeg_walk_segments_def res_bind_eq_Inr)
  have "\<forall>t \<in> set rest. \<not> (sg_start t = 2 \<and> sg_marker t = MARKER_APP0)" using ok Cons by fastforce
  from foldl_unchanged [OF this, of sg_end] assms Cons
  have "at = (if sg_start s = 2 \<and> sg_marker s = MARKER_APP0 then sg_end s else 2)"
    by (auto simp: insertion_offset_def res_bind_eq_Inr)
  then show ?thesis using start app0 [OF Cons] by (auto split: if_splits)
qed


text \<open>Inserting a run of packets into a JPEG without packets makes it the only family.\<close>

lemma embedded_families:
  assumes walk: "jpeg_walk_segments clean = Inr segs" and none: "\<forall>s \<in> set segs. parse_app11_packet clean s = None"
    and at: "insertion_offset clean = Inr at"
    and h: "app11_header h" and cs: "\<forall>c \<in> set cs. 10 + length h + length c < 2 ^ 16"
    and n: "length cs \<le> MAX_APP11_PACKET_COUNT" and v: "app11_family_is_valid (run_packets at h 1 cs) = Inr True"
  shows "valid_app11_families (take at clean @ app11_run h 1 cs @ drop at clean) = Inr [run_packets at h 1 cs]"
proof -
  let ?pre = "take at clean" and ?run = "app11_run h 1 cs" and ?rest = "drop at clean"
  let ?out = "?pre @ ?run @ ?rest"
  from walk have soi: "check_soi clean = Inr ()" and w2: "jpeg_segments clean 2 = Inr segs"
    by (auto simp: jpeg_walk_segments_def res_bind_eq_Inr)
  have len2: "2 \<le> length clean" using soi by (auto simp: check_soi_def split: if_splits)
  obtain pres tl where at2: "2 \<le> at" "at \<le> length clean" and segs: "segs = pres @ tl"
    and pres: "\<forall>s \<in> set pres. sg_marker s = MARKER_APP0" and tl: "jpeg_segments clean at = Inr tl"
    and go: "jpeg_segments ?out 2 = res_bind (jpeg_segments ?out at) (\<lambda>ss. Inr (pres @ ss))"
  proof (rule insertion_offset_cases [OF at walk])
    assume "at = 2"
    with that [of "[]" segs] w2 len2 show thesis by (cases "jpeg_segments ?out 2") auto
  next
    fix s rest assume s: "segs = s # rest" "sg_start s = 2" "sg_marker s = MARKER_APP0" "at = sg_end s"
    from jpeg_segments_ok [OF w2] s have "2 \<le> at" "at \<le> length clean" by auto
    with that [of "[s]" rest] s jpeg_segments_first [OF w2 [unfolded s(1)] s(2)] show thesis by simp
  qed
  have lp: "length ?pre = at" using at2 by simp
  obtain r where r: "jpeg_segments ?rest 0 = Inr r" and tr: "tl = map (seg_shift at) r"
    using jpeg_segments_shift [of ?pre ?rest 0] tl lp by (cases "jpeg_segments ?rest 0") auto
  have "parse_app11_packet ?rest s = None" if "s \<in> set r" for s
    using none that parse_app11_packet_shift [of ?pre ?rest s] lp by (auto simp: segs tr)
  then have tail: "\<forall>s \<in> set (map (seg_shift (length (?pre @ ?run))) r). parse_app11_packet ?out s = None"
    using parse_app11_packet_shift [of "?pre @ ?run" ?rest] by simp
  have "jpeg_segments ?out (length (?pre @ ?run)) = Inr (map (seg_shift (length (?pre @ ?run))) r)"
    using jpeg_segments_shift [of "?pre @ ?run" ?rest 0] r by simp
  with go jpeg_segments_run [OF cs, of ?pre 1 ?rest] lp
  have w: "jpeg_segments ?out 2 = Inr (pres @ run_segs at h cs @ map (seg_shift (length (?pre @ ?run))) r)" by simp
  have "check_soi ?out = Inr ()" using soi at2 by (auto simp: check_soi_def nth_append split: if_splits)
  then have walk': "jpeg_walk_segments ?out = Inr (pres @ run_segs at h cs @ map (seg_shift (length (?pre @ ?run))) r)"
    using w by (simp add: jpeg_walk_segments_def)
  have "\<forall>s \<in> set pres. parse_app11_packet ?out s = None"
    using pres by (simp add: parse_app11_packet_def MARKER_APP0_def MARKER_APP11_def)
  note no = fold_no_packets [OF this] fold_no_packets [OF tail]
  have "map (parse_app11_packet ?out) (run_segs at h cs) = map Some (run_packets at h 1 cs)"
    using run_packets_parse [OF h, of 1 cs ?pre ?rest] n lp by (simp add: MAX_APP11_PACKET_COUNT_def)
  from fold_run [OF this, of "\<lparr>fs_families = [], fs_current = [], fs_packet_count = 0\<rparr>"] n no v
  show ?thesis by (simp add: valid_app11_families_def walk' [simplified] try_fold_append MAX_APP11_PACKET_COUNT_def)
qed

lemma be_val_take4_one: "4 \<le> length (xs :: bytes) \<Longrightarrow> be_val (take 4 xs) = 1 \<longleftrightarrow> take 4 xs = [0, 0, 0, 1]"
  using be_val_inj [of "take 4 xs" "[0, 0, 0, 1]"] by auto

lemma declared_box_len_take:
  "declared_box_len store = Some n \<Longrightarrow> declared_box_len (take (if slice store 0 4 = [0, 0, 0, 1] then 16 else 8) store) = Some n"
  using be_val_take4_one [of store]
  by (auto simp: declared_box_len_def Option.bind_eq_Some_conv slice_def drop_take Let_def split: if_splits)

lemma insertion_offset_within:
  assumes "insertion_offset data = Inr at" and "jpeg_walk_segments data = Inr segs"
  shows "at \<le> length data"
proof (rule insertion_offset_cases [OF assms])
  assume "at = 2"
  with assms show ?thesis by (auto simp: insertion_offset_def check_soi_def res_bind_eq_Inr split: if_splits)
next
  fix s rest assume "segs = s # rest" "at = sg_end s"
  with assms(2) jpeg_segments_ok [of data 2 segs] show ?thesis by (auto simp: jpeg_walk_segments_def res_bind_eq_Inr)
qed

lemma jpeg_embed_families:
  assumes "jpeg_embed asset store = Inr out" and "jpeg_strip asset = Inr clean"
    and "jpeg_walk_segments clean = Inr segs" and "\<forall>s \<in> set segs. parse_app11_packet clean s = None"
    and "declared_box_len store = Some (length store)" and "slice store 4 8 = ascii ''jumb''"
    and "length store \<le> MAX_MANIFEST_STORE_BYTES" and "store_carries_manifest store"
  obtains h cs at where "valid_app11_families out = Inr [run_packets at h 1 cs]" and "cs \<noteq> []" and "h @ concat cs = store"
    and "out = take at clean @ app11_run h 1 cs @ drop at clean" and "at \<le> length clean"
proof -
  define hl where "hl = (if slice store 0 4 = [0, 0, 0, 1] then 16 else 8 :: nat)"
  define h where "h = take hl store"
  define cs where "cs = (if drop hl store = [] then [[]] else chunks_of (MAX_SEGMENT_LEN - 2 - 2 - 2 - 4 - hl) (drop hl store))"
  from assms(1,2) obtain at where at: "insertion_offset clean = Inr at"
    and out: "out = take at clean @ app11_run h 1 cs @ drop at clean" and l: "8 \<le> length store" "hl \<le> length store"
    by (auto simp: jpeg_embed_def build_app11_segments_def res_bind_eq_Inr app11_run_map2 Let_def h_def cs_def hl_def split: if_splits)
  have hl: "hl = 8 \<or> hl = 16" by (auto simp: hl_def)
  have lh: "length h = hl" using l by (simp add: h_def)
  have pos: "0 < MAX_SEGMENT_LEN - 2 - 2 - 2 - 4 - hl" using hl by (auto simp: MAX_SEGMENT_LEN_def)
  note ch = chunks_of_facts [OF pos, where xs = "drop hl store"]
  have store: "h @ concat cs = store" and ne: "cs \<noteq> []" using ch by (auto simp: cs_def h_def)
  have "take 4 h = take 4 store" "slice h 4 8 = slice store 4 8" using hl by (auto simp: h_def slice_def drop_take min_def)
  then have "app11_header h"
    using assms(6) be_val_take4_one [of store] l lh by (simp add: app11_header_def hl_def slice_def)
  moreover have "\<forall>c \<in> set cs. 10 + length h + length c < 2 ^ 16"
  proof
    fix c assume "c \<in> set cs"
    then have "length c \<le> MAX_SEGMENT_LEN - 2 - 2 - 2 - 4 - hl" using ch(2) [of c] by (auto simp: cs_def split: if_splits)
    then show "10 + length h + length c < 2 ^ 16" using hl lh by (auto simp: MAX_SEGMENT_LEN_def)
  qed
  moreover have "length cs \<le> MAX_APP11_PACKET_COUNT"
  proof (cases "drop hl store = []")
    case False
    have "length cs * 65509 \<le> length cs * (MAX_SEGMENT_LEN - 2 - 2 - 2 - 4 - hl)" using hl by (auto simp: MAX_SEGMENT_LEN_def)
    also have "\<dots> < length store + 65535" using ch(3) False hl by (auto simp: cs_def MAX_SEGMENT_LEN_def)
    finally show ?thesis using assms(7) by (simp add: MAX_APP11_PACKET_COUNT_def MAX_MANIFEST_STORE_BYTES_def)
  qed (simp add: cs_def MAX_APP11_PACKET_COUNT_def)
  moreover have "app11_family_is_valid (run_packets at h 1 cs) = Inr True"
    using declared_box_len_take [OF assms(5)] assms(7,8) by (intro run_family_is_valid ne) (simp_all add: store, simp add: h_def hl_def)
  ultimately have "valid_app11_families out = Inr [run_packets at h 1 cs]"
    unfolding out by (intro embedded_families [OF assms(3,4) at])
  with that ne store out insertion_offset_within [OF at assms(3)] show thesis by blast
qed

lemma last_run_packets:
  "cs \<noteq> [] \<Longrightarrow> ap_end (last (run_packets pos h z cs)) = pos + length (app11_run h z cs)"
proof (induction cs arbitrary: pos z)
  case (Cons c cs)
  show ?case
  proof (cases "cs = []")
    case False
    then have "run_packets (pos + (12 + length h + length c)) h (Suc z) cs \<noteq> []" by (metis length_0_conv length_run_packets)
    with Cons.IH [OF False, of "pos + (12 + length h + length c)" "Suc z"] show ?thesis by simp
  qed simp
qed simp

lemma jpeg_extract_embed_aux:
  assumes "jpeg_embed asset store = Inr out" and "jpeg_strip asset = Inr clean"
    and "jpeg_walk_segments clean = Inr segs" and "\<forall>s \<in> set segs. parse_app11_packet clean s = None"
    and "declared_box_len store = Some (length store)" and "slice store 4 8 = ascii ''jumb''"
    and "length store \<le> MAX_MANIFEST_STORE_BYTES" and "store_carries_manifest store"
  shows "jpeg_extract out = Inr (Some store)"
    and "\<exists>x. jpeg_exclusions out = Inr [x] \<and> take (ex_start x) out @ drop (ex_start x + ex_length x) out = clean"
proof -
  from assms obtain h cs at where fams: "valid_app11_families out = Inr [run_packets at h 1 cs]" and ne: "cs \<noteq> []"
    and store: "h @ concat cs = store" and out: "out = take at clean @ app11_run h 1 cs @ drop at clean" and at: "at \<le> length clean"
    by (rule jpeg_embed_families)
  show "jpeg_extract out = Inr (Some store)" using fams assemble_run [OF ne] store by (simp add: jpeg_extract_def)
  have "ap_start (hd (run_packets at h 1 cs)) = at" using ne by (cases cs) auto
  then have "jpeg_exclusions out = Inr [\<lparr>ex_start = at, ex_length = length (app11_run h 1 cs)\<rparr>]"
    using fams last_run_packets [OF ne, of at h 1] by (simp add: jpeg_exclusions_def valid_app11_spans_def)
  then show "\<exists>x. jpeg_exclusions out = Inr [x] \<and> take (ex_start x) out @ drop (ex_start x + ex_length x) out = clean"
    using at by (simp add: out min_def)
qed

end
