(* ===== verification/Jpeg_Families.thy ===== *)
theory Jpeg_Families
  imports Jpeg_Embed
begin

text \<open>
  Which \<open>APP11\<close> packets form families: the walk of \<^verbatim>\<open>c2pa-formats/jpeg.rs\<close> splits the packets of a file into its longest runs of
  packets that follow each other, and keeps the runs that carry a complete manifest store.
\<close>

section \<open>Packets as bytes\<close>

text \<open>
  A packet on the wire: fill bytes, the \<open>APP11\<close> marker, a length field that leads to the end of the segment, \<open>JP\<close>, the box instance,
  the packet number, and the header of a \<open>jumb\<close> box followed by a fragment.
\<close>

definition packet_at :: "bytes \<Rightarrow> app11_packet \<Rightarrow> bool" where
  "packet_at data p \<longleftrightarrow>
     (\<exists>mp. ap_start p < mp \<and> (\<forall>i. ap_start p \<le> i \<and> i < mp \<longrightarrow> data ! i = 0xFF) \<and> data ! mp = 0xEB
       \<and> ap_end p = mp + 1 + be_val (slice data (mp + 1) (mp + 3)) \<and> ap_end p \<le> length data
       \<and> slice data (mp + 3) (mp + 5) = [0x4A, 0x50]
       \<and> ap_en p = be_val (slice data (mp + 5) (mp + 7)) \<and> ap_z p = be_val (slice data (mp + 7) (mp + 11))
       \<and> length (ap_header p) = (if be_val (slice data (mp + 11) (mp + 15)) = 1 then 16 else 8)
       \<and> slice data (mp + 15) (mp + 19) = ascii ''jumb''
       \<and> mp + 11 + length (ap_header p) \<le> ap_end p
       \<and> ap_header p = slice data (mp + 11) (mp + 11 + length (ap_header p))
       \<and> ap_dbox p = slice data (mp + 11 + length (ap_header p)) (ap_end p))"

definition segment_framed :: "bytes \<Rightarrow> jpeg_segment \<Rightarrow> nat \<Rightarrow> bool" where
  "segment_framed data s mp \<longleftrightarrow>
     sg_start s < mp \<and> (\<forall>i. sg_start s \<le> i \<and> i < mp \<longrightarrow> data ! i = 0xFF) \<and> data ! mp \<noteq> 0xFF
     \<and> sg_marker s = data ! mp \<and> sg_payload_start s = mp + 3 \<and> mp + 3 \<le> sg_end s \<and> sg_end s \<le> length data
     \<and> sg_end s = mp + 1 + be_val (slice data (mp + 1) (mp + 3))"

lemma jpeg_segment_at_framed:
  assumes "jpeg_segment_at data pos (fill_end data (pos + 1)) = Inr s" and "data ! pos = 0xFF" and "fill_end data (pos + 1) < length data"
  shows "segment_framed data s (fill_end data (pos + 1))"
proof -
  let ?mp = "fill_end data (pos + 1)"
  note ok = jpeg_segment_at_ok [OF assms(1)]
  have "data ! i = 0xFF" if "pos \<le> i" "i < ?mp" for i
    using fill_end_stops(2) [OF assms(3), of i] that assms(2) by (cases "i = pos") auto
  moreover have "sg_end s = ?mp + 1 + be_val (slice data (?mp + 1) (?mp + 3))"
    using assms(1) by (auto simp: jpeg_segment_at_def be_u16_def slice_get_def res_bind_eq_Inr Let_def numeral_3_eq_3 split: if_splits)
  ultimately show ?thesis
    using ok fill_end_stops(1) [OF assms(3)] fill_end_ge [of "pos + 1" data] by (auto simp: segment_framed_def)
qed

lemma jpeg_segments_framed:
  "jpeg_segments data pos = Inr ss \<Longrightarrow> s \<in> set ss \<Longrightarrow> \<exists>mp. segment_framed data s mp"
proof (induction data pos arbitrary: ss rule: jpeg_segments.induct)
  case (1 data pos)
  define mp where "mp = fill_end data (pos + 1)"
  note unfolded = "1.prems"(1) [unfolded jpeg_segments.simps [of data pos], folded mp_def]
  have pre: "pos + 1 < length data" "\<not> data ! pos \<noteq> 0xFF" "\<not> mp \<ge> length data" "data ! mp \<noteq> MARKER_EOI"
    using unfolded "1.prems"(2) by (auto simp: Let_def split: if_splits)
  show ?case
  proof (cases "data ! mp = 0x01 \<or> is_rst (data ! mp)")
    case True
    with unfolded pre have "jpeg_segments data (mp + 1) = Inr ss" by (simp add: Let_def)
    from "1.IH"(1) [OF pre(1,2) mp_def pre(3) refl pre(4) True this "1.prems"(2)] show ?thesis .
  next
    case False
    have sos: "data ! mp \<noteq> MARKER_SOS" using unfolded pre False "1.prems"(2) by (auto simp: Let_def split: if_splits)
    with unfolded pre False obtain x xs where x: "jpeg_segment_at data pos mp = Inr x" "jpeg_segments data (sg_end x) = Inr xs"
      and ss: "ss = x # xs" by (auto simp: Let_def res_bind_eq_Inr)
    from jpeg_segment_at_framed [of data pos x] x(1) pre have "segment_framed data x mp" by (simp add: mp_def)
    with "1.IH"(2) [OF pre(1,2) mp_def pre(3) refl pre(4) False sos x] "1.prems"(2) show ?thesis by (auto simp: ss)
  qed
qed

lemma slice_within: "a + y \<le> b \<Longrightarrow> slice (slice xs a b) x y = slice xs (a + x) (a + y)"
  by (simp add: slice_def drop_take min_def add.commute)

lemma drop_slice: "drop n (slice xs a b) = slice xs (a + n) b"
  by (simp add: slice_def drop_take add.commute)

lemma length_slice_within: "b \<le> length xs \<Longrightarrow> length (slice xs a b) = b - a"
  by simp

lemma framed_unique:
  assumes "segment_framed data s mp" and "sg_start s < m" and "\<forall>i. sg_start s \<le> i \<and> i < m \<longrightarrow> data ! i = 0xFF" and "data ! m \<noteq> 0xFF"
  shows "m = mp"
proof (rule ccontr)
  assume "m \<noteq> mp"
  then consider "m < mp" | "mp < m" by linarith
  then show False using assms by cases (auto simp: segment_framed_def)
qed

lemma parse_framed:
  assumes "segment_framed data s mp"
  defines "h \<equiv> if be_val (slice data (mp + 11) (mp + 15)) = 1 then 16 else 8 :: nat"
  shows "parse_app11_packet data s =
    (if data ! mp = 0xEB \<and> mp + 19 \<le> sg_end s \<and> slice data (mp + 3) (mp + 5) = [0x4A, 0x50] \<and> mp + 11 + h \<le> sg_end s
        \<and> slice data (mp + 15) (mp + 19) = ascii ''jumb''
     then Some \<lparr>ap_start = sg_start s, ap_end = sg_end s, ap_en = be_val (slice data (mp + 5) (mp + 7)),
                ap_z = be_val (slice data (mp + 7) (mp + 11)), ap_header = slice data (mp + 11) (mp + 11 + h),
                ap_dbox = slice data (mp + 11 + h) (sg_end s)\<rparr>
     else None)"
proof -
  note f = assms(1) [unfolded segment_framed_def]
  let ?pay = "slice data (mp + 3) (sg_end s)"
  have len: "length ?pay = sg_end s - (mp + 3)" using f by (intro length_slice_within) simp
  have start: "sg_payload_start s = mp + 3" "sg_marker s = data ! mp" using f by simp_all
  show ?thesis
  proof (cases "mp + 19 \<le> sg_end s")
    case True
    have w: "slice ?pay 0 2 = slice data (mp + 3) (mp + 5)" "slice ?pay 2 4 = slice data (mp + 5) (mp + 7)"
      "slice ?pay 4 8 = slice data (mp + 7) (mp + 11)" "slice ?pay 8 12 = slice data (mp + 11) (mp + 15)"
      "slice ?pay 12 16 = slice data (mp + 15) (mp + 19)"
      using True by (simp_all add: slice_within add.commute)
    have d: "drop (8 + n) ?pay = slice data (mp + 11 + n) (sg_end s)" for n
      using drop_slice [of "8 + n" data "mp + 3" "sg_end s"] by (simp add: ac_simps)
    have "slice ?pay 8 (8 + h) = slice data (mp + 11) (mp + 11 + h)" if "mp + 11 + h \<le> sg_end s"
      using that slice_within [of "mp + 3" "8 + h" "sg_end s" data 8] by (simp add: ac_simps)
    moreover have "length ?pay < 8 + h \<longleftrightarrow> \<not> mp + 11 + h \<le> sg_end s" "\<not> length ?pay < 16" using True len by auto
    ultimately show ?thesis using True
      unfolding parse_app11_packet_def start Let_def w d h_def [symmetric] CI_JP_def MARKER_APP11_def by simp
  next
    case False
    then have "length ?pay < 16" using len by simp
    with False show ?thesis by (simp add: parse_app11_packet_def start)
  qed
qed

lemma packet_iff:
  assumes "segment_framed data s mp"
  shows "parse_app11_packet data s = Some p \<longleftrightarrow> packet_at data p \<and> ap_start p = sg_start s"
proof
  note f = assms [unfolded segment_framed_def]
  let ?h = "if be_val (slice data (mp + 11) (mp + 15)) = 1 then 16 else 8 :: nat"
  show "packet_at data p \<and> ap_start p = sg_start s" if "parse_app11_packet data s = Some p"
  proof -
    from that have c: "data ! mp = 0xEB" "slice data (mp + 3) (mp + 5) = [0x4A, 0x50]" "mp + 11 + ?h \<le> sg_end s"
        "slice data (mp + 15) (mp + 19) = ascii ''jumb''"
      and p: "p = \<lparr>ap_start = sg_start s, ap_end = sg_end s, ap_en = be_val (slice data (mp + 5) (mp + 7)),
                ap_z = be_val (slice data (mp + 7) (mp + 11)), ap_header = slice data (mp + 11) (mp + 11 + ?h),
                ap_dbox = slice data (mp + 11 + ?h) (sg_end s)\<rparr>"
      unfolding parse_framed [OF assms] by (simp_all split: if_split_asm)
    have "length (slice data (mp + 11) (mp + 11 + ?h)) = mp + 11 + ?h - (mp + 11)"
      using f by (intro length_slice_within order_trans [OF c(3)]) blast
    then have l: "length (ap_header p) = ?h" by (simp only: p app11_packet.select_convs diff_add_inverse)
    have comps: "ap_start p = sg_start s" "ap_end p = sg_end s" "ap_en p = be_val (slice data (mp + 5) (mp + 7))"
      "ap_z p = be_val (slice data (mp + 7) (mp + 11))" "ap_header p = slice data (mp + 11) (mp + 11 + ?h)"
      "ap_dbox p = slice data (mp + 11 + ?h) (sg_end s)" by (simp_all only: p app11_packet.select_convs)
    have "packet_at data p" unfolding packet_at_def l unfolding comps
      by (intro exI [of _ mp] conjI) (use f c in \<open>blast+\<close>)
    then show ?thesis using comps(1) by blast
  qed
  assume "packet_at data p \<and> ap_start p = sg_start s"
  then obtain m where m: "sg_start s < m" "\<forall>i. sg_start s \<le> i \<and> i < m \<longrightarrow> data ! i = 0xFF" "data ! m = 0xEB"
    and e: "ap_end p = m + 1 + be_val (slice data (m + 1) (m + 3))" "ap_start p = sg_start s"
    and q: "slice data (m + 3) (m + 5) = [0x4A, 0x50]" "ap_en p = be_val (slice data (m + 5) (m + 7))"
       "ap_z p = be_val (slice data (m + 7) (m + 11))"
       "length (ap_header p) = (if be_val (slice data (m + 11) (m + 15)) = 1 then 16 else 8)"
       "slice data (m + 15) (m + 19) = ascii ''jumb''" "m + 11 + length (ap_header p) \<le> ap_end p"
       "ap_header p = slice data (m + 11) (m + 11 + length (ap_header p))"
       "ap_dbox p = slice data (m + 11 + length (ap_header p)) (ap_end p)"
    unfolding packet_at_def by metis
  have mp: "m = mp" using framed_unique [OF assms m(1,2)] m(3) by simp
  have end': "ap_end p = sg_end s" using e f by (simp add: mp)
  note q = q [unfolded mp end']
  have l: "8 \<le> length (ap_header p)" using q(4) by (auto split: if_splits)
  show "parse_app11_packet data s = Some p"
    using l m(3) q end' e(2) unfolding parse_framed [OF assms] q(4) [symmetric] mp by (auto intro: app11_packet.equality)
qed

section \<open>Runs of packets\<close>

definition packet_follows :: "app11_packet \<Rightarrow> app11_packet \<Rightarrow> bool" where
  "packet_follows p q \<longleftrightarrow> ap_en q = ap_en p \<and> ap_z q = ap_z p + 1 \<and> ap_header q = ap_header p \<and> ap_start q = ap_end p"

text \<open>The longest runs: each one is not empty, its packets follow each other, and the next run does not follow.\<close>

definition longest_runs :: "app11_packet list list \<Rightarrow> app11_packet list \<Rightarrow> bool" where
  "longest_runs runs ps \<longleftrightarrow>
     concat runs = ps \<and> [] \<notin> set runs \<and> (\<forall>run \<in> set runs. successively packet_follows run)
     \<and> successively (\<lambda>run run'. \<not> packet_follows (last run) (hd run')) runs"

text \<open>A run that carries a store: numbered from one, of the length its box header declares, with a manifest inside.\<close>

definition carries_store :: "app11_packet list \<Rightarrow> bool" where
  "carries_store run \<longleftrightarrow>
     ap_z (hd run) = 1 \<and> declared_box_len (ap_header (hd run)) = Some (length (assemble_family run))
     \<and> store_carries_manifest (assemble_family run)"

lemma follows_continues:
  assumes "parse_app11_packet data s = Some p" and "current \<noteq> []"
  shows "continues current p \<longleftrightarrow> packet_follows (last current) p"
proof -
  have "ap_z p < 2 ^ 32"
    using assms(1) be_val_bound [of "slice (slice data (sg_payload_start s) (sg_end s)) 4 8"]
    by (auto simp: parse_app11_packet_def Let_def slice_def min_def split: if_splits elim!: order_less_le_trans)
  with assms(2) show ?thesis by (auto simp: continues_def packet_follows_def Let_def)
qed


text \<open>What the callback has collected after the packets \<open>ps\<close>: closed runs, and the run it is in.\<close>

definition run_valid :: "app11_packet list \<Rightarrow> bool" where
  "run_valid run \<longleftrightarrow> app11_family_is_valid run = Inr True"

definition runs_inv :: "family_state \<Rightarrow> app11_packet list list \<Rightarrow> app11_packet list \<Rightarrow> bool" where
  "runs_inv st closed ps \<longleftrightarrow>
     longest_runs (closed @ (if fs_current st = [] then [] else [fs_current st])) ps
     \<and> (fs_current st = [] \<longrightarrow> closed = []) \<and> fs_families st = filter run_valid closed
     \<and> (\<forall>run \<in> set closed. \<exists>ok. app11_family_is_valid run = Inr ok)"

lemma longest_runs_extend:
  assumes "longest_runs (closed @ [current]) ps" and "packet_follows (last current) p"
  shows "longest_runs (closed @ [current @ [p]]) (ps @ [p])"
proof -
  have "current \<noteq> []" using assms(1) by (auto simp: longest_runs_def)
  with assms show ?thesis by (auto simp: longest_runs_def successively_append_iff)
qed

lemma longest_runs_close:
  assumes "longest_runs (closed @ [current]) ps" and "\<not> packet_follows (last current) p"
  shows "longest_runs (closed @ [current, [p]]) (ps @ [p])"
  using assms by (auto simp: longest_runs_def successively_append_iff)

lemma family_step_runs:
  assumes "family_step data st s = Inr st'" and "runs_inv st closed ps"
  obtains closed' where "runs_inv st' closed' (ps @ (case parse_app11_packet data s of None \<Rightarrow> [] | Some p \<Rightarrow> [p]))"
proof (cases "parse_app11_packet data s")
  case None
  with assms that [of closed] show thesis by (simp add: family_step_def)
next
  case (Some p)
  let ?cur = "fs_current st"
  consider (first) "?cur = []" | (more) "?cur \<noteq> []" "packet_follows (last ?cur) p" | (flush) "?cur \<noteq> []" "\<not> packet_follows (last ?cur) p" by blast
  then show thesis
  proof cases
    case first
    then have "runs_inv st' [] (ps @ [p])" using assms Some
      by (auto simp: family_step_def runs_inv_def longest_runs_def Let_def split: if_splits)
    then show thesis using that [of "[]"] by (simp add: Some)
  next
    case more
    then have "fs_current st' = ?cur @ [p]" "fs_families st' = fs_families st"
      using assms(1) follows_continues [OF Some more(1)] by (auto simp: family_step_def Some Let_def split: if_splits)
    then have "runs_inv st' closed (ps @ [p])" using assms(2) more longest_runs_extend [of closed ?cur ps p] by (auto simp: runs_inv_def)
    then show thesis using that [of closed] by (simp add: Some)
  next
    case flush
    then have nc: "\<not> continues ?cur p" using follows_continues [OF Some flush(1)] by simp
    with flush obtain ok where ok: "app11_family_is_valid ?cur = Inr ok"
      using assms(1) by (auto simp: family_step_def Some Let_def res_bind_eq_Inr split: if_split_asm)
    then have st': "fs_current st' = [p]" "fs_families st' = (if ok then fs_families st @ [?cur] else fs_families st)"
      using assms(1) flush nc by (auto simp: family_step_def Some Let_def split: if_split_asm)
    with ok have "\<exists>ok. app11_family_is_valid ?cur = Inr ok" by blast
    then have "runs_inv st' (closed @ [?cur]) (ps @ [p])"
      using assms(2) flush longest_runs_close [of closed ?cur ps p] st' ok by (auto simp: runs_inv_def run_valid_def)
    then show thesis using that [of "closed @ [?cur]"] by (simp add: Some)
  qed
qed

lemma families_fold_runs:
  "try_fold (family_step data) st ss = Inr st' \<Longrightarrow> runs_inv st closed ps \<Longrightarrow> \<exists>closed'. runs_inv st' closed' (ps @ packets_of data ss)"
proof (induction ss arbitrary: st closed ps)
  case (Cons s ss)
  then obtain st1 where 1: "family_step data st s = Inr st1" and 2: "try_fold (family_step data) st1 ss = Inr st'"
    by (auto simp: res_bind_eq_Inr)
  from family_step_runs [OF 1 Cons.prems(2)] obtain closed1
    where "runs_inv st1 closed1 (ps @ (case parse_app11_packet data s of None \<Rightarrow> [] | Some p \<Rightarrow> [p]))" .
  from Cons.IH [OF 2 this] show ?case by (simp add: packets_of_Cons)
qed (auto simp: packets_of_def map_filter_simps)

lemma successively_sequence:
  assumes "successively packet_follows run" and "i < length run"
  shows "ap_z (run ! i) = ap_z (hd run) + i \<and> ap_header (run ! i) = ap_header (hd run)
    \<and> (i \<noteq> 0 \<longrightarrow> ap_end (run ! (i - 1)) = ap_start (run ! i))"
  using assms
proof (induction run arbitrary: i)
  case (Cons p run)
  show ?case
  proof (cases i)
    case (Suc j)
    with Cons.prems have "successively packet_follows run" "j < length run" "run \<noteq> []" "packet_follows p (hd run)"
      by (auto simp: successively_Cons)
    with Cons.IH [of j] Suc show ?thesis by (cases j) (auto simp: packet_follows_def hd_conv_nth)
  qed simp
qed simp

lemma run_valid_iff:
  assumes "app11_family_is_valid run = Inr ok" and "successively packet_follows run" and "run \<noteq> []"
  shows "run_valid run \<longleftrightarrow> carries_store run"
proof -
  have seq: "sequence_is_valid run \<longleftrightarrow> ap_z (hd run) = 1"
  proof
    assume "sequence_is_valid run"
    then have "ap_z (run ! 0) = 0 + 1" using assms(3) by (auto simp: sequence_is_valid_def list_all_iff Let_def)
    then show "ap_z (hd run) = 1" using assms(3) by (simp add: hd_conv_nth)
  next
    assume "ap_z (hd run) = 1"
    then have "ap_z (run ! i) = i + 1 \<and> ap_header (run ! i) = ap_header (hd run) \<and> (i = 0 \<or> ap_end (run ! (i - 1)) = ap_start (run ! i))"
      if "i < length run" for i using successively_sequence [OF assms(2) that] by (cases "i = 0") auto
    then show "sequence_is_valid run" by (auto simp: sequence_is_valid_def list_all_iff Let_def)
  qed
  obtain first rest where run: "run = first # rest" using assms(3) by (cases run) auto
  from assms(1) obtain n where
    n: "Option.bind (checked_sum 0 (map (\<lambda>p. length (ap_dbox p)) run)) (checked_add (length (ap_header first))) = Some n"
    by (auto simp: app11_family_is_valid_def run split: option.splits)
  then have "n = length (ap_header first) + sum_list (map (\<lambda>p. length (ap_dbox p)) run)"
    using checked_sum_eq [of 0] by (fastforce simp: Option.bind_eq_Some_conv)
  then have len: "n = length (assemble_family run)" by (simp add: assemble_family_def run length_concat o_def)
  have v: "app11_family_is_valid run =
      (if ap_z (hd run) \<noteq> 1 \<or> declared_box_len (ap_header (hd run)) \<noteq> Some n then Inr False
       else res_bind (ensure_manifest_store_size Jpeg n) (\<lambda>_. Inr (store_carries_manifest (assemble_family run))))"
    using n seq by (simp add: app11_family_is_valid_def run)
  show ?thesis
  proof (cases "ap_z (hd run) \<noteq> 1 \<or> declared_box_len (ap_header (hd run)) \<noteq> Some n")
    case True
    then show ?thesis using v len by (auto simp: run_valid_def carries_store_def)
  next
    case False
    with v assms(1) have "app11_family_is_valid run = Inr (store_carries_manifest (assemble_family run))"
      by (cases "ensure_manifest_store_size Jpeg n") auto
    with False len show ?thesis by (simp add: run_valid_def carries_store_def)
  qed
qed

lemma jpeg_families_exact:
  assumes "valid_app11_families data = Inr fams"
  obtains segs runs where "jpeg_walk_segments data = Inr segs" and "longest_runs runs (packets_of data segs)"
    and "fams = filter carries_store runs"
proof -
  from assms obtain segs st ok where w: "jpeg_walk_segments data = Inr segs"
    and st: "try_fold (family_step data) \<lparr>fs_families = [], fs_current = [], fs_packet_count = 0\<rparr> segs = Inr st"
    and ok: "app11_family_is_valid (fs_current st) = Inr ok"
    and fams: "fams = (if ok then fs_families st @ [fs_current st] else fs_families st)"
    by (auto simp: valid_app11_families_def res_bind_eq_Inr)
  have "runs_inv \<lparr>fs_families = [], fs_current = [], fs_packet_count = 0\<rparr> [] []" by (simp add: runs_inv_def longest_runs_def)
  from families_fold_runs [OF st this] obtain closed where inv: "runs_inv st closed (packets_of data segs)" by auto
  let ?runs = "closed @ (if fs_current st = [] then [] else [fs_current st])"
  have runs: "longest_runs ?runs (packets_of data segs)" using inv by (simp add: runs_inv_def)
  have "run_valid run \<longleftrightarrow> carries_store run" if "run \<in> set ?runs" for run
  proof -
    from that runs have "successively packet_follows run" "run \<noteq> []" by (auto simp: longest_runs_def)
    moreover have "\<exists>b. app11_family_is_valid run = Inr b" using that inv ok by (auto simp: runs_inv_def split: if_splits)
    ultimately show ?thesis using run_valid_iff by blast
  qed
  then have "filter carries_store ?runs = filter run_valid ?runs" by (intro filter_cong) auto
  also have "\<dots> = fams" using inv ok by (auto simp: runs_inv_def fams run_valid_def app11_family_is_valid_def split: if_splits)
  finally show thesis using that [OF w runs] by simp
qed

lemma packets_of_starts:
  assumes "\<forall>s \<in> set ss. \<exists>mp. segment_framed data s mp"
  shows "map ap_start (packets_of data ss) = map sg_start (filter (\<lambda>s. \<exists>p. packet_at data p \<and> ap_start p = sg_start s) ss)
    \<and> (\<forall>p \<in> set (packets_of data ss). packet_at data p)"
  using assms
proof (induction ss)
  case (Cons s ss)
  then obtain mp where "segment_framed data s mp" by auto
  from packet_iff [OF this] have e: "parse_app11_packet data s = Some p \<longleftrightarrow> packet_at data p \<and> ap_start p = sg_start s" for p .
  show ?case
  proof (cases "parse_app11_packet data s")
    case None
    then have "\<not> (\<exists>p. packet_at data p \<and> ap_start p = sg_start s)" using e by auto
    with Cons None show ?thesis by (simp add: packets_of_Cons)
  next
    case (Some p)
    then have "packet_at data p" "ap_start p = sg_start s" using e by auto
    with Cons Some show ?thesis by (auto simp: packets_of_Cons)
  qed
qed (simp add: packets_of_def map_filter_simps)

lemma jpeg_walk_framed:
  "jpeg_walk_segments data = Inr segs \<Longrightarrow> s \<in> set segs \<Longrightarrow> \<exists>mp. segment_framed data s mp"
  using jpeg_segments_framed by (auto simp: jpeg_walk_segments_def res_bind_eq_Inr)

text \<open>The reported ranges, exactly: one for each longest run of packets that carries a store, from its first byte to its last.\<close>

lemma jpeg_exclusions_exact:
  assumes "jpeg_exclusions data = Inr ex"
  obtains segs runs ps where "jpeg_walk_segments data = Inr segs"
    and "map ap_start ps = map sg_start (filter (\<lambda>s. \<exists>p. packet_at data p \<and> ap_start p = sg_start s) segs)"
    and "\<forall>p \<in> set ps. packet_at data p" and "longest_runs runs ps"
    and "ex = map (\<lambda>run. \<lparr>ex_start = ap_start (hd run), ex_length = ap_end (last run) - ap_start (hd run)\<rparr>) (filter carries_store runs)"
proof -
  from assms obtain fams where fams: "valid_app11_families data = Inr fams"
    and ex: "ex = map (\<lambda>f. \<lparr>ex_start = ap_start (hd f), ex_length = ap_end (last f) - ap_start (hd f)\<rparr>) fams"
    by (auto simp: jpeg_exclusions_def valid_app11_spans_def res_bind_eq_Inr)
  from jpeg_families_exact [OF fams] obtain segs runs where w: "jpeg_walk_segments data = Inr segs"
    and runs: "longest_runs runs (packets_of data segs)" "fams = filter carries_store runs" .
  from packets_of_starts [of segs data] jpeg_walk_framed [OF w] that [OF w _ _ runs(1)] show thesis by (auto simp: ex runs(2))
qed

lemma run_tiles:
  assumes "longest_runs runs ps" and "\<forall>p \<in> set ps. packet_at data p" and "run \<in> set runs"
  shows "tiles (ap_start (hd run)) (map (\<lambda>p. (ap_start p, ap_end p)) run) (ap_end (last run))
    \<and> ap_start (hd run) \<le> ap_end (last run)"
proof -
  have "tiles (ap_start (hd run)) (map (\<lambda>p. (ap_start p, ap_end p)) run) (ap_end (last run))"
    if "successively packet_follows run" "run \<noteq> []" "\<forall>p \<in> set run. ap_start p < ap_end p" for run
    using that by (induction run rule: induct_list012) (auto simp: packet_follows_def)
  moreover have "ap_start p < ap_end p" if "packet_at data p" for p using that by (auto simp: packet_at_def)
  moreover have "successively packet_follows run" "run \<noteq> []" "set run \<subseteq> set ps" using assms by (auto simp: longest_runs_def)
  ultimately have t: "tiles (ap_start (hd run)) (map (\<lambda>p. (ap_start p, ap_end p)) run) (ap_end (last run))"
    using assms(2) by blast
  with tiles_le [OF t] show ?thesis by blast
qed

end
