(* ===== verification/Jpeg_Properties.thy ===== *)
theory Jpeg_Properties
  imports Jpeg_Embed Jpeg_Families Jumbf_Properties Formats_Properties
begin

text \<open>
  What the JPEG container promises: it excludes whole packet families that carry a manifest store and nothing else, gives an
  embedded store back, and segments a file so that a box hash covers it.
\<close>

section \<open>Concrete assets\<close>

definition jpeg_sample :: bytes where
  "jpeg_sample = [0xFF, 0xD8, 0xFF, 0xD9]"

definition jpeg_fill_sample :: bytes where
  "jpeg_fill_sample = [0xFF, 0xD8, 0xFF, 0xFF, 0xFF]"

definition jpeg_tem_sample :: bytes where
  "jpeg_tem_sample = [0xFF, 0xD8, 0xFF, 0x01, 0xFF, 0xD9]"

definition store_sample :: bytes where
  "store_sample = build_manifest_store [manifest_bytes (sample_manifest (ascii ''b''))]"

lemmas jpeg_eval = jpeg_walk_segments_def jpeg_segments.simps check_soi_def fill_end_def is_rst_def valid_app11_families_def
  app11_family_is_valid_def MARKER_EOI_def MARKER_SOS_def jpeg_sample_def jpeg_fill_sample_def jpeg_tem_sample_def

text \<open>A built store has the box header the packets repeat.\<close>

lemma built_store_header:
  assumes "length (build_manifest_store bs) \<le> MAX_MANIFEST_STORE_BYTES"
  shows "declared_box_len (build_manifest_store bs) = Some (length (build_manifest_store bs))"
    and "slice (build_manifest_store bs) 4 8 = ascii ''jumb''"
proof -
  let ?p = "store_description @ concat bs"
  have n: "8 + length ?p < 2 ^ 32"
    using assms by (auto simp: built_store_box length_box_bytes MAX_MANIFEST_STORE_BYTES_def split: if_splits)
  then have b: "build_manifest_store bs = be_bytes 4 (8 + length ?p) @ TYPE_JUMB @ ?p" by (simp add: built_store_box box_bytes_def)
  have v: "be_val (be_bytes 4 (8 + length ?p)) = 8 + length ?p" using n by (intro be_val_be_bytes_id) simp
  have j: "length TYPE_JUMB = 4" by (simp add: TYPE_JUMB_def)
  have s: "slice (build_manifest_store bs) 0 4 = be_bytes 4 (8 + length ?p)" by (simp add: b slice_def)
  have u: "u64_to_usize (8 + length ?p) = Some (8 + length ?p)"
    using n by (simp add: u64_to_usize_def u64_to_usize_with_max_def usize_max_def)
  have g: "slice_get (build_manifest_store bs) 0 4 = Some (be_bytes 4 (8 + length ?p))"
    using s by (simp add: slice_get_def b j)
  have l: "length (build_manifest_store bs) = 8 + length ?p" by (simp add: b j)
  show "declared_box_len (build_manifest_store bs) = Some (length (build_manifest_store bs))"
    unfolding declared_box_len_def g bind.simps v Let_def u l by simp
  show "slice (build_manifest_store bs) 4 8 = ascii ''jumb''" unfolding b
    by (rule slice_append_mid [where xs = "be_bytes 4 (8 + length ?p)" and zs = ?p, THEN trans]) (simp_all add: j TYPE_JUMB_def)
qed

lemma built_store_carries:
  assumes "\<forall>m \<in> set ms. spec_ok m" and "distinct (map ms_label ms)" and "length ms \<le> MAX_MANIFESTS_PER_STORE" and "ms \<noteq> []"
    and "length (build_manifest_store (map manifest_bytes ms)) \<le> MAX_MANIFEST_STORE_BYTES"
  shows "store_carries_manifest (build_manifest_store (map manifest_bytes ms))"
  using parse_store_spec [OF assms(1-3,5)] assms(4) by (simp add: store_carries_manifest_def)

text \<open>From the builders to the validator's view: build, embed, extract and parse gives the manifests back.\<close>

lemma jpeg_manifests_roundtrip:
  assumes ms: "\<forall>m \<in> set ms. spec_ok m" "distinct (map ms_label ms)" "length ms \<le> MAX_MANIFESTS_PER_STORE" "ms \<noteq> []"
    and len: "length (build_manifest_store (map manifest_bytes ms)) \<le> MAX_MANIFEST_STORE_BYTES"
    and "jpeg_embed asset (build_manifest_store (map manifest_bytes ms)) = Inr out" and "jpeg_strip asset = Inr clean"
    and "jpeg_walk_segments clean = Inr segs" and "\<forall>s \<in> set segs. parse_app11_packet clean s = None"
  shows "\<exists>store. jpeg_extract out = Inr (Some store) \<and> parse_manifest_store store = Inr (map spec_parsed ms)"
  using jpeg_extract_embed_aux(1) [OF assms(6-9) built_store_header [OF len] len built_store_carries [OF ms len]]
    parse_store_spec [OF ms(1-3) len] by blast

lemma store_sample_ok:
  "length store_sample = 279" "declared_box_len store_sample = Some (length store_sample)"
  "slice store_sample 4 8 = ascii ''jumb''" "length store_sample \<le> MAX_MANIFEST_STORE_BYTES"
  "store_carries_manifest store_sample"
proof -
  show l: "length store_sample = 279"
    using length_sample [of 98] length_store_description by (simp add: store_sample_def built_store_box length_box_bytes ascii_def)
  then show m: "length store_sample \<le> MAX_MANIFEST_STORE_BYTES" by (simp add: MAX_MANIFEST_STORE_BYTES_def)
  show "declared_box_len store_sample = Some (length store_sample)" "slice store_sample 4 8 = ascii ''jumb''"
    using built_store_header m unfolding store_sample_def by blast+
  show "store_carries_manifest store_sample"
    using built_store_carries [of "[sample_manifest (ascii ''b'')]"] m spec_ok_sample valid_label_small
    by (simp add: store_sample_def MAX_MANIFESTS_PER_STORE_def)
qed

text \<open>The marker \<open>TEM\<close> has no length field for the walk, and one for the segmentation, which refuses the file.\<close>

lemma tem_read_differently:
  "jpeg_walk_segments jpeg_tem_sample = Inr []" "jpeg_box_spans jpeg_tem_sample = Inl (Truncated Jpeg)"
proof -
  show "jpeg_walk_segments jpeg_tem_sample = Inr []" by (simp add: jpeg_eval)
  then show "jpeg_box_spans jpeg_tem_sample = Inl (Truncated Jpeg)"
    by (simp add: jpeg_box_spans_def valid_app11_spans_def valid_app11_families_def app11_family_is_valid_def)
      (simp add: jpeg_spans.simps jpeg_segment_at_def be_u16_def slice_get_def slice_def word_le_nat_alt jpeg_eval)
qed

section \<open>Properties\<close>

text \<open>
  C35: the ranges a JPEG reports for exclusion, exactly. The packets of the file are the segments of its walk whose bytes are an
  \<open>APP11\<close> marker, a length, \<open>JP\<close>, the instance and packet numbers and the header of a \<open>jumb\<close> box. In file order they fall into their
  longest runs of adjacent packets with one instance, one repeated box header and consecutive numbers. The reported ranges are
  those of the runs, all of them and no others, that are numbered from one, have the total length the box header declares and
  carry a manifest store: each from the first byte of its first packet to the end of its last. They are in file order, disjoint,
  after the start marker and inside the asset. Foreign \<open>APP11\<close> data is never excluded.
\<close>

theorem jpeg_exclusions_carriers:
  assumes "jpeg_exclusions data = Inr ex"
  shows "\<exists>segs ps runs. jpeg_walk_segments data = Inr segs
    \<and> map ap_start ps = map sg_start (filter (\<lambda>s. \<exists>p. packet_at data p \<and> ap_start p = sg_start s) segs)
    \<and> (\<forall>p \<in> set ps. packet_at data p) \<and> longest_runs runs ps
    \<and> ex = map (\<lambda>run. \<lparr>ex_start = ap_start (hd run), ex_length = ap_end (last run) - ap_start (hd run)\<rparr>)
             (filter carries_store runs)
    \<and> sorted_wrt (\<lambda>x y. ex_start x + ex_length x \<le> ex_start y) ex
    \<and> (\<forall>x \<in> set ex. 2 \<le> ex_start x \<and> ex_start x + ex_length x \<le> length data
        \<and> (\<exists>run \<in> set runs. carries_store run
            \<and> tiles (ex_start x) (map (\<lambda>p. (ap_start p, ap_end p)) run) (ex_start x + ex_length x)))"
proof -
  from jpeg_exclusions_exact [OF assms] obtain segs runs ps where w: "jpeg_walk_segments data = Inr segs"
    and ps: "map ap_start ps = map sg_start (filter (\<lambda>s. \<exists>p. packet_at data p \<and> ap_start p = sg_start s) segs)"
      "\<forall>p \<in> set ps. packet_at data p" and runs: "longest_runs runs ps"
    and ex: "ex = map (\<lambda>run. \<lparr>ex_start = ap_start (hd run), ex_length = ap_end (last run) - ap_start (hd run)\<rparr>)
             (filter carries_store runs)" .
  have "tiles (ap_start (hd run)) (map (\<lambda>p. (ap_start p, ap_end p)) run) (ap_end (last run))
      \<and> ap_start (hd run) \<le> ap_end (last run)" if "run \<in> set runs" for run
    using run_tiles [OF runs ps(2) that] .
  then have "\<exists>run \<in> set runs. carries_store run
      \<and> tiles (ex_start x) (map (\<lambda>p. (ap_start p, ap_end p)) run) (ex_start x + ex_length x)" if "x \<in> set ex" for x
    using that by (auto simp: ex)
  with w ps runs ex jpeg_exclusions_ok [OF assms] show ?thesis by blast
qed

text \<open>
  C34: let a manifest store have the header of its box, stay within the size limit and carry a manifest, and let the asset have no
  other \<open>APP11\<close> packet once the families of stores it came with are stripped. When embedding succeeds, extraction from the result
  gives the store back byte for byte, however many segments it was cut into; and the result reports a single range for
  exclusion, without which it is the stripped asset: the asset itself when it had no store, and otherwise the asset without its
  old stores.
\<close>

theorem jpeg_extract_embed:
  assumes "jpeg_embed asset store = Inr out" and "jpeg_strip asset = Inr clean"
    and "jpeg_walk_segments clean = Inr segs" and "\<forall>s \<in> set segs. parse_app11_packet clean s = None"
    and "declared_box_len store = Some (length store)" and "slice store 4 8 = ascii ''jumb''"
    and "length store \<le> MAX_MANIFEST_STORE_BYTES" and "store_carries_manifest store"
  shows "jpeg_extract out = Inr (Some store)
    \<and> (\<exists>x. jpeg_exclusions out = Inr [x] \<and> take (ex_start x) out @ drop (ex_start x + ex_length x) out = clean)"
  using jpeg_extract_embed_aux [OF assms] by blast

lemma jpeg_sample_clean:
  "jpeg_strip jpeg_sample = Inr jpeg_sample" "jpeg_walk_segments jpeg_sample = Inr []"
  "\<exists>out. jpeg_embed jpeg_sample store_sample = Inr out"
proof -
  show w: "jpeg_walk_segments jpeg_sample = Inr []" by (simp add: jpeg_eval)
  then show s: "jpeg_strip jpeg_sample = Inr jpeg_sample"
    by (simp add: jpeg_strip_def valid_app11_spans_def valid_app11_families_def app11_family_is_valid_def check_soi_def jpeg_sample_def)
  have "insertion_offset jpeg_sample = Inr 2" using w by (simp add: insertion_offset_def check_soi_def jpeg_sample_def)
  then show "\<exists>out. jpeg_embed jpeg_sample store_sample = Inr out"
    using s store_sample_ok(1) by (simp add: jpeg_embed_def build_app11_segments_def Let_def)
qed

theorem jpeg_extract_embed_witness:
  "\<exists>out. jpeg_embed jpeg_sample store_sample = Inr out \<and> jpeg_extract out = Inr (Some store_sample)"
proof -
  from jpeg_sample_clean(3) obtain out where out: "jpeg_embed jpeg_sample store_sample = Inr out" by blast
  from jpeg_extract_embed [OF out jpeg_sample_clean(1,2) _ store_sample_ok(2-5)] out show ?thesis by auto
qed

theorem jpeg_exclusions_carriers_witness:
  "\<exists>out x run. jpeg_embed jpeg_sample store_sample = Inr out \<and> jpeg_exclusions out = Inr [x] \<and> 2 \<le> ex_start x
    \<and> carries_store run \<and> successively packet_follows run \<and> (\<forall>p \<in> set run. packet_at out p)
    \<and> tiles (ex_start x) (map (\<lambda>p. (ap_start p, ap_end p)) run) (ex_start x + ex_length x)"
proof -
  from jpeg_sample_clean(3) obtain out where out: "jpeg_embed jpeg_sample store_sample = Inr out" by blast
  from jpeg_extract_embed_aux(2) [OF out jpeg_sample_clean(1,2) _ store_sample_ok(2-5)]
  obtain x where x: "jpeg_exclusions out = Inr [x]" by auto
  from jpeg_exclusions_carriers [OF x] obtain ps runs run where "longest_runs runs ps" "\<forall>p \<in> set ps. packet_at out p"
    "2 \<le> ex_start x" "run \<in> set runs" "carries_store run"
    "tiles (ex_start x) (map (\<lambda>p. (ap_start p, ap_end p)) run) (ex_start x + ex_length x)" by auto
  moreover then have "successively packet_follows run" "set run \<subseteq> set ps" by (auto simp: longest_runs_def)
  ultimately show ?thesis using out x by blast
qed

text \<open>
  A JPEG segmentation tiles the file from its first byte to the end when its last box is the end marker, and otherwise up
  to a single byte or a tail of fill bytes, which is in no box; and the historical layout, in which a scan overlaps its
  restart boxes, covers every byte of the strict one.
\<close>

theorem jpeg_box_spans_cover:
  assumes "jpeg_box_spans data = Inr spans"
  shows "\<exists>e \<le> length data. seg_tiles 0 spans e \<and> fill_tail data e
    \<and> (bs_name (last spans) = ascii ''EOI'' \<longrightarrow> e = length data)
    \<and> (\<exists>legacy. box_spans_with_overlapping_restart_segments data = Inr legacy
        \<and> (\<forall>i < e. \<exists>b \<in> set legacy. bs_start b \<le> i \<and> i < bs_end b))"
  using jpeg_box_spans_ok [OF assms] overlap_restarts_covers [of 0 spans _ _ "length data"]
  by (fastforce simp: box_spans_with_overlapping_restart_segments_def assms)

theorem jpeg_box_spans_cover_witness:
  "\<exists>spans. jpeg_box_spans jpeg_fill_sample = Inr spans \<and> seg_tiles 0 spans 2 \<and> length jpeg_fill_sample = 5
    \<and> (\<exists>e \<le> 5. seg_tiles 0 spans e \<and> fill_tail jpeg_fill_sample e)"
proof -
  have "jpeg_box_spans jpeg_fill_sample = Inr [contiguous (ascii ''SOI'') 0 2]"
    by (simp add: jpeg_box_spans_def valid_app11_spans_def jpeg_spans.simps jpeg_eval)
  with jpeg_box_spans_cover [OF this] show ?thesis by (auto simp: jpeg_fill_sample_def)
qed

end
