(* ===== verification/Verdict_Properties.thy ===== *)
theory Verdict_Properties
  imports Verify_Output
begin

text \<open>
  Properties of the verdict: how the postures relate, what the conformance program adds, how the two
  axes of the provenance verdict follow from the status codes, and what the version ladder selects.
\<close>

lemmas status_code_names = SIGNING_CREDENTIAL_UNTRUSTED_def CLAIM_SIGNATURE_OUTSIDE_VALIDITY_def
  SIGNING_CREDENTIAL_OCSP_SKIPPED_def SIGNING_CREDENTIAL_OCSP_REVOKED_def TIME_STAMP_UNTRUSTED_def
  TIME_STAMP_OUTSIDE_VALIDITY_def PROGRAM_REVOCATION_INFORMATION_MISSING_def PROGRAM_TRUSTED_TIMESTAMP_MISSING_def
  CONFORMANCE_OUT_OF_SCOPE_def CONFORMANCE_SPEC_VERSION_NONCONFORMANT_def ASSERTION_INACCESSIBLE_def
  ASSERTION_HASHED_URI_MISMATCH_def SIGNING_CREDENTIAL_TRUSTED_def TIME_STAMP_TRUSTED_def
  SIGNING_CREDENTIAL_OCSP_UNKNOWN_def SIGNING_CREDENTIAL_OCSP_INACCESSIBLE_def CLAIM_MISSING_def

lemmas push_defs = push_success_def push_success_with_details_def push_failure_def push_failure_with_details_def
  push_informational_def push_informational_with_details_def status_def

section \<open>Postures\<close>

lemma construction_invalidates_everywhere:
  "is_construction_integrity_invalidating s \<Longrightarrow> is_integrity_invalidating s p"
  by (auto simp: is_construction_integrity_invalidating_def is_integrity_invalidating_def REGULAR_INTEGRITY_CAVEATS_def)

lemma credential_codes_invalidate:
  "\<not> is_generous p \<Longrightarrow> sc_code s = SIGNING_CREDENTIAL_OCSP_REVOKED \<or> sc_code s = CLAIM_SIGNATURE_OUTSIDE_VALIDITY
    \<Longrightarrow> is_integrity_invalidating s p"
  by (auto simp: is_integrity_invalidating_def is_identity_assertion_scoped_def is_external_data_scoped_def status_code_names)

lemma compute_state_not_invalid:
  "compute_state r p \<noteq> Invalid \<longleftrightarrow> (\<forall>s \<in> set (failure r). \<not> is_integrity_invalidating s p)"
  by (auto simp: compute_state_def list_ex_iff)

definition trusted_results :: validation_results where
  "trusted_results = push_success SIGNING_CREDENTIAL_TRUSTED ''u'' ''e''
     (push_failure ''cawg.identity.untrusted'' ''u'' ''e'' results_default)"

text \<open>The surfaced caveats: the codes of the failures and of the notes that are caveats, each once.\<close>

lemma verdict_caveats_set:
  "set (verdict_caveats r) = {sc_code s | s. s \<in> set (failure r) \<union> set (informational r) \<and> is_surfaced_caveat (sc_code s)}"
  "distinct (verdict_caveats r)"
proof -
  let ?step = "\<lambda>cs s. if is_surfaced_caveat (sc_code s) \<and> sc_code s \<notin> set cs then cs @ [sc_code s] else cs"
  have "set (foldl ?step cs ss) = set cs \<union> {sc_code s | s. s \<in> set ss \<and> is_surfaced_caveat (sc_code s)}
      \<and> (distinct cs \<longrightarrow> distinct (foldl ?step cs ss))" for cs :: "string list" and ss
    by (induction ss arbitrary: cs) auto
  from this [of "[]" "failure r @ informational r"]
  show "set (verdict_caveats r) = {sc_code s | s. s \<in> set (failure r) \<union> set (informational r) \<and> is_surfaced_caveat (sc_code s)}"
    and "distinct (verdict_caveats r)" by (auto simp: verdict_caveats_def)
qed

text \<open>What a strict posture rejects and the generous one accepts is a caveat.\<close>

lemma strict_only_is_caveat:
  "is_integrity_invalidating s p \<Longrightarrow> \<not> is_construction_integrity_invalidating s \<Longrightarrow> is_surfaced_caveat (sc_code s)"
  by (auto simp: is_integrity_invalidating_def is_construction_integrity_invalidating_def is_surfaced_caveat_def split: if_splits)

lemma state_not_invalid_axes:
  assumes "compute_state r p \<noteq> Invalid"
  shows "\<not> integrity_invalid r True p" and "is_generous g \<Longrightarrow> compute_state r g = compute_state r p"
proof -
  have ok: "\<not> is_integrity_invalidating s p" if "s \<in> set (failure r)" for s
    using assms that by (auto simp: compute_state_not_invalid)
  then have c: "\<not> is_construction_integrity_invalidating s" if "s \<in> set (failure r)" for s
    using construction_invalidates_everywhere that by blast
  have "\<not> strict_credential_failure r p"
    using ok credential_codes_invalidate [of p] by (auto simp: strict_credential_failure_def list_ex_iff)
  with c show "\<not> integrity_invalid r True p" by (auto simp: integrity_invalid_def list_ex_iff)
  assume "is_generous g"
  with c have "\<not> list_ex (\<lambda>s. is_integrity_invalidating s g) (failure r)" by (auto simp: is_integrity_invalidating_def list_ex_iff)
  moreover have "\<not> list_ex (\<lambda>s. is_integrity_invalidating s p) (failure r)" using ok by (auto simp: list_ex_iff)
  ultimately show "compute_state r g = compute_state r p" by (simp add: compute_state_def)
qed

lemma generous_state_axes:
  "is_generous g \<Longrightarrow> compute_state r g = Invalid \<longleftrightarrow> list_ex is_construction_integrity_invalidating (failure r)"
  by (auto simp: compute_state_def is_integrity_invalidating_def)

text \<open>An entry of the verdict that is reported for a manifest that is present.\<close>

definition verdict_axis :: "validation_results \<Rightarrow> engine_profile \<Rightarrow> string \<Rightarrow> json option" where
  "verdict_axis results profile k = json_get (provenance_verdict_json results True profile) k"

text \<open>
  C19: the validation state and the two axes of the reported verdict, for a manifest that is present. Under the generous
  posture the state is \<open>Invalid\<close> exactly when the integrity axis is \<open>invalid\<close>. Under every posture, a state other than
  \<open>Invalid\<close> comes with a valid integrity axis, the generous posture agrees with it, and the trust axis is then \<open>trusted\<close> exactly when
  the state is \<open>Trusted\<close> and no revocation was recorded. A trust axis of \<open>trusted\<close> comes with a valid integrity axis and with
  the generous state \<open>Trusted\<close>. Whenever the generous posture accepts what a profile rejects, the verdict surfaces a failure
  that the profile rejects among its caveats, which hold no code twice.
\<close>

theorem state_and_verdict_axes:
  assumes "is_generous generous"
  shows "(compute_state results generous = Invalid \<longleftrightarrow> verdict_axis results generous ''integrity'' = Some (JString ''invalid''))
    \<and> (compute_state results profile \<noteq> Invalid \<longrightarrow>
         verdict_axis results profile ''integrity'' = Some (JString ''valid'') \<and> compute_state results generous = compute_state results profile
         \<and> (verdict_axis results profile ''trust'' = Some (JString ''trusted'') \<longleftrightarrow>
              compute_state results profile = Trusted \<and> \<not> has_failure results SIGNING_CREDENTIAL_OCSP_REVOKED))
    \<and> (verdict_axis results profile ''trust'' = Some (JString ''trusted'') \<longrightarrow>
         verdict_axis results profile ''integrity'' = Some (JString ''valid'') \<and> compute_state results generous = Trusted)
    \<and> (\<exists>caveats. verdict_axis results profile ''caveats'' = Some (JArray (map JString caveats)) \<and> distinct caveats
         \<and> (compute_state results generous \<noteq> Invalid \<and> compute_state results profile = Invalid \<longrightarrow>
              (\<exists>s \<in> set (failure results). is_integrity_invalidating s profile \<and> sc_code s \<in> set caveats)))"
proof (intro conjI impI exI [of _ "verdict_caveats results"])
  have trust: "verdict_axis results profile ''trust'' = Some (JString ''trusted'') \<longleftrightarrow> \<not> integrity_invalid results True profile \<and> credential_trusted results"
    by (simp add: verdict_axis_def provenance_verdict_json_def verdict_trust_def)
  show "compute_state results generous = Invalid \<longleftrightarrow> verdict_axis results generous ''integrity'' = Some (JString ''invalid'')"
    using assms(1) by (simp add: generous_state_axes verdict_axis_def provenance_verdict_json_def integrity_invalid_def strict_credential_failure_def)
  show "verdict_axis results profile ''caveats'' = Some (JArray (map JString (verdict_caveats results)))" by (simp add: verdict_axis_def provenance_verdict_json_def)
  show "distinct (verdict_caveats results)" by (rule verdict_caveats_set)
  show "\<exists>s \<in> set (failure results). is_integrity_invalidating s profile \<and> sc_code s \<in> set (verdict_caveats results)"
    if "compute_state results generous \<noteq> Invalid \<and> compute_state results profile = Invalid"
  proof -
    from that obtain s where s: "s \<in> set (failure results)" "is_integrity_invalidating s profile"
      using compute_state_not_invalid [of results profile] by auto
    moreover have "\<not> is_construction_integrity_invalidating s"
      using that s(1) generous_state_axes [OF assms(1)] by (auto simp: list_ex_iff)
    ultimately show ?thesis using strict_only_is_caveat by (auto simp: verdict_caveats_set)
  qed
  note ok = state_not_invalid_axes [of results profile]
  show "verdict_axis results profile ''integrity'' = Some (JString ''valid'')" if "compute_state results profile \<noteq> Invalid"
    using ok(1) [OF that] by (simp add: verdict_axis_def provenance_verdict_json_def)
  show "compute_state results generous = compute_state results profile" if "compute_state results profile \<noteq> Invalid"
    using ok(2) [OF that assms(1)] .
  show "verdict_axis results profile ''trust'' = Some (JString ''trusted'') \<longleftrightarrow>
      compute_state results profile = Trusted \<and> \<not> has_failure results SIGNING_CREDENTIAL_OCSP_REVOKED"
    if "compute_state results profile \<noteq> Invalid"
    using ok(1) [OF that] that unfolding trust by (auto simp: credential_trusted_def compute_state_def split: if_splits)
  assume t: "verdict_axis results profile ''trust'' = Some (JString ''trusted'')"
  then show "verdict_axis results profile ''integrity'' = Some (JString ''valid'')" unfolding trust by (simp add: verdict_axis_def provenance_verdict_json_def)
  have "compute_state results generous \<noteq> Invalid" "has_success results SIGNING_CREDENTIAL_TRUSTED"
    using t generous_state_axes [OF assms(1)] unfolding trust by (auto simp: integrity_invalid_def credential_trusted_def)
  then show "compute_state results generous = Trusted" by (auto simp: compute_state_def split: if_splits)
qed

text \<open>A credential outside its validity: trusted for the generous posture, rejected by a strict one, and surfaced.\<close>

definition expired_results :: validation_results where
  "expired_results = push_failure CLAIM_SIGNATURE_OUTSIDE_VALIDITY ''u'' ''e'' trusted_results"

theorem state_and_verdict_axes_witness:
  "compute_state trusted_results GENEROUS = Trusted \<and> compute_state trusted_results (profile_strict V2_4) = Trusted
    \<and> verdict_axis trusted_results (profile_strict V2_4) ''trust'' = Some (JString ''trusted'')
    \<and> compute_state expired_results GENEROUS = Trusted \<and> compute_state expired_results (profile_strict V2_4) = Invalid
    \<and> (\<exists>caveats. verdict_axis expired_results (profile_strict V2_4) ''caveats''
          = Some (JArray (map JString caveats)) \<and> CLAIM_SIGNATURE_OUTSIDE_VALIDITY \<in> set caveats)"
proof -
  note evaluate = expired_results_def trusted_results_def push_defs results_default_def compute_state_def has_success_def has_failure_def
    is_integrity_invalidating_def is_generous_def GENEROUS_def profile_strict_def is_identity_assertion_scoped_def
    is_external_data_scoped_def is_construction_integrity_invalidating_def REGULAR_INTEGRITY_CAVEATS_def status_code_names
  have g: "is_generous GENEROUS" by (simp add: is_generous_def GENEROUS_def)
  have t: "compute_state trusted_results (profile_strict V2_4) = Trusted" "\<not> has_failure trusted_results SIGNING_CREDENTIAL_OCSP_REVOKED"
    by (simp_all add: evaluate)
  have e: "compute_state expired_results GENEROUS = Trusted" "compute_state expired_results (profile_strict V2_4) = Invalid"
    by (simp_all add: evaluate)
  have only: "sc_code s = CLAIM_SIGNATURE_OUTSIDE_VALIDITY"
    if "s \<in> set (failure expired_results)" "is_integrity_invalidating s (profile_strict V2_4)" for s
    using that by (auto simp: evaluate)
  note axes = state_and_verdict_axes [OF g, of _ "profile_strict V2_4"]
  from axes [of expired_results, THEN conjunct2, THEN conjunct2, THEN conjunct2] obtain caveats s
    where c: "verdict_axis expired_results (profile_strict V2_4) ''caveats'' = Some (JArray (map JString caveats))"
      and s: "s \<in> set (failure expired_results)" "is_integrity_invalidating s (profile_strict V2_4)" "sc_code s \<in> set caveats"
    using e by (elim exE conjE) auto
  have "\<exists>caveats. verdict_axis expired_results (profile_strict V2_4) ''caveats''
      = Some (JArray (map JString caveats)) \<and> CLAIM_SIGNATURE_OUTSIDE_VALIDITY \<in> set caveats"
    using c s(3) only [OF s(1,2)] by auto
  moreover have "compute_state trusted_results GENEROUS = Trusted
      \<and> verdict_axis trusted_results (profile_strict V2_4) ''trust'' = Some (JString ''trusted'')"
    using axes [of trusted_results] t by simp
  ultimately show ?thesis using t e by blast
qed

section \<open>The conformance program\<close>

definition revocation_unsettled :: "validation_results \<Rightarrow> bool" where
  "revocation_unsettled r \<longleftrightarrow> has_informational r SIGNING_CREDENTIAL_OCSP_SKIPPED
     \<or> has_informational r SIGNING_CREDENTIAL_OCSP_UNKNOWN \<or> has_informational r SIGNING_CREDENTIAL_OCSP_INACCESSIBLE"

lemma upgrades_failures:
  "failure (apply_compliance_upgrades r ConformanceProgram u) = failure r
     @ (if revocation_unsettled r then [status PROGRAM_REVOCATION_INFORMATION_MISSING u
         ''conformance program requires usable revocation information (SHALL); the core spec reports this as signingCredential.ocsp.skipped, .unknown, or .inaccessible'' None] else [])
     @ (if \<not> has_success r TIME_STAMP_TRUSTED then [status PROGRAM_TRUSTED_TIMESTAMP_MISSING u
         ''conformance program requires a trusted time-stamp (SHALL)'' None] else [])"
  by (simp add: apply_compliance_upgrades_def revocation_unsettled_def push_failure_def has_success_def Let_def)

lemma program_codes_invalidate:
  "\<not> is_generous p \<Longrightarrow> sc_code s \<in> set PROGRAM_FAILURE_CODES \<Longrightarrow> is_integrity_invalidating s p"
  "is_generous p \<Longrightarrow> sc_code s \<in> set PROGRAM_FAILURE_CODES \<Longrightarrow> \<not> is_integrity_invalidating s p"
  by (auto simp: is_integrity_invalidating_def is_construction_integrity_invalidating_def PROGRAM_FAILURE_CODES_def
      REGULAR_INTEGRITY_CAVEATS_def is_identity_assertion_scoped_def is_external_data_scoped_def status_code_names)

text \<open>
  The upgrades do nothing under the core specification. Under the program they keep every recorded status,
  and a strict profile then rejects exactly the manifests it rejected before, those whose revocation status was not
  settled and those without a trusted time-stamp; a generous profile is not affected.
\<close>

theorem compliance_upgrades_effect:
  "apply_compliance_upgrades r CoreSpec u = r
   \<and> success (apply_compliance_upgrades r c u) = success r
   \<and> informational (apply_compliance_upgrades r c u) = informational r
   \<and> prefix (failure r) (failure (apply_compliance_upgrades r c u))
   \<and> (compute_state (apply_compliance_upgrades r ConformanceProgram u) p = Invalid
      \<longleftrightarrow> compute_state r p = Invalid
          \<or> (\<not> is_generous p \<and> (revocation_unsettled r \<or> \<not> has_success r TIME_STAMP_TRUSTED)))"
proof -
  have keep: "success (apply_compliance_upgrades r c u) = success r"
    "informational (apply_compliance_upgrades r c u) = informational r"
    "prefix (failure r) (failure (apply_compliance_upgrades r c u))"
    by (simp_all add: apply_compliance_upgrades_def push_failure_def Let_def)
  let ?r = "apply_compliance_upgrades r ConformanceProgram u"
  have codes: "sc_code (status PROGRAM_REVOCATION_INFORMATION_MISSING u x d) \<in> set PROGRAM_FAILURE_CODES"
    "sc_code (status PROGRAM_TRUSTED_TIMESTAMP_MISSING u x d) \<in> set PROGRAM_FAILURE_CODES" for x d
    by (simp_all add: status_def PROGRAM_FAILURE_CODES_def)
  have inv: "compute_state q p = Invalid \<longleftrightarrow> (\<exists>s \<in> set (failure q). is_integrity_invalidating s p)" for q
    using compute_state_not_invalid [of q p] by blast
  have "compute_state ?r p = Invalid \<longleftrightarrow> compute_state r p = Invalid
      \<or> (\<not> is_generous p \<and> (revocation_unsettled r \<or> \<not> has_success r TIME_STAMP_TRUSTED))"
    unfolding inv upgrades_failures using codes program_codes_invalidate [of p] by (auto split: if_splits)
  with keep show ?thesis by (simp add: apply_compliance_upgrades_def)
qed

theorem compliance_upgrades_effect_witness:
  "compute_state (apply_compliance_upgrades trusted_results ConformanceProgram ''u'') (profile_strict V2_4) = Invalid"
proof -
  have "\<not> is_generous (profile_strict V2_4)" "\<not> has_success trusted_results TIME_STAMP_TRUSTED"
    by (simp_all add: is_generous_def profile_strict_def trusted_results_def push_defs results_default_def has_success_def
        status_code_names)
  then show ?thesis using compliance_upgrades_effect [of trusted_results "''u''" CoreSpec "profile_strict V2_4"] by simp
qed

section \<open>The revision a manifest validated under\<close>

lemma external_data_codes:
  assumes "is_external_data_scoped s"
  shows "\<not> is_integrity_invalidating s p" and "\<not> is_construction_integrity_invalidating s"
    and "sc_code s \<notin> set POLICY_CODES" and "sc_code s \<notin> set PROGRAM_FAILURE_CODES"
    and "\<not> is_identity_assertion_scoped (sc_code s)"
  using assms
  by (auto simp: is_external_data_scoped_def is_construction_integrity_invalidating_def is_integrity_invalidating_def
      is_identity_assertion_scoped_def POLICY_CODES_def PROGRAM_FAILURE_CODES_def status_code_names split: if_splits)

text \<open>
  C39: clearing the revision is not tied to the state. When the failures of a manifest all concern remotely stored
  data, no profile calls it \<open>Invalid\<close>; yet a strict profile reports it as validated under no revision, while
  the generous one keeps the revision.
\<close>

theorem validated_under_cleared_for_external_data:
  assumes "failure results \<noteq> []" and "\<forall>s \<in> set (failure results). is_external_data_scoped s"
    and "\<not> is_generous strict" and "is_generous generous"
  shows "compute_state results strict \<noteq> Invalid
    \<and> finish_verdict results strict (Some v) = Some (v\<lparr>validated_under := None\<rparr>)
    \<and> finish_verdict results generous (Some v) = Some v"
proof (intro conjI)
  show "compute_state results strict \<noteq> Invalid"
    using assms(2) external_data_codes(1) [of _ strict] by (auto simp: compute_state_not_invalid)
  have "integrity_broken results strict"
    using assms(1-3) external_data_codes(3-5) [of "hd (failure results)"] by (auto simp: integrity_broken_def list_ex_iff)
  then show "finish_verdict results strict (Some v) = Some (v\<lparr>validated_under := None\<rparr>)"
    by (simp add: finish_verdict_def)
  have "\<not> integrity_broken results generous"
    using assms(2,4) external_data_codes(2) by (auto simp: integrity_broken_def list_ex_iff)
  then show "finish_verdict results generous (Some v) = Some v" by (simp add: finish_verdict_def)
qed

definition unretrieved_results :: validation_results where
  "unretrieved_results = push_failure_with_details ASSERTION_INACCESSIBLE ''u'' ''e''
     (JObject [(''external_data'', JBool True)]) results_default"

theorem validated_under_cleared_for_external_data_witness:
  "\<forall>v. compute_state unretrieved_results (profile_strict V2_4) \<noteq> Invalid
    \<and> finish_verdict unretrieved_results (profile_strict V2_4) (Some v) = Some (v\<lparr>validated_under := None\<rparr>)
    \<and> finish_verdict unretrieved_results GENEROUS (Some v) = Some v"
proof -
  have "failure unretrieved_results \<noteq> []" "\<forall>s \<in> set (failure unretrieved_results). is_external_data_scoped s"
    "\<not> is_generous (profile_strict V2_4)" "is_generous GENEROUS"
    by (simp_all add: unretrieved_results_def push_defs results_default_def is_external_data_scoped_def is_generous_def
        profile_strict_def GENEROUS_def)
  from validated_under_cleared_for_external_data [OF this] show ?thesis by blast
qed

section \<open>The version ladder\<close>

lemma evaluations_eq:
  "evaluations (evaluate_for m c f ceiling) = map (rung m c f ceiling) (filter (\<lambda>v. v \<le> ceiling) version_all)"
  by (simp add: evaluate_for_def Let_def)

lemma set_version_all: "set version_all = UNIV"
proof -
  have "v \<in> set version_all" for v by (cases v) (simp_all add: version_all_def)
  then show ?thesis by auto
qed

lemma rung_simps [simp]:
  "ve_version (rung m c f ceiling v) = v"
  "structure_conformant (rung m c f ceiling v) \<longleftrightarrow> rung_reasons m c f ceiling v = []"
  by (simp_all add: rung_def Let_def)

definition conforms :: "parsed_manifest \<Rightarrow> cbor_value \<Rightarrow> asset_format option \<Rightarrow> spec_version \<Rightarrow> spec_version \<Rightarrow> bool" where
  "conforms m c f ceiling v \<longleftrightarrow> v \<le> ceiling \<and> rung_reasons m c f ceiling v = []"

lemma sorted_version_all: "sorted_wrt (<) version_all"
  by (simp add: version_all_def less_spec_version_def)

lemma find_last_sorted:
  assumes "sorted_wrt (<) (xs :: 'a :: linorder list)" and "find P (rev xs) = Some x"
  shows "x \<in> set xs \<and> P x \<and> (\<forall>y \<in> set xs. P y \<longrightarrow> y \<le> x)"
  using assms
proof (induction xs rule: rev_induct)
  case (snoc z zs)
  then show ?case by (cases "P z") (auto simp: sorted_wrt_append less_imp_le dest: find_SomeD)
qed simp

lemma find_map: "find P (map f xs) = map_option f (find (\<lambda>x. P (f x)) xs)"
  by (induction xs) auto

lemma highest_conformant:
  "map_option ve_version (find structure_conformant (rev (evaluations (evaluate_for m c f ceiling))))
     = find (\<lambda>v. rung_reasons m c f ceiling v = []) (rev (filter (\<lambda>v. v \<le> ceiling) version_all))"
  unfolding evaluations_eq rev_map find_map by (simp add: option.map_comp comp_def option.map_ident)

lemma ladder_selects:
  "(case validated_under (evaluate_for m c f ceiling) of
      None \<Rightarrow> \<forall>v. \<not> conforms m c f ceiling v
    | Some u \<Rightarrow> conforms m c f ceiling u
        \<and> (if \<exists>d. Option.bind (declared_spec_version c) declared_spec_revision = Some d \<and> conforms m c f ceiling d
           then Option.bind (declared_spec_version c) declared_spec_revision = Some u
           else \<forall>v. conforms m c f ceiling v \<longrightarrow> v \<le> u))"
proof -
  let ?vs = "filter (\<lambda>v. v \<le> ceiling) version_all"
  let ?P = "\<lambda>v. rung_reasons m c f ceiling v = []"
  let ?d = "Option.bind (declared_spec_version c) declared_spec_revision"
  have passes: "list_ex (\<lambda>e. ve_version e = v \<and> structure_conformant e) (map (rung m c f ceiling) ?vs) \<longleftrightarrow> conforms m c f ceiling v" for v
    by (auto simp: list_ex_iff conforms_def set_version_all)
  have eq: "validated_under (evaluate_for m c f ceiling) =
      (case ?d of Some dv \<Rightarrow> if conforms m c f ceiling dv then Some dv else find ?P (rev ?vs) | None \<Rightarrow> find ?P (rev ?vs))"
    using highest_conformant [of m c f ceiling] unfolding evaluations_eq
    by (simp add: evaluate_for_def Let_def passes split: option.splits)
  have sorted: "sorted_wrt (<) ?vs" by (rule sorted_wrt_filter [OF sorted_version_all])
  have high: "case find ?P (rev ?vs) of None \<Rightarrow> \<forall>v. \<not> conforms m c f ceiling v
      | Some u \<Rightarrow> conforms m c f ceiling u \<and> (\<forall>v. conforms m c f ceiling v \<longrightarrow> v \<le> u)"
  proof (cases "find ?P (rev ?vs)")
    case None
    then have "\<forall>v. \<not> conforms m c f ceiling v" by (auto simp: find_None_iff conforms_def set_version_all)
    with None show ?thesis by simp
  next
    case (Some u)
    with find_last_sorted [OF sorted Some] show ?thesis by (auto simp: conforms_def set_version_all)
  qed
  show ?thesis
  proof (cases "\<exists>d. ?d = Some d \<and> conforms m c f ceiling d")
    case True
    then show ?thesis by (auto simp: eq)
  next
    case False
    then have "validated_under (evaluate_for m c f ceiling) = find ?P (rev ?vs)" by (auto simp: eq split: option.splits)
    with high False show ?thesis by (auto split: option.splits)
  qed
qed

lemma no_rung_no_revision:
  "\<forall>v. \<not> conforms m c f ceiling v \<Longrightarrow> validated_under (evaluate_for m c f ceiling) = None"
  using ladder_selects [of m c f ceiling] by (auto split: option.splits)

text \<open>
  C20: the ladder reports a revision exactly when one conforms. It is the declared one when that conforms and
  otherwise the highest one that does; it is never above the ceiling.
\<close>

theorem evaluate_for_selects:
  "(case validated_under (evaluate_for m c f ceiling) of
      None \<Rightarrow> \<forall>v. \<not> conforms m c f ceiling v
    | Some u \<Rightarrow> conforms m c f ceiling u
        \<and> (if \<exists>d. Option.bind (declared_spec_version c) declared_spec_revision = Some d \<and> conforms m c f ceiling d
           then Option.bind (declared_spec_version c) declared_spec_revision = Some u
           else \<forall>v. conforms m c f ceiling v \<longrightarrow> v \<le> u))"
  by (rule ladder_selects)

theorem evaluate_for_selects_witness:
  "validated_under (evaluate_for \<lparr>pm_label = [], manifest_jumbf = [], assertions = [], assertion_jumbf = [], claim_cbor = None,
     signature_cose = None, claim_count = 0, claim_box_label = None\<rparr> Null None V2_4) = None"
proof -
  let ?m = "\<lparr>pm_label = [], manifest_jumbf = [], assertions = [], assertion_jumbf = [], claim_cbor = None,
     signature_cose = None, claim_count = 0, claim_box_label = None\<rparr> :: parsed_manifest"
  have "\<not> conforms ?m Null None V2_4 v" for v
    by (simp add: conforms_def rung_reasons_def Let_def claim_generation_of_def get_field_def field_defects_def
        v2_missing_fields_def text_field_def empty_or_absent_def)
  with evaluate_for_selects [of ?m Null None V2_4] show ?thesis by (auto split: option.splits)
qed

text \<open>
  Within the claim's own generation conformance is inherited by later revisions: what a 2.x revision accepts,
  every later 2.x revision up to 2.4 accepts. Only 2.5 adds creation rules of its own.
\<close>

theorem rung_upward_closed:
  assumes "conforms m c f ceiling v" and "v \<le> w" and "w \<le> ceiling" and "w \<le> V2_4"
    and "claim_generation_of m c = ClaimV2"
  shows "conforms m c f ceiling w"
proof -
  have "v < V2_0 \<longrightarrow> False" using assms(1,5) by (auto simp: conforms_def rung_reasons_def Let_def)
  then have "\<not> w < V2_0" using assms(2) by auto
  moreover have "w \<noteq> V2_5" using assms(4) by (auto simp: less_eq_spec_version_def)
  moreover have "filter (\<lambda>(mn, _). w < mn) (feature_minimums m f ceiling) = []"
  proof -
    have "filter (\<lambda>(mn, _). v < mn) (feature_minimums m f ceiling) = []"
      using assms(1) by (auto simp: conforms_def rung_reasons_def Let_def)
    with assms(2) show ?thesis by (fastforce simp: filter_empty_conv)
  qed
  moreover have "field_defects ClaimV2 c = []" using assms(1,5) by (auto simp: conforms_def rung_reasons_def Let_def)
  ultimately show ?thesis using assms(3,5) by (simp add: conforms_def rung_reasons_def Let_def)
qed

definition claim_sample :: cbor_value where
  "claim_sample = Map [(Text (ascii ''instanceID''), Text (ascii ''x'')),
     (Text (ascii ''claim_generator_info''), Map [(Text (ascii ''name''), Text (ascii ''g''))]),
     (Text (ascii ''created_assertions''), Array [Null]), (Text (ascii ''signature''), Text (ascii ''s''))]"

definition manifest_sample :: parsed_manifest where
  "manifest_sample = \<lparr>pm_label = [], manifest_jumbf = [], assertions = [(ascii ''c2pa.ingredient.v3'', [])],
     assertion_jumbf = [], claim_cbor = None, signature_cose = None, claim_count = 1,
     claim_box_label = Some (ascii ''c2pa.claim.v2'')\<rparr>"

theorem rung_upward_closed_witness:
  "conforms manifest_sample claim_sample (Some Png) V2_5 V2_1 \<and> conforms manifest_sample claim_sample (Some Png) V2_5 V2_4"
proof -
  have g: "claim_generation_of manifest_sample claim_sample = ClaimV2"
    by (simp add: claim_generation_of_def manifest_sample_def)
  have "v2_missing_fields claim_sample = []"
    by (simp add: claim_sample_def v2_missing_fields_def text_field_def get_field_def empty_or_absent_def nonempty_array_def
        generator_info_map_is_valid_def is_map_def optional_text_member_is_valid_def)
  moreover have "feature_minimums manifest_sample (Some Png) V2_5
      = [(V2_1, ''assertion '' @ quoted ''c2pa.ingredient.v3'' @ '' requires >= 2.1'')]"
    by (simp add: feature_minimums_def manifest_sample_def assertion_min_version_def
        less_eq_spec_version_def Let_def)
  ultimately have "conforms manifest_sample claim_sample (Some Png) V2_5 V2_1"
    using g by (simp add: conforms_def rung_reasons_def field_defects_def Let_def less_eq_spec_version_def less_spec_version_def)
  with rung_upward_closed [OF this, of V2_4] g show ?thesis by (simp add: less_eq_spec_version_def)
qed

text \<open>
  C40: a container format that a later revision introduced is not outside the frame of an earlier ceiling: no rung
  conforms, and the manifest is reported as validated under no revision.
\<close>

theorem format_minimum_above_ceiling:
  assumes "format_min_version f = Some mn" and "ceiling < mn"
  shows "validated_under (evaluate_for m c (Some f) ceiling) = None"
proof -
  have "\<not> conforms m c (Some f) ceiling v" for v
  proof
    assume v: "conforms m c (Some f) ceiling v"
    then have "v < mn" using assms(2) by (auto simp: conforms_def)
    moreover have "(mn, ''text embedding (A.7/A.8/A.9) requires >= '' @ version_str mn) \<in> set (feature_minimums m (Some f) ceiling)"
      using assms(1) by (simp add: feature_minimums_def)
    ultimately have "filter (\<lambda>(mn, _). v < mn) (feature_minimums m (Some f) ceiling) \<noteq> []"
      by (auto simp: filter_empty_conv)
    with v show False by (simp add: conforms_def rung_reasons_def Let_def)
  qed
  then show ?thesis by (intro no_rung_no_revision) blast
qed

theorem format_minimum_above_ceiling_witness:
  "format_min_version Midi = Some V2_5 \<and> validated_under (evaluate manifest_sample claim_sample Midi) = None"
proof -
  have "HISTORICAL_CEILING < V2_5" by (simp add: HISTORICAL_CEILING_def less_spec_version_def)
  with format_minimum_above_ceiling [of Midi V2_5 HISTORICAL_CEILING manifest_sample claim_sample] show ?thesis
    by (simp add: evaluate_def)
qed

text \<open>
  A hyphen is allowed inside a pre-release identifier, yet a version whose pre-release part contains one is
  taken as malformed: the part is split at every hyphen.
\<close>

lemma semver_rejects_inner_hyphen:
  "semver_identifier_is_valid ''rc-1'' True \<and> semver_is_valid ''2.4.0-rc'' \<and> \<not> semver_is_valid ''2.4.0-rc-1''"
  by code_simp

end
