(* ===== verification/Content_Hash.thy ===== *)
theory Content_Hash
  imports Report_Json Jumbf
begin

text \<open>
  Content hashing of \<^verbatim>\<open>c2pa-validate/lib.rs\<close>. The digests come from the \<open>sha2\<close> crate: a hasher is the
  algorithm together with the bytes it was fed so far, and \<open>digest\<close> is a parameter of everything
  that finalises one. Indexing a slice out of range panics in Rust; the functions that index return
  \<open>Inl ()\<close> there, so that the absence of panics is a statement about them.
\<close>

section \<open>Hashers\<close>

datatype content_hash_algorithm = Sha256 | Sha384 | Sha512

fun digest_len :: "content_hash_algorithm \<Rightarrow> nat" where
  "digest_len Sha256 = 32"
| "digest_len Sha384 = 48"
| "digest_len Sha512 = 64"

fun cache_index :: "content_hash_algorithm \<Rightarrow> nat" where
  "cache_index Sha256 = 0"
| "cache_index Sha384 = 1"
| "cache_index Sha512 = 2"

definition content_hash_algorithm_of :: "string \<Rightarrow> content_hash_algorithm option" where
  "content_hash_algorithm_of algorithm =
     (if algorithm = ''sha256'' then Some Sha256
      else if algorithm = ''sha384'' then Some Sha384
      else if algorithm = ''sha512'' then Some Sha512
      else None)"

definition is_allowed_hash_algorithm :: "string \<Rightarrow> bool" where
  "is_allowed_hash_algorithm algorithm \<longleftrightarrow> content_hash_algorithm_of algorithm \<noteq> None"

record hasher =
  h_alg :: content_hash_algorithm
  h_input :: bytes

type_synonym digest = "content_hash_algorithm \<Rightarrow> bytes \<Rightarrow> bytes"
type_synonym 'a panics = "unit + 'a"

definition hasher_new :: "string \<Rightarrow> hasher option" where
  "hasher_new alg = map_option (\<lambda>a. \<lparr>h_alg = a, h_input = []\<rparr>) (content_hash_algorithm_of alg)"

definition hasher_update :: "bytes \<Rightarrow> hasher \<Rightarrow> hasher" where
  "hasher_update bs h = h\<lparr>h_input := h_input h @ bs\<rparr>"

definition hasher_finalize :: "digest \<Rightarrow> hasher \<Rightarrow> bytes" where
  "hasher_finalize digest h = digest (h_alg h) (h_input h)"

text \<open>\<open>hasher.update(&data[start..end])\<close>\<close>

definition hasher_update_range :: "bytes \<Rightarrow> nat \<Rightarrow> nat \<Rightarrow> hasher \<Rightarrow> hasher panics" where
  "hasher_update_range data start e h =
     (if start \<le> e \<and> e \<le> length data then Inr (hasher_update (slice data start e) h) else Inl ())"

section \<open>Digests\<close>

definition hash_bytes :: "digest \<Rightarrow> string \<Rightarrow> bytes \<Rightarrow> bytes option" where
  "hash_bytes digest alg data =
     map_option (\<lambda>h. hasher_finalize digest (hasher_update data h)) (hasher_new alg)"

definition hash_parts :: "digest \<Rightarrow> string \<Rightarrow> bytes list \<Rightarrow> bytes option" where
  "hash_parts digest alg parts =
     map_option (\<lambda>h. hasher_finalize digest (foldl (\<lambda>h part. hasher_update part h) h parts)) (hasher_new alg)"

definition update_box_header :: "bytes \<Rightarrow> nat \<Rightarrow> hasher \<Rightarrow> hasher option" where
  "update_box_header box_type payload_len h =
     Option.bind (checked_add payload_len 8) (\<lambda>short_size.
       if short_size < 2 ^ 32
       then Some (hasher_update box_type (hasher_update (be_bytes 4 short_size) h))
       else Option.bind (checked_add short_size 8) (\<lambda>extended_size.
              Some (hasher_update (be_bytes 8 extended_size)
                     (hasher_update box_type (hasher_update (be_bytes 4 1) h)))))"

definition hash_claim_signature_box :: "digest \<Rightarrow> string \<Rightarrow> bytes \<Rightarrow> bytes option" where
  "hash_claim_signature_box digest alg cose =
     (let label = ascii ''c2pa.signature''
      in Option.bind (hasher_new alg) (\<lambda>h.
         Option.bind (update_box_header (ascii ''jumd'') (16 + 1 + length label + 1) h) (\<lambda>h.
           let h = hasher_update [0] (hasher_update label (hasher_update [3] (hasher_update UUID_CLAIM_SIGNATURE h)))
           in Option.bind (update_box_header (ascii ''cbor'') (length cose) h) (\<lambda>h.
                Some (hasher_finalize digest (hasher_update cose h))))))"

text \<open>One excluded range of the loop of \<open>hash_with_exclusions\<close>: the hasher and the position after it.\<close>

definition skip_range :: "bytes \<Rightarrow> hasher \<times> nat \<Rightarrow> nat \<times> nat \<Rightarrow> (hasher \<times> nat) option panics" where
  "skip_range data = (\<lambda>(h, pos) (start, len).
     case checked_add start len of
       None \<Rightarrow> Inr None
     | Some e \<Rightarrow>
         res_bind (if pos < start then hasher_update_range data pos start h else Inr h) (\<lambda>h.
           Inr (Some (h, max e pos))))"

fun skip_ranges :: "bytes \<Rightarrow> hasher \<times> nat \<Rightarrow> (nat \<times> nat) list \<Rightarrow> (hasher \<times> nat) option panics" where
  "skip_ranges data s [] = Inr (Some s)"
| "skip_ranges data s (r # rs) =
     res_bind (skip_range data s r) (\<lambda>s'. case s' of None \<Rightarrow> Inr None | Some s' \<Rightarrow> skip_ranges data s' rs)"

definition hash_with_exclusions :: "digest \<Rightarrow> string \<Rightarrow> bytes \<Rightarrow> (nat \<times> nat) list \<Rightarrow> bytes option panics" where
  "hash_with_exclusions digest alg data exclusions =
     (case hasher_new alg of
        None \<Rightarrow> Inr None
      | Some h \<Rightarrow>
          res_bind (skip_ranges data (h, 0) exclusions) (\<lambda>s.
            case s of
              None \<Rightarrow> Inr None
            | Some (h, pos) \<Rightarrow>
                Inr (Some (hasher_finalize digest
                  (if pos < length data then hasher_update (drop pos data) h else h)))))"

section \<open>Lemmas\<close>

lemma hasher_update_simps [simp]:
  "h_alg (hasher_update bs h) = h_alg h" "h_input (hasher_update bs h) = h_input h @ bs"
  by (simp_all add: hasher_update_def)

lemma hasher_new_eq: "hasher_new alg = Some h \<longleftrightarrow> (\<exists>a. content_hash_algorithm_of alg = Some a \<and> h = \<lparr>h_alg = a, h_input = []\<rparr>)"
  by (auto simp: hasher_new_def)

lemma hash_bytes_eq: "hash_bytes digest alg data = map_option (\<lambda>a. digest a data) (content_hash_algorithm_of alg)"
  by (cases "content_hash_algorithm_of alg") (simp_all add: hash_bytes_def hasher_new_def hasher_finalize_def hasher_update_def)

lemma foldl_hasher_update: "h_input (foldl (\<lambda>h part. hasher_update part h) h parts) = h_input h @ concat parts"
  "h_alg (foldl (\<lambda>h part. hasher_update part h) h parts) = h_alg h"
  by (induction parts arbitrary: h) auto

lemma hash_parts_eq: "hash_parts digest alg parts = hash_bytes digest alg (concat parts)"
  by (cases "content_hash_algorithm_of alg")
    (simp_all add: hash_parts_def hash_bytes_eq hasher_new_def hasher_finalize_def foldl_hasher_update)

text \<open>Streaming a box header is hashing the header the serializer writes.\<close>

lemma update_box_header_eq:
  assumes "length payload + 16 \<le> usize_max"
  shows "\<exists>h'. update_box_header box_type (length payload) h = Some h' \<and> h_alg h' = h_alg h
    \<and> h_input h' @ payload = h_input h @ box_bytes box_type payload"
  using assms by (auto simp: update_box_header_def box_bytes_def checked_add_def Let_def add.commute add.left_commute)

lemma hash_claim_signature_box_eq:
  assumes "length cose + 16 \<le> usize_max"
  shows "hash_claim_signature_box digest alg cose
    = hash_bytes digest alg (description_box UUID_CLAIM_SIGNATURE (ascii ''c2pa.signature'') None @ cbor_box cose)"
proof (cases "content_hash_algorithm_of alg")
  case None
  then show ?thesis by (simp add: hash_claim_signature_box_def hash_bytes_eq hasher_new_def)
next
  case (Some a)
  define payload where "payload = UUID_CLAIM_SIGNATURE @ [3] @ ascii ''c2pa.signature'' @ [0]"
  have len: "length payload = 16 + 1 + length (ascii ''c2pa.signature'') + 1"
    by (simp add: payload_def UUID_CLAIM_SIGNATURE_def type_uuid_def UUID_SUFFIX_def)
  let ?h = "\<lparr>h_alg = a, h_input = []\<rparr>"
  obtain h1 where h1: "update_box_header (ascii ''jumd'') (length payload) ?h = Some h1" "h_alg h1 = a"
      "h_input h1 @ payload = box_bytes (ascii ''jumd'') payload"
    using update_box_header_eq [of payload "ascii ''jumd''" ?h] by (auto simp: len usize_max_def)
  let ?h2 = "hasher_update [0] (hasher_update (ascii ''c2pa.signature'') (hasher_update [3] (hasher_update UUID_CLAIM_SIGNATURE h1)))"
  have h2: "h_input ?h2 = box_bytes (ascii ''jumd'') payload" using h1(3) by (simp add: payload_def)
  obtain h3 where h3: "update_box_header (ascii ''cbor'') (length cose) ?h2 = Some h3" "h_alg h3 = a"
      "h_input h3 @ cose = box_bytes (ascii ''jumd'') payload @ box_bytes (ascii ''cbor'') cose"
    using update_box_header_eq [OF assms, of "ascii ''cbor''" ?h2] h1(2) h2 by auto
  have "hash_claim_signature_box digest alg cose = Some (hasher_finalize digest (hasher_update cose h3))"
    using h1(1) h3(1) by (simp add: hash_claim_signature_box_def hasher_new_def Some len Let_def)
  moreover have "description_box UUID_CLAIM_SIGNATURE (ascii ''c2pa.signature'') None = box_bytes (ascii ''jumd'') payload"
    by (simp add: description_box_def payload_def TYPE_JUMD_def TOGGLE_REQUESTABLE_def TOGGLE_LABEL_PRESENT_def Let_def)
  ultimately show ?thesis
    using h3(2,3) by (simp add: hasher_finalize_def hash_bytes_eq Some cbor_box_def TYPE_CBOR_def)
qed

end
