(* ===== verification/Exclusions.thy ===== *)
theory Exclusions
  imports Content_Hash Cbor Format_Common "HOL-Library.Product_Lexorder"
begin

text \<open>
  Exclusion ranges of the hash assertions: \<^verbatim>\<open>c2pa-validate/exclusions.rs\<close>, and the check of
  \<^verbatim>\<open>c2pa-validate/lib.rs\<close> that a signed exclusion hides nothing but the manifest carrier and padding.
\<close>

section \<open>Parsing\<close>

datatype range_error = RangeMalformed | RangeMismatch

record box_exclusion =
  be_box_index :: nat
  be_start :: nat
  be_length :: nat

definition MAX_DATA_HASH_EXCLUSIONS :: nat where "MAX_DATA_HASH_EXCLUSIONS = 32768"

definition nonnegative_usize :: "cbor_value option \<Rightarrow> nat option" where
  "nonnegative_usize v =
     (case v of Some (Integer n) \<Rightarrow> if n \<ge> 0 \<and> nat n \<le> usize_max then Some (nat n) else None | _ \<Rightarrow> None)"

definition exclusion_items :: "cbor_value option \<Rightarrow> range_error + cbor_value list" where
  "exclusion_items v =
     (case v of None \<Rightarrow> Inr [] | Some Null \<Rightarrow> Inr [] | Some (Array items) \<Rightarrow> Inr items | Some _ \<Rightarrow> Inl RangeMalformed)"

text \<open>One item: its range and the end that the next item must not start before.\<close>

definition data_item :: "nat \<Rightarrow> nat option \<Rightarrow> cbor_value \<Rightarrow> range_error + (nat \<times> nat)" where
  "data_item asset_len previous_end entry =
     res_bind (ok_or (nonnegative_usize (value_get entry (ascii ''start''))) RangeMalformed) (\<lambda>start.
     res_bind (ok_or (nonnegative_usize (value_get entry (ascii ''length''))) RangeMalformed) (\<lambda>len.
     res_bind (ok_or (checked_add start len) RangeMalformed) (\<lambda>e.
       if (case previous_end of Some p \<Rightarrow> start < p | None \<Rightarrow> False) then Inl RangeMalformed
       else if e > asset_len then Inl RangeMismatch
       else Inr (start, len))))"

fun data_items :: "nat \<Rightarrow> nat option \<Rightarrow> cbor_value list \<Rightarrow> range_error + (nat \<times> nat) list" where
  "data_items asset_len previous_end [] = Inr []"
| "data_items asset_len previous_end (entry # items) =
     res_bind (data_item asset_len previous_end entry) (\<lambda>(start, len).
     res_bind (data_items asset_len (Some (start + len)) items) (\<lambda>rs. Inr ((start, len) # rs)))"

definition parse_data :: "cbor_value option \<Rightarrow> nat \<Rightarrow> range_error + (nat \<times> nat) list" where
  "parse_data v asset_len =
     res_bind (exclusion_items v) (\<lambda>items.
       if length items > MAX_DATA_HASH_EXCLUSIONS then Inl RangeMalformed else data_items asset_len None items)"

definition box_item :: "nat list \<Rightarrow> (nat \<times> nat) option \<Rightarrow> cbor_value \<Rightarrow> range_error + box_exclusion" where
  "box_item box_lengths previous entry =
     res_bind (case value_get entry (ascii ''boxIndex'') of
                 Some v \<Rightarrow> ok_or (nonnegative_usize (Some v)) RangeMalformed
               | None \<Rightarrow> if length box_lengths = 1 then Inr 0 else Inl RangeMalformed) (\<lambda>box_index.
     res_bind (ok_or (nth_opt box_lengths box_index) RangeMalformed) (\<lambda>box_len.
     res_bind (ok_or (nonnegative_usize (value_get entry (ascii ''start''))) RangeMalformed) (\<lambda>start.
     res_bind (ok_or (nonnegative_usize (value_get entry (ascii ''length''))) RangeMalformed) (\<lambda>len.
     res_bind (ok_or (checked_add start len) RangeMalformed) (\<lambda>e.
       if (case previous of
             Some (previous_box, previous_end) \<Rightarrow>
               box_index < previous_box \<or> (box_index = previous_box \<and> start < previous_end)
           | None \<Rightarrow> False) then Inl RangeMalformed
       else if e > box_len then Inl RangeMismatch
       else Inr \<lparr>be_box_index = box_index, be_start = start, be_length = len\<rparr>)))))"

fun box_items :: "nat list \<Rightarrow> (nat \<times> nat) option \<Rightarrow> cbor_value list \<Rightarrow> range_error + box_exclusion list" where
  "box_items box_lengths previous [] = Inr []"
| "box_items box_lengths previous (entry # items) =
     res_bind (box_item box_lengths previous entry) (\<lambda>x.
     res_bind (box_items box_lengths (Some (be_box_index x, be_start x + be_length x)) items) (\<lambda>xs. Inr (x # xs)))"

definition parse_boxes :: "cbor_value option \<Rightarrow> nat list \<Rightarrow> range_error + box_exclusion list" where
  "parse_boxes v box_lengths =
     res_bind (exclusion_items v) (\<lambda>items.
       if length items > MAX_DATA_HASH_EXCLUSIONS then Inl RangeMalformed else box_items box_lengths None items)"

section \<open>What a data-hash exclusion may hide\<close>

definition padding_only :: "bytes \<Rightarrow> nat \<Rightarrow> nat \<Rightarrow> string + unit" where
  "padding_only data start e =
     (case slice_get data start e of
        None \<Rightarrow> Inr ()
      | Some window \<Rightarrow>
          (case position (\<lambda>b. b \<noteq> 0) window of
             Some offset \<Rightarrow> Inl (''data-hash exclusion covering the manifest store contains non-padding data at offset ''
                                 @ fmt_nat (start + offset))
           | None \<Rightarrow> Inr ()))"

definition carrier_step :: "bytes \<Rightarrow> nat \<Rightarrow> nat \<Rightarrow> span \<Rightarrow> string + nat" where
  "carrier_step data e cursor = (\<lambda>(carrier_start, carrier_end).
     if carrier_end \<le> cursor \<or> carrier_start \<ge> e then Inr cursor
     else res_bind (padding_only data cursor (min carrier_start e)) (\<lambda>_. Inr (max cursor carrier_end)))"

definition inspect_step ::
    "bytes \<Rightarrow> span list \<Rightarrow> bool \<times> nat \<Rightarrow> nat \<times> nat \<Rightarrow> string + bool \<times> nat" where
  "inspect_step data carrier_ranges = (\<lambda>(has_additional, excluded) (start, len).
     case checked_add start len of
       None \<Rightarrow> Inl ''data-hash exclusion range overflows the asset''
     | Some e \<Rightarrow>
         if \<not> list_ex (\<lambda>(cs, ce). cs < e \<and> start < ce) carrier_ranges then Inr (True, excluded)
         else res_bind (try_fold (carrier_step data e) start carrier_ranges) (\<lambda>cursor.
              res_bind (padding_only data cursor e) (\<lambda>_.
                Inr (has_additional, min (excluded + len) usize_max))))"

definition inspect_data_hash_exclusions ::
    "asset_format \<Rightarrow> bytes \<Rightarrow> (nat \<times> nat) list \<Rightarrow> data_hash_exclusion list \<Rightarrow> string + bool" where
  "inspect_data_hash_exclusions format data exclusions carrier =
     (let carrier_ranges =
            sort (List.map_filter (\<lambda>x. map_option (Pair (ex_start x)) (checked_add (ex_start x) (ex_length x))) carrier)
      in res_bind (try_fold (inspect_step data carrier_ranges) (False, 0) exclusions) (\<lambda>(has_additional, excluded).
           let carrier_bytes = sum_list (map ex_length carrier)
           in if format = Jpeg \<and> excluded > 0 \<and> excluded \<noteq> carrier_bytes
              then Inl (''data-hash exclusion length '' @ fmt_nat excluded @ '' does not equal the ''
                        @ fmt_nat carrier_bytes @ ''-byte total of the C2PA APP11 segments'')
              else Inr has_additional))"

section \<open>Accepted ranges\<close>

text \<open>
  \<open>ranges_ok p rs n\<close>: the ranges start at or after \<open>p\<close>, each after the end of the one before it, and end by
  \<open>n\<close>. \<open>kept data p rs\<close> are the bytes from \<open>p\<close> on that lie in no range.
\<close>

fun ranges_ok :: "nat \<Rightarrow> (nat \<times> nat) list \<Rightarrow> nat \<Rightarrow> bool" where
  "ranges_ok p [] n = True"
| "ranges_ok p ((s, l) # rs) n = (p \<le> s \<and> s + l \<le> n \<and> s + l \<le> usize_max \<and> ranges_ok (s + l) rs n)"

definition in_ranges :: "nat \<Rightarrow> (nat \<times> nat) list \<Rightarrow> bool" where
  "in_ranges i rs \<longleftrightarrow> list_ex (\<lambda>(s, l). s \<le> i \<and> i < s + l) rs"

definition kept :: "bytes \<Rightarrow> nat \<Rightarrow> (nat \<times> nat) list \<Rightarrow> bytes" where
  "kept data p rs = map (nth data) (filter (\<lambda>i. \<not> in_ranges i rs) [p..<length data])"

lemma ranges_ok_within:
  "ranges_ok p rs n \<Longrightarrow> (s, l) \<in> set rs \<Longrightarrow> p \<le> s \<and> s + l \<le> n \<and> s + l \<le> usize_max"
  by (induction p rs n rule: ranges_ok.induct) (auto dest: le_trans [OF add_leD1])

lemma ranges_ok_before: "ranges_ok p rs n \<Longrightarrow> i < p \<Longrightarrow> \<not> in_ranges i rs"
  using ranges_ok_within by (fastforce simp: in_ranges_def list_ex_iff)

lemma data_item_ok:
  "data_item n prev entry = Inr (s, l) \<Longrightarrow>
     s + l \<le> n \<and> s + l \<le> usize_max \<and> (case prev of Some p \<Rightarrow> p \<le> s | None \<Rightarrow> True)"
  by (auto simp: data_item_def res_simps split: if_splits option.splits)

lemma data_items_ok:
  "data_items n prev items = Inr rs \<Longrightarrow> ranges_ok (case prev of Some p \<Rightarrow> p | None \<Rightarrow> 0) rs n"
proof (induction n prev items arbitrary: rs rule: data_items.induct)
  case (2 n prev entry items)
  then obtain s l rs' where "data_item n prev entry = Inr (s, l)" "rs = (s, l) # rs'"
    "data_items n (Some (s + l)) items = Inr rs'"
    by (auto simp: res_bind_eq_Inr)
  with "2.IH" data_item_ok [of n prev entry s l] show ?case by (auto split: option.splits)
qed simp

lemma parse_data_ok: "parse_data v n = Inr rs \<Longrightarrow> ranges_ok 0 rs n"
  using data_items_ok [of n None] by (auto simp: parse_data_def res_bind_eq_Inr split: if_splits)

lemma upt_split: "p \<le> s \<Longrightarrow> s \<le> e \<Longrightarrow> e \<le> n \<Longrightarrow> [p..<n] = [p..<s] @ [s..<e] @ [e..<n]"
  using upt_add_eq_append [of p s "n - s"] upt_add_eq_append [of s e "n - e"] by simp

lemma map_nth_upt: "p \<le> q \<Longrightarrow> q \<le> length data \<Longrightarrow> map (nth data) [p..<q] = slice data p q"
  by (rule nth_equalityI) (auto simp: slice_def)

lemma kept_Nil: "kept data p [] = drop p data"
proof (cases "p \<le> length data")
  case True
  then show ?thesis by (simp add: kept_def in_ranges_def map_nth_upt slice_def)
qed (simp add: kept_def)

lemma kept_Cons:
  assumes "p \<le> s" and "s + l \<le> length data" and "ranges_ok (s + l) rs (length data)"
  shows "kept data p ((s, l) # rs) = slice data p s @ kept data (s + l) rs"
proof -
  let ?P = "\<lambda>i. \<not> in_ranges i ((s, l) # rs)"
  have a: "filter ?P [p..<s] = [p..<s]"
    using ranges_ok_before [OF assms(3)] by (auto simp: filter_id_conv in_ranges_def)
  have b: "filter ?P [s..<s + l] = []" by (auto simp: filter_empty_conv in_ranges_def)
  have c: "filter ?P [s + l..<length data] = filter (\<lambda>i. \<not> in_ranges i rs) [s + l..<length data]"
    by (rule filter_cong) (auto simp: in_ranges_def)
  have "[p..<length data] = [p..<s] @ [s..<s + l] @ [s + l..<length data]"
    using assms(1,2) by (intro upt_split) auto
  then have "filter ?P [p..<length data] = [p..<s] @ filter (\<lambda>i. \<not> in_ranges i rs) [s + l..<length data]"
    by (simp only: filter_append a b c append_Nil)
  then show ?thesis using assms(1,2) by (simp add: kept_def map_nth_upt)
qed

lemma skip_ranges_kept:
  assumes "ranges_ok p rs (length data)" and "p \<le> length data"
  shows "\<exists>h' q. skip_ranges data (h, p) rs = Inr (Some (h', q)) \<and> h_alg h' = h_alg h \<and> q \<le> length data
    \<and> h_input h' @ drop q data = h_input h @ kept data p rs"
  using assms
proof (induction rs arbitrary: h p)
  case Nil
  then show ?case by (simp add: kept_Nil)
next
  case (Cons r rs)
  obtain s l where r: "r = (s, l)" by (cases r)
  with Cons.prems have ok: "p \<le> s" "s + l \<le> length data" "s + l \<le> usize_max" "ranges_ok (s + l) rs (length data)" by auto
  let ?h = "if p < s then hasher_update (slice data p s) h else h"
  have "skip_range data (h, p) r = Inr (Some (?h, s + l))"
    using ok by (auto simp: skip_range_def r hasher_update_range_def checked_add_def)
  moreover have "h_input ?h = h_input h @ slice data p s" using ok(1) by (auto simp: slice_def)
  ultimately show ?case
    using Cons.IH [OF ok(4) ok(2), of ?h] kept_Cons [OF ok(1,2,4)] by (auto simp: r)
qed

lemma hash_with_exclusions_kept:
  assumes "ranges_ok 0 rs (length data)"
  shows "hash_with_exclusions digest alg data rs = Inr (hash_bytes digest alg (kept data 0 rs))"
proof (cases "content_hash_algorithm_of alg")
  case None
  then show ?thesis by (simp add: hash_with_exclusions_def hasher_new_def hash_bytes_eq)
next
  case (Some a)
  obtain h' q where s: "skip_ranges data (\<lparr>h_alg = a, h_input = []\<rparr>, 0) rs = Inr (Some (h', q))" "h_alg h' = a"
    "q \<le> length data" "h_input h' @ drop q data = kept data 0 rs"
    using skip_ranges_kept [OF assms, of "\<lparr>h_alg = a, h_input = []\<rparr>"] by auto
  moreover have "h_input (if q < length data then hasher_update (drop q data) h' else h') = kept data 0 rs"
    using s(3,4) by auto
  ultimately show ?thesis
    by (auto simp: hash_with_exclusions_def hasher_new_def Some hash_bytes_eq hasher_finalize_def)
qed

section \<open>Nothing hides in an exclusion\<close>

lemma padding_only_ok:
  assumes "padding_only data s e = Inr ()" and "e \<le> length data" and "s \<le> i" and "i < e"
  shows "data ! i = 0"
proof -
  from assms have "slice_get data s e = Some (slice data s e)" by (simp add: slice_get_def)
  with assms(1) have "\<forall>b \<in> set (slice data s e). b = 0"
    by (auto simp: padding_only_def position_None split: option.splits)
  moreover have "data ! i \<in> set (slice data s e)"
    using assms(2-4) by (auto simp: in_set_conv_nth slice_def intro!: exI [of _ "i - s"])
  ultimately show ?thesis by blast
qed

lemma carrier_steps_ok:
  assumes "try_fold (carrier_step data e) cursor crs = Inr q" and "e \<le> length data"
    and "\<forall>i. a \<le> i \<and> i < cursor \<longrightarrow> P i" and "\<forall>(cs, ce) \<in> set crs. \<forall>i. cs \<le> i \<and> i < ce \<longrightarrow> P i"
    and "\<forall>i. i < length data \<and> data ! i = 0 \<longrightarrow> P i"
  shows "\<forall>i. a \<le> i \<and> i < q \<longrightarrow> P i"
  using assms
proof (induction crs arbitrary: cursor)
  case (Cons c crs)
  obtain cs ce where c: "c = (cs, ce)" by (cases c)
  from Cons.prems(1) obtain q1 where q1: "carrier_step data e cursor c = Inr q1" "try_fold (carrier_step data e) q1 crs = Inr q"
    by (auto simp: res_bind_eq_Inr)
  have "P i" if "a \<le> i" "i < q1" for i
  proof (cases "i < cursor")
    case False
    with q1(1) that have pad: "padding_only data cursor (min cs e) = Inr ()" and q: "q1 = max cursor ce"
      by (auto simp: carrier_step_def c res_bind_eq_Inr split: if_splits)
    show ?thesis
    proof (cases "i < cs")
      case True
      have "i < e"
      proof (rule ccontr)
        assume "\<not> i < e"
        with True have "cs \<ge> e" by simp
        with q1(1) False that show False by (auto simp: carrier_step_def c split: if_splits)
      qed
      with padding_only_ok [OF pad _ _ , of i] True False Cons.prems(2) have "data ! i = 0" by simp
      with Cons.prems(2,5) \<open>i < e\<close> show ?thesis by auto
    next
      case False
      with Cons.prems(4) q \<open>\<not> i < cursor\<close> that show ?thesis by (auto simp: c)
    qed
  qed (use Cons.prems(3) that in blast)
  with Cons.IH [OF q1(2)] Cons.prems show ?case by auto
qed simp

definition in_carrier :: "data_hash_exclusion list \<Rightarrow> nat \<Rightarrow> bool" where
  "in_carrier carrier i \<longleftrightarrow> list_ex (\<lambda>x. ex_start x \<le> i \<and> i < ex_start x + ex_length x) carrier"

lemma inspect_step_ok:
  assumes "inspect_step data crs st (s, l) = Inr st'" and "s + l \<le> length data"
    and "(cs, ce) \<in> set crs" and "cs < s + l" and "s < ce" and "s \<le> i" and "i < s + l"
  shows "data ! i = 0 \<or> (\<exists>(cs, ce) \<in> set crs. cs \<le> i \<and> i < ce)"
proof -
  obtain ha ex where st: "st = (ha, ex)" by (cases st)
  have "list_ex (\<lambda>(cs, ce). cs < s + l \<and> s < ce) crs" using assms(3-5) by (auto simp: list_ex_iff)
  with assms(1) obtain q where q: "try_fold (carrier_step data (s + l)) s crs = Inr q" "padding_only data q (s + l) = Inr ()"
    by (auto simp: inspect_step_def st checked_add_def res_bind_eq_Inr split: if_splits)
  let ?P = "\<lambda>i. data ! i = 0 \<or> (\<exists>(cs, ce) \<in> set crs. cs \<le> i \<and> i < ce)"
  have "\<forall>i. s \<le> i \<and> i < q \<longrightarrow> ?P i" by (rule carrier_steps_ok [OF q(1) assms(2)]) auto
  with padding_only_ok [OF q(2) assms(2), of i] assms(6,7) show ?thesis by (cases "i < q") auto
qed

lemma inspect_fold_ok:
  assumes "try_fold (inspect_step data crs) st ex = Inr st'" and "(s, l) \<in> set ex" and "\<forall>(s, l) \<in> set ex. s + l \<le> length data"
    and "(cs, ce) \<in> set crs" and "cs < s + l" and "s < ce" and "s \<le> i" and "i < s + l"
  shows "data ! i = 0 \<or> (\<exists>(cs, ce) \<in> set crs. cs \<le> i \<and> i < ce)"
  using assms(1-3)
proof (induction ex arbitrary: st)
  case (Cons r ex)
  then obtain st1 where st1: "inspect_step data crs st r = Inr st1" "try_fold (inspect_step data crs) st1 ex = Inr st'"
    by (auto simp: res_bind_eq_Inr)
  show ?case
  proof (cases "r = (s, l)")
    case True
    with inspect_step_ok [of data crs st s l st1, OF _ _ assms(4-8)] st1(1) Cons.prems(3) show ?thesis by simp
  next
    case False
    with Cons.IH [OF st1(2)] Cons.prems(2,3) show ?thesis by auto
  qed
qed simp

lemma inspect_exclusions_ok:
  assumes "inspect_data_hash_exclusions format data ex carrier = Inr b" and "\<forall>(s, l) \<in> set ex. s + l \<le> length data"
    and "\<forall>x \<in> set carrier. ex_start x + ex_length x \<le> usize_max"
    and "(s, l) \<in> set ex" and "j \<in> {s..<s + l}" and "in_carrier carrier j" and "i \<in> {s..<s + l}"
  shows "data ! i = 0 \<or> in_carrier carrier i"
proof -
  define crs where "crs = sort (List.map_filter (\<lambda>x. map_option (Pair (ex_start x)) (checked_add (ex_start x) (ex_length x))) carrier)"
  have crs: "set crs = (\<lambda>x. (ex_start x, ex_start x + ex_length x)) ` set carrier"
    using assms(3) by (force simp: crs_def List.map_filter_def checked_add_def)
  from assms(1) obtain st' where f: "try_fold (inspect_step data crs) (False, 0) ex = Inr st'"
    by (auto simp: inspect_data_hash_exclusions_def crs_def res_bind_eq_Inr Let_def)
  from assms(6) obtain x where x: "x \<in> set carrier" "ex_start x \<le> j" "j < ex_start x + ex_length x"
    by (auto simp: in_carrier_def list_ex_iff)
  with assms(5) have "(ex_start x, ex_start x + ex_length x) \<in> set crs" "ex_start x < s + l" "s < ex_start x + ex_length x"
    by (auto simp: crs)
  from inspect_fold_ok [OF f assms(4,2) this, of i] assms(7) show ?thesis
    by (auto simp: crs in_carrier_def list_ex_iff)
qed

end
