(* ===== verification/Box_Hash.thy ===== *)
theory Box_Hash
  imports Exclusions Versions
begin

text \<open>
  The general box hash of \<^verbatim>\<open>c2pa-validate/lib.rs\<close> (\<open>c2pa.hash.boxes\<close>): the asset is cut into named
  spans, the entries of the assertion consume them in order, and each entry's digest is compared with
  the bytes of its run. The segmentation of an asset is a parameter where the caller dispatches on
  the container format.
\<close>

section \<open>Hashing a run of boxes\<close>

definition sat_add :: "nat \<Rightarrow> nat \<Rightarrow> nat" where
  "sat_add a b = min (a + b) usize_max"

text \<open>The \<open>checkSumAdjustment\<close> field of a font's \<open>head\<close> table is hashed as zeros.\<close>

definition zero_head_field ::
    "bytes \<Rightarrow> nat \<Rightarrow> hasher \<times> nat \<Rightarrow> box_span \<Rightarrow> (hasher \<times> nat) panics" where
  "zero_head_field data e = (\<lambda>(h, start) sp.
     let zero_start = sat_add (bs_start sp) 8;
         zero_end = min (sat_add zero_start 4) (bs_end sp)
     in if zero_end \<le> start \<or> zero_start \<ge> e then Inr (h, start)
        else let before_end = min (max zero_start start) e;
                 normalized_start = max start zero_start;
                 normalized_end = min e zero_end
             in res_bind (if start < before_end then hasher_update_range data start before_end h else Inr h) (\<lambda>h.
                  Inr (if normalized_start < normalized_end
                       then hasher_update (replicate (normalized_end - normalized_start) 0) h else h,
                       normalized_end)))"

definition update_normalized_box_bytes ::
    "bytes \<Rightarrow> nat \<Rightarrow> nat \<Rightarrow> box_span list \<Rightarrow> asset_format \<Rightarrow> hasher \<Rightarrow> hasher panics" where
  "update_normalized_box_bytes data start e spans format h =
     (if format \<noteq> Font then hasher_update_range data start e h
      else res_bind (try_fold (zero_head_field data e) (h, start)
                       (filter (\<lambda>sp. bs_name sp = ascii ''head'') spans)) (\<lambda>(h, start).
             if start < e then hasher_update_range data start e h else Inr h))"

record box_entry_layout =
  bl_ranges :: "span list"
  bl_offsets :: "nat list"
  bl_total :: nat

text \<open>The ranges and offsets of boxes that are not all contiguous.\<close>

fun layout_ranges :: "span list \<Rightarrow> nat \<Rightarrow> nat option" where
  "layout_ranges [] tot = Some tot"
| "layout_ranges ((s, e) # rs) tot =
     (if s \<le> e then Option.bind (checked_add tot (e - s)) (layout_ranges rs) else None)"

fun layout_scattered :: "box_span list \<Rightarrow> nat \<Rightarrow> (nat list \<times> nat) option" where
  "layout_scattered [] tot = Some ([], tot)"
| "layout_scattered (sp # spans) tot =
     Option.bind (layout_ranges (bs_ranges sp) tot) (\<lambda>tot'.
     map_option (\<lambda>(offs, t). (tot # offs, t)) (layout_scattered spans tot'))"

definition layout_new :: "box_span list \<Rightarrow> box_entry_layout option" where
  "layout_new spans =
     (case spans of
        [] \<Rightarrow> None
      | first # _ \<Rightarrow>
          if list_all is_contiguous spans
          then let start = bs_start first; e = bs_end (last spans)
               in Some \<lparr>bl_ranges = [(start, e)], bl_offsets = map (\<lambda>sp. bs_start sp - start) spans, bl_total = e - start\<rparr>
          else map_option (\<lambda>(offs, tot). \<lparr>bl_ranges = concat (map bs_ranges spans), bl_offsets = offs, bl_total = tot\<rparr>)
                 (layout_scattered spans 0))"

definition layout_step ::
    "bytes \<Rightarrow> nat \<Rightarrow> nat \<Rightarrow> box_span list \<Rightarrow> asset_format \<Rightarrow> hasher \<times> nat \<Rightarrow> span \<Rightarrow> (hasher \<times> nat) panics" where
  "layout_step data lo hi spans format = (\<lambda>(h, logical) (start, e).
     let len = e - start; range_from = max lo logical; range_to = min hi (logical + len)
     in res_bind (if range_from < range_to
                  then update_normalized_box_bytes data (start + (range_from - logical)) (start + (range_to - logical))
                         spans format h
                  else Inr h) (\<lambda>h. Inr (h, logical + len)))"

definition layout_update ::
    "box_entry_layout \<Rightarrow> bytes \<Rightarrow> nat \<Rightarrow> nat \<Rightarrow> box_span list \<Rightarrow> asset_format \<Rightarrow> hasher \<Rightarrow> hasher panics" where
  "layout_update layout data lo hi spans format h =
     res_bind (try_fold (layout_step data lo hi spans format) (h, 0) (bl_ranges layout)) (\<lambda>(h, _). Inr h)"

definition entry_range :: "box_entry_layout \<Rightarrow> box_exclusion \<Rightarrow> (nat \<times> nat) option" where
  "entry_range layout x =
     Option.bind (nth_opt (bl_offsets layout) (be_box_index x)) (\<lambda>off.
     Option.bind (checked_add off (be_start x)) (\<lambda>start.
     Option.bind (checked_add start (be_length x)) (\<lambda>e. Some (start, e))))"

fun box_skip ::
    "box_entry_layout \<Rightarrow> bytes \<Rightarrow> box_span list \<Rightarrow> asset_format \<Rightarrow> hasher \<times> nat \<Rightarrow> box_exclusion list
     \<Rightarrow> (hasher \<times> nat) option panics" where
  "box_skip layout data spans format s [] = Inr (Some s)"
| "box_skip layout data spans format (h, cursor) (x # xs) =
     (case entry_range layout x of
        None \<Rightarrow> Inr None
      | Some (start, e) \<Rightarrow>
          res_bind (layout_update layout data cursor start spans format h) (\<lambda>h.
            box_skip layout data spans format (h, max cursor e) xs))"

definition hash_box_entry ::
    "digest \<Rightarrow> string \<Rightarrow> bytes \<Rightarrow> box_span list \<Rightarrow> box_exclusion list \<Rightarrow> asset_format \<Rightarrow> bytes option panics" where
  "hash_box_entry digest alg data spans exclusions format =
     (case hasher_new alg of
        None \<Rightarrow> Inr None
      | Some h \<Rightarrow>
          (case layout_new spans of
             None \<Rightarrow> Inr None
           | Some layout \<Rightarrow>
               res_bind (box_skip layout data spans format (h, 0) exclusions) (\<lambda>s.
                 case s of
                   None \<Rightarrow> Inr None
                 | Some (h, cursor) \<Rightarrow>
                     res_bind (layout_update layout data cursor (bl_total layout) spans format h) (\<lambda>h.
                       Inr (Some (hasher_finalize digest h))))))"

section \<open>Verifying the assertion\<close>

definition ASSERTION_BOXES_HASH_MATCH :: string where "ASSERTION_BOXES_HASH_MATCH = ''assertion.boxesHash.match''"
definition ASSERTION_BOXES_HASH_MISMATCH :: string where "ASSERTION_BOXES_HASH_MISMATCH = ''assertion.boxesHash.mismatch''"
definition ASSERTION_BOXES_HASH_MALFORMED :: string where "ASSERTION_BOXES_HASH_MALFORMED = ''assertion.boxesHash.malformed''"
definition ASSERTION_BOXES_HASH_UNKNOWN_BOX :: string where "ASSERTION_BOXES_HASH_UNKNOWN_BOX = ''assertion.boxesHash.unknownBox''"
definition ASSERTION_BOXES_HASH_ADDITIONAL_EXCLUSIONS_PRESENT :: string where
  "ASSERTION_BOXES_HASH_ADDITIONAL_EXCLUSIONS_PRESENT = ''assertion.boxesHash.additionalExclusionsPresent''"
definition ASSERTION_BOXES_HASH_OVERLAPPING_RESTART_SEGMENTS :: string where
  "ASSERTION_BOXES_HASH_OVERLAPPING_RESTART_SEGMENTS = ''com.encypher.assertion.boxesHash.overlappingRestartSegments''"
definition ASSERTION_BOXES_HASH_UNEVALUATED :: string where
  "ASSERTION_BOXES_HASH_UNEVALUATED = ''com.encypher.assertion.boxesHash.unevaluated''"
definition ALGORITHM_UNSUPPORTED :: string where "ALGORITHM_UNSUPPORTED = ''algorithm.unsupported''"

definition boxes_url :: "bytes \<Rightarrow> string" where
  "boxes_url label = ''self#jumbf=/c2pa/'' @ str_of_bytes label @ ''/c2pa.assertions/c2pa.hash.boxes''"

fun find_some :: "('a \<Rightarrow> 'b option) \<Rightarrow> 'a list \<Rightarrow> 'b option" where
  "find_some f [] = None"
| "find_some f (x # xs) = (case f x of Some y \<Rightarrow> Some y | None \<Rightarrow> find_some f xs)"

definition resolved_hash_algorithm :: "cbor_value list \<Rightarrow> string option" where
  "resolved_hash_algorithm declarations =
     Option.bind (find_some (\<lambda>d. get_field d ''alg'') declarations) (\<lambda>v.
     Option.bind (as_text v) (\<lambda>t.
       if is_allowed_hash_algorithm (str_of_bytes t) then Some (str_of_bytes t) else None))"

definition entry_alg :: "string option \<Rightarrow> cbor_value \<Rightarrow> string option" where
  "entry_alg default_alg entry = (case text_field entry ''alg'' of Some a \<Rightarrow> Some a | None \<Rightarrow> default_alg)"

definition entry_names :: "cbor_value \<Rightarrow> bytes list" where
  "entry_names entry =
     (case get_field entry ''names'' of Some (Array names) \<Rightarrow> List.map_filter as_text names | _ \<Rightarrow> [])"

definition entry_excluded :: "cbor_value \<Rightarrow> bool" where
  "entry_excluded entry = (case get_field entry ''excluded'' of Some (Bool True) \<Rightarrow> True | _ \<Rightarrow> False)"

fun consume_names :: "box_span list \<Rightarrow> nat \<Rightarrow> bytes list \<Rightarrow> string + nat" where
  "consume_names spans idx [] = Inr idx"
| "consume_names spans idx (name # names) =
     (case nth_opt spans idx of
        Some s \<Rightarrow>
          if bs_name s = name then consume_names spans (idx + 1) names
          else Inl (''expected box '' @ quoted (str_of_bytes name) @ '' but found '' @ quoted (str_of_bytes (bs_name s))
                    @ '' (out of order or missing)'')
      | None \<Rightarrow> Inl (''asset ended before box '' @ quoted (str_of_bytes name)))"

text \<open>The loop leaves the function by a panic or by returning the results so far.\<close>

datatype box_exit = BoxPanic | BoxReturn validation_results

record box_state =
  bx_idx :: nat
  bx_mismatched :: bool
  bx_c2pa_seen :: bool
  bx_results :: validation_results

definition box_entry_step ::
    "digest \<Rightarrow> string option \<Rightarrow> asset_format \<Rightarrow> bytes \<Rightarrow> box_span list \<Rightarrow> string
     \<Rightarrow> box_state \<Rightarrow> cbor_value \<Rightarrow> box_exit + box_state" where
  "box_entry_step digest default_alg format data spans url st entry =
     (let leave = (\<lambda>code why. Inl (BoxReturn (push_failure code url why (bx_results st))))
      in case get_field entry ''names'' of
           Some (Array _) \<Rightarrow>
             (let names = entry_names entry
              in if names = [] then leave ASSERTION_BOXES_HASH_MALFORMED ''empty names array''
                 else case entry_alg default_alg entry of
                        None \<Rightarrow> leave ALGORITHM_UNSUPPORTED ''no hash algorithm in box entry or box map''
                      | Some alg \<Rightarrow>
                          (case consume_names spans (bx_idx st) names of
                             Inl why \<Rightarrow> leave ASSERTION_BOXES_HASH_MISMATCH why
                           | Inr idx \<Rightarrow>
                               let is_c2pa_run = (names = [ascii ''C2PA'']);
                                   seen = (bx_c2pa_seen st \<or> is_c2pa_run);
                                   st' = st\<lparr>bx_idx := idx, bx_c2pa_seen := seen\<rparr>
                               in if entry_excluded entry then Inr st'
                                  else let selected = slice spans (bx_idx st) idx
                                       in case parse_boxes (get_field entry ''exclusions'') (map byte_len selected) of
                                            Inl RangeMalformed \<Rightarrow>
                                              leave ASSERTION_BOXES_HASH_MALFORMED
                                                ''box exclusions are malformed, unsorted, or use an invalid boxIndex''
                                          | Inl RangeMismatch \<Rightarrow>
                                              leave ASSERTION_BOXES_HASH_MISMATCH ''box exclusion extends beyond its named box''
                                          | Inr exclusions \<Rightarrow>
                                              if is_c2pa_run then Inr st'
                                              else let r = (if exclusions \<noteq> []
                                                            then push_informational
                                                                   ASSERTION_BOXES_HASH_ADDITIONAL_EXCLUSIONS_PRESENT url
                                                                   ''box hash entry contains additional byte exclusions''
                                                                   (bx_results st)
                                                            else bx_results st)
                                                   in case Option.bind (get_field entry ''hash'') as_bytes of
                                                        None \<Rightarrow> Inl (BoxReturn (push_failure ASSERTION_BOXES_HASH_MISMATCH url
                                                                  ''box entry missing hash'' r))
                                                      | Some expected \<Rightarrow>
                                                          (case hash_box_entry digest alg data selected exclusions format of
                                                             Inl _ \<Rightarrow> Inl BoxPanic
                                                           | Inr None \<Rightarrow>
                                                               Inl (BoxReturn (push_failure ALGORITHM_UNSUPPORTED url
                                                                 (''unsupported hash algorithm '' @ quoted alg) r))
                                                           | Inr (Some actual) \<Rightarrow>
                                                               Inr (st'\<lparr>bx_mismatched := bx_mismatched st \<or> actual \<noteq> expected,
                                                                        bx_results := r\<rparr>))))
         | _ \<Rightarrow> leave ASSERTION_BOXES_HASH_MALFORMED ''box entry missing names'')"

definition box_finish ::
    "cbor_value list \<Rightarrow> box_span list \<Rightarrow> string \<Rightarrow> box_state \<Rightarrow> validation_results" where
  "box_finish entries spans url st =
     (if bx_idx st \<noteq> length spans
      then push_failure ASSERTION_BOXES_HASH_UNKNOWN_BOX url
             (''asset contains '' @ fmt_nat (length spans - bx_idx st) @ '' box(es) not covered by the assertion (first: ''
              @ quoted (str_of_bytes (bs_name (spans ! bx_idx st))) @ '')'') (bx_results st)
      else if bx_mismatched st
      then push_failure ASSERTION_BOXES_HASH_MISMATCH url ''box hash mismatch: asset bytes altered'' (bx_results st)
      else if \<not> bx_c2pa_seen st
      then push_failure ASSERTION_BOXES_HASH_MALFORMED url ''assertion does not cover the C2PA manifest box'' (bx_results st)
      else push_success ASSERTION_BOXES_HASH_MATCH url
             (''all box hashes valid ('' @ fmt_nat (length entries) @ '' entries over '' @ fmt_nat (length spans) @ '' boxes)'')
             (bx_results st))"

definition verify_boxes_hash_with_spans ::
    "digest \<Rightarrow> cbor_value list \<Rightarrow> string option \<Rightarrow> asset_format \<Rightarrow> bytes \<Rightarrow> box_span list \<Rightarrow> bytes
     \<Rightarrow> validation_results \<Rightarrow> validation_results panics" where
  "verify_boxes_hash_with_spans digest entries default_alg format data spans label results =
     (let url = boxes_url label
      in case try_fold (box_entry_step digest default_alg format data spans url)
                \<lparr>bx_idx = 0, bx_mismatched = False, bx_c2pa_seen = False, bx_results = results\<rparr> entries of
           Inl BoxPanic \<Rightarrow> Inl ()
         | Inl (BoxReturn r) \<Rightarrow> Inr r
         | Inr st \<Rightarrow> Inr (box_finish entries spans url st))"

definition append_box_hash_results ::
    "validation_results \<Rightarrow> validation_results \<Rightarrow> bool \<Rightarrow> validation_results" where
  "append_box_hash_results results outcome binding_compromised =
     results\<lparr>success := success results @ (if binding_compromised
                                           then filter (\<lambda>s. sc_code s \<noteq> ASSERTION_BOXES_HASH_MATCH) (success outcome)
                                           else success outcome),
             informational := informational results @ informational outcome,
             failure := failure results @ failure outcome\<rparr>"

text \<open>The algorithm check before the segmentation: the first entry without a usable algorithm.\<close>

fun entry_alg_error :: "string option \<Rightarrow> cbor_value list \<Rightarrow> string option" where
  "entry_alg_error default_alg [] = None"
| "entry_alg_error default_alg (entry # entries) =
     (case entry_alg default_alg entry of
        None \<Rightarrow> Some ''no hash algorithm in box entry, box map, or claim''
      | Some alg \<Rightarrow> if \<not> is_allowed_hash_algorithm alg
                    then Some (''box entry uses unsupported hash algorithm '' @ quoted alg)
                    else entry_alg_error default_alg entries)"

text \<open>
  \<open>box_spans\<close> and \<open>restart_spans\<close> are the segmentations of \<^verbatim>\<open>c2pa-formats\<close> the caller uses; \<open>show_error\<close> is the
  text of a format error.
\<close>

definition verify_boxes_hash ::
    "digest \<Rightarrow> (asset_format \<Rightarrow> bytes \<Rightarrow> format_error + box_span list option) \<Rightarrow> (bytes \<Rightarrow> format_error + box_span list)
     \<Rightarrow> (format_error \<Rightarrow> string) \<Rightarrow> bytes \<Rightarrow> cbor_value \<Rightarrow> asset_format \<Rightarrow> bytes \<Rightarrow> bool \<Rightarrow> bytes \<Rightarrow> engine_profile
     \<Rightarrow> validation_results \<Rightarrow> validation_results panics" where
  "verify_boxes_hash digest box_spans restart_spans show_error cbor claim format data binding_compromised label profile results =
     (let url = boxes_url label
      in case decode cbor of
           Inl _ \<Rightarrow> Inr (push_failure ASSERTION_BOXES_HASH_MALFORMED url ''boxes hash assertion CBOR invalid'' results)
         | Inr box_map \<Rightarrow>
             (case get_field box_map ''boxes'' of
                Some (Array entries) \<Rightarrow>
                  (let default_alg = resolved_hash_algorithm [box_map, claim]
                   in case entry_alg_error default_alg entries of
                        Some why \<Rightarrow> Inr (push_failure ALGORITHM_UNSUPPORTED url why results)
                      | None \<Rightarrow>
                          (case box_spans format data of
                             Inr None \<Rightarrow>
                               Inr (push_failure ASSERTION_BOXES_HASH_UNEVALUATED url
                                 ''general box hash not evaluated: C2PA 2.4 defines no box segmentation for this container'' results)
                           | Inl err \<Rightarrow>
                               Inr (push_failure ASSERTION_BOXES_HASH_MALFORMED url
                                 (''asset segmentation failed: '' @ show_error err) results)
                           | Inr (Some spans) \<Rightarrow>
                               res_bind (verify_boxes_hash_with_spans digest entries default_alg format data spans label results_default) (\<lambda>strict.
                                 let strict_mismatch = (failure strict \<noteq> []
                                       \<and> list_all (\<lambda>s. sc_code s = ASSERTION_BOXES_HASH_MISMATCH) (failure strict))
                                 in if format = Jpeg \<and> ep_compliance profile = CoreSpec \<and> strict_mismatch then
                                      (case restart_spans data of
                                         Inl _ \<Rightarrow> Inr (append_box_hash_results results strict binding_compromised)
                                       | Inr compat_spans \<Rightarrow>
                                           res_bind (verify_boxes_hash_with_spans digest entries default_alg format data compat_spans label results_default) (\<lambda>compatibility.
                                             if failure compatibility = [] \<and> has_success compatibility ASSERTION_BOXES_HASH_MATCH
                                             then Inr (append_box_hash_results results
                                                    (push_informational ASSERTION_BOXES_HASH_OVERLAPPING_RESTART_SEGMENTS url
                                                       ''JPEG box hashes use the historical overlapping c2pa-rs restart-marker layout'' compatibility)
                                                    binding_compromised)
                                             else Inr (append_box_hash_results results strict binding_compromised)))
                                    else Inr (append_box_hash_results results strict binding_compromised))))
              | _ \<Rightarrow> Inr (push_failure ASSERTION_BOXES_HASH_MALFORMED url ''no boxes field'' results)))"

section \<open>What a match establishes\<close>

text \<open>The run of boxes each entry consumes, and what has to hold of it.\<close>

fun entry_runs :: "box_span list \<Rightarrow> nat \<Rightarrow> cbor_value list \<Rightarrow> (cbor_value \<times> box_span list) list" where
  "entry_runs spans idx [] = []"
| "entry_runs spans idx (e # es) =
     (let idx' = idx + length (entry_names e) in (e, slice spans idx idx') # entry_runs spans idx' es)"

definition entry_digest_ok ::
    "digest \<Rightarrow> string option \<Rightarrow> asset_format \<Rightarrow> bytes \<Rightarrow> cbor_value \<Rightarrow> box_span list \<Rightarrow> bool" where
  "entry_digest_ok digest default_alg format data e run \<longleftrightarrow>
     (\<exists>alg ex expected. entry_alg default_alg e = Some alg
        \<and> parse_boxes (get_field e ''exclusions'') (map byte_len run) = Inr ex
        \<and> Option.bind (get_field e ''hash'') as_bytes = Some expected
        \<and> hash_box_entry digest alg data run ex format = Inr (Some expected))"

definition run_ok ::
    "digest \<Rightarrow> string option \<Rightarrow> asset_format \<Rightarrow> bytes \<Rightarrow> cbor_value \<times> box_span list \<Rightarrow> bool" where
  "run_ok digest default_alg format data = (\<lambda>(e, run).
     run \<noteq> [] \<and> map bs_name run = entry_names e
     \<and> (entry_excluded e \<or> entry_names e = [ascii ''C2PA''] \<or> entry_digest_ok digest default_alg format data e run))"

lemma consume_names_ok:
  "consume_names spans idx names = Inr idx' \<Longrightarrow> idx \<le> length spans \<Longrightarrow>
     idx' = idx + length names \<and> idx' \<le> length spans \<and> map bs_name (slice spans idx idx') = names"
proof (induction spans idx names rule: consume_names.induct)
  case (1 spans idx)
  then show ?case by (simp add: slice_def)
next
  case (2 spans idx name names)
  then have idx: "idx < length spans" and nm: "bs_name (spans ! idx) = name"
    and rest: "consume_names spans (idx + 1) names = Inr idx'"
    by (auto split: option.splits if_splits)
  have "nth_opt spans idx = Some (spans ! idx)" using idx by simp
  with "2.IH" nm rest idx have IH: "idx' = idx + 1 + length names" "idx' \<le> length spans" "map bs_name (slice spans (idx + 1) idx') = names"
    by auto
  have "slice spans idx idx' = spans ! idx # slice spans (idx + 1) idx'"
    using idx IH(1) by (simp add: slice_def Cons_nth_drop_Suc [symmetric])
  with IH nm show ?case by simp
qed

lemma box_entry_step_Inr:
  assumes "box_entry_step digest default_alg format data spans url st e = Inr st'" and "bx_idx st \<le> length spans"
  shows "bx_idx st' = bx_idx st + length (entry_names e)" and "bx_idx st' \<le> length spans"
    and "\<not> bx_mismatched st' \<Longrightarrow> \<not> bx_mismatched st
      \<and> run_ok digest default_alg format data (e, slice spans (bx_idx st) (bx_idx st'))"
    and "bx_c2pa_seen st' \<longleftrightarrow> bx_c2pa_seen st \<or> entry_names e = [ascii ''C2PA'']"
    and "success (bx_results st') = success (bx_results st)"
proof -
  from assms(1) obtain alg idx where alg: "entry_alg default_alg e = Some alg" and ne: "entry_names e \<noteq> []"
    and idx: "consume_names spans (bx_idx st) (entry_names e) = Inr idx" "bx_idx st' = idx"
    and seen: "bx_c2pa_seen st' = (bx_c2pa_seen st \<or> entry_names e = [ascii ''C2PA''])"
    and suc: "success (bx_results st') = success (bx_results st)"
    and cases: "\<not> bx_mismatched st' \<longrightarrow> \<not> bx_mismatched st \<and> (entry_excluded e \<or> entry_names e = [ascii ''C2PA'']
        \<or> entry_digest_ok digest default_alg format data e (slice spans (bx_idx st) idx))"
    by (auto simp: box_entry_step_def Let_def entry_digest_ok_def push_informational_def
        split: option.splits cbor_value.splits sum.splits if_splits range_error.splits)
  note c = consume_names_ok [OF idx(1) assms(2)]
  show "bx_idx st' = bx_idx st + length (entry_names e)" "bx_idx st' \<le> length spans" using c idx(2) by auto
  have names: "map bs_name (slice spans (bx_idx st) (bx_idx st')) = entry_names e" using c unfolding idx(2) by blast
  with ne have "slice spans (bx_idx st) (bx_idx st') \<noteq> []" by (metis list.map_disc_iff)
  then show "\<not> bx_mismatched st' \<Longrightarrow> \<not> bx_mismatched st
      \<and> run_ok digest default_alg format data (e, slice spans (bx_idx st) (bx_idx st'))"
    using names cases unfolding run_ok_def idx(2) [symmetric] by auto
  show "bx_c2pa_seen st' \<longleftrightarrow> bx_c2pa_seen st \<or> entry_names e = [ascii ''C2PA'']"
    "success (bx_results st') = success (bx_results st)"
    using seen suc by auto
qed

lemma box_entry_step_Inl:
  "box_entry_step digest default_alg format data spans url st e = Inl (BoxReturn r) \<Longrightarrow> success r = success (bx_results st)"
  by (auto simp: box_entry_step_def Let_def push_failure_def push_informational_def
      split: option.splits cbor_value.splits sum.splits if_splits range_error.splits)

lemma box_entries_ok:
  assumes "try_fold (box_entry_step digest default_alg format data spans url) st entries = Inr st'"
    and "bx_idx st \<le> length spans"
  shows "bx_idx st \<le> bx_idx st' \<and> bx_idx st' \<le> length spans
    \<and> concat (map snd (entry_runs spans (bx_idx st) entries)) = slice spans (bx_idx st) (bx_idx st')
    \<and> (\<not> bx_mismatched st' \<longrightarrow> \<not> bx_mismatched st
          \<and> list_all (run_ok digest default_alg format data) (entry_runs spans (bx_idx st) entries))
    \<and> (bx_c2pa_seen st' \<longleftrightarrow> bx_c2pa_seen st \<or> list_ex (\<lambda>e. entry_names e = [ascii ''C2PA'']) entries)
    \<and> success (bx_results st') = success (bx_results st)"
  using assms
proof (induction entries arbitrary: st)
  case Nil
  then show ?case by (simp add: slice_def)
next
  case (Cons e es)
  then obtain st1 where st1: "box_entry_step digest default_alg format data spans url st e = Inr st1"
    "try_fold (box_entry_step digest default_alg format data spans url) st1 es = Inr st'"
    by (auto simp: res_bind_eq_Inr)
  note step = box_entry_step_Inr [OF st1(1) Cons.prems(2)]
  note IH = Cons.IH [OF st1(2) step(2)]
  have "slice spans (bx_idx st) (bx_idx st') = slice spans (bx_idx st) (bx_idx st1) @ slice spans (bx_idx st1) (bx_idx st')"
    using IH step(1) by (simp add: slice_concat)
  with IH step show ?case by (auto simp: Let_def)
qed

lemma box_entries_exit:
  "try_fold (box_entry_step digest default_alg format data spans url) st entries = Inl (BoxReturn r)
     \<Longrightarrow> bx_idx st \<le> length spans \<Longrightarrow> success r = success (bx_results st)"
proof (induction entries arbitrary: st)
  case (Cons e es)
  show ?case
  proof (cases "box_entry_step digest default_alg format data spans url st e")
    case (Inl x)
    with Cons.prems box_entry_step_Inl show ?thesis by auto
  next
    case (Inr st1)
    note step = box_entry_step_Inr [OF Inr Cons.prems(2)]
    with Cons.IH [of st1] Cons.prems Inr show ?thesis by simp
  qed
qed simp

text \<open>A match: the entries consume the whole asset and every digest agrees.\<close>

lemma boxes_hash_match:
  assumes "verify_boxes_hash_with_spans digest entries default_alg format data spans label results = Inr r"
    and "\<not> has_success results ASSERTION_BOXES_HASH_MATCH" and "has_success r ASSERTION_BOXES_HASH_MATCH"
  shows "concat (map snd (entry_runs spans 0 entries)) = spans"
    and "list_all (run_ok digest default_alg format data) (entry_runs spans 0 entries)"
    and "list_ex (\<lambda>e. entry_names e = [ascii ''C2PA'']) entries"
proof -
  let ?st = "\<lparr>bx_idx = 0, bx_mismatched = False, bx_c2pa_seen = False, bx_results = results\<rparr>"
  let ?fold = "try_fold (box_entry_step digest default_alg format data spans (boxes_url label)) ?st entries"
  have "\<exists>st. ?fold = Inr st \<and> r = box_finish entries spans (boxes_url label) st"
  proof (cases ?fold)
    case (Inl x)
    then show ?thesis
      using assms box_entries_exit [of digest default_alg format data spans "boxes_url label" ?st entries r]
      by (cases x) (auto simp: verify_boxes_hash_with_spans_def has_success_def)
  qed (use assms(1) in \<open>simp add: verify_boxes_hash_with_spans_def\<close>)
  then obtain st where st: "?fold = Inr st" and r: "r = box_finish entries spans (boxes_url label) st" by blast
  note ok = box_entries_ok [OF st]
  have "bx_idx st = length spans \<and> \<not> bx_mismatched st \<and> bx_c2pa_seen st"
    using assms(2,3) ok unfolding r
    by (auto simp: box_finish_def has_success_def push_failure_def split: if_splits)
  with ok show "concat (map snd (entry_runs spans 0 entries)) = spans"
    "list_all (run_ok digest default_alg format data) (entry_runs spans 0 entries)"
    "list_ex (\<lambda>e. entry_names e = [ascii ''C2PA'']) entries"
    by auto
qed

section \<open>What an entry hashes\<close>

text \<open>
  The exclusions of an entry as ranges of the bytes from the start of its first box. For a run of boxes
  that tile a range of the asset, the entry's digest is that of the range without the exclusions.
\<close>

definition run_ranges :: "nat \<Rightarrow> box_span list \<Rightarrow> box_exclusion list \<Rightarrow> (nat \<times> nat) list" where
  "run_ranges a run xs = map (\<lambda>x. (bs_start (run ! be_box_index x) - a + be_start x, be_length x)) xs"

lemma seg_tiles_nth:
  assumes "seg_tiles a run b" and "i < length run"
  shows "a \<le> bs_start (run ! i) \<and> bs_start (run ! i) + byte_len (run ! i) \<le> b
    \<and> (\<forall>j. i < j \<and> j < length run \<longrightarrow> bs_start (run ! i) + byte_len (run ! i) \<le> bs_start (run ! j))"
  using assms
proof (induction run arbitrary: a i)
  case (Cons x run)
  from Cons.prems(1) have "is_contiguous x" by (simp add: seg_tiles_def)
  then obtain s e where "x = contiguous (bs_name x) s e" by (rule contiguous_cases)
  then obtain name where x: "x = contiguous name s e" by blast
  with Cons.prems(1) have t: "s = a" "a < e" "seg_tiles e run b" by auto
  have sx: "bs_start x = a" "byte_len x = e - a" using t by (simp_all add: x contiguous_def bs_start_def byte_len_def)
  show ?case
  proof (cases i)
    case 0
    have "e \<le> bs_start ((x # run) ! j)" if "0 < j" "j < length (x # run)" for j
      using Cons.IH [OF t(3), of "j - 1"] that by (cases j) auto
    with 0 sx t(2) seg_tiles_le [OF t(3)] show ?thesis by auto
  next
    case (Suc k)
    with Cons.prems(2) have k: "k < length run" by simp
    have "bs_start (run ! k) + byte_len (run ! k) \<le> bs_start ((x # run) ! j)" if "i < j" "j < length (x # run)" for j
      using Cons.IH [OF t(3) k] that Suc by (cases j) auto
    with Cons.IH [OF t(3) k] t(2) Suc show ?thesis by auto
  qed
qed simp

lemma box_item_ok:
  "box_item lens prev entry = Inr x \<Longrightarrow>
     be_box_index x < length lens \<and> be_start x + be_length x \<le> lens ! be_box_index x
     \<and> (case prev of Some (pb, pe) \<Rightarrow> pb < be_box_index x \<or> (pb = be_box_index x \<and> pe \<le> be_start x) | None \<Rightarrow> True)"
  by (auto simp: box_item_def res_bind_eq_Inr ok_or_eq_Inr split: if_splits option.splits)

lemma box_items_ranges:
  assumes "seg_tiles a run b" and "b \<le> usize_max"
    and "box_items (map byte_len run) prev items = Inr xs"
    and "case prev of Some (pb, pe) \<Rightarrow> pb < length run \<and> pe \<le> byte_len (run ! pb) | None \<Rightarrow> True"
  shows "list_all (\<lambda>x. be_box_index x < length run) xs
    \<and> ranges_ok (case prev of Some (pb, pe) \<Rightarrow> bs_start (run ! pb) - a + pe | None \<Rightarrow> 0) (run_ranges a run xs) (b - a)"
  using assms(3,4)
proof (induction items arbitrary: prev xs)
  case (Cons entry items)
  then obtain x xs' where x: "box_item (map byte_len run) prev entry = Inr x" and xs: "xs = x # xs'"
    and rest: "box_items (map byte_len run) (Some (be_box_index x, be_start x + be_length x)) items = Inr xs'"
    by (auto simp: res_bind_eq_Inr)
  note ok = box_item_ok [OF x]
  then have i: "be_box_index x < length run" "be_start x + be_length x \<le> byte_len (run ! be_box_index x)" by auto
  note n = seg_tiles_nth [OF assms(1) i(1)]
  note IH = Cons.IH [OF rest]
  have le: "(case prev of Some (pb, pe) \<Rightarrow> bs_start (run ! pb) - a + pe | None \<Rightarrow> 0)
      \<le> bs_start (run ! be_box_index x) - a + be_start x"
  proof (cases prev)
    case (Some pp)
    obtain pb pe where pp: "pp = (pb, pe)" by (cases pp)
    with Some Cons.prems(2) have pb: "pb < length run" "pe \<le> byte_len (run ! pb)" by auto
    show ?thesis using ok seg_tiles_nth [OF assms(1) pb(1)] i(1) pb(2) n by (auto simp: Some pp)
  qed simp
  have "bs_start (run ! be_box_index x) - a + be_start x + be_length x \<le> b - a" using n i(2) by linarith
  with le IH i assms(2) show ?case by (auto simp: xs run_ranges_def add.assoc)
qed (simp add: run_ranges_def)

lemma parse_boxes_ranges:
  assumes "seg_tiles a run b" and "b \<le> usize_max" and "parse_boxes v (map byte_len run) = Inr xs"
  shows "list_all (\<lambda>x. be_box_index x < length run) xs" and "ranges_ok 0 (run_ranges a run xs) (b - a)"
  using assms box_items_ranges [OF assms(1,2), of None]
  by (auto simp: parse_boxes_def res_bind_eq_Inr split: if_splits)

lemma layout_new_tiles:
  assumes "seg_tiles a run b" and "run \<noteq> []"
  shows "layout_new run = Some \<lparr>bl_ranges = [(a, b)], bl_offsets = map (\<lambda>sp. bs_start sp - a) run, bl_total = b - a\<rparr>"
proof -
  obtain x run' where run: "run = x # run'" using assms(2) by (cases run) auto
  then have "is_contiguous x" using assms(1) by (simp add: seg_tiles_def)
  then obtain s e where "x = contiguous (bs_name x) s e" by (rule contiguous_cases)
  then obtain name where x: "x = contiguous name s e" by blast
  have "bs_start x = a" using assms(1) by (simp add: run x) (simp add: contiguous_def bs_start_def)
  with assms seg_tiles_last(1) [OF assms] show ?thesis by (auto simp: layout_new_def run seg_tiles_def Let_def)
qed

lemma layout_update_contiguous:
  assumes "format \<noteq> Font" and "bl_ranges layout = [(a, b)]" and "a \<le> b" and "b \<le> length data"
    and "lo \<le> hi" and "hi \<le> b - a"
  shows "\<exists>h'. layout_update layout data lo hi spans format h = Inr h' \<and> h_alg h' = h_alg h
    \<and> h_input h' = h_input h @ slice (slice data a b) lo hi"
proof (cases "lo < hi")
  case True
  have "slice (slice data a b) lo hi = slice data (a + lo) (a + hi)"
    using assms slice_slice [of lo hi "b - a" data a] by simp
  with True assms show ?thesis
    by (auto simp: layout_update_def layout_step_def update_normalized_box_bytes_def hasher_update_range_def Let_def)
next
  case False
  with assms show ?thesis
    by (auto simp: layout_update_def layout_step_def Let_def slice_def)
qed

lemma box_skip_kept:
  assumes "format \<noteq> Font" and "bl_ranges layout = [(a, b)]" and "a \<le> b" and "b \<le> length data"
    and "bl_offsets layout = map (\<lambda>sp. bs_start sp - a) run" and "b \<le> usize_max"
    and "list_all (\<lambda>x. be_box_index x < length run) xs" and "ranges_ok p (run_ranges a run xs) (b - a)" and "p \<le> b - a"
  shows "\<exists>h' q. box_skip layout data spans format (h, p) xs = Inr (Some (h', q)) \<and> h_alg h' = h_alg h \<and> q \<le> b - a
    \<and> h_input h' @ drop q (slice data a b) = h_input h @ kept (slice data a b) p (run_ranges a run xs)"
  using assms(7-)
proof (induction xs arbitrary: h p)
  case Nil
  then show ?case by (simp add: run_ranges_def kept_Nil)
next
  case (Cons x xs)
  let ?s = "bs_start (run ! be_box_index x) - a + be_start x" and ?l = "be_length x" and ?d = "slice data a b"
  have len: "length ?d = b - a" using assms(3,4) by simp
  from Cons.prems have ok: "be_box_index x < length run" "p \<le> ?s" "?s + ?l \<le> b - a"
    "ranges_ok (?s + ?l) (run_ranges a run xs) (b - a)" "list_all (\<lambda>x. be_box_index x < length run) xs"
    by (auto simp: run_ranges_def)
  have er: "entry_range layout x = Some (?s, ?s + ?l)"
    using ok assms(5,6) by (auto simp: entry_range_def nth_opt_def checked_add_def)
  obtain h1 where h1: "layout_update layout data p ?s spans format h = Inr h1" "h_alg h1 = h_alg h"
    "h_input h1 = h_input h @ slice ?d p ?s"
    using layout_update_contiguous [OF assms(1-4) ok(2), of spans h] ok(3) by auto
  have "max p (?s + ?l) = ?s + ?l" using ok(2) by simp
  moreover have "kept ?d p (run_ranges a run (x # xs)) = slice ?d p ?s @ kept ?d (?s + ?l) (run_ranges a run xs)"
    using kept_Cons [OF ok(2), of ?l ?d "run_ranges a run xs"] ok(3,4) len by (simp add: run_ranges_def)
  ultimately show ?case using Cons.IH [OF ok(5,4,3), of h1] h1 er by auto
qed

lemma hash_box_entry_kept:
  assumes "format \<noteq> Font" and "seg_tiles a run b" and "run \<noteq> []" and "b \<le> length data" and "length data \<le> usize_max"
    and "parse_boxes v (map byte_len run) = Inr xs"
  shows "hash_box_entry digest alg data run xs format
    = Inr (hash_bytes digest alg (kept (slice data a b) 0 (run_ranges a run xs)))"
proof (cases "content_hash_algorithm_of alg")
  case None
  then show ?thesis by (simp add: hash_box_entry_def hasher_new_def hash_bytes_eq)
next
  case (Some al)
  let ?h = "\<lparr>h_alg = al, h_input = []\<rparr>" and ?d = "slice data a b"
  let ?layout = "\<lparr>bl_ranges = [(a, b)], bl_offsets = map (\<lambda>sp. bs_start sp - a) run, bl_total = b - a\<rparr>"
  have ab: "a \<le> b" by (rule seg_tiles_le [OF assms(2)])
  have b: "b \<le> usize_max" using assms(4,5) by simp
  note pr = parse_boxes_ranges [OF assms(2) b assms(6)]
  obtain h' q where s: "box_skip ?layout data run format (?h, 0) xs = Inr (Some (h', q))" "h_alg h' = al" "q \<le> b - a"
    "h_input h' @ drop q ?d = kept ?d 0 (run_ranges a run xs)"
    using box_skip_kept [OF assms(1), of ?layout a b data run xs 0 run ?h] ab assms(4) b pr by auto
  obtain h2 where h2: "layout_update ?layout data q (b - a) run format h' = Inr h2" "h_alg h2 = al"
    "h_input h2 = h_input h' @ slice ?d q (b - a)"
    using layout_update_contiguous [OF assms(1), of ?layout a b data q "b - a" run h'] ab assms(4) s(2,3) by auto
  have "slice ?d q (b - a) = drop q ?d" using assms(4) ab by (simp add: slice_to_end)
  with s h2 show ?thesis
    by (simp add: hash_box_entry_def hasher_new_def Some layout_new_tiles [OF assms(2,3)] hash_bytes_eq hasher_finalize_def)
qed

end
