(* ===== verification/Binding_Properties.thy ===== *)
theory Binding_Properties
  imports Box_Hash Format_Png
begin

text \<open>
  What the content bindings establish about an asset: the data hash with its exclusions, the claim
  signature box hash and the general box hash.
\<close>

section \<open>The data hash\<close>

text \<open>
  C4: exclusions that \<open>parse_data\<close> accepts for an asset never make the hashing loop index out of range, and the
  digest is that of the bytes that lie in no exclusion, in order.
\<close>

theorem data_hash_of_kept_bytes:
  assumes "parse_data v (length data) = Inr exclusions"
  shows "hash_with_exclusions digest alg data exclusions
    = Inr (hash_bytes digest alg (map (nth data) (filter (\<lambda>i. \<not> in_ranges i exclusions) [0..<length data])))"
  using hash_with_exclusions_kept [OF parse_data_ok [OF assms]] by (simp add: kept_def)

definition sample_exclusions :: cbor_value where
  "sample_exclusions = Array [Map [(Text (ascii ''start''), Integer 1), (Text (ascii ''length''), Integer 2)]]"

lemma sample_exclusions_parsed: "length data = 4 \<Longrightarrow> parse_data (Some sample_exclusions) (length data) = Inr [(1, 2)]"
  by (simp add: parse_data_def exclusion_items_def sample_exclusions_def MAX_DATA_HASH_EXCLUSIONS_def data_item_def
      nonnegative_usize_def ascii_eq_iff checked_add_def usize_max_def)

theorem data_hash_of_kept_bytes_witness:
  "hash_with_exclusions (\<lambda>_ x. x) ''sha256'' [10, 11, 12, 13] [(1, 2)] = Inr (Some [10, 13])"
proof -
  have "parse_data (Some sample_exclusions) (length ([10, 11, 12, 13] :: bytes)) = Inr [(1, 2)]" by (rule sample_exclusions_parsed) simp
  from data_hash_of_kept_bytes [OF this, of "\<lambda>_ x. x" "''sha256''"] show ?thesis
    by (simp add: hash_bytes_eq content_hash_algorithm_of_def in_ranges_def upt_rec)
qed

text \<open>
  C10: an accepted set of exclusions cannot hide content behind the manifest store: when an exclusion touches the
  carrier of the store, each of its bytes is a carrier byte or a zero.
\<close>

theorem exclusions_hide_only_padding:
  assumes "parse_data v (length data) = Inr exclusions"
    and "inspect_data_hash_exclusions format data exclusions store = Inr additional"
    and "\<forall>x \<in> set store. ex_start x + ex_length x \<le> length data" and "length data \<le> usize_max"
    and "(s, l) \<in> set exclusions" and "j \<in> {s..<s + l}" and "in_carrier store j" and "i \<in> {s..<s + l}"
  shows "data ! i = 0 \<or> in_carrier store i"
proof -
  have "\<forall>(s, l) \<in> set exclusions. s + l \<le> length data" using ranges_ok_within [OF parse_data_ok [OF assms(1)]] by auto
  moreover have "\<forall>x \<in> set store. ex_start x + ex_length x \<le> usize_max" using assms(3,4) by auto
  ultimately show ?thesis using inspect_exclusions_ok assms(2,5-8) by blast
qed

theorem exclusions_hide_only_padding_witness:
  "[10, 11, 0, 13] ! 2 = (0 :: 8 word) \<or> in_carrier [\<lparr>ex_start = 1, ex_length = 1\<rparr>] 2"
proof (rule exclusions_hide_only_padding)
  show "parse_data (Some sample_exclusions) (length ([10, 11, 0, 13] :: bytes)) = Inr [(1, 2)]" by (rule sample_exclusions_parsed) simp
  show "inspect_data_hash_exclusions Png [10, 11, 0, 13] [(1, 2)] [\<lparr>ex_start = 1, ex_length = 1\<rparr>] = Inr False"
    by (simp add: inspect_data_hash_exclusions_def inspect_step_def carrier_step_def padding_only_def List.map_filter_def
        checked_add_def usize_max_def slice_get_def slice_def)
  show "in_carrier [\<lparr>ex_start = 1, ex_length = 1\<rparr>] 1" by (simp add: in_carrier_def)
qed (auto simp: usize_max_def)

text \<open>
  The digest that the validator takes of a claim signature without re-serializing it is the digest of the content
  of the signature superbox the serializer writes.
\<close>

theorem claim_signature_box_digest:
  assumes "length cose + 16 \<le> usize_max"
  shows "hash_claim_signature_box digest alg cose
    = hash_bytes digest alg (description_box UUID_CLAIM_SIGNATURE LABEL_CLAIM_SIGNATURE None @ cbor_box cose)"
  using hash_claim_signature_box_eq [OF assms] by (simp add: LABEL_CLAIM_SIGNATURE_def)

theorem claim_signature_box_digest_witness:
  "hash_claim_signature_box (\<lambda>_ x. x) ''sha256'' [0xd2]
     = Some (description_box UUID_CLAIM_SIGNATURE LABEL_CLAIM_SIGNATURE None @ cbor_box [0xd2])"
  using claim_signature_box_digest [of "[0xd2]" "\<lambda>_ x. x" "''sha256''"]
  by (simp add: hash_bytes_eq content_hash_algorithm_of_def usize_max_def)

section \<open>The general box hash\<close>

lemma seg_tiles_concat:
  "seg_tiles a (concat rs) b \<Longrightarrow> r \<in> set rs \<Longrightarrow> \<exists>a' b'. seg_tiles a' r b' \<and> b' \<le> b"
proof (induction rs arbitrary: a)
  case (Cons x rs)
  then obtain m where m: "seg_tiles a x m" "seg_tiles m (concat rs) b" by (auto simp: seg_tiles_append)
  show ?case
  proof (cases "r = x")
    case True
    with m seg_tiles_le [OF m(2)] show ?thesis by blast
  qed (use Cons.IH [OF m(2)] Cons.prems(2) in auto)
qed simp

definition entry_binds :: "digest \<Rightarrow> string option \<Rightarrow> bytes \<Rightarrow> cbor_value \<Rightarrow> box_span list \<Rightarrow> bool" where
  "entry_binds digest default_alg data e run \<longleftrightarrow>
     (\<exists>a b alg xs expected. seg_tiles a run b \<and> b \<le> length data \<and> entry_alg default_alg e = Some alg
        \<and> parse_boxes (get_field e ''exclusions'') (map byte_len run) = Inr xs
        \<and> Option.bind (get_field e ''hash'') as_bytes = Some expected
        \<and> hash_bytes digest alg (kept (slice data a b) 0 (run_ranges a run xs)) = Some expected)"

lemma run_ok_binds:
  assumes "run_ok digest default_alg format data (e, run)" and "format \<noteq> Font" and "seg_tiles a run b" and "b \<le> length data"
    and "length data \<le> usize_max"
  shows "entry_excluded e \<or> entry_names e = [ascii ''C2PA''] \<or> entry_binds digest default_alg data e run"
proof -
  have ne: "run \<noteq> []" using assms(1) by (simp add: run_ok_def)
  have "entry_binds digest default_alg data e run" if "entry_digest_ok digest default_alg format data e run"
  proof -
    from that obtain alg xs ex where x: "entry_alg default_alg e = Some alg"
      "parse_boxes (get_field e ''exclusions'') (map byte_len run) = Inr xs"
      "Option.bind (get_field e ''hash'') as_bytes = Some ex" "hash_box_entry digest alg data run xs format = Inr (Some ex)"
      by (auto simp: entry_digest_ok_def)
    have "hash_bytes digest alg (kept (slice data a b) 0 (run_ranges a run xs)) = Some ex"
      using hash_box_entry_kept [OF assms(2,3) ne assms(4,5) x(2), of digest alg] x(4) by simp
    with x(1-3) assms(3,4) show ?thesis unfolding entry_binds_def by blast
  qed
  with assms(1) show ?thesis by (auto simp: run_ok_def)
qed

text \<open>The match of the assertion, over boxes that tile the asset.\<close>

lemma boxes_hash_match_entries:
  assumes "verify_boxes_hash_with_spans digest entries default_alg format data spans label results = Inr r"
    and "\<not> has_success results ASSERTION_BOXES_HASH_MATCH" and "has_success r ASSERTION_BOXES_HASH_MATCH"
    and "format \<noteq> Font" and "seg_tiles 0 spans (length data)" and "length data \<le> usize_max"
    and "(e, run) \<in> set (entry_runs spans 0 entries)"
  shows "entry_excluded e \<or> entry_names e = [ascii ''C2PA''] \<or> entry_binds digest default_alg data e run"
proof -
  note m = boxes_hash_match [OF assms(1-3)]
  have "run \<in> set (map snd (entry_runs spans 0 entries))" using assms(7) by force
  then obtain a b where "seg_tiles a run b" "b \<le> length data"
    using seg_tiles_concat [of 0 "map snd (entry_runs spans 0 entries)" "length data" run] assms(5) m(1) by auto
  moreover have "run_ok digest default_alg format data (e, run)" using m(2) assms(7) by (auto simp: list_all_iff)
  ultimately show ?thesis using run_ok_binds assms(4,6) by blast
qed

text \<open>
  C7: let the asset be of any container but a font, and let its boxes tile it from the first byte to the last. A box-hash match
  then means that the entries, in order, consume every box of the asset; that one of them is the manifest box; and that each
  entry which is neither that box nor declared excluded carries, under its algorithm, the digest of the bytes of its boxes
  that its own exclusions leave. A font is left out because its header and table directory lie in no box, and because the
  \<open>checkSumAdjustment\<close> field of its \<open>head\<close> table is hashed as zeros and not as it is in the file.
\<close>

theorem box_hash_match_binds:
  assumes "verify_boxes_hash_with_spans digest entries default_alg format data spans label results = Inr r"
    and "\<not> has_success results ASSERTION_BOXES_HASH_MATCH" and "has_success r ASSERTION_BOXES_HASH_MATCH"
    and "format \<noteq> Font" and "seg_tiles 0 spans (length data)" and "length data \<le> usize_max"
  shows "concat (map snd (entry_runs spans 0 entries)) = spans
    \<and> (\<exists>e \<in> set entries. entry_names e = [ascii ''C2PA''])
    \<and> (\<forall>(e, run) \<in> set (entry_runs spans 0 entries). map bs_name run = entry_names e
        \<and> (entry_excluded e \<or> entry_names e = [ascii ''C2PA''] \<or> entry_binds digest default_alg data e run))"
proof (intro conjI)
  note m = boxes_hash_match [OF assms(1-3)]
  show "concat (map snd (entry_runs spans 0 entries)) = spans" by (rule m(1))
  show "\<exists>e \<in> set entries. entry_names e = [ascii ''C2PA'']" using m(3) by (auto simp: list_ex_iff)
  show "\<forall>(e, run) \<in> set (entry_runs spans 0 entries). map bs_name run = entry_names e
      \<and> (entry_excluded e \<or> entry_names e = [ascii ''C2PA''] \<or> entry_binds digest default_alg data e run)"
    using boxes_hash_match_entries [OF assms] m(2) by (fastforce simp: list_all_iff run_ok_def)
qed

definition sample_entry :: "string \<Rightarrow> bytes \<Rightarrow> cbor_value" where
  "sample_entry name h = Map [(Text (ascii ''names''), Array [Text (ascii name)]), (Text (ascii ''hash''), Bytes h)]"

definition sample_entries :: "cbor_value list" where
  "sample_entries = [sample_entry ''head'' [10, 11], sample_entry ''C2PA'' []]"

definition sample_spans :: "box_span list" where
  "sample_spans = [contiguous (ascii ''head'') 0 2, contiguous (ascii ''C2PA'') 2 4]"

lemmas sample_simps = sample_entries_def sample_entry_def sample_spans_def entry_names_def entry_alg_def entry_excluded_def
  get_field_def text_field_def List.map_filter_def ascii_eq_iff

lemma sample_match:
  "verify_boxes_hash_with_spans (\<lambda>_ x. x) sample_entries (Some ''sha256'') Gif [10, 11, x, y] sample_spans (ascii ''m'') results_default
     = Inr (box_finish sample_entries sample_spans (boxes_url (ascii ''m''))
              \<lparr>bx_idx = Suc (Suc 0), bx_mismatched = False, bx_c2pa_seen = True, bx_results = results_default\<rparr>)"
  by (simp add: verify_boxes_hash_with_spans_def sample_simps box_entry_step_def contiguous_def slice_def
      parse_boxes_def exclusion_items_def MAX_DATA_HASH_EXCLUSIONS_def Let_def nth_opt_def byte_len_def
      hash_box_entry_def layout_new_def layout_update_def layout_step_def update_normalized_box_bytes_def hasher_update_range_def
      hasher_new_def content_hash_algorithm_of_def bs_start_def bs_end_def is_contiguous_def hasher_finalize_def hasher_update_def)

theorem box_hash_match_binds_witness:
  "concat (map snd (entry_runs sample_spans 0 sample_entries)) = sample_spans"
proof -
  have "has_success (box_finish sample_entries sample_spans (boxes_url (ascii ''m''))
      \<lparr>bx_idx = Suc (Suc 0), bx_mismatched = False, bx_c2pa_seen = True, bx_results = results_default\<rparr>) ASSERTION_BOXES_HASH_MATCH"
    by (simp add: box_finish_def sample_spans_def has_success_def push_success_def status_def)
  from box_hash_match_binds [OF sample_match [of 12 13] _ this] show ?thesis
    by (simp add: has_success_def results_default_def sample_spans_def usize_max_def)
qed

text \<open>The bytes of a run of boxes.\<close>

definition run_bytes :: "bytes \<Rightarrow> box_span list \<Rightarrow> bytes" where
  "run_bytes data run = concat (map (\<lambda>x. concat (map (\<lambda>(s, e). slice data s e) (bs_ranges x))) run)"

lemma entry_binds_run_bytes:
  assumes "entry_binds digest default_alg data e run" and "get_field e ''exclusions'' = None"
  obtains a where "Option.bind (entry_alg default_alg e) content_hash_algorithm_of = Some a"
    and "Option.bind (get_field e ''hash'') as_bytes = Some (digest a (run_bytes data run))"
proof -
  from assms(1) obtain x y alg xs ex where b: "seg_tiles x run y" "entry_alg default_alg e = Some alg"
    "parse_boxes (get_field e ''exclusions'') (map byte_len run) = Inr xs"
    "Option.bind (get_field e ''hash'') as_bytes = Some ex"
    "hash_bytes digest alg (kept (slice data x y) 0 (run_ranges x run xs)) = Some ex"
    unfolding entry_binds_def by blast
  have "xs = []" using b(3) assms(2) by (simp add: parse_boxes_def exclusion_items_def MAX_DATA_HASH_EXCLUSIONS_def)
  with b(5) have "hash_bytes digest alg (slice data x y) = Some ex" by (simp add: run_ranges_def kept_Nil)
  with b(2,4) seg_tiles_bytes [OF b(1), of data] that show ?thesis by (auto simp: hash_bytes_eq run_bytes_def)
qed

lemma entry_runs_nth:
  "i < length entries \<Longrightarrow> fst (entry_runs spans idx entries ! i) = entries ! i" "length (entry_runs spans idx entries) = length entries"
  by (induction entries arbitrary: idx i) (auto simp: Let_def nth_Cons split: nat.splits)

text \<open>
  The box hash is tamper evident: when two assets match the same entries, an entry that hashes its whole run
  selects runs of equal digest in both, so their bytes are equal unless the hash function collides on
  exactly these two inputs.
\<close>

theorem box_hash_tamper_evident:
  assumes "verify_boxes_hash_with_spans digest entries default_alg format data1 spans1 label results_default = Inr r1"
    and "verify_boxes_hash_with_spans digest entries default_alg format data2 spans2 label results_default = Inr r2"
    and "has_success r1 ASSERTION_BOXES_HASH_MATCH" and "has_success r2 ASSERTION_BOXES_HASH_MATCH" and "format \<noteq> Font"
    and "seg_tiles 0 spans1 (length data1)" and "seg_tiles 0 spans2 (length data2)"
    and "length data1 \<le> usize_max" and "length data2 \<le> usize_max" and "i < length entries"
    and "\<not> entry_excluded (entries ! i)" and "entry_names (entries ! i) \<noteq> [ascii ''C2PA'']"
    and "get_field (entries ! i) ''exclusions'' = None"
  shows "\<exists>a. digest a (run_bytes data1 (snd (entry_runs spans1 0 entries ! i)))
           = digest a (run_bytes data2 (snd (entry_runs spans2 0 entries ! i)))
    \<and> Option.bind (entry_alg default_alg (entries ! i)) content_hash_algorithm_of = Some a"
proof -
  have start: "\<not> has_success results_default ASSERTION_BOXES_HASH_MATCH" by (simp add: has_success_def results_default_def)
  have "entry_binds digest default_alg data (entries ! i) (snd (entry_runs spans 0 entries ! i))"
    if "verify_boxes_hash_with_spans digest entries default_alg format data spans label results_default = Inr r"
      "has_success r ASSERTION_BOXES_HASH_MATCH" "seg_tiles 0 spans (length data)" "length data \<le> usize_max"
    for data spans r
  proof -
    have "(entries ! i, snd (entry_runs spans 0 entries ! i)) \<in> set (entry_runs spans 0 entries)"
      using entry_runs_nth(1) [OF assms(10), of spans 0] entry_runs_nth(2) [of spans 0 entries] assms(10)
      by (metis nth_mem prod.collapse)
    with boxes_hash_match_entries [OF that(1) start that(2) assms(5) that(3,4)] assms(11,12) show ?thesis by blast
  qed
  from entry_binds_run_bytes [OF this [OF assms(1,3,6,8)] assms(13)] entry_binds_run_bytes [OF this [OF assms(2,4,7,9)] assms(13)]
  show ?thesis by (metis option.inject)
qed

theorem box_hash_tamper_evident_witness:
  "run_bytes [10, 11, 12, 13] (snd (entry_runs sample_spans 0 sample_entries ! 0))
     = run_bytes [10, 11, 98, 99] (snd (entry_runs sample_spans 0 sample_entries ! 0))"
proof -
  have m: "has_success (box_finish sample_entries sample_spans (boxes_url (ascii ''m''))
      \<lparr>bx_idx = Suc (Suc 0), bx_mismatched = False, bx_c2pa_seen = True, bx_results = results_default\<rparr>) ASSERTION_BOXES_HASH_MATCH"
    by (simp add: box_finish_def sample_spans_def has_success_def push_success_def status_def)
  have t: "seg_tiles 0 sample_spans (length ([10, 11, x, y] :: bytes))" "length ([10, 11, x, y] :: bytes) \<le> usize_max" for x y
    by (simp_all add: sample_spans_def usize_max_def)
  have "\<exists>a. (\<lambda>_ x. x) a (run_bytes [10, 11, 12, 13] (snd (entry_runs sample_spans 0 sample_entries ! 0)))
       = (\<lambda>_ x. x) a (run_bytes [10, 11, 98, 99] (snd (entry_runs sample_spans 0 sample_entries ! 0)))
     \<and> Option.bind (entry_alg (Some ''sha256'') (sample_entries ! 0)) content_hash_algorithm_of = Some a"
    by (rule box_hash_tamper_evident [OF sample_match sample_match m m _ t(1) t(1) t(2) t(2)])
      (simp_all add: sample_simps)
  then show ?thesis by simp
qed

section \<open>A box that is not hashed\<close>

lemma utf8_lossy_chunk_types: "utf8_lossy (ascii ''C2PA'') = ascii ''C2PA''" "utf8_lossy TYPE_IEND = ascii ''IEND''"
  unfolding TYPE_IEND_def by (rule utf8_lossy_valid, rule utf8_valid_ascii, simp add: ascii_def)+

lemma png_pieces_boxes:
  assumes "list_all piece_ok ps" and "ends_well ps []" and "length (concat (map piece_bytes ps)) + 8 \<le> usize_max"
  shows "png_walk_chunks (SIGNATURE @ concat (map piece_bytes ps)) = Inr (placed 8 ps)"
    and "png_check_signature (SIGNATURE @ concat (map piece_bytes ps)) = Inr ()"
proof -
  have "length SIGNATURE = 8" by (simp add: SIGNATURE_def)
  with png_chunks_placed [OF assms(1,2), of SIGNATURE] assms(3)
  show "png_walk_chunks (SIGNATURE @ concat (map piece_bytes ps)) = Inr (placed 8 ps)"
    and "png_check_signature (SIGNATURE @ concat (map piece_bytes ps)) = Inr ()"
    by (simp_all add: png_walk_chunks_def png_check_signature_def)
qed

text \<open>
  A PNG chunk of the literal type \<open>C2PA\<close> after the manifest chunk, of any content, is segmented as part of the
  manifest box, which no entry hashes, while extraction still returns the store of the \<open>caBX\<close> chunk alone.
\<close>

theorem png_c2pa_chunk_escapes:
  assumes "length store < 2 ^ 31" and "length payload < 2 ^ 31" and "length k1 = 4" and "length k2 = 4" and "length k3 = 4"
  defines "asset \<equiv> SIGNATURE @ concat (map piece_bytes [(TYPE_CABX, store, k1), (ascii ''C2PA'', payload, k2), (TYPE_IEND, [], k3)])"
  shows "png_box_spans asset = Inr [contiguous (ascii ''PNGh'') 0 8,
      contiguous (ascii ''C2PA'') 8 (32 + length store + length payload),
      contiguous (ascii ''IEND'') (32 + length store + length payload) (44 + length store + length payload)]
    \<and> png_extract asset = Inr (Some store)"
proof -
  let ?ps = "[(TYPE_CABX, store, k1), (ascii ''C2PA'', payload, k2), (TYPE_IEND, [], k3)]"
  have ok: "list_all piece_ok ?ps" using assms(1-5) by (simp add: TYPE_CABX_def TYPE_IEND_def)
  have ends: "ends_well ?ps []" by (simp add: ends_well_def TYPE_CABX_def TYPE_IEND_def ascii_eq_iff)
  have len: "length (concat (map piece_bytes ?ps)) = 36 + length store + length payload"
    using assms(3-5) by (simp add: TYPE_CABX_def TYPE_IEND_def)
  note w = png_pieces_boxes [OF ok ends]
  have types: "TYPE_CABX \<noteq> TYPE_IEND" "ascii ''C2PA'' \<noteq> TYPE_CABX" "ascii ''PNGh'' \<noteq> ascii ''C2PA''" "ascii ''IEND'' \<noteq> ascii ''C2PA''"
    by (simp_all add: TYPE_CABX_def TYPE_IEND_def ascii_eq_iff)
  have al: "length asset = 44 + length store + length payload" using len by (simp add: asset_def SIGNATURE_def)
  have walk: "png_walk_chunks asset = Inr (placed 8 ?ps)" "png_check_signature asset = Inr ()"
    using w len assms(1,2) by (simp_all add: asset_def usize_max_def)
  have "foldl png_push_span [contiguous (ascii ''PNGh'') 0 8] (placed 8 ?ps)
      = [contiguous (ascii ''PNGh'') 0 8, contiguous (ascii ''C2PA'') 8 (32 + length store + length payload),
         contiguous (ascii ''IEND'') (32 + length store + length payload) (44 + length store + length payload)]"
    using types
    by (simp add: png_push_span_def png_name_def utf8_lossy_chunk_types Let_def contiguous_def extend_to_def bs_end_def)
  then have "png_box_spans asset = Inr [contiguous (ascii ''PNGh'') 0 8,
      contiguous (ascii ''C2PA'') 8 (32 + length store + length payload),
      contiguous (ascii ''IEND'') (32 + length store + length payload) (44 + length store + length payload)]"
    by (simp add: png_box_spans_def walk al) (simp add: contiguous_def bs_end_def)
  moreover have "slice asset 16 (16 + length store) = store"
    by (simp add: asset_def SIGNATURE_def TYPE_CABX_def slice_def)
  then have "png_extract asset = Inr (Some store)" using types by (simp add: png_extract_def walk)
  ultimately show ?thesis ..
qed

theorem png_c2pa_chunk_escapes_witness:
  "png_extract (SIGNATURE @ concat (map piece_bytes [(TYPE_CABX, [1], [0, 0, 0, 0]), (ascii ''C2PA'', [2, 3], [0, 0, 0, 0]),
     (TYPE_IEND, [], [0, 0, 0, 0])])) = Inr (Some [1])"
  using png_c2pa_chunk_escapes [of "[1]" "[2, 3]" "[0, 0, 0, 0]" "[0, 0, 0, 0]" "[0, 0, 0, 0]"] by simp

end
