(* ===== verification/Merkle.thy ===== *)
theory Merkle
  imports Content_Hash
begin

unbundle bit_operations_syntax

text \<open>
  The Merkle climb of \<^verbatim>\<open>c2pa-validate/lib.rs\<close>: from a leaf of a fragmented asset to the row of tree nodes that the
  assertion stores. The tree itself is the abstract specification: rows of nodes, where a lone last node
  is promoted unchanged.
\<close>

section \<open>The climb\<close>

text \<open>
  The loop of \<open>merkle_climb\<close>: the derived hash, its index, the size of the row and what is left of the proof.
  The caller has excluded \<open>row_len = 0\<close>, so that the loop condition \<open>n > row_len\<close> implies \<open>n > 1\<close>.
\<close>

function climb_loop ::
    "digest \<Rightarrow> string \<Rightarrow> nat \<Rightarrow> bytes \<Rightarrow> nat \<Rightarrow> nat \<Rightarrow> bytes list \<Rightarrow> (bytes \<times> nat \<times> nat \<times> bytes list) option" where
  "climb_loop digest alg row_len h idx n proof =
     (if n > row_len \<and> n > 1 then
        let sibling = idx XOR 1
        in if sibling < n then
             (case proof of
                [] \<Rightarrow> None
              | s # proof' \<Rightarrow>
                  (case hash_bytes digest alg (if even idx then h @ s else s @ h) of
                     None \<Rightarrow> None
                   | Some h' \<Rightarrow> climb_loop digest alg row_len h' (idx div 2) ((n + 1) div 2) proof'))
           else climb_loop digest alg row_len h (idx div 2) ((n + 1) div 2) proof
      else Some (h, idx, n, proof))"
  by pat_completeness auto
termination
  by (relation "measure (\<lambda>(digest, alg, row_len, h, idx, n, proof). n)") auto

declare climb_loop.simps [simp del]

definition merkle_climb ::
    "digest \<Rightarrow> bytes \<Rightarrow> nat \<Rightarrow> nat \<Rightarrow> bytes list \<Rightarrow> nat \<Rightarrow> string \<Rightarrow> (nat \<times> bytes) option" where
  "merkle_climb digest leaf location count proof row_len alg =
     (if row_len = 0 \<or> count = 0 \<or> location \<ge> count then None
      else case climb_loop digest alg row_len leaf location count proof of
             None \<Rightarrow> None
           | Some (h, idx, n, rest) \<Rightarrow> if n \<noteq> row_len \<or> rest \<noteq> [] then None else Some (idx, h))"

section \<open>The tree\<close>

text \<open>The row above a row, the stored row, and the proof of a leaf.\<close>

fun next_row :: "(bytes \<Rightarrow> bytes) \<Rightarrow> bytes list \<Rightarrow> bytes list" where
  "next_row H (x # y # row) = H (x @ y) # next_row H row"
| "next_row H row = row"

lemma length_next_row: "length (next_row H row) = (length row + 1) div 2"
  by (induction H row rule: next_row.induct) auto

function stored_row :: "(bytes \<Rightarrow> bytes) \<Rightarrow> nat \<Rightarrow> bytes list \<Rightarrow> bytes list" where
  "stored_row H row_len row =
     (if length row > row_len \<and> length row > 1 then stored_row H row_len (next_row H row) else row)"
  by pat_completeness auto
termination
  by (relation "measure (\<lambda>(H, row_len, row). length row)") (auto simp: length_next_row)

declare stored_row.simps [simp del]

function proof_of :: "(bytes \<Rightarrow> bytes) \<Rightarrow> nat \<Rightarrow> bytes list \<Rightarrow> nat \<Rightarrow> bytes list" where
  "proof_of H row_len row i =
     (if length row > row_len \<and> length row > 1
      then (if i XOR 1 < length row then [row ! (i XOR 1)] else [])
           @ proof_of H row_len (next_row H row) (i div 2)
      else [])"
  by pat_completeness auto
termination
  by (relation "measure (\<lambda>(H, row_len, row, i). length row)") (auto simp: length_next_row)

declare proof_of.simps [simp del]

lemma nth_next_row:
  "i < length row \<Longrightarrow> next_row H row ! (i div 2)
     = (if i XOR 1 < length row
        then H (if even i then row ! i @ row ! (i XOR 1) else row ! (i XOR 1) @ row ! i) else row ! i)"
proof (induction H row arbitrary: i rule: next_row.induct)
  case (1 H x y row)
  show ?case
  proof (cases "i < 2")
    case True
    then consider "i = 0" | "i = 1" by linarith
    then show ?thesis by cases (auto simp: xor_Suc_0_eq)
  next
    case False
    then obtain j where i: "i = Suc (Suc j)" by (metis add_2_eq_Suc' le_Suc_ex not_less numeral_2_eq_2 add_Suc add_0)
    have x: "Suc (Suc j) XOR Suc 0 = Suc (Suc (j XOR Suc 0))" by (cases "even j") (auto simp: xor_Suc_0_eq elim: oddE)
    from 1 i show ?thesis by (simp add: x del: xor_Suc_0_eq)
  qed
qed (auto simp: xor_Suc_0_eq)

text \<open>The index, in the stored row, of the ancestor of leaf \<open>i\<close> of a row of \<open>n\<close>.\<close>

function ancestor :: "nat \<Rightarrow> nat \<Rightarrow> nat \<Rightarrow> nat" where
  "ancestor row_len n i = (if n > row_len \<and> n > 1 then ancestor row_len ((n + 1) div 2) (i div 2) else i)"
  by pat_completeness auto
termination
  by (relation "measure (\<lambda>(row_len, n, i). n)") auto

declare ancestor.simps [simp del]

lemma climb_stored_row:
  assumes "content_hash_algorithm_of alg = Some a" and "i < length row"
  shows "climb_loop digest alg row_len (row ! i) i (length row) (proof_of (digest a) row_len row i)
      = Some (stored_row (digest a) row_len row ! ancestor row_len (length row) i, ancestor row_len (length row) i,
              length (stored_row (digest a) row_len row), [])"
  using assms(2)
proof (induction "digest a" row_len row i rule: proof_of.induct)
  case (1 row_len row i)
  show ?case
  proof (cases "length row > row_len \<and> length row > 1")
    case True
    then have up: "stored_row (digest a) row_len row = stored_row (digest a) row_len (next_row (digest a) row)"
      "ancestor row_len (length row) i = ancestor row_len (length (next_row (digest a) row)) (i div 2)"
      by (subst stored_row.simps ancestor.simps, simp add: length_next_row)+
    have pf: "proof_of (digest a) row_len row i = (if i XOR 1 < length row then [row ! (i XOR 1)] else [])
           @ proof_of (digest a) row_len (next_row (digest a) row) (i div 2)"
      using True by (subst proof_of.simps) simp
    have "i div 2 < length (next_row (digest a) row)" using "1.prems" by (simp add: length_next_row)
    note IH = "1.hyps" [OF True this]
    show ?thesis
    proof (cases "i XOR 1 < length row")
      case sib: True
      have "hash_bytes digest alg (if even i then row ! i @ row ! (i XOR 1) else row ! (i XOR 1) @ row ! i)
          = Some (next_row (digest a) row ! (i div 2))"
        using nth_next_row [OF "1.prems", of "digest a"] sib by (simp add: hash_bytes_eq assms(1))
      with IH True sib show ?thesis
        unfolding pf up by (subst climb_loop.simps) (auto simp: length_next_row Let_def split: if_splits)
    next
      case False
      with IH True nth_next_row [OF "1.prems", of "digest a"] show ?thesis
        unfolding pf up by (subst climb_loop.simps) (simp add: length_next_row Let_def)
    qed
  next
    case False
    then have "stored_row (digest a) row_len row = row" "proof_of (digest a) row_len row i = []"
      "ancestor row_len (length row) i = i"
      "climb_loop digest alg row_len (row ! i) i (length row) [] = Some (row ! i, i, length row, [])"
      by (subst stored_row.simps proof_of.simps ancestor.simps climb_loop.simps, auto)+
    then show ?thesis by simp
  qed
qed

section \<open>Forging a leaf\<close>

text \<open>The byte strings a climb hashes, from the leaf upwards.\<close>

function climb_inputs :: "(bytes \<Rightarrow> bytes) \<Rightarrow> nat \<Rightarrow> bytes \<Rightarrow> nat \<Rightarrow> nat \<Rightarrow> bytes list \<Rightarrow> bytes list" where
  "climb_inputs H row_len h idx n proof =
     (if n > row_len \<and> n > 1 then
        if idx XOR 1 < n then
          (case proof of
             [] \<Rightarrow> []
           | s # proof' \<Rightarrow>
               let x = (if even idx then h @ s else s @ h)
               in x # climb_inputs H row_len (H x) (idx div 2) ((n + 1) div 2) proof')
        else climb_inputs H row_len h (idx div 2) ((n + 1) div 2) proof
      else [])"
  by pat_completeness auto
termination
  by (relation "measure (\<lambda>(H, row_len, h, idx, n, proof). n)") auto

declare climb_inputs.simps [simp del]

definition collides :: "(bytes \<Rightarrow> bytes) \<Rightarrow> bytes list \<Rightarrow> bytes list \<Rightarrow> bool" where
  "collides H xs ys \<longleftrightarrow> list_ex (\<lambda>(x, y). x \<noteq> y \<and> H x = H y) (zip xs ys)"

lemma collides_Cons [simp]: "collides H (x # xs) (y # ys) \<longleftrightarrow> x \<noteq> y \<and> H x = H y \<or> collides H xs ys"
  by (auto simp: collides_def)

lemma climb_unforgeable:
  assumes "content_hash_algorithm_of alg = Some a" and "\<forall>x. length (digest a x) = digest_len a"
    and "climb_loop digest alg row_len h idx n pf = Some (r, j, m, [])"
    and "climb_loop digest alg row_len h' idx n pf' = Some (r, j', m', [])"
    and "length h = length h'"
  shows "h = h' \<and> pf = pf'
    \<or> collides (digest a) (climb_inputs (digest a) row_len h idx n pf) (climb_inputs (digest a) row_len h' idx n pf')"
  using assms(3-5)
proof (induction n arbitrary: h h' idx pf pf' rule: less_induct)
  case (less n)
  show ?case
  proof (cases "n > row_len \<and> n > 1")
    case False
    then have "climb_loop digest alg row_len g idx n q = Some (g, idx, n, q)" for g q
      by (subst climb_loop.simps) auto
    with less.prems show ?thesis by simp
  next
    case True
    then have "(n + 1) div 2 < n" by linarith
    note IH = less.IH [OF this]
    show ?thesis
    proof (cases "idx XOR 1 < n")
      case sib: True
      define inp where "inp g s = (if even idx then g @ s else s @ g)" for g s :: bytes
      have step: "climb_loop digest alg row_len g idx n q = (case q of [] \<Rightarrow> None
          | s # q' \<Rightarrow> climb_loop digest alg row_len (digest a (inp g s)) (idx div 2) ((n + 1) div 2) q')" for g q
        using True sib by (subst climb_loop.simps) (auto simp: hash_bytes_eq assms(1) inp_def Let_def split: list.splits)
      have inputs: "climb_inputs (digest a) row_len g idx n (s # q)
          = inp g s # climb_inputs (digest a) row_len (digest a (inp g s)) (idx div 2) ((n + 1) div 2) q" for g s q
        using True sib by (subst climb_inputs.simps) (auto simp: inp_def Let_def)
      from less.prems(1,2) obtain s q s' q' where p: "pf = s # q" "pf' = s' # q'"
        "climb_loop digest alg row_len (digest a (inp h s)) (idx div 2) ((n + 1) div 2) q = Some (r, j, m, [])"
        "climb_loop digest alg row_len (digest a (inp h' s')) (idx div 2) ((n + 1) div 2) q' = Some (r, j', m', [])"
        by (auto simp: step split: list.splits)
      have "length (digest a (inp h s)) = length (digest a (inp h' s'))" using assms(2) by simp
      from IH [OF p(3,4) this] have "digest a (inp h s) = digest a (inp h' s') \<and> q = q'
          \<or> collides (digest a) (climb_inputs (digest a) row_len (digest a (inp h s)) (idx div 2) ((n + 1) div 2) q)
              (climb_inputs (digest a) row_len (digest a (inp h' s')) (idx div 2) ((n + 1) div 2) q')" .
      moreover have "h = h' \<and> s = s'" if "inp h s = inp h' s'"
        using that less.prems(3) by (auto simp: inp_def split: if_splits)
      ultimately show ?thesis by (auto simp: p(1,2) inputs)
    next
      case False
      with True have "climb_loop digest alg row_len g idx n q = climb_loop digest alg row_len g (idx div 2) ((n + 1) div 2) q"
        "climb_inputs (digest a) row_len g idx n q = climb_inputs (digest a) row_len g (idx div 2) ((n + 1) div 2) q" for g q
        by (subst climb_loop.simps climb_inputs.simps, auto)+
      with IH less.prems show ?thesis by simp
    qed
  qed
qed

section \<open>Properties\<close>

text \<open>
  The climb accepts every honest proof: for each leaf of a tree and each of its rows the sibling hashes on the
  path lead to the node of that row above the leaf. No proof hash is consumed for a promoted node.
\<close>

theorem merkle_climb_complete:
  assumes "content_hash_algorithm_of alg = Some a" and "i < length leaves" and "row_len > 0"
    and "length (stored_row (digest a) row_len leaves) = row_len"
  shows "merkle_climb digest (leaves ! i) i (length leaves) (proof_of (digest a) row_len leaves i) row_len alg
    = Some (ancestor row_len (length leaves) i, stored_row (digest a) row_len leaves ! ancestor row_len (length leaves) i)"
  using climb_stored_row [OF assms(1,2), of digest row_len] assms(2-4) by (auto simp: merkle_climb_def)

definition sample_hash :: digest where
  "sample_hash = (\<lambda>_ x. [fold (\<lambda>b s. 3 * s + b) x 1])"

theorem merkle_climb_complete_witness:
  "merkle_climb sample_hash [3] 2 3 (proof_of (sample_hash Sha256) 1 [[1], [2], [3]] 2) 1 ''sha256''
     = Some (ancestor 1 3 2, stored_row (sample_hash Sha256) 1 [[1], [2], [3]] ! ancestor 1 3 2)"
proof -
  have "length (stored_row (sample_hash Sha256) 1 [[1], [2], [3]]) = 1"
    by (simp add: stored_row.simps [of "sample_hash Sha256"])
  with merkle_climb_complete [of "''sha256''" Sha256 2 "[[1], [2], [3]]" 1 sample_hash] show ?thesis
    by (simp add: content_hash_algorithm_of_def numeral_2_eq_2 numeral_3_eq_3)
qed

text \<open>
  C18: a leaf cannot be forged: when two leaves of digest length are accepted at the same place of a tree with the same
  resulting node, the leaves and the proofs are equal, or the two climbs contain different inputs of
  equal digest at the same level.
\<close>

theorem merkle_climb_unforgeable:
  assumes "content_hash_algorithm_of alg = Some a" and "\<forall>x. length (digest a x) = digest_len a"
    and "length leaf = digest_len a" and "length leaf' = digest_len a"
    and "merkle_climb digest leaf i count pf row_len alg = Some (j, node)"
    and "merkle_climb digest leaf' i count pf' row_len alg = Some (j', node)"
  shows "leaf = leaf' \<and> pf = pf'
    \<or> collides (digest a) (climb_inputs (digest a) row_len leaf i count pf) (climb_inputs (digest a) row_len leaf' i count pf')"
proof -
  have "\<exists>m k. climb_loop digest alg row_len l i count q = Some (node, m, k, [])"
    if "merkle_climb digest l i count q row_len alg = Some (x, node)" for l q x
    using that by (auto simp: merkle_climb_def split: if_splits option.splits)
  with assms(5,6) obtain m k m' k' where "climb_loop digest alg row_len leaf i count pf = Some (node, m, k, [])"
    "climb_loop digest alg row_len leaf' i count pf' = Some (node, m', k', [])" by blast
  from climb_unforgeable [OF assms(1,2) this] assms(3,4) show ?thesis by simp
qed

definition wide_hash :: digest where
  "wide_hash = (\<lambda>a x. replicate (digest_len a) (fold (+) x 0))"

theorem merkle_climb_unforgeable_witness:
  "collides (wide_hash Sha256) (climb_inputs (wide_hash Sha256) 1 (replicate 32 0) 0 2 [[1]])
     (climb_inputs (wide_hash Sha256) 1 (replicate 32 0) 0 2 [[0, 1]])"
proof -
  let ?pf' = "[[0, 1]] :: bytes list"
  have climb: "merkle_climb wide_hash (replicate 32 0) 0 2 [s] 1 ''sha256''
      = Some (0, wide_hash Sha256 (replicate 32 0 @ s))" for s
    by (simp add: merkle_climb_def climb_loop.simps [of wide_hash] content_hash_algorithm_of_def hash_bytes_eq Let_def)
  have "wide_hash Sha256 (replicate 32 0 @ [1]) = wide_hash Sha256 (replicate 32 0 @ [0, 1])"
    by (simp add: wide_hash_def)
  with climb [of "[1]"] climb [of "[0, 1]"]
  have "replicate 32 0 = (replicate 32 0 :: bytes) \<and> [[1]] = ?pf'
    \<or> collides (wide_hash Sha256) (climb_inputs (wide_hash Sha256) 1 (replicate 32 0) 0 2 [[1]])
         (climb_inputs (wide_hash Sha256) 1 (replicate 32 0) 0 2 ?pf')"
    by (intro merkle_climb_unforgeable [of "''sha256''" Sha256]) (simp_all add: content_hash_algorithm_of_def wide_hash_def)
  then show ?thesis by simp
qed

end
