(* ===== verification/Revocation.thy ===== *)
theory Revocation
  imports C2pa_Prelude "HOL-Library.Option_ord" "HOL-Library.Product_Lexorder"
begin

text \<open>
  Revocation evidence: the merge of OCSP statuses in \<^verbatim>\<open>c2pa-trust/ocsp.rs\<close> and the evidence kept for one certificate in
  \<^verbatim>\<open>c2pa-validate/revocation.rs\<close>. An instant is its number of nanoseconds, on which \<open>OffsetDateTime\<close> is ordered.
\<close>

section \<open>Statuses\<close>

datatype ocsp_revocation_reason =
    Unspecified | KeyCompromise | CaCompromise | AffiliationChanged | Superseded | CessationOfOperation
  | CertificateHold | RemoveFromCrl | PrivilegeWithdrawn | AaCompromise | UnknownReason "8 word"

definition reason_from_code :: "8 word \<Rightarrow> ocsp_revocation_reason" where
  "reason_from_code code =
     (if code = 0 then Unspecified else if code = 1 then KeyCompromise else if code = 2 then CaCompromise
      else if code = 3 then AffiliationChanged else if code = 4 then Superseded else if code = 5 then CessationOfOperation
      else if code = 6 then CertificateHold else if code = 8 then RemoveFromCrl else if code = 9 then PrivilegeWithdrawn
      else if code = 10 then AaCompromise else UnknownReason code)"

text \<open>The derived order: variants in order of declaration, then the payload.\<close>

fun reason_rank :: "ocsp_revocation_reason \<Rightarrow> nat" where
  "reason_rank Unspecified = 0"
| "reason_rank KeyCompromise = 1"
| "reason_rank CaCompromise = 2"
| "reason_rank AffiliationChanged = 3"
| "reason_rank Superseded = 4"
| "reason_rank CessationOfOperation = 5"
| "reason_rank CertificateHold = 6"
| "reason_rank RemoveFromCrl = 7"
| "reason_rank PrivilegeWithdrawn = 8"
| "reason_rank AaCompromise = 9"
| "reason_rank (UnknownReason c) = 10 + unat c"

lemma reason_rank_inject: "reason_rank a = reason_rank b \<Longrightarrow> a = b"
  by (cases a; cases b) (auto intro: word_unat_eq_iff [THEN iffD2])

instantiation ocsp_revocation_reason :: linorder
begin

definition less_eq_ocsp_revocation_reason :: "ocsp_revocation_reason \<Rightarrow> ocsp_revocation_reason \<Rightarrow> bool" where
  "less_eq_ocsp_revocation_reason a b = (reason_rank a \<le> reason_rank b)"

definition less_ocsp_revocation_reason :: "ocsp_revocation_reason \<Rightarrow> ocsp_revocation_reason \<Rightarrow> bool" where
  "less_ocsp_revocation_reason a b = (reason_rank a < reason_rank b)"

instance
  by standard
    (auto simp: less_eq_ocsp_revocation_reason_def less_ocsp_revocation_reason_def intro: reason_rank_inject)

end

datatype ocsp_status = Good | Revoked (revocation_time: int) (reason: "ocsp_revocation_reason option") | UnknownStatus

fun decisive :: "ocsp_status option \<Rightarrow> ocsp_status option" where
  "decisive None = None"
| "decisive (Some UnknownStatus) = None"
| "decisive (Some Good) = Some Good"
| "decisive (Some (Revoked t r)) = (if r = Some RemoveFromCrl then Some Good else Some (Revoked t r))"

fun earlier :: "ocsp_status option \<Rightarrow> ocsp_status option \<Rightarrow> ocsp_status option" where
  "earlier (Some (Revoked t r)) (Some (Revoked t' r')) = Some (if (t, r) \<le> (t', r') then Revoked t r else Revoked t' r')"
| "earlier (Some (Revoked t r)) _ = Some (Revoked t r)"
| "earlier _ (Some (Revoked t r)) = Some (Revoked t r)"
| "earlier (Some Good) _ = Some Good"
| "earlier _ (Some Good) = Some Good"
| "earlier _ _ = None"

definition merge_status :: "ocsp_status option \<Rightarrow> ocsp_status option \<Rightarrow> ocsp_status option" where
  "merge_status accumulated candidate = earlier (decisive accumulated) (decisive candidate)"

section \<open>Evidence of one certificate\<close>

record certificate_evidence =
  ce_merged :: "ocsp_status option"
  ce_any_good :: bool

definition evidence_default :: certificate_evidence where
  "evidence_default = \<lparr>ce_merged = None, ce_any_good = False\<rparr>"

definition absorb :: "ocsp_status option \<Rightarrow> certificate_evidence \<Rightarrow> certificate_evidence" where
  "absorb candidate ev =
     \<lparr>ce_merged = merge_status (ce_merged ev) candidate,
      ce_any_good = (ce_any_good ev \<or> merge_status None candidate = Some Good)\<rparr>"

definition resolve :: "certificate_evidence \<Rightarrow> bool \<Rightarrow> ocsp_status option \<times> bool" where
  "resolve ev any_good_wins =
     (let outranked = (any_good_wins \<and> ce_any_good ev \<and> (case ce_merged ev of Some (Revoked _ _) \<Rightarrow> True | _ \<Rightarrow> False))
      in if outranked then (Some Good, True) else (ce_merged ev, False))"

text \<open>The evidence after a sequence of responses.\<close>

definition evidence_of :: "ocsp_status option list \<Rightarrow> certificate_evidence" where
  "evidence_of responses = fold absorb responses evidence_default"

section \<open>The merge is a semilattice\<close>

text \<open>The merge is associative, commutative and idempotent on what the statuses decide.\<close>

lemma decisive_idem [simp]: "decisive (decisive x) = decisive x"
  by (cases x rule: decisive.cases) auto

lemma decisive_earlier [simp]: "decisive (earlier (decisive x) (decisive y)) = earlier (decisive x) (decisive y)"
  by (cases x rule: decisive.cases; cases y rule: decisive.cases) auto

lemma earlier_comm: "earlier (decisive x) (decisive y) = earlier (decisive y) (decisive x)"
  by (cases x rule: decisive.cases; cases y rule: decisive.cases) (auto simp: less_eq_prod_def)

lemma earlier_idem: "earlier (decisive x) (decisive x) = decisive x"
  by (cases x rule: decisive.cases) auto

lemma earlier_assoc:
  "earlier (earlier (decisive x) (decisive y)) (decisive z) = earlier (decisive x) (earlier (decisive y) (decisive z))"
  by (cases x rule: decisive.cases; cases y rule: decisive.cases; cases z rule: decisive.cases) (auto dest: order_trans)

lemma merge_status_assoc: "merge_status (merge_status x y) z = merge_status x (merge_status y z)"
  by (simp add: merge_status_def earlier_assoc)

lemma merge_status_comm: "merge_status x y = merge_status y x"
  by (simp add: merge_status_def earlier_comm)

lemma merge_status_absorbs: "merge_status (merge_status x y) y = merge_status x y"
  using earlier_assoc [of x y y] by (simp add: merge_status_def earlier_idem)

interpretation evidence: comp_fun_idem absorb
proof
  show "absorb y \<circ> absorb x = absorb x \<circ> absorb y" for x y
    using merge_status_assoc merge_status_comm by (simp add: fun_eq_iff absorb_def) metis
  show "absorb x \<circ> absorb x = absorb x" for x
    by (auto simp: fun_eq_iff absorb_def merge_status_absorbs)
qed

lemma evidence_of_set: "evidence_of responses = Finite_Set.fold absorb evidence_default (set responses)"
  by (simp add: evidence_of_def evidence.fold_set_fold)

section \<open>What the evidence says\<close>

text \<open>The revocations among the responses, as pairs of time and reason, and whether one is affirmative.\<close>

definition revocations :: "ocsp_status option list \<Rightarrow> (int \<times> ocsp_revocation_reason option) set" where
  "revocations responses = {(t, r). Some (Revoked t r) \<in> set responses \<and> r \<noteq> Some RemoveFromCrl}"

definition good_seen :: "ocsp_status option list \<Rightarrow> bool" where
  "good_seen responses \<longleftrightarrow> (\<exists>x \<in> set responses. decisive x = Some Good)"

lemma finite_revocations [simp]: "finite (revocations responses)"
proof -
  have "revocations responses \<subseteq> (\<lambda>x. case x of Some (Revoked t r) \<Rightarrow> (t, r) | _ \<Rightarrow> undefined) ` set responses"
    by (force simp: revocations_def)
  then show ?thesis by (rule finite_subset) simp
qed

lemma revocations_snoc:
  "revocations (xs @ [x]) = (case decisive x of Some (Revoked t r) \<Rightarrow> insert (t, r) (revocations xs) | _ \<Rightarrow> revocations xs)"
  by (cases x rule: decisive.cases) (auto simp: revocations_def)

lemma revocations_Nil [simp]: "revocations [] = {}" "\<not> good_seen []"
  by (simp_all add: revocations_def good_seen_def)

lemma good_seen_snoc: "good_seen (xs @ [x]) \<longleftrightarrow> good_seen xs \<or> decisive x = Some Good"
  by (auto simp: good_seen_def)

lemma revocations_not_removed: "(t, r) \<in> revocations xs \<Longrightarrow> r \<noteq> Some RemoveFromCrl"
  by (simp add: revocations_def)

lemma evidence_of_snoc: "evidence_of (xs @ [x]) = absorb x (evidence_of xs)"
  by (simp add: evidence_of_def)

lemma evidence_any_good: "ce_any_good (evidence_of xs) = good_seen xs"
proof (induction xs rule: rev_induct)
  case (snoc x xs)
  have "merge_status None x = decisive x" by (cases x rule: decisive.cases) (auto simp: merge_status_def)
  with snoc show ?case by (simp add: evidence_of_snoc absorb_def good_seen_snoc)
qed (simp add: evidence_of_def evidence_default_def)

lemma evidence_merged:
  "ce_merged (evidence_of xs) =
     (if revocations xs \<noteq> {} then Some (case Min (revocations xs) of (t, r) \<Rightarrow> Revoked t r)
      else if good_seen xs then Some Good else None)" (is "_ = ?spec xs")
proof (induction xs rule: rev_induct)
  case (snoc x xs)
  have merged: "ce_merged (evidence_of (xs @ [x])) = earlier (decisive (?spec xs)) (decisive x)"
    using snoc by (simp add: evidence_of_snoc absorb_def merge_status_def)
  have d: "decisive (?spec xs) = ?spec xs"
  proof (cases "revocations xs = {}")
    case False
    then have "Min (revocations xs) \<in> revocations xs" by simp
    then show ?thesis by (cases "Min (revocations xs)") (auto dest: revocations_not_removed)
  qed simp
  have m: "min p q = (if q \<le> p then q else p)" for p q :: "int \<times> ocsp_revocation_reason option"
    using linear [of p q] by (auto simp: min_def)
  obtain t r where tr: "Min (revocations xs) = (t, r)" by (cases "Min (revocations xs)")
  show ?case unfolding merged d
    by (cases x rule: decisive.cases; cases "revocations xs = {}")
      (simp_all add: revocations_snoc good_seen_snoc m tr)
qed (simp add: evidence_of_def evidence_default_def)

text \<open>
  C37: the resolved revocation status depends on the set of responses only, in no order: the earliest revocation that
  was not lifted wins; a good response outranks it only under the posture that asks for that, and then the
  conflict is reported; with no revocation, one good response settles the status.
\<close>

theorem resolve_evidence:
  "resolve (evidence_of responses) any_good_wins =
     (if revocations responses \<noteq> {} \<and> \<not> (any_good_wins \<and> good_seen responses)
      then (Some (case Min (revocations responses) of (t, r) \<Rightarrow> Revoked t r), False)
      else if good_seen responses then (Some Good, revocations responses \<noteq> {})
      else (None, False))"
  by (simp add: resolve_def evidence_merged evidence_any_good split: prod.splits)

end
