(* ===== verification/Verify_Cache.thy ===== *)
theory Verify_Cache
  imports Content_Hash Validation_Results Engine_Profile "HOL-Library.AList"
begin

text \<open>
  The result cache of \<^verbatim>\<open>c2pa-validate/cache.rs\<close>: an LRU of verification results under a digest of the request, with a
  time to live per entry. The clock reading of each operation is an argument, and so are the SHA-256
  function, the verification itself and the JSON printer. Instants of the clock are natural numbers,
  whose difference is zero for a reading before the insertion, as \<open>duration_since\<close> has it.
\<close>

section \<open>Requests\<close>

datatype anchor_purpose = ClaimSigning | TimeStamping | CawgIdentity

fun purpose_code :: "anchor_purpose \<Rightarrow> 8 word" where
  "purpose_code ClaimSigning = 0"
| "purpose_code TimeStamping = 1"
| "purpose_code CawgIdentity = 2"

datatype cawg_trust_source = SmimeInterim | EncypherVerifiedOrganizations | CallerSupplied

fun cawg_source_label :: "cawg_trust_source \<Rightarrow> string" where
  "cawg_source_label SmimeInterim = ''smime_interim''"
| "cawg_source_label EncypherVerifiedOrganizations = ''encypher_verified_organizations''"
| "cawg_source_label CallerSupplied = ''caller_supplied''"

definition cawg_source_interim :: "cawg_trust_source \<Rightarrow> bool" where
  "cawg_source_interim s \<longleftrightarrow> s = SmimeInterim"

text \<open>The bounds of an anchor are instants in nanoseconds.\<close>

record trust_anchor =
  ta_certificate :: bytes
  ta_purpose :: anchor_purpose
  ta_not_before :: "int option"
  ta_not_after :: "int option"
  ta_cawg_source :: cawg_trust_source
  ta_source :: "trust_source option"

type_synonym trust_list = "trust_anchor list"

record online_evidence =
  oe_ocsp_responses :: "(string \<times> bytes) list option"
  oe_ocsp_unreachable :: "string list option"
  oe_external_data :: "(string \<times> bytes) list option"
  oe_external_data_media_types :: "(string \<times> string) list option"
  oe_external_data_unreachable :: "string list option"

definition none_or_empty :: "'a list option \<Rightarrow> bool" where
  "none_or_empty x \<longleftrightarrow> (case x of None \<Rightarrow> True | Some xs \<Rightarrow> xs = [])"

definition evidence_is_empty :: "online_evidence \<Rightarrow> bool" where
  "evidence_is_empty e \<longleftrightarrow> none_or_empty (oe_ocsp_responses e) \<and> none_or_empty (oe_ocsp_unreachable e)
     \<and> none_or_empty (oe_external_data e) \<and> none_or_empty (oe_external_data_media_types e)
     \<and> none_or_empty (oe_external_data_unreachable e)"

record verify_input =
  vi_data :: bytes
  vi_mime :: bytes
  vi_claim_signer_trust :: "trust_list option"
  vi_tsa_trust :: "trust_list option"
  vi_allowed_certs :: "trust_list option"
  vi_validation_time :: "int option"
  vi_profile :: engine_profile
  vi_evidence :: online_evidence
  vi_cawg_strict_encoding :: bool

section \<open>Keys\<close>

definition unix_timestamp :: "int \<Rightarrow> int" where
  "unix_timestamp t = t div 10 ^ 9"

definition i64_be_bytes :: "int \<Rightarrow> bytes" where
  "i64_be_bytes i = be_bytes 8 (nat (i mod 2 ^ 64))"

definition fmt_int :: "int \<Rightarrow> string" where
  "fmt_int i = (if i < 0 then CHR ''-'' # fmt_nat (nat (- i)) else fmt_nat (nat i))"

definition sized_bytes :: "bytes \<Rightarrow> bytes" where
  "sized_bytes bs = be_bytes 8 (length bs) @ bs"

definition bound_bytes :: "int option \<Rightarrow> bytes" where
  "bound_bytes b = (case b of Some t \<Rightarrow> i64_be_bytes (unix_timestamp t) | None \<Rightarrow> [0xfe])"

definition source_bytes :: "trust_source option \<Rightarrow> bytes" where
  "source_bytes s =
     (case s of
        Some src \<Rightarrow> [0xfc] @ sized_bytes (ascii (ts_uri src)) @ sized_bytes (ascii (ts_source_type src))
          @ (case ts_identifier src of Some i \<Rightarrow> [1] @ sized_bytes (ascii i) | None \<Rightarrow> [0])
      | None \<Rightarrow> [0xfd])"

definition anchor_bytes :: "trust_anchor \<Rightarrow> bytes" where
  "anchor_bytes a = sized_bytes (ta_certificate a) @ [purpose_code (ta_purpose a)]
     @ bound_bytes (ta_not_before a) @ bound_bytes (ta_not_after a) @ source_bytes (ta_source a)"

definition absorb_trust :: "trust_list option \<Rightarrow> hasher \<Rightarrow> hasher" where
  "absorb_trust trust h =
     (case trust of None \<Rightarrow> h | Some anchors \<Rightarrow> foldl (\<lambda>h a. hasher_update (anchor_bytes a) h) h anchors)"

definition sha256_new :: hasher where
  "sha256_new = \<lparr>h_alg = Sha256, h_input = []\<rparr>"

definition trust_fingerprint :: "digest \<Rightarrow> verify_input \<Rightarrow> bytes" where
  "trust_fingerprint digest input =
     hasher_finalize digest (absorb_trust (vi_tsa_trust input) (hasher_update [0xff]
       (absorb_trust (vi_claim_signer_trust input) sha256_new)))"

definition cache_key :: "digest \<Rightarrow> bytes \<Rightarrow> bytes \<Rightarrow> bytes \<Rightarrow> bytes option \<Rightarrow> bytes" where
  "cache_key digest asset mime fingerprint validation_time =
     hasher_finalize digest (foldl (\<lambda>h part. hasher_update part h) sha256_new
       [be_bytes 8 (length asset), asset, [0], mime, [0], fingerprint, [0],
        (case validation_time of Some t \<Rightarrow> t | None \<Rightarrow> ascii ''@now'')])"

definition input_key :: "digest \<Rightarrow> verify_input \<Rightarrow> bytes" where
  "input_key digest input =
     cache_key digest (vi_data input) (vi_mime input) (trust_fingerprint digest input)
       (map_option (\<lambda>t. ascii (fmt_int (unix_timestamp t))) (vi_validation_time input))"

section \<open>The cache\<close>

record cached_result =
  cr_state :: validation_state
  cr_report_json :: string
  cr_inserted :: nat
  cr_ttl :: nat

definition is_fresh :: "nat \<Rightarrow> cached_result \<Rightarrow> bool" where
  "is_fresh now r \<longleftrightarrow> now - cr_inserted r < cr_ttl r"

record verify_cache =
  vc_map :: "(bytes \<times> cached_result) list"
  vc_order :: "bytes list"
  vc_capacity :: nat
  vc_default_ttl :: nat
  vc_hits :: "64 word"
  vc_misses :: "64 word"

definition cache_new :: "nat \<Rightarrow> nat \<Rightarrow> verify_cache" where
  "cache_new capacity default_ttl =
     \<lparr>vc_map = [], vc_order = [], vc_capacity = max capacity 1, vc_default_ttl = default_ttl, vc_hits = 0, vc_misses = 0\<rparr>"

text \<open>\<open>Vec::remove\<close> at the position of the first element equal to \<open>k\<close> is \<open>remove1\<close>.\<close>

definition cache_get :: "nat \<Rightarrow> bytes \<Rightarrow> verify_cache \<Rightarrow> cached_result option \<times> verify_cache" where
  "cache_get now k c =
     (let fresh = (case map_of (vc_map c) k of Some e \<Rightarrow> is_fresh now e | None \<Rightarrow> False)
      in if fresh
         then (map_of (vc_map c) k,
               c\<lparr>vc_hits := vc_hits c + 1,
                 vc_order := (if k \<in> set (vc_order c) then remove1 k (vc_order c) @ [k] else vc_order c)\<rparr>)
         else (None,
               (if map_of (vc_map c) k \<noteq> None
                then c\<lparr>vc_map := AList.delete k (vc_map c), vc_order := remove1 k (vc_order c)\<rparr> else c)
                 \<lparr>vc_misses := vc_misses c + 1\<rparr>))"

definition put_with_ttl ::
    "nat \<Rightarrow> bytes \<Rightarrow> validation_state \<Rightarrow> string \<Rightarrow> nat \<Rightarrow> verify_cache \<Rightarrow> verify_cache" where
  "put_with_ttl now k state report ttl c =
     (let c = (if map_of (vc_map c) k = None \<and> length (vc_map c) \<ge> vc_capacity c
               then (case vc_order c of
                       [] \<Rightarrow> c
                     | lru # rest \<Rightarrow> c\<lparr>vc_order := rest, vc_map := AList.delete lru (vc_map c)\<rparr>)
               else c)
      in c\<lparr>vc_order := filter (\<lambda>j. j \<noteq> k) (vc_order c) @ [k],
           vc_map := AList.update k \<lparr>cr_state = state, cr_report_json = report, cr_inserted = now, cr_ttl = ttl\<rparr> (vc_map c)\<rparr>)"

definition cache_put :: "nat \<Rightarrow> bytes \<Rightarrow> validation_state \<Rightarrow> string \<Rightarrow> verify_cache \<Rightarrow> verify_cache" where
  "cache_put now k state report c = put_with_ttl now k state report (vc_default_ttl c) c"

definition cache_len :: "verify_cache \<Rightarrow> nat" where
  "cache_len c = length (vc_map c)"

definition cache_is_empty :: "verify_cache \<Rightarrow> bool" where
  "cache_is_empty c \<longleftrightarrow> vc_map c = []"

definition cache_stats :: "verify_cache \<Rightarrow> 64 word \<times> 64 word" where
  "cache_stats c = (vc_hits c, vc_misses c)"

text \<open>
  \<open>verify_cached\<close> reads the clock for the lookup, for the insertion and for the result it returns. The verification
  returns the state and the report.
\<close>

definition verify_cached ::
    "digest \<Rightarrow> (verify_input \<Rightarrow> 'e + validation_state \<times> json) \<Rightarrow> (json \<Rightarrow> string) \<Rightarrow> nat \<times> nat \<times> nat
     \<Rightarrow> verify_input \<Rightarrow> verify_cache \<Rightarrow> ('e + cached_result \<times> bool) \<times> verify_cache" where
  "verify_cached digest verify to_string clock input c =
     (case clock of (now1, now2, now3) \<Rightarrow>
        let k = input_key digest input
        in case cache_get now1 k c of
             (Some hit, c) \<Rightarrow> (Inr (hit, True), c)
           | (None, c) \<Rightarrow>
               (case verify input of
                  Inl e \<Rightarrow> (Inl e, c)
                | Inr (state, report) \<Rightarrow>
                    let report_json = to_string report
                    in (Inr (\<lparr>cr_state = state, cr_report_json = report_json, cr_inserted = now3, cr_ttl = vc_default_ttl c\<rparr>, False),
                        cache_put now2 k state report_json c)))"

section \<open>The abstract LRU\<close>

text \<open>
  The specification is a list of entries, the least recently used first. The cache implements it with a map and a list
  of keys.
\<close>

type_synonym lru = "(bytes \<times> cached_result) list"

definition lru_without :: "bytes \<Rightarrow> lru \<Rightarrow> lru" where
  "lru_without k l = filter (\<lambda>(j, _). j \<noteq> k) l"

definition lru_get :: "nat \<Rightarrow> bytes \<Rightarrow> lru \<Rightarrow> cached_result option \<times> lru" where
  "lru_get now k l =
     (case map_of l k of
        Some e \<Rightarrow> if is_fresh now e then (Some e, lru_without k l @ [(k, e)]) else (None, lru_without k l)
      | None \<Rightarrow> (None, l))"

definition lru_put :: "nat \<Rightarrow> bytes \<Rightarrow> cached_result \<Rightarrow> lru \<Rightarrow> lru" where
  "lru_put capacity k e l =
     (let l = (if map_of l k = None \<and> length l \<ge> capacity then tl l else l) in lru_without k l @ [(k, e)])"

definition cache_ok :: "verify_cache \<Rightarrow> bool" where
  "cache_ok c \<longleftrightarrow> distinct (map fst (vc_map c)) \<and> distinct (vc_order c) \<and> set (vc_order c) = fst ` set (vc_map c)
     \<and> 1 \<le> vc_capacity c \<and> length (vc_map c) \<le> vc_capacity c"

definition cache_lru :: "verify_cache \<Rightarrow> lru" where
  "cache_lru c = map (\<lambda>k. (k, the (map_of (vc_map c) k))) (vc_order c)"

lemma cache_new_ok [simp]: "cache_ok (cache_new cap ttl)" "cache_lru (cache_new cap ttl) = []"
  by (simp_all add: cache_ok_def cache_new_def cache_lru_def)

lemma cache_ok_lengths: "cache_ok c \<Longrightarrow> length (vc_order c) = length (vc_map c)"
  by (metis cache_ok_def distinct_card length_map list.set_map)

lemma map_of_cache_lru:
  assumes "cache_ok c"
  shows "map_of (cache_lru c) k = map_of (vc_map c) k"
proof (cases "k \<in> set (vc_order c)")
  case True
  then have "k \<in> fst ` set (vc_map c)" using assms by (simp add: cache_ok_def)
  then obtain e where "map_of (vc_map c) k = Some e" using map_of_eq_None_iff [of "vc_map c" k] by auto
  with True show ?thesis by (simp add: cache_lru_def map_of_map_restrict restrict_map_def)
next
  case False
  then have "map_of (vc_map c) k = None" using assms by (simp add: cache_ok_def map_of_eq_None_iff)
  with False show ?thesis by (simp add: cache_lru_def map_of_map_restrict restrict_map_def)
qed

lemma lru_without_map: "lru_without k (map (\<lambda>j. (j, f j)) ks) = map (\<lambda>j. (j, f j)) (filter (\<lambda>j. j \<noteq> k) ks)"
  by (simp add: lru_without_def filter_map o_def)

lemma remove1_filter: "distinct ks \<Longrightarrow> remove1 k ks = filter (\<lambda>j. j \<noteq> k) ks"
  by (simp add: distinct_remove1_removeAll removeAll_filter_not_eq) (rule filter_cong, auto)

lemma cache_lru_cong:
  "(\<And>k. k \<in> set ks \<Longrightarrow> map_of m k = map_of m' k) \<Longrightarrow>
     map (\<lambda>k. (k, the (map_of m k))) ks = map (\<lambda>k. (k, the (map_of m' k))) ks"
  by simp

lemma keys_delete: "fst ` set (AList.delete k m) = fst ` set m - {k}"
  by (auto simp: AList.delete_eq image_iff)

lemma keys_update: "fst ` set (AList.update k v m) = insert k (fst ` set m)"
  by (metis dom_map_of_conv_image_fst dom_update update_conv' dom_fun_upd option.simps(3))

lemma length_update_absent: "map_of m k = None \<Longrightarrow> length (AList.update k v m) = Suc (length m)"
  by (induction m) (auto split: if_splits)

lemma length_update_present: "map_of m k \<noteq> None \<Longrightarrow> length (AList.update k v m) = length m"
  by (induction m) auto

lemma length_delete_present:
  "distinct (map fst m) \<Longrightarrow> k \<in> fst ` set m \<Longrightarrow> Suc (length (AList.delete k m)) = length m"
proof (induction m)
  case (Cons p m)
  show ?case
  proof (cases "fst p = k")
    case True
    with Cons.prems(1) have "k \<notin> fst ` set m" by auto
    then have "AList.delete k m = m" by simp
    with True show ?thesis by (cases p) simp
  next
    case False
    with Cons show ?thesis by (cases p) auto
  qed
qed simp

text \<open>Dropping a key from both parts of the cache.\<close>

definition cache_drop :: "bytes \<Rightarrow> verify_cache \<Rightarrow> verify_cache" where
  "cache_drop k c = c\<lparr>vc_map := AList.delete k (vc_map c), vc_order := filter (\<lambda>j. j \<noteq> k) (vc_order c)\<rparr>"

lemma cache_drop_ok:
  assumes "cache_ok c"
  shows "cache_ok (cache_drop k c)" and "cache_lru (cache_drop k c) = lru_without k (cache_lru c)"
proof -
  have "length (AList.delete k (vc_map c)) \<le> length (vc_map c)" by (rule length_delete_le)
  with assms show "cache_ok (cache_drop k c)"
    by (auto simp: cache_ok_def cache_drop_def keys_delete distinct_delete)
  show "cache_lru (cache_drop k c) = lru_without k (cache_lru c)"
    unfolding cache_lru_def cache_drop_def lru_without_map by (auto simp: delete_conv')
qed

lemma cache_get_refines:
  assumes "cache_ok c" and "cache_get now k c = (r, c')"
  shows "cache_ok c'" and "lru_get now k (cache_lru c) = (r, cache_lru c')"
    and "vc_capacity c' = vc_capacity c" and "vc_default_ttl c' = vc_default_ttl c"
proof -
  have d: "distinct (vc_order c)" and keys: "map_of (vc_map c) k \<noteq> None \<longleftrightarrow> k \<in> set (vc_order c)"
    using assms(1) by (auto simp: cache_ok_def map_of_eq_None_iff)
  show "vc_capacity c' = vc_capacity c" "vc_default_ttl c' = vc_default_ttl c"
    using assms(2) by (auto simp: cache_get_def Let_def split: if_splits)
  consider (hit) e where "map_of (vc_map c) k = Some e" "is_fresh now e"
    | (stale) e where "map_of (vc_map c) k = Some e" "\<not> is_fresh now e" | (miss) "map_of (vc_map c) k = None" by blast
  then have "cache_ok c' \<and> lru_get now k (cache_lru c) = (r, cache_lru c')"
  proof cases
    case hit
    with keys d assms(2) have c': "r = Some e"
      "c' = c\<lparr>vc_hits := vc_hits c + 1, vc_order := filter (\<lambda>j. j \<noteq> k) (vc_order c) @ [k]\<rparr>"
      by (auto simp: cache_get_def remove1_filter)
    have "cache_ok c'" using assms(1) keys hit(1) by (auto simp: c' cache_ok_def)
    moreover have "cache_lru c' = lru_without k (cache_lru c) @ [(k, e)]"
      using hit(1) unfolding cache_lru_def lru_without_map by (simp add: c')
    ultimately show ?thesis using hit by (simp add: lru_get_def map_of_cache_lru [OF assms(1)] c'(1))
  next
    case stale
    with d assms(2) have c': "r = None" "c' = (cache_drop k c)\<lparr>vc_misses := vc_misses c + 1\<rparr>"
      by (auto simp: cache_get_def cache_drop_def remove1_filter)
    with cache_drop_ok [OF assms(1), of k] stale show ?thesis
      by (simp add: lru_get_def map_of_cache_lru [OF assms(1)]) (simp add: cache_ok_def cache_lru_def)
  next
    case miss
    with assms(2) have "r = None" "c' = c\<lparr>vc_misses := vc_misses c + 1\<rparr>" by (auto simp: cache_get_def)
    with assms(1) miss show ?thesis
      by (simp add: lru_get_def map_of_cache_lru [OF assms(1)]) (simp add: cache_ok_def cache_lru_def)
  qed
  then show "cache_ok c'" "lru_get now k (cache_lru c) = (r, cache_lru c')" by blast+
qed

text \<open>Insertion once there is room.\<close>

lemma cache_insert_ok:
  fixes e :: cached_result
  assumes "cache_ok c" and "map_of (vc_map c) k \<noteq> None \<or> length (vc_map c) < vc_capacity c"
  defines "c' \<equiv> c\<lparr>vc_order := filter (\<lambda>j. j \<noteq> k) (vc_order c) @ [k], vc_map := AList.update k e (vc_map c)\<rparr>"
  shows "cache_ok c'" and "cache_lru c' = lru_without k (cache_lru c) @ [(k, e)]"
proof -
  have "length (AList.update k e (vc_map c)) \<le> vc_capacity c"
    using assms(1,2) length_update_absent [of "vc_map c" k e] length_update_present [of "vc_map c" k e]
    by (cases "map_of (vc_map c) k") (auto simp: cache_ok_def)
  with assms(1) show "cache_ok c'" by (auto simp: c'_def cache_ok_def keys_update distinct_update)
  show "cache_lru c' = lru_without k (cache_lru c) @ [(k, e)]"
    unfolding cache_lru_def lru_without_map by (auto simp: c'_def update_conv')
qed

lemma put_with_ttl_refines:
  fixes state :: validation_state and report :: string and now ttl :: nat
  assumes "cache_ok c"
  defines "e \<equiv> \<lparr>cr_state = state, cr_report_json = report, cr_inserted = now, cr_ttl = ttl\<rparr>"
  shows "cache_ok (put_with_ttl now k state report ttl c)"
    and "cache_lru (put_with_ttl now k state report ttl c) = lru_put (vc_capacity c) k e (cache_lru c)"
    and "vc_capacity (put_with_ttl now k state report ttl c) = vc_capacity c"
proof -
  show "vc_capacity (put_with_ttl now k state report ttl c) = vc_capacity c"
    by (auto simp: put_with_ttl_def Let_def split: list.splits)
  have len: "length (cache_lru c) = length (vc_map c)" using cache_ok_lengths [OF assms(1)] by (simp add: cache_lru_def)
  have "cache_ok (put_with_ttl now k state report ttl c)
    \<and> cache_lru (put_with_ttl now k state report ttl c) = lru_put (vc_capacity c) k e (cache_lru c)"
  proof (cases "map_of (vc_map c) k = None \<and> length (vc_map c) \<ge> vc_capacity c")
    case full: True
    have ne: "vc_order c \<noteq> []" using full assms(1) cache_ok_lengths [OF assms(1)] by (auto simp: cache_ok_def)
    then obtain lru rest where o: "vc_order c = lru # rest" by (cases "vc_order c") auto
    have r: "filter (\<lambda>j. j \<noteq> lru) (vc_order c) = rest" using assms(1) o by (auto simp: cache_ok_def filter_id_conv)
    have drop: "cache_drop lru c = c\<lparr>vc_order := rest, vc_map := AList.delete lru (vc_map c)\<rparr>" using r by (simp add: cache_drop_def)
    have "lru \<in> fst ` set (vc_map c)" using assms(1) o by (auto simp: cache_ok_def)
    then have room: "length (vc_map (cache_drop lru c)) < vc_capacity (cache_drop lru c)"
      using length_delete_present [of "vc_map c" lru] assms(1) by (auto simp: cache_drop_def cache_ok_def)
    have tl: "cache_lru (cache_drop lru c) = tl (cache_lru c)"
      using cache_drop_ok(2) [OF assms(1), of lru] r unfolding cache_lru_def lru_without_map by (simp add: o)
    have "put_with_ttl now k state report ttl c
        = (cache_drop lru c)\<lparr>vc_order := filter (\<lambda>j. j \<noteq> k) (vc_order (cache_drop lru c)) @ [k],
            vc_map := AList.update k e (vc_map (cache_drop lru c))\<rparr>"
      using full o by (simp add: put_with_ttl_def Let_def e_def drop)
    with cache_insert_ok [OF cache_drop_ok(1) [OF assms(1)], of lru k e] room tl full len show ?thesis
      by (simp add: lru_put_def map_of_cache_lru [OF assms(1)] del: AList.update.simps)
  next
    case False
    then have "put_with_ttl now k state report ttl c = c\<lparr>vc_order := filter (\<lambda>j. j \<noteq> k) (vc_order c) @ [k],
        vc_map := AList.update k e (vc_map c)\<rparr>" by (auto simp: put_with_ttl_def Let_def e_def)
    moreover have "map_of (vc_map c) k \<noteq> None \<or> length (vc_map c) < vc_capacity c" using False by auto
    ultimately show ?thesis
      using cache_insert_ok [OF assms(1), of k e] False len by (auto simp: lru_put_def map_of_cache_lru [OF assms(1)] Let_def)
  qed
  then show "cache_ok (put_with_ttl now k state report ttl c)"
    "cache_lru (put_with_ttl now k state report ttl c) = lru_put (vc_capacity c) k e (cache_lru c)" by blast+
qed

end
