(* ===== verification/Cache_Properties.thy ===== *)
theory Cache_Properties
  imports Verify_Cache
begin

text \<open>
  Properties of the result cache: it is an LRU, a hit returns what an earlier request with the same key computed, and
  what the key of a request depends on.
\<close>

section \<open>Any sequence of operations\<close>

datatype cache_op = Get nat bytes | Put nat bytes validation_state string nat

fun cache_step :: "verify_cache \<Rightarrow> cache_op \<Rightarrow> cached_result option \<times> verify_cache" where
  "cache_step c (Get now k) = cache_get now k c"
| "cache_step c (Put now k st rep ttl) = (None, put_with_ttl now k st rep ttl c)"

fun lru_step :: "nat \<Rightarrow> lru \<Rightarrow> cache_op \<Rightarrow> cached_result option \<times> lru" where
  "lru_step capacity l (Get now k) = lru_get now k l"
| "lru_step capacity l (Put now k st rep ttl) =
     (None, lru_put capacity k \<lparr>cr_state = st, cr_report_json = rep, cr_inserted = now, cr_ttl = ttl\<rparr> l)"

text \<open>The answers of a sequence of operations and the state after it.\<close>

fun run_ops :: "('s \<Rightarrow> cache_op \<Rightarrow> 'r \<times> 's) \<Rightarrow> 's \<Rightarrow> cache_op list \<Rightarrow> 'r list \<times> 's" where
  "run_ops step s [] = ([], s)"
| "run_ops step s (p # ps) =
     (case step s p of (r, s') \<Rightarrow> case run_ops step s' ps of (rs, s'') \<Rightarrow> (r # rs, s''))"

lemma cache_step_refines:
  assumes "cache_ok c" and "cache_step c p = (r, c')"
  shows "cache_ok c' \<and> vc_capacity c' = vc_capacity c \<and> lru_step (vc_capacity c) (cache_lru c) p = (r, cache_lru c')"
proof (cases p)
  case (Get now k)
  with cache_get_refines [OF assms(1)] assms(2) show ?thesis by simp
next
  case (Put now k st rep ttl)
  with put_with_ttl_refines [OF assms(1)] assms(2) show ?thesis by auto
qed

lemma run_ops_refines:
  "cache_ok c \<Longrightarrow> run_ops cache_step c ps = (rs, c') \<Longrightarrow>
     cache_ok c' \<and> vc_capacity c' = vc_capacity c \<and> run_ops (lru_step (vc_capacity c)) (cache_lru c) ps = (rs, cache_lru c')"
proof (induction ps arbitrary: c rs)
  case (Cons p ps)
  obtain r c1 where s: "cache_step c p = (r, c1)" by (cases "cache_step c p")
  note step = cache_step_refines [OF Cons.prems(1) s]
  from Cons.prems(2) s obtain rs' where "run_ops cache_step c1 ps = (rs', c')" "rs = r # rs'" by (auto split: prod.splits)
  with Cons.IH [of c1 rs'] step show ?case by auto
qed simp

text \<open>
  C38: for every sequence of lookups and insertions, a new cache answers as the LRU specification of its capacity
  does, ends in a state that represents the state of the specification, and holds at most that many
  entries, one per key.
\<close>

theorem cache_is_lru:
  "case run_ops cache_step (cache_new capacity ttl) ops of (answers, c) \<Rightarrow>
     run_ops (lru_step (max capacity 1)) [] ops = (answers, cache_lru c)
     \<and> cache_len c \<le> max capacity 1 \<and> distinct (map fst (vc_map c)) \<and> set (vc_order c) = fst ` set (vc_map c)"
proof -
  obtain answers c where r: "run_ops cache_step (cache_new capacity ttl) ops = (answers, c)" by fastforce
  have "vc_capacity (cache_new capacity ttl) = max capacity 1" by (simp add: cache_new_def)
  with run_ops_refines [OF cache_new_ok(1) r] r show ?thesis by (auto simp: cache_len_def cache_ok_def)
qed

section \<open>What a key fixes\<close>

definition key_bytes :: "digest \<Rightarrow> verify_input \<Rightarrow> bytes" where
  "key_bytes digest input = be_bytes 8 (length (vi_data input)) @ vi_data input @ [0] @ vi_mime input @ [0]
     @ trust_fingerprint digest input @ [0]
     @ (case vi_validation_time input of Some t \<Rightarrow> ascii (fmt_int (unix_timestamp t)) | None \<Rightarrow> ascii ''@now'')"

lemma input_key_eq: "input_key digest input = digest Sha256 (key_bytes digest input)"
  by (simp add: input_key_def cache_key_def key_bytes_def hasher_finalize_def sha256_new_def foldl_hasher_update
      split: option.splits)

lemma of_digit_char: "d < 10 \<Longrightarrow> of_char (digit_char d) = 48 + d"
  by (simp add: digit_char_def)

definition digits_val :: "string \<Rightarrow> nat" where
  "digits_val s = foldl (\<lambda>a c. 10 * a + (of_char c - 48)) 0 s"

lemma fmt_nat_val: "digits_val (fmt_nat n) = n"
proof (induction n rule: fmt_nat.induct)
  case (1 n)
  then show ?case by (subst fmt_nat.simps) (simp add: digits_val_def of_digit_char)
qed

lemma fmt_nat_chars: "c \<in> set (fmt_nat n) \<Longrightarrow> 48 \<le> (of_char c :: nat) \<and> (of_char c :: nat) < 58"
proof (induction n rule: fmt_nat.induct)
  case (1 n)
  then show ?case by (subst (asm) fmt_nat.simps) (auto simp: of_digit_char split: if_splits)
qed

lemma fmt_int_inject: "fmt_int i = fmt_int j \<longleftrightarrow> i = j"
proof
  have minus: "CHR ''-'' \<notin> set (fmt_nat n)" for n using fmt_nat_chars [of "CHR ''-''" n] by auto
  have inj: "fmt_nat m = fmt_nat n \<longleftrightarrow> m = n" for m n using fmt_nat_val by metis
  assume e: "fmt_int i = fmt_int j"
  have "i < 0 \<longleftrightarrow> j < 0" using e minus by (auto simp: fmt_int_def split: if_splits) (metis list.set_intros(1))+
  with e show "i = j" by (auto simp: fmt_int_def inj split: if_splits)
qed simp

definition time_text :: "int option \<Rightarrow> string" where
  "time_text t = (case t of Some t \<Rightarrow> fmt_int (unix_timestamp t) | None \<Rightarrow> ''@now'')"

lemma fmt_int_chars: "c \<in> set (fmt_int i) \<Longrightarrow> 45 \<le> (of_char c :: nat) \<and> (of_char c :: nat) < 58"
  using fmt_nat_chars [of c] by (force simp: fmt_int_def split: if_splits)

lemma time_text_inject: "time_text s = time_text t \<longleftrightarrow> map_option unix_timestamp s = map_option unix_timestamp t"
proof -
  have "fmt_int i \<noteq> ''@now''" for i
  proof
    assume "fmt_int i = ''@now''"
    then show False using fmt_int_chars [of "CHR ''@''" i] by simp
  qed
  from this this [symmetric] show ?thesis by (cases s; cases t) (auto simp: time_text_def fmt_int_inject)
qed

lemma time_text_no_zero: "0 \<notin> set (ascii (time_text t))"
proof -
  have "of_nat (of_char c) \<noteq> (0 :: 8 word)" if "c \<in> set (fmt_int i)" for c i
  proof -
    have "unat (of_nat (of_char c) :: 8 word) = of_char c" using fmt_int_chars [OF that] by (simp add: unat_of_nat)
    with fmt_int_chars [OF that] show ?thesis by (metis le_zero_eq unat_0 zero_neq_numeral)
  qed
  then show ?thesis by (cases t) (auto simp: time_text_def ascii_def)
qed

lemma split_at_last:
  "x \<notin> set us \<Longrightarrow> x \<notin> set vs \<Longrightarrow> xs @ x # us = ys @ x # vs \<Longrightarrow> xs = ys \<and> us = vs"
  by (auto simp: append_eq_append_conv2 append_eq_Cons_conv Cons_eq_append_conv)

lemma h_alg_absorb_trust [simp]: "h_alg (absorb_trust trust h) = h_alg h"
proof -
  have "h_alg (foldl (\<lambda>h a. hasher_update (anchor_bytes a) h) h anchors) = h_alg h" for anchors
    by (induction anchors arbitrary: h) auto
  then show ?thesis by (simp add: absorb_trust_def split: option.splits)
qed

lemma key_bytes_time: "key_bytes digest input = be_bytes 8 (length (vi_data input)) @ vi_data input @ [0] @ vi_mime input @ [0]
     @ trust_fingerprint digest input @ [0] @ ascii (time_text (vi_validation_time input))"
  by (simp add: key_bytes_def time_text_def split: option.splits)

text \<open>The encoding of the request in the key is unambiguous.\<close>

lemma key_bytes_inject:
  assumes "key_bytes digest a = key_bytes digest b" and "\<forall>x. length (digest Sha256 x) = 32"
    and "length (vi_data a) < 2 ^ 64" and "length (vi_data b) < 2 ^ 64"
  shows "vi_data a = vi_data b \<and> vi_mime a = vi_mime b \<and> trust_fingerprint digest a = trust_fingerprint digest b
    \<and> map_option unix_timestamp (vi_validation_time a) = map_option unix_timestamp (vi_validation_time b)"
proof -
  have fp: "length (trust_fingerprint digest i) = 32" for i
    using assms(2) by (simp add: trust_fingerprint_def hasher_finalize_def sha256_new_def)
  have "be_bytes 8 (length (vi_data a)) = be_bytes 8 (length (vi_data b))"
    using arg_cong [OF assms(1), of "take 8"] by (simp add: key_bytes_time)
  moreover have "be_val (be_bytes 8 x) = x" if "x < 2 ^ 64" for x
  proof (rule be_val_be_bytes_id)
    have e: "(256 :: nat) ^ 8 = 2 ^ 64" by simp
    show "x < 256 ^ 8" unfolding e by (rule that)
  qed
  ultimately have len: "length (vi_data a) = length (vi_data b)" using assms(3,4) by metis
  with assms(1) have d: "vi_data a = vi_data b"
    and r: "(vi_mime a @ [0] @ trust_fingerprint digest a) @ 0 # ascii (time_text (vi_validation_time a))
      = (vi_mime b @ [0] @ trust_fingerprint digest b) @ 0 # ascii (time_text (vi_validation_time b))"
    by (auto simp: key_bytes_time)
  from split_at_last [OF time_text_no_zero time_text_no_zero r]
  have t: "time_text (vi_validation_time a) = time_text (vi_validation_time b)"
    and m: "vi_mime a @ [0] @ trust_fingerprint digest a = vi_mime b @ [0] @ trust_fingerprint digest b" by auto
  from m fp [of a] fp [of b] d t show ?thesis by (auto simp: time_text_inject append_eq_append_conv)
qed

section \<open>Memoised results\<close>

text \<open>
  What a memoising client relies on: a lookup returns only what the store holds, and the store holds only what was put
  there. A property of key and value that every computed result has is then one of every result served.
\<close>

locale result_store =
  fixes look :: "'t \<Rightarrow> 'k \<Rightarrow> 's \<Rightarrow> 'v option \<times> 's" and keep :: "'t \<Rightarrow> 'k \<Rightarrow> 'v \<Rightarrow> 's \<Rightarrow> 's"
    and holds :: "'s \<Rightarrow> 'k \<Rightarrow> 'v \<Rightarrow> bool"
  assumes look_holds: "look t k s = (Some v, s') \<Longrightarrow> holds s k v"
    and look_preserves: "look t k s = (r, s') \<Longrightarrow> holds s' j v \<Longrightarrow> holds s j v"
    and keep_holds: "holds (keep t k v s) j w \<Longrightarrow> j = k \<and> w = v \<or> holds s j w"
begin

definition sound :: "('k \<Rightarrow> 'v \<Rightarrow> bool) \<Rightarrow> 's \<Rightarrow> bool" where
  "sound P s \<longleftrightarrow> (\<forall>k v. holds s k v \<longrightarrow> P k v)"

lemma sound_mono: "sound P s \<Longrightarrow> (\<And>k v. P k v \<Longrightarrow> Q k v) \<Longrightarrow> sound Q s"
  by (auto simp: sound_def)

lemma look_sound: "sound P s \<Longrightarrow> look t k s = (Some v, s') \<Longrightarrow> P k v"
  using look_holds by (auto simp: sound_def)

lemma sound_look: "sound P s \<Longrightarrow> look t k s = (r, s') \<Longrightarrow> sound P s'"
  using look_preserves by (fastforce simp: sound_def)

lemma sound_keep: "sound P s \<Longrightarrow> P k v \<Longrightarrow> sound P (keep t k v s)"
  using keep_holds by (fastforce simp: sound_def)

end

definition result_of :: "cached_result \<Rightarrow> validation_state \<times> string" where
  "result_of r = (cr_state r, cr_report_json r)"

definition cache_look :: "nat \<Rightarrow> bytes \<Rightarrow> verify_cache \<Rightarrow> (validation_state \<times> string) option \<times> verify_cache" where
  "cache_look now k c = map_prod (map_option result_of) id (cache_get now k c)"

definition cache_keep :: "nat \<Rightarrow> bytes \<Rightarrow> validation_state \<times> string \<Rightarrow> verify_cache \<Rightarrow> verify_cache" where
  "cache_keep now k v c = cache_put now k (fst v) (snd v) c"

definition cache_holds :: "verify_cache \<Rightarrow> bytes \<Rightarrow> validation_state \<times> string \<Rightarrow> bool" where
  "cache_holds c k v \<longleftrightarrow> map_option result_of (map_of (vc_map c) k) = Some v"

interpretation cache: result_store cache_look cache_keep cache_holds
proof
  show "cache_holds c k v" if "cache_look now k c = (Some v, c')" for now k c v c'
    using that by (auto simp: cache_look_def cache_get_def cache_holds_def Let_def split: if_splits option.splits)
  show "cache_holds c j v" if "cache_look now k c = (r, c')" "cache_holds c' j v" for now k c r c' j v
    using that by (auto simp: cache_look_def cache_get_def cache_holds_def Let_def delete_conv' split: if_splits)
  show "j = k \<and> w = v \<or> cache_holds c j w" if "cache_holds (cache_keep now k v c) j w" for now k v c j w
    using that by (auto simp: cache_keep_def cache_put_def put_with_ttl_def cache_holds_def update_conv' delete_conv' result_of_def Let_def
        split: if_splits list.splits)
qed

text \<open>The caches that requests can lead to, with the requests that were made, the last one first.\<close>

inductive serves ::
    "digest \<Rightarrow> (verify_input \<Rightarrow> 'e + validation_state \<times> json) \<Rightarrow> (json \<Rightarrow> string) \<Rightarrow> verify_input list \<Rightarrow> verify_cache \<Rightarrow> bool"
  for digest verify to_string where
  start: "serves digest verify to_string [] (cache_new capacity ttl)"
| request: "serves digest verify to_string past c \<Longrightarrow> verify_cached digest verify to_string clock input c = (r, c')
    \<Longrightarrow> serves digest verify to_string (input # past) c'"

definition computed ::
    "digest \<Rightarrow> (verify_input \<Rightarrow> 'e + validation_state \<times> json) \<Rightarrow> (json \<Rightarrow> string) \<Rightarrow> verify_input list
     \<Rightarrow> bytes \<Rightarrow> validation_state \<times> string \<Rightarrow> bool" where
  "computed digest verify to_string past k v \<longleftrightarrow>
     (\<exists>input \<in> set past. \<exists>report. input_key digest input = k \<and> verify input = Inr (fst v, report) \<and> snd v = to_string report)"

lemma verify_cached_cases:
  assumes "verify_cached digest verify to_string clock input c = (r, c')"
  obtains (hit) hit where "cache_look (fst clock) (input_key digest input) c = (Some (result_of hit), c')" "r = Inr (hit, True)"
  | (fail) e where "cache_look (fst clock) (input_key digest input) c = (None, c')" "verify input = Inl e" "r = Inl e"
  | (new) state report c1 now fresh where "cache_look (fst clock) (input_key digest input) c = (None, c1)"
      "verify input = Inr (state, report)" "c' = cache_keep now (input_key digest input) (state, to_string report) c1"
      "r = Inr (fresh, False)"
proof -
  obtain n1 n2 n3 where clock: "clock = (n1, n2, n3)" by (cases clock)
  obtain h c1 where g: "cache_get n1 (input_key digest input) c = (h, c1)" by fastforce
  show ?thesis
  proof (cases h)
    case (Some hit)
    with assms g that(1) show ?thesis by (simp add: verify_cached_def clock cache_look_def)
  next
    case None
    with assms g that(2,3) show ?thesis
      by (auto simp: verify_cached_def clock cache_look_def cache_keep_def Let_def split: sum.splits)
  qed
qed

lemma serves_sound: "serves digest verify to_string past c \<Longrightarrow> cache.sound (computed digest verify to_string past) c"
proof (induction rule: serves.induct)
  case (start capacity ttl)
  show ?case unfolding cache.sound_def by (simp add: cache_holds_def cache_new_def)
next
  case (request past c clock input r c')
  have mono: "cache.sound (computed digest verify to_string (input # past)) c"
    by (rule cache.sound_mono [OF request.IH]) (auto simp: computed_def)
  show ?case using request.hyps(2)
  proof (cases rule: verify_cached_cases)
    case (new state report c1 now fresh)
    have "computed digest verify to_string (input # past) (input_key digest input) (state, to_string report)"
      using new(2) by (auto simp: computed_def)
    with cache.sound_keep [OF cache.sound_look [OF mono new(1)]] new(3) show ?thesis by simp
  qed (use cache.sound_look [OF mono] in blast)+
qed

text \<open>
  C11: a cache hit is never stale in content: after any history of requests on a cache, a hit returns the state and the
  report that the verification of an earlier request computed, and that request had the same asset, media
  type, trust fingerprint and validation second, unless SHA-256 collides on the two encoded keys.
\<close>

theorem cache_hit_sound:
  assumes "serves digest verify to_string past c" and "verify_cached digest verify to_string clock input c = (Inr (r, True), c')"
    and "\<forall>x. length (digest Sha256 x) = 32" and "\<forall>i \<in> set (input # past). length (vi_data i) < 2 ^ 64"
  shows "\<exists>earlier \<in> set past. \<exists>report. verify earlier = Inr (cr_state r, report) \<and> cr_report_json r = to_string report
    \<and> (vi_data earlier = vi_data input \<and> vi_mime earlier = vi_mime input
        \<and> trust_fingerprint digest earlier = trust_fingerprint digest input
        \<and> map_option unix_timestamp (vi_validation_time earlier) = map_option unix_timestamp (vi_validation_time input)
       \<or> key_bytes digest earlier \<noteq> key_bytes digest input
        \<and> digest Sha256 (key_bytes digest earlier) = digest Sha256 (key_bytes digest input))"
proof -
  from assms(2) have "cache_look (fst clock) (input_key digest input) c = (Some (result_of r), c')"
    by (cases rule: verify_cached_cases) auto
  with cache.look_sound [OF serves_sound [OF assms(1)]]
  have "computed digest verify to_string past (input_key digest input) (result_of r)" by blast
  then obtain e report where e: "e \<in> set past" "input_key digest e = input_key digest input"
    "verify e = Inr (cr_state r, report)" "cr_report_json r = to_string report"
    by (auto simp: computed_def result_of_def)
  moreover have "length (vi_data e) < 2 ^ 64" "length (vi_data input) < 2 ^ 64" using assms(4) e(1) by auto
  with key_bytes_inject [of digest e input] assms(3) e(2)
  have "vi_data e = vi_data input \<and> vi_mime e = vi_mime input
        \<and> trust_fingerprint digest e = trust_fingerprint digest input
        \<and> map_option unix_timestamp (vi_validation_time e) = map_option unix_timestamp (vi_validation_time input)
       \<or> key_bytes digest e \<noteq> key_bytes digest input
        \<and> digest Sha256 (key_bytes digest e) = digest Sha256 (key_bytes digest input)"
    by (cases "key_bytes digest e = key_bytes digest input") (auto simp: input_key_eq)
  ultimately show ?thesis by blast
qed

definition sample_input :: "engine_profile \<Rightarrow> verify_input" where
  "sample_input p = \<lparr>vi_data = [1], vi_mime = ascii ''image/png'', vi_claim_signer_trust = None, vi_tsa_trust = None,
     vi_allowed_certs = None, vi_validation_time = None, vi_profile = p,
     vi_evidence = \<lparr>oe_ocsp_responses = None, oe_ocsp_unreachable = None, oe_external_data = None,
       oe_external_data_media_types = None, oe_external_data_unreachable = None\<rparr>, vi_cawg_strict_encoding = False\<rparr>"

text \<open>A digest of the right length, and a verification that depends on the profile.\<close>

definition sample_digest :: digest where
  "sample_digest = (\<lambda>_ x. take 32 (x @ replicate 32 0))"

definition sample_verify :: "verify_input \<Rightarrow> unit + validation_state \<times> json" where
  "sample_verify input = Inr (if is_generous (vi_profile input) then Valid else Invalid, JNull)"

text \<open>A request on a new cache is computed and stored; the next one with an equal key is a hit.\<close>

lemma second_request_hits:
  assumes "input_key digest a = input_key digest b" and "verify a = Inr (state, report)" and "now - n2 < ttl"
  shows "\<exists>r1 c1 c2. verify_cached digest verify to_string (n1, n2, n3) a (cache_new capacity ttl) = (Inr (r1, False), c1)
    \<and> serves digest verify to_string [a] c1
    \<and> verify_cached digest verify to_string (now, m2, m3) b c1
      = (Inr (\<lparr>cr_state = state, cr_report_json = to_string report, cr_inserted = n2, cr_ttl = ttl\<rparr>, True), c2)"
proof -
  let ?e = "\<lparr>cr_state = state, cr_report_json = to_string report, cr_inserted = n2, cr_ttl = ttl\<rparr>"
  let ?c = "(cache_new capacity ttl)\<lparr>vc_misses := 1\<rparr>"
  let ?c1 = "cache_put n2 (input_key digest a) state (to_string report) ?c"
  have v: "verify_cached digest verify to_string (n1, n2, n3) a (cache_new capacity ttl)
      = (Inr (\<lparr>cr_state = state, cr_report_json = to_string report, cr_inserted = n3, cr_ttl = ttl\<rparr>, False), ?c1)"
    using assms(2) by (simp add: verify_cached_def cache_get_def cache_new_def Let_def)
  have m: "map_of (vc_map ?c1) (input_key digest b) = Some ?e"
    by (simp add: cache_put_def put_with_ttl_def cache_new_def assms(1))
  have "is_fresh now ?e" using assms(3) by (simp add: is_fresh_def)
  with m obtain c2 where "verify_cached digest verify to_string (now, m2, m3) b ?c1 = (Inr (?e, True), c2)"
    by (auto simp: verify_cached_def cache_get_def Let_def)
  with v serves.request [OF serves.start v] show ?thesis by blast
qed

theorem cache_hit_sound_witness:
  "\<exists>report. sample_verify (sample_input GENEROUS) = Inr (Valid, report) \<and> [] = (\<lambda>_. []) report"
proof -
  have v: "sample_verify (sample_input GENEROUS) = Inr (Valid, JNull)"
    by (simp add: sample_verify_def sample_input_def is_generous_def GENEROUS_def)
  have "(1 :: nat) - 0 < 5" by simp
  note hits = second_request_hits [of sample_digest "sample_input GENEROUS" "sample_input GENEROUS" sample_verify
      Valid JNull 1 0 5 "\<lambda>_. []" 0 0 4 1 1, OF refl v this]
  then obtain c1 c2 where c: "serves sample_digest sample_verify (\<lambda>_. []) [sample_input GENEROUS] c1"
    "verify_cached sample_digest sample_verify (\<lambda>_. []) (1, 1, 1) (sample_input GENEROUS) c1
      = (Inr (\<lparr>cr_state = Valid, cr_report_json = [], cr_inserted = 0, cr_ttl = 5\<rparr>, True), c2)" by blast
  have "\<forall>x. length (sample_digest Sha256 x) = 32" by (auto simp: sample_digest_def min_def)
  from cache_hit_sound [OF c this] show ?thesis by (auto simp: sample_input_def)
qed

section \<open>What a key leaves out\<close>

lemma key_ignores_options:
  "input_key digest (input\<lparr>vi_profile := p, vi_allowed_certs := certs, vi_evidence := ev, vi_cawg_strict_encoding := b\<rparr>)
     = input_key digest input"
  by (simp add: input_key_def trust_fingerprint_def)

text \<open>No claim-signer trust, which disables the trust check, has the key of an empty trust list, which enables it.\<close>

lemma key_confuses_absent_trust:
  "input_key digest (input\<lparr>vi_claim_signer_trust := None\<rparr>) = input_key digest (input\<lparr>vi_claim_signer_trust := Some []\<rparr>)"
  by (simp add: input_key_def trust_fingerprint_def absorb_trust_def)

text \<open>
  The profile, the allowed certificates, the supplied evidence and the encoding strictness of a request are not part
  of its key: a second request that differs from the first in all of them is answered, within the time to
  live, with the state of the first, whatever its own verification would return.
\<close>

theorem cache_ignores_options:
  assumes "verify input = Inr (state, report)" and "now - n2 < ttl"
    and "other = input\<lparr>vi_profile := p, vi_allowed_certs := certs, vi_evidence := ev, vi_cawg_strict_encoding := b\<rparr>"
  shows "\<exists>r c1 c2. snd (verify_cached digest verify to_string (n1, n2, n3) input (cache_new capacity ttl)) = c1
    \<and> verify_cached digest verify to_string (now, m2, m3) other c1 = (Inr (r, True), c2) \<and> cr_state r = state"
proof -
  have "input_key digest input = input_key digest other" unfolding assms(3) key_ignores_options ..
  from second_request_hits [of digest input other verify state report now n2 ttl to_string n1 n3 capacity m2 m3, OF this assms(1,2)]
  obtain r1 c1 c2 where "verify_cached digest verify to_string (n1, n2, n3) input (cache_new capacity ttl) = (Inr (r1, False), c1)"
    "verify_cached digest verify to_string (now, m2, m3) other c1
      = (Inr (\<lparr>cr_state = state, cr_report_json = to_string report, cr_inserted = n2, cr_ttl = ttl\<rparr>, True), c2)" by blast
  then show ?thesis by simp
qed

theorem cache_ignores_options_witness:
  "sample_verify (sample_input (profile_strict V2_4)) = Inr (Invalid, JNull)
   \<and> (\<exists>r c1 c2. snd (verify_cached sample_digest sample_verify (\<lambda>_. []) (0, 0, 0) (sample_input GENEROUS) (cache_new 4 5)) = c1
    \<and> verify_cached sample_digest sample_verify (\<lambda>_. []) (1, 1, 1) (sample_input (profile_strict V2_4)) c1 = (Inr (r, True), c2)
    \<and> cr_state r = Valid)"
proof -
  have v: "sample_verify (sample_input GENEROUS) = Inr (Valid, JNull)"
    by (simp add: sample_verify_def sample_input_def is_generous_def GENEROUS_def)
  have "sample_verify (sample_input (profile_strict V2_4)) = Inr (Invalid, JNull)"
    by (simp add: sample_verify_def sample_input_def is_generous_def profile_strict_def)
  moreover have "sample_input (profile_strict V2_4) = (sample_input GENEROUS)\<lparr>vi_profile := profile_strict V2_4,
      vi_allowed_certs := None, vi_evidence := vi_evidence (sample_input GENEROUS), vi_cawg_strict_encoding := False\<rparr>"
    by (simp add: sample_input_def)
  ultimately show ?thesis
    using cache_ignores_options [of sample_verify "sample_input GENEROUS" Valid JNull 1 0 5 "sample_input (profile_strict V2_4)"
        False "vi_evidence (sample_input GENEROUS)" None "profile_strict V2_4" sample_digest "\<lambda>_. []" 0 0 4 1 1, OF v] by simp
qed

end
