(* ===== verification/Checkpoint_Lines.thy ===== *)
theory Checkpoint_Lines
  imports Format_Common Report_Json Jumbf
begin

text \<open>
  Append-only text files, \<^verbatim>\<open>c2pa-formats/append_text.rs\<close>: complete lines, checkpoint sentinels in plain text and
  JSON Lines, their references (inline stores in Base64 or external URIs), and the search for the active
  checkpoint. The JSON parser is a parameter: it maps the text of a line to a value, or to nothing.
\<close>

section \<open>Base64\<close>

text \<open>\<open>base64_decode\<close> of \<^verbatim>\<open>c2pa-formats/util.rs\<close>, and the encoder its tests compare it with.\<close>

definition b64_val :: "byte \<Rightarrow> u32 option" where
  "b64_val c =
     (if 65 \<le> c \<and> c \<le> 90 then Some (ucast (c - 65))
      else if 97 \<le> c \<and> c \<le> 122 then Some (ucast (c - 97 + 26))
      else if 48 \<le> c \<and> c \<le> 57 then Some (ucast (c - 48 + 52))
      else if c = 43 then Some 62
      else if c = 47 then Some 63
      else None)"

definition ascii_whitespace :: "byte \<Rightarrow> bool" where
  "ascii_whitespace c \<longleftrightarrow> c = 32 \<or> c = 9 \<or> c = 10 \<or> c = 12 \<or> c = 13"

text \<open>The loop over the four characters of a chunk, from the bit position of the first.\<close>

fun b64_bits :: "nat \<Rightarrow> u32 \<Rightarrow> bytes \<Rightarrow> u32 option" where
  "b64_bits i n [] = Some n"
| "b64_bits i n (c # cs) =
     Option.bind (if c = 61 then Some 0 else b64_val c) (\<lambda>v. b64_bits (i + 1) (n OR push_bit (18 - 6 * i) v) cs)"

definition b64_chunk :: "bytes \<Rightarrow> bytes option" where
  "b64_chunk chunk =
     (if length chunk < 4 then None
      else let pads = length (filter (\<lambda>c. c = 61) chunk)
           in map_option (\<lambda>n. [ucast (drop_bit 16 n)]
                @ (if pads < 2 then [ucast (drop_bit 8 n)] else [])
                @ (if pads < 1 then [ucast n] else [])) (b64_bits 0 0 chunk))"

fun b64_chunks :: "bytes \<Rightarrow> bytes list \<Rightarrow> bytes option" where
  "b64_chunks out [] = Some out"
| "b64_chunks out (chunk # chunks) = Option.bind (b64_chunk chunk) (\<lambda>d. b64_chunks (out @ d) chunks)"

definition base64_decode :: "bytes \<Rightarrow> bytes option" where
  "base64_decode s = b64_chunks [] (chunks_of 4 (filter (\<lambda>b. \<not> ascii_whitespace b) s))"

definition B64_ALPHABET :: bytes where
  "B64_ALPHABET = ascii ''ABCDEFGHIJKLMNOPQRSTUVWXYZabcdefghijklmnopqrstuvwxyz0123456789+/''"

definition b64_sym :: "u32 \<Rightarrow> byte" where
  "b64_sym n = B64_ALPHABET ! unat (n AND 0x3F)"

definition b64_encode_chunk :: "bytes \<Rightarrow> bytes" where
  "b64_encode_chunk chunk =
     (let at = (\<lambda>i. case nth_opt chunk i of Some b \<Rightarrow> ucast b | None \<Rightarrow> 0) :: nat \<Rightarrow> u32;
          n = push_bit 16 (at 0) OR push_bit 8 (at 1) OR at 2
      in [b64_sym (drop_bit 18 n), b64_sym (drop_bit 12 n),
          if length chunk > 1 then b64_sym (drop_bit 6 n) else 61,
          if length chunk > 2 then b64_sym n else 61])"

definition base64_encode :: "bytes \<Rightarrow> bytes" where
  "base64_encode data = concat (map b64_encode_chunk (chunks_of 3 data))"

section \<open>Sentinels\<close>

definition BEGIN_CHECKPOINT :: bytes where "BEGIN_CHECKPOINT = ascii ''-----BEGIN C2PA CHECKPOINT-----''"
definition END_CHECKPOINT :: bytes where "END_CHECKPOINT = ascii ''-----END C2PA CHECKPOINT-----''"
definition JSONL_MEMBER :: string where "JSONL_MEMBER = ''c2pa:checkpoint''"
definition JSONL_NEEDLE :: bytes where "JSONL_NEEDLE = [34] @ ascii ''c2pa:checkpoint'' @ [34]"
definition DATA_URI_PREFIX :: bytes where "DATA_URI_PREFIX = ascii ''data:application/c2pa;base64,''"
definition REFERENCE_WHITESPACE :: bytes where "REFERENCE_WHITESPACE = [32, 9, 10, 13]"

datatype sentinel_reference =
    Inline bytes
  | External string

record sentinel =
  sn_start :: nat
  sn_length :: nat
  sn_reference :: sentinel_reference

datatype located = NoSentinel | MalformedSentinel | ActiveSentinel sentinel

section \<open>Lines\<close>

text \<open>The loop of \<open>complete_lines\<close>: start of the current line, index and rest of the input.\<close>

fun line_loop :: "bytes \<Rightarrow> nat \<Rightarrow> nat \<Rightarrow> bytes \<Rightarrow> (nat \<times> nat \<times> nat) list" where
  "line_loop data start index [] = []"
| "line_loop data start index (b # bs) =
     (if b = 10 then
        (start, if index > start \<and> data ! (index - 1) = 13 then index - 1 else index, index + 1)
          # line_loop data (index + 1) (index + 1) bs
      else line_loop data start (index + 1) bs)"

definition complete_lines :: "bytes \<Rightarrow> (nat \<times> nat \<times> nat) list" where
  "complete_lines data = line_loop data 0 0 data"

fun windows_any :: "bytes \<Rightarrow> bytes \<Rightarrow> bool" where
  "windows_any needle [] = (needle = [])"
| "windows_any needle (b # bs) = (prefix needle (b # bs) \<or> windows_any needle bs)"

fun is_candidate :: "bytes \<Rightarrow> append_only_flavor \<Rightarrow> bool" where
  "is_candidate line PlainText = prefix BEGIN_CHECKPOINT line"
| "is_candidate line JsonLines = windows_any JSONL_NEEDLE line"

definition text_strip_prefix :: "bytes \<Rightarrow> bytes \<Rightarrow> bytes option" where
  "text_strip_prefix p s = (if prefix p s then Some (drop (length p) s) else None)"

definition text_strip_suffix :: "bytes \<Rightarrow> bytes \<Rightarrow> bytes option" where
  "text_strip_suffix p s = (if suffix p s then Some (take (length s - length p) s) else None)"

fun reference_text :: "(bytes \<Rightarrow> json option) \<Rightarrow> bytes \<Rightarrow> append_only_flavor \<Rightarrow> bytes option" where
  "reference_text from_str line flavor =
     (if \<not> utf8_valid line then None
      else case flavor of
        PlainText \<Rightarrow> Option.bind (text_strip_prefix BEGIN_CHECKPOINT line) (text_strip_suffix END_CHECKPOINT)
      | JsonLines \<Rightarrow>
          Option.bind (from_str line) (\<lambda>v.
            case v of
              JObject _ \<Rightarrow> Option.bind (json_get v JSONL_MEMBER) (\<lambda>m. map_option ascii (json_as_str m))
            | _ \<Rightarrow> None))"

section \<open>References\<close>

definition trim_matches :: "bytes \<Rightarrow> bytes \<Rightarrow> bytes" where
  "trim_matches ws s = rev (dropWhile (\<lambda>b. b \<in> set ws) (rev (dropWhile (\<lambda>b. b \<in> set ws) s)))"

definition ascii_alphabetic :: "byte \<Rightarrow> bool" where
  "ascii_alphabetic c \<longleftrightarrow> 65 \<le> c \<and> c \<le> 90 \<or> 97 \<le> c \<and> c \<le> 122"

definition ascii_alphanumeric :: "byte \<Rightarrow> bool" where
  "ascii_alphanumeric c \<longleftrightarrow> ascii_alphabetic c \<or> 48 \<le> c \<and> c \<le> 57"

definition byte_lower :: "byte \<Rightarrow> byte" where
  "byte_lower c = (if 65 \<le> c \<and> c \<le> 90 then c + 32 else c)"

text \<open>\<open>char::is_whitespace\<close> on scalar values: the property \<open>White_Space\<close>.\<close>

definition char_whitespace :: "nat \<Rightarrow> bool" where
  "char_whitespace c \<longleftrightarrow>
     9 \<le> c \<and> c \<le> 13 \<or> c = 32 \<or> c = 0x85 \<or> c = 0xA0 \<or> c = 0x1680 \<or> 0x2000 \<le> c \<and> c \<le> 0x200A
     \<or> c = 0x2028 \<or> c = 0x2029 \<or> c = 0x202F \<or> c = 0x205F \<or> c = 0x3000"

definition text_split_once :: "byte \<Rightarrow> bytes \<Rightarrow> (bytes \<times> bytes) option" where
  "text_split_once sep s = map_option (\<lambda>i. (take i s, drop (i + 1) s)) (position (\<lambda>b. b = sep) s)"

definition scheme_ok :: "bytes \<Rightarrow> bool" where
  "scheme_ok scheme \<longleftrightarrow>
     (case scheme of [] \<Rightarrow> False | c # _ \<Rightarrow> ascii_alphabetic c)
     \<and> list_all (\<lambda>c. ascii_alphanumeric c \<or> c = 43 \<or> c = 45 \<or> c = 46) scheme"

definition resolve_reference :: "bytes \<Rightarrow> sentinel_reference option" where
  "resolve_reference reference =
     (let reference = trim_matches REFERENCE_WHITESPACE reference
      in if reference = [] then None
         else case text_strip_prefix DATA_URI_PREFIX reference of
           Some payload \<Rightarrow>
             (case base64_decode payload of
                None \<Rightarrow> None
              | Some store \<Rightarrow>
                  if store = [] \<or> length store > MAX_MANIFEST_STORE_BYTES then None else Some (Inline store))
         | None \<Rightarrow>
             if 5 \<le> length reference \<and> map byte_lower (take 5 reference) = ascii ''data:'' then None
             else (case text_split_once 58 reference of
                     None \<Rightarrow> None
                   | Some (scheme, rest) \<Rightarrow>
                       if scheme_ok scheme \<and> rest \<noteq> []
                          \<and> \<not> (case utf8_chars reference of Some cs \<Rightarrow> list_ex char_whitespace cs | None \<Rightarrow> True)
                       then Some (External (str_of_bytes reference)) else None))"

section \<open>Location\<close>

definition line_reference :: "(bytes \<Rightarrow> json option) \<Rightarrow> bytes \<Rightarrow> append_only_flavor \<Rightarrow> sentinel_reference option" where
  "line_reference from_str line flavor = Option.bind (reference_text from_str line flavor) resolve_reference"

fun locate_in :: "(bytes \<Rightarrow> json option) \<Rightarrow> bytes \<Rightarrow> append_only_flavor \<Rightarrow> (nat \<times> nat \<times> nat) list \<Rightarrow> located" where
  "locate_in from_str data flavor [] = NoSentinel"
| "locate_in from_str data flavor ((start, content_end, line_end) # ls) =
     (let line = slice data start content_end
      in if \<not> is_candidate line flavor then locate_in from_str data flavor ls
         else case line_reference from_str line flavor of
                Some reference \<Rightarrow>
                  ActiveSentinel \<lparr>sn_start = start, sn_length = line_end - start, sn_reference = reference\<rparr>
              | None \<Rightarrow> MalformedSentinel)"

definition locate_active :: "(bytes \<Rightarrow> json option) \<Rightarrow> bytes \<Rightarrow> append_only_flavor \<Rightarrow> located" where
  "locate_active from_str data flavor = locate_in from_str data flavor (rev (complete_lines data))"

definition sentinel_at :: "(bytes \<Rightarrow> json option) \<Rightarrow> bytes \<Rightarrow> nat \<Rightarrow> append_only_flavor \<Rightarrow> sentinel option" where
  "sentinel_at from_str data start flavor =
     (if start > length data \<or> start > 0 \<and> data ! (start - 1) \<noteq> 10 then None
      else case position (\<lambda>b. b = 10) (drop start data) of
        None \<Rightarrow> None
      | Some newline \<Rightarrow>
          let line_end = start + newline + 1;
              content_end = start + newline;
              content_end = (if content_end > start \<and> data ! (content_end - 1) = 13 then content_end - 1 else content_end);
              line = slice data start content_end
          in if \<not> is_candidate line flavor then None
             else map_option (\<lambda>reference. \<lparr>sn_start = start, sn_length = line_end - start, sn_reference = reference\<rparr>)
                    (line_reference from_str line flavor))"

definition declares_checkpoints :: "bytes \<Rightarrow> append_only_flavor \<Rightarrow> bool" where
  "declares_checkpoints data flavor =
     list_ex (\<lambda>(start, content_end, _). is_candidate (slice data start content_end) flavor) (complete_lines data)"

definition append_extract :: "(bytes \<Rightarrow> json option) \<Rightarrow> bytes \<Rightarrow> append_only_flavor \<Rightarrow> format_error + bytes option" where
  "append_extract from_str data flavor =
     Inr (case locate_active from_str data flavor of
            ActiveSentinel s \<Rightarrow> (case sn_reference s of Inline store \<Rightarrow> Some store | External _ \<Rightarrow> None)
          | _ \<Rightarrow> None)"

definition append_exclusions ::
    "(bytes \<Rightarrow> json option) \<Rightarrow> bytes \<Rightarrow> append_only_flavor \<Rightarrow> format_error + data_hash_exclusion list" where
  "append_exclusions from_str data flavor =
     Inr (case locate_active from_str data flavor of
            ActiveSentinel s \<Rightarrow> [\<lparr>ex_start = sn_start s, ex_length = sn_length s\<rparr>]
          | _ \<Rightarrow> [])"

section \<open>Base64 is inverted\<close>

lemma and_63_take: "n AND 0x3F = take_bit 6 (n :: u32)"
  by (simp add: take_bit_eq_mask mask_eq_exp_minus_1)

lemma unat_take_bit_6: "unat (take_bit 6 (n :: u32)) < 64"
proof -
  have "unat (take_bit 6 n) = take_bit 6 (unat n)" by (rule unsigned_take_bit_eq)
  then show ?thesis by (simp add: take_bit_eq_mod del: take_bit_of_nat)
qed

lemma b64_join:
  fixes n :: u32
  shows "((push_bit 18 (take_bit 6 (drop_bit 18 n)) OR push_bit 12 (take_bit 6 (drop_bit 12 n)))
      OR push_bit 6 (take_bit 6 (drop_bit 6 n))) OR take_bit 6 n = take_bit 24 n"
proof (rule bit_eqI)
  fix k :: nat
  consider "k < 6" | "6 \<le> k" "k < 12" | "12 \<le> k" "k < 18" | "18 \<le> k" "k < 24" | "24 \<le> k"
    by linarith
  then show "bit (((push_bit 18 (take_bit 6 (drop_bit 18 n)) OR push_bit 12 (take_bit 6 (drop_bit 12 n)))
      OR push_bit 6 (take_bit 6 (drop_bit 6 n))) OR take_bit 6 n) k = bit (take_bit 24 n) k"
    by cases (simp_all add: bit_simps, auto dest: bit_imp_le_length)
qed

lemma three_bytes:
  fixes a b c :: byte
  defines "n \<equiv> push_bit 16 (ucast a) OR push_bit 8 (ucast b) OR ucast c :: u32"
  shows "take_bit 24 n = n" and "ucast (drop_bit 16 n) = a" and "ucast (drop_bit 8 n) = b" and "ucast n = c"
proof -
  have "bit n k \<longleftrightarrow> bit c k \<and> k < 8 \<or> 8 \<le> k \<and> bit b (k - 8) \<and> k < 16 \<or> 16 \<le> k \<and> bit a (k - 16) \<and> k < 24" for k
    by (auto simp: n_def bit_simps dest: bit_imp_le_length)
  note n = this
  show "take_bit 24 n = n" by (rule bit_eqI) (auto simp: bit_take_bit_iff n)
  show "ucast (drop_bit 16 n) = a" by (rule bit_eqI) (auto simp: bit_simps n)
  show "ucast (drop_bit 8 n) = b" by (rule bit_eqI) (auto simp: bit_simps n)
  show "ucast n = c" by (rule bit_eqI) (auto simp: bit_simps n)
qed

lemma ucast_of_nat_small: "k < 256 \<Longrightarrow> ucast (word_of_nat k :: byte) = (word_of_nat k :: u32)"
  by (simp add: word_unat_eq_iff unsigned_ucast_eq unat_of_nat take_bit_eq_mod)

lemma B64_ALPHABET_eq:
  "B64_ALPHABET = map (\<lambda>k. word_of_nat (if k < 26 then 65 + k else if k < 52 then 71 + k
      else if k < 62 then k - 4 else if k = 62 then 43 else 47)) [0..<64]"
  by (simp add: B64_ALPHABET_def ascii_def upt_rec)

lemma B64_ALPHABET_facts:
  assumes "k < 64"
  shows "b64_val (B64_ALPHABET ! k) = Some (word_of_nat k) \<and> B64_ALPHABET ! k \<noteq> 61
      \<and> 33 \<le> B64_ALPHABET ! k \<and> B64_ALPHABET ! k < 0x80"
proof -
  define c where "c = (if k < 26 then 65 + k else if k < 52 then 71 + k
      else if k < 62 then k - 4 else if k = 62 then 43 else 47)"
  have n: "B64_ALPHABET ! k = word_of_nat c"
    using assms by (simp add: B64_ALPHABET_eq c_def)
  have c: "c < 128" "33 \<le> c" using assms by (auto simp: c_def)
  then have u: "unat (word_of_nat c :: byte) = c" by (simp add: unat_of_nat)
  note small = ucast_of_nat_small [of k]
  have le: "(a :: byte) \<le> word_of_nat c \<longleftrightarrow> unat a \<le> c" "word_of_nat c \<le> (a :: byte) \<longleftrightarrow> c \<le> unat a"
    "word_of_nat c = (a :: byte) \<longleftrightarrow> c = unat a" for a
    using u by (simp_all add: word_le_nat_alt word_unat_eq_iff)
  consider "k < 26" | "26 \<le> k" "k < 52" | "52 \<le> k" "k < 62" | "k = 62" | "k = 63" using assms by linarith
  then have "b64_val (word_of_nat c) = Some (word_of_nat k)"
  proof cases
    case 1
    then have "(word_of_nat c :: byte) - 65 = word_of_nat k" by (simp add: c_def)
    moreover have "65 \<le> c" "c \<le> 90" using 1 by (simp_all add: c_def)
    ultimately show ?thesis using small assms by (simp add: b64_val_def le)
  next
    case 2
    then have "(word_of_nat c :: byte) - 97 + 26 = word_of_nat k" by (simp add: c_def)
    moreover have "\<not> c \<le> 90" "97 \<le> c" "c \<le> 122" using 2 by (simp_all add: c_def)
    ultimately show ?thesis using small assms by (simp add: b64_val_def le)
  next
    case 3
    then have "(word_of_nat c :: byte) - 48 + 52 = word_of_nat k" by (simp add: c_def of_nat_diff)
    moreover have "c < 65" "48 \<le> c" "c \<le> 57" using 3 by (simp_all add: c_def)
    ultimately show ?thesis using small assms by (simp add: b64_val_def le)
  qed (simp_all add: b64_val_def c_def)
  moreover have "c \<noteq> 61" using assms by (auto simp: c_def)
  ultimately show ?thesis using c u unfolding n by (simp add: le word_less_nat_alt)
qed

lemma b64_sym_facts:
  "b64_val (b64_sym n) = Some (take_bit 6 n)" "b64_sym n \<noteq> 61" "\<not> ascii_whitespace (b64_sym n)"
  "33 \<le> b64_sym n" "b64_sym n < 0x80"
proof -
  have f: "b64_val (b64_sym n) = Some (take_bit 6 n) \<and> b64_sym n \<noteq> 61
      \<and> 33 \<le> b64_sym n \<and> b64_sym n < 0x80"
    using B64_ALPHABET_facts [OF unat_take_bit_6 [of n]] by (simp add: b64_sym_def and_63_take)
  then show "b64_val (b64_sym n) = Some (take_bit 6 n)" "b64_sym n \<noteq> 61" "33 \<le> b64_sym n" "b64_sym n < 0x80" by auto
  show "\<not> ascii_whitespace (b64_sym n)"
    using f by (auto simp: ascii_whitespace_def)
qed

lemma push_take_0 [simp]: "take_bit m (0 :: u32) = 0" by simp

lemma b64_chunk_encode:
  assumes "chunk \<noteq> []" and "length chunk \<le> 3"
  shows "b64_chunk (b64_encode_chunk chunk) = Some chunk"
proof -
  consider a where "chunk = [a]" | a b where "chunk = [a, b]" | a b c where "chunk = [a, b, c]"
    using assms by (auto simp: le_Suc_eq length_Suc_conv numeral_3_eq_3)
  then show ?thesis
  proof cases
    case (1 a)
    note t = three_bytes [of a 0 0] and j = b64_join [of "push_bit 16 (ucast a)"]
    from t(1) have "take_bit 6 (drop_bit 6 (push_bit 16 (ucast a) :: u32)) = 0" "take_bit 6 (push_bit 16 (ucast a) :: u32) = 0"
      by (auto simp: bit_eq_iff bit_simps)
    with t j show ?thesis
      by (simp add: 1 b64_encode_chunk_def b64_chunk_def b64_sym_facts nth_opt_def)
  next
    case (2 a b)
    note t = three_bytes [of a b 0] and j = b64_join [of "push_bit 16 (ucast a) OR push_bit 8 (ucast b)"]
    from t(1) have "take_bit 6 (push_bit 16 (ucast a) OR push_bit 8 (ucast b) :: u32) = 0"
      by (auto simp: bit_eq_iff bit_simps)
    with t j show ?thesis
      by (simp add: 2 b64_encode_chunk_def b64_chunk_def b64_sym_facts nth_opt_def)
  next
    case (3 a b c)
    define n :: u32 where "n = push_bit 16 (ucast a) OR push_bit 8 (ucast b) OR ucast c"
    have e: "b64_encode_chunk [a, b, c] = [b64_sym (drop_bit 18 n), b64_sym (drop_bit 12 n), b64_sym (drop_bit 6 n), b64_sym n]"
      by (simp add: b64_encode_chunk_def nth_opt_def n_def)
    from three_bytes [of a b c, folded n_def] b64_join [of n] show ?thesis
      by (simp add: e b64_chunk_def b64_sym_facts 3)
  qed
qed

lemma chunks_of_Nil [simp]: "chunks_of n [] = []"
  by (simp add: chunks_of.simps)

lemma chunks_of_append: "length xs = n \<Longrightarrow> 0 < n \<Longrightarrow> chunks_of n (xs @ ys) = xs # chunks_of n ys"
  by (subst chunks_of.simps) auto

lemma chunks_of_nonempty: "c \<in> set (chunks_of n xs) \<Longrightarrow> c \<noteq> []"
  by (induction n xs rule: chunks_of.induct) (subst (asm) (2) chunks_of.simps, auto split: if_splits)

lemma b64_encode_chunk_facts:
  "length (b64_encode_chunk chunk) = 4"
  "b \<in> set (b64_encode_chunk chunk) \<Longrightarrow> 33 \<le> b \<and> b < 0x80 \<and> \<not> ascii_whitespace b"
proof -
  show "length (b64_encode_chunk chunk) = 4" by (simp add: b64_encode_chunk_def Let_def)
  assume "b \<in> set (b64_encode_chunk chunk)"
  then have "b = 61 \<or> (\<exists>n. b = b64_sym n)" by (auto simp: b64_encode_chunk_def Let_def split: if_splits)
  then show "33 \<le> b \<and> b < 0x80 \<and> \<not> ascii_whitespace b"
    using b64_sym_facts by (auto simp: ascii_whitespace_def)
qed

lemma base64_encode_bytes:
  "b \<in> set (base64_encode data) \<Longrightarrow> 33 \<le> b \<and> b < 0x80 \<and> \<not> ascii_whitespace b"
  by (auto simp: base64_encode_def dest: b64_encode_chunk_facts(2))

lemma chunks_of_concat:
  "\<forall>x \<in> set xs. length x = n \<Longrightarrow> 0 < n \<Longrightarrow> chunks_of n (concat xs) = xs"
  by (induction xs) (auto simp: chunks_of_append)

lemma b64_chunks_encode:
  "\<forall>x \<in> set xs. x \<noteq> [] \<and> length x \<le> 3 \<Longrightarrow> b64_chunks out (map b64_encode_chunk xs) = Some (out @ concat xs)"
  by (induction xs arbitrary: out) (auto simp: b64_chunk_encode)

lemma base64_roundtrip: "base64_decode (base64_encode data) = Some data"
proof -
  have "filter (\<lambda>b. \<not> ascii_whitespace b) (base64_encode data) = base64_encode data"
    using base64_encode_bytes [of _ data] by (intro filter_True) auto
  moreover have "chunks_of 4 (base64_encode data) = map b64_encode_chunk (chunks_of 3 data)"
    unfolding base64_encode_def by (rule chunks_of_concat) (auto simp: b64_encode_chunk_facts)
  moreover have "\<forall>x \<in> set (chunks_of 3 data). x \<noteq> [] \<and> length x \<le> 3"
    using chunks_of_facts(2) [of 3 _ data] chunks_of_nonempty by auto
  ultimately show ?thesis
    using chunks_of_facts(1) [of 3 data] by (simp add: base64_decode_def b64_chunks_encode)
qed

end
