(* ===== verification/Resource_Cache.thy ===== *)
theory Resource_Cache
  imports Verify_Cache
begin

text \<open>
  External resources of a verification pass: \<open>ExternalResource\<close>, \<open>ExternalResources\<close> and \<open>ResourceCache\<close> of
  \<^verbatim>\<open>c2pa-validate/refs.rs\<close>. A provider is an object behind a trait, so its answer may depend on its own state; here it
  is a function from a state and a URL to an answer and the next state. The cache asks it at most once per URL.
\<close>

section \<open>Definitions\<close>

datatype external_resource =
    NotAttempted
  | Unavailable
  | Retrieved bytes "string option"

record 'p resource_cache =
  rc_provider :: "('p \<Rightarrow> string \<Rightarrow> external_resource \<times> 'p) option"
  rc_state :: 'p
  rc_evidence :: online_evidence
  rc_outcomes :: "string \<rightharpoonup> external_resource"

definition with_evidence ::
    "('p \<Rightarrow> string \<Rightarrow> external_resource \<times> 'p) option \<Rightarrow> 'p \<Rightarrow> online_evidence \<Rightarrow> 'p resource_cache" where
  "with_evidence provider s evidence =
     \<lparr>rc_provider = provider, rc_state = s, rc_evidence = evidence, rc_outcomes = Map.empty\<rparr>"

text \<open>\<open>HashMap::get\<close> on an optional map.\<close>

definition opt_get :: "(string \<times> 'a) list option \<Rightarrow> string \<Rightarrow> 'a option" where
  "opt_get m k = Option.bind m (\<lambda>xs. map_of xs k)"

definition external_is_unreachable :: "online_evidence \<Rightarrow> string \<Rightarrow> bool" where
  "external_is_unreachable evidence uri =
     (case oe_external_data_unreachable evidence of None \<Rightarrow> False | Some entries \<Rightarrow> uri \<in> set entries)"

definition fresh_outcome :: "'p resource_cache \<Rightarrow> string \<Rightarrow> external_resource \<times> 'p" where
  "fresh_outcome cache url =
     (case opt_get (oe_external_data (rc_evidence cache)) url of
        Some bs \<Rightarrow> (Retrieved bs (opt_get (oe_external_data_media_types (rc_evidence cache)) url), rc_state cache)
      | None \<Rightarrow>
          if external_is_unreachable (rc_evidence cache) url then (Unavailable, rc_state cache)
          else case rc_provider cache of
                 None \<Rightarrow> (NotAttempted, rc_state cache)
               | Some provider \<Rightarrow> provider (rc_state cache) url)"

definition cache_resolve :: "string \<Rightarrow> 'p resource_cache \<Rightarrow> external_resource \<times> 'p resource_cache" where
  "cache_resolve url cache =
     (case rc_outcomes cache url of
        Some outcome \<Rightarrow> (outcome, cache)
      | None \<Rightarrow>
          let (outcome, s) = fresh_outcome cache url
          in (outcome, cache\<lparr>rc_outcomes := (rc_outcomes cache)(url \<mapsto> outcome), rc_state := s\<rparr>))"

section \<open>Answers are stable\<close>

definition extends :: "'p resource_cache \<Rightarrow> 'p resource_cache \<Rightarrow> bool" where
  "extends c c' \<longleftrightarrow> rc_provider c' = rc_provider c \<and> rc_evidence c' = rc_evidence c \<and> rc_outcomes c \<subseteq>\<^sub>m rc_outcomes c'"

lemma extends_refl [simp]: "extends c c"
  by (simp add: extends_def)

lemma extends_trans [trans]: "extends c c' \<Longrightarrow> extends c' c'' \<Longrightarrow> extends c c''"
  by (auto simp: extends_def intro: map_le_trans)

lemma cache_resolve_extends: "cache_resolve url c = (r, c') \<Longrightarrow> extends c c' \<and> rc_outcomes c' url = Some r"
  by (auto simp: cache_resolve_def extends_def map_le_def Let_def split: option.splits prod.splits)

lemma cache_resolve_again:
  assumes "cache_resolve url c = (r, c')" and "extends c' c''"
  shows "cache_resolve url c'' = (r, c'')"
proof -
  have "rc_outcomes c'' url = Some r"
    using cache_resolve_extends [OF assms(1)] assms(2) by (auto simp: extends_def map_le_def dom_def)
  then show ?thesis by (simp add: cache_resolve_def)
qed

end
