(* ===== verification/Graph_Budget.thy ===== *)
theory Graph_Budget
  imports Validation_Results
begin

text \<open>
  The ceilings of a verification pass, \<open>GraphLimits\<close>, \<open>Ceiling\<close> and \<open>Budget\<close> of \<^verbatim>\<open>c2pa-validate/ingredient_graph.rs\<close>.
  One budget is charged by the ingredient walk and by the checkpoint chain. Whoever runs out is recorded
  once per ceiling and reported as informational. The redaction index a budget carries is a type parameter.
\<close>

section \<open>Definitions\<close>

record graph_limits =
  max_depth :: nat
  max_nodes :: nat
  max_references :: nat
  max_bytes :: nat

definition graph_limits_DEFAULT :: graph_limits where
  "graph_limits_DEFAULT =
     \<lparr>max_depth = 32, max_nodes = 1024, max_references = 16384, max_bytes = 64 * 1024 * 1024\<rparr>"

definition lowered :: "nat \<Rightarrow> nat \<Rightarrow> nat \<Rightarrow> nat \<Rightarrow> graph_limits" where
  "lowered d n r b =
     \<lparr>max_depth = min d (max_depth graph_limits_DEFAULT), max_nodes = min n (max_nodes graph_limits_DEFAULT),
      max_references = min r (max_references graph_limits_DEFAULT), max_bytes = min b (max_bytes graph_limits_DEFAULT)\<rparr>"

datatype ceiling = Depth | Nodes | References | ByteCount

definition ALL_CEILINGS :: "ceiling list" where
  "ALL_CEILINGS = [Depth, Nodes, References, ByteCount]"

fun ceiling_str :: "ceiling \<Rightarrow> string" where
  "ceiling_str Depth = ''depth''"
| "ceiling_str Nodes = ''nodes''"
| "ceiling_str References = ''references''"
| "ceiling_str ByteCount = ''bytes''"

text \<open>The two arrays indexed by the ceiling are functions of it.\<close>

record 'r budget =
  limits :: graph_limits
  nodes :: nat
  references :: nat
  bg_bytes :: nat
  exhausted :: "ceiling \<Rightarrow> nat option"
  reported :: "ceiling \<Rightarrow> bool"
  redactions :: "'r option"

definition saturating_add :: "nat \<Rightarrow> nat \<Rightarrow> nat" where
  "saturating_add a b = min (a + b) usize_max"

definition budget_new :: "graph_limits \<Rightarrow> 'r budget" where
  "budget_new l =
     \<lparr>limits = lowered (max_depth l) (max_nodes l) (max_references l) (max_bytes l),
      nodes = 0, references = 0, bg_bytes = 0, exhausted = (\<lambda>_. None), reported = (\<lambda>_. False), redactions = None\<rparr>"

definition note_ceiling :: "ceiling \<Rightarrow> nat \<Rightarrow> 'r budget \<Rightarrow> 'r budget" where
  "note_ceiling c observed g =
     (if exhausted g c = None then g\<lparr>exhausted := (exhausted g)(c := Some observed)\<rparr> else g)"

definition charge_node :: "'r budget \<Rightarrow> bool \<times> 'r budget" where
  "charge_node g =
     (if nodes g \<ge> max_nodes (limits g) then (False, note_ceiling Nodes (saturating_add (nodes g) 1) g)
      else (True, g\<lparr>nodes := nodes g + 1\<rparr>))"

definition charge_bytes :: "nat \<Rightarrow> 'r budget \<Rightarrow> bool \<times> 'r budget" where
  "charge_bytes n g =
     (let total = saturating_add (bg_bytes g) n
      in if total > max_bytes (limits g) then (False, note_ceiling ByteCount total g)
         else (True, g\<lparr>bg_bytes := total\<rparr>))"

definition references_left :: "'r budget \<Rightarrow> nat" where
  "references_left g = max_references (limits g) - references g"

definition charge_references :: "nat \<Rightarrow> 'r budget \<Rightarrow> bool \<times> 'r budget" where
  "charge_references count g =
     (let total = saturating_add (references g) count
      in if total > max_references (limits g)
         then (False, (note_ceiling References total g)\<lparr>references := max_references (limits g)\<rparr>)
         else (True, g\<lparr>references := total\<rparr>))"

definition exhaust_references :: "'r budget \<Rightarrow> 'r budget" where
  "exhaust_references g = note_ceiling References (saturating_add (max_references (limits g)) 1) g"

definition charge_depth :: "nat \<Rightarrow> 'r budget \<Rightarrow> bool \<times> 'r budget" where
  "charge_depth depth g =
     (if depth > max_depth (limits g) then (False, note_ceiling Depth depth g) else (True, g))"

definition resource_edge :: "nat \<Rightarrow> 'r budget \<Rightarrow> bool \<times> 'r budget" where
  "resource_edge depth g =
     (let (refs, g) = charge_references 1 g;
          (deep, g) = charge_depth depth g;
          (node, g) = charge_node g
      in (refs \<and> deep \<and> node, g))"

definition resource_bytes :: "nat \<Rightarrow> 'r budget \<Rightarrow> bool \<times> 'r budget" where
  "resource_bytes n g = charge_bytes n g"

definition GRAPH_LIMIT_EXCEEDED :: string where
  "GRAPH_LIMIT_EXCEEDED = ''com.encypher.resource.graphLimitExceeded''"

fun limit_of :: "graph_limits \<Rightarrow> ceiling \<Rightarrow> nat" where
  "limit_of l Depth = max_depth l"
| "limit_of l Nodes = max_nodes l"
| "limit_of l References = max_references l"
| "limit_of l ByteCount = max_bytes l"

definition names_limit :: "string \<Rightarrow> status_code \<Rightarrow> bool" where
  "names_limit name s \<longleftrightarrow>
     sc_code s = GRAPH_LIMIT_EXCEEDED
     \<and> Option.bind (Option.bind (sc_details s) (\<lambda>d. json_get d ''limit'')) json_as_str = Some name"

definition ceiling_status :: "string \<Rightarrow> graph_limits \<Rightarrow> ceiling \<Rightarrow> nat \<Rightarrow> status_code" where
  "ceiling_status active_label l c observed =
     \<lparr>sc_code = GRAPH_LIMIT_EXCEEDED, sc_url = ''self#jumbf=/c2pa/'' @ active_label, sc_resource_url = None,
      sc_explanation = ''verification graph '' @ ceiling_str c @ '' ceiling reached ('' @ fmt_nat (limit_of l c)
        @ ''); traversal stopped. This is a resource outcome and does not affect manifest validity.'',
      sc_details = Some (JObject [(''limit'', JString (ceiling_str c)), (''ceiling'', JInt (int (limit_of l c))),
                                  (''observed'', JInt (int observed))])\<rparr>"

text \<open>One turn of the loop of \<open>report\<close>.\<close>

definition report_ceiling ::
    "string \<Rightarrow> ceiling \<Rightarrow> 'r budget \<times> validation_results \<Rightarrow> 'r budget \<times> validation_results" where
  "report_ceiling active_label c = (\<lambda>(g, results).
     if reported g c then (g, results)
     else case exhausted g c of
       None \<Rightarrow> (g, results)
     | Some observed \<Rightarrow>
         let g = g\<lparr>reported := (reported g)(c := True)\<rparr>
         in if list_ex (names_limit (ceiling_str c)) (informational results) then (g, results)
            else (g, results\<lparr>informational := informational results
                              @ [ceiling_status active_label (limits g) c observed]\<rparr>))"

definition budget_report :: "string \<Rightarrow> 'r budget \<Rightarrow> validation_results \<Rightarrow> 'r budget \<times> validation_results" where
  "budget_report active_label g results =
     foldl (\<lambda>s c. report_ceiling active_label c s) (g, results) ALL_CEILINGS"

section \<open>Charging never overdraws\<close>

definition budget_ok :: "'r budget \<Rightarrow> bool" where
  "budget_ok g \<longleftrightarrow>
     nodes g \<le> max_nodes (limits g) \<and> references g \<le> max_references (limits g) \<and> bg_bytes g \<le> max_bytes (limits g)
     \<and> max_depth (limits g) \<le> max_depth graph_limits_DEFAULT \<and> max_nodes (limits g) \<le> max_nodes graph_limits_DEFAULT
     \<and> max_references (limits g) \<le> max_references graph_limits_DEFAULT \<and> max_bytes (limits g) \<le> max_bytes graph_limits_DEFAULT
     \<and> (\<forall>c observed. exhausted g c = Some observed \<longrightarrow> limit_of (limits g) c < observed)
     \<and> (\<forall>c. reported g c \<longrightarrow> exhausted g c \<noteq> None)"

text \<open>One charge, as the callers of the module make them.\<close>

datatype charge = ChargeNode | ChargeBytes nat | ChargeReferences nat | ChargeDepth nat | ExhaustReferences

fun apply_charge :: "charge \<Rightarrow> 'r budget \<Rightarrow> bool \<times> 'r budget" where
  "apply_charge ChargeNode g = charge_node g"
| "apply_charge (ChargeBytes n) g = charge_bytes n g"
| "apply_charge (ChargeReferences n) g = charge_references n g"
| "apply_charge (ChargeDepth d) g = charge_depth d g"
| "apply_charge ExhaustReferences g = (False, exhaust_references g)"

fun run_charges :: "charge list \<Rightarrow> 'r budget \<Rightarrow> bool list \<times> 'r budget" where
  "run_charges [] g = ([], g)"
| "run_charges (c # cs) g = (let (ok, g) = apply_charge c g; (oks, g) = run_charges cs g in (ok # oks, g))"

lemma budget_new_ok: "budget_ok (budget_new l)"
  by (simp add: budget_ok_def budget_new_def lowered_def)

lemma note_ceiling_simps [simp]:
  "limits (note_ceiling c n g) = limits g" "nodes (note_ceiling c n g) = nodes g"
  "references (note_ceiling c n g) = references g" "bg_bytes (note_ceiling c n g) = bg_bytes g"
  "reported (note_ceiling c n g) = reported g" "redactions (note_ceiling c n g) = redactions g"
  "exhausted (note_ceiling c n g) = (exhausted g)(c := Some (case exhausted g c of Some m \<Rightarrow> m | None \<Rightarrow> n))"
  by (auto simp: note_ceiling_def split: option.splits)

lemma budget_limits_small:
  assumes "budget_ok g"
  shows "limit_of (limits g) c < usize_max"
  using assms by (cases c) (auto simp: budget_ok_def graph_limits_DEFAULT_def usize_max_def)

lemma note_ceiling_ok:
  assumes "budget_ok g" and "limit_of (limits g) c < n"
  shows "budget_ok (note_ceiling c n g)"
  using assms unfolding budget_ok_def by (auto split: option.splits)

lemma saturating_add_less [simp]: "n < usize_max \<Longrightarrow> n < saturating_add a b \<longleftrightarrow> n < a + b"
  by (auto simp: saturating_add_def)

lemma saturating_add_le: "\<not> n < a + b \<Longrightarrow> n < usize_max \<Longrightarrow> saturating_add a b = a + b"
  by (auto simp: saturating_add_def)

text \<open>What every charge does: it keeps the invariant and the limits, and it never takes back what was charged or noted.\<close>

definition charges :: "'r budget \<Rightarrow> bool \<Rightarrow> 'r budget \<Rightarrow> bool" where
  "charges g ok g' \<longleftrightarrow>
     budget_ok g' \<and> limits g' = limits g \<and> reported g' = reported g \<and> redactions g' = redactions g
     \<and> (\<forall>k. exhausted g k \<noteq> None \<longrightarrow> exhausted g' k = exhausted g k)
     \<and> (if ok then exhausted g' = exhausted g else \<exists>k. exhausted g' k \<noteq> None)"

lemma charge_node_ok:
  assumes "budget_ok g" and "charge_node g = (ok, g')"
  shows "charges g ok g'" and "nodes g' = nodes g + (if ok then 1 else 0)" and "bg_bytes g' = bg_bytes g"
  using assms budget_limits_small [OF assms(1), of Nodes] note_ceiling_ok [OF assms(1), of Nodes "saturating_add (nodes g) 1"]
  by (auto simp: charge_node_def charges_def split: if_splits option.splits) (auto simp: budget_ok_def)

lemma charge_bytes_ok:
  assumes "budget_ok g" and "charge_bytes n g = (ok, g')"
  shows "charges g ok g'" and "nodes g' = nodes g" and "bg_bytes g' = bg_bytes g + (if ok then n else 0)"
proof -
  note small = budget_limits_small [OF assms(1), of ByteCount]
  have "ok \<longrightarrow> saturating_add (bg_bytes g) n = bg_bytes g + n"
    using assms(2) small by (auto simp: charge_bytes_def Let_def saturating_add_le split: if_splits)
  with assms small note_ceiling_ok [OF assms(1), of ByteCount "saturating_add (bg_bytes g) n"]
  show "charges g ok g'" "nodes g' = nodes g" "bg_bytes g' = bg_bytes g + (if ok then n else 0)"
    by (auto simp: charge_bytes_def charges_def Let_def split: if_splits option.splits) (auto simp: budget_ok_def)
qed

lemma charge_references_ok:
  assumes "budget_ok g" and "charge_references n g = (ok, g')"
  shows "charges g ok g'" and "nodes g' = nodes g" and "bg_bytes g' = bg_bytes g"
  using assms budget_limits_small [OF assms(1), of References]
    note_ceiling_ok [OF assms(1), of References "saturating_add (references g) n"]
  by (auto simp: charge_references_def charges_def Let_def split: if_splits option.splits)
    (auto simp: budget_ok_def saturating_add_le)

lemma charge_depth_ok:
  assumes "budget_ok g" and "charge_depth d g = (ok, g')"
  shows "charges g ok g'" and "nodes g' = nodes g" and "bg_bytes g' = bg_bytes g"
  using assms note_ceiling_ok [OF assms(1), of Depth d]
  by (auto simp: charge_depth_def charges_def split: if_splits option.splits)

lemma exhaust_references_ok:
  assumes "budget_ok g"
  shows "charges g False (exhaust_references g)"
    and "nodes (exhaust_references g) = nodes g" and "bg_bytes (exhaust_references g) = bg_bytes g"
  using note_ceiling_ok [OF assms, of References] budget_limits_small [OF assms, of References]
  by (auto simp: exhaust_references_def charges_def split: option.splits)

lemma charges_trans: "charges g a g' \<Longrightarrow> charges g' b g'' \<Longrightarrow> charges g (a \<and> b) g''"
  unfolding charges_def by (metis (full_types) option.distinct(1))

fun accepted_bytes :: "charge \<Rightarrow> bool \<Rightarrow> nat" where
  "accepted_bytes (ChargeBytes n) True = n"
| "accepted_bytes _ _ = 0"

lemma apply_charge_ok:
  assumes "budget_ok g" and "apply_charge c g = (ok, g')"
  shows "charges g ok g'" and "nodes g' = nodes g + (if c = ChargeNode \<and> ok then 1 else 0)"
    and "bg_bytes g' = bg_bytes g + accepted_bytes c ok"
proof -
  have "charges g ok g' \<and> nodes g' = nodes g + (if c = ChargeNode \<and> ok then 1 else 0)
      \<and> bg_bytes g' = bg_bytes g + accepted_bytes c ok"
  proof (cases c)
    case ChargeNode
    then show ?thesis using charge_node_ok [OF assms(1)] assms(2) by simp
  next
    case (ChargeBytes n)
    then show ?thesis using charge_bytes_ok [OF assms(1)] assms(2) by (cases ok) simp_all
  next
    case (ChargeReferences n)
    then show ?thesis using charge_references_ok [OF assms(1)] assms(2) by simp
  next
    case (ChargeDepth d)
    then show ?thesis using charge_depth_ok [OF assms(1)] assms(2) by simp
  next
    case ExhaustReferences
    then show ?thesis using exhaust_references_ok [OF assms(1)] assms(2) by auto
  qed
  then show "charges g ok g'" "nodes g' = nodes g + (if c = ChargeNode \<and> ok then 1 else 0)"
    "bg_bytes g' = bg_bytes g + accepted_bytes c ok" by simp_all
qed

lemma run_charges_ok:
  assumes "budget_ok g" and "run_charges cs g = (oks, g')"
  shows "charges g (False \<notin> set oks) g' \<and> length oks = length cs
    \<and> nodes g' = nodes g + length (filter (\<lambda>(c, ok). c = ChargeNode \<and> ok) (zip cs oks))
    \<and> bg_bytes g' = bg_bytes g + sum_list (map2 accepted_bytes cs oks)"
  using assms
proof (induction cs arbitrary: g oks)
  case Nil
  then show ?case by (simp add: charges_def)
next
  case (Cons c cs)
  obtain ok g1 oks' where c: "apply_charge c g = (ok, g1)" and cs: "run_charges cs g1 = (oks', g')" and oks: "oks = ok # oks'"
    using Cons.prems(2) by (auto split: prod.splits)
  note a = apply_charge_ok [OF Cons.prems(1) c]
  from a(1) have "budget_ok g1" by (simp add: charges_def)
  note ih = Cons.IH [OF this cs]
  have "(False \<notin> set oks) = (ok \<and> False \<notin> set oks')" using oks by auto
  with ih a charges_trans [OF a(1), of "False \<notin> set oks'" g'] show ?case by (auto simp: oks)
qed

section \<open>Reporting\<close>

definition due :: "'r budget \<Rightarrow> validation_results \<Rightarrow> ceiling \<Rightarrow> bool" where
  "due g results c \<longleftrightarrow> \<not> reported g c \<and> exhausted g c \<noteq> None
     \<and> \<not> list_ex (names_limit (ceiling_str c)) (informational results)"

lemma names_ceiling_status: "names_limit name (ceiling_status label l c n) \<longleftrightarrow> name = ceiling_str c"
  by (auto simp: names_limit_def ceiling_status_def)

lemma ceiling_str_inject: "ceiling_str c = ceiling_str d \<longleftrightarrow> c = d"
  by (cases c; cases d) simp_all

lemma report_fold:
  assumes "distinct cs"
  shows "foldl (\<lambda>s c. report_ceiling label c s) (g, results) cs =
    (g\<lparr>reported := (\<lambda>c. reported g c \<or> c \<in> set cs \<and> exhausted g c \<noteq> None)\<rparr>,
     results\<lparr>informational := informational results
        @ map (\<lambda>c. ceiling_status label (limits g) c (the (exhausted g c))) (filter (due g results) cs)\<rparr>)"
  using assms
proof (induction cs arbitrary: g results)
  case (Cons c cs)
  let ?r = "report_ceiling label c (g, results)"
  have same: "filter (due (fst ?r) (snd ?r)) cs = filter (due g results) cs"
  proof (rule filter_cong [OF refl])
    fix d assume "d \<in> set cs"
    with Cons.prems have "d \<noteq> c" by auto
    then show "due (fst ?r) (snd ?r) d = due g results d"
      by (auto simp: due_def report_ceiling_def Let_def names_ceiling_status ceiling_str_inject split: option.splits)
  qed
  have "foldl (\<lambda>s c. report_ceiling label c s) (g, results) (c # cs) = foldl (\<lambda>s c. report_ceiling label c s) (fst ?r, snd ?r) cs"
    by simp
  also have "\<dots> = (g\<lparr>reported := (\<lambda>d. reported g d \<or> d \<in> set (c # cs) \<and> exhausted g d \<noteq> None)\<rparr>,
     results\<lparr>informational := informational results
        @ map (\<lambda>c. ceiling_status label (limits g) c (the (exhausted g c))) (filter (due g results) (c # cs))\<rparr>)"
    unfolding Cons.IH [OF distinct.simps(2) [THEN iffD1, THEN conjunct2, OF Cons.prems]] same
    by (auto simp: report_ceiling_def due_def Let_def fun_eq_iff intro!: budget.equality split: option.splits)
  finally show ?case .
qed (simp add: fun_eq_iff)

lemma budget_report_eq:
  "budget_report label g results =
    (g\<lparr>reported := (\<lambda>c. reported g c \<or> exhausted g c \<noteq> None)\<rparr>,
     results\<lparr>informational := informational results
        @ map (\<lambda>c. ceiling_status label (limits g) c (the (exhausted g c))) (filter (due g results) ALL_CEILINGS)\<rparr>)"
proof -
  have "c \<in> set ALL_CEILINGS" for c by (cases c) (simp_all add: ALL_CEILINGS_def)
  moreover have "distinct ALL_CEILINGS" by (simp add: ALL_CEILINGS_def)
  ultimately show ?thesis by (simp add: budget_report_def report_fold)
qed

lemma budget_report_idem:
  "budget_report label g results = (g', results') \<Longrightarrow> budget_report label' g' results' = (g', results')"
proof -
  assume r: "budget_report label g results = (g', results')"
  then have "filter (due g' results') ALL_CEILINGS = []"
    by (auto simp: budget_report_eq due_def filter_empty_conv)
  with r show ?thesis by (auto simp: budget_report_eq fun_eq_iff)
qed

end
