(* ===== verification/Assertion_Labels.thy ===== *)
theory Assertion_Labels
  imports Report_Json Versions
begin

text \<open>
  Assertion labels and the JUMBF URIs that carry them: the label helpers of \<^verbatim>\<open>c2pa-validate/lib.rs\<close>.
\<close>

section \<open>String operations\<close>

text \<open>\<open>str::strip_suffix\<close>, \<open>str::split_once\<close> on a substring, and \<open>str::parse::<usize>\<close>: an optional plus sign and
  decimal digits, at most 64 bits.\<close>

definition strip_suffix :: "string \<Rightarrow> string \<Rightarrow> string option" where
  "strip_suffix p s = (if suffix p s then Some (take (length s - length p) s) else None)"

fun split_once_str :: "string \<Rightarrow> string \<Rightarrow> (string \<times> string) option" where
  "split_once_str sep [] = (if sep = [] then Some ([], []) else None)"
| "split_once_str sep (x # xs) =
     (if prefix sep (x # xs) then Some ([], drop (length sep) (x # xs))
      else map_option (\<lambda>(a, b). (x # a, b)) (split_once_str sep xs))"

definition digits_value :: "string \<Rightarrow> nat" where
  "digits_value s = foldl (\<lambda>n c. 10 * n + (of_char c - 48)) 0 s"

definition parse_usize :: "string \<Rightarrow> nat option" where
  "parse_usize s =
     (let digits = (case s of c # rest \<Rightarrow> if c = CHR ''+'' then rest else s | [] \<Rightarrow> s)
      in if digits \<noteq> [] \<and> list_all is_ascii_digit digits \<and> digits_value digits \<le> usize_max
         then Some (digits_value digits) else None)"

section \<open>Labels\<close>

text \<open>\<open>str::rsplit_once("__")\<close>: the last occurrence.\<close>

fun rsplit_once_uu :: "string \<Rightarrow> (string \<times> string) option" where
  "rsplit_once_uu [] = None"
| "rsplit_once_uu (x # xs) =
     (case rsplit_once_uu xs of
        Some (base, index) \<Rightarrow> Some (x # base, index)
      | None \<Rightarrow> if prefix ''__'' (x # xs) then Some ([], drop 2 (x # xs)) else None)"

definition base_assertion_label :: "string \<Rightarrow> string" where
  "base_assertion_label label =
     (case rsplit_once_uu label of
        Some (base, index) \<Rightarrow> if index \<noteq> [] \<and> list_all is_ascii_digit index then base else label
      | None \<Rightarrow> label)"

lemma rsplit_once_uu_Some: "rsplit_once_uu s = Some (base, index) \<Longrightarrow> s = base @ ''__'' @ index"
  by (induction s arbitrary: base) (auto split: option.splits if_splits simp: prefix_def)

lemma base_assertion_label_prefix: "prefix (base_assertion_label label) label"
  by (auto simp: base_assertion_label_def split: option.splits dest: rsplit_once_uu_Some)

section \<open>References\<close>

fun ref_fields :: "claim_generation \<Rightarrow> string list" where
  "ref_fields ClaimV1 = [''assertions'']"
| "ref_fields ClaimV2 = [''created_assertions'', ''gathered_assertions'']"

text \<open>A nonempty name without a slash, the last part of every exact JUMBF URI.\<close>

definition plain_name :: "string \<Rightarrow> bool" where
  "plain_name s \<longleftrightarrow> s \<noteq> [] \<and> CHR ''/'' \<notin> set s"

definition some_plain :: "string \<Rightarrow> string option" where
  "some_plain s = (if plain_name s then Some s else None)"

definition assertion_label_for_manifest :: "string \<Rightarrow> string \<Rightarrow> string option" where
  "assertion_label_for_manifest url manifest_label =
     (case strip_prefix ''self#jumbf=c2pa.assertions/'' url of
        Some label \<Rightarrow> some_plain label
      | None \<Rightarrow>
          Option.bind (strip_prefix ''self#jumbf=/c2pa/'' url) (\<lambda>rest.
          Option.bind (strip_prefix manifest_label rest) (\<lambda>rest.
          Option.bind (strip_prefix ''/c2pa.assertions/'' rest) some_plain)))"

definition ingredient_manifest_label :: "string \<Rightarrow> string option \<Rightarrow> string option" where
  "ingredient_manifest_label url child =
     Option.bind (strip_prefix ''self#jumbf=/c2pa/'' url) (\<lambda>rest.
     Option.bind (case child of Some child \<Rightarrow> strip_suffix child rest | None \<Rightarrow> Some rest) some_plain)"

definition extract_manifest_label :: "string \<Rightarrow> string option" where
  "extract_manifest_label url =
     Option.bind (strip_prefix ''self#jumbf=/c2pa/'' url) (\<lambda>rest.
       let label = hd (split_on CHR ''/'' rest) in if label = [] then None else Some label)"

definition is_generator_icon_label :: "string \<Rightarrow> bool" where
  "is_generator_icon_label label \<longleftrightarrow>
     label = ''c2pa.icon''
     \<or> (case Option.bind (strip_prefix ''c2pa.icon__'' label) parse_usize of Some instance \<Rightarrow> instance > 0 | None \<Rightarrow> False)"

definition pm_name :: "parsed_manifest \<Rightarrow> string" where
  "pm_name m = str_of_bytes (pm_label m)"

text \<open>\<open>decode(payload).ok()\<close>\<close>

definition decode_ok :: "bytes \<Rightarrow> cbor_value option" where
  "decode_ok payload = (case decode payload of Inr v \<Rightarrow> Some v | Inl _ \<Rightarrow> None)"

definition ingredient_targets :: "parsed_manifest \<Rightarrow> string list" where
  "ingredient_targets manifest =
     concat (map (\<lambda>(label, payload).
       if \<not> prefix ''c2pa.ingredient'' (str_of_bytes label) then []
       else case decode_ok payload of
         None \<Rightarrow> []
       | Some ingredient \<Rightarrow>
           List.map_filter (\<lambda>field.
             Option.bind (get_field ingredient field) (\<lambda>reference.
             Option.bind (text_field reference ''url'') extract_manifest_label)) [''activeManifest'', ''c2pa_manifest''])
       (assertions manifest))"

definition ingredient_manifest_labels :: "parsed_manifest list \<Rightarrow> string set" where
  "ingredient_manifest_labels manifests = set (concat (map ingredient_targets manifests))"

lemma strip_prefix_eq_Some [simp]: "strip_prefix p s = Some r \<longleftrightarrow> s = p @ r"
  by (auto simp: strip_prefix_def prefix_def)

lemma some_plain_eq_Some [simp]: "some_plain s = Some r \<longleftrightarrow> r = s \<and> plain_name s"
  by (auto simp: some_plain_def)

text \<open>An accepted reference names an assertion of the given manifest and nothing else.\<close>

lemma assertion_label_for_manifest_exact:
  "assertion_label_for_manifest url manifest_label = Some label \<Longrightarrow>
     plain_name label
     \<and> (url = ''self#jumbf=c2pa.assertions/'' @ label
        \<or> url = ''self#jumbf=/c2pa/'' @ manifest_label @ ''/c2pa.assertions/'' @ label)"
  by (auto simp: assertion_label_for_manifest_def bind_eq_Some_conv split: option.splits)

lemma str_of_bytes_inject [simp]: "str_of_bytes a = str_of_bytes b \<longleftrightarrow> a = b"
proof -
  have "ascii (str_of_bytes bs) = bs" for bs
    by (induction bs) (simp_all add: str_of_bytes_def ascii_def)
  then show ?thesis by metis
qed

end
