(* ===== verification/Segment_Hash.thy ===== *)
theory Segment_Hash
  imports Checkpoint_Lines Resource_Cache Graph_Budget Assertion_Labels Box_Hash
begin

text \<open>
  The hard binding of append-only text, \<^verbatim>\<open>c2pa-validate/segment_hash.rs\<close>: one segment hash per checkpoint, and the
  walk from the active checkpoint through its predecessors to the first. Slicing the file out of range panics
  in Rust and is \<open>Inl ()\<close> here. The parameters are the JSON parser of sentinel lines (\<open>from_str\<close>), the
  digests (\<open>digest\<close>) and the Brotli decoder of compressed stores (\<open>brotli\<close>).
\<close>

section \<open>Codes and limits\<close>

definition ASSERTION_SEGMENT_HASH_MATCH :: string where
  "ASSERTION_SEGMENT_HASH_MATCH = ''assertion.segmentHash.match''"
definition ASSERTION_SEGMENT_HASH_MISMATCH :: string where
  "ASSERTION_SEGMENT_HASH_MISMATCH = ''assertion.segmentHash.mismatch''"
definition ASSERTION_SEGMENT_HASH_MALFORMED :: string where
  "ASSERTION_SEGMENT_HASH_MALFORMED = ''assertion.segmentHash.malformed''"
definition ASSERTION_SEGMENT_HASH_PARTIAL_COVERAGE :: string where
  "ASSERTION_SEGMENT_HASH_PARTIAL_COVERAGE = ''assertion.segmentHash.partialCoverage''"
definition ASSERTION_SEGMENT_HASH_PREDECESSOR_MISMATCH :: string where
  "ASSERTION_SEGMENT_HASH_PREDECESSOR_MISMATCH = ''assertion.segmentHash.predecessorMismatch''"
definition MANIFEST_INACCESSIBLE :: string where
  "MANIFEST_INACCESSIBLE = ''manifest.inaccessible''"

definition MAX_CHECKPOINT_CHAIN :: nat where "MAX_CHECKPOINT_CHAIN = 4096"
definition MAX_CHAIN_STORE_BYTES :: nat where "MAX_CHAIN_STORE_BYTES = 256 * 1024 * 1024"

section \<open>The assertion\<close>

record predecessor =
  pd_start :: nat
  pd_length :: nat
  pd_hash :: bytes

record segment_hash =
  sg_alg :: string
  sg_hash :: bytes
  sg_start :: nat
  sg_end :: nat
  sg_sentinel_length :: "nat option"
  sg_predecessor :: "predecessor option"

datatype seg_parse_error = Malformed string | Algorithm string

fun seg_uint :: "cbor_value option \<Rightarrow> nat option" where
  "seg_uint (Some (Integer n)) = (if 0 \<le> n \<and> nat n \<le> usize_max then Some (nat n) else None)"
| "seg_uint _ = None"

definition parse_predecessor :: "cbor_value \<Rightarrow> seg_parse_error + predecessor option" where
  "parse_predecessor assertion =
     (case get_field assertion ''predecessorSentinel'' of
        None \<Rightarrow> Inr None
      | Some pmap \<Rightarrow>
          (case (seg_uint (get_field pmap ''start''), seg_uint (get_field pmap ''length''),
                 Option.bind (get_field pmap ''hash'') as_bytes) of
             (Some start, Some len, Some hash) \<Rightarrow>
               Inr (Some \<lparr>pd_start = start, pd_length = len, pd_hash = hash\<rparr>)
           | _ \<Rightarrow> Inl (Malformed ''predecessorSentinel lacks start, length or hash'')))"

definition seg_parse :: "cbor_value \<Rightarrow> cbor_value \<Rightarrow> seg_parse_error + segment_hash" where
  "seg_parse assertion enclosing =
     (if get_field assertion ''version'' \<noteq> Some (Integer 1) then Inl (Malformed ''version is absent or not 1'')
      else
        res_bind (ok_or (Option.bind (get_field assertion ''hash'') as_bytes) (Malformed ''hash is absent'')) (\<lambda>hash.
        res_bind (ok_or (seg_uint (get_field assertion ''segmentStart''))
                   (Malformed ''segmentStart is absent or not an unsigned integer'')) (\<lambda>start.
        res_bind (ok_or (seg_uint (get_field assertion ''segmentEnd''))
                   (Malformed ''segmentEnd is absent or not an unsigned integer'')) (\<lambda>e.
        if e < start then Inl (Malformed ''segmentEnd is less than segmentStart'')
        else
        res_bind (case get_field assertion ''sentinelLength'' of
                    None \<Rightarrow> Inr None
                  | v \<Rightarrow> res_bind (ok_or (seg_uint v) (Malformed ''sentinelLength is not an unsigned integer''))
                          (\<lambda>n. Inr (Some n))) (\<lambda>sentinel_length.
        res_bind (parse_predecessor assertion) (\<lambda>pred.
        res_bind (ok_or (resolved_hash_algorithm [assertion, enclosing])
                   (Algorithm ''segment hash names no hash algorithm'')) (\<lambda>alg.
        if \<not> is_allowed_hash_algorithm alg
        then Inl (Algorithm (''segment hash uses unsupported hash algorithm '' @ [CHR 0x27] @ alg @ [CHR 0x27]))
        else Inr \<lparr>sg_alg = alg, sg_hash = hash, sg_start = start, sg_end = e,
                   sg_sentinel_length = sentinel_length, sg_predecessor = pred\<rparr>)))))))"

section \<open>One checkpoint\<close>

definition seg_sentinel_at ::
    "(bytes \<Rightarrow> json option) \<Rightarrow> bytes \<Rightarrow> nat \<Rightarrow> append_only_flavor option \<Rightarrow> sentinel option" where
  "seg_sentinel_at from_str data start flavor =
     (case flavor of
        Some fl \<Rightarrow> sentinel_at from_str data start fl
      | None \<Rightarrow>
          (case sentinel_at from_str data start PlainText of
             Some s \<Rightarrow> Some s
           | None \<Rightarrow> sentinel_at from_str data start JsonLines))"

fun is_external :: "sentinel_reference \<Rightarrow> bool" where
  "is_external (External _) = True"
| "is_external (Inline _) = False"

text \<open>\<open>&data[start..end]\<close> under the hasher of \<open>hash_bytes\<close>.\<close>

definition hash_range :: "digest \<Rightarrow> string \<Rightarrow> bytes \<Rightarrow> nat \<Rightarrow> nat \<Rightarrow> bytes option panics" where
  "hash_range digest alg data start e =
     (if start \<le> e \<and> e \<le> length data then Inr (hash_bytes digest alg (slice data start e)) else Inl ())"

definition check_segment ::
    "digest \<Rightarrow> (bytes \<Rightarrow> json option) \<Rightarrow> segment_hash \<Rightarrow> bytes \<Rightarrow> append_only_flavor option \<Rightarrow> nat option
      \<Rightarrow> string \<Rightarrow> validation_results \<Rightarrow> (sentinel option \<times> validation_results) panics" where
  "check_segment digest from_str segment data flavor expected_sentinel_start url results =
     (case seg_sentinel_at from_str data (sg_end segment) flavor of
        None \<Rightarrow> Inr (None, push_failure ASSERTION_SEGMENT_HASH_MISMATCH url
                  ''the sentinel line carrying this manifest does not begin at segmentEnd'' results)
      | Some sentinel \<Rightarrow>
          if (case expected_sentinel_start of None \<Rightarrow> False | Some start \<Rightarrow> start \<noteq> sn_start sentinel)
          then Inr (None, push_failure ASSERTION_SEGMENT_HASH_MISMATCH url
                  ''the sentinel line carrying this manifest does not begin at segmentEnd'' results)
          else let external = is_external (sn_reference sentinel)
               in if external \<noteq> (sg_sentinel_length segment \<noteq> None)
                  then Inr (None, push_failure ASSERTION_SEGMENT_HASH_MALFORMED url
                         (if external
                          then ''sentinelLength is absent although the sentinel references an external store''
                          else ''sentinelLength is present although the sentinel carries the store inline'') results)
                  else res_bind (hash_range digest (sg_alg segment) data (sg_start segment) (sg_end segment)) (\<lambda>d.
                         if d \<noteq> Some (sg_hash segment)
                         then Inr (None, push_failure ASSERTION_SEGMENT_HASH_MISMATCH url
                                (''segment ['' @ fmt_nat (sg_start segment) @ '', '' @ fmt_nat (sg_end segment)
                                   @ '') does not hash to the recorded value'') results)
                         else Inr (Some sentinel, results)))"

definition check_start :: "segment_hash \<Rightarrow> string \<Rightarrow> validation_results \<Rightarrow> bool \<times> validation_results" where
  "check_start segment url results =
     (let expected = (case sg_predecessor segment of
                        None \<Rightarrow> Some 0
                      | Some p \<Rightarrow> checked_add (pd_start p) (pd_length p))
      in if expected = Some (sg_start segment) then (True, results)
         else (False, push_failure ASSERTION_SEGMENT_HASH_PARTIAL_COVERAGE url
                (case sg_predecessor segment of
                   None \<Rightarrow> ''the first checkpoint's segment does not start at byte 0''
                 | Some _ \<Rightarrow> ''the segment does not start immediately after the preceding sentinel line'') results))"

record predecessor_checkpoint =
  pc_manifest_label :: bytes
  pc_assertion_label :: bytes
  pc_manifest_bytes :: nat
  pc_segment :: "seg_parse_error + segment_hash"

definition is_segment_label :: "bytes \<Rightarrow> bool" where
  "is_segment_label label \<longleftrightarrow> base_assertion_label (str_of_bytes label) = ''c2pa.hash.segment''"

definition checkpoint_of_manifest :: "parsed_manifest \<Rightarrow> string + predecessor_checkpoint" where
  "checkpoint_of_manifest manifest =
     res_bind (ok_or (Option.bind (claim_cbor manifest) (\<lambda>bs. case decode bs of Inr v \<Rightarrow> Some v | Inl _ \<Rightarrow> None))
                 ''predecessor checkpoint claim cannot be decoded'') (\<lambda>claim.
       case filter (\<lambda>(label, _). is_segment_label label) (assertions manifest) of
         [(assertion_label, payload)] \<Rightarrow>
           Inr \<lparr>pc_manifest_label = pm_label manifest, pc_assertion_label = assertion_label,
                pc_manifest_bytes = length (manifest_jumbf manifest),
                pc_segment = (case decode payload of
                                Inr assertion \<Rightarrow> seg_parse assertion claim
                              | Inl _ \<Rightarrow> Inl (Malformed ''segment hash CBOR is invalid''))\<rparr>
       | _ \<Rightarrow> Inl ''predecessor checkpoint does not carry exactly one c2pa.hash.segment'')"

definition predecessor_checkpoint_of ::
    "(bytes \<Rightarrow> bytes list \<times> bool) \<Rightarrow> bytes \<Rightarrow> string + predecessor_checkpoint" where
  "predecessor_checkpoint_of brotli store =
     res_bind (map_err (\<lambda>_. ''predecessor store is not a manifest store'') (expand_store brotli store)) (\<lambda>expanded.
     res_bind (map_err (\<lambda>_. ''predecessor store is not a manifest store'')
                 (parse_manifest_store (es_bytes expanded))) (\<lambda>manifests.
     if manifests = [] then Inl ''predecessor store contains no manifest''
     else checkpoint_of_manifest (last manifests)))"

fun schema_defect :: "cbor_value \<Rightarrow> cbor_value \<Rightarrow> (string \<times> string) option" where
  "schema_defect assertion claim =
     (case seg_parse assertion claim of
        Inr _ \<Rightarrow> None
      | Inl (Malformed why) \<Rightarrow> Some (ASSERTION_SEGMENT_HASH_MALFORMED, why)
      | Inl (Algorithm why) \<Rightarrow> Some (ALGORITHM_UNSUPPORTED, why))"

fun push_parse_error :: "seg_parse_error \<Rightarrow> string \<Rightarrow> validation_results \<Rightarrow> validation_results" where
  "push_parse_error (Malformed why) url results = push_failure ASSERTION_SEGMENT_HASH_MALFORMED url why results"
| "push_parse_error (Algorithm why) url results = push_failure ALGORITHM_UNSUPPORTED url why results"

section \<open>The chain\<close>

text \<open>
  What the loop of \<open>verify_chain\<close> carries from one turn to the next. A turn either leaves the function
  (\<open>Inl\<close> the final state) or goes on.
\<close>

record ('p, 'r) chain_state =
  ch_current :: segment_hash
  ch_url :: string
  ch_decoded :: nat
  ch_resources :: "'p resource_cache"
  ch_budget :: "'r budget"
  ch_results :: validation_results

type_synonym ('p, 'r) chain_turn = "(('p, 'r) chain_state + ('p, 'r) chain_state) panics"

definition chain_return ::
    "(validation_results \<Rightarrow> validation_results) \<Rightarrow> ('p, 'r) chain_state \<Rightarrow> ('p, 'r) chain_turn" where
  "chain_return f st = Inr (Inl (st\<lparr>ch_results := f (ch_results st)\<rparr>))"

definition history_details :: "nat \<Rightarrow> json" where
  "history_details start =
     JObject [(''checkpoint_sentinel_start'', JInt (int start)), (''history'', JString ''unverified'')]"

text \<open>The store a sentinel line references: the store, or the informational outcome that ends the walk.\<close>

definition chain_store ::
    "predecessor \<Rightarrow> sentinel_reference \<Rightarrow> ('p, 'r) chain_state \<Rightarrow> bytes option \<times> ('p, 'r) chain_state" where
  "chain_store pred reference st =
     (case reference of
        Inline store \<Rightarrow> (Some store, st)
      | External uri \<Rightarrow>
          (case cache_resolve uri (ch_resources st) of
             (Retrieved bs _, cache) \<Rightarrow> (Some bs, st\<lparr>ch_resources := cache\<rparr>)
           | (Unavailable, cache) \<Rightarrow>
               (None, st\<lparr>ch_resources := cache, ch_results :=
                  push_informational_with_details MANIFEST_INACCESSIBLE uri
                    ''an earlier checkpoint's external manifest store could not be retrieved; that segment and every earlier one are unverified''
                    (history_details (pd_start pred)) (ch_results st)\<rparr>)
           | (NotAttempted, cache) \<Rightarrow>
               (let r = push_informational_with_details MANIFEST_INACCESSIBLE uri
                          ''an earlier checkpoint's manifest store is external and was not supplied; that segment and every earlier one are unverified''
                          (history_details (pd_start pred)) (ch_results st)
                in (None, st\<lparr>ch_resources := cache, ch_results :=
                      r\<lparr>network_needs := push_unique (network_needs r) (ExternalData uri ''c2pa.hash.segment'')\<rparr>\<rparr>))))"

text \<open>The turn after the store was obtained: decode it and check the segment it declares.\<close>

definition chain_checkpoint ::
    "digest \<Rightarrow> (bytes \<Rightarrow> json option) \<Rightarrow> (bytes \<Rightarrow> bytes list \<times> bool) \<Rightarrow> bytes \<Rightarrow> append_only_flavor option
      \<Rightarrow> predecessor \<Rightarrow> bytes \<Rightarrow> ('p, 'r) chain_state \<Rightarrow> ('p, 'r) chain_turn" where
  "chain_checkpoint digest from_str brotli data flavor pred store st =
     (case predecessor_checkpoint_of brotli store of
        Inl why \<Rightarrow> chain_return (push_failure ASSERTION_SEGMENT_HASH_MALFORMED (ch_url st) why) st
      | Inr checkpoint \<Rightarrow>
          (case resource_bytes (pc_manifest_bytes checkpoint) (ch_budget st) of (within, g) \<Rightarrow>
             let st = st\<lparr>ch_budget := g\<rparr>;
                 url = ''self#jumbf=/c2pa/'' @ str_of_bytes (pc_manifest_label checkpoint) @ ''/c2pa.assertions/''
                        @ str_of_bytes (pc_assertion_label checkpoint)
             in if \<not> within
                then chain_return (push_informational MANIFEST_INACCESSIBLE (ch_url st)
                       ''earlier checkpoint stores exceed the graph limits; earlier history is unverified'') st
                else case pc_segment checkpoint of
                  Inl error \<Rightarrow> chain_return (push_parse_error error url) st
                | Inr segment \<Rightarrow>
                    if sg_end segment > length data
                    then chain_return (push_failure ASSERTION_SEGMENT_HASH_MISMATCH url
                           ''segmentEnd lies beyond the end of the file'') st
                    else res_bind (check_segment digest from_str segment data flavor (Some (pd_start pred)) url (ch_results st))
                      (\<lambda>(sentinel, results).
                        if sentinel = None then chain_return (\<lambda>_. results) st
                        else case check_start segment url results of (starts, results) \<Rightarrow>
                          if \<not> starts then chain_return (\<lambda>_. results) st
                          else if (case sg_sentinel_length segment of None \<Rightarrow> False | Some n \<Rightarrow> n \<noteq> pd_length pred)
                          then chain_return (\<lambda>_. push_failure ASSERTION_SEGMENT_HASH_PARTIAL_COVERAGE url
                                 ''sentinelLength disagrees with the sentinel line the next checkpoint located'' results) st
                          else Inr (Inr (st\<lparr>ch_current := segment, ch_url := url,
                                 ch_results := push_success ASSERTION_SEGMENT_HASH_MATCH url
                                   (''earlier checkpoint segment ['' @ fmt_nat (sg_start segment) @ '', ''
                                      @ fmt_nat (sg_end segment) @ '') hash valid'') results\<rparr>)))))"

definition chain_step ::
    "digest \<Rightarrow> (bytes \<Rightarrow> json option) \<Rightarrow> (bytes \<Rightarrow> bytes list \<times> bool) \<Rightarrow> bytes \<Rightarrow> append_only_flavor option
      \<Rightarrow> nat \<Rightarrow> ('p, 'r) chain_state \<Rightarrow> ('p, 'r) chain_turn" where
  "chain_step digest from_str brotli data flavor depth st =
     (case sg_predecessor (ch_current st) of
        None \<Rightarrow> chain_return id st
      | Some pred \<Rightarrow>
          res_bind (case checked_add (pd_start pred) (pd_length pred) of
                      None \<Rightarrow> Inr None
                    | Some e \<Rightarrow> if e \<le> length data
                                 then hash_range digest (sg_alg (ch_current st)) data (pd_start pred) e
                                 else Inr None) (\<lambda>d.
          if d \<noteq> Some (pd_hash pred)
          then chain_return (push_failure ASSERTION_SEGMENT_HASH_PREDECESSOR_MISMATCH (ch_url st)
                 ''the preceding sentinel line does not hash to predecessorSentinel.hash'') st
          else case seg_sentinel_at from_str data (pd_start pred) flavor of
            None \<Rightarrow> chain_return (push_failure ASSERTION_SEGMENT_HASH_PREDECESSOR_MISMATCH (ch_url st)
                      ''predecessorSentinel does not locate a complete checkpoint sentinel line'') st
          | Some line \<Rightarrow>
              if sn_length line \<noteq> pd_length pred
              then chain_return (push_failure ASSERTION_SEGMENT_HASH_PREDECESSOR_MISMATCH (ch_url st)
                     ''predecessorSentinel does not locate a complete checkpoint sentinel line'') st
              else case resource_edge depth (ch_budget st) of (within, g) \<Rightarrow>
                let st = st\<lparr>ch_budget := g\<rparr>
                in if \<not> within
                   then chain_return (push_informational MANIFEST_INACCESSIBLE (ch_url st)
                          ''earlier checkpoint stores exceed the graph limits; earlier history is unverified'') st
                   else case chain_store pred (sn_reference line) st of
                     (None, st) \<Rightarrow> chain_return id st
                   | (Some store, st) \<Rightarrow>
                       let st = st\<lparr>ch_decoded := saturating_add (ch_decoded st) (length store)\<rparr>
                       in if ch_decoded st > MAX_CHAIN_STORE_BYTES \<or> length store > MAX_MANIFEST_STORE_BYTES
                          then chain_return (push_informational MANIFEST_INACCESSIBLE (ch_url st)
                                 ''earlier checkpoint stores exceed the verifier bound; earlier history is unverified'') st
                          else chain_checkpoint digest from_str brotli data flavor pred store st))"

fun chain_loop ::
    "digest \<Rightarrow> (bytes \<Rightarrow> json option) \<Rightarrow> (bytes \<Rightarrow> bytes list \<times> bool) \<Rightarrow> bytes \<Rightarrow> append_only_flavor option
      \<Rightarrow> nat list \<Rightarrow> ('p, 'r) chain_state \<Rightarrow> ('p, 'r) chain_state panics" where
  "chain_loop digest from_str brotli data flavor [] st =
     Inr (if sg_predecessor (ch_current st) \<noteq> None
          then st\<lparr>ch_results := push_informational MANIFEST_INACCESSIBLE (ch_url st)
                 ''the checkpoint chain exceeds the verifier bound; earlier history is unverified'' (ch_results st)\<rparr>
          else st)"
| "chain_loop digest from_str brotli data flavor (depth # depths) st =
     res_bind (chain_step digest from_str brotli data flavor depth st) (\<lambda>turn.
       case turn of Inl st \<Rightarrow> Inr st | Inr st \<Rightarrow> chain_loop digest from_str brotli data flavor depths st)"

definition verify_chain ::
    "digest \<Rightarrow> (bytes \<Rightarrow> json option) \<Rightarrow> (bytes \<Rightarrow> bytes list \<times> bool) \<Rightarrow> segment_hash \<Rightarrow> bytes
      \<Rightarrow> append_only_flavor option \<Rightarrow> string \<Rightarrow> 'p resource_cache \<Rightarrow> 'r budget \<Rightarrow> validation_results
      \<Rightarrow> ('p, 'r) chain_state panics" where
  "verify_chain digest from_str brotli active data flavor active_url resources g results =
     chain_loop digest from_str brotli data flavor [1..<MAX_CHECKPOINT_CHAIN + 1]
       \<lparr>ch_current = active, ch_url = active_url, ch_decoded = 0, ch_resources = resources, ch_budget = g,
        ch_results = results\<rparr>"

text \<open>\<open>verify\<close>: the resources, the budget and the results afterwards.\<close>

definition segment_verify ::
    "digest \<Rightarrow> (bytes \<Rightarrow> json option) \<Rightarrow> (bytes \<Rightarrow> bytes list \<times> bool) \<Rightarrow> cbor_value option \<Rightarrow> cbor_value \<Rightarrow> bytes
      \<Rightarrow> append_only_flavor option \<Rightarrow> nat option \<Rightarrow> bool \<Rightarrow> string \<Rightarrow> 'p resource_cache \<Rightarrow> 'r budget
      \<Rightarrow> validation_results \<Rightarrow> ('p resource_cache \<times> 'r budget \<times> validation_results) panics" where
  "segment_verify digest from_str brotli assertion claim data flavor active_sentinel binding_compromised url resources g results =
     (case assertion of
        None \<Rightarrow> Inr (resources, g, push_failure ASSERTION_SEGMENT_HASH_MALFORMED url ''segment hash CBOR is invalid'' results)
      | Some assertion \<Rightarrow>
          (case seg_parse assertion claim of
             Inl error \<Rightarrow> Inr (resources, g, push_parse_error error url results)
           | Inr segment \<Rightarrow>
               if sg_end segment > length data
               then Inr (resources, g, push_failure ASSERTION_SEGMENT_HASH_MISMATCH url
                      ''segmentEnd lies beyond the end of the file'' results)
               else res_bind (check_segment digest from_str segment data flavor active_sentinel url results)
                 (\<lambda>(sentinel, results).
                   case sentinel of
                     None \<Rightarrow> Inr (resources, g, results)
                   | Some sentinel \<Rightarrow>
                       let boundary = checked_add (sg_end segment)
                             (case sg_sentinel_length segment of Some n \<Rightarrow> n | None \<Rightarrow> sn_length sentinel)
                       in if boundary \<noteq> Some (length data)
                          then Inr (resources, g, push_failure ASSERTION_SEGMENT_HASH_PARTIAL_COVERAGE url
                                 ''the active checkpoint's sentinel line does not end at the end of the file'' results)
                          else case check_start segment url results of (starts, results) \<Rightarrow>
                            if \<not> starts then Inr (resources, g, results)
                            else let results = (if \<not> binding_compromised
                                   then push_success ASSERTION_SEGMENT_HASH_MATCH url
                                          (''segment ['' @ fmt_nat (sg_start segment) @ '', '' @ fmt_nat (sg_end segment)
                                             @ '') hash valid'') results
                                   else results)
                                 in res_bind (verify_chain digest from_str brotli segment data flavor url resources g results)
                                      (\<lambda>st. Inr (ch_resources st, ch_budget st, ch_results st)))))"

end
