(* ===== verification/Checkpoint_Properties.thy ===== *)
theory Checkpoint_Properties
  imports Checkpoint_Lines Spans
begin

text \<open>
  Locating checkpoints: the complete lines of a file tile it up to its last line feed, \<open>sentinel_at\<close> reads the line
  that begins at an offset, and \<open>locate_active\<close> finds the last candidate line.
\<close>

section \<open>The complete lines of a file\<close>

definition content_end_of :: "bytes \<Rightarrow> nat \<Rightarrow> nat \<Rightarrow> nat" where
  "content_end_of data start index = (if index > start \<and> data ! (index - 1) = 13 then index - 1 else index)"

definition is_line :: "bytes \<Rightarrow> nat \<times> nat \<times> nat \<Rightarrow> bool" where
  "is_line data = (\<lambda>(s, c, e). s < e \<and> e \<le> length data \<and> (s = 0 \<or> data ! (s - 1) = 10) \<and> data ! (e - 1) = 10
     \<and> (\<forall>i. s \<le> i \<and> i < e - 1 \<longrightarrow> data ! i \<noteq> 10) \<and> c = content_end_of data s (e - 1))"

text \<open>Where the last complete line ends.\<close>

definition line_span :: "nat \<times> nat \<times> nat \<Rightarrow> span" where
  "line_span = (\<lambda>(s, c, e). (s, e))"

lemma nth_of_drop: "b # bs = drop i xs \<Longrightarrow> i < length xs \<and> b = xs ! i \<and> bs = drop (i + 1) xs"
  by (metis Cons_nth_drop_Suc Suc_eq_plus1 drop_all list.distinct(1) list.inject not_le)

lemma line_loop_lines:
  assumes "bs = drop index data" and "start \<le> index" and "index \<le> length data"
    and "start = 0 \<or> data ! (start - 1) = 10" and "\<forall>i. start \<le> i \<and> i < index \<longrightarrow> data ! i \<noteq> 10"
  shows "(\<forall>l \<in> set (line_loop data start index bs). is_line data l)
    \<and> (\<exists>b. tiles start (map line_span (line_loop data start index bs)) b \<and> b \<le> length data
        \<and> (\<forall>i. b \<le> i \<and> i < length data \<longrightarrow> data ! i \<noteq> 10))"
  using assms
proof (induction data start index bs rule: line_loop.induct)
  case (1 data start index)
  then have "index = length data" by simp
  with 1 show ?case by auto
next
  case (2 data start index b bs)
  then have b: "b = data ! index" "index < length data" "bs = drop (index + 1) data"
    using nth_of_drop [OF 2(3)] by simp_all
  show ?case
  proof (cases "b = 10")
    case True
    have l: "is_line data (start, content_end_of data start index, index + 1)"
      using 2 b True by (auto simp: is_line_def)
    have "(\<forall>l \<in> set (line_loop data (index + 1) (index + 1) bs). is_line data l)
      \<and> (\<exists>b. tiles (index + 1) (map line_span (line_loop data (index + 1) (index + 1) bs)) b \<and> b \<le> length data
          \<and> (\<forall>i. b \<le> i \<and> i < length data \<longrightarrow> data ! i \<noteq> 10))"
      by (rule 2(1) [OF True b(3)]) (use b True in auto)
    then obtain e where "tiles (index + 1) (map line_span (line_loop data (index + 1) (index + 1) bs)) e"
      "e \<le> length data" "\<forall>i. e \<le> i \<and> i < length data \<longrightarrow> data ! i \<noteq> 10"
      and ls: "\<forall>l \<in> set (line_loop data (index + 1) (index + 1) bs). is_line data l"
      by blast
    with l ls True 2(4) show ?thesis
      by (auto simp: content_end_of_def line_span_def intro!: exI [of _ e])
  next
    case False
    have "line_loop data start index (b # bs) = line_loop data start (index + 1) bs" using False by simp
    moreover have "\<forall>i. start \<le> i \<and> i < index + 1 \<longrightarrow> data ! i \<noteq> 10" using 2(7) b False by (auto simp: less_Suc_eq)
    ultimately show ?thesis using 2(2) [OF False b(3)] 2(4,6) b by simp
  qed
qed

lemma complete_lines_ok:
  "l \<in> set (complete_lines data) \<Longrightarrow> is_line data l"
  "\<exists>b. tiles 0 (map line_span (complete_lines data)) b \<and> b \<le> length data
        \<and> (\<forall>i. b \<le> i \<and> i < length data \<longrightarrow> data ! i \<noteq> 10)"
  using line_loop_lines [of data 0 data 0] by (auto simp: complete_lines_def)

lemma is_lineD:
  assumes "is_line data (s, c, e)"
  shows "s < e" "e \<le> length data" "s = 0 \<or> data ! (s - 1) = 10" "data ! (e - 1) = 10"
    "c = content_end_of data s (e - 1)" and "s \<le> i \<Longrightarrow> i < e - 1 \<Longrightarrow> data ! i \<noteq> 10"
  using assms by (auto simp: is_line_def)

lemma is_line_same_end:
  assumes "is_line data (s, c, e)" and "is_line data (s', c', e')" and "s' < e" and "s < e'"
  shows "e' \<le> e"
proof (rule ccontr)
  assume "\<not> e' \<le> e"
  then have "s' \<le> e - 1" "e - 1 < e' - 1" using assms(3) is_lineD(1) [OF assms(1)] by linarith+
  with is_lineD(6) [OF assms(2)] is_lineD(4) [OF assms(1)] show False by blast
qed

lemma is_line_same_start:
  assumes "is_line data (s, c, e)" and "is_line data (s', c', e')" and "s' < e" and "s < e'"
  shows "s' \<le> s"
proof (rule ccontr)
  assume "\<not> s' \<le> s"
  then have "s \<le> s' - 1" "s' - 1 < e - 1" "s' \<noteq> 0" using assms(3) by linarith+
  with is_lineD(6) [OF assms(1)] is_lineD(3) [OF assms(2)] show False by blast
qed

text \<open>Lines that share a byte are the same line.\<close>

lemma is_line_overlap:
  assumes "is_line data (s, c, e)" and "is_line data (s', c', e')" and "s' < e" and "s < e'"
  shows "s' = s \<and> c' = c \<and> e' = e"
proof -
  have "s' = s" "e' = e"
    using is_line_same_start [OF assms] is_line_same_start [OF assms(2,1,4,3)]
      is_line_same_end [OF assms] is_line_same_end [OF assms(2,1,4,3)] by auto
  with is_lineD(5) [OF assms(1)] is_lineD(5) [OF assms(2)] show ?thesis by simp
qed

lemma is_line_complete:
  assumes "is_line data (s, c, e)"
  shows "(s, c, e) \<in> set (complete_lines data)"
proof -
  obtain b where t: "tiles 0 (map line_span (complete_lines data)) b"
    and b: "\<forall>i. b \<le> i \<and> i < length data \<longrightarrow> data ! i \<noteq> 10"
    using complete_lines_ok(2) by blast
  note l = is_lineD [OF assms]
  have "e - 1 < b" using b l by (metis (no_types, lifting) Suc_pred' le_neq_implies_less less_Suc_eq_le less_imp_diff_less not_le zero_less_iff_neq_zero not_less_zero)
  then obtain s' e' where "(s', e') \<in> set (map line_span (complete_lines data))" "s' \<le> e - 1" "e - 1 < e'"
    using tiles_covers [OF t, of "e - 1"] by blast
  moreover then obtain c' where m: "(s', c', e') \<in> set (complete_lines data)" by (auto simp: line_span_def)
  ultimately have "s' = s \<and> c' = c \<and> e' = e"
    using is_line_overlap [OF assms complete_lines_ok(1) [OF m]] l(1) by linarith
  with m show ?thesis by simp
qed

lemma complete_lines_iff: "(s, c, e) \<in> set (complete_lines data) \<longleftrightarrow> is_line data (s, c, e)"
  using complete_lines_ok(1) is_line_complete by blast

section \<open>Sentinels\<close>

lemma sentinel_at_line:
  "sentinel_at from_str data start flavor = Some s \<longleftrightarrow>
     (\<exists>c e reference. is_line data (start, c, e) \<and> is_candidate (slice data start c) flavor
        \<and> line_reference from_str (slice data start c) flavor = Some reference
        \<and> s = \<lparr>sn_start = start, sn_length = e - start, sn_reference = reference\<rparr>)"
proof (cases "start > length data \<or> start > 0 \<and> data ! (start - 1) \<noteq> 10")
  case True
  then show ?thesis by (auto simp: sentinel_at_def is_line_def)
next
  case False
  show ?thesis
  proof (cases "position (\<lambda>b. b = 10) (drop start data)")
    case None
    have "data ! i \<noteq> 10" if "start \<le> i" "i < length data" for i
    proof -
      have "drop start data ! (i - start) \<in> set (drop start data)" using that by (intro nth_mem) simp
      with None that show ?thesis by (auto simp: position_None)
    qed
    then have "\<not> is_line data (start, c, e)" for c e by (auto simp: is_line_def)
    with None False show ?thesis by (auto simp: sentinel_at_def)
  next
    case (Some n)
    have n: "n < length data - start" "data ! (start + n) = 10" "\<forall>j < n. data ! (start + j) \<noteq> 10"
      using position_Some [OF Some] by auto
    have "data ! i \<noteq> 10" if "start \<le> i" "i < start + n" for i
      using n(3) that by (metis add_diff_inverse_nat less_diff_conv2 add.commute not_le)
    with n False have l: "is_line data (start, content_end_of data start (start + n), start + n + 1)"
      by (auto simp: is_line_def)
    have u: "is_line data (start, c, e) \<longleftrightarrow> c = content_end_of data start (start + n) \<and> e = start + n + 1" for c e
      using l is_line_overlap [OF l] is_lineD(1) by blast
    from Some False show ?thesis
      by (auto simp: sentinel_at_def u Let_def content_end_of_def)
  qed
qed

lemma locate_in_find:
  "locate_in from_str data flavor ls =
     (case find (\<lambda>(a, c, e). is_candidate (slice data a c) flavor) ls of
        None \<Rightarrow> NoSentinel
      | Some (a, c, e) \<Rightarrow>
          (case line_reference from_str (slice data a c) flavor of
             Some reference \<Rightarrow> ActiveSentinel \<lparr>sn_start = a, sn_length = e - a, sn_reference = reference\<rparr>
           | None \<Rightarrow> MalformedSentinel))"
  by (induction ls) (auto simp: Let_def)

lemma find_descending:
  assumes "sorted_wrt (\<lambda>x y. (key y :: nat) < key x) xs"
  shows "find P xs = Some x \<longleftrightarrow> x \<in> set xs \<and> P x \<and> (\<forall>y \<in> set xs. P y \<longrightarrow> key y \<le> key x)"
  using assms
proof (induction xs)
  case (Cons y xs)
  then show ?case by (cases "P y") (auto intro: less_imp_le)
qed simp

lemma complete_lines_ascending: "sorted_wrt (\<lambda>x y. fst y < fst x) (rev (complete_lines data))"
proof -
  obtain b where t: "tiles 0 (map line_span (complete_lines data)) b" using complete_lines_ok(2) by blast
  have "sorted_wrt (\<lambda>x y. snd (line_span x) \<le> fst (line_span y)) (complete_lines data)"
    using tiles_disjoint [OF t] by (simp add: sorted_wrt_map)
  then have "sorted_wrt (\<lambda>x y. fst x < fst y) (complete_lines data)"
    by (rule sorted_wrt_mono_rel [rotated]) (auto simp: line_span_def dest!: complete_lines_ok(1) dest: is_lineD(1))
  then show ?thesis by (simp add: sorted_wrt_rev)
qed

lemma locate_active_iff:
  "locate_active from_str data flavor = ActiveSentinel s \<longleftrightarrow>
     sentinel_at from_str data (sn_start s) flavor = Some s
     \<and> (\<forall>(a, c, e) \<in> set (complete_lines data). is_candidate (slice data a c) flavor \<longrightarrow> a \<le> sn_start s)"
proof -
  let ?P = "\<lambda>(a, c, e). is_candidate (slice data a c) flavor"
  have f: "find ?P (rev (complete_lines data)) = Some (a, c, e) \<longleftrightarrow>
      is_line data (a, c, e) \<and> is_candidate (slice data a c) flavor
      \<and> (\<forall>y \<in> set (complete_lines data). ?P y \<longrightarrow> fst y \<le> a)" for a c e
    by (simp add: find_descending [OF complete_lines_ascending] complete_lines_iff)
  have split: "(\<forall>(a, c, e) \<in> set (complete_lines data). is_candidate (slice data a c) flavor \<longrightarrow> a \<le> n)
      \<longleftrightarrow> (\<forall>y \<in> set (complete_lines data). ?P y \<longrightarrow> fst y \<le> n)" for n by auto
  show ?thesis
  proof
    assume "locate_active from_str data flavor = ActiveSentinel s"
    then obtain a c e r where "find ?P (rev (complete_lines data)) = Some (a, c, e)"
      "line_reference from_str (slice data a c) flavor = Some r" "s = \<lparr>sn_start = a, sn_length = e - a, sn_reference = r\<rparr>"
      unfolding locate_active_def locate_in_find by (auto split: option.splits)
    then show "sentinel_at from_str data (sn_start s) flavor = Some s
      \<and> (\<forall>(a, c, e) \<in> set (complete_lines data). is_candidate (slice data a c) flavor \<longrightarrow> a \<le> sn_start s)"
      unfolding split f sentinel_at_line by auto
  next
    assume "sentinel_at from_str data (sn_start s) flavor = Some s
      \<and> (\<forall>(a, c, e) \<in> set (complete_lines data). is_candidate (slice data a c) flavor \<longrightarrow> a \<le> sn_start s)"
    then obtain c e r where "is_line data (sn_start s, c, e)" "is_candidate (slice data (sn_start s) c) flavor"
      "line_reference from_str (slice data (sn_start s) c) flavor = Some r"
      and s: "s = \<lparr>sn_start = sn_start s, sn_length = e - sn_start s, sn_reference = r\<rparr>"
      and "\<forall>y \<in> set (complete_lines data). ?P y \<longrightarrow> fst y \<le> sn_start s"
      unfolding split sentinel_at_line by blast
    then have "find ?P (rev (complete_lines data)) = Some (sn_start s, c, e)"
      "line_reference from_str (slice data (sn_start s) c) flavor = Some r"
      unfolding f by blast+
    with s show "locate_active from_str data flavor = ActiveSentinel s"
      unfolding locate_active_def locate_in_find by simp
  qed
qed

section \<open>An inline checkpoint is read back\<close>

definition inline_sentinel :: "bytes \<Rightarrow> bytes" where
  "inline_sentinel store =
     BEGIN_CHECKPOINT @ [32] @ DATA_URI_PREFIX @ base64_encode store @ [32] @ END_CHECKPOINT"

lemma base64_encode_ne: "store \<noteq> [] \<Longrightarrow> base64_encode store \<noteq> []"
  using base64_roundtrip [of store] by (auto simp: base64_decode_def)

lemma trim_inner:
  assumes "w \<in> set ws" and "s \<noteq> []" and "hd s \<notin> set ws" and "last s \<notin> set ws"
  shows "trim_matches ws (w # s @ [w]) = s"
proof -
  have "dropWhile (\<lambda>b. b \<in> set ws) (s @ [w]) = s @ [w]" using assms by (cases s) auto
  moreover have "dropWhile (\<lambda>b. b \<in> set ws) (rev s) = rev s" using assms by (cases s rule: rev_cases) auto
  ultimately show ?thesis using assms(1) by (simp add: trim_matches_def)
qed

lemma trim_reference:
  assumes "store \<noteq> []"
  shows "trim_matches REFERENCE_WHITESPACE ([32] @ DATA_URI_PREFIX @ base64_encode store @ [32])
    = DATA_URI_PREFIX @ base64_encode store"
proof -
  have "last (base64_encode store) \<in> set (base64_encode store)" using base64_encode_ne [OF assms] by simp
  then have "last (base64_encode store) \<notin> set REFERENCE_WHITESPACE"
    using base64_encode_bytes by (auto simp: REFERENCE_WHITESPACE_def ascii_whitespace_def)
  moreover have "DATA_URI_PREFIX \<noteq> []" "hd DATA_URI_PREFIX \<notin> set REFERENCE_WHITESPACE"
    by (simp_all add: DATA_URI_PREFIX_def ascii_def REFERENCE_WHITESPACE_def)
  ultimately show ?thesis
    using trim_inner [of 32 REFERENCE_WHITESPACE "DATA_URI_PREFIX @ base64_encode store"] base64_encode_ne [OF assms]
    by (simp add: REFERENCE_WHITESPACE_def)
qed

lemma resolve_inline:
  assumes "store \<noteq> []" and "length store \<le> MAX_MANIFEST_STORE_BYTES"
  shows "resolve_reference ([32] @ DATA_URI_PREFIX @ base64_encode store @ [32]) = Some (Inline store)"
  using assms base64_encode_ne [OF assms(1)]
  by (simp add: resolve_reference_def trim_reference [simplified] text_strip_prefix_def base64_roundtrip)

lemma sentinel_texts:
  "\<forall>b \<in> set BEGIN_CHECKPOINT \<union> set END_CHECKPOINT \<union> set DATA_URI_PREFIX. 32 \<le> b \<and> b < 0x80"
  by (simp add: BEGIN_CHECKPOINT_def END_CHECKPOINT_def DATA_URI_PREFIX_def ascii_def)

lemma inline_sentinel_bytes: "b \<in> set (inline_sentinel store) \<Longrightarrow> 32 \<le> b \<and> b < 0x80"
  using sentinel_texts base64_encode_bytes [of b store] unfolding inline_sentinel_def
  by (auto intro: order_trans [of 32 33])

lemma line_reference_inline:
  assumes "store \<noteq> []" and "length store \<le> MAX_MANIFEST_STORE_BYTES"
  shows "line_reference from_str (inline_sentinel store) PlainText = Some (Inline store)"
proof -
  have "utf8_valid (inline_sentinel store)" by (rule utf8_valid_ascii) (auto dest: inline_sentinel_bytes)
  with resolve_inline [OF assms] show ?thesis
    by (simp add: line_reference_def inline_sentinel_def text_strip_prefix_def text_strip_suffix_def suffix_def)
qed

lemma last_line:
  assumes "pre = [] \<or> last pre = 10" and "\<forall>b \<in> set content. 32 \<le> b" and "content \<noteq> []" and "eol = [10] \<or> eol = [13, 10]"
  shows "is_line (pre @ content @ eol) (length pre, length pre + length content, length (pre @ content @ eol))"
proof -
  let ?d = "pre @ content @ eol"
  have at: "?d ! i = content ! (i - length pre)" "?d ! i \<noteq> 10 \<and> ?d ! i \<noteq> 13" if "length pre \<le> i" "i < length pre + length content" for i
  proof -
    have "i - length pre < length content" using that by linarith
    with that show "?d ! i = content ! (i - length pre)" by (simp add: nth_append)
    moreover have "content ! (i - length pre) \<in> set content" using that by (intro nth_mem) auto
    ultimately show "?d ! i \<noteq> 10 \<and> ?d ! i \<noteq> 13" using assms(2) by fastforce
  qed
  have "pre \<noteq> [] \<Longrightarrow> ?d ! (length pre - 1) = 10"
    using assms(1) by (cases pre rule: rev_cases) (auto simp: nth_append)
  moreover have "?d ! (length ?d - 1) = 10" using assms(4) by (auto simp: nth_append)
  moreover have "?d ! i \<noteq> 10" if "length pre \<le> i" "i < length ?d - 1" for i
  proof (cases "i < length pre + length content")
    case False
    then have "?d ! i = 13" using that assms(4) by (auto simp: nth_append)
    then show ?thesis by simp
  qed (use at that in blast)
  moreover have "content_end_of ?d (length pre) (length ?d - 1) = length pre + length content"
    using assms(3,4) at(2) [of "length pre + length content - 1"] by (auto simp: content_end_of_def nth_append)
  ultimately show ?thesis using assms(3) by (auto simp: is_line_def)
qed

lemma locate_inline:
  assumes "pre = [] \<or> last pre = 10" and "eol = [10] \<or> eol = [13, 10]"
    and "store \<noteq> []" and "length store \<le> MAX_MANIFEST_STORE_BYTES"
  shows "locate_active from_str (pre @ inline_sentinel store @ eol) PlainText =
    ActiveSentinel \<lparr>sn_start = length pre, sn_length = length (inline_sentinel store @ eol), sn_reference = Inline store\<rparr>"
proof -
  let ?d = "pre @ inline_sentinel store @ eol"
  have ne: "inline_sentinel store \<noteq> []" by (simp add: inline_sentinel_def)
  note l = last_line [OF assms(1) _ ne assms(2)]
  have l: "is_line ?d (length pre, length pre + length (inline_sentinel store), length ?d)"
    by (rule l) (auto dest: inline_sentinel_bytes)
  have s: "slice ?d (length pre) (length pre + length (inline_sentinel store)) = inline_sentinel store"
    by (simp add: slice_append_mid)
  have "prefix BEGIN_CHECKPOINT (inline_sentinel store)" by (simp add: inline_sentinel_def)
  moreover have "a \<le> length pre" if "is_line ?d (a, c, e)" for a c e
    using is_line_overlap [OF l that] is_lineD(1,2) [OF that] by (metis le_less_linear less_le_trans nat_less_le)
  moreover have "sentinel_at from_str ?d (length pre) PlainText =
      Some \<lparr>sn_start = length pre, sn_length = length ?d - length pre, sn_reference = Inline store\<rparr>"
    unfolding sentinel_at_line using l s line_reference_inline [OF assms(3,4)] calculation(1)
    by (metis is_candidate.simps(1))
  ultimately show ?thesis
    unfolding locate_active_iff by (auto simp: complete_lines_iff)
qed

end
