(* ===== verification/Segment_Properties.thy ===== *)
theory Segment_Properties
  imports Segment_Hash Checkpoint_Properties
begin

text \<open>
  What a checkpoint chain that raises no objection proves about a file: the segments and the sentinel lines between
  them cover the file from its first byte to the active sentinel, each with a digest that was compared.
\<close>

section \<open>Verified checkpoints\<close>

definition checkpoint_ok ::
    "digest \<Rightarrow> (bytes \<Rightarrow> json option) \<Rightarrow> bytes \<Rightarrow> append_only_flavor option \<Rightarrow> segment_hash \<Rightarrow> sentinel \<Rightarrow> bool" where
  "checkpoint_ok digest from_str data flavor seg s \<longleftrightarrow>
     sg_start seg \<le> sg_end seg \<and> sg_end seg \<le> length data
     \<and> seg_sentinel_at from_str data (sg_end seg) flavor = Some s
     \<and> (is_external (sn_reference s) \<longleftrightarrow> sg_sentinel_length seg \<noteq> None)
     \<and> hash_bytes digest (sg_alg seg) (slice data (sg_start seg) (sg_end seg)) = Some (sg_hash seg)"

text \<open>The later of two consecutive checkpoints names the sentinel line of the earlier one, with its digest.\<close>

definition follows ::
    "digest \<Rightarrow> bytes \<Rightarrow> segment_hash \<Rightarrow> segment_hash \<Rightarrow> sentinel \<Rightarrow> bool" where
  "follows digest data later earlier s \<longleftrightarrow>
     sg_start later = sg_end earlier + sn_length s
     \<and> (\<exists>p. sg_predecessor later = Some p \<and> pd_start p = sg_end earlier \<and> pd_length p = sn_length s
          \<and> hash_bytes digest (sg_alg later) (slice data (sg_end earlier) (sg_start later)) = Some (pd_hash p))
     \<and> (\<forall>n. sg_sentinel_length earlier = Some n \<longrightarrow> n = sn_length s)"

fun chain_ok ::
    "digest \<Rightarrow> (bytes \<Rightarrow> json option) \<Rightarrow> bytes \<Rightarrow> append_only_flavor option \<Rightarrow> (segment_hash \<times> sentinel) list \<Rightarrow> bool" where
  "chain_ok digest from_str data flavor [] = False"
| "chain_ok digest from_str data flavor [(seg, s)] =
     (checkpoint_ok digest from_str data flavor seg s \<and> sg_start seg = 0 \<and> sg_predecessor seg = None)"
| "chain_ok digest from_str data flavor ((seg, s) # (seg', s') # rest) =
     (checkpoint_ok digest from_str data flavor seg s \<and> follows digest data seg seg' s'
      \<and> chain_ok digest from_str data flavor ((seg', s') # rest))"

definition problems :: "validation_results \<Rightarrow> nat" where
  "problems r = length (failure r) + length (informational r)"

lemma problems_push [simp]:
  "problems (push_failure c u e r) = Suc (problems r)"
  "problems (push_informational c u e r) = Suc (problems r)"
  "problems (push_informational_with_details c u e d r) = Suc (problems r)"
  "problems (push_success c u e r) = problems r"
  "problems (r\<lparr>network_needs := ns\<rparr>) = problems r"
  by (simp_all add: problems_def push_failure_def push_informational_def push_informational_with_details_def push_success_def)

lemma problems_push_parse_error [simp]: "problems (push_parse_error e u r) = Suc (problems r)"
  by (cases e) simp_all

section \<open>The sentinel position\<close>

lemma seg_sentinel_at_start: "seg_sentinel_at from_str data start flavor = Some s \<Longrightarrow>
    sn_start s = start \<and> 0 < sn_length s \<and> start + sn_length s \<le> length data"
  by (auto simp: seg_sentinel_at_def sentinel_at_line is_line_def split: option.splits)

lemma check_segment_ok:
  assumes "sg_start segment \<le> sg_end segment" and "sg_end segment \<le> length data"
  shows "\<exists>s r'. check_segment digest from_str segment data flavor expected url r = Inr (s, r')
    \<and> (case s of
         None \<Rightarrow> problems r' = Suc (problems r)
       | Some s \<Rightarrow> r' = r \<and> checkpoint_ok digest from_str data flavor segment s
           \<and> (\<forall>n. expected = Some n \<longrightarrow> n = sg_end segment))"
  using assms seg_sentinel_at_start
  by (fastforce simp: check_segment_def checkpoint_ok_def hash_range_def Let_def split: option.splits)

lemma check_start_ok:
  "check_start segment url r = (ok, r') \<Longrightarrow>
     (if ok then r' = r \<and> sg_start segment = (case sg_predecessor segment of None \<Rightarrow> 0 | Some p \<Rightarrow> pd_start p + pd_length p)
      else problems r' = Suc (problems r))"
  by (auto simp: check_start_def Let_def split: if_splits option.splits)

lemma seg_parse_ok: "seg_parse assertion claim = Inr segment \<Longrightarrow> sg_start segment \<le> sg_end segment"
  by (auto simp: seg_parse_def res_simps split: if_splits)

lemma checkpoint_of_manifest_ok:
  assumes "checkpoint_of_manifest manifest = Inr c"
  obtains claim payload where "pc_segment c = (case decode payload of
      Inr assertion \<Rightarrow> seg_parse assertion claim | Inl _ \<Rightarrow> Inl (Malformed ''segment hash CBOR is invalid''))"
proof -
  obtain claim where "(case filter (\<lambda>(label, _). is_segment_label label) (assertions manifest) of
         [(assertion_label, payload)] \<Rightarrow>
           Inr \<lparr>pc_manifest_label = pm_label manifest, pc_assertion_label = assertion_label,
                pc_manifest_bytes = length (manifest_jumbf manifest),
                pc_segment = (case decode payload of
                                Inr assertion \<Rightarrow> seg_parse assertion claim
                              | Inl _ \<Rightarrow> Inl (Malformed ''segment hash CBOR is invalid''))\<rparr>
       | _ \<Rightarrow> Inl ''predecessor checkpoint does not carry exactly one c2pa.hash.segment'') = Inr c"
    using assms unfolding checkpoint_of_manifest_def res_bind_eq_Inr by blast
  then show thesis
    by (cases "filter (\<lambda>(label, _). is_segment_label label) (assertions manifest)" rule: remdups_adj.cases)
      (auto intro: that)
qed

lemma predecessor_checkpoint_ok:
  assumes "predecessor_checkpoint_of brotli store = Inr c" and "pc_segment c = Inr segment"
  shows "sg_start segment \<le> sg_end segment"
proof -
  obtain m where "checkpoint_of_manifest m = Inr c"
    using assms(1) by (auto simp: predecessor_checkpoint_of_def res_simps split: if_splits)
  then show ?thesis
    using assms(2) by (elim checkpoint_of_manifest_ok) (auto split: sum.splits intro: seg_parse_ok)
qed

section \<open>The walk\<close>

text \<open>
  What one turn establishes: it ends the walk at the first checkpoint or with a new failure or informational
  status, or it moves on to a checkpoint that the current one follows.
\<close>

definition turn_ok ::
    "digest \<Rightarrow> (bytes \<Rightarrow> json option) \<Rightarrow> bytes \<Rightarrow> append_only_flavor option \<Rightarrow> predecessor \<Rightarrow> validation_results
      \<Rightarrow> ('p, 'r) chain_turn \<Rightarrow> bool" where
  "turn_ok digest from_str data flavor pred r turn \<longleftrightarrow>
     (\<exists>st'. turn = Inr (Inl st') \<and> problems (ch_results st') = Suc (problems r))
     \<or> (\<exists>st' s. turn = Inr (Inr st') \<and> problems (ch_results st') = problems r
          \<and> checkpoint_ok digest from_str data flavor (ch_current st') s
          \<and> pd_start pred = sg_end (ch_current st')
          \<and> sg_start (ch_current st')
              = (case sg_predecessor (ch_current st') of None \<Rightarrow> 0 | Some p \<Rightarrow> pd_start p + pd_length p)
          \<and> (\<forall>n. sg_sentinel_length (ch_current st') = Some n \<longrightarrow> n = pd_length pred))"

lemma turn_ok_return: "(\<And>r. problems (f r) = Suc (problems r)) \<Longrightarrow> problems (ch_results st) = problems r \<Longrightarrow>
    turn_ok digest from_str data flavor pred r (chain_return f st)"
  by (simp add: turn_ok_def chain_return_def)

lemma chain_checkpoint_ok:
  "turn_ok digest from_str data flavor pred (ch_results st)
     (chain_checkpoint digest from_str brotli data flavor pred store st)"
proof (cases "predecessor_checkpoint_of brotli store")
  case (Inl why)
  then show ?thesis by (simp add: chain_checkpoint_def turn_ok_return)
next
  case (Inr c)
  obtain within g where g: "resource_bytes (pc_manifest_bytes c) (ch_budget st) = (within, g)" by fastforce
  show ?thesis
  proof (cases "pc_segment c")
    case (Inl error)
    then show ?thesis using Inr g by (simp add: chain_checkpoint_def turn_ok_return Let_def)
  next
    case (Inr seg)
    note c = \<open>predecessor_checkpoint_of brotli store = Inr c\<close>
    show ?thesis
    proof (cases "within \<and> sg_end seg \<le> length data")
      case False
      then show ?thesis using Inr g c
        by (cases within) (simp_all add: chain_checkpoint_def turn_ok_return not_le Let_def)
    next
      case True
      define url where "url = ''self#jumbf=/c2pa/'' @ str_of_bytes (pc_manifest_label c) @ ''/c2pa.assertions/''
                        @ str_of_bytes (pc_assertion_label c)"
      from True have le: "sg_end seg \<le> length data" by simp
      from check_segment_ok [OF predecessor_checkpoint_ok [OF c Inr] le, of digest from_str flavor "Some (pd_start pred)" url "ch_results st"]
      obtain s r1 where cs: "check_segment digest from_str seg data flavor (Some (pd_start pred)) url (ch_results st) = Inr (s, r1)"
        and s: "case s of None \<Rightarrow> problems r1 = Suc (problems (ch_results st))
          | Some s \<Rightarrow> r1 = ch_results st \<and> checkpoint_ok digest from_str data flavor seg s
              \<and> (\<forall>n. Some (pd_start pred) = Some n \<longrightarrow> n = sg_end seg)"
        by blast
      obtain ok r2 where st: "check_start seg url r1 = (ok, r2)" by fastforce
      define st1 where "st1 = st\<lparr>ch_budget := g\<rparr>"
      have eq: "chain_checkpoint digest from_str brotli data flavor pred store st =
        (if s = None then chain_return (\<lambda>_. r1) st1
         else if \<not> ok then chain_return (\<lambda>_. r2) st1
         else if (case sg_sentinel_length seg of None \<Rightarrow> False | Some n \<Rightarrow> n \<noteq> pd_length pred)
         then chain_return (\<lambda>_. push_failure ASSERTION_SEGMENT_HASH_PARTIAL_COVERAGE url
                ''sentinelLength disagrees with the sentinel line the next checkpoint located'' r2) st1
         else Inr (Inr (st1\<lparr>ch_current := seg, ch_url := url,
                ch_results := push_success ASSERTION_SEGMENT_HASH_MATCH url
                  (''earlier checkpoint segment ['' @ fmt_nat (sg_start seg) @ '', ''
                     @ fmt_nat (sg_end seg) @ '') hash valid'') r2\<rparr>)))"
        using True cs c Inr g st unfolding chain_checkpoint_def url_def st1_def by (simp add: Let_def)
      show ?thesis
      proof (cases s)
        case None
        with s show ?thesis by (simp add: eq turn_ok_def chain_return_def)
      next
        case (Some s')
        with s check_start_ok [OF st] show ?thesis
          unfolding eq turn_ok_def chain_return_def by (auto split: if_splits option.splits)
      qed
    qed
  qed
qed

lemma chain_store_ok:
  "chain_store pred reference st = (store, st') \<Longrightarrow>
     ch_current st' = ch_current st \<and> ch_url st' = ch_url st
     \<and> problems (ch_results st') = (if store = None then Suc (problems (ch_results st)) else problems (ch_results st))"
  by (auto simp: chain_store_def Let_def split: sentinel_reference.splits prod.splits external_resource.splits)

lemma chain_store_results: "chain_store pred reference st = (Some store, st') \<Longrightarrow> ch_results st' = ch_results st"
  by (auto simp: chain_store_def Let_def split: sentinel_reference.splits prod.splits external_resource.splits)

text \<open>The predecessor a turn works on, with the digest of its sentinel line.\<close>

definition line_ok :: "digest \<Rightarrow> (bytes \<Rightarrow> json option) \<Rightarrow> bytes \<Rightarrow> append_only_flavor option \<Rightarrow> segment_hash \<Rightarrow> predecessor \<Rightarrow> bool" where
  "line_ok digest from_str data flavor seg pred \<longleftrightarrow>
     hash_bytes digest (sg_alg seg) (slice data (pd_start pred) (pd_start pred + pd_length pred)) = Some (pd_hash pred)
     \<and> (\<exists>s. seg_sentinel_at from_str data (pd_start pred) flavor = Some s \<and> sn_length s = pd_length pred)"

lemma chain_step_ok:
  assumes "sg_predecessor (ch_current st) = Some pred"
  shows "turn_ok digest from_str data flavor pred (ch_results st) (chain_step digest from_str brotli data flavor depth st)
    \<and> (\<forall>st'. chain_step digest from_str brotli data flavor depth st = Inr (Inr st') \<longrightarrow>
         line_ok digest from_str data flavor (ch_current st) pred)"
proof -
  define d where "d = (case checked_add (pd_start pred) (pd_length pred) of
      None \<Rightarrow> Inr None
    | Some e \<Rightarrow> if e \<le> length data then hash_range digest (sg_alg (ch_current st)) data (pd_start pred) e else Inr None)"
  obtain d' where d': "d = Inr d'"
    by (cases "checked_add (pd_start pred) (pd_length pred)";
        cases "pd_start pred + pd_length pred \<le> length data") (simp_all add: d_def hash_range_def)
  have hash: "d' = Some h \<Longrightarrow>
      hash_bytes digest (sg_alg (ch_current st)) (slice data (pd_start pred) (pd_start pred + pd_length pred)) = Some h" for h
    using d' by (auto simp: d_def hash_range_def split: option.splits if_splits)
  obtain within g where g: "resource_edge depth (ch_budget st) = (within, g)" by fastforce
  show ?thesis
  proof (cases "d' = Some (pd_hash pred) \<and>
      (\<exists>s. seg_sentinel_at from_str data (pd_start pred) flavor = Some s \<and> sn_length s = pd_length pred) \<and> within")
    case False
    then show ?thesis
      by (auto simp: chain_step_def assms d_def [symmetric] d' g turn_ok_def chain_return_def Let_def split: option.splits)
  next
    case True
    then obtain s where s: "seg_sentinel_at from_str data (pd_start pred) flavor = Some s" "sn_length s = pd_length pred"
      by blast
    have l: "line_ok digest from_str data flavor (ch_current st) pred"
      using True hash s by (auto simp: line_ok_def)
    obtain store st1 where store: "chain_store pred (sn_reference s) (st\<lparr>ch_budget := g\<rparr>) = (store, st1)" by fastforce
    show ?thesis
    proof (cases store)
      case None
      with True s store chain_store_ok [OF store] show ?thesis
        by (simp add: chain_step_def assms d_def [symmetric] d' g turn_ok_def chain_return_def)
    next
      case (Some bs)
      then have r: "ch_results st1 = ch_results st" using chain_store_results store by fastforce
      define st2 where "st2 = st1\<lparr>ch_decoded := saturating_add (ch_decoded st1) (length bs)\<rparr>"
      have eq: "chain_step digest from_str brotli data flavor depth st =
        (if ch_decoded st2 > MAX_CHAIN_STORE_BYTES \<or> length bs > MAX_MANIFEST_STORE_BYTES
         then chain_return (push_informational MANIFEST_INACCESSIBLE (ch_url st2)
                ''earlier checkpoint stores exceed the verifier bound; earlier history is unverified'') st2
         else chain_checkpoint digest from_str brotli data flavor pred bs st2)"
        using True s store Some by (simp add: chain_step_def assms d_def [symmetric] d' g st2_def Let_def)
      have "turn_ok digest from_str data flavor pred (ch_results st) (chain_checkpoint digest from_str brotli data flavor pred bs st2)"
        using chain_checkpoint_ok [of digest from_str data flavor pred st2 brotli bs] r by (simp add: st2_def)
      then show ?thesis using l r by (auto simp: eq st2_def intro!: turn_ok_return)
    qed
  qed
qed

lemma chain_loop_ok:
  assumes "checkpoint_ok digest from_str data flavor (ch_current st) s"
    and "sg_start (ch_current st) = (case sg_predecessor (ch_current st) of None \<Rightarrow> 0 | Some p \<Rightarrow> pd_start p + pd_length p)"
  shows "\<exists>st'. chain_loop digest from_str brotli data flavor depths st = Inr st'
    \<and> problems (ch_results st) \<le> problems (ch_results st')
    \<and> (problems (ch_results st') = problems (ch_results st) \<longrightarrow>
         (\<exists>chain. chain_ok digest from_str data flavor ((ch_current st, s) # chain)))"
  using assms
proof (induction depths arbitrary: st s)
  case Nil
  then show ?case by (auto intro!: exI [of _ "[]"])
next
  case (Cons depth depths)
  show ?case
  proof (cases "sg_predecessor (ch_current st)")
    case None
    with Cons.prems show ?thesis
      by (auto simp: chain_step_def chain_return_def intro!: exI [of _ "[]"])
  next
    case (Some pred)
    note step = chain_step_ok [OF Some, of digest from_str data flavor brotli depth]
    from step consider st' where "chain_step digest from_str brotli data flavor depth st = Inr (Inl st')"
        "problems (ch_results st') = Suc (problems (ch_results st))"
      | st' s' where "chain_step digest from_str brotli data flavor depth st = Inr (Inr st')"
        "problems (ch_results st') = problems (ch_results st)"
        "checkpoint_ok digest from_str data flavor (ch_current st') s'" "pd_start pred = sg_end (ch_current st')"
        "sg_start (ch_current st')
           = (case sg_predecessor (ch_current st') of None \<Rightarrow> 0 | Some p \<Rightarrow> pd_start p + pd_length p)"
        "\<forall>n. sg_sentinel_length (ch_current st') = Some n \<longrightarrow> n = pd_length pred"
      unfolding turn_ok_def by blast
    then show ?thesis
    proof cases
      case 1
      then show ?thesis by simp
    next
      case 2
      from step 2(1) have l: "line_ok digest from_str data flavor (ch_current st) pred" by blast
      with 2(3,4) have len: "sn_length s' = pd_length pred" by (auto simp: line_ok_def checkpoint_ok_def)
      have "follows digest data (ch_current st) (ch_current st') s'"
        using l len 2(4,6) Cons.prems(2) Some by (auto simp: follows_def line_ok_def)
      then have up: "chain_ok digest from_str data flavor ((ch_current st', s') # chain) \<Longrightarrow>
          chain_ok digest from_str data flavor ((ch_current st, s) # (ch_current st', s') # chain)" for chain
        using Cons.prems(1) by simp
      obtain st'' where "chain_loop digest from_str brotli data flavor depths st' = Inr st''"
        "problems (ch_results st') \<le> problems (ch_results st'')"
        "problems (ch_results st'') = problems (ch_results st') \<longrightarrow>
          (\<exists>chain. chain_ok digest from_str data flavor ((ch_current st', s') # chain))"
        using Cons.IH [OF 2(3,5)] by blast
      moreover from this(1) have "chain_loop digest from_str brotli data flavor (depth # depths) st = Inr st''"
        using 2(1) by simp
      ultimately show ?thesis using 2(2) up by (metis (no_types))
    qed
  qed
qed

section \<open>Coverage\<close>

text \<open>The pieces of the file a chain accounts for, in file order: segments and the sentinel lines between them.\<close>

fun pieces :: "(segment_hash \<times> sentinel) list \<Rightarrow> (nat \<times> nat) list" where
  "pieces [] = []"
| "pieces [(seg, s)] = [(sg_start seg, sg_end seg)]"
| "pieces ((seg, s) # (seg', s') # rest) =
     pieces ((seg', s') # rest) @ [(sg_end seg', sg_start seg), (sg_start seg, sg_end seg)]"

lemma chain_pieces:
  "chain_ok digest from_str data flavor ((seg, s) # rest) \<Longrightarrow>
     concat (map (\<lambda>(a, b). slice data a b) (pieces ((seg, s) # rest))) = take (sg_end seg) data"
proof (induction rest arbitrary: seg s)
  case Nil
  then show ?case by (simp add: slice_def)
next
  case (Cons x rest)
  obtain seg' s' where x: "x = (seg', s')" by (cases x)
  from Cons.prems have ok: "chain_ok digest from_str data flavor ((seg', s') # rest)"
    and le: "sg_end seg' \<le> sg_start seg" "sg_start seg \<le> sg_end seg"
    by (auto simp: x follows_def checkpoint_ok_def)
  have "take (sg_end seg) data = slice data 0 (sg_end seg') @ slice data (sg_end seg') (sg_start seg) @ slice data (sg_start seg) (sg_end seg)"
    using le by (simp add: slice_concat) (simp add: slice_def)
  with Cons.IH [OF ok] show ?case by (simp add: x slice_def)
qed

section \<open>The active line\<close>

lemma nth_take_eq: "take e xs = take e ys \<Longrightarrow> i < e \<Longrightarrow> xs ! i = ys ! i"
  by (metis nth_take)

lemma slice_take_eq: "take e xs = take e ys \<Longrightarrow> b \<le> e \<Longrightarrow> slice xs a b = slice ys a b"
  by (metis min.absorb1 slice_def drop_take take_take)

lemma is_line_local:
  assumes "take e data' = take e data" and "is_line data (s, c, e)" and "e \<le> length data'"
  shows "is_line data' (s, c, e)"
proof -
  note n = nth_take_eq [OF assms(1)] and l = is_lineD [OF assms(2)]
  have "content_end_of data' s (e - 1) = content_end_of data s (e - 1)"
    using n l by (auto simp: content_end_of_def)
  moreover have "data' ! (e - 1) = 10" using n [of "e - 1"] l by simp
  moreover have "s = 0 \<or> data' ! (s - 1) = 10" using n [of "s - 1"] l by auto
  moreover have "data' ! i \<noteq> 10" if "s \<le> i" "i < e - 1" for i using n [of i] l(6) [OF that] that by simp
  ultimately show ?thesis using l assms(3) by (auto simp: is_line_def)
qed

lemma content_end_le: "is_line data (s, c, e) \<Longrightarrow> c \<le> e"
  by (auto simp: is_line_def content_end_of_def)

lemma sentinel_at_local:
  assumes "take e data' = take e data" and "e \<le> length data'" and "is_line data (start, c, e)"
  shows "sentinel_at from_str data' start flavor = sentinel_at from_str data start flavor"
proof -
  have l: "is_line data' (start, c, e)" using is_line_local [OF assms(1,3,2)] .
  have sl: "slice data' start c = slice data start c"
    using slice_take_eq [OF assms(1) content_end_le [OF assms(3)]] .
  have u: "is_line data (start, c', e') \<longleftrightarrow> c' = c \<and> e' = e" "is_line data' (start, c', e') \<longleftrightarrow> c' = c \<and> e' = e" for c' e'
    using is_line_overlap [OF assms(3)] is_line_overlap [OF l] assms(3) l is_lineD(1) by blast+
  have "sentinel_at from_str data' start flavor = Some r \<longleftrightarrow> sentinel_at from_str data start flavor = Some r" for r
    unfolding sentinel_at_line u using sl by auto
  then show ?thesis by (metis option.exhaust)
qed

lemma checkpoint_ok_local:
  assumes "checkpoint_ok digest from_str data flavor seg s"
    and "take (sg_end seg + sn_length s) data' = take (sg_end seg + sn_length s) data" and "length data' = length data"
  shows "checkpoint_ok digest from_str data' flavor seg s"
proof -
  from assms(1) have s: "seg_sentinel_at from_str data (sg_end seg) flavor = Some s" by (simp add: checkpoint_ok_def)
  then obtain fl where "sentinel_at from_str data (sg_end seg) fl = Some s"
    by (auto simp: seg_sentinel_at_def split: option.splits)
  then obtain c e where l: "is_line data (sg_end seg, c, e)" "sn_length s = e - sg_end seg"
    by (auto simp: sentinel_at_line)
  then have e: "sg_end seg + sn_length s = e" using is_lineD(1) by fastforce
  have at: "sentinel_at from_str data' (sg_end seg) f = sentinel_at from_str data (sg_end seg) f" for f
    by (rule sentinel_at_local [OF _ _ l(1)]) (use assms(2,3) e is_lineD(2) [OF l(1)] in auto)
  have "slice data' (sg_start seg) (sg_end seg) = slice data (sg_start seg) (sg_end seg)"
    by (rule slice_take_eq [OF assms(2)]) simp
  moreover have "seg_sentinel_at from_str data' (sg_end seg) flavor = Some s"
    using s unfolding seg_sentinel_at_def at .
  ultimately show ?thesis using assms(1,3) by (simp add: checkpoint_ok_def)
qed

lemma check_segment_accepts:
  assumes "checkpoint_ok digest from_str data flavor seg s"
  shows "check_segment digest from_str seg data flavor (Some (sg_end seg)) url r = Inr (Some s, r)"
  using assms seg_sentinel_at_start [of from_str data "sg_end seg" flavor s]
  by (simp add: check_segment_def checkpoint_ok_def hash_range_def Let_def)

section \<open>The whole check\<close>

text \<open>How far the active checkpoint claims to reach.\<close>

definition active_end :: "segment_hash \<Rightarrow> sentinel \<Rightarrow> nat" where
  "active_end seg s = sg_end seg + (case sg_sentinel_length seg of Some n \<Rightarrow> n | None \<Rightarrow> sn_length s)"

lemma segment_verify_total:
  "\<exists>res g' r'. segment_verify digest from_str brotli assertion claim data flavor active compromised url resources g r
      = Inr (res, g', r')
    \<and> (problems r' = problems r \<longrightarrow>
        (\<exists>a seg s chain. assertion = Some a \<and> seg_parse a claim = Inr seg
           \<and> chain_ok digest from_str data flavor ((seg, s) # chain) \<and> active_end seg s = length data
           \<and> (\<forall>n. active = Some n \<longrightarrow> n = sg_end seg)))"
proof (cases assertion)
  case None
  then show ?thesis by (simp add: segment_verify_def)
next
  case (Some a)
  show ?thesis
  proof (cases "seg_parse a claim")
    case (Inl e)
    with Some show ?thesis by (simp add: segment_verify_def)
  next
    case (Inr seg)
    show ?thesis
    proof (cases "sg_end seg \<le> length data")
      case False
      with Some Inr show ?thesis by (simp add: segment_verify_def)
    next
      case True
      from check_segment_ok [OF seg_parse_ok [OF Inr] True]
      obtain sn r1 where cs: "check_segment digest from_str seg data flavor active url r = Inr (sn, r1)"
        and s: "case sn of None \<Rightarrow> problems r1 = Suc (problems r)
          | Some s \<Rightarrow> r1 = r \<and> checkpoint_ok digest from_str data flavor seg s \<and> (\<forall>n. active = Some n \<longrightarrow> n = sg_end seg)"
        by blast
      show ?thesis
      proof (cases sn)
        case None
        with Some Inr True cs s show ?thesis by (simp add: segment_verify_def)
      next
        case (Some s')
        note a = \<open>assertion = Some a\<close>
        from s Some have ok: "r1 = r" "checkpoint_ok digest from_str data flavor seg s'" "\<forall>n. active = Some n \<longrightarrow> n = sg_end seg"
          by simp_all
        obtain starts r2 where st: "check_start seg url r = (starts, r2)" by fastforce
        show ?thesis
        proof (cases "checked_add (sg_end seg) (case sg_sentinel_length seg of Some n \<Rightarrow> n | None \<Rightarrow> sn_length s') = Some (length data) \<and> starts")
          case False
          with a Inr True cs Some ok st check_start_ok [OF st] show ?thesis
            by (auto simp: segment_verify_def Let_def)
        next
          case True
          note t = check_start_ok [OF st]
          define r3 where "r3 = (if \<not> compromised then push_success ASSERTION_SEGMENT_HASH_MATCH url
              (''segment ['' @ fmt_nat (sg_start seg) @ '', '' @ fmt_nat (sg_end seg) @ '') hash valid'') r else r)"
          define st0 where "st0 = \<lparr>ch_current = seg, ch_url = url, ch_decoded = 0, ch_resources = resources,
              ch_budget = g, ch_results = r3\<rparr>"
          obtain st' where st': "chain_loop digest from_str brotli data flavor [1..<MAX_CHECKPOINT_CHAIN + 1] st0 = Inr st'"
            "problems r3 \<le> problems (ch_results st')"
            "problems (ch_results st') = problems r3 \<longrightarrow> (\<exists>chain. chain_ok digest from_str data flavor ((seg, s') # chain))"
            using chain_loop_ok [of digest from_str data flavor st0 s' brotli "[1..<MAX_CHECKPOINT_CHAIN + 1]"] ok t True
            by (auto simp: st0_def)
          have "segment_verify digest from_str brotli assertion claim data flavor active compromised url resources g r
              = Inr (ch_resources st', ch_budget st', ch_results st')"
            using a Inr \<open>sg_end seg \<le> length data\<close> cs Some ok st t True st'(1)
            by (simp add: segment_verify_def verify_chain_def Let_def r3_def [symmetric] st0_def [symmetric])
          moreover have "problems r3 = problems r" by (simp add: r3_def)
          moreover have "active_end seg s' = length data" using True by (simp add: active_end_def)
          ultimately show ?thesis using a Inr ok st' by auto
        qed
      qed
    qed
  qed
qed

end
