(* ===== verification/Segment_Claims.thy ===== *)
theory Segment_Claims
  imports Segment_Properties
begin

text \<open>
  The properties of append-only text: locating checkpoints, the coverage a segment chain proves, and what it
  leaves open at the active checkpoint.
\<close>

section \<open>A file with one external checkpoint\<close>

definition sample_content :: bytes where
  "sample_content = BEGIN_CHECKPOINT @ ascii '' x:y '' @ END_CHECKPOINT"

definition sample_file :: "bytes \<Rightarrow> bytes" where
  "sample_file tail = ascii ''a'' @ [10] @ sample_content @ [10] @ tail"

definition sample_assertion :: "nat \<Rightarrow> cbor_value" where
  "sample_assertion n = Map
     [(Text (ascii ''version''), Integer 1), (Text (ascii ''alg''), Text (ascii ''sha256'')),
      (Text (ascii ''hash''), Bytes [1]), (Text (ascii ''segmentStart''), Integer 0),
      (Text (ascii ''segmentEnd''), Integer 2), (Text (ascii ''sentinelLength''), Integer (int n))]"

definition sample_segment :: "nat \<Rightarrow> segment_hash" where
  "sample_segment n = \<lparr>sg_alg = ''sha256'', sg_hash = [1], sg_start = 0, sg_end = 2,
     sg_sentinel_length = Some n, sg_predecessor = None\<rparr>"

definition sample_sentinel :: sentinel where
  "sample_sentinel = \<lparr>sn_start = 2, sn_length = 66, sn_reference = External ''x:y''\<rparr>"

lemma length_sample_content: "length sample_content = 65"
  by (simp add: sample_content_def BEGIN_CHECKPOINT_def END_CHECKPOINT_def)

lemma sample_parsed: "n \<le> usize_max \<Longrightarrow> seg_parse (sample_assertion n) claim = Inr (sample_segment n)"
  by (simp add: seg_parse_def sample_assertion_def sample_segment_def get_field_def parse_predecessor_def
      resolved_hash_algorithm_def is_allowed_hash_algorithm_def content_hash_algorithm_of_def usize_max_def)

lemma sample_content_bytes: "\<forall>b \<in> set sample_content. 32 \<le> b \<and> b < 0x80"
proof -
  have "\<forall>b \<in> set (ascii '' x:y ''). 32 \<le> b \<and> b < (0x80 :: byte)" by (simp add: ascii_def)
  with sentinel_texts show ?thesis unfolding sample_content_def by auto
qed

lemma sample_line: "is_line (sample_file tail) (2, 67, 68)"
proof -
  have "is_line ((ascii ''a'' @ [10]) @ sample_content @ [10])
     (length (ascii ''a'' @ [10 :: byte]), length (ascii ''a'' @ [10 :: byte]) + length sample_content,
      length ((ascii ''a'' @ [10]) @ sample_content @ [10]))"
    by (rule last_line) (use sample_content_bytes length_sample_content in auto)
  then have l: "is_line (sample_file []) (2, 67, 68)"
    by (simp add: sample_file_def length_sample_content numeral_2_eq_2)
  show ?thesis by (rule is_line_local [OF _ l]) (simp_all add: sample_file_def length_sample_content)
qed

lemma sample_slice: "slice (sample_file tail) 2 67 = sample_content"
  by (simp add: sample_file_def slice_def length_sample_content ascii_def)

lemma sample_reference: "line_reference from_str sample_content PlainText = Some (External ''x:y'')"
proof -
  have "utf8_valid sample_content" by (rule utf8_valid_ascii) (use sample_content_bytes in auto)
  moreover have "text_strip_prefix BEGIN_CHECKPOINT sample_content = Some (ascii '' x:y '' @ END_CHECKPOINT)"
    by (simp add: text_strip_prefix_def sample_content_def)
  moreover have "text_strip_suffix END_CHECKPOINT (ascii '' x:y '' @ END_CHECKPOINT) = Some (ascii '' x:y '')"
    by (simp add: text_strip_suffix_def suffix_def)
  moreover have "str_of_bytes [120, 58, 121] = ''x:y''"
    using str_of_bytes_ascii [of "''x:y''"] by (simp add: ascii_def del: str_of_bytes_ascii)
  then have "resolve_reference (ascii '' x:y '') = Some (External ''x:y'')"
    by (simp add: resolve_reference_def trim_matches_def REFERENCE_WHITESPACE_def ascii_def text_strip_prefix_def
        DATA_URI_PREFIX_def text_split_once_def scheme_ok_def ascii_alphabetic_def ascii_alphanumeric_def utf8_chars_Cons
        char_whitespace_def Let_def)
  ultimately show ?thesis by (simp add: line_reference_def)
qed

lemma sample_checkpoint: "checkpoint_ok (\<lambda>_ _. [1]) from_str (sample_file tail) (Some PlainText) (sample_segment n) sample_sentinel"
proof -
  have "sentinel_at from_str (sample_file tail) 2 PlainText = Some sample_sentinel"
    unfolding sentinel_at_line using sample_line sample_slice sample_reference
    by (force simp: sample_sentinel_def sample_content_def)
  then show ?thesis
    by (simp add: checkpoint_ok_def sample_segment_def seg_sentinel_at_def sample_sentinel_def sample_file_def
        hash_bytes_def hasher_new_def content_hash_algorithm_of_def hasher_finalize_def)
qed

lemma segment_verify_single:
  assumes "seg_parse assertion claim = Inr seg" and "checkpoint_ok digest from_str data flavor seg s"
    and "sg_predecessor seg = None" and "sg_start seg = 0" and "active_end seg s = length data" and "length data \<le> usize_max"
  shows "segment_verify digest from_str brotli (Some assertion) claim data flavor (Some (sg_end seg)) False url resources g r
    = Inr (resources, g, push_success ASSERTION_SEGMENT_HASH_MATCH url
        (''segment ['' @ fmt_nat (sg_start seg) @ '', '' @ fmt_nat (sg_end seg) @ '') hash valid'') r)"
proof -
  have "[1..<MAX_CHECKPOINT_CHAIN + 1] = 1 # [Suc 1..<MAX_CHECKPOINT_CHAIN + 1]"
    by (rule upt_conv_Cons) (simp add: MAX_CHECKPOINT_CHAIN_def)
  then have "verify_chain digest from_str brotli seg data flavor url resources g r' =
      Inr \<lparr>ch_current = seg, ch_url = url, ch_decoded = 0, ch_resources = resources, ch_budget = g, ch_results = r'\<rparr>" for r'
    using assms(3) by (simp add: verify_chain_def chain_step_def chain_return_def)
  moreover have "checked_add (sg_end seg) (case sg_sentinel_length seg of Some n \<Rightarrow> n | None \<Rightarrow> sn_length s) = Some (length data)"
    using assms(5,6) by (simp add: active_end_def)
  moreover have "check_start seg url r = (True, r)" using assms(3,4) by (simp add: check_start_def)
  moreover have "sg_end seg \<le> length data" using assms(2) by (simp add: checkpoint_ok_def)
  ultimately show ?thesis
    using assms(1) check_segment_accepts [OF assms(2)] by (simp add: segment_verify_def Let_def)
qed

definition sample_cache :: "unit resource_cache" where
  "sample_cache = with_evidence None () \<lparr>oe_ocsp_responses = None, oe_ocsp_unreachable = None, oe_external_data = None,
     oe_external_data_media_types = None, oe_external_data_unreachable = None\<rparr>"

definition sample_budget :: "unit budget" where
  "sample_budget = budget_new graph_limits_DEFAULT"

lemma sample_accepted:
  assumes "n = 66 + length tail" and "length tail \<le> 1000"
  shows "segment_verify (\<lambda>_ _. [1]) (\<lambda>_. None) brotli (Some (sample_assertion n)) claim (sample_file tail) (Some PlainText)
      (Some 2) False url resources g r
    = Inr (resources, g, push_success ASSERTION_SEGMENT_HASH_MATCH url
        (''segment ['' @ fmt_nat 0 @ '', '' @ fmt_nat 2 @ '') hash valid'') r)"
  using segment_verify_single [OF sample_parsed [of n claim] sample_checkpoint [of "\<lambda>_. None" tail n]] assms
  by (simp add: sample_segment_def active_end_def sample_file_def length_sample_content usize_max_def)

section \<open>Claims\<close>

text \<open>
  The active checkpoint is the last candidate line: it is what \<open>sentinel_at\<close> reads at its start, and no complete line
  after it looks like a sentinel. In particular a malformed last candidate hides every earlier sentinel.
\<close>

theorem active_checkpoint_is_last:
  "locate_active from_str data flavor = ActiveSentinel s \<longleftrightarrow>
     sentinel_at from_str data (sn_start s) flavor = Some s
     \<and> (\<forall>(a, c, e) \<in> set (complete_lines data). is_candidate (slice data a c) flavor \<longrightarrow> a \<le> sn_start s)"
  by (rule locate_active_iff)

theorem active_checkpoint_is_last_witness:
  "sentinel_at (\<lambda>_. None) ([97, 10] @ inline_sentinel [7] @ [10]) 2 PlainText
     = Some \<lparr>sn_start = 2, sn_length = length (inline_sentinel [7] @ [10]), sn_reference = Inline [7]\<rparr>"
  using active_checkpoint_is_last [THEN iffD1, OF locate_inline [of "[97, 10]" "[10]" "[7]" "\<lambda>_. None"]]
  by (simp add: MAX_MANIFEST_STORE_BYTES_def numeral_2_eq_2)

lemma inline_checkpoint:
  assumes "pre = [] \<or> last pre = 10" and "eol = [10] \<or> eol = [13, 10]"
    and "store \<noteq> []" and "length store \<le> MAX_MANIFEST_STORE_BYTES"
  shows "append_extract from_str (pre @ inline_sentinel store @ eol) PlainText = Inr (Some store)"
    and "append_exclusions from_str (pre @ inline_sentinel store @ eol) PlainText =
      Inr [\<lparr>ex_start = length pre, ex_length = length (inline_sentinel store @ eol)\<rparr>]"
    and "sentinel_at from_str (pre @ inline_sentinel store @ eol) (length pre) PlainText =
      Some \<lparr>sn_start = length pre, sn_length = length (inline_sentinel store @ eol), sn_reference = Inline store\<rparr>"
proof -
  note l = locate_inline [OF assms, of from_str]
  from l show "append_extract from_str (pre @ inline_sentinel store @ eol) PlainText = Inr (Some store)"
    by (simp only: append_extract_def) simp
  from l show "append_exclusions from_str (pre @ inline_sentinel store @ eol) PlainText =
      Inr [\<lparr>ex_start = length pre, ex_length = length (inline_sentinel store @ eol)\<rparr>]"
    by (simp only: append_exclusions_def) simp
  from l show "sentinel_at from_str (pre @ inline_sentinel store @ eol) (length pre) PlainText =
      Some \<lparr>sn_start = length pre, sn_length = length (inline_sentinel store @ eol), sn_reference = Inline store\<rparr>"
    unfolding locate_active_iff by simp
qed

text \<open>
  A checkpoint appended to any text as a sentinel line with its store inline is located, whatever was there before
  and whichever line ending is used: extraction returns the store byte for byte and the exclusion is the line.
\<close>

theorem inline_checkpoint_roundtrip:
  assumes "pre = [] \<or> last pre = 10" and "eol = [10] \<or> eol = [13, 10]"
    and "store \<noteq> []" and "length store \<le> MAX_MANIFEST_STORE_BYTES"
  shows "append_extract from_str (pre @ inline_sentinel store @ eol) PlainText = Inr (Some store)
    \<and> append_exclusions from_str (pre @ inline_sentinel store @ eol) PlainText =
      Inr [\<lparr>ex_start = length pre, ex_length = length (inline_sentinel store @ eol)\<rparr>]
    \<and> sentinel_at from_str (pre @ inline_sentinel store @ eol) (length pre) PlainText =
      Some \<lparr>sn_start = length pre, sn_length = length (inline_sentinel store @ eol), sn_reference = Inline store\<rparr>"
  using inline_checkpoint [OF assms] by blast

theorem inline_checkpoint_roundtrip_witness:
  "append_extract (\<lambda>_. None) ([97, 10] @ inline_sentinel [1, 2] @ [13, 10]) PlainText = Inr (Some [1, 2])"
  using inline_checkpoint_roundtrip [of "[97, 10]" "[13, 10]" "[1, 2]" "\<lambda>_. None"] by (simp add: MAX_MANIFEST_STORE_BYTES_def)

text \<open>
  C8: the segment check never indexes the file out of range. When it adds no failure and no informational status, then from the
  active checkpoint back to the first every segment, and every sentinel line between two segments, has the digest recorded for it;
  these pieces in file order are exactly the bytes before the active sentinel; and the end that the active checkpoint
  claims, its declared \<open>sentinelLength\<close> or else the line that was read counted from the end of its segment, is the end of the file. The
  active sentinel line itself, and what a declared length counts beyond it, has no digest (C36).
\<close>

theorem segment_chain_covers:
  "\<exists>res g' r'. segment_verify digest from_str brotli assertion claim data flavor active compromised url resources g r
      = Inr (res, g', r')
    \<and> (failure r' = failure r \<and> informational r' = informational r \<longrightarrow>
        (\<exists>a seg s chain. assertion = Some a \<and> seg_parse a claim = Inr seg
           \<and> chain_ok digest from_str data flavor ((seg, s) # chain)
           \<and> concat (map (\<lambda>(a, b). slice data a b) (pieces ((seg, s) # chain))) = take (sg_end seg) data
           \<and> (active = None \<or> active = Some (sg_end seg)) \<and> active_end seg s = length data))"
proof -
  obtain res g' r' where v: "segment_verify digest from_str brotli assertion claim data flavor active compromised url resources g r
      = Inr (res, g', r')"
    and p: "problems r' = problems r \<longrightarrow>
        (\<exists>a seg s chain. assertion = Some a \<and> seg_parse a claim = Inr seg
           \<and> chain_ok digest from_str data flavor ((seg, s) # chain) \<and> active_end seg s = length data
           \<and> (\<forall>n. active = Some n \<longrightarrow> n = sg_end seg))"
    using segment_verify_total [of digest from_str brotli assertion claim data flavor active compromised url resources g r]
    by (elim exE conjE) (rule that)
  have "failure r' = failure r \<and> informational r' = informational r \<Longrightarrow> problems r' = problems r"
    by (simp add: problems_def)
  with v p show ?thesis using chain_pieces by (cases active) (blast, metis)
qed

theorem segment_chain_covers_witness:
  "\<exists>s chain. chain_ok (\<lambda>_ _. [1]) (\<lambda>_. None) (sample_file []) (Some PlainText) ((sample_segment 66, s) # chain)"
  using segment_chain_covers [of "\<lambda>_ _. [1]" "\<lambda>_. None" "\<lambda>_. ([], True)" "Some (sample_assertion 66)" "Map []" "sample_file []"
      "Some PlainText" "Some 2" False "[]" sample_cache sample_budget results_default]
  by (simp add: sample_accepted sample_parsed push_success_def usize_max_def) blast

text \<open>
  C36: what the check leaves open. For an active checkpoint with an external store the end of the file is compared with the
  declared \<open>sentinelLength\<close>, not with the line that was read, so when the declared length is larger the bytes after
  the line are covered by no digest: every file of that length with the same bytes up to the end of the line gets
  the same success.
\<close>

theorem active_external_tail_unbound:
  assumes "seg_parse assertion claim = Inr seg" and "checkpoint_ok digest from_str data flavor seg s"
    and "sg_predecessor seg = None" and "sg_start seg = 0" and "sg_sentinel_length seg = Some n"
    and "sg_end seg + n = length data" and "length data \<le> usize_max"
    and "take (sg_end seg + sn_length s) data' = take (sg_end seg + sn_length s) data" and "length data' = length data"
  shows "segment_verify digest from_str brotli (Some assertion) claim data' flavor (Some (sg_end seg)) False url resources g r
    = Inr (resources, g, push_success ASSERTION_SEGMENT_HASH_MATCH url
        (''segment ['' @ fmt_nat (sg_start seg) @ '', '' @ fmt_nat (sg_end seg) @ '') hash valid'') r)"
  by (rule segment_verify_single [OF assms(1) checkpoint_ok_local [OF assms(2,8,9)] assms(3,4)])
    (use assms in \<open>simp_all add: active_end_def\<close>)

theorem active_external_tail_unbound_witness:
  "segment_verify (\<lambda>_ _. [1]) (\<lambda>_. None) (\<lambda>_. ([], True)) (Some (sample_assertion 68)) (Map []) (sample_file (ascii ''!!'')) (Some PlainText)
      (Some 2) False [] sample_cache sample_budget results_default
    = Inr (sample_cache, sample_budget, push_success ASSERTION_SEGMENT_HASH_MATCH []
        (''segment ['' @ fmt_nat 0 @ '', '' @ fmt_nat 2 @ '') hash valid'') results_default)
   \<and> sn_length sample_sentinel < 68"
  using active_external_tail_unbound [OF sample_parsed [of 68 "Map []"] sample_checkpoint [of "\<lambda>_. None" "ascii ''zz''" 68],
      of 68 "sample_file (ascii ''!!'')" "\<lambda>_. ([], True)" "[]" sample_cache sample_budget results_default]
  by (simp add: sample_segment_def sample_sentinel_def sample_file_def length_sample_content usize_max_def)

end
