(* ===== verification/Budget_Properties.thy ===== *)
theory Budget_Properties
  imports Graph_Budget
begin

text \<open>
  The ledger of a verification budget: which charges are accepted, what is held afterwards, and what is reported.
\<close>

section \<open>The ledger\<close>

text \<open>What the accepted charges of a sequence add up to; a refused charge of references uses all that are left.\<close>

fun accepted_references :: "charge \<Rightarrow> bool \<Rightarrow> nat" where
  "accepted_references (ChargeReferences n) True = n"
| "accepted_references _ _ = 0"

definition spent_nodes :: "charge list \<Rightarrow> bool list \<Rightarrow> nat" where
  "spent_nodes cs oks = length (filter (\<lambda>(c, ok). c = ChargeNode \<and> ok) (zip cs oks))"

definition spent_bytes :: "charge list \<Rightarrow> bool list \<Rightarrow> nat" where
  "spent_bytes cs oks = sum_list (map2 accepted_bytes cs oks)"

fun refuses_references :: "charge \<Rightarrow> bool \<Rightarrow> bool" where
  "refuses_references (ChargeReferences n) ok = (\<not> ok)"
| "refuses_references _ ok = False"

definition spent_references :: "nat \<Rightarrow> charge list \<Rightarrow> bool list \<Rightarrow> nat" where
  "spent_references limit cs oks =
     (if True \<in> set (map2 refuses_references cs oks) then limit
      else sum_list (map2 accepted_references cs oks))"

text \<open>A charge fits when what was spent before it leaves room for it.\<close>

fun charge_fits :: "graph_limits \<Rightarrow> charge list \<Rightarrow> bool list \<Rightarrow> charge \<Rightarrow> bool" where
  "charge_fits lim cs oks ChargeNode = (spent_nodes cs oks + 1 \<le> max_nodes lim)"
| "charge_fits lim cs oks (ChargeBytes n) = (spent_bytes cs oks + n \<le> max_bytes lim)"
| "charge_fits lim cs oks (ChargeReferences n) = (spent_references (max_references lim) cs oks + n \<le> max_references lim)"
| "charge_fits lim cs oks (ChargeDepth d) = (d \<le> max_depth lim)"
| "charge_fits lim cs oks ExhaustReferences = False"

fun ceiling_of :: "charge \<Rightarrow> ceiling" where
  "ceiling_of ChargeNode = Nodes"
| "ceiling_of (ChargeBytes _) = ByteCount"
| "ceiling_of (ChargeReferences _) = References"
| "ceiling_of (ChargeDepth _) = Depth"
| "ceiling_of ExhaustReferences = References"

definition ledger :: "graph_limits \<Rightarrow> charge list \<Rightarrow> bool list \<Rightarrow> 'r budget \<Rightarrow> bool" where
  "ledger lim cs oks g \<longleftrightarrow>
     nodes g = spent_nodes cs oks \<and> bg_bytes g = spent_bytes cs oks
     \<and> references g = spent_references (max_references lim) cs oks
     \<and> (\<forall>k. exhausted g k \<noteq> None \<longleftrightarrow> (\<exists>c. ceiling_of c = k \<and> (c, False) \<in> set (zip cs oks)))"

lemma run_charges_snoc:
  "run_charges (cs @ [c]) g =
     (let (oks, g1) = run_charges cs g; (ok, g2) = apply_charge c g1 in (oks @ [ok], g2))"
  by (induction cs arbitrary: g) (auto simp: Let_def split: prod.split)

lemma spent_snoc:
  assumes "length oks = length cs"
  shows "spent_nodes (cs @ [c]) (oks @ [ok]) = spent_nodes cs oks + (if c = ChargeNode \<and> ok then 1 else 0)"
    and "spent_bytes (cs @ [c]) (oks @ [ok]) = spent_bytes cs oks + accepted_bytes c ok"
    and "spent_references limit (cs @ [c]) (oks @ [ok]) =
      (if True \<in> set (map2 refuses_references cs oks) \<or> refuses_references c ok then limit
       else spent_references limit cs oks + accepted_references c ok)"
  using assms by (simp_all add: spent_nodes_def spent_bytes_def spent_references_def)

lemma apply_charge_decides:
  assumes "budget_ok g" and "ledger (limits g) cs oks g" and "apply_charge c g = (ok, g')"
  shows "ok = charge_fits (limits g) cs oks c"
proof -
  note small = budget_limits_small [OF assms(1)]
  show ?thesis
    using assms(2,3) small [of ByteCount] small [of References]
    by (cases c) (auto simp: ledger_def charge_node_def charge_bytes_def charge_references_def charge_depth_def Let_def split: if_splits)
qed

lemma apply_charge_references:
  assumes "budget_ok g" and "apply_charge c g = (ok, g')"
  shows "references g' = (if refuses_references c ok then max_references (limits g)
                          else references g + accepted_references c ok)"
    and "exhausted g' k \<noteq> None \<longleftrightarrow> exhausted g k \<noteq> None \<or> ceiling_of c = k \<and> \<not> ok"
proof -
  note small = budget_limits_small [OF assms(1), of References]
  show "references g' = (if refuses_references c ok then max_references (limits g)
                          else references g + accepted_references c ok)"
    using assms(2) small
    by (cases c) (auto simp: charge_node_def charge_bytes_def charge_references_def charge_depth_def exhaust_references_def
        Let_def saturating_add_le split: if_splits)
  show "exhausted g' k \<noteq> None \<longleftrightarrow> exhausted g k \<noteq> None \<or> ceiling_of c = k \<and> \<not> ok"
    using assms(2)
    by (cases c) (auto simp: charge_node_def charge_bytes_def charge_references_def charge_depth_def exhaust_references_def
        Let_def split: if_splits)
qed

lemma budget_ok_within:
  "budget_ok g \<Longrightarrow> nodes g \<le> max_nodes (limits g)" "budget_ok g \<Longrightarrow> bg_bytes g \<le> max_bytes (limits g)"
  "budget_ok g \<Longrightarrow> references g \<le> max_references (limits g)"
  by (simp_all add: budget_ok_def)

lemma ledger_snoc:
  assumes "budget_ok g" and "limits g = lim" and "ledger lim cs oks g" and "length oks = length cs" and "apply_charge c g = (ok, g')"
  shows "ledger lim (cs @ [c]) (oks @ [ok]) g'"
proof -
  note a = apply_charge_ok [OF assms(1,5)] and r = apply_charge_references [OF assms(1,5)]
  have "references g' \<le> max_references lim" using a(1) assms(2) budget_ok_within(3) [of g'] by (auto simp: charges_def)
  moreover have "references g \<le> max_references lim" using assms(1,2) budget_ok_within(3) by blast
  ultimately have "references g' = spent_references (max_references lim) (cs @ [c]) (oks @ [ok])"
    using r(1) assms(2,3) unfolding spent_snoc(3) [OF assms(4)]
    by (auto simp: ledger_def spent_references_def split: if_splits)
  with a(2,3) r(2) assms(2,3) show ?thesis
    using assms(4) by (auto simp: ledger_def spent_snoc(1,2) [OF assms(4)])
qed

lemma run_charges_ledger:
  assumes "run_charges cs (budget_new l) = (oks, g)"
  shows "budget_ok g \<and> limits g = limits (budget_new l) \<and> length oks = length cs \<and> ledger (limits g) cs oks g
    \<and> (\<forall>i < length cs. oks ! i = charge_fits (limits g) (take i cs) (take i oks) (cs ! i))"
  using assms
proof (induction cs arbitrary: oks g rule: rev_induct)
  case Nil
  then show ?case using budget_new_ok
    by (auto simp: ledger_def spent_nodes_def spent_bytes_def spent_references_def budget_new_def)
next
  case (snoc c cs)
  obtain oks1 g1 where 1: "run_charges cs (budget_new l) = (oks1, g1 :: 'a budget)" by fastforce
  obtain ok g2 where 2: "apply_charge c g1 = (ok, g2)" by fastforce
  have g: "oks = oks1 @ [ok]" "g = g2" using snoc.prems by (simp_all add: run_charges_snoc 1 2)
  note IH = snoc.IH [OF 1]
  have "charges g1 ok g2" using apply_charge_ok(1) [OF _ 2] IH by blast
  moreover have "ledger (limits g1) (cs @ [c]) (oks1 @ [ok]) g2" using ledger_snoc [OF _ refl _ _ 2] IH by blast
  moreover have "ok = charge_fits (limits g1) cs oks1 c" using apply_charge_decides [OF _ _ 2] IH by blast
  ultimately show ?case using IH by (auto simp: g charges_def nth_append less_Suc_eq)
qed

section \<open>Properties\<close>

text \<open>
  C22: a budget is never overdrawn. In any sequence of charges a charge of a node, of bytes, of references or of a depth is accepted
  exactly when the charges accepted before it leave room for it under the limits, which never exceed the engine's. Afterwards
  the budget holds the accepted nodes and bytes, and the accepted references or, once a charge of references was refused,
  the whole limit; none is above its limit. A ceiling is noted exactly when a charge against it was
  refused; and reporting adds one informational status per ceiling not reported before, and nothing the second time.
\<close>

theorem budget_never_overdrawn:
  assumes "run_charges cs (budget_new l) = (oks, g)" and "budget_report label g results = (g', results')"
  shows "limits g = lowered (max_depth l) (max_nodes l) (max_references l) (max_bytes l)
    \<and> length oks = length cs
    \<and> (\<forall>i < length cs. oks ! i = charge_fits (limits g) (take i cs) (take i oks) (cs ! i))
    \<and> nodes g = spent_nodes cs oks \<and> nodes g \<le> min (max_nodes l) (max_nodes graph_limits_DEFAULT)
    \<and> bg_bytes g = spent_bytes cs oks \<and> bg_bytes g \<le> min (max_bytes l) (max_bytes graph_limits_DEFAULT)
    \<and> references g = spent_references (max_references (limits g)) cs oks
      \<and> references g \<le> min (max_references l) (max_references graph_limits_DEFAULT)
    \<and> (\<forall>k. exhausted g k \<noteq> None \<longleftrightarrow> (\<exists>c. ceiling_of c = k \<and> (c, False) \<in> set (zip cs oks)))
    \<and> informational results' = informational results
        @ map (\<lambda>c. ceiling_status label (limits g) c (the (exhausted g c))) (filter (due g results) ALL_CEILINGS)
    \<and> failure results' = failure results \<and> success results' = success results
    \<and> budget_report label' g' results' = (g', results')"
proof -
  note r = run_charges_ledger [OF assms(1)]
  then have l: "limits g = lowered (max_depth l) (max_nodes l) (max_references l) (max_bytes l)" by (simp add: budget_new_def)
  have "nodes g \<le> max_nodes (limits g)" "bg_bytes g \<le> max_bytes (limits g)" "references g \<le> max_references (limits g)"
    using r budget_ok_within by blast+
  then have "nodes g \<le> min (max_nodes l) (max_nodes graph_limits_DEFAULT)"
    "bg_bytes g \<le> min (max_bytes l) (max_bytes graph_limits_DEFAULT)"
    "references g \<le> min (max_references l) (max_references graph_limits_DEFAULT)" by (simp_all add: l lowered_def)
  with r l budget_report_idem [OF assms(2), of label'] assms(2) show ?thesis
    by (auto simp: ledger_def budget_report_eq)
qed

theorem budget_never_overdrawn_witness:
  "fst (run_charges [ChargeNode, ChargeReferences 3, ChargeNode, ChargeReferences 1, ChargeReferences 0]
        (budget_new (lowered 1 1 2 1) :: unit budget)) = [True, False, False, False, True]
   \<and> references (snd (run_charges [ChargeNode, ChargeReferences 3, ChargeNode, ChargeReferences 1, ChargeReferences 0]
        (budget_new (lowered 1 1 2 1) :: unit budget))) = 2"
proof -
  let ?cs = "[ChargeNode, ChargeReferences 3, ChargeNode, ChargeReferences 1, ChargeReferences 0]"
  obtain g where c: "run_charges ?cs (budget_new (lowered 1 1 2 1)) = ([True, False, False, False, True], g :: unit budget)"
    by (simp add: budget_new_def lowered_def graph_limits_DEFAULT_def charge_node_def charge_references_def saturating_add_def
        note_ceiling_def usize_max_def)
  obtain g' results' where r: "budget_report [] g results_default = (g', results')" by fastforce
  have "limits g = lowered 1 1 2 1 \<and> references g = spent_references (max_references (limits g)) ?cs [True, False, False, False, True]"
    using budget_never_overdrawn [OF c r, of "[]"] by (simp add: lowered_def)
  then show ?thesis unfolding c by (simp add: lowered_def graph_limits_DEFAULT_def spent_references_def)
qed

end
