(* ===== verification/Update_Manifest.thy ===== *)
theory Update_Manifest
  imports Assertion_Labels
begin

text \<open>
  Update manifests, \<^verbatim>\<open>c2pa-validate/update_manifest.rs\<close>: the shape an update manifest must have, the walk from it to the
  standard manifest it updates, and the re-sizing of a data-hash exclusion after updates grew the store. The
  Rust code iterates over hash sets of labels; the model takes them as lists, and the results are shown not to depend
  on the order. \<open>from_slice\<close> is the JSON parser.
\<close>

section \<open>Exclusions of a grown store\<close>

datatype store_rendition = AsSigned | WithUpdates | Detached

definition checked_sub :: "nat \<Rightarrow> nat \<Rightarrow> nat option" where
  "checked_sub a b = (if b \<le> a then Some (a - b) else None)"

text \<open>The \<open>find_map\<close> over the signed ranges: the index of the first one that starts at a carrier span, and the length of
  the first such span.\<close>

fun find_carrier :: "nat \<Rightarrow> data_hash_exclusion list \<Rightarrow> (nat \<times> nat) list \<Rightarrow> (nat \<times> nat) option" where
  "find_carrier i carrier [] = None"
| "find_carrier i carrier ((start, len) # plan) =
     (case find (\<lambda>s. ex_start s = start) carrier of
        Some s \<Rightarrow> Some (i, ex_length s)
      | None \<Rightarrow> find_carrier (i + 1) carrier plan)"

definition shift_start :: "nat \<Rightarrow> nat \<Rightarrow> nat \<Rightarrow> nat option" where
  "shift_start current_length signed_length start =
     (if current_length \<ge> signed_length then checked_add start (current_length - signed_length)
      else checked_sub start (signed_length - current_length))"

fun shift_all :: "nat \<Rightarrow> nat \<Rightarrow> (nat \<times> nat) list \<Rightarrow> (nat \<times> nat) list option" where
  "shift_all c s [] = Some []"
| "shift_all c s ((start, len) # rs) =
     Option.bind (shift_start c s start) (\<lambda>start'. map_option (\<lambda>rs'. (start', len) # rs') (shift_all c s rs))"

fun plan_fits :: "nat \<Rightarrow> nat \<Rightarrow> (nat \<times> nat) list \<Rightarrow> bool" where
  "plan_fits asset_len previous_end [] = True"
| "plan_fits asset_len previous_end ((start, len) # rs) =
     (if start < previous_end then False
      else case checked_add start len of
        None \<Rightarrow> False
      | Some e \<Rightarrow> e \<le> asset_len \<and> plan_fits asset_len e rs)"

definition adjust_exclusions_for_updates ::
    "(nat \<times> nat) list \<Rightarrow> data_hash_exclusion list \<Rightarrow> nat \<Rightarrow> (nat \<times> nat) list option" where
  "adjust_exclusions_for_updates plan carrier asset_len =
     (case find_carrier 0 carrier plan of
        None \<Rightarrow> Some plan
      | Some (index, current_length) \<Rightarrow>
          Option.bind (shift_all current_length (snd (plan ! index)) (drop (index + 1) plan)) (\<lambda>rest.
            let adjusted = take index plan @ (fst (plan ! index), current_length) # rest
            in if plan_fits asset_len 0 adjusted then Some adjusted else None))"

section \<open>Labels and actions\<close>

definition label_is :: "string \<Rightarrow> string \<Rightarrow> bool" where
  "label_is label base \<longleftrightarrow>
     label = base
     \<or> (case Option.bind (Option.bind (strip_prefix base label) (strip_prefix ''__'')) parse_usize of
          Some instance \<Rightarrow> instance > 0 | None \<Rightarrow> False)"

definition is_ingredient :: "string \<Rightarrow> bool" where
  "is_ingredient label \<longleftrightarrow>
     list_ex (label_is label) [''c2pa.ingredient'', ''c2pa.ingredient.v2'', ''c2pa.ingredient.v3'']"

definition is_forbidden_label :: "string \<Rightarrow> bool" where
  "is_forbidden_label label \<longleftrightarrow>
     list_ex (label_is label)
       [''c2pa.hash.data'', ''c2pa.hash.boxes'', ''c2pa.hash.collection.data'', ''c2pa.hash.bmff.v2'',
        ''c2pa.hash.bmff.v3'', ''c2pa.hash.multi-asset'']
     \<or> prefix ''c2pa.thumbnail.'' label"

definition local_manifest_label :: "cbor_value \<Rightarrow> bool \<Rightarrow> string option" where
  "local_manifest_label reference signature =
     Option.bind (text_field reference ''url'') (\<lambda>url.
     Option.bind (strip_prefix ''self#jumbf=/c2pa/'' url) (\<lambda>rest.
     Option.bind (if signature then strip_suffix ''/c2pa.signature'' rest else Some rest) some_plain))"

definition ALLOWED_ACTIONS :: "string list" where
  "ALLOWED_ACTIONS = [''c2pa.edited.metadata'', ''c2pa.opened'', ''c2pa.published'', ''c2pa.redacted'']"

definition name_allowed :: "string option \<Rightarrow> bool" where
  "name_allowed name = (case name of Some n \<Rightarrow> n \<in> set ALLOWED_ACTIONS | None \<Rightarrow> False)"

definition allowed_actions :: "cbor_value \<Rightarrow> bool" where
  "allowed_actions v =
     (case get_field v ''actions'' of
        Some (Array actions) \<Rightarrow>
          actions \<noteq> [] \<and> list_all (\<lambda>action. name_allowed (text_field action ''action'')) actions
      | _ \<Rightarrow> False)"

definition allowed_actions_json :: "json \<Rightarrow> bool" where
  "allowed_actions_json v =
     (case json_get v ''actions'' of
        Some (JArray actions) \<Rightarrow>
          actions \<noteq> [] \<and> list_all (\<lambda>action. name_allowed (Option.bind (json_get action ''action'') json_as_str)) actions
      | _ \<Rightarrow> False)"

definition allowed_action_payload :: "(bytes \<Rightarrow> json option) \<Rightarrow> parsed_manifest \<Rightarrow> string \<Rightarrow> bytes \<Rightarrow> bool" where
  "allowed_action_payload from_slice manifest label payload =
     (case assertion_content_type_of manifest (ascii label) of
        Some ContentCbor \<Rightarrow> (case decode_ok payload of Some v \<Rightarrow> allowed_actions v | None \<Rightarrow> False)
      | Some ContentJson \<Rightarrow> (case from_slice payload of Some v \<Rightarrow> allowed_actions_json v | None \<Rightarrow> False)
      | None \<Rightarrow> False)"

section \<open>The shape of an update manifest\<close>

record inspection =
  wrong_parents :: bool
  invalid :: bool
  parent_label :: "string option"

text \<open>\<open>collect\<close> into a \<open>HashMap\<close>: the last payload of a label.\<close>

definition payload_of :: "parsed_manifest \<Rightarrow> string \<Rightarrow> bytes option" where
  "payload_of manifest label = map_of (rev (map (\<lambda>(l, p). (str_of_bytes l, p)) (assertions manifest))) label"

text \<open>One turn of the loop over the declared labels: whether it marks the manifest invalid, and the parent it adds.\<close>

definition inspect_label :: "(bytes \<Rightarrow> json option) \<Rightarrow> parsed_manifest \<Rightarrow> string \<Rightarrow> bool \<times> string option option" where
  "inspect_label from_slice manifest label =
     (let invalid = is_forbidden_label label
      in case payload_of manifest label of
           None \<Rightarrow> (invalid, None)
         | Some payload \<Rightarrow>
             let is_actions = label_is label ''c2pa.actions'' \<or> label_is label ''c2pa.actions.v2'';
                 invalid = (invalid \<or> is_actions \<and> \<not> allowed_action_payload from_slice manifest label payload)
             in case decode_ok payload of
                  None \<Rightarrow> (invalid \<or> is_ingredient label, None)
                | Some v \<Rightarrow>
                    if \<not> is_ingredient label \<or> text_field v ''relationship'' \<noteq> Some ''parentOf'' then (invalid, None)
                    else if label_is label ''c2pa.ingredient.v3'' then
                      let active = Option.bind (get_field v ''activeManifest'') (\<lambda>r. local_manifest_label r False);
                          signature = Option.bind (get_field v ''claimSignature'') (\<lambda>r. local_manifest_label r True)
                      in (invalid \<or> active = None \<or> signature \<noteq> active, Some active)
                    else
                      let parent = Option.bind (get_field v ''c2pa_manifest'') (\<lambda>r. local_manifest_label r False)
                      in (invalid \<or> parent = None, Some parent))"

definition inspect_update :: "(bytes \<Rightarrow> json option) \<Rightarrow> parsed_manifest \<Rightarrow> string list \<Rightarrow> inspection" where
  "inspect_update from_slice manifest declared_labels =
     (let turns = map (inspect_label from_slice manifest) declared_labels;
          parents = List.map_filter snd turns;
          ingredients = length (filter (\<lambda>(label, _). is_ingredient (str_of_bytes label)) (assertions manifest));
          one_parent = (ingredients = 1 \<and> length parents = 1)
      in \<lparr>wrong_parents = \<not> one_parent, invalid = list_ex fst turns,
          parent_label = (if one_parent then hd parents else None)\<rparr>)"

section \<open>The parent chain\<close>

datatype resolve_error =
    WrongParents string
  | InvalidUpdate string
  | MissingParent string
  | Cycle string
  | TooDeep

text \<open>Labels inserted into a \<open>HashSet\<close>: a list without repetitions.\<close>

definition set_insert :: "string \<Rightarrow> string list \<Rightarrow> string list" where
  "set_insert x xs = (if x \<in> set xs then xs else xs @ [x])"

definition declared_reference :: "cbor_value \<Rightarrow> string option" where
  "declared_reference reference =
     Option.bind (text_field reference ''url'') (\<lambda>url.
       case strip_prefix ''self#jumbf=c2pa.assertions/'' url of
         Some label \<Rightarrow> Some label
       | None \<Rightarrow>
           Option.bind (strip_prefix ''self#jumbf=/c2pa/'' url) (\<lambda>rest.
             map_option snd (split_once_str ''/c2pa.assertions/'' rest)))"

fun declare_references :: "string list \<Rightarrow> cbor_value list \<Rightarrow> string list option" where
  "declare_references labels [] = Some labels"
| "declare_references labels (r # rs) =
     Option.bind (declared_reference r) (\<lambda>label. declare_references (set_insert label labels) rs)"

fun declare_fields :: "cbor_value \<Rightarrow> string list \<Rightarrow> string list \<Rightarrow> string list option" where
  "declare_fields claim labels [] = Some labels"
| "declare_fields claim labels (field # fs) =
     (case get_field claim field of
        Some (Array references) \<Rightarrow>
          Option.bind (declare_references labels references) (\<lambda>labels. declare_fields claim labels fs)
      | _ \<Rightarrow> declare_fields claim labels fs)"

definition declared_labels_of :: "parsed_manifest \<Rightarrow> string list option" where
  "declared_labels_of manifest =
     Option.bind (Option.bind (claim_cbor manifest) decode_ok) (\<lambda>claim.
       declare_fields claim [] [''assertions'', ''created_assertions'', ''gathered_assertions''])"

definition resolve_parent ::
    "(bytes \<Rightarrow> json option) \<Rightarrow> parsed_manifest \<Rightarrow> parsed_manifest list \<Rightarrow> resolve_error + parsed_manifest" where
  "resolve_parent from_slice update manifests =
     res_bind (ok_or (declared_labels_of update) (InvalidUpdate (pm_name update))) (\<lambda>labels.
       let i = inspect_update from_slice update labels
       in if wrong_parents i then Inl (WrongParents (pm_name update))
          else if invalid i then Inl (InvalidUpdate (pm_name update))
          else res_bind (ok_or (parent_label i) (InvalidUpdate (pm_name update))) (\<lambda>parent.
                 ok_or (find (\<lambda>m. pm_name m = parent) manifests) (MissingParent parent)))"

definition MAX_CHAIN_DEPTH :: nat where "MAX_CHAIN_DEPTH = 1024"

text \<open>The loop of \<open>resolve_standard\<close>, with the number of turns left and the labels visited.\<close>

fun standard_loop ::
    "(bytes \<Rightarrow> json option) \<Rightarrow> parsed_manifest list \<Rightarrow> nat \<Rightarrow> string set \<Rightarrow> parsed_manifest
      \<Rightarrow> resolve_error + parsed_manifest" where
  "standard_loop from_slice manifests 0 visited current = Inl TooDeep"
| "standard_loop from_slice manifests (Suc n) visited current =
     (if manifest_kind_of current = Standard then Inr current
      else if pm_name current \<in> visited then Inl (Cycle (pm_name current))
      else res_bind (resolve_parent from_slice current manifests)
             (standard_loop from_slice manifests n (insert (pm_name current) visited)))"

definition resolve_standard ::
    "(bytes \<Rightarrow> json option) \<Rightarrow> parsed_manifest \<Rightarrow> parsed_manifest list \<Rightarrow> resolve_error + parsed_manifest" where
  "resolve_standard from_slice active manifests =
     standard_loop from_slice manifests (min (length manifests) MAX_CHAIN_DEPTH + 1) {} active"

end
