(* ===== verification/Update_Properties.thy ===== *)
theory Update_Properties
  imports Update_Manifest Exclusions Jumbf_Properties "HOL-Library.Multiset"
begin

text \<open>
  Update manifests: re-sized exclusions keep the hashed bytes, the inspection of a manifest does not depend on the
  order of a hash set, and the parent chain of a parsed store always ends.
\<close>

section \<open>Exclusions\<close>

lemma plan_fits_ranges: "n \<le> usize_max \<Longrightarrow> plan_fits n p rs \<longleftrightarrow> ranges_ok p rs n"
  by (induction n p rs rule: plan_fits.induct) (auto split: option.splits simp: checked_add_def)

definition moved :: "nat \<Rightarrow> (nat \<times> nat) list \<Rightarrow> (nat \<times> nat) list" where
  "moved k rs = map (\<lambda>(s, l). (k + s, l)) rs"

lemma ranges_ok_moved: "ranges_ok (k + p) (moved k rs) (k + n) \<longleftrightarrow> ranges_ok p rs n \<and> (\<forall>(s, l) \<in> set rs. k + s + l \<le> usize_max)"
  by (induction rs arbitrary: p) (auto simp: moved_def add.assoc)

lemma ranges_ok_weaken: "ranges_ok p rs n \<Longrightarrow> q \<le> p \<Longrightarrow> n \<le> m \<Longrightarrow> ranges_ok q rs m"
  by (induction p rs n arbitrary: q rule: ranges_ok.induct) auto

lemma unmove: "ranges_ok k rs n \<Longrightarrow> \<exists>zs. rs = moved k zs"
proof (induction k rs n rule: ranges_ok.induct)
  case (2 p s l rs n)
  then have "ranges_ok p rs n" using ranges_ok_weaken by fastforce
  have "\<exists>zs. rs = moved p zs"
  proof -
    have "\<forall>(a, b) \<in> set rs. p \<le> a" using ranges_ok_within [OF \<open>ranges_ok p rs n\<close>] by fastforce
    then have "rs = moved p (map (\<lambda>(a, b). (a - p, b)) rs)"
      by (induction rs) (auto simp: moved_def)
    then show ?thesis by blast
  qed
  then obtain zs where "rs = moved p zs" by blast
  with 2(2) have "(s, l) # rs = moved p ((s - p, l) # zs)" by (simp add: moved_def)
  then show ?case by blast
qed (auto simp: moved_def)

lemma upt_moved: "map ((+) k) [p..<n] = [k + p..<k + n]"
  by (induction n) auto

lemma kept_moved: "kept (c @ b) (length c + p) (moved (length c) rs) = kept b p rs"
proof -
  have "in_ranges (length c + i) (moved (length c) rs) = in_ranges i rs" for i
    by (induction rs) (auto simp: in_ranges_def moved_def)
  moreover have "[length c + p..<length (c @ b)] = map ((+) (length c)) [p..<length b]"
    by (simp add: upt_moved)
  ultimately show ?thesis by (simp add: kept_def filter_map comp_def)
qed

lemma slice_append_first: "e \<le> length a \<Longrightarrow> slice (a @ x) p e = slice a p e"
  by (auto simp: slice_def drop_append)

text \<open>The bytes kept are those before the store range and those after it, whatever the store is.\<close>

lemma kept_around:
  assumes "ranges_ok p (xs @ (length a, length store) # moved (length a + length store) zs) (length (a @ store @ b))"
    and "ranges_ok p (xs @ (length a, length store') # moved (length a + length store') zs) (length (a @ store' @ b))"
  shows "kept (a @ store @ b) p (xs @ (length a, length store) # moved (length a + length store) zs)
    = kept (a @ store' @ b) p (xs @ (length a, length store') # moved (length a + length store') zs)"
  using assms
proof (induction xs arbitrary: p)
  case Nil
  have "kept (a @ x @ b) p ((length a, length x) # moved (length a + length x) zs)
      = slice a p (length a) @ kept b 0 zs"
    if "ranges_ok p ((length a, length x) # moved (length a + length x) zs) (length (a @ x @ b))" for x
    using that kept_moved [of "a @ x" b 0 zs]
    by (subst kept_Cons) (auto simp: slice_append_first)
  with Nil show ?case by simp
next
  case (Cons r xs)
  obtain s l where r: "r = (s, l)" by (cases r)
  have before: "s + l \<le> length a"
    using Cons.prems(1) ranges_ok_within [of "s + l" _ "length (a @ store @ b)" "length a" "length store"] by (auto simp: r)
  have "kept (a @ x @ b) p (r # xs @ (length a, length x) # moved (length a + length x) zs)
      = slice a p s @ kept (a @ x @ b) (s + l) (xs @ (length a, length x) # moved (length a + length x) zs)"
    if "ranges_ok p (r # xs @ (length a, length x) # moved (length a + length x) zs) (length (a @ x @ b))" for x
    using that before by (simp add: r) (subst kept_Cons; simp add: slice_append_first)
  with Cons show ?case by (simp add: r)
qed

lemma shift_all_moved:
  assumes "\<forall>(s, l) \<in> set zs. k + c + s \<le> usize_max"
  shows "shift_all c l0 (moved (k + l0) zs) = Some (moved (k + c) zs)"
  using assms by (induction zs) (auto simp: moved_def shift_start_def checked_add_def checked_sub_def)

lemma find_carrier_first:
  assumes "\<forall>(s, l) \<in> set xs. s \<noteq> k"
  shows "find_carrier i [\<lparr>ex_start = k, ex_length = c\<rparr>] (xs @ (k, l0) # ys) = Some (i + length xs, c)"
  using assms by (induction xs arbitrary: i) auto

lemma ranges_ok_appendD:
  "ranges_ok p (xs @ (s, l) # ys) n \<Longrightarrow> ranges_ok p xs s \<and> p \<le> s \<and> ranges_ok s ((s, l) # ys) n"
proof (induction xs arbitrary: p)
  case (Cons r xs)
  obtain t m where r: "r = (t, m)" by (cases r)
  with Cons.prems have "ranges_ok (t + m) (xs @ (s, l) # ys) n" by simp
  with Cons.IH Cons.prems r show ?case by fastforce
qed simp

lemma ranges_ok_appendI:
  "ranges_ok p xs s \<Longrightarrow> p \<le> s \<Longrightarrow> ranges_ok s ((s, l) # ys) n \<Longrightarrow> ranges_ok p (xs @ (s, l) # ys) n"
  by (induction xs arbitrary: p) auto

lemma adjusted_plan:
  assumes "ranges_ok 0 (xs @ (length a, length store) # ys) (length (a @ store @ b))"
    and "\<forall>(s, l) \<in> set xs. s \<noteq> length a" and "length (a @ store' @ b) \<le> usize_max"
  shows "\<exists>zs. ys = moved (length a + length store) zs
    \<and> adjust_exclusions_for_updates (xs @ (length a, length store) # ys)
        [\<lparr>ex_start = length a, ex_length = length store'\<rparr>] (length (a @ store' @ b))
      = Some (xs @ (length a, length store') # moved (length a + length store') zs)
    \<and> ranges_ok 0 (xs @ (length a, length store') # moved (length a + length store') zs) (length (a @ store' @ b))"
proof -
  have ys: "ranges_ok (length a + length store) ys (length (a @ store @ b))"
    and xs: "ranges_ok 0 xs (length a)"
    using ranges_ok_appendD [OF assms(1)] by auto
  then obtain zs where zs: "ys = moved (length a + length store) zs" using unmove by blast
  have "ranges_ok 0 zs (length b)"
    using ys ranges_ok_moved [of "length a + length store" 0 zs "length b"] by (simp add: zs add.assoc)
  then have within: "\<forall>(s, l) \<in> set zs. s + l \<le> length b" using ranges_ok_within by fastforce
  have ok: "ranges_ok (length a + length store') (moved (length a + length store') zs) (length (a @ store' @ b))"
  proof -
    have "\<forall>(s, l) \<in> set zs. length a + length store' + s + l \<le> usize_max" using within assms(3) by fastforce
    with \<open>ranges_ok 0 zs (length b)\<close> ranges_ok_moved [of "length a + length store'" 0 zs "length b"]
    show ?thesis by (simp add: add.assoc)
  qed
  have all: "ranges_ok 0 (xs @ (length a, length store') # moved (length a + length store') zs) (length (a @ store' @ b))"
    using xs ok assms(3) by (intro ranges_ok_appendI) auto
  have "shift_all (length store') (length store) ys = Some (moved (length a + length store') zs)"
    unfolding zs by (rule shift_all_moved) (use within assms(3) in fastforce)
  then show ?thesis
    using zs all find_carrier_first [OF assms(2), of 0 "length store'" "length store" ys] assms(3)
    by (intro exI [of _ zs]) (simp add: adjust_exclusions_for_updates_def nth_append plan_fits_ranges)
qed

section \<open>Inspection\<close>

lemma inspect_update_order:
  assumes "distinct ls" and "distinct ls'" and "set ls = set ls'"
  shows "inspect_update from_slice m ls = inspect_update from_slice m ls'"
proof -
  have mset: "mset ls = mset ls'" using assms by (simp add: set_eq_iff_mset_eq_distinct)
  let ?p = "\<lambda>ls. List.map_filter snd (map (inspect_label from_slice m) ls)"
  have p: "?p ls = map (the \<circ> snd) (filter (\<lambda>t. snd t \<noteq> None) (map (inspect_label from_slice m) ls))" for ls
    by (simp add: List.map_filter_def)
  have eq: "mset (?p ls) = mset (?p ls')" unfolding p using mset by simp
  then have "length (?p ls) = length (?p ls')" by (rule mset_eq_length)
  moreover have "hd (?p ls) = hd (?p ls')" if "length (?p ls) = 1"
    using eq that calculation by (auto simp: length_Suc_conv)
  moreover have "list_ex fst (map (inspect_label from_slice m) ls) = list_ex fst (map (inspect_label from_slice m) ls')"
    using assms(3) by (simp add: list_ex_iff)
  ultimately show ?thesis by (simp add: inspect_update_def Let_def)
qed

text \<open>What a well-formed inspection says: one ingredient, one declared \<open>parentOf\<close> reference, no defect.\<close>

lemma inspect_update_parent:
  "\<not> wrong_parents (inspect_update from_slice m ls) \<Longrightarrow>
     length (filter (\<lambda>(label, _). is_ingredient (str_of_bytes label)) (assertions m)) = 1
     \<and> length (List.map_filter snd (map (inspect_label from_slice m) ls)) = 1"
  by (simp add: inspect_update_def Let_def)

section \<open>The parent chain\<close>

lemma resolve_parent_mem:
  assumes "resolve_parent from_slice u manifests = Inr m"
  shows "m \<in> set manifests"
  using assms by (auto simp: resolve_parent_def Let_def res_simps split: if_splits dest: find_SomeD)

definition updates :: "(bytes \<Rightarrow> json option) \<Rightarrow> parsed_manifest list \<Rightarrow> parsed_manifest \<Rightarrow> parsed_manifest \<Rightarrow> bool" where
  "updates from_slice manifests u m \<longleftrightarrow>
     manifest_kind_of u = Update \<and> resolve_parent from_slice u manifests = Inr m"

fun names_chain_error :: "resolve_error \<Rightarrow> bool" where
  "names_chain_error TooDeep = False"
| "names_chain_error _ = True"

lemma resolve_parent_error: "resolve_parent from_slice u manifests = Inl e \<Longrightarrow> names_chain_error e"
  by (auto simp: resolve_parent_def Let_def res_simps split: if_splits)

text \<open>The labels visited are different labels of the store, so there are at most as many as manifests.\<close>

lemma standard_loop_ends:
  assumes "current \<in> set manifests" and "visited \<subseteq> pm_name ` set manifests" and "finite visited"
    and "card (pm_name ` set manifests) < card visited + n"
  shows "case standard_loop from_slice manifests n visited current of
      Inr m \<Rightarrow> m \<in> set manifests \<and> manifest_kind_of m = Standard \<and> (updates from_slice manifests)\<^sup>*\<^sup>* current m
    | Inl e \<Rightarrow> names_chain_error e"
  using assms
proof (induction n arbitrary: visited current)
  case 0
  then have "card visited \<le> card (pm_name ` set manifests)" by (intro card_mono) auto
  with 0 show ?case by simp
next
  case (Suc n)
  show ?case
  proof (cases "manifest_kind_of current = Standard \<or> pm_name current \<in> visited")
    case True
    with Suc.prems(1) show ?thesis by auto
  next
    case False
    then have update: "manifest_kind_of current = Update" by (cases "manifest_kind_of current") auto
    show ?thesis
    proof (cases "resolve_parent from_slice current manifests")
      case (Inl e)
      with False show ?thesis by (simp add: resolve_parent_error)
    next
      case (Inr m)
      have "case standard_loop from_slice manifests n (insert (pm_name current) visited) m of
          Inr m' \<Rightarrow> m' \<in> set manifests \<and> manifest_kind_of m' = Standard \<and> (updates from_slice manifests)\<^sup>*\<^sup>* m m'
        | Inl e \<Rightarrow> names_chain_error e"
        by (rule Suc.IH) (use Suc.prems False resolve_parent_mem [OF Inr] in auto)
      moreover have "updates from_slice manifests current m" using update Inr by (simp add: updates_def)
      ultimately show ?thesis using False Inr
        by (auto split: sum.splits intro: converse_rtranclp_into_rtranclp)
    qed
  qed
qed

lemma resolve_standard_ends:
  assumes "length manifests \<le> MAX_CHAIN_DEPTH" and "active \<in> set manifests"
  shows "case resolve_standard from_slice active manifests of
      Inr m \<Rightarrow> m \<in> set manifests \<and> manifest_kind_of m = Standard \<and> (updates from_slice manifests)\<^sup>*\<^sup>* active m
    | Inl e \<Rightarrow> names_chain_error e"
proof -
  have "card (pm_name ` set manifests) \<le> length manifests"
    by (metis card_length length_map set_map)
  with assms show ?thesis
    unfolding resolve_standard_def by (intro standard_loop_ends) (auto simp: min_def)
qed

section \<open>Claims\<close>

text \<open>
  C17: an update that only replaces the manifest store keeps the data hash. Take an asset with its store at some offset and
  accepted exclusions, one of which starts there (and no other does); when the store is replaced by one of any other
  length, the adjusted exclusions exist and hash to what the original exclusions hashed to.
\<close>

theorem update_keeps_data_hash:
  assumes "ranges_ok 0 (xs @ (length a, length store) # ys) (length (a @ store @ b))"
    and "\<forall>(s, l) \<in> set xs. s \<noteq> length a" and "length (a @ store' @ b) \<le> usize_max"
  shows "\<exists>plan. adjust_exclusions_for_updates (xs @ (length a, length store) # ys)
        [\<lparr>ex_start = length a, ex_length = length store'\<rparr>] (length (a @ store' @ b)) = Some plan
    \<and> hash_with_exclusions digest alg (a @ store' @ b) plan
        = hash_with_exclusions digest alg (a @ store @ b) (xs @ (length a, length store) # ys)"
proof -
  from adjusted_plan [OF assms] obtain zs where zs: "ys = moved (length a + length store) zs"
    and plan: "adjust_exclusions_for_updates (xs @ (length a, length store) # ys)
        [\<lparr>ex_start = length a, ex_length = length store'\<rparr>] (length (a @ store' @ b))
      = Some (xs @ (length a, length store') # moved (length a + length store') zs)"
    and ok: "ranges_ok 0 (xs @ (length a, length store') # moved (length a + length store') zs) (length (a @ store' @ b))"
    by blast
  with assms(1) show ?thesis
    using kept_around [of 0 xs a store zs b store'] by (simp add: hash_with_exclusions_kept zs)
qed

theorem update_keeps_data_hash_witness:
  "\<exists>plan. adjust_exclusions_for_updates [(1, 2), (4, 1)] [\<lparr>ex_start = 1, ex_length = 3\<rparr>] 7 = Some plan
    \<and> hash_with_exclusions (\<lambda>_ bs. bs) ''sha256'' [1, 9, 9, 9, 4, 5, 6] plan
        = hash_with_exclusions (\<lambda>_ bs. bs) ''sha256'' [1, 2, 3, 4, 5, 6] [(1, 2), (4, 1)]"
proof -
  have u: "7 \<le> usize_max" by (simp add: usize_max_def)
  have "ranges_ok 0 ([] @ (length [1 :: byte], length [2, 3 :: byte]) # [(4, 1)]) (length ([1] @ [2, 3] @ [4, 5, 6 :: byte]))"
    "length ([1] @ [9, 9, 9] @ [4, 5, 6 :: byte]) \<le> usize_max"
    using u by (simp_all add: numeral_eq_Suc)
  from update_keeps_data_hash [OF this(1) _ this(2), of "\<lambda>_ bs. bs" "''sha256''"] show ?thesis
    by (simp add: numeral_eq_Suc)
qed

text \<open>
  C21: from any manifest of a store the parser accepts, following the parents of update manifests ends: with a standard manifest
  of the store that is reached through parent links, or with an error about one manifest of the chain (a wrong or
  missing parent, an invalid shape, a cycle). The bound on the number of turns is never what stops it.
\<close>

theorem update_chain_ends:
  assumes "parse_manifest_store data = Inr manifests" and "active \<in> set manifests"
  shows "case resolve_standard from_slice active manifests of
      Inr m \<Rightarrow> m \<in> set manifests \<and> manifest_kind_of m = Standard \<and> (updates from_slice manifests)\<^sup>*\<^sup>* active m
    | Inl e \<Rightarrow> names_chain_error e"
proof -
  have "length manifests \<le> MAX_CHAIN_DEPTH"
    using parse_manifest_store_ok [OF assms(1)] by (simp add: store_ok_def MAX_MANIFESTS_PER_STORE_def MAX_CHAIN_DEPTH_def)
  then show ?thesis using assms(2) by (rule resolve_standard_ends)
qed

theorem update_chain_ends_witness:
  "case resolve_standard (\<lambda>_. None) (spec_parsed (sample_manifest (ascii ''b''))) [spec_parsed (sample_manifest (ascii ''b''))] of
      Inr m \<Rightarrow> m = spec_parsed (sample_manifest (ascii ''b'')) | Inl e \<Rightarrow> names_chain_error e"
proof -
  have "parse_manifest_store (build_manifest_store (map manifest_bytes [sample_manifest (ascii ''b'')]))
      = Inr (map spec_parsed [sample_manifest (ascii ''b'')])"
    using spec_ok_sample valid_label_small length_sample [of 98] length_store_description
    by (intro parse_store_spec)
      (simp_all add: MAX_MANIFESTS_PER_STORE_def MAX_MANIFEST_STORE_BYTES_def built_store_box length_box_bytes ascii_def)
  then have "parse_manifest_store (build_manifest_store [manifest_bytes (sample_manifest (ascii ''b''))])
      = Inr [spec_parsed (sample_manifest (ascii ''b''))]" by simp
  from update_chain_ends [OF this, of "spec_parsed (sample_manifest (ascii ''b''))" "\<lambda>_. None"] show ?thesis
    by (auto split: sum.splits)
qed

end
