(* ===== verification/Redaction.thy ===== *)
theory Redaction
  imports Assertion_Labels Verify_Output "HOL-Library.AList" "HOL-Library.Char_ord"
begin

text \<open>
  Redacted assertions, \<^verbatim>\<open>c2pa-validate/redaction.rs\<close>: which assertions of which manifests the claims of a lineage declare
  redacted, by whom, and what such a declaration owes. Hash maps are association lists with distinct keys, the
  ordered map of a manifest's redacted assertions is an ascending one.
\<close>

section \<open>Codes and limits\<close>

definition ASSERTION_ACTION_REDACTED :: string where "ASSERTION_ACTION_REDACTED = ''assertion.action.redacted''"
definition ASSERTION_HARD_BINDING_REDACTED :: string where
  "ASSERTION_HARD_BINDING_REDACTED = ''assertion.hardBinding.redacted''"
definition ASSERTION_NOT_REDACTED :: string where "ASSERTION_NOT_REDACTED = ''assertion.notRedacted''"
definition ASSERTION_SELF_REDACTED :: string where "ASSERTION_SELF_REDACTED = ''assertion.selfRedacted''"
definition MAX_REDACTED_ASSERTIONS :: nat where "MAX_REDACTED_ASSERTIONS = 4096"

section \<open>Entries\<close>

datatype redaction_entry = Absolute string string | SelfScoped | MalformedEntry

definition read_entry :: "string \<Rightarrow> string \<Rightarrow> redaction_entry" where
  "read_entry url declaring_label =
     (case strip_prefix ''self#jumbf='' url of
        None \<Rightarrow> MalformedEntry
      | Some rest \<Rightarrow>
          (case strip_prefix ''/c2pa/'' rest of
             None \<Rightarrow>
               (case strip_prefix ''c2pa.assertions/'' rest of
                  Some assertion \<Rightarrow> if plain_name assertion then SelfScoped else MalformedEntry
                | None \<Rightarrow> MalformedEntry)
           | Some absolute \<Rightarrow>
               (case split_once_str ''/c2pa.assertions/'' absolute of
                  None \<Rightarrow> MalformedEntry
                | Some (manifest, assertion) \<Rightarrow>
                    if manifest = [] \<or> \<not> plain_name assertion then MalformedEntry
                    else if manifest = declaring_label then SelfScoped
                    else Absolute manifest assertion)))"

text \<open>\<open>base_label\<close> of \<^verbatim>\<open>refs.rs\<close>: around the first double underscore.\<close>

definition base_label :: "string \<Rightarrow> string" where
  "base_label label =
     (case split_once_str ''__'' label of
        Some (base, instance) \<Rightarrow> if instance \<noteq> [] \<and> list_all is_ascii_digit instance then base else label
      | None \<Rightarrow> label)"

definition non_redactable :: "string \<Rightarrow> string option" where
  "non_redactable alabel =
     (let base = base_label alabel
      in if base = ''c2pa.actions'' \<or> base = ''c2pa.actions.v2'' then Some ASSERTION_ACTION_REDACTED
         else if prefix ''c2pa.hash.'' base then Some ASSERTION_HARD_BINDING_REDACTED
         else None)"

definition entry_url :: "cbor_value \<Rightarrow> string option" where
  "entry_url entry =
     (case as_text entry of Some t \<Rightarrow> Some (str_of_bytes t) | None \<Rightarrow> text_field entry ''url'')"

text \<open>The entries of a claim's \<open>redacted_assertions\<close>, when the field is an array.\<close>

definition redacted_entries :: "cbor_value \<Rightarrow> cbor_value list option" where
  "redacted_entries claim =
     (case get_field claim ''redacted_assertions'' of Some (Array entries) \<Rightarrow> Some entries | _ \<Rightarrow> None)"

section \<open>The index\<close>

record redaction_index =
  ri_targets :: "(string \<times> (string \<times> string set) list) list"
  ri_nonzero :: "(string \<times> string set) list"

definition redaction_index_default :: redaction_index where
  "redaction_index_default = \<lparr>ri_targets = [], ri_nonzero = []\<rparr>"

text \<open>\<open>entry(k).or_default()\<close> and insertion of the declarant.\<close>

definition declare_target :: "string \<Rightarrow> string \<Rightarrow> (string \<times> string set) list \<Rightarrow> (string \<times> string set) list" where
  "declare_target assertion declarant m =
     btree_insert assertion (insert declarant (case map_of m assertion of Some ds \<Rightarrow> ds | None \<Rightarrow> {})) m"

definition still_nonzero :: "parsed_manifest list \<Rightarrow> string \<Rightarrow> string \<Rightarrow> bool" where
  "still_nonzero manifests manifest assertion \<longleftrightarrow>
     Option.bind (find (\<lambda>m. pm_name m = manifest) manifests)
       (\<lambda>m. assertion_content_is_zeroed m (ascii assertion)) = Some False"

definition add_target ::
    "string \<Rightarrow> parsed_manifest list \<Rightarrow> string \<Rightarrow> string \<Rightarrow> redaction_index \<Rightarrow> redaction_index" where
  "add_target label manifests manifest assertion index =
     index\<lparr>ri_targets := AList.map_default manifest (declare_target assertion label [])
                           (declare_target assertion label) (ri_targets index),
           ri_nonzero := (if still_nonzero manifests manifest assertion
                          then AList.map_default manifest {assertion} (insert assertion) (ri_nonzero index)
                          else ri_nonzero index)\<rparr>"

definition claim_targets :: "string \<Rightarrow> cbor_value list \<Rightarrow> (string \<times> string) list" where
  "claim_targets label entries =
     List.map_filter (\<lambda>url. case read_entry url label of Absolute m a \<Rightarrow> Some (m, a) | _ \<Rightarrow> None)
       (List.map_filter entry_url (take MAX_REDACTED_ASSERTIONS entries))"

definition index_add_claim ::
    "string \<Rightarrow> cbor_value \<Rightarrow> parsed_manifest list \<Rightarrow> redaction_index \<Rightarrow> redaction_index" where
  "index_add_claim label claim manifests index =
     (case redacted_entries claim of
        None \<Rightarrow> index
      | Some entries \<Rightarrow> foldl (\<lambda>index (m, a). add_target label manifests m a index) index (claim_targets label entries))"

definition redactions_empty :: "redaction_index \<Rightarrow> bool" where
  "redactions_empty index \<longleftrightarrow> ri_targets index = []"

definition names_manifest :: "redaction_index \<Rightarrow> string \<Rightarrow> bool" where
  "names_manifest index manifest \<longleftrightarrow> map_of (ri_targets index) manifest \<noteq> None"

definition declarants :: "redaction_index \<Rightarrow> string \<Rightarrow> string \<Rightarrow> string set option" where
  "declarants index manifest assertion =
     Option.bind (map_of (ri_targets index) manifest) (\<lambda>targets. map_of targets assertion)"

definition redaction_contains :: "redaction_index \<Rightarrow> string \<Rightarrow> string \<Rightarrow> bool" where
  "redaction_contains index manifest assertion \<longleftrightarrow> declarants index manifest assertion \<noteq> None"

definition declared_by :: "redaction_index \<Rightarrow> string \<Rightarrow> string \<Rightarrow> bool" where
  "declared_by index declarant url =
     (case read_entry url declarant of
        Absolute manifest assertion \<Rightarrow>
          (case declarants index manifest assertion of Some ds \<Rightarrow> declarant \<in> ds | None \<Rightarrow> False)
      | _ \<Rightarrow> False)"

definition nonzero_target :: "redaction_index \<Rightarrow> string \<Rightarrow> string \<Rightarrow> bool" where
  "nonzero_target index manifest assertion =
     (case map_of (ri_nonzero index) manifest of Some targets \<Rightarrow> assertion \<in> targets | None \<Rightarrow> False)"

definition verify_target ::
    "redaction_index \<Rightarrow> string \<Rightarrow> string \<Rightarrow> string \<Rightarrow> validation_results \<Rightarrow> validation_results" where
  "verify_target index manifest assertion url results =
     (let results = (case non_redactable assertion of
                       Some code \<Rightarrow> push_failure code url (''assertion '' @ quoted assertion @ '' may not be redacted'') results
                     | None \<Rightarrow> results)
      in if nonzero_target index manifest assertion
         then push_failure ASSERTION_NOT_REDACTED url
                ''assertion declared redacted still contains non-zero content'' results
         else results)"

definition assertion_url :: "string \<Rightarrow> string \<Rightarrow> string" where
  "assertion_url manifest assertion = ''self#jumbf=/c2pa/'' @ manifest @ ''/c2pa.assertions/'' @ assertion"

definition verify_manifest_redactions ::
    "redaction_index \<Rightarrow> string \<Rightarrow> validation_results \<Rightarrow> validation_results" where
  "verify_manifest_redactions index manifest results =
     (case map_of (ri_targets index) manifest of
        None \<Rightarrow> results
      | Some targets \<Rightarrow>
          foldl (\<lambda>results assertion. verify_target index manifest assertion (assertion_url manifest assertion) results)
            results (map fst targets))"

section \<open>The declaring claim\<close>

definition verify_redaction_entry ::
    "string \<Rightarrow> string \<Rightarrow> parsed_manifest list \<Rightarrow> validation_results \<Rightarrow> cbor_value \<Rightarrow> validation_results" where
  "verify_redaction_entry declaring_label claim_url manifests results entry =
     (case entry_url entry of
        None \<Rightarrow> push_failure CLAIM_MALFORMED claim_url ''redacted_assertions entry is not a JUMBF URI'' results
      | Some url \<Rightarrow>
          (case read_entry url declaring_label of
             SelfScoped \<Rightarrow> push_failure ASSERTION_SELF_REDACTED claim_url
               (''claim redacts an assertion of its own manifest: '' @ quoted url) results
           | MalformedEntry \<Rightarrow> push_failure CLAIM_MALFORMED claim_url
               (''redacted_assertions entry '' @ quoted url @ '' is not an absolute JUMBF assertion URI'') results
           | Absolute manifest assertion \<Rightarrow>
               if still_nonzero manifests manifest assertion
               then push_failure ASSERTION_NOT_REDACTED url
                      ''assertion declared redacted still contains non-zero content'' results
               else results))"

definition verify_claim_redactions ::
    "string \<Rightarrow> cbor_value \<Rightarrow> parsed_manifest list \<Rightarrow> validation_results \<Rightarrow> validation_results" where
  "verify_claim_redactions declaring_label claim manifests results =
     (case redacted_entries claim of
        None \<Rightarrow> results
      | Some entries \<Rightarrow>
          let claim_url = ''self#jumbf=/c2pa/'' @ declaring_label @ ''/c2pa.claim.v2''
          in if length entries > MAX_REDACTED_ASSERTIONS
             then push_failure CLAIM_MALFORMED claim_url
                    (''redacted_assertions count exceeds verifier bound ('' @ fmt_nat MAX_REDACTED_ASSERTIONS @ '')'') results
             else foldl (verify_redaction_entry declaring_label claim_url manifests) results entries)"

section \<open>What the index records\<close>

lemma map_of_btree_insert_upd: "map_of (btree_insert k v m) = (map_of m)(k \<mapsto> v)"
  by (induction k v m rule: btree_insert.induct) auto

lemma map_of_map_default:
  "map_of (AList.map_default k v f m) x =
     (if x = k then Some (case map_of m k of Some y \<Rightarrow> f y | None \<Rightarrow> v) else map_of m x)"
  by (induction m) auto

lemma map_of_declare: "map_of (declare_target a d m) x =
    (if x = a then Some (insert d (case map_of m a of Some ds \<Rightarrow> ds | None \<Rightarrow> {})) else map_of m x)"
  by (simp add: declare_target_def map_of_btree_insert_upd)

lemma declarants_add_target:
  "declarants (add_target label manifests m a index) m' a' =
     (if m' = m \<and> a' = a then Some (insert label (case declarants index m a of Some ds \<Rightarrow> ds | None \<Rightarrow> {}))
      else declarants index m' a')"
  by (auto simp: declarants_def add_target_def map_of_map_default map_of_declare split: option.splits)

text \<open>The set of declarants of a target, empty when it is not in the index.\<close>

definition declarers :: "redaction_index \<Rightarrow> string \<Rightarrow> string \<Rightarrow> string set" where
  "declarers index m a = (case declarants index m a of Some ds \<Rightarrow> ds | None \<Rightarrow> {})"

definition declares :: "string \<Rightarrow> cbor_value \<Rightarrow> string \<Rightarrow> string \<Rightarrow> bool" where
  "declares label claim m a \<longleftrightarrow>
     (case redacted_entries claim of None \<Rightarrow> False | Some entries \<Rightarrow> (m, a) \<in> set (claim_targets label entries))"

lemma declarers_add_target:
  "declarers (add_target label manifests m a index) m' a' =
     declarers index m' a' \<union> (if m' = m \<and> a' = a then {label} else {})"
  by (auto simp: declarers_def declarants_add_target split: option.splits)

lemma foldl_targets:
  "declarers (foldl (\<lambda>index (m, a). add_target label manifests m a index) index ts) m a =
     declarers index m a \<union> (if (m, a) \<in> set ts then {label} else {})"
  by (induction ts arbitrary: index) (auto simp: declarers_add_target split: if_splits)

lemma foldl_targets_ok:
  "declarants index m a \<noteq> Some {} \<Longrightarrow>
     declarants (foldl (\<lambda>index (m, a). add_target label manifests m a index) index ts) m a \<noteq> Some {}"
proof (induction ts arbitrary: index)
  case (Cons t ts)
  obtain m' a' where t: "t = (m', a')" by (cases t)
  have "declarants (add_target label manifests m' a' index) m a \<noteq> Some {}"
    using Cons.prems by (simp add: declarants_add_target)
  with Cons.IH show ?case by (simp add: t)
qed simp

lemma declarers_add_claim:
  "declarers (index_add_claim label claim manifests index) m a =
     declarers index m a \<union> (if declares label claim m a then {label} else {})"
  by (auto simp: index_add_claim_def declares_def foldl_targets split: option.splits)

definition index_ok :: "redaction_index \<Rightarrow> bool" where
  "index_ok index \<longleftrightarrow> (\<forall>m a. declarants index m a \<noteq> Some {})"

lemma index_ok_add_claim: "index_ok index \<Longrightarrow> index_ok (index_add_claim label claim manifests index)"
  by (auto simp: index_ok_def index_add_claim_def foldl_targets_ok split: option.splits)

lemma contains_declarers: "index_ok index \<Longrightarrow> redaction_contains index m a \<longleftrightarrow> declarers index m a \<noteq> {}"
  by (auto simp: index_ok_def redaction_contains_def declarers_def split: option.splits)

lemma index_ok_default: "index_ok redaction_index_default"
  by (simp add: index_ok_def redaction_index_default_def declarants_def)

text \<open>An accepted target is an assertion of another manifest.\<close>

lemma read_entry_absolute:
  "read_entry url label = Absolute m a \<Longrightarrow> m \<noteq> label \<and> m \<noteq> [] \<and> plain_name a"
  unfolding read_entry_def by (simp split: option.splits prod.splits if_splits del: strip_prefix_eq_Some)

lemma declares_other:
  assumes "declares label claim m a"
  shows "m \<noteq> label \<and> m \<noteq> [] \<and> plain_name a"
proof -
  obtain entries where "(m, a) \<in> set (claim_targets label entries)"
    using assms by (auto simp: declares_def split: option.splits)
  then obtain url where "(case read_entry url label of Absolute m a \<Rightarrow> Some (m, a) | _ \<Rightarrow> None) = Some (m, a)"
    by (auto simp: claim_targets_def List.map_filter_def)
  then show ?thesis by (cases "read_entry url label") (auto dest: read_entry_absolute)
qed

end
