(* ===== verification/Claim_Refs.thy ===== *)
theory Claim_Refs
  imports Redaction Content_Hash Cbor Engine_Profile Validation_Results Box_Hash
begin

text \<open>
  A claim's assertion references: \<open>ClaimAssertionRefs\<close> and the label predicates of \<^verbatim>\<open>c2pa-validate/lib.rs\<close>, and the projection
  of JSON assertions of \<^verbatim>\<open>c2pa-validate/assertion_semantics.rs\<close>. Hash sets of labels are lists without repetitions,
  hash maps are association lists. \<open>from_slice\<close> is the JSON parser.
\<close>

section \<open>JSON assertions\<close>

fun value_from_json :: "json \<Rightarrow> nat \<Rightarrow> cbor_value option \<times> nat"
  and values_from_json :: "json list \<Rightarrow> nat \<Rightarrow> cbor_value list option \<times> nat"
  and entries_from_json :: "(string \<times> json) list \<Rightarrow> nat \<Rightarrow> (cbor_value \<times> cbor_value) list option \<times> nat" where
  "value_from_json j remaining =
     (if remaining = 0 then (None, 0)
      else let remaining = remaining - 1
           in case j of
                JNull \<Rightarrow> (Some Null, remaining)
              | JBool b \<Rightarrow> (Some (Bool b), remaining)
              | JInt n \<Rightarrow> (Some (Integer n), remaining)
              | JFloat bits \<Rightarrow> (Some (Float bits), remaining)
              | JString s \<Rightarrow> (Some (Text (ascii s)), remaining)
              | JArray items \<Rightarrow>
                  (case values_from_json items remaining of (vs, remaining) \<Rightarrow> (map_option Array vs, remaining))
              | JObject entries \<Rightarrow>
                  (case entries_from_json entries remaining of (es, remaining) \<Rightarrow> (map_option Map es, remaining)))"
| "values_from_json [] remaining = (Some [], remaining)"
| "values_from_json (j # js) remaining =
     (case value_from_json j remaining of
        (None, remaining) \<Rightarrow> (None, remaining)
      | (Some v, remaining) \<Rightarrow>
          (case values_from_json js remaining of (vs, remaining) \<Rightarrow> (map_option (Cons v) vs, remaining)))"
| "entries_from_json [] remaining = (Some [], remaining)"
| "entries_from_json ((k, j) # es) remaining =
     (if remaining = 0 then (None, 0)
      else case value_from_json j (remaining - 1) of
        (None, remaining) \<Rightarrow> (None, remaining)
      | (Some v, remaining) \<Rightarrow>
          (case entries_from_json es remaining of (vs, remaining) \<Rightarrow> (map_option (Cons (Text (ascii k), v)) vs, remaining)))"

section \<open>Labels and limits\<close>

definition MAX_CLAIM_ASSERTION_REFERENCES :: nat where "MAX_CLAIM_ASSERTION_REFERENCES = 4096"
definition MAX_ASSERTION_HASH_WORK_BYTES :: nat where "MAX_ASSERTION_HASH_WORK_BYTES = 256 * 1024 * 1024"
definition MAX_ASSERTION_DECODED_VALUE_NODES :: nat where "MAX_ASSERTION_DECODED_VALUE_NODES = 2 ^ 20"

fun hash_work_from :: "nat \<Rightarrow> nat list \<Rightarrow> nat option" where
  "hash_work_from acc [] = Some acc"
| "hash_work_from acc (n # ns) =
     (case checked_add acc n of
        None \<Rightarrow> None
      | Some t \<Rightarrow> if t \<le> MAX_ASSERTION_HASH_WORK_BYTES then hash_work_from t ns else None)"

definition checked_hash_work_total :: "nat list \<Rightarrow> nat option" where
  "checked_hash_work_total lengths = hash_work_from 0 lengths"

definition is_supported_bmff_hash_label :: "string \<Rightarrow> bool" where
  "is_supported_bmff_hash_label label \<longleftrightarrow> label = ''c2pa.hash.bmff.v2'' \<or> label = ''c2pa.hash.bmff.v3''"

definition is_supported_whole_asset_hash_label :: "string \<Rightarrow> bool" where
  "is_supported_whole_asset_hash_label label \<longleftrightarrow> label = ''c2pa.hash.data'' \<or> is_supported_bmff_hash_label label"

definition is_supported_hard_binding_label :: "string \<Rightarrow> bool \<Rightarrow> bool" where
  "is_supported_hard_binding_label label compound_ok \<longleftrightarrow>
     is_supported_whole_asset_hash_label label \<or> label = ''c2pa.hash.boxes'' \<or> label = ''c2pa.hash.collection.data''
     \<or> compound_ok \<and> label = ''c2pa.compound.content''"

definition ASSERTION_COLLECTION_HASH_MISMATCH :: string where
  "ASSERTION_COLLECTION_HASH_MISMATCH = ''assertion.collectionHash.mismatch''"

definition required_primary_binding_label :: "asset_format option \<Rightarrow> engine_profile \<Rightarrow> string option" where
  "required_primary_binding_label format profile =
     (if ep_version profile = V2_5 \<and> format = Some Zip then Some ''c2pa.hash.collection.data'' else None)"

definition enforce_primary_binding_label ::
    "string \<Rightarrow> asset_format option \<Rightarrow> engine_profile \<Rightarrow> string \<Rightarrow> validation_results \<Rightarrow> bool \<times> validation_results" where
  "enforce_primary_binding_label binding_label format profile manifest_label results =
     (case required_primary_binding_label format profile of
        None \<Rightarrow> (True, results)
      | Some required \<Rightarrow>
          if base_assertion_label binding_label = required then (True, results)
          else (False, push_failure ASSERTION_COLLECTION_HASH_MISMATCH (assertion_url manifest_label binding_label)
                 (''C2PA 2.5 ZIP assets require '' @ required @ '' as the primary hard binding, not '' @ binding_label) results))"

definition is_multi_asset_binding_label :: "string \<Rightarrow> bool" where
  "is_multi_asset_binding_label label \<longleftrightarrow> label = ''c2pa.hash.multi-asset''"

section \<open>References\<close>

record indexed_assertion =
  ia_jumbf :: "bytes option"
  ia_payload :: "bytes option"
  ia_decoded :: "cbor_value option"
  ia_digests :: "content_hash_algorithm \<Rightarrow> bytes option"

record claim_reference =
  rf_field :: string
  rf_value :: cbor_value
  rf_label :: "string option"
  rf_has_icon :: bool

definition GENERATOR_ICON_REFERENCE_FIELD :: string where
  "GENERATOR_ICON_REFERENCE_FIELD = ''claim_generator_info.icon''"

definition hash_field :: "cbor_value \<Rightarrow> bytes option" where
  "hash_field v = Option.bind (get_field v ''hash'') as_bytes"

definition hashed_uri_binding_key :: "cbor_value \<Rightarrow> string \<Rightarrow> (string \<times> string option \<times> bytes) option" where
  "hashed_uri_binding_key v label = map_option (\<lambda>hash. (label, text_field v ''alg'', hash)) (hash_field v)"

text \<open>The icons \<open>visit_generator_icon_references\<close> visits, in order.\<close>

definition generator_icons :: "cbor_value \<Rightarrow> claim_generation \<Rightarrow> cbor_value list" where
  "generator_icons claim generation =
     (case get_field claim ''claim_generator_info'' of
        None \<Rightarrow> []
      | Some info \<Rightarrow>
          (case generation of
             ClaimV1 \<Rightarrow> (case info of Array entries \<Rightarrow> List.map_filter (\<lambda>e. get_field e ''icon'') entries | _ \<Rightarrow> [])
           | ClaimV2 \<Rightarrow> (case get_field info ''icon'' of Some icon \<Rightarrow> [icon] | None \<Rightarrow> [])))"

definition items_of :: "cbor_value \<Rightarrow> string \<Rightarrow> cbor_value list" where
  "items_of claim field = (case get_field claim field of Some (Array items) \<Rightarrow> items | _ \<Rightarrow> [])"

fun count_items :: "nat \<Rightarrow> nat list \<Rightarrow> nat option" where
  "count_items acc [] = Some acc"
| "count_items acc (n # ns) =
     (case checked_add acc n of
        None \<Rightarrow> None
      | Some next \<Rightarrow> if next > MAX_CLAIM_ASSERTION_REFERENCES then None else count_items next ns)"

definition is_local_icon :: "cbor_value \<Rightarrow> bool" where
  "is_local_icon v = (case text_field v ''url'' of Some url \<Rightarrow> prefix ''self#jumbf='' url | None \<Rightarrow> False)"

record reference_build =
  rb_references :: "claim_reference list"
  rb_declared :: "string list"
  rb_declarations :: "string list"
  rb_keys :: "((string \<times> string option \<times> bytes) \<times> nat) list"
  rb_duplicate :: "string option"
  rb_bindings :: "string list"

definition insert_label :: "string \<Rightarrow> string list \<Rightarrow> string list" where
  "insert_label x xs = (if x \<in> set xs then xs else xs @ [x])"

definition insert_key ::
    "(string \<times> string option \<times> bytes) option \<Rightarrow> nat \<Rightarrow> ((string \<times> string option \<times> bytes) \<times> nat) list
      \<Rightarrow> ((string \<times> string option \<times> bytes) \<times> nat) list" where
  "insert_key key n m = (case key of Some k \<Rightarrow> AList.update k n m | None \<Rightarrow> m)"

text \<open>One element of an assertion list.\<close>

definition add_declaration :: "string \<Rightarrow> string \<Rightarrow> reference_build \<Rightarrow> cbor_value \<Rightarrow> reference_build" where
  "add_declaration manifest field b v =
     (case Option.bind (text_field v ''url'') (\<lambda>url. assertion_label_for_manifest url manifest) of
        None \<Rightarrow>
          b\<lparr>rb_references := rb_references b @ [\<lparr>rf_field = field, rf_value = v, rf_label = None, rf_has_icon = False\<rparr>]\<rparr>
      | Some label \<Rightarrow>
          let b = (if is_supported_hard_binding_label label True \<or> is_multi_asset_binding_label label
                   then b\<lparr>rb_bindings := rb_bindings b @ [label]\<rparr> else b)
          in if label \<in> set (rb_declarations b)
             then b\<lparr>rb_duplicate := (case rb_duplicate b of None \<Rightarrow> Some label | d \<Rightarrow> d)\<rparr>
             else b\<lparr>rb_declarations := rb_declarations b @ [label],
                    rb_declared := insert_label label (rb_declared b),
                    rb_keys := insert_key (hashed_uri_binding_key v label) (length (rb_references b)) (rb_keys b),
                    rb_references := rb_references b
                      @ [\<lparr>rf_field = field, rf_value = v, rf_label = Some label, rf_has_icon = False\<rparr>]\<rparr>)"

text \<open>One generator icon.\<close>

definition add_icon :: "string \<Rightarrow> reference_build \<Rightarrow> cbor_value \<Rightarrow> reference_build" where
  "add_icon manifest b v =
     (let url = text_field v ''url'';
          label = Option.bind url (\<lambda>url. assertion_label_for_manifest url manifest);
          push = (\<lambda>b. b\<lparr>rb_references := rb_references b
            @ [\<lparr>rf_field = GENERATOR_ICON_REFERENCE_FIELD, rf_value = v, rf_label = label, rf_has_icon = True\<rparr>]\<rparr>)
      in case label of
           None \<Rightarrow> if (case url of Some url \<Rightarrow> \<not> prefix ''self#jumbf='' url | None \<Rightarrow> False) then b else push b
         | Some l \<Rightarrow>
             let b = b\<lparr>rb_declared := insert_label l (rb_declared b)\<rparr>
             in case hashed_uri_binding_key v l of
                  None \<Rightarrow> push b
                | Some key \<Rightarrow>
                    (case map_of (rb_keys b) key of
                       Some index \<Rightarrow>
                         b\<lparr>rb_references := (rb_references b)[index := (rb_references b ! index)\<lparr>rf_has_icon := True\<rparr>]\<rparr>
                     | None \<Rightarrow> push (b\<lparr>rb_keys := AList.update key (length (rb_references b)) (rb_keys b)\<rparr>)))"

definition build_start :: reference_build where
  "build_start = \<lparr>rb_references = [], rb_declared = [], rb_declarations = [], rb_keys = [], rb_duplicate = None, rb_bindings = []\<rparr>"

definition build_references :: "string \<Rightarrow> cbor_value \<Rightarrow> claim_generation \<Rightarrow> reference_build" where
  "build_references manifest claim generation =
     foldl (add_icon manifest)
       (foldl (\<lambda>b field. foldl (add_declaration manifest field) b (items_of claim field)) build_start (ref_fields generation))
       (generator_icons claim generation)"

section \<open>The index of the assertions\<close>

definition label_map :: "(bytes \<times> bytes) list \<Rightarrow> string \<Rightarrow> bytes option" where
  "label_map entries = map_of (rev (map (\<lambda>(l, p). (str_of_bytes l, p)) entries))"

record assertion_build =
  ab_assertions :: "(string \<times> indexed_assertion) list"
  ab_remaining :: nat
  ab_exhausted :: bool
  ab_invalid_cbor :: "string list"
  ab_invalid_json :: "string list"

datatype decoded_payload =
    Decoded cbor_value
  | Exhausted
  | BadCbor
  | BadJson

text \<open>Decoding one payload on the shared budget.\<close>

definition decode_payload ::
    "(bytes \<Rightarrow> json option) \<Rightarrow> parsed_manifest \<Rightarrow> string \<Rightarrow> bytes \<Rightarrow> nat \<Rightarrow> decoded_payload \<times> nat" where
  "decode_payload from_slice manifest label payload remaining =
     (if assertion_content_type_of manifest (ascii label) = Some ContentJson
      then case from_slice payload of
             None \<Rightarrow> (BadJson, remaining)
           | Some j \<Rightarrow>
               (case value_from_json j remaining of
                  (Some v, remaining) \<Rightarrow> (Decoded v, remaining)
                | (None, remaining) \<Rightarrow> (Exhausted, remaining))
      else case decode_bounded payload remaining of
             (Inr v, remaining) \<Rightarrow> (Decoded v, remaining)
           | (Inl (NodeLimitExceeded _), remaining) \<Rightarrow> (Exhausted, remaining)
           | (Inl _, remaining) \<Rightarrow> (BadCbor, remaining))"

definition index_assertion ::
    "(bytes \<Rightarrow> json option) \<Rightarrow> parsed_manifest \<Rightarrow> bool \<Rightarrow> assertion_build \<Rightarrow> string \<Rightarrow> assertion_build" where
  "index_assertion from_slice manifest decode_payloads s label =
     (if map_of (ab_assertions s) label \<noteq> None then s
      else let payload = label_map (assertions manifest) label;
               (outcome, remaining) =
                 (if decode_payloads \<and> \<not> ab_exhausted s
                  then case payload of
                         Some bs \<Rightarrow> map_prod Some id (decode_payload from_slice manifest label bs (ab_remaining s))
                       | None \<Rightarrow> (None, ab_remaining s)
                  else (None, ab_remaining s))
           in s\<lparr>ab_assertions := (label,
                   \<lparr>ia_jumbf = label_map (assertion_jumbf manifest) label, ia_payload = payload,
                    ia_decoded = (case outcome of Some (Decoded v) \<Rightarrow> Some v | _ \<Rightarrow> None), ia_digests = (\<lambda>_. None)\<rparr>)
                     # ab_assertions s,
                ab_remaining := remaining,
                ab_exhausted := (ab_exhausted s \<or> outcome = Some Exhausted),
                ab_invalid_cbor := (if outcome = Some BadCbor then ab_invalid_cbor s @ [label] else ab_invalid_cbor s),
                ab_invalid_json := (if outcome = Some BadJson then ab_invalid_json s @ [label] else ab_invalid_json s)\<rparr>)"

record claim_refs =
  cr_redactions :: "redaction_index option"
  cr_complete :: bool
  cr_manifest :: string
  cr_duplicate_label :: "string option"
  cr_references :: "claim_reference list"
  cr_binding_labels :: "string list"
  cr_declared_labels :: "string list"
  cr_declaration_labels :: "string list"
  cr_assertions :: "(string \<times> indexed_assertion) list"
  cr_undeclared_labels :: "string list"
  cr_invalid_cbor_labels :: "string list"
  cr_invalid_json_labels :: "string list"
  cr_hash_work_bytes :: "nat option"
  cr_decode_budget_exhausted :: bool
  cr_decoded_value_nodes :: nat

definition incomplete_refs :: claim_refs where
  "incomplete_refs =
     \<lparr>cr_redactions = None, cr_complete = False, cr_manifest = [], cr_duplicate_label = None, cr_references = [],
      cr_binding_labels = [], cr_declared_labels = [], cr_declaration_labels = [], cr_assertions = [],
      cr_undeclared_labels = [], cr_invalid_cbor_labels = [], cr_invalid_json_labels = [],
      cr_hash_work_bytes = None, cr_decode_budget_exhausted = False, cr_decoded_value_nodes = 0\<rparr>"

definition reference_count :: "cbor_value \<Rightarrow> claim_generation \<Rightarrow> nat option" where
  "reference_count claim generation =
     Option.bind (count_items 0 (map (\<lambda>field. length (items_of claim field)) (ref_fields generation))) (\<lambda>acc.
       count_items acc (map (\<lambda>_. 1) (filter is_local_icon (generator_icons claim generation))))"

definition hash_work_lengths :: "parsed_manifest \<Rightarrow> string list \<Rightarrow> nat list" where
  "hash_work_lengths manifest labels =
     concat (map (\<lambda>label.
       let j = (case label_map (assertion_jumbf manifest) label of Some bs \<Rightarrow> length bs | None \<Rightarrow> 0);
           p = (case label_map (assertions manifest) label of Some bs \<Rightarrow> length bs | None \<Rightarrow> 0)
       in [j, j, p]) labels)"

definition claim_refs_build ::
    "(bytes \<Rightarrow> json option) \<Rightarrow> parsed_manifest \<Rightarrow> cbor_value \<Rightarrow> claim_generation \<Rightarrow> claim_refs" where
  "claim_refs_build from_slice manifest claim generation =
     (if reference_count claim generation = None then incomplete_refs
      else let b = build_references (pm_name manifest) claim generation;
               hash_work = checked_hash_work_total (hash_work_lengths manifest (rb_declared b));
               s = foldl (index_assertion from_slice manifest (hash_work \<noteq> None))
                     \<lparr>ab_assertions = [], ab_remaining = MAX_ASSERTION_DECODED_VALUE_NODES, ab_exhausted = False,
                      ab_invalid_cbor = [], ab_invalid_json = []\<rparr>
                     (List.map_filter rf_label (rb_references b))
           in \<lparr>cr_redactions = None, cr_complete = True, cr_manifest = pm_name manifest,
               cr_duplicate_label = rb_duplicate b, cr_references = rb_references b,
               cr_binding_labels = rb_bindings b, cr_declared_labels = rb_declared b,
               cr_declaration_labels = rb_declarations b, cr_assertions = ab_assertions s,
               cr_undeclared_labels = filter (\<lambda>l. l \<notin> set (rb_declarations b))
                 (map (\<lambda>(l, _). str_of_bytes l) (assertion_jumbf manifest)),
               cr_invalid_cbor_labels = ab_invalid_cbor s, cr_invalid_json_labels = ab_invalid_json s,
               cr_hash_work_bytes = hash_work, cr_decode_budget_exhausted = ab_exhausted s,
               cr_decoded_value_nodes = MAX_ASSERTION_DECODED_VALUE_NODES - ab_remaining s\<rparr>)"

definition is_redacted :: "claim_refs \<Rightarrow> string \<Rightarrow> bool" where
  "is_redacted refs label =
     (case cr_redactions refs of Some index \<Rightarrow> redaction_contains index (cr_manifest refs) label | None \<Rightarrow> False)"

definition indexed_of :: "claim_refs \<Rightarrow> string \<Rightarrow> indexed_assertion option" where
  "indexed_of refs label = (if is_redacted refs label then None else map_of (cr_assertions refs) label)"

definition declares_soft_binding :: "claim_refs \<Rightarrow> bool" where
  "declares_soft_binding refs \<longleftrightarrow>
     list_ex (\<lambda>l. l = ''c2pa.soft-binding'' \<or> prefix ''c2pa.soft-binding__'' l) (cr_declaration_labels refs)"

definition jumbf_digest :: "claim_refs \<Rightarrow> string \<Rightarrow> string \<Rightarrow> bytes option" where
  "jumbf_digest refs label algorithm =
     Option.bind (content_hash_algorithm_of algorithm) (\<lambda>a.
     Option.bind (indexed_of refs label) (\<lambda>i. ia_digests i a))"

record binding_plan =
  bp_primary_candidate :: "claim_reference option"
  bp_primary_count :: nat
  bp_multi_asset_candidate :: "claim_reference option"
  bp_multi_asset_count :: nat

definition bp_primary :: "binding_plan \<Rightarrow> claim_reference option" where
  "bp_primary p = (if bp_primary_count p = 1 then bp_primary_candidate p else None)"

definition bp_multi_asset :: "binding_plan \<Rightarrow> claim_reference option" where
  "bp_multi_asset p = (if bp_multi_asset_count p = 1 then bp_multi_asset_candidate p else None)"

definition label_sat :: "(string \<Rightarrow> bool) \<Rightarrow> claim_reference \<Rightarrow> bool" where
  "label_sat P r = (case rf_label r of Some l \<Rightarrow> P l | None \<Rightarrow> False)"

definition binding_plan_of :: "claim_refs \<Rightarrow> bool \<Rightarrow> binding_plan" where
  "binding_plan_of refs compound_ok =
     \<lparr>bp_primary_candidate = find (label_sat (\<lambda>l. is_supported_hard_binding_label l compound_ok)) (cr_references refs),
      bp_primary_count = length (filter (\<lambda>l. is_supported_hard_binding_label l compound_ok) (cr_binding_labels refs)),
      bp_multi_asset_candidate = find (label_sat is_multi_asset_binding_label) (cr_references refs),
      bp_multi_asset_count = length (filter is_multi_asset_binding_label (cr_binding_labels refs))\<rparr>"

end
