(* ===== verification/Assertion_Bindings.thy ===== *)
theory Assertion_Bindings
  imports Claim_Refs
begin

text \<open>
  The claim-to-assertion bindings, \<open>verify_assertion_bindings\<close> of \<^verbatim>\<open>c2pa-validate/lib.rs\<close>, and what they prove: when no failure
  is recorded, every assertion the claim declares is either redacted or carries the digest the claim states.
\<close>

section \<open>Definitions\<close>

definition ASSERTION_HASHED_URI_MATCH :: string where "ASSERTION_HASHED_URI_MATCH = ''assertion.hashedURI.match''"
definition HASHED_URI_MISSING :: string where "HASHED_URI_MISSING = ''hashedURI.missing''"
definition HASHED_URI_MISMATCH :: string where "HASHED_URI_MISMATCH = ''hashedURI.mismatch''"
definition ASSERTION_OUTSIDE_MANIFEST :: string where "ASSERTION_OUTSIDE_MANIFEST = ''assertion.outsideManifest''"
definition ASSERTION_MISSING :: string where "ASSERTION_MISSING = ''assertion.missing''"

text \<open>The digest slot of an assertion, filled on first use.\<close>

definition fill_digest :: "digest \<Rightarrow> string \<Rightarrow> content_hash_algorithm \<Rightarrow> indexed_assertion \<Rightarrow> indexed_assertion" where
  "fill_digest digest algorithm a i =
     (if ia_digests i a = None
      then i\<lparr>ia_digests := (ia_digests i)(a := Option.bind (ia_jumbf i) (hash_bytes digest algorithm))\<rparr> else i)"

text \<open>Comparing one reference that is not redacted: the slots with their digest slots, and the results.\<close>

definition compare_reference ::
    "digest \<Rightarrow> cbor_value \<Rightarrow> claim_generation \<Rightarrow> string \<Rightarrow> string \<Rightarrow> (string \<times> indexed_assertion) list \<Rightarrow> cbor_value
      \<Rightarrow> validation_results \<Rightarrow> (string \<times> indexed_assertion) list \<times> validation_results" where
  "compare_reference digest claim generation url alabel slots reference results =
     (case resolved_hash_algorithm [reference, claim] of
        None \<Rightarrow> (slots, push_failure ALGORITHM_UNSUPPORTED url ''hashed-URI reference has no hash algorithm'' results)
      | Some algorithm \<Rightarrow>
          if \<not> is_allowed_hash_algorithm algorithm
          then (slots, push_failure ALGORITHM_UNSUPPORTED url
                  (''hashed-URI reference uses unsupported hash algorithm '' @ quoted algorithm) results)
          else
            let expected = hash_field reference;
                (content_matches, slots) =
                  (case (content_hash_algorithm_of algorithm, map_of slots alabel, expected) of
                     (Some a, Some i, Some h) \<Rightarrow>
                       let i = fill_digest digest algorithm a i
                       in (ia_digests i a = Some h, AList.update alabel i slots)
                   | _ \<Rightarrow> (False, slots));
                content = Option.bind (map_of slots alabel) ia_jumbf;
                legacy_payload = Option.bind (map_of slots alabel) ia_payload;
                legacy_payload_matches =
                  (\<not> content_matches \<and> generation = ClaimV1
                   \<and> expected \<noteq> None \<and> Option.bind legacy_payload (hash_bytes digest algorithm) = expected)
            in (slots,
                if content_matches \<or> legacy_payload_matches
                then push_success ASSERTION_HASHED_URI_MATCH url
                       (''hashed uri matched: self#jumbf=c2pa.assertions/'' @ alabel) results
                else if content = None
                then push_failure ASSERTION_MISSING url
                       (''referenced assertion '' @ quoted alabel @ '' not found in manifest'') results
                else push_failure ASSERTION_HASHED_URI_MISMATCH url
                       (''hashed uri mismatch: self#jumbf=c2pa.assertions/'' @ alabel) results))"

text \<open>One turn of the loop over the references.\<close>

definition bind_reference ::
    "digest \<Rightarrow> cbor_value \<Rightarrow> claim_generation \<Rightarrow> string \<Rightarrow> redaction_index option
      \<Rightarrow> (string \<times> indexed_assertion) list \<times> validation_results \<Rightarrow> claim_reference
      \<Rightarrow> (string \<times> indexed_assertion) list \<times> validation_results" where
  "bind_reference digest claim generation label redactions = (\<lambda>(slots, results) r.
     case text_field (rf_value r) ''url'' of
       None \<Rightarrow> (slots, push_failure CLAIM_MALFORMED (''self#jumbf=/c2pa/'' @ label @ ''/c2pa.claim'')
                  ''claim assertion reference has no textual url'' results)
     | Some url \<Rightarrow>
         (case rf_label r of
            None \<Rightarrow> (slots, push_failure ASSERTION_OUTSIDE_MANIFEST url
                       ''assertion reference names a location outside the current manifest'' results)
          | Some alabel \<Rightarrow>
              if (case redactions of Some index \<Rightarrow> redaction_contains index label alabel | None \<Rightarrow> False)
              then (slots,
                    if rf_has_icon r \<or> rf_field r \<notin> {''assertions'', ''created_assertions'', ''gathered_assertions''}
                    then push_failure HASHED_URI_MISSING (assertion_url label alabel)
                           ''reference names a redacted assertion'' results
                    else results)
              else compare_reference digest claim generation (assertion_url label alabel) alabel slots (rf_value r) results))"

definition verify_assertion_bindings ::
    "digest \<Rightarrow> cbor_value \<Rightarrow> claim_refs \<Rightarrow> claim_generation \<Rightarrow> string \<Rightarrow> validation_results
      \<Rightarrow> claim_refs \<times> validation_results" where
  "verify_assertion_bindings digest claim refs generation label results =
     (let results = (case cr_redactions refs of
                       Some index \<Rightarrow> verify_manifest_redactions index label results | None \<Rightarrow> results);
          (slots, results) =
            foldl (bind_reference digest claim generation label (cr_redactions refs)) (cr_assertions refs, results) (cr_references refs)
      in (refs\<lparr>cr_assertions := slots\<rparr>, results))"

section \<open>Failures only accumulate\<close>

named_theorems failure_simps \<open>failures after pushing a status\<close>

lemma failure_push [simp, failure_simps]:
  "failure (push_failure c u e r) = failure r @ [status c u e None]"
  "failure (push_success c u e r) = failure r"
  "failure (push_informational c u e r) = failure r"
  by (simp_all add: push_failure_def push_success_def push_informational_def)

lemma prefix_snoc_ne: "prefix (xs @ [x]) ys \<Longrightarrow> ys \<noteq> xs"
  by (auto simp: prefix_def)

lemma foldl_prefix:
  assumes "\<And>s x. prefix (f s) (f (g s x))"
  shows "prefix (f s) (f (foldl g s xs))"
  by (induction xs arbitrary: s) (auto intro: assms prefix_order.trans)

text \<open>When a fold ends without a new failure, none of its turns recorded one.\<close>

lemma foldl_no_failure:
  assumes pre: "\<And>s x. prefix (f s) (f (g s x))" and same: "f (foldl g s (ys @ y # zs)) = f s"
  shows "f (g (foldl g s ys) y) = f (foldl g s ys)" and "f (foldl g s ys) = f s"
proof -
  let ?a = "foldl g s ys"
  have 1: "prefix (f s) (f ?a)" using foldl_prefix [where f=f and g=g] pre by blast
  have 2: "prefix (f ?a) (f (g ?a y))" by (rule pre)
  have 3: "prefix (f (g ?a y)) (f s)" using foldl_prefix [where f=f and g=g and s="g ?a y" and xs=zs] pre same by simp
  show "f ?a = f s" using 1 2 3 by (meson prefix_order.antisym prefix_order.trans)
  then show "f (g ?a y) = f ?a" using 2 3 by (metis prefix_order.antisym)
qed

lemma compare_reference_prefix:
  "prefix (failure results) (failure (snd (compare_reference digest claim generation url l slots v results)))"
  by (simp add: compare_reference_def Let_def split: option.split prod.split)

lemma bind_reference_prefix:
  "prefix (failure (snd s)) (failure (snd (bind_reference digest claim generation label redactions s r)))"
  using compare_reference_prefix
  by (cases s; cases redactions; cases "rf_label r"; cases "text_field (rf_value r) ''url''") (simp_all add: bind_reference_def)

section \<open>Digest slots\<close>

definition slots_ok :: "digest \<Rightarrow> (string \<times> indexed_assertion) list \<Rightarrow> bool" where
  "slots_ok digest slots \<longleftrightarrow>
     (\<forall>l i a h. map_of slots l = Some i \<and> ia_digests i a = Some h \<longrightarrow>
        (\<exists>bs. ia_jumbf i = Some bs \<and> h = digest a bs))"

text \<open>The bytes and payloads of the index, which verification never changes.\<close>

definition content_of :: "(string \<times> indexed_assertion) list \<Rightarrow> string \<Rightarrow> (bytes option \<times> bytes option) option" where
  "content_of slots l = map_option (\<lambda>i. (ia_jumbf i, ia_payload i)) (map_of slots l)"

lemma slots_nil [simp]: "slots_ok digest []" "content_of [] l = None"
  by (simp_all add: slots_ok_def content_of_def)

lemma fill_digest_content [simp]:
  "ia_jumbf (fill_digest digest alg a i) = ia_jumbf i" "ia_payload (fill_digest digest alg a i) = ia_payload i"
  by (simp_all add: fill_digest_def)

lemma hash_bytes_digest: "content_hash_algorithm_of alg = Some a \<Longrightarrow> hash_bytes digest alg bs = Some (digest a bs)"
  by (simp add: hash_bytes_def hasher_new_def hasher_finalize_def)

lemma fill_digest_slots:
  assumes "content_hash_algorithm_of alg = Some a"
    and "\<And>b h. ia_digests i b = Some h \<Longrightarrow> \<exists>bs. ia_jumbf i = Some bs \<and> h = digest b bs"
  shows "ia_digests (fill_digest digest alg a i) b = Some h \<Longrightarrow> \<exists>bs. ia_jumbf i = Some bs \<and> h = digest b bs"
  using assms by (auto simp: fill_digest_def hash_bytes_digest bind_eq_Some_conv split: if_splits)

lemma slots_ok_update:
  assumes "slots_ok digest slots" and "map_of slots l = Some i" and "content_hash_algorithm_of alg = Some a"
  shows "slots_ok digest (AList.update l (fill_digest digest alg a i) slots)"
    and "content_of (AList.update l (fill_digest digest alg a i) slots) = content_of slots"
  using fill_digest_slots [OF assms(3), of i digest] assms(1,2)
  by (auto simp: slots_ok_def update_conv content_of_def fun_eq_iff split: if_splits)

lemma compare_reference_slots:
  assumes "slots_ok digest slots"
  shows "slots_ok digest (fst (compare_reference digest claim generation url l slots v r))"
    and "content_of (fst (compare_reference digest claim generation url l slots v r)) = content_of slots"
  using assms slots_ok_update [OF assms]
  by (simp_all add: compare_reference_def Let_def split: option.split)

lemma bind_reference_slots:
  assumes "slots_ok digest (fst s)"
  shows "slots_ok digest (fst (bind_reference digest claim generation label redactions s r))"
    and "content_of (fst (bind_reference digest claim generation label redactions s r)) = content_of (fst s)"
  using assms compare_reference_slots [OF assms]
  by (cases s; simp add: bind_reference_def split: option.split)+

lemma bind_references_slots:
  "slots_ok digest (fst s) \<Longrightarrow>
     slots_ok digest (fst (foldl (bind_reference digest claim generation label redactions) s rs)) \<and>
     content_of (fst (foldl (bind_reference digest claim generation label redactions) s rs)) = content_of (fst s)"
proof (induction rs arbitrary: s)
  case (Cons r rs)
  then show ?case using bind_reference_slots [OF Cons.prems] by simp
qed simp

section \<open>One bound reference\<close>

text \<open>The content one reference names is what its digest says.\<close>

definition digest_agrees ::
    "digest \<Rightarrow> cbor_value \<Rightarrow> claim_generation \<Rightarrow> (bytes option \<times> bytes option) option \<Rightarrow> cbor_value \<Rightarrow> bool" where
  "digest_agrees digest claim generation content v \<longleftrightarrow>
     (\<exists>alg a h. resolved_hash_algorithm [v, claim] = Some alg \<and> content_hash_algorithm_of alg = Some a \<and> hash_field v = Some h
        \<and> ((\<exists>bs. Option.bind content fst = Some bs \<and> digest a bs = h)
           \<or> generation = ClaimV1 \<and> (\<exists>bs. Option.bind content snd = Some bs \<and> digest a bs = h)))"

lemma hash_bytes_Some: "hash_bytes digest alg bs = Some h \<longleftrightarrow> (\<exists>a. content_hash_algorithm_of alg = Some a \<and> h = digest a bs)"
  by (auto simp: hash_bytes_def hasher_new_def hasher_finalize_def bind_eq_Some_conv map_option_case split: option.splits)

lemma content_of_bind:
  "Option.bind (content_of slots l) fst = Option.bind (map_of slots l) ia_jumbf"
  "Option.bind (content_of slots l) snd = Option.bind (map_of slots l) ia_payload"
  by (simp_all add: content_of_def bind_map_option comp_def)

lemma compare_reference_binds:
  assumes ok: "slots_ok digest slots"
    and none: "failure (snd (compare_reference digest claim generation url l slots v r)) = failure r"
  shows "digest_agrees digest claim generation (content_of slots l) v"
proof -
  obtain alg where alg: "resolved_hash_algorithm [v, claim] = Some alg" and allowed: "is_allowed_hash_algorithm alg"
    using none by (auto simp: compare_reference_def split: option.splits if_splits)
  show ?thesis
  proof (cases "\<exists>a i h. content_hash_algorithm_of alg = Some a \<and> map_of slots l = Some i \<and> hash_field v = Some h
                  \<and> ia_digests (fill_digest digest alg a i) a = Some h")
    case True
    then obtain a i h where h: "content_hash_algorithm_of alg = Some a" "map_of slots l = Some i" "hash_field v = Some h"
      "ia_digests (fill_digest digest alg a i) a = Some h" by blast
    have "\<exists>bs. ia_jumbf i = Some bs \<and> h = digest a bs"
      using fill_digest_slots [OF h(1) _ h(4)] ok h(2) by (auto simp: slots_ok_def)
    then show ?thesis using alg h by (auto simp: digest_agrees_def content_of_bind)
  next
    case False
    then show ?thesis using none alg allowed
      by (auto simp: compare_reference_def Let_def digest_agrees_def content_of_bind hash_bytes_Some bind_eq_Some_conv update_conv
            split: option.splits if_splits)
  qed
qed

section \<open>The references of a claim are all indexed\<close>

text \<open>What a build has recorded: each reference with its resolved label, whatever its icon flag.\<close>

definition named_refs :: "claim_reference list \<Rightarrow> (cbor_value \<times> string option) list" where
  "named_refs rs = map (\<lambda>r. (rf_value r, rf_label r)) rs"

lemma named_refs_append [simp]: "named_refs (rs @ qs) = named_refs rs @ named_refs qs"
  by (simp add: named_refs_def)

lemma named_refs_icon [simp]: "named_refs (rs[i := (rs ! i)\<lparr>rf_has_icon := b\<rparr>]) = named_refs rs"
proof (cases "i < length rs")
  case True
  then show ?thesis by (intro nth_equalityI) (auto simp: named_refs_def nth_list_update split: if_split)
next
  case False
  then show ?thesis by (simp add: list_update_beyond)
qed

lemma add_icon_keeps: "prefix (named_refs (rb_references b)) (named_refs (rb_references (add_icon manifest b v)))"
  "rb_duplicate (add_icon manifest b v) = rb_duplicate b"
  by (auto simp: add_icon_def Let_def split: option.split)

lemma add_declaration_adds:
  "prefix (named_refs (rb_references b)) (named_refs (rb_references (add_declaration manifest field b v)))"
  "rb_duplicate (add_declaration manifest field b v) = None \<Longrightarrow>
     rb_duplicate b = None \<and>
     (v, Option.bind (text_field v ''url'') (\<lambda>url. assertion_label_for_manifest url manifest))
       \<in> set (named_refs (rb_references (add_declaration manifest field b v)))"
  by (auto simp: add_declaration_def Let_def named_refs_def split: option.splits if_splits)

definition label_in :: "string \<Rightarrow> cbor_value \<Rightarrow> string option" where
  "label_in manifest v = Option.bind (text_field v ''url'') (\<lambda>url. assertion_label_for_manifest url manifest)"

lemma add_declarations_adds:
  assumes "rb_duplicate (foldl (\<lambda>b (field, v). add_declaration manifest field b v) b vs) = None" and "(field, v) \<in> set vs"
  shows "(v, label_in manifest v)
     \<in> set (named_refs (rb_references (foldl (\<lambda>b (field, v). add_declaration manifest field b v) b vs)))"
  using assms
proof (induction vs rule: rev_induct)
  case (snoc x vs)
  let ?b = "foldl (\<lambda>b (field, v). add_declaration manifest field b v) b vs"
  have dup: "rb_duplicate (add_declaration manifest (fst x) ?b (snd x)) = None"
    using snoc.prems(1) by (cases x) simp
  note adds = add_declaration_adds(2) [OF dup]
    and keeps = set_mono_prefix [OF add_declaration_adds(1) [of ?b manifest "fst x" "snd x"]]
  show ?case
  proof (cases "(field, v) = x")
    case True
    then show ?thesis using adds by (auto simp: label_in_def)
  next
    case False
    then show ?thesis using snoc adds keeps by (cases x) auto
  qed
qed simp

lemma add_icons_keep: "set (named_refs (rb_references b)) \<subseteq> set (named_refs (rb_references (foldl (add_icon manifest) b vs)))"
proof (induction vs arbitrary: b)
  case (Cons v vs)
  show ?case
    using Cons.IH [of "add_icon manifest b v"] set_mono_prefix [OF add_icon_keeps(1) [of b manifest v]] by auto
qed simp

lemma add_icons_duplicate: "rb_duplicate (foldl (add_icon manifest) b vs) = rb_duplicate b"
  by (induction vs arbitrary: b) (simp_all add: add_icon_keeps(2))

lemma foldl_pairs:
  "foldl (\<lambda>b k. foldl (f k) b (g k)) b fs
   = foldl (\<lambda>b (k, v). f k b v) b (concat (map (\<lambda>k. map (Pair k) (g k)) fs))"
proof (induction fs arbitrary: b)
  case (Cons k fs)
  have "foldl (f k) b vs = foldl (\<lambda>b (k, v). f k b v) b (map (Pair k) vs)" for b vs
    by (induction vs arbitrary: b) auto
  then show ?case using Cons by simp
qed simp

lemma build_references_complete:
  assumes "rb_duplicate (build_references manifest claim generation) = None"
    and "field \<in> set (ref_fields generation)" and "v \<in> set (items_of claim field)"
  obtains r where "r \<in> set (rb_references (build_references manifest claim generation))"
    and "rf_value r = v" and "rf_label r = label_in manifest v"
proof -
  have "(v, label_in manifest v) \<in> set (named_refs (rb_references (build_references manifest claim generation)))"
    using assms
    by (auto simp: build_references_def foldl_pairs add_icons_duplicate image_iff
          intro!: subsetD [OF add_icons_keep] add_declarations_adds [where field = field])
  then show thesis using that by (auto simp: named_refs_def)
qed

section \<open>The index holds the manifest's own bytes\<close>

lemma index_assertion_content:
  "content_of (ab_assertions (index_assertion from_slice manifest d s l)) =
     (if content_of (ab_assertions s) l = None
      then (content_of (ab_assertions s))(l \<mapsto> (label_map (assertion_jumbf manifest) l, label_map (assertions manifest) l))
      else content_of (ab_assertions s))"
  by (auto simp: index_assertion_def content_of_def fun_eq_iff Let_def split: prod.split)

lemma index_assertions_content:
  "content_of (ab_assertions (foldl (index_assertion from_slice manifest d) s ls)) l =
     (if content_of (ab_assertions s) l = None \<and> l \<in> set ls
      then Some (label_map (assertion_jumbf manifest) l, label_map (assertions manifest) l)
      else content_of (ab_assertions s) l)"
  by (induction ls arbitrary: s) (auto simp: index_assertion_content)

lemma index_assertion_slots:
  "slots_ok digest (ab_assertions s) \<Longrightarrow> slots_ok digest (ab_assertions (index_assertion from_slice manifest d s l))"
  by (auto simp: index_assertion_def slots_ok_def Let_def split: prod.split)

lemma index_assertions_slots:
  "slots_ok digest (ab_assertions s) \<Longrightarrow> slots_ok digest (ab_assertions (foldl (index_assertion from_slice manifest d) s ls))"
  by (induction ls arbitrary: s) (auto simp: index_assertion_slots)

lemma claim_refs_build_slots: "slots_ok digest (cr_assertions (claim_refs_build from_slice manifest claim generation))"
  by (simp add: claim_refs_build_def Let_def incomplete_refs_def index_assertions_slots)

lemma claim_refs_build_content:
  assumes "r \<in> set (cr_references (claim_refs_build from_slice manifest claim generation))" and "rf_label r = Some l"
  shows "content_of (cr_assertions (claim_refs_build from_slice manifest claim generation)) l
         = Some (label_map (assertion_jumbf manifest) l, label_map (assertions manifest) l)"
proof -
  have "l \<in> set (List.map_filter rf_label rs)" if "r \<in> set rs" for rs
    using that assms(2) by (force simp: List.map_filter_def)
  then show ?thesis using assms(1)
    by (auto simp: claim_refs_build_def Let_def incomplete_refs_def index_assertions_content split: if_splits)
qed

section \<open>Redactions only add failures\<close>

lemma verify_target_prefix: "prefix (failure r) (failure (verify_target index manifest l url r))"
  by (simp add: verify_target_def Let_def split: option.split)

lemma verify_manifest_redactions_prefix: "prefix (failure r) (failure (verify_manifest_redactions index manifest r))"
  by (auto simp: verify_manifest_redactions_def verify_target_prefix split: option.split
        intro!: foldl_prefix [where f = failure])

section \<open>The property\<close>

lemma bind_reference_binds:
  assumes ok: "slots_ok digest (fst s)"
    and none: "failure (snd (bind_reference digest claim generation label redactions s r)) = failure (snd s)"
  shows "\<exists>l. rf_label r = Some l \<and>
     ((\<exists>index. redactions = Some index \<and> redaction_contains index label l)
      \<or> digest_agrees digest claim generation (content_of (fst s) l) (rf_value r))"
  using none compare_reference_binds [OF ok]
  by (cases s; cases redactions; cases "rf_label r"; cases "text_field (rf_value r) ''url''")
     (auto simp: bind_reference_def split: if_splits)

lemma verify_assertion_bindings_refs:
  assumes ok: "slots_ok digest (cr_assertions refs)" and r: "r \<in> set (cr_references refs)"
    and none: "failure (snd (verify_assertion_bindings digest claim refs generation label results)) = failure results"
  shows "\<exists>l. rf_label r = Some l \<and>
     ((\<exists>index. cr_redactions refs = Some index \<and> redaction_contains index label l)
      \<or> digest_agrees digest claim generation (content_of (cr_assertions refs) l) (rf_value r))"
proof -
  let ?bind = "bind_reference digest claim generation label (cr_redactions refs)"
  obtain results' where results': "results' = (case cr_redactions refs of
      Some index \<Rightarrow> verify_manifest_redactions index label results | None \<Rightarrow> results)" by blast
  let ?s = "(cr_assertions refs, results')"
  obtain ys zs where refs: "cr_references refs = ys @ r # zs" using r by (meson split_list)
  have "prefix (failure results) (failure results')"
    by (simp add: results' verify_manifest_redactions_prefix split: option.split)
  moreover have "prefix (failure results') (failure (snd (foldl ?bind ?s (cr_references refs))))"
    using foldl_prefix [where f = "\<lambda>s. failure (snd s)" and g = ?bind and s = ?s] bind_reference_prefix by fastforce
  moreover have "failure (snd (foldl ?bind ?s (cr_references refs))) = failure results"
    using none by (simp add: verify_assertion_bindings_def results' Let_def split: prod.splits)
  ultimately have "failure (snd (foldl ?bind ?s (ys @ r # zs))) = failure (snd ?s)"
    by (simp add: refs prefix_order.antisym)
  then have "failure (snd (?bind (foldl ?bind ?s ys) r)) = failure (snd (foldl ?bind ?s ys))"
    using foldl_no_failure(1) [where f = "\<lambda>s. failure (snd s)" and g = ?bind and s = ?s, OF bind_reference_prefix] by blast
  from bind_reference_binds [OF _ this] bind_references_slots [of digest ?s claim generation label "cr_redactions refs" ys] ok
  show ?thesis by simp
qed

text \<open>
  C1: When the claim's references were indexed completely, no label is declared twice and verifying the bindings adds no failure,
  then every element of the claim's assertion lists names an assertion of this manifest, and that assertion is either redacted by
  another claim or its bytes in the manifest (for a version 1 claim: or its payload) hash, under an algorithm the element or the
  claim states, to the digest the element carries.
\<close>

theorem bound_assertions_are_claimed:
  assumes "cr_complete (claim_refs_build from_slice manifest claim generation)"
    and "cr_duplicate_label (claim_refs_build from_slice manifest claim generation) = None"
    and "failure (snd (verify_assertion_bindings digest claim
           ((claim_refs_build from_slice manifest claim generation)\<lparr>cr_redactions := redactions\<rparr>)
           generation (pm_name manifest) results)) = failure results"
    and "field \<in> set (ref_fields generation)" and "v \<in> set (items_of claim field)"
  shows "\<exists>url l. text_field v ''url'' = Some url \<and> assertion_label_for_manifest url (pm_name manifest) = Some l \<and>
     ((\<exists>index. redactions = Some index \<and> redaction_contains index (pm_name manifest) l)
      \<or> digest_agrees digest claim generation
           (Some (label_map (assertion_jumbf manifest) l, label_map (assertions manifest) l)) v)"
proof -
  let ?refs = "claim_refs_build from_slice manifest claim generation"
  have "rb_duplicate (build_references (pm_name manifest) claim generation) = None"
    and refs: "cr_references ?refs = rb_references (build_references (pm_name manifest) claim generation)"
    using assms(1,2) by (auto simp: claim_refs_build_def Let_def incomplete_refs_def split: if_splits)
  then obtain r where r: "r \<in> set (cr_references ?refs)" "rf_value r = v" "rf_label r = label_in (pm_name manifest) v"
    using build_references_complete [OF _ assms(4,5)] by metis
  from verify_assertion_bindings_refs [OF _ _ assms(3), of r] r(1)
  obtain l where "rf_label r = Some l"
    and "(\<exists>index. redactions = Some index \<and> redaction_contains index (pm_name manifest) l)
         \<or> digest_agrees digest claim generation (content_of (cr_assertions ?refs) l) v"
    by (auto simp: claim_refs_build_slots r(2))
  then show ?thesis using claim_refs_build_content [OF r(1)] r(3)
    by (auto simp: label_in_def bind_eq_Some_conv)
qed

text \<open>A manifest of one assertion, and a claim that lists it with the digest of its bytes.\<close>

definition bound_manifest :: parsed_manifest where
  "bound_manifest =
     \<lparr>pm_label = ascii ''m'', manifest_jumbf = [], assertions = [], assertion_jumbf = [(ascii ''a'', [7, 8])],
      claim_cbor = None, signature_cose = None, claim_count = 1, claim_box_label = None\<rparr>"

definition bound_reference :: cbor_value where
  "bound_reference =
     Map [(Text (ascii ''url''), Text (ascii ''self#jumbf=c2pa.assertions/a'')),
          (Text (ascii ''alg''), Text (ascii ''sha256'')), (Text (ascii ''hash''), Bytes [7, 8])]"

definition bound_claim :: cbor_value where
  "bound_claim = Map [(Text (ascii ''created_assertions''), Array [bound_reference])]"

lemma bound_values:
  "get_field bound_claim ''created_assertions'' = Some (Array [bound_reference])"
  "get_field bound_claim ''gathered_assertions'' = None" "get_field bound_claim ''claim_generator_info'' = None"
  "text_field bound_reference ''url'' = Some ''self#jumbf=c2pa.assertions/a''"
  "assertion_label_for_manifest ''self#jumbf=c2pa.assertions/a'' (pm_name bound_manifest) = Some ''a''"
  "hashed_uri_binding_key bound_reference ''a'' = Some (''a'', Some ''sha256'', [7, 8])"
  "is_supported_hard_binding_label ''a'' True = False" "is_multi_asset_binding_label ''a'' = False"
  "resolved_hash_algorithm [bound_reference, bound_claim] = Some ''sha256''" "is_allowed_hash_algorithm ''sha256''"
  "content_hash_algorithm_of ''sha256'' = Some Sha256" "hash_field bound_reference = Some [7, 8]"
  "label_map (assertion_jumbf bound_manifest) ''a'' = Some [7, 8]" "label_map (assertions bound_manifest) ''a'' = None"
  by code_simp+

lemma bound_build:
  "reference_count bound_claim ClaimV2 = Some 1"
  "build_references (pm_name bound_manifest) bound_claim ClaimV2 =
     \<lparr>rb_references = [\<lparr>rf_field = ''created_assertions'', rf_value = bound_reference, rf_label = Some ''a'', rf_has_icon = False\<rparr>],
      rb_declared = [''a''], rb_declarations = [''a''], rb_keys = [((''a'', Some ''sha256'', [7, 8]), 0)],
      rb_duplicate = None, rb_bindings = []\<rparr>"
  by (simp_all add: reference_count_def build_references_def items_of_def generator_icons_def bound_values
        checked_add_def usize_max_def MAX_CLAIM_ASSERTION_REFERENCES_def add_declaration_def build_start_def insert_label_def
        insert_key_def)

lemma bound_refs:
  "cr_complete (claim_refs_build f bound_manifest bound_claim ClaimV2)"
  "cr_duplicate_label (claim_refs_build f bound_manifest bound_claim ClaimV2) = None"
  "cr_references (claim_refs_build f bound_manifest bound_claim ClaimV2) =
     [\<lparr>rf_field = ''created_assertions'', rf_value = bound_reference, rf_label = Some ''a'', rf_has_icon = False\<rparr>]"
  "cr_assertions (claim_refs_build f bound_manifest bound_claim ClaimV2) =
     [(''a'', \<lparr>ia_jumbf = Some [7, 8], ia_payload = None, ia_decoded = None, ia_digests = (\<lambda>_. None)\<rparr>)]"
  by (simp_all add: claim_refs_build_def bound_build Let_def index_assertion_def bound_values List.map_filter_simps)

theorem bound_assertions_are_claimed_witness:
  "digest_agrees (\<lambda>_ bs. bs) bound_claim ClaimV2 (Some (Some [7, 8], None)) bound_reference"
  using bound_assertions_are_claimed [of "\<lambda>_. None" bound_manifest bound_claim ClaimV2 "\<lambda>_ bs. bs" None results_default
      "''created_assertions''" bound_reference]
  by (simp add: bound_refs verify_assertion_bindings_def bind_reference_def compare_reference_def bound_values fill_digest_def
        hash_bytes_digest items_of_def Let_def)

end
