(* ===== verification/Reference_Walk.thy ===== *)
theory Reference_Walk
  imports Assertion_Bindings Resource_Cache Graph_Budget
begin

text \<open>
  The hashed references inside assertions, \<^verbatim>\<open>c2pa-validate/refs.rs\<close>: where the schemas of the standard assertions carry
  references (\<open>Step\<close>, \<open>Kind\<close>, \<open>RefField\<close>), how they are located under a cap, and how each is validated against the
  store or against external data. The targets of redacted references come from \<^verbatim>\<open>spec25.rs\<close>.
\<close>

section \<open>Schemas\<close>

datatype ref_step = Field string | Each | EachRelated

datatype ref_kind = Internal | Ingredient | Related | Either

type_synonym ref_field = "ref_step list \<times> ref_kind"

definition INGREDIENT_V1 :: "ref_field list" where
  "INGREDIENT_V1 = [([Field ''thumbnail''], Internal)]"

definition INGREDIENT_V2 :: "ref_field list" where
  "INGREDIENT_V2 = [([Field ''thumbnail''], Internal), ([Field ''data''], Either)]"

definition INGREDIENT_V3 :: "ref_field list" where
  "INGREDIENT_V3 =
     [([Field ''thumbnail''], Internal), ([Field ''data''], Either), ([Field ''relatedAssertions'', Each], Related)]"

definition ACTIONS :: "ref_field list" where
  "ACTIONS =
     [([Field ''actions'', Each, EachRelated, Field ''parameters'', Field ''ingredient''], Ingredient),
      ([Field ''actions'', Each, EachRelated, Field ''parameters'', Field ''ingredients'', Each], Ingredient),
      ([Field ''actions'', Each, EachRelated, Field ''parameters'', Field ''relatedAssertions'', Each], Related),
      ([Field ''actions'', Each, EachRelated, Field ''softwareAgent'', Field ''icon''], Either),
      ([Field ''softwareAgents'', Each, Field ''icon''], Either),
      ([Field ''templates'', Each, Field ''icon''], Internal)]"

definition assertion_ref_fields :: "string \<Rightarrow> ref_field list" where
  "assertion_ref_fields label =
     (let base = base_label label
      in if base = ''c2pa.ingredient'' then INGREDIENT_V1
         else if base = ''c2pa.ingredient.v2'' then INGREDIENT_V2
         else if base = ''c2pa.ingredient.v3'' then INGREDIENT_V3
         else if base = ''c2pa.actions'' \<or> base = ''c2pa.actions.v2'' then ACTIONS
         else [])"

section \<open>Locating references\<close>

definition MAX_RELATED_DEPTH :: nat where "MAX_RELATED_DEPTH = 8"

record located_ref =
  lr_kind :: ref_kind
  lr_value :: cbor_value
  lr_path :: string
  lr_action_kind :: "string option"

text \<open>The action kind of every reference found since a mark.\<close>

definition mark_action :: "nat \<Rightarrow> string option \<Rightarrow> located_ref list \<Rightarrow> located_ref list" where
  "mark_action start action out =
     take start out @ map (\<lambda>l. l\<lparr>lr_action_kind := action\<rparr>) (drop start out)"

text \<open>
  The walk collects references until the cap is hit. The loop over the elements of an array is \<open>locate_items\<close>; nested
  \<open>related\<close> arrays are followed to the depth limit.
\<close>

function (sequential)
  locate :: "ref_kind \<Rightarrow> nat \<Rightarrow> ref_step list \<Rightarrow> nat \<Rightarrow> string \<Rightarrow> cbor_value \<Rightarrow> located_ref list \<Rightarrow> bool \<times> located_ref list"
and locate_items ::
    "ref_kind \<Rightarrow> nat \<Rightarrow> ref_step list \<Rightarrow> nat \<Rightarrow> string \<Rightarrow> nat \<Rightarrow> cbor_value list \<Rightarrow> located_ref list \<Rightarrow> bool \<times> located_ref list"
where
  "locate kind limit [] depth path v out =
     (if length out \<ge> limit then (True, out)
      else (False, out @ [\<lparr>lr_kind = kind, lr_value = v, lr_path = path, lr_action_kind = None\<rparr>]))"
| "locate kind limit (Field name # rest) depth path v out =
     (case get_field v name of
        None \<Rightarrow> (False, out)
      | Some child \<Rightarrow> locate kind limit rest depth (path @ (if path = [] then [] else ''.'') @ name) child out)"
| "locate kind limit (Each # rest) depth path v out =
     (case v of Array items \<Rightarrow> locate_items kind limit rest depth path 0 items out | _ \<Rightarrow> (False, out))"
| "locate kind limit (EachRelated # rest) depth path v out =
     (let (capped, out') = locate kind limit rest depth path v out;
          out'' = mark_action (length out) (text_field v ''action'') out'
      in if capped then (True, out'')
         else if depth \<ge> MAX_RELATED_DEPTH then (False, out'')
         else case get_field v ''related'' of
                Some (Array items) \<Rightarrow> locate_items kind limit (EachRelated # rest) (depth + 1) (path @ ''.related'') 0 items out''
              | _ \<Rightarrow> (False, out''))"
| "locate_items kind limit steps depth path index [] out = (False, out)"
| "locate_items kind limit steps depth path index (x # xs) out =
     (let (capped, out) = locate kind limit steps depth (path @ ''['' @ fmt_nat index @ '']'') x out
      in if capped then (True, out) else locate_items kind limit steps depth path (index + 1) xs out)"
  by pat_completeness auto

termination
  by (relation "measures
        [case_sum (\<lambda>(_, _, _, depth, _). MAX_RELATED_DEPTH - depth) (\<lambda>(_, _, _, depth, _). MAX_RELATED_DEPTH - depth),
         case_sum (\<lambda>(_, _, steps, _). length steps) (\<lambda>(_, _, steps, _). length steps),
         case_sum (\<lambda>_. 0) (\<lambda>(_, _, _, _, _, _, items, _). Suc (length items))]") auto

text \<open>All fields of one assertion, up to the cap; the \<open>relatedAssertions\<close> of ingredients exist from 2.5 on.\<close>

definition applies_2_5 :: "engine_profile \<Rightarrow> bool" where
  "applies_2_5 profile \<longleftrightarrow> ep_version profile = V2_5"

fun locate_fields ::
    "string \<Rightarrow> engine_profile \<Rightarrow> cbor_value \<Rightarrow> nat \<Rightarrow> ref_field list \<Rightarrow> located_ref list \<Rightarrow> bool \<times> located_ref list" where
  "locate_fields alabel profile assertion limit [] out = (False, out)"
| "locate_fields alabel profile assertion limit ((steps, kind) # fs) out =
     (if kind = Related \<and> base_label alabel = ''c2pa.ingredient.v3'' \<and> \<not> applies_2_5 profile
      then locate_fields alabel profile assertion limit fs out
      else let (capped, out) = locate kind limit steps 0 [] assertion out
           in if capped then (True, out) else locate_fields alabel profile assertion limit fs out)"

section \<open>Targets\<close>

definition absolute_assertion_target :: "string \<Rightarrow> (string \<times> string) option" where
  "absolute_assertion_target url =
     Option.bind (strip_prefix ''self#jumbf=/c2pa/'' url) (\<lambda>rest.
     Option.bind (split_once_str ''/c2pa.assertions/'' rest) (\<lambda>(manifest, label).
       if manifest \<noteq> [] \<and> plain_name label then Some (manifest, label) else None))"

record redacted_target =
  rt_same_manifest :: bool
  rt_label :: string
  rt_url :: string

definition redacted_reference_target ::
    "cbor_value \<Rightarrow> string \<Rightarrow> redaction_index option \<Rightarrow> redacted_target option" where
  "redacted_reference_target reference manifest_label rindex =
     Option.bind rindex (\<lambda>rindex.
     Option.bind (text_field reference ''url'') (\<lambda>url.
     Option.bind (case absolute_assertion_target url of
                    Some target \<Rightarrow> Some target
                  | None \<Rightarrow> map_option (Pair manifest_label) (strip_prefix ''self#jumbf=c2pa.assertions/'' url)) (\<lambda>(manifest, label).
       if redaction_contains rindex manifest label
       then Some \<lparr>rt_same_manifest = (manifest = manifest_label), rt_label = label, rt_url = url\<rparr>
       else None)))"

text \<open>The single matching entry, none when the label is ambiguous.\<close>

definition unique_entry :: "('a \<Rightarrow> bool) \<Rightarrow> 'a list \<Rightarrow> 'a option" where
  "unique_entry P items = (case filter P items of [x] \<Rightarrow> Some x | _ \<Rightarrow> None)"

record destination =
  dn_jumbf :: bytes
  dn_payload :: "bytes option"

definition resolve_destination :: "string \<Rightarrow> string \<Rightarrow> parsed_manifest list \<Rightarrow> destination option" where
  "resolve_destination url manifest_label manifests =
     Option.bind (strip_prefix ''self#jumbf='' url) (\<lambda>rest.
     Option.bind (case strip_prefix ''/c2pa/'' rest of
                    Some absolute \<Rightarrow> split_once_str ''/c2pa.assertions/'' absolute
                  | None \<Rightarrow> map_option (Pair manifest_label) (strip_prefix ''c2pa.assertions/'' rest)) (\<lambda>(target, alabel).
       if \<not> plain_name alabel then None
       else Option.bind (unique_entry (\<lambda>m. pm_name m = target) manifests) (\<lambda>manifest.
            Option.bind (unique_entry (\<lambda>(l, _). str_of_bytes l = alabel) (assertion_jumbf manifest)) (\<lambda>(_, jumbf).
              Some \<lparr>dn_jumbf = jumbf,
                    dn_payload = map_option snd (unique_entry (\<lambda>(l, _). str_of_bytes l = alabel) (assertions manifest))\<rparr>))))"

section \<open>Validation\<close>

definition ASSERTION_REDACTED :: string where "ASSERTION_REDACTED = ''assertion.redacted''"
definition NOT_RETRIEVED :: string where "NOT_RETRIEVED = ''com.encypher.reference.externalNotRetrieved''"

definition size_field :: "cbor_value \<Rightarrow> nat option" where
  "size_field v =
     (case get_field v ''size'' of
        Some (Integer n) \<Rightarrow> if 0 \<le> n \<and> n \<le> int usize_max then Some (nat n) else None
      | _ \<Rightarrow> None)"

text \<open>The algorithm a reference states, else the one its assertion or the claim states.\<close>

definition reference_alg :: "cbor_value \<Rightarrow> string option \<Rightarrow> string option" where
  "reference_alg v inherited = (case text_field v ''alg'' of Some alg \<Rightarrow> Some alg | None \<Rightarrow> inherited)"

definition named_field :: "string \<Rightarrow> string \<Rightarrow> string \<Rightarrow> string" where
  "named_field alabel path rest = alabel @ '' field '' @ quoted path @ rest"

text \<open>What retrieved bytes are compared with: the declared size, the declared format and the digest.\<close>

definition check_media_type ::
    "string \<Rightarrow> located_ref \<Rightarrow> string \<Rightarrow> string option \<Rightarrow> validation_results \<Rightarrow> validation_results" where
  "check_media_type alabel l url media_type results =
     (case (text_field (lr_value l) ''dc:format'', media_type) of
        (Some declared, Some observed) \<Rightarrow>
          if declared \<noteq> observed
          then push_informational NOT_RETRIEVED url
                 (named_field alabel (lr_path l)
                    ('' declares dc:format '' @ quoted declared @ '' but was retrieved as '' @ quoted observed)) results
          else results
      | _ \<Rightarrow> results)"

definition check_retrieved ::
    "digest \<Rightarrow> string \<Rightarrow> located_ref \<Rightarrow> string \<Rightarrow> string \<Rightarrow> bytes \<Rightarrow> bytes \<Rightarrow> string option \<Rightarrow> validation_results
      \<Rightarrow> validation_results" where
  "check_retrieved digest alabel l url algorithm expected bs media_type results =
     (let wrong_size = (case size_field (lr_value l) of Some declared \<Rightarrow> declared \<noteq> length bs | None \<Rightarrow> False)
      in if wrong_size
         then push_failure HASHED_URI_MISMATCH url
                (named_field alabel (lr_path l)
                   ('' declares '' @ fmt_nat (the (size_field (lr_value l))) @ '' bytes; retrieved '' @ fmt_nat (length bs))) results
         else let results = check_media_type alabel l url media_type results
              in if hash_bytes digest algorithm bs = Some expected
                 then push_success ASSERTION_HASHED_URI_MATCH url (named_field alabel (lr_path l) '' hashed uri matched'') results
                 else push_failure HASHED_URI_MISMATCH url (named_field alabel (lr_path l) '' hashed uri mismatch'') results)"

definition http_url :: "string \<Rightarrow> bool" where
  "http_url url \<longleftrightarrow> prefix ''https://'' url \<or> prefix ''http://'' url"

definition validate_external_reference ::
    "digest \<Rightarrow> located_ref \<Rightarrow> string \<Rightarrow> string \<Rightarrow> string \<Rightarrow> string option \<Rightarrow> 'p resource_cache \<Rightarrow> validation_results
      \<Rightarrow> 'p resource_cache \<times> validation_results" where
  "validate_external_reference digest l url alabel aurl inherited resources results =
     (if \<not> http_url url
      then (resources, push_failure HASHED_URI_MISSING aurl
              (named_field alabel (lr_path l) '' has an invalid external URL'') results)
      else case reference_alg (lr_value l) inherited of
        None \<Rightarrow> (resources, push_failure ALGORITHM_UNSUPPORTED aurl
                   (named_field alabel (lr_path l) '' has no supported hash algorithm'') results)
      | Some algorithm \<Rightarrow>
          if \<not> is_allowed_hash_algorithm algorithm
          then (resources, push_failure ALGORITHM_UNSUPPORTED aurl
                  (named_field alabel (lr_path l) '' has no supported hash algorithm'') results)
          else case hash_field (lr_value l) of
            None \<Rightarrow> (resources, push_failure HASHED_URI_MISMATCH aurl
                       (named_field alabel (lr_path l) '' has no hash'') results)
          | Some expected \<Rightarrow>
              let (outcome, resources) = cache_resolve url resources
              in (resources,
                  case outcome of
                    NotAttempted \<Rightarrow>
                      push_informational NOT_RETRIEVED url
                        (named_field alabel (lr_path l) '' references external data that was not retrieved'') results
                  | Unavailable \<Rightarrow>
                      push_failure HASHED_URI_MISSING url
                        (named_field alabel (lr_path l) '' external data could not be retrieved'') results
                  | Retrieved bs media_type \<Rightarrow>
                      check_retrieved digest alabel l url algorithm expected bs media_type results))"

definition matches_domain :: "digest \<Rightarrow> string \<Rightarrow> bytes option \<Rightarrow> bytes option \<Rightarrow> bool" where
  "matches_domain digest algorithm expected bs \<longleftrightarrow>
     expected \<noteq> None \<and> Option.bind bs (hash_bytes digest algorithm) = expected"

text \<open>A reference into the store.\<close>

definition validate_internal_reference ::
    "digest \<Rightarrow> located_ref \<Rightarrow> string \<Rightarrow> string \<Rightarrow> claim_generation \<Rightarrow> string \<Rightarrow> parsed_manifest list \<Rightarrow> string option
      \<Rightarrow> validation_results \<Rightarrow> validation_results" where
  "validate_internal_reference digest l url alabel generation manifest_label manifests inherited results =
     (case resolve_destination url manifest_label manifests of
        None \<Rightarrow> push_failure HASHED_URI_MISSING url
                  (named_field alabel (lr_path l) ('' references '' @ quoted url @ '', which cannot be located'')) results
      | Some d \<Rightarrow>
          (case reference_alg (lr_value l) inherited of
             None \<Rightarrow> push_failure ALGORITHM_UNSUPPORTED url (named_field alabel (lr_path l) '' has no hash algorithm'') results
           | Some algorithm \<Rightarrow>
               if \<not> is_allowed_hash_algorithm algorithm
               then push_failure ALGORITHM_UNSUPPORTED url
                      (named_field alabel (lr_path l) ('' uses unsupported hash algorithm '' @ quoted algorithm)) results
               else if matches_domain digest algorithm (hash_field (lr_value l)) (Some (dn_jumbf d))
                       \<or> generation = ClaimV1 \<and> matches_domain digest algorithm (hash_field (lr_value l)) (dn_payload d)
                    then results
                    else push_failure HASHED_URI_MISMATCH url
                           (named_field alabel (lr_path l) ('' hashed uri mismatch: '' @ url)) results))"

definition validate_reference ::
    "digest \<Rightarrow> located_ref \<Rightarrow> string \<Rightarrow> string \<Rightarrow> claim_generation \<Rightarrow> string \<Rightarrow> parsed_manifest list \<Rightarrow> string option
      \<Rightarrow> 'p resource_cache \<Rightarrow> validation_results \<Rightarrow> 'p resource_cache \<times> validation_results" where
  "validate_reference digest l alabel aurl generation manifest_label manifests inherited resources results =
     (case text_field (lr_value l) ''url'' of
        None \<Rightarrow> (resources, push_failure HASHED_URI_MISSING aurl
                   (named_field alabel (lr_path l) '' is not a hashed URI: no url'') results)
      | Some url \<Rightarrow>
          if lr_kind l = Either \<and> \<not> prefix ''self#jumbf='' url
          then validate_external_reference digest l url alabel aurl inherited resources results
          else (resources,
                validate_internal_reference digest l url alabel generation manifest_label manifests inherited results))"

section \<open>The walk\<close>

record reference_walk =
  rw_examined :: nat
  rw_truncated :: bool

text \<open>The exemptions of 2.5 for references to redacted assertions.\<close>

definition redaction_exempt :: "engine_profile \<Rightarrow> located_ref \<Rightarrow> redacted_target \<Rightarrow> bool" where
  "redaction_exempt profile l target \<longleftrightarrow>
     applies_2_5 profile
     \<and> (case lr_kind l of
          Related \<Rightarrow> rt_same_manifest target
        | Ingredient \<Rightarrow>
            base_label (rt_label target) \<in> {''c2pa.ingredient'', ''c2pa.ingredient.v2'', ''c2pa.ingredient.v3''}
            \<and> (case lr_action_kind l of
                 None \<Rightarrow> False
               | Some a \<Rightarrow>
                   if a \<in> {''c2pa.opened'', ''c2pa.placed'', ''c2pa.transcoded'', ''c2pa.repackaged''} then rt_same_manifest target
                   else a \<in> {''c2pa.deleted'', ''c2pa.removed''} \<and> \<not> rt_same_manifest target)
        | _ \<Rightarrow> False)"

text \<open>One located reference.\<close>

definition check_located ::
    "digest \<Rightarrow> claim_generation \<Rightarrow> engine_profile \<Rightarrow> string \<Rightarrow> parsed_manifest list \<Rightarrow> redaction_index option \<Rightarrow> bool
      \<Rightarrow> string \<Rightarrow> string option \<Rightarrow> 'p resource_cache \<times> validation_results \<Rightarrow> located_ref
      \<Rightarrow> 'p resource_cache \<times> validation_results" where
  "check_located digest generation profile manifest_label manifests rindex legacy alabel inherited = (\<lambda>(resources, results) l.
     case redacted_reference_target (lr_value l) manifest_label rindex of
       Some target \<Rightarrow>
         (resources,
          if redaction_exempt profile l target
          then push_informational ASSERTION_REDACTED (rt_url target) ''reference resolves to a redacted assertion'' results
          else push_failure HASHED_URI_MISSING (rt_url target)
                 (named_field alabel (lr_path l) '' references a redacted assertion'') results)
     | None \<Rightarrow>
         if legacy then (resources, results)
         else validate_reference digest l alabel (assertion_url manifest_label alabel) generation manifest_label manifests
                inherited resources results)"

text \<open>The loop over the assertions the claim names, each once.\<close>

fun walk_references ::
    "digest \<Rightarrow> cbor_value \<Rightarrow> claim_refs \<Rightarrow> claim_generation \<Rightarrow> engine_profile \<Rightarrow> string \<Rightarrow> parsed_manifest list \<Rightarrow> nat \<Rightarrow> bool
      \<Rightarrow> claim_reference list \<Rightarrow> string list \<Rightarrow> nat \<Rightarrow> 'p resource_cache \<Rightarrow> validation_results
      \<Rightarrow> reference_walk \<times> 'p resource_cache \<times> validation_results" where
  "walk_references digest claim refs generation profile manifest_label manifests budget legacy [] seen examined resources results =
     (\<lparr>rw_examined = examined, rw_truncated = False\<rparr>, resources, results)"
| "walk_references digest claim refs generation profile manifest_label manifests budget legacy (r # rs) seen examined resources results =
     (let skip = (\<lambda>seen. walk_references digest claim refs generation profile manifest_label manifests budget legacy rs seen
                    examined resources results)
      in case rf_label r of
           None \<Rightarrow> skip seen
         | Some alabel \<Rightarrow>
             if alabel \<in> set seen then skip seen
             else case (assertion_ref_fields alabel, Option.bind (indexed_of refs alabel) ia_decoded) of
               ([], _) \<Rightarrow> skip (seen @ [alabel])
             | (_, None) \<Rightarrow> skip (seen @ [alabel])
             | (fs, Some assertion) \<Rightarrow>
                 let (capped, located) = locate_fields alabel profile assertion (budget - examined) fs [];
                     inherited = (case text_field assertion ''alg'' of Some alg \<Rightarrow> Some alg | None \<Rightarrow> text_field claim ''alg'');
                     (resources, results) =
                       foldl (check_located digest generation profile manifest_label manifests (cr_redactions refs) legacy
                                alabel inherited) (resources, results) located
                 in if capped
                    then (\<lparr>rw_examined = examined + length located, rw_truncated = True\<rparr>, resources, results)
                    else walk_references digest claim refs generation profile manifest_label manifests budget legacy rs
                           (seen @ [alabel]) (examined + length located) resources results)"

definition verify_assertion_references ::
    "digest \<Rightarrow> cbor_value \<Rightarrow> claim_refs \<Rightarrow> claim_generation \<Rightarrow> engine_profile \<Rightarrow> string \<Rightarrow> parsed_manifest list \<Rightarrow> nat
      \<Rightarrow> 'p resource_cache \<Rightarrow> validation_results \<Rightarrow> reference_walk \<times> 'p resource_cache \<times> validation_results" where
  "verify_assertion_references digest claim refs generation profile manifest_label manifests budget resources results =
     (let legacy = (generation = ClaimV1 \<and> is_generous profile)
      in if legacy \<and> (case cr_redactions refs of Some index \<Rightarrow> redactions_empty index | None \<Rightarrow> True)
         then (\<lparr>rw_examined = 0, rw_truncated = False\<rparr>, resources, results)
         else walk_references digest claim refs generation profile manifest_label manifests budget legacy (cr_references refs) [] 0
                resources results)"

text \<open>The discovery of external references, which validates nothing.\<close>

definition external_urls :: "located_ref list \<Rightarrow> string list" where
  "external_urls located =
     List.map_filter (\<lambda>l. Option.bind (text_field (lr_value l) ''url'') (\<lambda>url.
       if lr_kind l = Either \<and> http_url url then Some url else None)) located"

fun locate_externals ::
    "claim_refs \<Rightarrow> engine_profile \<Rightarrow> nat \<Rightarrow> claim_reference list \<Rightarrow> string list \<Rightarrow> nat \<Rightarrow> string list
      \<Rightarrow> string list \<times> reference_walk" where
  "locate_externals refs profile budget [] seen examined urls = (urls, \<lparr>rw_examined = examined, rw_truncated = False\<rparr>)"
| "locate_externals refs profile budget (r # rs) seen examined urls =
     (case rf_label r of
        None \<Rightarrow> locate_externals refs profile budget rs seen examined urls
      | Some alabel \<Rightarrow>
          if alabel \<in> set seen then locate_externals refs profile budget rs seen examined urls
          else case (assertion_ref_fields alabel, Option.bind (indexed_of refs alabel) ia_decoded) of
            ([], _) \<Rightarrow> locate_externals refs profile budget rs (seen @ [alabel]) examined urls
          | (_, None) \<Rightarrow> locate_externals refs profile budget rs (seen @ [alabel]) examined urls
          | (fs, Some assertion) \<Rightarrow>
              let (capped, located) = locate_fields alabel profile assertion (budget - examined) fs [];
                  examined = saturating_add examined (length located);
                  urls = urls @ external_urls located
              in if capped then (urls, \<lparr>rw_examined = examined, rw_truncated = True\<rparr>)
                 else locate_externals refs profile budget rs (seen @ [alabel]) examined urls)"

definition locate_external_references ::
    "claim_refs \<Rightarrow> claim_generation \<Rightarrow> engine_profile \<Rightarrow> nat \<Rightarrow> string list \<times> reference_walk" where
  "locate_external_references refs generation profile budget =
     (if generation = ClaimV1 \<and> is_generous profile then ([], \<lparr>rw_examined = 0, rw_truncated = False\<rparr>)
      else locate_externals refs profile budget (cr_references refs) [] 0 [])"

end
