(* ===== verification/Reference_Properties.thy ===== *)
theory Reference_Properties
  imports Reference_Walk
begin

text \<open>
  What the walk over the references inside assertions guarantees: it stays within its budget, discovery and validation
  examine the same references, and references that pass carry the digest of what they name.
\<close>

section \<open>The cap\<close>

lemma length_mark_action [simp]: "length (mark_action n a out) = length out"
  by (simp add: mark_action_def)

text \<open>At most \<open>limit\<close> references are collected, and the cap is reported only when it is reached.\<close>

definition capped_ok :: "nat \<Rightarrow> located_ref list \<Rightarrow> bool \<times> located_ref list \<Rightarrow> bool" where
  "capped_ok limit out r \<longleftrightarrow>
     length out \<le> length (snd r) \<and> (length out \<le> limit \<longrightarrow> length (snd r) \<le> limit) \<and> (fst r \<longrightarrow> limit \<le> length (snd r))"

lemma capped_ok_same [simp]: "capped_ok limit out (False, out)"
  by (simp add: capped_ok_def)

lemma capped_ok_trans: "capped_ok limit out (c, out') \<Longrightarrow> capped_ok limit out' r \<Longrightarrow> capped_ok limit out r"
  by (auto simp: capped_ok_def)

lemma locate_capped:
  "capped_ok limit out (locate kind limit steps depth path v out)"
  "capped_ok limit out (locate_items kind limit steps depth path index vs out)"
proof (induction kind limit steps depth path v out and kind limit steps depth path index vs out
    rule: locate_locate_items.induct)
  case (4 kind limit rest depth path v out)
  obtain c out' where l: "locate kind limit rest depth path v out = (c, out')" by fastforce
  let ?out = "mark_action (length out) (text_field v ''action'') out'"
  have 1: "capped_ok limit out (c, ?out)" using 4(1) by (simp add: l capped_ok_def)
  show ?case
  proof (cases "\<not> c \<and> depth < MAX_RELATED_DEPTH \<and> (\<exists>vs. get_field v ''related'' = Some (Array vs))")
    case True
    then obtain vs where vs: "get_field v ''related'' = Some (Array vs)" by blast
    have "capped_ok limit ?out
        (locate_items kind limit (EachRelated # rest) (depth + 1) (path @ ''.related'') 0 vs ?out)"
      using 4(2) [OF l [symmetric] refl] True vs by auto
    with 1 True vs show ?thesis by (auto simp: l capped_ok_def Let_def)
  next
    case False
    with 1 show ?thesis by (auto simp: l capped_ok_def Let_def split: option.splits cbor_value.splits)
  qed
next
  case (6 kind limit steps depth path index x xs out)
  obtain c out' where l: "locate kind limit steps depth (path @ ''['' @ fmt_nat index @ '']'') x out = (c, out')" by fastforce
  have 1: "capped_ok limit out (c, out')" using 6(1) unfolding l .
  have step: "locate_items kind limit steps depth path index (x # xs) out =
      (if c then (True, out') else locate_items kind limit steps depth path (index + 1) xs out')"
    unfolding locate_items.simps l Let_def by simp
  show ?case
  proof (cases c)
    case True
    then show ?thesis using 1 by (simp add: step del: locate_items.simps)
  next
    case False
    then have "capped_ok limit out' (locate_items kind limit steps depth path (index + 1) xs out')"
      using 6(2) [OF l [symmetric] refl] by simp
    with capped_ok_trans [OF 1] False show ?thesis by (simp add: step del: locate_items.simps)
  qed
qed (auto simp: capped_ok_def split: option.split cbor_value.split)

lemma locate_fields_capped: "capped_ok limit out (locate_fields alabel profile assertion limit fs out)"
proof (induction fs arbitrary: out)
  case (Cons f fs)
  obtain steps kind where f: "f = (steps, kind)" by fastforce
  obtain c out' where l: "locate kind limit steps 0 [] assertion out = (c, out')" by fastforce
  have "capped_ok limit out (c, out')" using locate_capped(1) [of limit out kind steps 0 "[]" assertion] by (simp add: l)
  then show ?case using Cons.IH capped_ok_trans by (cases c) (auto simp: f l)
qed simp

section \<open>Collect, then check\<close>

text \<open>The references the walk examines, with the assertion that holds each: the specification of both loops.\<close>

fun located_all ::
    "claim_refs \<Rightarrow> engine_profile \<Rightarrow> nat \<Rightarrow> claim_reference list \<Rightarrow> string list \<Rightarrow> nat
      \<Rightarrow> (string \<times> cbor_value \<times> located_ref) list \<times> reference_walk" where
  "located_all refs profile budget [] seen examined = ([], \<lparr>rw_examined = examined, rw_truncated = False\<rparr>)"
| "located_all refs profile budget (r # rs) seen examined =
     (case rf_label r of
        None \<Rightarrow> located_all refs profile budget rs seen examined
      | Some alabel \<Rightarrow>
          if alabel \<in> set seen then located_all refs profile budget rs seen examined
          else case (assertion_ref_fields alabel, Option.bind (indexed_of refs alabel) ia_decoded) of
            ([], _) \<Rightarrow> located_all refs profile budget rs (seen @ [alabel]) examined
          | (_, None) \<Rightarrow> located_all refs profile budget rs (seen @ [alabel]) examined
          | (fs, Some assertion) \<Rightarrow>
              let (capped, located) = locate_fields alabel profile assertion (budget - examined) fs [];
                  here = map (\<lambda>l. (alabel, assertion, l)) located;
                  examined = examined + length located
              in if capped then (here, \<lparr>rw_examined = examined, rw_truncated = True\<rparr>)
                 else map_prod (append here) id (located_all refs profile budget rs (seen @ [alabel]) examined))"

definition inherited_alg :: "cbor_value \<Rightarrow> cbor_value \<Rightarrow> string option" where
  "inherited_alg claim assertion = (case text_field assertion ''alg'' of Some alg \<Rightarrow> Some alg | None \<Rightarrow> text_field claim ''alg'')"

definition check_all ::
    "digest \<Rightarrow> cbor_value \<Rightarrow> claim_generation \<Rightarrow> engine_profile \<Rightarrow> string \<Rightarrow> parsed_manifest list \<Rightarrow> redaction_index option \<Rightarrow> bool
      \<Rightarrow> 'p resource_cache \<times> validation_results \<Rightarrow> string \<times> cbor_value \<times> located_ref \<Rightarrow> 'p resource_cache \<times> validation_results" where
  "check_all digest claim generation profile manifest_label manifests rindex legacy s = (\<lambda>(alabel, assertion, l).
     check_located digest generation profile manifest_label manifests rindex legacy alabel (inherited_alg claim assertion) s l)"

lemma walk_references_collect:
  "walk_references digest claim refs generation profile manifest_label manifests budget legacy rs seen examined resources results =
     (let (ls, w) = located_all refs profile budget rs seen examined;
          (resources, results) = foldl (check_all digest claim generation profile manifest_label manifests (cr_redactions refs) legacy)
            (resources, results) ls
      in (w, resources, results))"
proof (induction rs arbitrary: seen examined resources results)
  case (Cons r rs)
  have m: "foldl (check_all digest claim generation profile manifest_label manifests (cr_redactions refs) legacy) s
      (map (\<lambda>l. (alabel, assertion, l)) located)
    = foldl (check_located digest generation profile manifest_label manifests (cr_redactions refs) legacy alabel
        (inherited_alg claim assertion)) s located" for s :: "'a resource_cache \<times> validation_results" and alabel assertion located
    by (induction located arbitrary: s) (simp_all add: check_all_def)
  show ?case
    by (simp add: Cons.IH m Let_def inherited_alg_def [symmetric] case_prod_beta map_prod_def split: option.split list.split)
qed simp

lemma located_all_budget:
  "examined \<le> budget \<Longrightarrow> located_all refs profile budget rs seen examined = (ls, w) \<Longrightarrow>
     rw_examined w = examined + length ls \<and> rw_examined w \<le> budget \<and> (rw_truncated w \<longrightarrow> rw_examined w = budget)"
proof (induction rs arbitrary: seen examined ls w)
  case (Cons r rs)
  show ?case
  proof (cases "\<exists>alabel f fs assertion. rf_label r = Some alabel \<and> alabel \<notin> set seen \<and> assertion_ref_fields alabel = f # fs
      \<and> Option.bind (indexed_of refs alabel) ia_decoded = Some assertion")
    case True
    then obtain alabel f fs assertion where a: "rf_label r = Some alabel" "alabel \<notin> set seen"
      "assertion_ref_fields alabel = f # fs" "Option.bind (indexed_of refs alabel) ia_decoded = Some assertion" by blast
    obtain c out where l: "locate_fields alabel profile assertion (budget - examined) (f # fs) [] = (c, out)" by fastforce
    have out: "examined + length out \<le> budget" "c \<Longrightarrow> examined + length out = budget"
      using locate_fields_capped [of "budget - examined" "[]" alabel profile assertion "f # fs"] Cons.prems(1)
      by (auto simp: l capped_ok_def)
    obtain ls' w' where rest: "located_all refs profile budget rs (seen @ [alabel]) (examined + length out) = (ls', w')" by fastforce
    show ?thesis
      using Cons.prems(2) Cons.IH [OF out(1) rest] out a l rest by (cases c) (auto simp del: locate_fields.simps)
  next
    case False
    have "\<exists>seen'. located_all refs profile budget (r # rs) seen examined = located_all refs profile budget rs seen' examined"
      using False by (auto split: option.split list.split)
    then show ?thesis using Cons by metis
  qed
qed simp

text \<open>Discovery collects the same references and reports the URLs that a validation could ask for.\<close>

lemma locate_externals_collect:
  assumes "budget \<le> usize_max"
  shows "examined \<le> budget \<Longrightarrow> locate_externals refs profile budget rs seen examined urls =
     (let (ls, w) = located_all refs profile budget rs seen examined in (urls @ external_urls (map (\<lambda>(_, _, l). l) ls), w))"
proof (induction rs arbitrary: seen examined urls)
  case (Cons r rs)
  show ?case
  proof (cases "\<exists>alabel f fs assertion. rf_label r = Some alabel \<and> alabel \<notin> set seen \<and> assertion_ref_fields alabel = f # fs
      \<and> Option.bind (indexed_of refs alabel) ia_decoded = Some assertion")
    case True
    then obtain alabel f fs assertion where a: "rf_label r = Some alabel" "alabel \<notin> set seen"
      "assertion_ref_fields alabel = f # fs" "Option.bind (indexed_of refs alabel) ia_decoded = Some assertion" by blast
    obtain c out where l: "locate_fields alabel profile assertion (budget - examined) (f # fs) [] = (c, out)" by fastforce
    have out: "examined + length out \<le> budget"
      using locate_fields_capped [of "budget - examined" "[]" alabel profile assertion "f # fs"] Cons.prems
      by (auto simp: l capped_ok_def)
    then have sat: "saturating_add examined (length out) = examined + length out"
      using assms by (simp add: saturating_add_def)
    have urls: "external_urls (xs @ ys) = external_urls xs @ external_urls ys" for xs ys
      by (simp add: external_urls_def List.map_filter_def)
    show ?thesis
      using Cons.IH [OF out] a l sat urls
      by (auto simp: Let_def comp_def case_prod_beta simp del: locate_fields.simps)
  next
    case False
    have "\<exists>seen'. located_all refs profile budget (r # rs) seen examined = located_all refs profile budget rs seen' examined
        \<and> locate_externals refs profile budget (r # rs) seen examined urls
          = locate_externals refs profile budget rs seen' examined urls"
      using False by (auto split: option.split list.split)
    then show ?thesis using Cons by metis
  qed
qed (simp add: external_urls_def List.map_filter_simps)

section \<open>Every reference of a schema is located\<close>





type_synonym ref_item = "ref_kind \<times> cbor_value \<times> string option"

definition items :: "located_ref list \<Rightarrow> ref_item set" where
  "items out = (\<lambda>l. (lr_kind l, lr_value l, lr_action_kind l)) ` set out"

lemma items_append [simp]: "items (xs @ ys) = items xs \<union> items ys"
  by (simp add: items_def image_Un)




text \<open>An uncapped walk appends the references of its path, each with its action, to what was found before.\<close>

definition appends :: "ref_item set \<Rightarrow> located_ref list \<Rightarrow> located_ref list \<Rightarrow> bool" where
  "appends found out out' \<longleftrightarrow> (\<exists>new. out' = out @ new \<and> found \<subseteq> items new)"

lemma appends_same [simp]: "appends {} out out"
  by (simp add: appends_def)







section \<open>A reference that passes\<close>

text \<open>An informational status with a code and a URL.\<close>

definition noted :: "status_code list \<Rightarrow> string \<Rightarrow> string \<Rightarrow> bool" where
  "noted infos code url \<longleftrightarrow> (\<exists>s \<in> set infos. sc_code s = code \<and> sc_url s = url)"





text \<open>A step only adds failures and informational statuses.\<close>

definition grows :: "validation_results \<Rightarrow> validation_results \<Rightarrow> bool" where
  "grows r r' \<longleftrightarrow> prefix (failure r) (failure r') \<and> set (informational r) \<subseteq> set (informational r')"

lemma grows_refl [simp]: "grows r r"
  by (simp add: grows_def)


lemma grows_push [simp]:
  "grows r (push_failure c u e r)" "grows r (push_informational c u e r)" "grows r (push_success c u e r)"
  by (auto simp: grows_def push_failure_def push_informational_def push_success_def)


lemma noted_push [simp]: "noted (informational (push_informational code url e r)) code url"
  by (simp add: noted_def push_informational_def status_def)
















section \<open>Samples\<close>

text \<open>An ingredient whose \<open>data\<close> field names a web resource that the caller supplied.\<close>

definition linked_reference :: cbor_value where
  "linked_reference =
     Map [(Text (ascii ''url''), Text (ascii ''https://h'')), (Text (ascii ''alg''), Text (ascii ''sha256'')),
          (Text (ascii ''hash''), Bytes [7, 8])]"

definition linked_ingredient :: cbor_value where
  "linked_ingredient = Map [(Text (ascii ''data''), linked_reference)]"

definition linked_refs :: claim_refs where
  "linked_refs = incomplete_refs
     \<lparr>cr_references := [\<lparr>rf_field = ''assertions'', rf_value = Null, rf_label = Some ''c2pa.ingredient.v2'', rf_has_icon = False\<rparr>],
      cr_assertions := [(''c2pa.ingredient.v2'', \<lparr>ia_jumbf = None, ia_payload = None, ia_decoded = Some linked_ingredient,
                          ia_digests = (\<lambda>_. None)\<rparr>)]\<rparr>"

definition linked_resources :: "unit resource_cache" where
  "linked_resources = with_evidence None () \<lparr>oe_ocsp_responses = None, oe_ocsp_unreachable = None,
     oe_external_data = Some [(''https://h'', [7, 8])], oe_external_data_media_types = None, oe_external_data_unreachable = None\<rparr>"

lemma linked_values:
  "get_field linked_ingredient ''data'' = Some linked_reference" "get_field linked_ingredient ''thumbnail'' = None"
  "text_field linked_reference ''url'' = Some ''https://h''" "reference_alg linked_reference x = Some ''sha256''"
  "hash_field linked_reference = Some [7, 8]" "text_field linked_reference ''dc:format'' = None"
  "get_field linked_reference ''size'' = None" "is_allowed_hash_algorithm ''sha256''"
  "assertion_ref_fields ''c2pa.ingredient.v2'' = INGREDIENT_V2" "base_label ''c2pa.ingredient.v2'' = ''c2pa.ingredient.v2''"
  "http_url ''https://h''" "prefix ''self#jumbf='' ''https://h'' = False"
  by (code_simp | simp add: reference_alg_def, code_simp)+

lemma linked_locate:
  "0 < budget \<Longrightarrow> locate_fields ''c2pa.ingredient.v2'' profile linked_ingredient budget INGREDIENT_V2 []
     = (False, [\<lparr>lr_kind = Either, lr_value = linked_reference, lr_path = ''data'', lr_action_kind = None\<rparr>])"
  by (simp add: INGREDIENT_V2_def linked_values)

definition linked_result :: "reference_walk \<times> unit resource_cache \<times> validation_results" where
  "linked_result = verify_assertion_references (\<lambda>_ bs. bs) Null linked_refs ClaimV2 GENEROUS ''m'' [] 1 linked_resources results_default"

lemma linked_walk:
  "fst linked_result = \<lparr>rw_examined = 1, rw_truncated = False\<rparr>" "failure (snd (snd linked_result)) = []"
  "rc_outcomes (fst (snd linked_result)) = [''https://h'' \<mapsto> Retrieved [7, 8] None]"
  by (simp_all add: linked_result_def verify_assertion_references_def linked_refs_def incomplete_refs_def indexed_of_def is_redacted_def
        linked_values linked_locate [unfolded INGREDIENT_V2_def] INGREDIENT_V2_def check_located_def redacted_reference_target_def
        validate_reference_def validate_external_reference_def cache_resolve_def fresh_outcome_def linked_resources_def
        with_evidence_def opt_get_def check_retrieved_def check_media_type_def size_field_def hash_bytes_digest
        bound_values results_default_def Let_def del: locate_fields.simps)

section \<open>Properties\<close>



lemma cache_resolve_dom: "cache_resolve url c = (outcome, c') \<Longrightarrow> dom (rc_outcomes c') \<subseteq> insert url (dom (rc_outcomes c))"
  by (auto simp: cache_resolve_def Let_def split: option.splits prod.splits if_splits)

lemma external_urls_append [simp]: "external_urls (xs @ ys) = external_urls xs @ external_urls ys"
  by (simp add: external_urls_def List.map_filter_def)

lemma external_urls_single:
  "external_urls [l] = (case text_field (lr_value l) ''url'' of
     Some url \<Rightarrow> if lr_kind l = Either \<and> http_url url then [url] else [] | None \<Rightarrow> [])"
  by (simp add: external_urls_def List.map_filter_simps split: option.split)

lemma check_located_dom:
  assumes "check_located digest generation profile label manifests rindex legacy alabel inherited (resources, r) l = (resources', r')"
  shows "dom (rc_outcomes resources') \<subseteq> dom (rc_outcomes resources) \<union> set (external_urls [l])"
  using assms unfolding external_urls_single
  by (auto simp: check_located_def validate_reference_def validate_external_reference_def Let_def
        split: option.splits if_splits prod.splits dest!: cache_resolve_dom)

lemma foldl_check_dom:
  "dom (rc_outcomes (fst (foldl (check_all digest claim generation profile label manifests rindex legacy) s ls)))
     \<subseteq> dom (rc_outcomes (fst s)) \<union> set (external_urls (map (\<lambda>(_, _, l). l) ls))"
proof (induction ls rule: rev_induct)
  case (snoc x ls)
  obtain alabel assertion l where x: "x = (alabel, assertion, l)" by (metis prod_cases3)
  obtain resources r where a: "foldl (check_all digest claim generation profile label manifests rindex legacy) s ls = (resources, r)"
    by fastforce
  obtain resources' r' where "check_all digest claim generation profile label manifests rindex legacy (resources, r) x
      = (resources', r')" by fastforce
  then have "dom (rc_outcomes resources') \<subseteq> dom (rc_outcomes resources) \<union> set (external_urls [l])"
    by (simp add: x check_all_def check_located_dom)
  then have "dom (rc_outcomes resources') \<subseteq> dom (rc_outcomes (fst s)) \<union> set (external_urls (map (\<lambda>(_, _, l). l) ls)) \<union> set (external_urls [l])"
    using snoc.IH by (auto simp: a)
  then show ?case
    using \<open>check_all _ _ _ _ _ _ _ _ (resources, r) x = _\<close> by (simp add: a x Un_assoc)
qed (simp add: external_urls_def List.map_filter_simps)

text \<open>
  C27: Discovery and validation agree. Unless the legacy exemption meets a redaction, locating the external references and
  validating the references examine the same number of references and are truncated together; neither exceeds
  the budget, truncation means that it is spent; and validation asks for no resource that discovery did not list.
\<close>

theorem reference_discovery_agrees:
  assumes "verify_assertion_references digest claim refs generation profile label manifests budget resources results
      = (w, resources', results')"
    and "locate_external_references refs generation profile budget = (urls, w')"
    and "generation = ClaimV1 \<and> is_generous profile \<longrightarrow> (\<forall>index. cr_redactions refs = Some index \<longrightarrow> redactions_empty index)"
    and "budget \<le> usize_max"
  shows "w' = w \<and> rw_examined w \<le> budget \<and> (rw_truncated w \<longrightarrow> rw_examined w = budget)
    \<and> dom (rc_outcomes resources') \<subseteq> dom (rc_outcomes resources) \<union> set urls"
proof (cases "generation = ClaimV1 \<and> is_generous profile")
  case True
  then show ?thesis using assms
    by (auto simp: verify_assertion_references_def locate_external_references_def split: option.splits if_splits)
next
  case False
  obtain ls v where l: "located_all refs profile budget (cr_references refs) [] 0 = (ls, v)" by fastforce
  have "walk_references digest claim refs generation profile label manifests budget False (cr_references refs) [] 0 resources results
      = (w, resources', results')"
    using assms(1) False by (simp add: verify_assertion_references_def Let_def split: if_splits)
  then have w: "v = w" and run: "foldl (check_all digest claim generation profile label manifests (cr_redactions refs) False)
      (resources, results) ls = (resources', results')"
    unfolding walk_references_collect by (simp_all add: l split: prod.splits)
  have "locate_externals refs profile budget (cr_references refs) [] 0 [] = (external_urls (map (\<lambda>(_, _, l). l) ls), w)"
    using locate_externals_collect [OF assms(4), of 0 refs profile "cr_references refs" "[]" "[]"] by (simp add: l w)
  then have "urls = external_urls (map (\<lambda>(_, _, l). l) ls)" "w' = w"
    using assms(2) False by (auto simp: locate_external_references_def split: if_splits)
  moreover have "rw_examined w \<le> budget \<and> (rw_truncated w \<longrightarrow> rw_examined w = budget)"
    using located_all_budget [OF _ l] w by blast
  ultimately show ?thesis
    using foldl_check_dom [of digest claim generation profile label manifests "cr_redactions refs" False "(resources, results)" ls] run
    by auto
qed

theorem reference_discovery_agrees_witness:
  "locate_external_references linked_refs ClaimV2 GENEROUS 1 = ([''https://h''], \<lparr>rw_examined = 1, rw_truncated = False\<rparr>)
   \<and> dom [''https://h'' \<mapsto> Retrieved [7, 8] None] \<subseteq> dom (rc_outcomes linked_resources) \<union> set [''https://h'']"
proof -
  obtain w resources results where r: "verify_assertion_references (\<lambda>_ bs. bs) Null linked_refs ClaimV2 GENEROUS ''m'' [] 1
      linked_resources results_default = (w, resources, results)" by (rule prod_cases3)
  then have res: "rc_outcomes resources = [''https://h'' \<mapsto> Retrieved [7, 8] None]" using linked_walk by (simp add: linked_result_def)
  have d: "locate_external_references linked_refs ClaimV2 GENEROUS 1 = ([''https://h''], \<lparr>rw_examined = 1, rw_truncated = False\<rparr>)"
    by (simp add: locate_external_references_def linked_refs_def incomplete_refs_def indexed_of_def is_redacted_def linked_values
          linked_locate [unfolded INGREDIENT_V2_def] INGREDIENT_V2_def external_urls_single saturating_add_def usize_max_def Let_def
          del: locate_fields.simps)
  from reference_discovery_agrees [OF r d] d show ?thesis unfolding res by (simp add: usize_max_def)
qed

text \<open>
  Where the two differ: for a version 1 claim under the generous profile discovery examines nothing, but validation walks
  the references, and charges them, as soon as some claim of the lineage redacts anything.
\<close>

lemma legacy_walk_uncounted:
  assumes "is_generous profile" and "cr_redactions refs = Some index" and "\<not> redactions_empty index"
  shows "locate_external_references refs ClaimV1 profile budget = ([], \<lparr>rw_examined = 0, rw_truncated = False\<rparr>)"
    and "fst (verify_assertion_references digest claim refs ClaimV1 profile label manifests budget resources results)
      = snd (located_all refs profile budget (cr_references refs) [] 0)"
  using assms by (auto simp: locate_external_references_def verify_assertion_references_def walk_references_collect
      split: prod.split)

end
