(* ===== verification/Ingredient_Links.thy ===== *)
theory Ingredient_Links
  imports Reference_Walk
begin

text \<open>
  The hashed links from an ingredient assertion to the ingredient's manifest, \<^verbatim>\<open>c2pa-validate/lib.rs\<close>: the digests of the
  manifests of a store (\<open>ManifestDigests\<close>, \<open>manifest_hashes\<close>), the digest cache, and \<open>verify_ingredient_references\<close> with
  its two validation methods.
\<close>

section \<open>Digests of the manifests of a store\<close>

record manifest_digests =
  md_expanded_sha256 :: bytes
  md_stored :: "(content_hash_algorithm \<Rightarrow> bytes) option"

definition digests_match ::
    "manifest_digests \<Rightarrow> engine_profile \<Rightarrow> content_hash_algorithm \<Rightarrow> bytes \<Rightarrow> bytes \<Rightarrow> bool" where
  "digests_match d profile a expanded expected \<longleftrightarrow>
     (case md_stored d of
        Some stored \<Rightarrow>
          if ep_version profile = V2_5 then stored a = expected else expanded = expected \<or> stored a = expected
      | None \<Rightarrow> expanded = expected)"

record store_context =
  cx_manifests :: "parsed_manifest list"
  cx_hashes :: "string \<rightharpoonup> manifest_digests"

fun hash_manifests ::
    "digest \<Rightarrow> expanded_store \<Rightarrow> nat \<Rightarrow> (bytes \<times> parsed_manifest) list \<Rightarrow> (string \<rightharpoonup> manifest_digests)
      \<Rightarrow> jumbf_error + (string \<rightharpoonup> manifest_digests)" where
  "hash_manifests digest store index [] hashes = Inr hashes"
| "hash_manifests digest store index ((manifest_box, manifest) # rest) hashes =
     res_bind (superbox_content manifest_box) (\<lambda>expanded.
       hash_manifests digest store (index + 1) rest (hashes(pm_name manifest \<mapsto>
         \<lparr>md_expanded_sha256 = digest Sha256 expanded,
          md_stored = map_option (\<lambda>stored a. digest a stored) (stored_content store index)\<rparr>)))"

definition manifest_hashes :: "digest \<Rightarrow> expanded_store \<Rightarrow> parsed_manifest list \<Rightarrow> jumbf_error + (string \<rightharpoonup> manifest_digests)" where
  "manifest_hashes digest store manifests =
     res_bind (manifest_superboxes_from_store (es_bytes store)) (\<lambda>boxes.
       hash_manifests digest store 0 (zip boxes manifests) Map.empty)"

section \<open>The digest cache\<close>

record digest_cache =
  dc_store :: store_context
  dc_profile :: engine_profile
  dc_digests :: "((string \<times> content_hash_algorithm) \<times> bytes) list"

definition digest_cache_new :: "store_context \<Rightarrow> engine_profile \<Rightarrow> digest_cache" where
  "digest_cache_new store profile = \<lparr>dc_store = store, dc_profile = profile, dc_digests = []\<rparr>"

definition hashes_match ::
    "digest_cache \<Rightarrow> parsed_manifest \<Rightarrow> content_hash_algorithm \<Rightarrow> (manifest_digests \<Rightarrow> bytes) \<Rightarrow> bytes \<Rightarrow> bool" where
  "hashes_match c manifest a expanded expected =
     (case cx_hashes (dc_store c) (pm_name manifest) of
        Some d \<Rightarrow> digests_match d (dc_profile c) a (expanded d) expected
      | None \<Rightarrow> False)"

definition cached_digest ::
    "digest \<Rightarrow> digest_cache \<Rightarrow> parsed_manifest \<Rightarrow> content_hash_algorithm \<Rightarrow> bytes \<times> digest_cache" where
  "cached_digest digest c manifest a =
     (case map_of (dc_digests c) (pm_name manifest, a) of
        Some d \<Rightarrow> (d, c)
      | None \<Rightarrow>
          let d = digest a (manifest_jumbf manifest)
          in (d, c\<lparr>dc_digests := ((pm_name manifest, a), d) # dc_digests c\<rparr>))"

definition cache_matches ::
    "digest \<Rightarrow> digest_cache \<Rightarrow> parsed_manifest \<Rightarrow> content_hash_algorithm \<Rightarrow> bytes \<Rightarrow> bool \<times> digest_cache" where
  "cache_matches digest c manifest a expected =
     (if a = Sha256 then (hashes_match c manifest Sha256 md_expanded_sha256 expected, c)
      else let (d, c) = cached_digest digest c manifest a
           in (hashes_match c manifest a (\<lambda>_. d) expected, c))"

section \<open>Status codes\<close>

definition INGREDIENT_MANIFEST_MISSING :: string where "INGREDIENT_MANIFEST_MISSING = ''ingredient.manifest.missing''"
definition INGREDIENT_MANIFEST_VALIDATED :: string where "INGREDIENT_MANIFEST_VALIDATED = ''ingredient.manifest.validated''"
definition INGREDIENT_MANIFEST_MISMATCH :: string where "INGREDIENT_MANIFEST_MISMATCH = ''ingredient.manifest.mismatch''"
definition INGREDIENT_CLAIM_SIGNATURE_VALIDATED :: string where
  "INGREDIENT_CLAIM_SIGNATURE_VALIDATED = ''ingredient.claimSignature.validated''"
definition INGREDIENT_CLAIM_SIGNATURE_MISSING :: string where
  "INGREDIENT_CLAIM_SIGNATURE_MISSING = ''ingredient.claimSignature.missing''"
definition INGREDIENT_CLAIM_SIGNATURE_MISMATCH :: string where
  "INGREDIENT_CLAIM_SIGNATURE_MISMATCH = ''ingredient.claimSignature.mismatch''"
definition INGREDIENT_UNKNOWN_PROVENANCE :: string where "INGREDIENT_UNKNOWN_PROVENANCE = ''ingredient.unknownProvenance''"
definition INGREDIENT_LEGACY_CLAIM_HASH :: string where
  "INGREDIENT_LEGACY_CLAIM_HASH = ''com.encypher.ingredient.legacyClaimHash''"

section \<open>Links\<close>

definition url_or :: "cbor_value \<Rightarrow> string \<Rightarrow> string" where
  "url_or v fallback = (case text_field v ''url'' of Some url \<Rightarrow> url | None \<Rightarrow> fallback)"

definition find_manifest :: "parsed_manifest list \<Rightarrow> string \<Rightarrow> parsed_manifest option" where
  "find_manifest manifests label = find (\<lambda>m. pm_name m = label) manifests"

text \<open>The full-manifest method.\<close>

definition verify_ingredient_manifest_reference ::
    "digest \<Rightarrow> cbor_value \<Rightarrow> cbor_value \<Rightarrow> cbor_value \<Rightarrow> digest_cache \<Rightarrow> string \<Rightarrow> bool \<Rightarrow> validation_results
      \<Rightarrow> digest_cache \<times> validation_results" where
  "verify_ingredient_manifest_reference digest reference ingredient claim c fallback accept_legacy results =
     (let url = url_or reference fallback
      in case ingredient_manifest_label url None of
           None \<Rightarrow> (c, push_failure INGREDIENT_MANIFEST_MISSING url
                      ''ingredient activeManifest does not resolve to a manifest'' results)
         | Some label \<Rightarrow>
      case find_manifest (cx_manifests (dc_store c)) label of
           None \<Rightarrow> (c, push_failure INGREDIENT_MANIFEST_MISSING url
                      (''ingredient references manifest '' @ quoted label @ '' not in store'') results)
         | Some actual \<Rightarrow>
      case resolved_hash_algorithm [reference, ingredient, claim] of
           None \<Rightarrow> (c, push_failure ALGORITHM_UNSUPPORTED url ''ingredient manifest reference has no hash algorithm'' results)
         | Some algorithm \<Rightarrow>
      case content_hash_algorithm_of algorithm of
           None \<Rightarrow> (c, push_failure ALGORITHM_UNSUPPORTED url
                      (''ingredient manifest uses unsupported hash algorithm '' @ quoted algorithm) results)
         | Some a \<Rightarrow>
      let expected = hash_field reference;
          (matched, c) = (case expected of Some e \<Rightarrow> cache_matches digest c actual a e | None \<Rightarrow> (False, c))
      in (c, if matched
             then push_success INGREDIENT_MANIFEST_VALIDATED url ''ingredient manifest hash matched'' results
             else if accept_legacy
                     \<and> (case Option.bind (claim_cbor actual) (hash_bytes digest algorithm) of
                          Some d \<Rightarrow> expected = Some d | None \<Rightarrow> False)
             then push_informational INGREDIENT_LEGACY_CLAIM_HASH url
                    ''ingredient link matches the C2PA 1.0 claim hash, not the manifest-box hash'' results
             else push_failure INGREDIENT_MANIFEST_MISMATCH url ''ingredient manifest hash mismatch'' results))"

text \<open>The claim-signature method, for manifests some claim redacts.\<close>

definition verify_ingredient_signature_reference ::
    "digest \<Rightarrow> cbor_value \<Rightarrow> cbor_value \<Rightarrow> cbor_value \<Rightarrow> store_context \<Rightarrow> string \<Rightarrow> validation_results \<Rightarrow> validation_results" where
  "verify_ingredient_signature_reference digest reference ingredient claim store fallback results =
     (let url = url_or reference fallback
      in case ingredient_manifest_label url (Some ''/c2pa.signature'') of
           None \<Rightarrow> push_failure INGREDIENT_CLAIM_SIGNATURE_MISSING url
                     ''ingredient claimSignature does not resolve to a claim-signature box'' results
         | Some label \<Rightarrow>
      case Option.bind (find_manifest (cx_manifests store) label) signature_cose of
           None \<Rightarrow> push_failure INGREDIENT_CLAIM_SIGNATURE_MISSING url
                     (''ingredient references missing claim signature in manifest '' @ quoted label) results
         | Some actual \<Rightarrow>
      case resolved_hash_algorithm [reference, ingredient, claim] of
           None \<Rightarrow> push_failure ALGORITHM_UNSUPPORTED url
                     ''ingredient claim signature reference has no hash algorithm'' results
         | Some algorithm \<Rightarrow>
      case hash_claim_signature_box digest algorithm actual of
           None \<Rightarrow> push_failure ALGORITHM_UNSUPPORTED url
                     (''ingredient claim signature uses unsupported hash algorithm '' @ quoted algorithm) results
         | Some d \<Rightarrow>
      if hash_field reference = Some d
      then push_success INGREDIENT_CLAIM_SIGNATURE_VALIDATED url ''ingredient claim signature hash matched'' results
      else push_failure INGREDIENT_CLAIM_SIGNATURE_MISMATCH url ''ingredient claim signature hash mismatch'' results)"

definition claim_signature_uri_is_local :: "string \<Rightarrow> string \<Rightarrow> bool" where
  "claim_signature_uri_is_local uri manifest_label \<longleftrightarrow>
     uri = ''self#jumbf=c2pa.signature''
     \<or> (case Option.bind (strip_prefix ''self#jumbf=/c2pa/'' uri) (strip_suffix ''/c2pa.signature'') of
          Some target \<Rightarrow> target = manifest_label \<and> CHR ''/'' \<notin> set target
        | None \<Rightarrow> False)"

text \<open>The signature link of a redacted ingredient.\<close>

definition verify_redacted_ingredient ::
    "digest \<Rightarrow> cbor_value \<Rightarrow> cbor_value \<Rightarrow> cbor_value \<Rightarrow> digest_cache \<Rightarrow> string \<Rightarrow> validation_results \<Rightarrow> validation_results" where
  "verify_redacted_ingredient digest manifest_reference ingredient claim c sig_url results =
     (case get_field ingredient ''claimSignature'' of
        None \<Rightarrow> push_failure INGREDIENT_CLAIM_SIGNATURE_MISSING sig_url ''redacted ingredient is missing claimSignature'' results
      | Some claim_signature \<Rightarrow>
          let target = Option.bind (text_field manifest_reference ''url'') (\<lambda>url. ingredient_manifest_label url None);
              signature_target = Option.bind (text_field claim_signature ''url'')
                (\<lambda>url. ingredient_manifest_label url (Some ''/c2pa.signature''))
          in if signature_target \<noteq> None \<and> signature_target \<noteq> target
             then push_failure INGREDIENT_CLAIM_SIGNATURE_MISMATCH sig_url
                    ''claimSignature names a different ingredient manifest'' results
             else verify_ingredient_signature_reference digest claim_signature ingredient claim (dc_store c) sig_url results)"

definition names_redacted_manifest :: "redaction_index option \<Rightarrow> cbor_value \<Rightarrow> bool" where
  "names_redacted_manifest rindex manifest_reference \<longleftrightarrow>
     (case Option.bind (text_field manifest_reference ''url'') (\<lambda>url. ingredient_manifest_label url None) of
        None \<Rightarrow> False
      | Some target \<Rightarrow> (case rindex of Some index \<Rightarrow> names_manifest index target | None \<Rightarrow> False))"

text \<open>\<open>Option::or\<close>\<close>

definition opt_or :: "'a option \<Rightarrow> 'a option \<Rightarrow> 'a option" where
  "opt_or a b = (case a of Some x \<Rightarrow> Some x | None \<Rightarrow> b)"

text \<open>One turn of the loop over the references.\<close>

definition link_reference ::
    "digest \<Rightarrow> string \<Rightarrow> claim_refs \<Rightarrow> cbor_value \<Rightarrow> string \<Rightarrow> engine_profile \<Rightarrow> digest_cache \<times> validation_results
      \<Rightarrow> claim_reference \<Rightarrow> digest_cache \<times> validation_results" where
  "link_reference digest manifest_label refs claim sig_url profile = (\<lambda>(c, results) r.
     case rf_label r of
       None \<Rightarrow> (c, results)
     | Some alabel \<Rightarrow>
         if \<not> prefix ''c2pa.ingredient'' alabel then (c, results)
         else case Option.bind (indexed_of refs alabel) ia_decoded of
           None \<Rightarrow> (c, results)
         | Some ingredient \<Rightarrow>
             (case opt_or (get_field ingredient ''activeManifest'') (get_field ingredient ''c2pa_manifest'') of
                None \<Rightarrow>
                  (c, if \<not> applies_2_5 profile \<and> text_field ingredient ''relationship'' \<noteq> Some ''inputTo''
                      then push_informational INGREDIENT_UNKNOWN_PROVENANCE (assertion_url manifest_label alabel)
                             (''ingredient '' @ quoted alabel @ '' has no C2PA manifest'') results
                      else results)
              | Some manifest_reference \<Rightarrow>
                  let accept_legacy = (get_field ingredient ''activeManifest'' = None \<and> is_generous profile)
                  in if names_redacted_manifest (cr_redactions refs) manifest_reference
                     then (c, verify_redacted_ingredient digest manifest_reference ingredient claim c sig_url results)
                     else verify_ingredient_manifest_reference digest manifest_reference ingredient claim c sig_url
                            accept_legacy results))"

definition verify_ingredient_references ::
    "digest \<Rightarrow> string \<Rightarrow> claim_refs \<Rightarrow> cbor_value \<Rightarrow> digest_cache \<Rightarrow> string \<Rightarrow> engine_profile \<Rightarrow> validation_results
      \<Rightarrow> digest_cache \<times> validation_results" where
  "verify_ingredient_references digest manifest_label refs claim c sig_url profile results =
     foldl (link_reference digest manifest_label refs claim sig_url profile) (c, results) (cr_references refs)"

section \<open>Identity references\<close>

definition is_cawg_assertion_instance :: "string \<Rightarrow> string \<Rightarrow> bool" where
  "is_cawg_assertion_instance label base \<longleftrightarrow>
     label = base
     \<or> (case Option.bind (strip_prefix base label) (strip_prefix ''__'') of
          Some i \<Rightarrow> i \<noteq> [] \<and> hd i \<noteq> CHR ''0'' \<and> list_all is_ascii_digit i
        | None \<Rightarrow> False)"

definition identity_references :: "claim_refs \<Rightarrow> string \<Rightarrow> cbor_value list" where
  "identity_references refs label =
     (if \<not> is_cawg_assertion_instance label ''cawg.identity'' then []
      else case Option.bind (indexed_of refs label) (\<lambda>i.
                Option.bind (ia_decoded i) (\<lambda>v.
                Option.bind (get_field v ''signer_payload'') (\<lambda>p. get_field p ''referenced_assertions''))) of
             Some (Array rs) \<Rightarrow> rs
           | _ \<Rightarrow> [])"

definition verify_redacted_identity_references :: "claim_refs \<Rightarrow> validation_results \<Rightarrow> validation_results" where
  "verify_redacted_identity_references refs results =
     foldl (\<lambda>results reference.
         case redacted_reference_target reference (cr_manifest refs) (cr_redactions refs) of
           Some target \<Rightarrow> push_failure HASHED_URI_MISSING (rt_url target)
                            ''CAWG referenced_assertions names a redacted assertion'' results
         | None \<Rightarrow> results)
       results (concat (map (identity_references refs) (cr_declaration_labels refs)))"

end
