(* ===== verification/Lineage.thy ===== *)
theory Lineage
  imports Ingredient_Links
begin

text \<open>
  The lineage of a manifest: the ingredient edges of one claim and the bounded breadth-first discovery of all redactions,
  \<open>edges\<close> and \<open>redaction_index\<close> of \<^verbatim>\<open>c2pa-validate/ingredient_graph.rs\<close>. A hash set is a list in insertion order here; no
  result below depends on the order.
\<close>

section \<open>Time-stamp manifests\<close>

definition INGREDIENT_LABELS :: "string set" where
  "INGREDIENT_LABELS = {''c2pa.ingredient'', ''c2pa.ingredient.v2'', ''c2pa.ingredient.v3''}"

definition first_part :: "string \<Rightarrow> string" where
  "first_part label = (case split_once_str ''__'' label of Some (base, _) \<Rightarrow> base | None \<Rightarrow> label)"

fun time_stamp_loop :: "bool \<Rightarrow> string list \<Rightarrow> bool" where
  "time_stamp_loop timestamps [] = timestamps"
| "time_stamp_loop timestamps (label # labels) =
     (let base = first_part label
      in if base = ''c2pa.time-stamp'' then time_stamp_loop True labels
         else if base \<in> INGREDIENT_LABELS then time_stamp_loop timestamps labels
         else False)"

definition is_time_stamp_manifest :: "claim_refs \<Rightarrow> bool" where
  "is_time_stamp_manifest refs = time_stamp_loop False (cr_declaration_labels refs)"

section \<open>Edges\<close>

record edge =
  ed_assertion_uri :: string
  ed_target :: string
  ed_recorded :: "cbor_value option"

text \<open>Only a digest-checked declaration of non-zero content is an edge; the digest slot is filled on the way.\<close>

definition ingredient_edge_is_eligible ::
    "digest \<Rightarrow> parsed_manifest \<Rightarrow> cbor_value \<Rightarrow> claim_generation \<Rightarrow> claim_reference \<Rightarrow> indexed_assertion
      \<Rightarrow> bool \<times> indexed_assertion" where
  "ingredient_edge_is_eligible digest manifest claim generation r i =
     (if rf_field r \<notin> {''assertions'', ''created_assertions'', ''gathered_assertions''}
         \<or> Option.bind (rf_label r) (\<lambda>l. assertion_content_is_zeroed manifest (ascii l)) \<noteq> Some False
      then (False, i)
      else case hash_field (rf_value r) of
        None \<Rightarrow> (False, i)
      | Some expected \<Rightarrow>
          (case resolved_hash_algorithm [rf_value r, claim] of
             None \<Rightarrow> (False, i)
           | Some algorithm \<Rightarrow>
               (case content_hash_algorithm_of algorithm of
                  None \<Rightarrow> (False, i)
                | Some a \<Rightarrow>
                    let i = fill_digest digest algorithm a i
                    in (ia_digests i a = Some expected
                        \<or> generation = ClaimV1 \<and> Option.bind (ia_payload i) (hash_bytes digest algorithm) = Some expected, i))))"

definition edge_target :: "cbor_value \<Rightarrow> string option" where
  "edge_target ingredient =
     Option.bind (opt_or (get_field ingredient ''activeManifest'') (get_field ingredient ''c2pa_manifest'')) (\<lambda>link.
     Option.bind (text_field link ''url'') (\<lambda>url. ingredient_manifest_label url None))"

definition ASSERTION_INGREDIENT_MALFORMED :: string where
  "ASSERTION_INGREDIENT_MALFORMED = ''assertion.ingredient.malformed''"

text \<open>The edge of an eligible, decoded ingredient assertion.\<close>

definition push_edge ::
    "string \<Rightarrow> claim_generation \<Rightarrow> engine_profile \<Rightarrow> string \<Rightarrow> cbor_value \<Rightarrow> edge list \<times> validation_results
      \<Rightarrow> edge list \<times> validation_results" where
  "push_edge manifest_label generation profile label ingredient = (\<lambda>(es, results).
     case edge_target ingredient of
       None \<Rightarrow> (es, results)
     | Some target \<Rightarrow>
         let uri = assertion_url manifest_label label;
             recorded = get_field ingredient ''validationResults'';
             unrecorded = (recorded = None \<and> \<not> is_generous profile \<and> generation = ClaimV2
               \<and> prefix ''c2pa.ingredient.v3'' label \<and> get_field ingredient ''activeManifest'' \<noteq> None)
         in (es @ [\<lparr>ed_assertion_uri = uri, ed_target = target, ed_recorded = recorded\<rparr>],
             if unrecorded
             then push_failure ASSERTION_INGREDIENT_MALFORMED uri
                    (''ingredient '' @ quoted label @ '' links a manifest but records no validationResults'') results
             else results))"

text \<open>One turn of the loop over the references.\<close>

definition edge_step ::
    "digest \<Rightarrow> parsed_manifest \<Rightarrow> cbor_value \<Rightarrow> claim_generation \<Rightarrow> engine_profile
      \<Rightarrow> claim_refs \<times> edge list \<times> validation_results \<Rightarrow> claim_reference \<Rightarrow> claim_refs \<times> edge list \<times> validation_results" where
  "edge_step digest manifest claim generation profile = (\<lambda>(refs, s) r.
     case rf_label r of
       None \<Rightarrow> (refs, s)
     | Some label \<Rightarrow>
         if base_label label \<notin> INGREDIENT_LABELS \<or> is_redacted refs label then (refs, s)
         else case map_of (cr_assertions refs) label of
           None \<Rightarrow> (refs, s)
         | Some i \<Rightarrow>
             let (eligible, i) = ingredient_edge_is_eligible digest manifest claim generation r i;
                 refs = refs\<lparr>cr_assertions := AList.update label i (cr_assertions refs)\<rparr>
             in if \<not> eligible then (refs, s)
                else case ia_decoded i of
                  None \<Rightarrow> (refs, s)
                | Some ingredient \<Rightarrow> (refs, push_edge (pm_name manifest) generation profile label ingredient s))"

definition manifest_edges ::
    "digest \<Rightarrow> parsed_manifest \<Rightarrow> cbor_value \<Rightarrow> claim_refs \<Rightarrow> claim_generation \<Rightarrow> engine_profile \<Rightarrow> validation_results
      \<Rightarrow> claim_refs \<times> edge list \<times> validation_results" where
  "manifest_edges digest manifest claim refs generation profile results =
     foldl (edge_step digest manifest claim generation profile) (refs, [], results) (cr_references refs)"

section \<open>Discovery of the redactions\<close>

text \<open>What one visited manifest contributes: its claim and its sorted edges; nothing when it is to be skipped.\<close>

definition claim_of :: "parsed_manifest \<Rightarrow> cbor_value option" where
  "claim_of manifest = Option.bind (claim_cbor manifest) decode_ok"

definition lineage_edges ::
    "digest \<Rightarrow> (bytes \<Rightarrow> json option) \<Rightarrow> engine_profile \<Rightarrow> parsed_manifest \<Rightarrow> cbor_value \<Rightarrow> edge list" where
  "lineage_edges digest from_slice profile manifest claim =
     (let generation = claim_generation_of manifest claim;
          refs = claim_refs_build from_slice manifest claim generation;
          (_, es, _) = manifest_edges digest manifest claim refs generation profile results_default
      in linorder_class.sort_key ed_target es)"

definition lineage_skips :: "(bytes \<Rightarrow> json option) \<Rightarrow> string \<Rightarrow> parsed_manifest \<Rightarrow> cbor_value \<Rightarrow> bool" where
  "lineage_skips from_slice active_label manifest claim \<longleftrightarrow>
     pm_name manifest \<noteq> active_label
     \<and> is_time_stamp_manifest (claim_refs_build from_slice manifest claim (claim_generation_of manifest claim))"

definition declaration_count :: "cbor_value \<Rightarrow> nat" where
  "declaration_count claim =
     (case redacted_entries claim of Some entries \<Rightarrow> min (length entries) MAX_REDACTED_ASSERTIONS | None \<Rightarrow> 0)"

text \<open>The charges for one manifest, each only after the one before succeeded.\<close>

definition charge_manifest :: "nat \<Rightarrow> parsed_manifest \<Rightarrow> 'r budget \<Rightarrow> bool \<times> 'r budget" where
  "charge_manifest depth manifest g =
     (let (ok, g) = charge_depth depth g
      in if \<not> ok then (False, g)
         else let (ok, g) = charge_node g
              in if \<not> ok then (False, g) else charge_bytes (length (manifest_jumbf manifest)) g)"

lemma find_manifest_Some: "find_manifest manifests label = Some m \<Longrightarrow> m \<in> set manifests \<and> pm_name m = label"
  by (auto simp: find_manifest_def find_Some_iff)

lemma unseen_ne:
  "card (f ` set ms - insert x S) \<noteq> card (f ` set ms - S) \<Longrightarrow> card (f ` set ms - insert x S) < card (f ` set ms - S)"
  using card_mono [of "f ` set ms - S" "f ` set ms - insert x S"] by (fastforce simp: order_le_less)

lemma unseen_less: "find_manifest ms x = Some m \<Longrightarrow> x \<notin> S \<Longrightarrow> card (pm_name ` set ms - insert x S) < card (pm_name ` set ms - S)"
  by (rule psubset_card_mono) (auto dest: find_manifest_Some)

function lineage_loop ::
    "digest \<Rightarrow> (bytes \<Rightarrow> json option) \<Rightarrow> string \<Rightarrow> parsed_manifest list \<Rightarrow> engine_profile
      \<Rightarrow> (string \<times> nat) list \<Rightarrow> string list \<Rightarrow> redaction_index \<Rightarrow> unit budget \<Rightarrow> redaction_index \<times> unit budget" where
  "lineage_loop digest from_slice active_label manifests profile queue seen index g =
     (case queue of
        [] \<Rightarrow> (index, g)
      | (label, depth) # queue \<Rightarrow>
          if label \<in> set seen then lineage_loop digest from_slice active_label manifests profile queue seen index g
          else let seen = label # seen
          in case find_manifest manifests label of
               None \<Rightarrow> lineage_loop digest from_slice active_label manifests profile queue seen index g
             | Some manifest \<Rightarrow>
                 let (ok, g) = charge_manifest depth manifest g
                 in if \<not> ok then (index, g)
                    else case claim_of manifest of
                      None \<Rightarrow> lineage_loop digest from_slice active_label manifests profile queue seen index g
                    | Some claim \<Rightarrow>
                        if lineage_skips from_slice active_label manifest claim
                        then lineage_loop digest from_slice active_label manifests profile queue seen index g
                        else let (ok, g) = charge_references (declaration_count claim) g
                             in if \<not> ok then (index, g)
                                else let index = index_add_claim label claim manifests index;
                                         es = lineage_edges digest from_slice profile manifest claim;
                                         (ok, g) = charge_references (length es) g
                                     in if \<not> ok then (index, g)
                                        else lineage_loop digest from_slice active_label manifests profile
                                               (queue @ map (\<lambda>e. (ed_target e, depth + 1)) es) seen index g)"
  by pat_completeness auto

termination
  by (relation "measures [\<lambda>(_, _, _, manifests, _, _, seen, _). card (pm_name ` set manifests - set seen),
        \<lambda>(_, _, _, _, _, queue, _). length queue]")
     (auto simp: unseen_less intro: unseen_ne)

declare lineage_loop.simps [simp del]

definition lineage_index ::
    "digest \<Rightarrow> (bytes \<Rightarrow> json option) \<Rightarrow> string \<Rightarrow> store_context \<Rightarrow> engine_profile \<Rightarrow> graph_limits \<Rightarrow> validation_results
      \<Rightarrow> redaction_index \<times> validation_results" where
  "lineage_index digest from_slice active_label store profile l results =
     (let (index, g) = lineage_loop digest from_slice active_label (cx_manifests store) profile [(active_label, 0)] []
            redaction_index_default (budget_new l)
      in (index, snd (budget_report active_label g results)))"

end
