(* ===== verification/Lineage_Properties.thy ===== *)
theory Lineage_Properties
  imports Lineage Cbor_Properties
begin

text \<open>
  What the discovery of a lineage computes: the redactions of exactly the claims that digest-checked ingredient edges reach
  from the active manifest, unless a ceiling of the budget is reported.
\<close>

section \<open>The lineage as a reachability relation\<close>

text \<open>The manifest and claim behind a label, when discovery goes on from it.\<close>

definition lineage_node ::
    "(bytes \<Rightarrow> json option) \<Rightarrow> string \<Rightarrow> parsed_manifest list \<Rightarrow> string \<Rightarrow> (parsed_manifest \<times> cbor_value) option" where
  "lineage_node from_slice active manifests label =
     Option.bind (find_manifest manifests label) (\<lambda>m.
     Option.bind (claim_of m) (\<lambda>claim.
       if lineage_skips from_slice active m claim then None else Some (m, claim)))"

inductive lineage_reach ::
    "digest \<Rightarrow> (bytes \<Rightarrow> json option) \<Rightarrow> string \<Rightarrow> parsed_manifest list \<Rightarrow> engine_profile \<Rightarrow> string \<Rightarrow> bool"
  for digest from_slice active manifests profile where
  active: "lineage_reach digest from_slice active manifests profile active"
| edge: "lineage_reach digest from_slice active manifests profile label \<Longrightarrow>
    lineage_node from_slice active manifests label = Some (m, claim) \<Longrightarrow>
    e \<in> set (lineage_edges digest from_slice profile m claim) \<Longrightarrow>
    lineage_reach digest from_slice active manifests profile (ed_target e)"

text \<open>The claims of a set of labels that declare a redaction.\<close>

definition redactors ::
    "(bytes \<Rightarrow> json option) \<Rightarrow> string \<Rightarrow> parsed_manifest list \<Rightarrow> string set \<Rightarrow> string \<Rightarrow> string \<Rightarrow> string set" where
  "redactors from_slice active manifests labels m a =
     {label \<in> labels. \<exists>manifest claim. lineage_node from_slice active manifests label = Some (manifest, claim) \<and> declares label claim m a}"

section \<open>The budget of one manifest\<close>

lemma charges_ok: "charges g ok g' \<Longrightarrow> budget_ok g'"
  by (simp add: charges_def)

lemma charge_manifest_ok:
  assumes "budget_ok g" and "charge_manifest depth m g = (ok, g')"
  shows "budget_ok g' \<and> reported g' = reported g \<and> (\<not> ok \<longrightarrow> (\<exists>c. exhausted g' c \<noteq> None))"
proof -
  obtain ok1 g1 where d: "charge_depth depth g = (ok1, g1)" by fastforce
  obtain ok2 g2 where n: "charge_node g1 = (ok2, g2)" by fastforce
  obtain ok3 g3 where b: "charge_bytes (length (manifest_jumbf m)) g2 = (ok3, g3)" by fastforce
  have 1: "charges g ok1 g1" using charge_depth_ok(1) [OF assms(1) d] .
  then have 2: "charges g1 ok2 g2" by (rule charge_node_ok(1) [OF charges_ok n])
  then have 3: "charges g2 ok3 g3" by (rule charge_bytes_ok(1) [OF charges_ok b])
  from 1 2 3 assms(2) show ?thesis
    by (cases ok1; cases ok2) (auto simp: charge_manifest_def d n b charges_def)
qed

section \<open>The loop\<close>

text \<open>
  The frontier invariant: what was seen contributes to the index, its edges lead to labels seen or waiting, and everything
  seen or waiting is reachable.
\<close>

definition frontier ::
    "digest \<Rightarrow> (bytes \<Rightarrow> json option) \<Rightarrow> string \<Rightarrow> parsed_manifest list \<Rightarrow> engine_profile \<Rightarrow> string set \<Rightarrow> string set \<Rightarrow> redaction_index \<Rightarrow> bool" where
  "frontier digest from_slice active manifests profile waiting seen index \<longleftrightarrow>
     waiting \<union> seen \<subseteq> Collect (lineage_reach digest from_slice active manifests profile) \<and> active \<in> waiting \<union> seen
     \<and> (\<forall>label \<in> seen. \<forall>m claim. lineage_node from_slice active manifests label = Some (m, claim) \<longrightarrow>
          ed_target ` set (lineage_edges digest from_slice profile m claim) \<subseteq> waiting \<union> seen)
     \<and> declarers index = redactors from_slice active manifests seen \<and> index_ok index"

text \<open>What the loop leaves behind.\<close>

definition discovered ::
    "digest \<Rightarrow> (bytes \<Rightarrow> json option) \<Rightarrow> string \<Rightarrow> parsed_manifest list \<Rightarrow> engine_profile \<Rightarrow> redaction_index \<times> 'r budget \<Rightarrow> bool" where
  "discovered digest from_slice active manifests profile = (\<lambda>(index, g).
     \<exists>seen \<subseteq> Collect (lineage_reach digest from_slice active manifests profile).
       declarers index = redactors from_slice active manifests seen \<and> index_ok index
       \<and> ((\<forall>c. exhausted g c = None) \<longrightarrow> seen = Collect (lineage_reach digest from_slice active manifests profile)))"

lemma frontier_done:
  assumes "frontier digest from_slice active manifests profile {} seen index"
  shows "discovered digest from_slice active manifests profile (index, g)"
proof -
  have "lineage_reach digest from_slice active manifests profile label \<Longrightarrow> label \<in> seen" for label
  proof (induction rule: lineage_reach.induct)
    case active
    then show ?case using assms by (simp add: frontier_def)
  next
    case (edge label m claim e)
    then have "ed_target ` set (lineage_edges digest from_slice profile m claim) \<subseteq> {} \<union> seen"
      using assms unfolding frontier_def by blast
    then show ?case using edge.hyps(3) by blast
  qed
  then have "seen = Collect (lineage_reach digest from_slice active manifests profile)" using assms by (auto simp: frontier_def)
  then show ?thesis using assms by (auto simp: frontier_def discovered_def)
qed

lemma frontier_stop:
  "frontier digest from_slice active manifests profile waiting seen index \<Longrightarrow> \<exists>c. exhausted g c \<noteq> None \<Longrightarrow>
     discovered digest from_slice active manifests profile (index, g)"
  by (auto simp: frontier_def discovered_def)

lemma frontier_cong:
  "frontier digest from_slice active manifests profile waiting seen index \<Longrightarrow> waiting \<union> seen = waiting' \<union> seen \<Longrightarrow>
     frontier digest from_slice active manifests profile waiting' seen index"
  by (simp add: frontier_def)

lemma frontier_known:
  "frontier digest from_slice active manifests profile (insert label waiting) seen index \<Longrightarrow> label \<in> seen \<Longrightarrow>
     frontier digest from_slice active manifests profile waiting seen index"
  by (rule frontier_cong [of _ _ _ _ _ "insert label waiting"]) auto

lemma frontier_leaf:
  assumes "frontier digest from_slice active manifests profile (insert label waiting) seen index"
    and "lineage_node from_slice active manifests label = None"
  shows "frontier digest from_slice active manifests profile waiting (insert label seen) index"
proof -
  have "redactors from_slice active manifests (insert label seen) = redactors from_slice active manifests seen"
    using assms(2) by (auto simp: redactors_def fun_eq_iff)
  with assms show ?thesis by (auto simp: frontier_def)
qed

lemma redactors_insert:
  assumes "lineage_node from_slice active manifests label = Some (m, claim)"
    and "declarers index = redactors from_slice active manifests seen"
  shows "declarers (index_add_claim label claim manifests index) = redactors from_slice active manifests (insert label seen)"
  by (intro ext) (auto simp: declarers_add_claim assms(2) redactors_def assms(1))

lemma frontier_node:
  assumes "frontier digest from_slice active manifests profile (insert label waiting) seen index"
    and "lineage_node from_slice active manifests label = Some (m, claim)"
  shows "frontier digest from_slice active manifests profile
      (waiting \<union> ed_target ` set (lineage_edges digest from_slice profile m claim)) (insert label seen)
      (index_add_claim label claim manifests index)"
proof -
  let ?es = "\<lambda>m claim. ed_target ` set (lineage_edges digest from_slice profile m claim)"
  let ?reach = "Collect (lineage_reach digest from_slice active manifests profile)"
  have reach: "insert label waiting \<union> seen \<subseteq> ?reach" and "active \<in> insert label waiting \<union> seen"
    and closed: "\<And>l m' claim'. l \<in> seen \<Longrightarrow> lineage_node from_slice active manifests l = Some (m', claim') \<Longrightarrow>
        ?es m' claim' \<subseteq> insert label waiting \<union> seen"
    and "index_ok index" "declarers index = redactors from_slice active manifests seen"
    using assms(1) unfolding frontier_def by blast+
  have "?es m' claim' \<subseteq> waiting \<union> ?es m claim \<union> insert label seen"
    if "l \<in> insert label seen" "lineage_node from_slice active manifests l = Some (m', claim')" for l m' claim'
  proof (cases "l = label")
    case True
    then show ?thesis using that(2) assms(2) by auto
  next
    case False
    then show ?thesis using closed [of l] that by blast
  qed
  moreover have "?es m claim \<subseteq> ?reach" using reach lineage_reach.edge [OF _ assms(2)] by blast
  ultimately show ?thesis
    using reach \<open>active \<in> _\<close> \<open>index_ok index\<close> redactors_insert [OF assms(2) \<open>declarers index = _\<close>]
    unfolding frontier_def by (auto simp: index_ok_add_claim)
qed

lemma lineage_loop_discovers:
  assumes "frontier digest from_slice active manifests profile (fst ` set queue) (set seen) index" and "budget_ok g"
    and "lineage_loop digest from_slice active manifests profile queue seen index g = (index', g')"
  shows "discovered digest from_slice active manifests profile (index', g') \<and> reported g' = reported g"
  using assms
proof (induction digest from_slice active manifests profile queue seen index g rule: lineage_loop.induct)
  case (1 digest from_slice active manifests profile queue seen index g)
  let ?D = "\<lambda>r. discovered digest from_slice active manifests profile r \<and> reported (snd r) = reported g"
  let ?loop = "lineage_loop digest from_slice active manifests profile"
  show ?case
  proof (cases queue)
    case Nil
    with 1(6,8) show ?thesis by (auto simp: lineage_loop.simps [of _ _ _ _ _ "[]"] intro: frontier_done)
  next
    case (Cons x rest)
    obtain label depth where x: "x = (label, depth)" by fastforce
    note q = Cons [unfolded x] and F = 1(6) [unfolded Cons x, simplified]
    note run = 1(8) [unfolded q lineage_loop.simps [of _ _ _ _ _ "(label, depth) # rest"] Let_def, simplified]
    show ?thesis
    proof (cases "label \<in> set seen")
      case True
      then show ?thesis using 1(1) [OF q refl True frontier_known [OF F True] 1(7)] run by simp
    next
      case new: False
      show ?thesis
      proof (cases "find_manifest manifests label")
        case None
        then have "lineage_node from_slice active manifests label = None" by (simp add: lineage_node_def)
        with 1(2) [OF q refl new refl None _ 1(7)] frontier_leaf [OF F] run new None show ?thesis by simp
      next
        case (Some m)
        obtain ok g1 where c: "charge_manifest depth m g = (ok, g1)" by fastforce
        note ok = charge_manifest_ok [OF 1(7) c]
        show ?thesis
        proof (cases "ok \<and> (\<exists>claim. lineage_node from_slice active manifests label = Some (m, claim))")
          case False
          show ?thesis
          proof (cases ok)
            case True
            then have leaf: "lineage_node from_slice active manifests label = None"
              and skip: "case claim_of m of None \<Rightarrow> True | Some claim \<Rightarrow> lineage_skips from_slice active m claim"
              using False Some by (auto simp: lineage_node_def split: option.splits if_splits bind_splits)
            show ?thesis
            proof (cases "claim_of m")
              case None
              with 1(3) [OF q refl new refl Some refl c [symmetric] _ None] run new Some c True ok frontier_leaf [OF F leaf]
              show ?thesis by simp
            next
              case claim: (Some claim)
              with 1(4) [OF q refl new refl Some refl c [symmetric] _ claim] run new Some c True ok skip frontier_leaf [OF F leaf]
              show ?thesis by simp
            qed
          next
            case False
            then show ?thesis using run new Some c ok frontier_stop [OF F, of g1] by auto
          qed
        next
          case True
          then obtain claim where node: "lineage_node from_slice active manifests label = Some (m, claim)" and "ok" by blast
          then have claim: "claim_of m = Some claim" "\<not> lineage_skips from_slice active m claim"
            using Some by (auto simp: lineage_node_def split: option.splits if_splits bind_splits)
          obtain ok2 g2 where c2: "charge_references (declaration_count claim) g1 = (ok2, g2)" by fastforce
          have g2: "charges g1 ok2 g2" using charge_references_ok(1) [OF _ c2] ok by blast
          let ?es = "lineage_edges digest from_slice profile m claim"
          obtain ok3 g3 where c3: "charge_references (length ?es) g2 = (ok3, g3)" by fastforce
          have g3: "charges g2 ok3 g3" by (rule charge_references_ok(1) [OF charges_ok [OF g2] c3])
          note F' = frontier_node [OF F node]
          show ?thesis
          proof (cases "ok2 \<and> ok3")
            case True
            have "fst ` set (rest @ map (\<lambda>e. (ed_target e, depth + 1)) ?es) = fst ` set rest \<union> ed_target ` set ?es"
              by (simp add: image_Un image_image)
            with 1(5) [OF q refl new refl Some refl c [symmetric] _ claim refl c2 [symmetric] _ refl refl refl c3 [symmetric]]
              F' run new Some c claim c2 c3 True \<open>ok\<close> ok g2 g3
            show ?thesis by (simp add: charges_def)
          next
            case False
            then show ?thesis
              using run new Some c claim c2 c3 \<open>ok\<close> ok g2 g3 frontier_stop [OF F, of g2] frontier_stop [OF F', of g3]
              by (auto simp: charges_def split: if_splits)
          qed
        qed
      qed
    qed
  qed
qed


text \<open>A ceiling that was hit is reported, so no reported ceiling means no ceiling was hit.\<close>

lemma unreported_ceiling:
  assumes "budget_report label g results = (g', results')" and "\<not> reported g c" and "exhausted g c \<noteq> None"
  shows "\<exists>s \<in> set (informational results'). sc_code s = GRAPH_LIMIT_EXCEEDED"
proof (cases "due g results c")
  case True
  have "c \<in> set ALL_CEILINGS" by (cases c) (simp_all add: ALL_CEILINGS_def)
  with True have "ceiling_status label (limits g) c (the (exhausted g c)) \<in> set (informational results')"
    using assms(1) unfolding budget_report_eq by auto
  then show ?thesis by (rule rev_bexI) (simp add: ceiling_status_def)
next
  case False
  then obtain s where "s \<in> set (informational results)" "names_limit (ceiling_str c) s"
    using assms(2,3) by (auto simp: due_def list_ex_iff)
  then show ?thesis using assms(1) unfolding budget_report_eq by (auto simp: names_limit_def)
qed

lemma frontier_start:
  "frontier digest from_slice active manifests profile {active} {} redaction_index_default"
  using index_ok_default
  by (auto simp: frontier_def redactors_def lineage_reach.active declarers_def declarants_def redaction_index_default_def
        fun_eq_iff)

section \<open>Properties\<close>

text \<open>
  C12: Discovery of a lineage records an assertion as redacted only on the declaration of a claim that digest-checked
  ingredient edges reach from the active manifest; unless it reports a ceiling of the budget, it records the declarations
  of every such claim, so an assertion counts as redacted exactly when some reachable claim redacts it.
\<close>

theorem lineage_index_exact:
  assumes "lineage_index digest from_slice active store profile l results = (index, results')"
  defines "declared \<equiv> redactors from_slice active (cx_manifests store)
      (Collect (lineage_reach digest from_slice active (cx_manifests store) profile))"
  shows "declarers index m a \<subseteq> declared m a
    \<and> ((\<exists>s \<in> set (informational results'). sc_code s = GRAPH_LIMIT_EXCEEDED)
       \<or> declarers index m a = declared m a \<and> redaction_contains index m a = (declared m a \<noteq> {}))"
proof -
  let ?loop = "lineage_loop digest from_slice active (cx_manifests store) profile [(active, 0)] [] redaction_index_default (budget_new l)"
  obtain g where run: "?loop = (index, g)" and report: "snd (budget_report active g results) = results'"
    using assms(1) by (auto simp: lineage_index_def split: prod.splits)
  have d: "discovered digest from_slice active (cx_manifests store) profile (index, g)"
    and none: "reported g = (\<lambda>_. False)"
    using lineage_loop_discovers [OF _ budget_new_ok run] frontier_start by (simp_all add: budget_new_def)
  then obtain seen where seen: "seen \<subseteq> Collect (lineage_reach digest from_slice active (cx_manifests store) profile)"
    "declarers index = redactors from_slice active (cx_manifests store) seen" "index_ok index"
    and all: "(\<forall>c. exhausted g c = None) \<Longrightarrow> redactors from_slice active (cx_manifests store) seen = declared"
    by (auto simp: discovered_def declared_def)
  have sub: "declarers index m a \<subseteq> declared m a" using seen by (auto simp: declared_def redactors_def)
  show ?thesis
  proof (cases "\<forall>c. exhausted g c = None")
    case True
    then show ?thesis using sub all seen contains_declarers [OF seen(3)] by simp
  next
    case False
    then obtain c where "exhausted g c \<noteq> None" by blast
    with unreported_ceiling [of active g results _ results' c] report none sub show ?thesis by (metis surj_pair snd_conv)
  qed
qed

text \<open>A claim \<open>a\<close> that redacts the assertion \<open>x\<close> of a manifest \<open>b\<close>.\<close>

definition lineage_claim :: cbor_value where
  "lineage_claim = Map [(Text (ascii ''redacted_assertions''), Array [Text (ascii ''self#jumbf=/c2pa/b/c2pa.assertions/x'')])]"

definition lineage_bytes :: bytes where
  "lineage_bytes = [0xA1, 0x73] @ ascii ''redacted_assertions'' @ [0x81, 0x78, 36] @ ascii ''self#jumbf=/c2pa/b/c2pa.assertions/x''"

definition lineage_manifest :: parsed_manifest where
  "lineage_manifest = \<lparr>pm_label = ascii ''a'', manifest_jumbf = [], assertions = [], assertion_jumbf = [],
     claim_cbor = Some lineage_bytes, signature_cose = None, claim_count = 1, claim_box_label = Some (ascii ''c2pa.claim.v2'')\<rparr>"

lemma lineage_encode: "encode lineage_claim LegacyPipelineBDefinite = Inr lineage_bytes"
  by (simp add: lineage_claim_def lineage_bytes_def encode_eval enc_entry_def ascii_def MT_TEXT_def)

lemma lineage_claim_of: "claim_of lineage_manifest = Some lineage_claim"
proof -
  have "value_wf lineage_claim" "fits_depth MAX_DEPTH lineage_claim" "length lineage_bytes \<le> usize_max"
    "value_nodes lineage_claim = 4"
    by (simp add: lineage_claim_def MAX_DEPTH_def, code_simp) 
      (simp_all add: lineage_claim_def lineage_bytes_def MAX_DEPTH_def usize_max_def ascii_def)
  with item_encode [OF lineage_encode, of "[]" MAX_VALUE_NODES MAX_VALUE_NODES] show ?thesis
    by (simp add: claim_of_def lineage_manifest_def decode_ok_def decode_def decode_bounded_def normalise_id sort_keys_def MAX_VALUE_NODES_def)
qed

lemma lineage_items:
  "items_of lineage_claim ''created_assertions'' = []" "items_of lineage_claim ''gathered_assertions'' = []"
  "generator_icons lineage_claim ClaimV2 = []"
  by code_simp+

lemma lineage_no_edges: "lineage_edges digest from_slice profile lineage_manifest lineage_claim = []"
proof -
  have "claim_generation_of lineage_manifest lineage_claim = ClaimV2" by (simp add: claim_generation_of_def lineage_manifest_def)
  moreover have "cr_references (claim_refs_build from_slice lineage_manifest lineage_claim ClaimV2) = []"
    by (simp add: claim_refs_build_def build_references_def lineage_items build_start_def incomplete_refs_def Let_def)
  ultimately show ?thesis by (simp add: lineage_edges_def manifest_edges_def Let_def)
qed

lemma lineage_redacts:
  "redacted_entries lineage_claim = Some [Text (ascii ''self#jumbf=/c2pa/b/c2pa.assertions/x'')]"
  "claim_targets ''a'' [Text (ascii ''self#jumbf=/c2pa/b/c2pa.assertions/x'')] = [(''b'', ''x'')]"
proof -
  have "entry_url (Text (ascii ''self#jumbf=/c2pa/b/c2pa.assertions/x'')) = Some ''self#jumbf=/c2pa/b/c2pa.assertions/x''"
    "read_entry ''self#jumbf=/c2pa/b/c2pa.assertions/x'' ''a'' = Absolute ''b'' ''x''"
    by code_simp+
  then show "claim_targets ''a'' [Text (ascii ''self#jumbf=/c2pa/b/c2pa.assertions/x'')] = [(''b'', ''x'')]"
    by (simp add: claim_targets_def MAX_REDACTED_ASSERTIONS_def List.map_filter_def)
qed code_simp

definition lineage_store :: store_context where
  "lineage_store = \<lparr>cx_manifests = [lineage_manifest], cx_hashes = Map.empty\<rparr>"

lemma lineage_found: "find_manifest [lineage_manifest] label = (if label = ''a'' then Some lineage_manifest else None)"
proof -
  have "pm_name lineage_manifest = ''a''" by code_simp
  then show ?thesis by (auto simp: find_manifest_def)
qed

lemma lineage_node_found:
  "lineage_node from_slice ''a'' [lineage_manifest] label = (if label = ''a'' then Some (lineage_manifest, lineage_claim) else None)"
proof -
  have "\<not> lineage_skips from_slice ''a'' lineage_manifest lineage_claim"
    using lineage_found [of "''a''"] by (auto simp: lineage_skips_def dest: find_manifest_Some)
  then show ?thesis by (simp add: lineage_node_def lineage_found lineage_claim_of)
qed

theorem lineage_index_exact_witness:
  "declarers (fst (lineage_index (\<lambda>_ bs. bs) (\<lambda>_. None) ''a'' lineage_store GENEROUS graph_limits_DEFAULT results_default)) ''b'' ''x'' = {''a''}"
proof -
  obtain index results' where r: "lineage_index (\<lambda>_ bs. bs) (\<lambda>_. None) ''a'' lineage_store GENEROUS graph_limits_DEFAULT results_default
      = (index, results')" by fastforce
  have skips: "lineage_skips (\<lambda>_. None) ''a'' lineage_manifest lineage_claim = False"
    using lineage_node_found [of "\<lambda>_. None" "''a''"] by (auto simp: lineage_node_def lineage_found lineage_claim_of)
  have "informational results' = []"
    using r
    by (auto simp: lineage_index_def lineage_store_def lineage_loop.simps [of _ _ _ _ _ "_ # _"] lineage_loop.simps [of _ _ _ _ _ "[]"]
          lineage_found lineage_claim_of skips lineage_no_edges charge_manifest_def charge_depth_def charge_node_def charge_bytes_def
          charge_references_def budget_new_def graph_limits_DEFAULT_def lowered_def declaration_count_def lineage_redacts
          MAX_REDACTED_ASSERTIONS_def saturating_add_def usize_max_def budget_report_eq due_def results_default_def
          lineage_manifest_def [THEN arg_cong, of manifest_jumbf] Let_def)
  moreover have "redactors (\<lambda>_. None) ''a'' (cx_manifests lineage_store)
      (Collect (lineage_reach (\<lambda>_ bs. bs) (\<lambda>_. None) ''a'' (cx_manifests lineage_store) GENEROUS)) ''b'' ''x'' = {''a''}"
    by (auto simp: redactors_def lineage_store_def lineage_node_found declares_def lineage_redacts lineage_reach.active split: if_splits)
  ultimately show ?thesis using lineage_index_exact [OF r, of "''b''" "''x''"] unfolding r by simp
qed

end
