(* ===== verification/Cose.thy ===== *)
theory Cose
  imports Versions Content_Hash
begin

text \<open>
  COSE claim signatures: \<^verbatim>\<open>c2pa-crypto/alg.rs\<close>, \<^verbatim>\<open>error.rs\<close> and the structural part of \<^verbatim>\<open>cose.rs\<close>. Parsing an X.509
  certificate and the signature algorithms themselves are third-party code: \<open>verify_signature\<close> is a parameter that
  takes the algorithm, the signed bytes, the signature and the certificate.
\<close>

section \<open>Algorithms and errors\<close>

datatype cose_alg =
    Es256 | Es384 | Es512 | Ps256 | Ps384 | Ps512 | EdDsa | Esp256 | Esp384 | Esp512 | MlDsa44 | MlDsa65 | MlDsa87

definition COSE_ALGS :: "cose_alg list" where
  "COSE_ALGS = [Es256, Es384, Es512, Ps256, Ps384, Ps512, EdDsa, Esp256, Esp384, Esp512, MlDsa44, MlDsa65, MlDsa87]"

fun cose_id :: "cose_alg \<Rightarrow> int" where
  "cose_id Es256 = -7" | "cose_id Es384 = -35" | "cose_id Es512 = -36"
| "cose_id Ps256 = -37" | "cose_id Ps384 = -38" | "cose_id Ps512 = -39"
| "cose_id EdDsa = -8"
| "cose_id Esp256 = -9" | "cose_id Esp384 = -51" | "cose_id Esp512 = -52"
| "cose_id MlDsa44 = -48" | "cose_id MlDsa65 = -49" | "cose_id MlDsa87 = -50"

definition from_cose_id :: "int \<Rightarrow> cose_alg option" where
  "from_cose_id n = find (\<lambda>alg. cose_id alg = n) COSE_ALGS"

fun iana_name :: "cose_alg \<Rightarrow> string" where
  "iana_name Es256 = ''ES256''" | "iana_name Es384 = ''ES384''" | "iana_name Es512 = ''ES512''"
| "iana_name Ps256 = ''PS256''" | "iana_name Ps384 = ''PS384''" | "iana_name Ps512 = ''PS512''"
| "iana_name EdDsa = ''EdDSA''"
| "iana_name Esp256 = ''ESP256''" | "iana_name Esp384 = ''ESP384''" | "iana_name Esp512 = ''ESP512''"
| "iana_name MlDsa44 = ''ML-DSA-44''" | "iana_name MlDsa65 = ''ML-DSA-65''" | "iana_name MlDsa87 = ''ML-DSA-87''"

definition introduced_in_c2pa_2_5 :: "cose_alg \<Rightarrow> bool" where
  "introduced_in_c2pa_2_5 alg \<longleftrightarrow> alg \<in> {Esp256, Esp384, Esp512, MlDsa44, MlDsa65, MlDsa87}"

datatype crypto_error =
    UnsupportedAlg int
  | UnsupportedSignatureAlgorithm string
  | EncodeFailed encode_error
  | DecodeFailed decode_error
  | MalformedCose string
  | PayloadNotDetached
  | CertParse string
  | KeyParse string
  | VerifyFailed string

datatype claim_algorithm_list = List_2_2 | List_2_4 | List_2_5

definition list_permits :: "claim_algorithm_list \<Rightarrow> cose_alg \<Rightarrow> bool" where
  "list_permits l alg = (case l of List_2_5 \<Rightarrow> True | _ \<Rightarrow> \<not> introduced_in_c2pa_2_5 alg)"

definition list_algorithm :: "claim_algorithm_list \<Rightarrow> int \<Rightarrow> crypto_error + cose_alg" where
  "list_algorithm l alg_id =
     (case from_cose_id alg_id of
        Some alg \<Rightarrow> if list_permits l alg then Inr alg else Inl (UnsupportedAlg alg_id)
      | None \<Rightarrow> Inl (UnsupportedAlg alg_id))"

section \<open>The structure of a COSE_Sign1\<close>

definition COSE_SIGN1_TAG :: u64 where "COSE_SIGN1_TAG = 18"
definition COSE_HDR_ALG :: int where "COSE_HDR_ALG = 1"
definition COSE_HDR_X5CHAIN :: int where "COSE_HDR_X5CHAIN = 33"
definition MAX_X5CHAIN_CERTIFICATES :: nat where "MAX_X5CHAIN_CERTIFICATES = 20"
definition MAX_X5CHAIN_CERTIFICATE_BYTES :: nat where "MAX_X5CHAIN_CERTIFICATE_BYTES = 64 * 1024"
definition MAX_X5CHAIN_TOTAL_BYTES :: nat where "MAX_X5CHAIN_TOTAL_BYTES = 512 * 1024"
definition COSE_PROFILE :: profile where "COSE_PROFILE = LegacyPipelineBDefinite"

text \<open>The conversions of the \<open>?\<close> operator.\<close>

definition cose_decode :: "bytes \<Rightarrow> crypto_error + cbor_value" where
  "cose_decode bs = map_err DecodeFailed (decode bs)"

definition cose_encode :: "cbor_value \<Rightarrow> crypto_error + bytes" where
  "cose_encode v = map_err EncodeFailed (encode v COSE_PROFILE)"

definition sig_structure_bytes :: "bytes \<Rightarrow> bytes \<Rightarrow> crypto_error + bytes" where
  "sig_structure_bytes protected_bytes payload =
     cose_encode (Array [Text (ascii ''Signature1''), Bytes protected_bytes, Bytes [], Bytes payload])"

text \<open>The four elements of the array.\<close>

definition cose_array :: "cbor_value \<Rightarrow> crypto_error + cbor_value \<times> cbor_value \<times> cbor_value \<times> cbor_value" where
  "cose_array v =
     (case v of
        Tag t inner \<Rightarrow>
          if t = COSE_SIGN1_TAG
          then case inner of
                 Array [a, b, c, d] \<Rightarrow> Inr (a, b, c, d)
               | _ \<Rightarrow> Inl (MalformedCose ''tag 18 content is not a 4-element array'')
          else Inl (MalformedCose ''not a COSE_Sign1_Tagged (tag 18) structure'')
      | _ \<Rightarrow> Inl (MalformedCose ''not a COSE_Sign1_Tagged (tag 18) structure''))"

definition map_get_int :: "(cbor_value \<times> cbor_value) list \<Rightarrow> int \<Rightarrow> cbor_value option" where
  "map_get_int m key = map_option snd (find (\<lambda>(k, v). k = Integer key) m)"

definition map_get_text :: "(cbor_value \<times> cbor_value) list \<Rightarrow> string \<Rightarrow> cbor_value option" where
  "map_get_text m key = map_option snd (find (\<lambda>(k, v). as_text k = Some (ascii key)) m)"

definition protected_alg_id :: "bytes \<Rightarrow> crypto_error + int" where
  "protected_alg_id protected_bytes =
     res_bind (cose_decode protected_bytes) (\<lambda>v.
       ok_or (case v of
                Map entries \<Rightarrow> (case map_get_int entries COSE_HDR_ALG of Some (Integer n) \<Rightarrow> Some n | _ \<Rightarrow> None)
              | _ \<Rightarrow> None)
         (MalformedCose ''missing algorithm in protected header''))"

definition protected_header :: "cbor_value \<Rightarrow> crypto_error + bytes" where
  "protected_header v = ok_or (as_bytes v) (MalformedCose ''protected header is not a byte string'')"

definition signature_of :: "cbor_value \<Rightarrow> crypto_error + bytes" where
  "signature_of v = ok_or (as_bytes v) (MalformedCose ''signature is not a byte string'')"

type_synonym signature_check = "cose_alg \<Rightarrow> bytes \<Rightarrow> bytes \<Rightarrow> bytes \<Rightarrow> crypto_error + unit"

definition verify_claim_with ::
    "signature_check \<Rightarrow> bytes \<Rightarrow> bytes \<Rightarrow> bytes \<Rightarrow> claim_algorithm_list \<Rightarrow> crypto_error + unit" where
  "verify_claim_with verify_signature cose_sign1 claim cert_der l =
     res_bind (cose_decode cose_sign1) (\<lambda>decoded.
     res_bind (cose_array decoded) (\<lambda>(header, _, payload, sig).
       if payload \<noteq> Null then Inl PayloadNotDetached
       else res_bind (protected_header header) (\<lambda>protected_bytes.
            res_bind (signature_of sig) (\<lambda>signature.
            res_bind (protected_alg_id protected_bytes) (\<lambda>alg_id.
            res_bind (list_algorithm l alg_id) (\<lambda>alg.
            res_bind (sig_structure_bytes protected_bytes claim) (\<lambda>sig_input.
              verify_signature alg sig_input signature cert_der)))))))"

definition verify_claim :: "signature_check \<Rightarrow> bytes \<Rightarrow> bytes \<Rightarrow> bytes \<Rightarrow> crypto_error + unit" where
  "verify_claim verify_signature cose_sign1 claim cert_der =
     verify_claim_with verify_signature cose_sign1 claim cert_der List_2_4"

definition extract_cose_alg :: "bytes \<Rightarrow> crypto_error + cose_alg" where
  "extract_cose_alg cose_sign1 =
     res_bind (cose_decode cose_sign1) (\<lambda>decoded.
     res_bind (cose_array decoded) (\<lambda>(header, _, _, _).
     res_bind (protected_header header) (\<lambda>protected_bytes.
     res_bind (protected_alg_id protected_bytes) (\<lambda>alg_id.
       ok_or (from_cose_id alg_id) (UnsupportedAlg alg_id)))))"

section \<open>The certificate chain\<close>

definition find_x5chain_label ::
    "(cbor_value \<times> cbor_value) list \<Rightarrow> bool \<Rightarrow> crypto_error + cbor_value option" where
  "find_x5chain_label m integer_label =
     (case filter (\<lambda>(k, _). if integer_label then k = Integer COSE_HDR_X5CHAIN else as_text k = Some (ascii ''x5chain'')) m of
        [] \<Rightarrow> Inr None
      | [(_, v)] \<Rightarrow> Inr (Some v)
      | _ \<Rightarrow> Inl (MalformedCose (''duplicate '' @ (if integer_label then ''integer 33'' else ''text'')
               @ '' x5chain entries in one COSE header bucket'')))"

fun as_all_bytes :: "cbor_value list \<Rightarrow> crypto_error + bytes list" where
  "as_all_bytes [] = Inr []"
| "as_all_bytes (v # vs) =
     res_bind (ok_or (as_bytes v) (MalformedCose ''x5chain entries must be byte strings'')) (\<lambda>b.
     res_bind (as_all_bytes vs) (\<lambda>bs. Inr (b # bs)))"

fun check_certificates :: "nat \<Rightarrow> bytes list \<Rightarrow> crypto_error + unit" where
  "check_certificates total_bytes [] = Inr ()"
| "check_certificates total_bytes (c # cs) =
     (if length c > MAX_X5CHAIN_CERTIFICATE_BYTES
      then Inl (MalformedCose (''x5chain certificate exceeds '' @ fmt_nat MAX_X5CHAIN_CERTIFICATE_BYTES @ '' bytes''))
      else res_bind (ok_or (checked_add total_bytes (length c)) (MalformedCose ''x5chain certificate byte count overflow'')) (\<lambda>t.
             if t > MAX_X5CHAIN_TOTAL_BYTES
             then Inl (MalformedCose (''x5chain exceeds '' @ fmt_nat MAX_X5CHAIN_TOTAL_BYTES @ '' total certificate bytes''))
             else check_certificates t cs))"

definition x5chain_certificates :: "cbor_value \<Rightarrow> crypto_error + bytes list" where
  "x5chain_certificates x5 =
     (case x5 of
        Array items \<Rightarrow>
          if length items > MAX_X5CHAIN_CERTIFICATES
          then Inl (MalformedCose (''x5chain has too many certificates ('' @ fmt_nat (length items) @ '' > ''
                 @ fmt_nat MAX_X5CHAIN_CERTIFICATES @ '')''))
          else as_all_bytes items
      | Bytes bs \<Rightarrow> Inr [bs]
      | _ \<Rightarrow> Inl (MalformedCose ''x5chain is neither a byte string nor an array''))"

definition x5chain_to_ders :: "cbor_value \<Rightarrow> crypto_error + bytes list" where
  "x5chain_to_ders x5 =
     res_bind (x5chain_certificates x5) (\<lambda>certificates.
     res_bind (check_certificates 0 certificates) (\<lambda>_. Inr certificates))"

text \<open>One label in both buckets.\<close>

definition select_x5chain ::
    "string \<Rightarrow> cbor_value option \<Rightarrow> cbor_value option \<Rightarrow> crypto_error + cbor_value option" where
  "select_x5chain label_name a b =
     (case (a, b) of
        (Some _, Some _) \<Rightarrow> Inl (MalformedCose (label_name @ '' x5chain appears in both protected and unprotected headers''))
      | (Some v, None) \<Rightarrow> Inr (Some v)
      | (None, Some v) \<Rightarrow> Inr (Some v)
      | (None, None) \<Rightarrow> Inr None)"

text \<open>The protected bucket of \<open>extract_x5chain\<close>; anything but a map has no entries.\<close>

definition protected_bucket :: "cbor_value \<Rightarrow> crypto_error + (cbor_value \<times> cbor_value) list" where
  "protected_bucket v =
     (case as_bytes v of
        Some bs \<Rightarrow> res_bind (cose_decode bs) (\<lambda>d. Inr (case d of Map m \<Rightarrow> m | _ \<Rightarrow> []))
      | None \<Rightarrow> Inr [])"

definition unprotected_bucket :: "cbor_value \<Rightarrow> (cbor_value \<times> cbor_value) list" where
  "unprotected_bucket v = (case v of Map m \<Rightarrow> m | _ \<Rightarrow> [])"

definition choose_x5chain ::
    "(cbor_value \<times> cbor_value) list \<Rightarrow> (cbor_value \<times> cbor_value) list \<Rightarrow> crypto_error + cbor_value option" where
  "choose_x5chain protected unprotected =
     res_bind (find_x5chain_label protected True) (\<lambda>p.
     res_bind (find_x5chain_label unprotected True) (\<lambda>u.
     res_bind (select_x5chain ''integer 33'' p u) (\<lambda>selected.
       if selected \<noteq> None then Inr selected
       else res_bind (find_x5chain_label protected False) (\<lambda>p.
            res_bind (find_x5chain_label unprotected False) (\<lambda>u. select_x5chain ''text'' p u)))))"

definition extract_x5chain :: "bytes \<Rightarrow> crypto_error + bytes list" where
  "extract_x5chain cose_sign1 =
     res_bind (cose_decode cose_sign1) (\<lambda>decoded.
     res_bind (cose_array decoded) (\<lambda>(header, unprotected, _, _).
     res_bind (protected_bucket header) (\<lambda>protected.
     res_bind (choose_x5chain protected (unprotected_bucket unprotected)) (\<lambda>selected.
     res_bind (ok_or selected (MalformedCose ''no x5chain in protected or unprotected header'')) x5chain_to_ders))))"

section \<open>Time-stamp tokens and revocation staples\<close>

text \<open>\<open>ClaimTimestampVersion\<close>\<close>

datatype claim_timestamp_version = TimestampV1 | TimestampV2

text \<open>The entries of \<open>tstTokens\<close>; a malformed entry stays as \<open>None\<close>.\<close>

definition token_entry :: "cbor_value \<Rightarrow> bytes option" where
  "token_entry token = Option.bind (get_field token ''val'') as_bytes"

definition extract_claim_tsa_tokens :: "bytes \<Rightarrow> (claim_timestamp_version \<times> bytes option list) option" where
  "extract_claim_tsa_tokens cose_sign1 =
     (case res_bind (cose_decode cose_sign1) cose_array of
        Inl _ \<Rightarrow> None
      | Inr (_, unprotected, _, _) \<Rightarrow>
          (case unprotected of
             Map m \<Rightarrow>
               map_option (\<lambda>(header, version).
                   (version, case get_field header ''tstTokens'' of Some (Array tokens) \<Rightarrow> map token_entry tokens | _ \<Rightarrow> []))
                 (case map_get_text m ''sigTst2'' of
                    Some header \<Rightarrow> Some (header, TimestampV2)
                  | None \<Rightarrow> map_option (\<lambda>header. (header, TimestampV1)) (map_get_text m ''sigTst''))
           | _ \<Rightarrow> None))"

definition extract_tsa_tokens :: "bytes \<Rightarrow> bytes option list" where
  "extract_tsa_tokens cose_sign1 =
     (case res_bind (cose_decode cose_sign1) cose_array of
        Inr (_, Map m, _, _) \<Rightarrow>
          (case Option.bind (map_get_text m ''sigTst2'') (\<lambda>h. get_field h ''tstTokens'') of
             Some (Array tokens) \<Rightarrow> map token_entry tokens
           | _ \<Rightarrow> [])
      | _ \<Rightarrow> [])"

definition counter_signature_input :: "bytes \<Rightarrow> bytes \<Rightarrow> crypto_error + bytes" where
  "counter_signature_input protected payload =
     cose_encode (Array [Text (ascii ''CounterSignature''), Bytes protected, Bytes [], Bytes payload])"

definition timestamp_input :: "bytes \<Rightarrow> crypto_error + bytes" where
  "timestamp_input cose_sign1 =
     res_bind (cose_decode cose_sign1) (\<lambda>decoded.
     res_bind (cose_array decoded) (\<lambda>(header, _, _, sig).
     res_bind (protected_header header) (\<lambda>protected.
     res_bind (signature_of sig) (\<lambda>signature.
     res_bind (cose_encode (Bytes signature)) (\<lambda>serialized_signature.
       counter_signature_input protected serialized_signature)))))"

definition timestamp_input_v1 :: "bytes \<Rightarrow> bytes \<Rightarrow> crypto_error + bytes" where
  "timestamp_input_v1 cose_sign1 claim =
     res_bind (cose_decode cose_sign1) (\<lambda>decoded.
     res_bind (cose_array decoded) (\<lambda>(header, _, _, _).
     res_bind (protected_header header) (\<lambda>protected.
       counter_signature_input protected claim)))"

text \<open>The flag and the responses in the order they are visited.\<close>

definition visit_ocsp_staples :: "bytes \<Rightarrow> nat \<Rightarrow> bool \<times> bytes list" where
  "visit_ocsp_staples cose_sign1 max_values =
     (case res_bind (cose_decode cose_sign1) cose_array of
        Inr (_, Map m, _, _) \<Rightarrow>
          (case Option.bind (map_get_text m ''rVals'') (\<lambda>r. get_field r ''ocspVals'') of
             Some (Array items) \<Rightarrow>
               if length items > max_values then (False, []) else (True, List.map_filter as_bytes items)
           | _ \<Rightarrow> (True, []))
      | _ \<Rightarrow> (True, []))"

end
