(* ===== verification/Cose_Headers.thy ===== *)
theory Cose_Headers
  imports Cose
begin

text \<open>
  Time-stamp headers and session keys: \<^verbatim>\<open>c2pa-crypto/timestamp.rs\<close> with its DER reader, and \<^verbatim>\<open>c2pa-crypto/session.rs\<close>.
  The signature primitives behind a COSE key are third-party code and a record of functions here.
\<close>

section \<open>The DER reader\<close>

record der_reader =
  der_input :: bytes
  der_offset :: nat

definition der_new :: "bytes \<Rightarrow> der_reader" where
  "der_new input = \<lparr>der_input = input, der_offset = 0\<rparr>"

definition checked_mul :: "nat \<Rightarrow> nat \<Rightarrow> nat option" where
  "checked_mul a b = (if a * b \<le> usize_max then Some (a * b) else None)"

fun der_long_length :: "nat \<Rightarrow> bytes \<Rightarrow> nat option" where
  "der_long_length n [] = Some n"
| "der_long_length n (b # bs) =
     Option.bind (checked_mul n 256) (\<lambda>l.
     Option.bind (checked_add l (unat b)) (\<lambda>l. der_long_length l bs))"

text \<open>The length and the size of the header of a value at the front of \<open>bytes\<close>.\<close>

definition der_header :: "bytes \<Rightarrow> (nat \<times> nat) option" where
  "der_header bs =
     Option.bind (nth_opt bs 1) (\<lambda>first_length.
       if first_length < 0x80 then Some (unat first_length, 2)
       else let count = unat (first_length AND 0x7F)
            in if count = 0 \<or> count > 8 then None
               else Option.bind (slice_get bs 2 (2 + count)) (\<lambda>ls.
                    Option.bind (der_long_length 0 ls) (\<lambda>n. Some (n, 2 + count))))"

definition next_tlv :: "byte \<Rightarrow> der_reader \<Rightarrow> (bytes \<times> der_reader) option" where
  "next_tlv tag r =
     (if der_offset r > length (der_input r) then None
      else let bs = drop (der_offset r) (der_input r)
           in Option.bind (nth_opt bs 0) (\<lambda>t.
              if t \<noteq> tag then None
              else Option.bind (der_header bs) (\<lambda>(len, header).
                   Option.bind (checked_add header len) (\<lambda>e.
                   Option.bind (slice_get bs header e) (\<lambda>content.
                     Some (content, r\<lparr>der_offset := der_offset r + e\<rparr>))))))"

definition der_remaining :: "der_reader \<Rightarrow> bytes" where
  "der_remaining r = drop (der_offset r) (der_input r)"

definition read_tlv :: "bytes \<Rightarrow> byte \<Rightarrow> bytes option" where
  "read_tlv input tag =
     Option.bind (next_tlv tag (der_new input)) (\<lambda>(content, r). if der_remaining r = [] then Some content else None)"

definition granted_timestamp_token :: "bytes \<Rightarrow> bytes option" where
  "granted_timestamp_token response =
     Option.bind (read_tlv response 0x30) (\<lambda>body.
     Option.bind (next_tlv 0x30 (der_new body)) (\<lambda>(status_info, outer).
     Option.bind (next_tlv 0x02 (der_new status_info)) (\<lambda>(stat, _).
       if stat \<noteq> [0] \<and> stat \<noteq> [1] then None
       else let token = der_remaining outer
            in if token = [] then None
               else Option.bind (read_tlv token 0x30) (\<lambda>_. Some token))))"

section \<open>Time-stamp headers\<close>

datatype timestamp_header_version = SigTst | SigTst2

record timestamp_header =
  th_version :: timestamp_header_version
  th_token_der :: bytes
  th_message_imprint_input :: bytes

datatype timestamp_header_defect = ConflictingHeaders | MalformedShape | InvalidTokenCardinality | InvalidTimeStampResponse

fun defect_explanation :: "timestamp_header_defect \<Rightarrow> string" where
  "defect_explanation ConflictingHeaders = ''sigTst and sigTst2 are mutually exclusive; both were present''"
| "defect_explanation MalformedShape = ''timestamp header does not have the closed sigTst/sigTst2 shape''"
| "defect_explanation InvalidTokenCardinality = ''tstTokens does not contain exactly one token''"
| "defect_explanation InvalidTimeStampResponse = ''legacy sigTst response was not a granted RFC 3161 TimeStampResp''"

datatype timestamp_header_evidence = HeaderAbsent | HeaderPresent timestamp_header | HeaderIgnored timestamp_header_defect

datatype header_lookup = NoHeader | OneHeader cbor_value | DuplicateHeader

type_synonym cbor_entries = "(cbor_value \<times> cbor_value) list"

fun lookup_entries :: "string \<Rightarrow> cbor_value option \<Rightarrow> cbor_entries \<Rightarrow> header_lookup" where
  "lookup_entries name found [] = (case found of None \<Rightarrow> NoHeader | Some v \<Rightarrow> OneHeader v)"
| "lookup_entries name found ((k, v) # es) =
     (if as_text k \<noteq> Some (ascii name) then lookup_entries name found es
      else if found \<noteq> None then DuplicateHeader
      else lookup_entries name (Some v) es)"

definition lookup_across_buckets :: "cbor_entries list \<Rightarrow> string \<Rightarrow> header_lookup" where
  "lookup_across_buckets buckets name = lookup_entries name None (concat buckets)"

definition parse_single_token :: "cbor_value \<Rightarrow> timestamp_header_defect + bytes" where
  "parse_single_token header =
     (case header of
        Map [(k, v)] \<Rightarrow>
          if as_text k \<noteq> Some (ascii ''tstTokens'') then Inl MalformedShape
          else (case v of
                  Array [token] \<Rightarrow>
                    (case token of
                       Map [(k, v)] \<Rightarrow>
                         if as_text k \<noteq> Some (ascii ''val'') then Inl MalformedShape
                         else (case v of Bytes bs \<Rightarrow> if bs \<noteq> [] then Inr bs else Inl MalformedShape | _ \<Rightarrow> Inl MalformedShape)
                     | _ \<Rightarrow> Inl MalformedShape)
                | Array _ \<Rightarrow> Inl InvalidTokenCardinality
                | _ \<Rightarrow> Inl MalformedShape)
      | _ \<Rightarrow> Inl MalformedShape)"

text \<open>The header that applies, if the two labels leave exactly one.\<close>

definition select_header ::
    "header_lookup \<Rightarrow> header_lookup \<Rightarrow> timestamp_header_evidence + timestamp_header_version \<times> cbor_value" where
  "select_header sig_tst sig_tst2 =
     (case (sig_tst, sig_tst2) of
        (NoHeader, NoHeader) \<Rightarrow> Inl HeaderAbsent
      | (DuplicateHeader, _) \<Rightarrow> Inl (HeaderIgnored MalformedShape)
      | (_, DuplicateHeader) \<Rightarrow> Inl (HeaderIgnored MalformedShape)
      | (OneHeader _, OneHeader _) \<Rightarrow> Inl (HeaderIgnored ConflictingHeaders)
      | (OneHeader v, NoHeader) \<Rightarrow> Inr (SigTst, v)
      | (NoHeader, OneHeader v) \<Rightarrow> Inr (SigTst2, v))"

text \<open>The token of the selected header.\<close>

definition stored_token :: "timestamp_header_version \<Rightarrow> cbor_value \<Rightarrow> timestamp_header_evidence + bytes" where
  "stored_token version header =
     res_bind (map_err HeaderIgnored (parse_single_token header)) (\<lambda>stored.
       case version of
         SigTst \<Rightarrow> ok_or (granted_timestamp_token stored) (HeaderIgnored InvalidTimeStampResponse)
       | SigTst2 \<Rightarrow> Inr stored)"

definition imprint_input :: "timestamp_header_version \<Rightarrow> bytes \<Rightarrow> bytes \<Rightarrow> bytes \<Rightarrow> crypto_error + bytes" where
  "imprint_input version protected_bytes signature claim =
     (case version of
        SigTst \<Rightarrow> counter_signature_input protected_bytes claim
      | SigTst2 \<Rightarrow> res_bind (cose_encode (Bytes signature)) (counter_signature_input protected_bytes))"

definition map_entries :: "cbor_value \<Rightarrow> cbor_entries" where
  "map_entries v = (case as_map v of Some m \<Rightarrow> m | None \<Rightarrow> [])"

definition parse_timestamp_header :: "bytes \<Rightarrow> bytes \<Rightarrow> crypto_error + timestamp_header_evidence" where
  "parse_timestamp_header cose_sign1 claim =
     res_bind (cose_decode cose_sign1) (\<lambda>decoded.
     res_bind (cose_array decoded) (\<lambda>(header, unprotected, _, sig).
     res_bind (protected_header header) (\<lambda>protected_bytes.
     res_bind (signature_of sig) (\<lambda>signature.
     res_bind (cose_decode protected_bytes) (\<lambda>protected.
       let buckets = [map_entries protected, map_entries unprotected]
       in case select_header (lookup_across_buckets buckets ''sigTst'') (lookup_across_buckets buckets ''sigTst2'') of
            Inl evidence \<Rightarrow> Inr evidence
          | Inr (version, v) \<Rightarrow>
              (case stored_token version v of
                 Inl evidence \<Rightarrow> Inr evidence
               | Inr token \<Rightarrow>
                   res_bind (imprint_input version protected_bytes signature claim) (\<lambda>input.
                     Inr (HeaderPresent \<lparr>th_version = version, th_token_der = token,
                                         th_message_imprint_input = input\<rparr>))))))))"

definition timestamp_assertion_input :: "bytes \<Rightarrow> crypto_error + bytes" where
  "timestamp_assertion_input cose_sign1 =
     res_bind (cose_decode cose_sign1) (\<lambda>decoded.
     res_bind (cose_array decoded) (\<lambda>(_, _, _, sig). signature_of sig))"

section \<open>The protected time of signing\<close>

text \<open>A \<open>NumericDate\<close> as the number that is converted to \<open>f64\<close>, or the bits of the float.\<close>

datatype numeric_date = IatSeconds int | IatFloat u64

text \<open>\<open>seconds.is_finite() && seconds >= 0.0\<close>: the sign bit is clear, or the float is negative zero.\<close>

definition float_non_negative :: "u64 \<Rightarrow> bool" where
  "float_non_negative f \<longleftrightarrow> float_is_finite f \<and> (\<not> bit f 63 \<or> f = push_bit 63 1)"

fun numeric_date_of :: "cbor_value \<Rightarrow> numeric_date option" where
  "numeric_date_of (Integer n) = (if 0 \<le> n then Some (IatSeconds n) else None)"
| "numeric_date_of (Float f) = (if float_non_negative f then Some (IatFloat f) else None)"
| "numeric_date_of _ = None"

fun iat_loop :: "numeric_date option \<Rightarrow> cbor_entries \<Rightarrow> crypto_error + numeric_date option" where
  "iat_loop found [] = Inr found"
| "iat_loop found ((k, v) # es) =
     (if k \<noteq> Integer 6 then iat_loop found es
      else if found \<noteq> None then Inl (MalformedCose ''duplicate protected iat'')
      else case numeric_date_of v of
             Some d \<Rightarrow> iat_loop (Some d) es
           | None \<Rightarrow> Inl (MalformedCose ''invalid protected iat''))"

definition protected_iat :: "bytes \<Rightarrow> crypto_error + numeric_date option" where
  "protected_iat cose_sign1 =
     res_bind (cose_decode cose_sign1) (\<lambda>decoded.
     res_bind (cose_array decoded) (\<lambda>(header, _, _, _).
     res_bind (protected_header header) (\<lambda>protected_bytes.
     res_bind (cose_decode protected_bytes) (\<lambda>protected.
     res_bind (ok_or (as_map protected) (MalformedCose ''protected header is not a map'')) (\<lambda>entries.
       iat_loop None entries)))))"

section \<open>Session keys\<close>

text \<open>The primitives: ECDSA on a curve over a digest, Ed25519, RSASSA-PSS and ML-DSA; the first argument selects the algorithm.\<close>

record key_primitives =
  kp_ecdsa :: "int \<Rightarrow> bytes \<Rightarrow> bytes \<Rightarrow> bytes \<Rightarrow> crypto_error + unit"
  kp_ed25519 :: "bytes \<Rightarrow> bytes \<Rightarrow> bytes \<Rightarrow> crypto_error + unit"
  kp_rsa_key :: "bytes \<Rightarrow> bytes \<Rightarrow> crypto_error + unit"
  kp_rsa_pss :: "cose_alg \<Rightarrow> bytes \<Rightarrow> bytes \<Rightarrow> bytes \<Rightarrow> bytes \<Rightarrow> crypto_error + unit"
  kp_ml_dsa :: "cose_alg \<Rightarrow> bytes \<Rightarrow> bytes \<Rightarrow> bytes \<Rightarrow> crypto_error + unit"

definition integer_values :: "cbor_entries \<Rightarrow> int \<Rightarrow> cbor_value list" where
  "integer_values m label = List.map_filter (\<lambda>(k, v). if k = Integer label then Some v else None) m"

definition optional_integer :: "cbor_entries \<Rightarrow> int \<Rightarrow> string \<Rightarrow> crypto_error + int option" where
  "optional_integer m label name =
     (case integer_values m label of
        [v] \<Rightarrow> (case v of Integer n \<Rightarrow> Inr (Some n) | _ \<Rightarrow> Inl (MalformedCose (name @ '' is not an integer'')))
      | [] \<Rightarrow> Inr None
      | _ \<Rightarrow> Inl (MalformedCose (''duplicate '' @ name)))"

definition required_integer :: "cbor_entries \<Rightarrow> int \<Rightarrow> string \<Rightarrow> crypto_error + int" where
  "required_integer m label name =
     res_bind (optional_integer m label name) (\<lambda>n. ok_or n (MalformedCose (''missing '' @ name)))"

definition optional_unique_bytes :: "cbor_entries \<Rightarrow> int \<Rightarrow> string \<Rightarrow> crypto_error + bytes option" where
  "optional_unique_bytes m label name =
     (case integer_values m label of
        [v] \<Rightarrow> (case v of Bytes bs \<Rightarrow> Inr (Some bs) | _ \<Rightarrow> Inl (MalformedCose (name @ '' is not bytes'')))
      | [] \<Rightarrow> Inr None
      | _ \<Rightarrow> Inl (MalformedCose (''duplicate '' @ name)))"

definition required_bytes :: "cbor_entries \<Rightarrow> int \<Rightarrow> string \<Rightarrow> crypto_error + bytes" where
  "required_bytes m label name =
     res_bind (optional_unique_bytes m label name) (\<lambda>bs.
       case bs of
         Some bs \<Rightarrow> if bs \<noteq> [] then Inr bs else Inl (MalformedCose (name @ '' is empty''))
       | None \<Rightarrow> Inl (MalformedCose (''missing '' @ name)))"

definition ec_point :: "cbor_entries \<Rightarrow> nat \<Rightarrow> crypto_error + bytes" where
  "ec_point key coordinate_length =
     res_bind (required_bytes key (-2) ''COSE_Key x'') (\<lambda>x.
     res_bind (required_bytes key (-3) ''COSE_Key y'') (\<lambda>y.
       if length x \<noteq> coordinate_length \<or> length y \<noteq> coordinate_length
       then Inl (KeyParse ''COSE_Key EC coordinate length does not match curve'')
       else Inr (4 # x @ y)))"

text \<open>A signed number in an error text.\<close>

definition fmt_signed :: "int \<Rightarrow> string" where
  "fmt_signed n = (if n < 0 then ''-'' @ fmt_nat (nat (- n)) else fmt_nat (nat n))"

definition key_verify_ecdsa ::
    "key_primitives \<Rightarrow> int \<Rightarrow> cbor_entries \<Rightarrow> bytes \<Rightarrow> bytes \<Rightarrow> int option \<Rightarrow> crypto_error + unit" where
  "key_verify_ecdsa kp kty key prehash signature required_curve =
     (if kty \<noteq> 2 then Inl (KeyParse ''ECDSA algorithm requires COSE_Key kty 2'')
      else res_bind (required_integer key (-1) ''COSE_Key curve'') (\<lambda>curve.
        if required_curve \<noteq> None \<and> required_curve \<noteq> Some curve
        then Inl (KeyParse ''COSE_Key type or curve does not match algorithm'')
        else if curve = 1 then res_bind (ec_point key 32) (\<lambda>point. kp_ecdsa kp 1 point prehash signature)
        else if curve = 2 then res_bind (ec_point key 48) (\<lambda>point. kp_ecdsa kp 2 point prehash signature)
        else if curve = 3 then res_bind (ec_point key 66) (\<lambda>point. kp_ecdsa kp 3 point prehash signature)
        else Inl (KeyParse (''unsupported COSE_Key EC curve '' @ fmt_signed curve))))"

definition require_key_type_and_curve :: "int \<Rightarrow> cbor_entries \<Rightarrow> int \<Rightarrow> int \<Rightarrow> crypto_error + unit" where
  "require_key_type_and_curve actual_kty key expected_kty expected_curve =
     (if actual_kty \<noteq> expected_kty then Inl (KeyParse ''COSE_Key type or curve does not match algorithm'')
      else res_bind (required_integer key (-1) ''COSE_Key curve'') (\<lambda>curve.
        if curve \<noteq> expected_curve then Inl (KeyParse ''COSE_Key type or curve does not match algorithm'') else Inr ()))"

text \<open>The number of bits of a big-endian modulus.\<close>

fun bit_length :: "nat \<Rightarrow> nat" where
  "bit_length n = (if n = 0 then 0 else Suc (bit_length (n div 2)))"

declare bit_length.simps [simp del]

definition verify_rsa_key ::
    "key_primitives \<Rightarrow> cose_alg \<Rightarrow> int \<Rightarrow> cbor_entries \<Rightarrow> bytes \<Rightarrow> bytes \<Rightarrow> crypto_error + unit" where
  "verify_rsa_key kp alg kty key data signature =
     (if kty \<noteq> 3 then Inl (KeyParse ''RSA algorithm requires kty 3'')
      else res_bind (required_bytes key (-1) ''COSE_Key n'') (\<lambda>modulus.
           res_bind (required_bytes key (-2) ''COSE_Key e'') (\<lambda>exponent.
           res_bind (kp_rsa_key kp modulus exponent) (\<lambda>_.
             if bit_length (be_val modulus) < 2048
             then Inl (KeyParse ''RSA session key modulus is smaller than 2048 bits'')
             else kp_rsa_pss kp alg modulus exponent data signature))))"

definition verify_akp_key ::
    "key_primitives \<Rightarrow> cose_alg \<Rightarrow> int \<Rightarrow> cbor_entries \<Rightarrow> bytes \<Rightarrow> bytes \<Rightarrow> crypto_error + unit" where
  "verify_akp_key kp alg kty key data signature =
     (if kty \<noteq> 7 then Inl (KeyParse ''ML-DSA algorithm requires kty 7 (AKP)'')
      else if integer_values key (-2) \<noteq> [] then Inl (KeyParse ''a public AKP COSE_Key must not carry priv'')
      else res_bind (required_bytes key (-1) ''COSE_Key pub'') (\<lambda>public_key. kp_ml_dsa kp alg public_key data signature))"

definition verify_okp_key :: "key_primitives \<Rightarrow> int \<Rightarrow> cbor_entries \<Rightarrow> bytes \<Rightarrow> bytes \<Rightarrow> crypto_error + unit" where
  "verify_okp_key kp kty key data signature =
     res_bind (require_key_type_and_curve kty key 1 6) (\<lambda>_.
     res_bind (required_bytes key (-2) ''COSE_Key x'') (\<lambda>x.
       if length x \<noteq> 32 then Inl (KeyParse ''Ed25519 x must be 32 bytes'')
       else kp_ed25519 kp x data signature))"

definition verify_key_signature ::
    "digest \<Rightarrow> key_primitives \<Rightarrow> cose_alg \<Rightarrow> cbor_entries \<Rightarrow> bytes \<Rightarrow> bytes \<Rightarrow> crypto_error + unit" where
  "verify_key_signature digest kp alg key data signature =
     res_bind (required_integer key 1 ''COSE_Key kty'') (\<lambda>kty.
       case alg of
         Es256 \<Rightarrow> key_verify_ecdsa kp kty key (digest Sha256 data) signature None
       | Es384 \<Rightarrow> key_verify_ecdsa kp kty key (digest Sha384 data) signature None
       | Es512 \<Rightarrow> key_verify_ecdsa kp kty key (digest Sha512 data) signature None
       | Esp256 \<Rightarrow> key_verify_ecdsa kp kty key (digest Sha256 data) signature (Some 1)
       | Esp384 \<Rightarrow> key_verify_ecdsa kp kty key (digest Sha384 data) signature (Some 2)
       | Esp512 \<Rightarrow> key_verify_ecdsa kp kty key (digest Sha512 data) signature (Some 3)
       | EdDsa \<Rightarrow> verify_okp_key kp kty key data signature
       | Ps256 \<Rightarrow> verify_rsa_key kp alg kty key data signature
       | Ps384 \<Rightarrow> verify_rsa_key kp alg kty key data signature
       | Ps512 \<Rightarrow> verify_rsa_key kp alg kty key data signature
       | _ \<Rightarrow> verify_akp_key kp alg kty key data signature)"

text \<open>Unlike a claim signature, a session signature may come without the tag.\<close>

definition session_array :: "cbor_value \<Rightarrow> crypto_error + cbor_value \<times> cbor_value \<times> cbor_value \<times> cbor_value" where
  "session_array v =
     (case v of
        Tag t inner \<Rightarrow>
          if t = COSE_SIGN1_TAG
          then case inner of
                 Array [a, b, c, d] \<Rightarrow> Inr (a, b, c, d)
               | _ \<Rightarrow> Inl (MalformedCose ''tag 18 content is not a 4-element array'')
          else Inl (MalformedCose ''not a COSE_Sign1 structure'')
      | Array [a, b, c, d] \<Rightarrow> Inr (a, b, c, d)
      | _ \<Rightarrow> Inl (MalformedCose ''not a COSE_Sign1 structure''))"

record verified_cose_key_signature =
  vk_key_id :: "bytes option"
  vk_payload :: bytes
  vk_algorithm :: cose_alg

text \<open>The COSE key, whose algorithm must agree when it is stated.\<close>

definition session_key :: "bytes \<Rightarrow> int \<Rightarrow> crypto_error + cbor_entries" where
  "session_key cose_key alg_id =
     res_bind (cose_decode cose_key) (\<lambda>key_value.
     res_bind (ok_or (as_map key_value) (KeyParse ''COSE_Key is not a map'')) (\<lambda>key.
     res_bind (optional_integer key 3 ''COSE_Key alg'') (\<lambda>key_alg.
       if key_alg \<noteq> None \<and> key_alg \<noteq> Some alg_id
       then Inl (VerifyFailed ''signature algorithm does not match COSE_Key alg'')
       else Inr key)))"

definition verify_with_cose_key_with ::
    "digest \<Rightarrow> key_primitives \<Rightarrow> bytes \<Rightarrow> bytes \<Rightarrow> claim_algorithm_list \<Rightarrow> crypto_error + verified_cose_key_signature" where
  "verify_with_cose_key_with digest kp cose_sign1 cose_key l =
     res_bind (cose_decode cose_sign1) (\<lambda>decoded.
     res_bind (session_array decoded) (\<lambda>(header, unprotected_header, payload_value, sig).
     res_bind (ok_or (as_bytes header) (MalformedCose ''protected header is not bytes'')) (\<lambda>protected_bytes.
     res_bind (cose_decode protected_bytes) (\<lambda>protected_value.
     res_bind (ok_or (as_map protected_value) (MalformedCose ''protected header is not a map'')) (\<lambda>protected.
     res_bind (required_integer protected 1 ''protected alg'') (\<lambda>alg_id.
     res_bind (list_algorithm l alg_id) (\<lambda>alg.
     res_bind (optional_unique_bytes protected 4 ''protected kid'') (\<lambda>kid.
       if kid \<noteq> None then Inl (MalformedCose ''session signature kid must be unprotected'')
       else res_bind (ok_or (as_map unprotected_header) (MalformedCose ''unprotected header is not a map'')) (\<lambda>unprotected.
            res_bind (optional_unique_bytes unprotected 4 ''unprotected kid'') (\<lambda>key_id.
            res_bind (ok_or (as_bytes payload_value) (MalformedCose ''session signature payload is detached'')) (\<lambda>payload.
            res_bind (ok_or (as_bytes sig) (MalformedCose ''signature is not bytes'')) (\<lambda>signature.
            res_bind (session_key cose_key alg_id) (\<lambda>key.
            res_bind (sig_structure_bytes protected_bytes payload) (\<lambda>sig_structure.
            res_bind (verify_key_signature digest kp alg key sig_structure signature) (\<lambda>_.
              Inr \<lparr>vk_key_id = key_id, vk_payload = payload, vk_algorithm = alg\<rparr>)))))))))))))))"

definition cose_key_id :: "bytes \<Rightarrow> crypto_error + bytes" where
  "cose_key_id cose_key =
     res_bind (cose_decode cose_key) (\<lambda>v.
     res_bind (ok_or (as_map v) (KeyParse ''COSE_Key is not a map'')) (\<lambda>m. required_bytes m 2 ''COSE_Key kid''))"

end
