(* ===== verification/Cose_Properties.thy ===== *)
theory Cose_Properties
  imports Cose_Headers Cbor_Properties
begin

text \<open>
  What a COSE signature binds: the structure that is signed determines the protected header and the claim and is never
  one that a time-stamp covers, the certificate chain comes from one header entry and is bounded, and an accepted time-stamp header
  is the only one.
\<close>

section \<open>The signed structures\<close>

lemma decode_legacy:
  assumes "encode v LegacyPipelineBDefinite = Inr bs" and "length bs \<le> usize_max"
    and "value_wf v" and "fits_depth MAX_DEPTH v" and "value_nodes v \<le> MAX_VALUE_NODES"
  shows "decode bs = Inr v"
proof -
  have n: "normalise LegacyPipelineBDefinite v = v" by (simp add: normalise_id sort_keys_def)
  with item_encode [OF assms(1,3,4), of "[]" MAX_VALUE_NODES MAX_VALUE_NODES] assms(2,5) show ?thesis
    by (simp add: decode_def decode_bounded_def)
qed

lemma cose_encode_inject:
  assumes "cose_encode (Array [Text t, Bytes a, Bytes b, Bytes c]) = Inr bs" and "length bs \<le> usize_max"
    and "value_wf (Text t)"
  shows "decode bs = Inr (Array [Text t, Bytes a, Bytes b, Bytes c])"
proof -
  have "fits_depth MAX_DEPTH (Array [Text t, Bytes a, Bytes b, Bytes c])" by (simp add: MAX_DEPTH_def)
  with assms show ?thesis
    by (intro decode_legacy) (simp_all add: cose_encode_def COSE_PROFILE_def map_err_eq_Inr MAX_VALUE_NODES_def)
qed

lemma context_texts: "value_wf (Text (ascii ''Signature1''))" "value_wf (Text (ascii ''CounterSignature''))"
  "ascii ''Signature1'' \<noteq> ascii ''CounterSignature''"
  by code_simp+

lemma sig_structure_inject:
  assumes "sig_structure_bytes p c = Inr bs" and "sig_structure_bytes p' c' = Inr bs" and "length bs \<le> usize_max"
  shows "p' = p \<and> c' = c"
  using cose_encode_inject [OF assms(1) [unfolded sig_structure_bytes_def] assms(3) context_texts(1)]
    cose_encode_inject [OF assms(2) [unfolded sig_structure_bytes_def] assms(3) context_texts(1)] by simp

lemma counter_signature_inject:
  assumes "counter_signature_input p c = Inr bs" and "counter_signature_input p' c' = Inr bs" and "length bs \<le> usize_max"
  shows "p' = p \<and> c' = c"
  using cose_encode_inject [OF assms(1) [unfolded counter_signature_input_def] assms(3) context_texts(2)]
    cose_encode_inject [OF assms(2) [unfolded counter_signature_input_def] assms(3) context_texts(2)] by simp

lemma contexts_differ:
  assumes "sig_structure_bytes p c = Inr bs" and "length bs \<le> usize_max"
  shows "counter_signature_input p' c' \<noteq> Inr bs"
proof
  assume c: "counter_signature_input p' c' = Inr bs"
  from cose_encode_inject [OF assms(1) [unfolded sig_structure_bytes_def] assms(2) context_texts(1)]
    cose_encode_inject [OF c [unfolded counter_signature_input_def] assms(2) context_texts(2)] context_texts(3)
  show False by simp
qed

section \<open>Selection of headers\<close>

lemma cose_array_Inr: "cose_array v = Inr (a, b, c, d) \<longleftrightarrow> v = Tag COSE_SIGN1_TAG (Array [a, b, c, d])"
  by (auto simp: cose_array_def split: cbor_value.splits list.splits if_splits)

lemma as_bytes_Some: "as_bytes v = Some bs \<longleftrightarrow> v = Bytes bs"
  by (cases v) auto

lemma from_cose_id_Some: "from_cose_id n = Some alg \<longleftrightarrow> n = cose_id alg"
proof
  assume "from_cose_id n = Some alg"
  then show "n = cose_id alg" by (auto simp: from_cose_id_def find_Some_iff)
next
  assume "n = cose_id alg"
  then show "from_cose_id n = Some alg" by (cases alg) (simp_all add: from_cose_id_def COSE_ALGS_def)
qed

lemma list_algorithm_Inr: "list_algorithm l n = Inr alg \<longleftrightarrow> n = cose_id alg \<and> list_permits l alg"
proof -
  have "list_algorithm l n = Inr alg \<longleftrightarrow> from_cose_id n = Some alg \<and> list_permits l alg"
    by (auto simp: list_algorithm_def split: option.splits)
  then show ?thesis by (simp add: from_cose_id_Some)
qed

lemma lookup_entries_One:
  "lookup_entries name found es = OneHeader v \<longleftrightarrow>
     (case found of None \<Rightarrow> \<exists>k. filter (\<lambda>(k, _). as_text k = Some (ascii name)) es = [(k, v)]
      | Some w \<Rightarrow> w = v \<and> filter (\<lambda>(k, _). as_text k = Some (ascii name)) es = [])"
  by (induction name found es rule: lookup_entries.induct) (auto split: option.splits)

lemma lookup_entries_None:
  "lookup_entries name found es = NoHeader \<longleftrightarrow> found = None \<and> filter (\<lambda>(k, _). as_text k = Some (ascii name)) es = []"
  by (induction name found es rule: lookup_entries.induct) (auto split: option.splits)

section \<open>Properties\<close>

text \<open>
  C3: An accepted claim signature binds the claim. The COSE structure is detached, the protected header names an
  algorithm of the revision's list, and the primitive accepted the signature over a byte string that no other protected header,
  no other claim and no time-stamp input encodes to.
\<close>

theorem claim_signature_binds:
  assumes "verify_claim_with verify_signature cose claim cert l = Inr ()"
  shows "\<exists>protected unprotected sig alg msg.
      decode cose = Inr (Tag COSE_SIGN1_TAG (Array [Bytes protected, unprotected, Null, Bytes sig]))
      \<and> protected_alg_id protected = Inr (cose_id alg) \<and> list_permits l alg
      \<and> sig_structure_bytes protected claim = Inr msg \<and> verify_signature alg msg sig cert = Inr ()
      \<and> (length msg \<le> usize_max \<longrightarrow>
           (\<forall>p c. sig_structure_bytes p c = Inr msg \<longrightarrow> p = protected \<and> c = claim)
           \<and> (\<forall>p c. counter_signature_input p c \<noteq> Inr msg))"
proof -
  obtain v header unprotected payload sig where v: "decode cose = Inr v" "v = Tag COSE_SIGN1_TAG (Array [header, unprotected, payload, sig])"
    and rest: "payload = Null" "res_bind (protected_header header) (\<lambda>protected. res_bind (signature_of sig) (\<lambda>signature.
        res_bind (protected_alg_id protected) (\<lambda>n. res_bind (list_algorithm l n) (\<lambda>alg.
        res_bind (sig_structure_bytes protected claim) (\<lambda>msg. verify_signature alg msg signature cert))))) = Inr ()"
    using assms by (auto simp: verify_claim_with_def cose_decode_def res_bind_eq_Inr map_err_eq_Inr cose_array_Inr split: if_splits)
  then obtain protected signature alg msg where "header = Bytes protected" "sig = Bytes signature"
    "protected_alg_id protected = Inr (cose_id alg)" "list_permits l alg"
    and s: "sig_structure_bytes protected claim = Inr msg" and "verify_signature alg msg signature cert = Inr ()"
    by (auto simp: res_bind_eq_Inr protected_header_def signature_of_def ok_or_eq_Inr as_bytes_Some list_algorithm_Inr)
  moreover have "length msg \<le> usize_max \<longrightarrow>
           (\<forall>p c. sig_structure_bytes p c = Inr msg \<longrightarrow> p = protected \<and> c = claim)
           \<and> (\<forall>p c. counter_signature_input p c \<noteq> Inr msg)"
    using sig_structure_inject [OF s] contexts_differ [OF s] by blast
  ultimately show ?thesis using v rest(1) by blast
qed

section \<open>The certificate chain\<close>

definition x5_label :: "bool \<Rightarrow> cbor_value \<times> cbor_value \<Rightarrow> bool" where
  "x5_label integer_label = (\<lambda>(k, _). if integer_label then k = Integer COSE_HDR_X5CHAIN else as_text k = Some (ascii ''x5chain''))"

lemma find_x5chain_label_Inr:
  "find_x5chain_label m b = Inr (Some v) \<longleftrightarrow> (\<exists>k. filter (x5_label b) m = [(k, v)])"
  "find_x5chain_label m b = Inr None \<longleftrightarrow> filter (x5_label b) m = []"
  by (auto simp: find_x5chain_label_def x5_label_def split: list.splits)

lemma select_x5chain_Inr:
  "select_x5chain s a b = Inr (Some v) \<longleftrightarrow> a = Some v \<and> b = None \<or> a = None \<and> b = Some v"
  "select_x5chain s a b = Inr None \<longleftrightarrow> a = None \<and> b = None"
  by (auto simp: select_x5chain_def split: option.splits)

lemma choose_x5chain_unique:
  assumes "choose_x5chain p u = Inr (Some v)"
  shows "\<exists>k. filter (x5_label True) (p @ u) = [(k, v)] \<or> filter (x5_label True) (p @ u) = [] \<and> filter (x5_label False) (p @ u) = [(k, v)]"
  using assms
  by (auto simp: choose_x5chain_def res_bind_eq_Inr find_x5chain_label_Inr select_x5chain_Inr split: if_splits)

lemma as_all_bytes_Inr: "as_all_bytes vs = Inr bs \<longleftrightarrow> vs = map Bytes bs"
proof (induction vs arbitrary: bs)
  case (Cons v vs)
  then show ?case by (cases bs) (auto simp: res_bind_eq_Inr ok_or_eq_Inr as_bytes_Some)
qed auto

lemma check_certificates_Inr:
  "check_certificates n cs = Inr () \<Longrightarrow> (\<forall>c \<in> set cs. length c \<le> MAX_X5CHAIN_CERTIFICATE_BYTES)
     \<and> (cs \<noteq> [] \<longrightarrow> n + sum_list (map length cs) \<le> MAX_X5CHAIN_TOTAL_BYTES)"
proof (induction n cs rule: check_certificates.induct)
  case (2 n c cs)
  then show ?case
    by (cases cs) (auto simp: res_bind_eq_Inr ok_or_eq_Inr checked_add_def split: if_splits)
qed simp

text \<open>
  C16: An extracted certificate chain comes from the only header entry with the integer label, or, when there is none in
  either bucket, from the only entry with the text label; it has at most 20 certificates of at most 64 KiB, together at most 512 KiB.
\<close>

theorem x5chain_unique_and_bounded:
  assumes "extract_x5chain cose = Inr certs"
  shows "\<exists>header unprotected payload sig protected k v.
      decode cose = Inr (Tag COSE_SIGN1_TAG (Array [header, unprotected, payload, sig])) \<and> protected_bucket header = Inr protected
      \<and> (let entries = protected @ unprotected_bucket unprotected
         in filter (x5_label True) entries = [(k, v)]
            \<or> filter (x5_label True) entries = [] \<and> filter (x5_label False) entries = [(k, v)])
      \<and> (v = Array (map Bytes certs) \<or> v = Bytes (hd certs) \<and> certs = [hd certs])
      \<and> length certs \<le> MAX_X5CHAIN_CERTIFICATES \<and> (\<forall>c \<in> set certs. length c \<le> MAX_X5CHAIN_CERTIFICATE_BYTES)
      \<and> sum_list (map length certs) \<le> MAX_X5CHAIN_TOTAL_BYTES"
proof -
  obtain header unprotected payload sig protected v where d: "decode cose = Inr (Tag COSE_SIGN1_TAG (Array [header, unprotected, payload, sig]))"
    "protected_bucket header = Inr protected" and c: "choose_x5chain protected (unprotected_bucket unprotected) = Inr (Some v)"
    and ders: "x5chain_to_ders v = Inr certs"
    using assms by (auto simp: extract_x5chain_def cose_decode_def res_bind_eq_Inr map_err_eq_Inr cose_array_Inr ok_or_eq_Inr)
  have "x5chain_certificates v = Inr certs" and check: "check_certificates 0 certs = Inr ()"
    using ders by (auto simp: x5chain_to_ders_def res_bind_eq_Inr)
  then have "(v = Array (map Bytes certs) \<or> v = Bytes (hd certs) \<and> certs = [hd certs]) \<and> length certs \<le> MAX_X5CHAIN_CERTIFICATES"
    by (auto simp: x5chain_certificates_def as_all_bytes_Inr MAX_X5CHAIN_CERTIFICATES_def split: cbor_value.splits if_splits)
  moreover have "sum_list (map length certs) \<le> MAX_X5CHAIN_TOTAL_BYTES"
    using check_certificates_Inr [OF check] by (cases certs) auto
  ultimately show ?thesis
    using d choose_x5chain_unique [OF c] check_certificates_Inr [OF check] by (simp add: Let_def) blast
qed

section \<open>Time-stamp headers\<close>

lemma nth_opt_Some: "nth_opt xs n = Some x \<longleftrightarrow> n < length xs \<and> xs ! n = x"
  by (auto simp: nth_opt_def)

lemma next_tlv_content:
  "next_tlv tag r = Some (content, r') \<Longrightarrow>
     \<exists>h e. content = take (e - h) (drop h (der_remaining r)) \<and> der_input r' = der_input r \<and> der_offset r' = der_offset r + e
       \<and> e \<le> length (der_remaining r)"
  by (auto simp: next_tlv_def der_remaining_def slice_get_def slice_def Option.bind_eq_Some_conv Let_def split: if_splits)
    (metis add_diff_cancel_left')

lemma read_tlv_suffix:
  assumes "read_tlv bs tag = Some content" shows "\<exists>n. content = drop n bs"
proof -
  obtain r where n: "next_tlv tag (der_new bs) = Some (content, r)" and "der_remaining r = []"
    using assms by (auto simp: read_tlv_def Option.bind_eq_Some_conv split: if_splits)
  moreover obtain h e where "content = take (e - h) (drop h bs)" "der_input r = bs" "der_offset r = e" "e \<le> length bs"
    using next_tlv_content [OF n] by (auto simp: der_new_def der_remaining_def)
  ultimately have "content = drop h bs" by (simp add: der_remaining_def)
  then show ?thesis ..
qed

lemma granted_timestamp_token_suffix:
  assumes "granted_timestamp_token response = Some token"
  shows "token \<noteq> [] \<and> (\<exists>n. token = drop n response)"
proof -
  obtain body status_info outer where b: "read_tlv response 0x30 = Some body" and o: "next_tlv 0x30 (der_new body) = Some (status_info, outer)"
    and t: "token = der_remaining outer" "token \<noteq> []"
    using assms by (auto simp: granted_timestamp_token_def Option.bind_eq_Some_conv Let_def split: if_splits)
  have "der_input outer = body" using next_tlv_content [OF o] by (auto simp: der_new_def)
  then have "token = drop (der_offset outer) body" using t by (simp add: der_remaining_def)
  moreover obtain m where "body = drop m response" using read_tlv_suffix [OF b] by blast
  ultimately show ?thesis using t(2) by auto
qed

fun version_label :: "timestamp_header_version \<Rightarrow> string" where
  "version_label SigTst = ''sigTst''"
| "version_label SigTst2 = ''sigTst2''"

definition entries_named :: "string \<Rightarrow> cbor_entries \<Rightarrow> cbor_entries" where
  "entries_named name es = filter (\<lambda>(k, _). as_text k = Some (ascii name)) es"

lemma select_header_eq:
  "select_header a b = Inr (SigTst, v) \<longleftrightarrow> a = OneHeader v \<and> b = NoHeader"
  "select_header a b = Inr (SigTst2, v) \<longleftrightarrow> a = NoHeader \<and> b = OneHeader v"
  by (cases a; cases b; auto simp: select_header_def)+

lemma other_version:
  "(\<forall>other. other \<noteq> SigTst \<longrightarrow> P other) \<longleftrightarrow> P SigTst2" "(\<forall>other. other \<noteq> SigTst2 \<longrightarrow> P other) \<longleftrightarrow> P SigTst"
  by (metis timestamp_header_version.exhaust timestamp_header_version.distinct(1))+

lemma lookup_named:
  "lookup_across_buckets bs name = OneHeader v \<longleftrightarrow> (\<exists>k. entries_named name (concat bs) = [(k, v)])"
  "lookup_across_buckets bs name = NoHeader \<longleftrightarrow> entries_named name (concat bs) = []"
  by (simp_all add: lookup_across_buckets_def lookup_entries_One lookup_entries_None entries_named_def)

lemma select_header_Inr:
  "select_header (lookup_across_buckets bs ''sigTst'') (lookup_across_buckets bs ''sigTst2'') = Inr (version, v) \<longleftrightarrow>
     (\<exists>k. entries_named (version_label version) (concat bs) = [(k, v)])
     \<and> (\<forall>other. other \<noteq> version \<longrightarrow> entries_named (version_label other) (concat bs) = [])"
  by (cases version) (auto simp only: select_header_eq lookup_named other_version version_label.simps)

lemma parse_single_token_Inr:
  "parse_single_token header = Inr bs \<longleftrightarrow>
     bs \<noteq> [] \<and> (\<exists>k k'. header = Map [(k, Array [Map [(k', Bytes bs)]])] \<and> as_text k = Some (ascii ''tstTokens'')
       \<and> as_text k' = Some (ascii ''val''))"
  by (auto simp: parse_single_token_def split: cbor_value.splits list.splits if_splits)

lemma cose_encode_bytes_inject:
  assumes "cose_encode (Bytes a) = Inr bs" and "cose_encode (Bytes b) = Inr bs" and "length bs \<le> usize_max"
  shows "a = b"
proof -
  have d: "decode bs = Inr (Bytes c)" if "cose_encode (Bytes c) = Inr bs" for c
    using that assms(3) decode_legacy [of "Bytes c" bs] by (simp add: cose_encode_def COSE_PROFILE_def map_err_eq_Inr MAX_VALUE_NODES_def)
  from d [OF assms(1)] d [OF assms(2)] show ?thesis by simp
qed

lemma counter_signature_length: "counter_signature_input p c = Inr bs \<Longrightarrow> length c \<le> length bs"
  by (auto simp: counter_signature_input_def cose_encode_def map_err_eq_Inr COSE_PROFILE_def encode_eval write_head_def split: if_splits)

lemma imprint_inject:
  assumes "imprint_input version p s c = Inr bs" and "imprint_input version p' s' c' = Inr bs" and "length bs \<le> usize_max"
  shows "p' = p \<and> (case version of SigTst \<Rightarrow> c' = c | SigTst2 \<Rightarrow> s' = s)"
proof (cases version)
  case SigTst
  then show ?thesis using counter_signature_inject [of p c bs p' c'] assms by (simp add: imprint_input_def)
next
  case SigTst2
  then obtain e e' where e: "cose_encode (Bytes s) = Inr e" "counter_signature_input p e = Inr bs"
    "cose_encode (Bytes s') = Inr e'" "counter_signature_input p' e' = Inr bs"
    using assms(1,2) by (auto simp: imprint_input_def res_bind_eq_Inr)
  then have "p' = p" "e' = e" using counter_signature_inject [OF e(2,4) assms(3)] by simp_all
  moreover have "length e \<le> usize_max" using counter_signature_length [OF e(2)] assms(3) by simp
  ultimately show ?thesis using cose_encode_bytes_inject [of s e s'] e SigTst2 by simp
qed

lemma present_header:
  assumes "(case select_header a b of
            Inl evidence \<Rightarrow> Inr evidence
          | Inr (version, v) \<Rightarrow>
              (case stored_token version v of
                 Inl evidence \<Rightarrow> Inr evidence
               | Inr token \<Rightarrow>
                   res_bind (f version) (\<lambda>input.
                     Inr (HeaderPresent \<lparr>th_version = version, th_token_der = token, th_message_imprint_input = input\<rparr>))))
      = Inr (HeaderPresent h)"
  shows "\<exists>v. select_header a b = Inr (th_version h, v) \<and> stored_token (th_version h) v = Inr (th_token_der h)
      \<and> f (th_version h) = Inr (th_message_imprint_input h)"
proof -
  have "select_header a b \<noteq> Inl (HeaderPresent h)" by (auto simp: select_header_def split: header_lookup.splits)
  moreover have "stored_token version v \<noteq> Inl (HeaderPresent h)" for version v
    by (auto simp: stored_token_def res_bind_eq_Inl map_err_def ok_or_eq_Inl split: sum.splits timestamp_header_version.splits)
  ultimately show ?thesis using assms by (auto simp: res_bind_eq_Inr split: sum.splits prod.splits)
qed

text \<open>
  C14: An accepted time-stamp header is the only entry of its label in both header buckets and the other label does not occur; its map
  holds exactly one token, which for \<open>sigTst2\<close> is the reported one and for \<open>sigTst\<close> ends with it; and the bytes the
  token's imprint must digest determine the protected header and the claim, or, for \<open>sigTst2\<close>, the signature.
\<close>

theorem timestamp_header_unambiguous:
  assumes "parse_timestamp_header cose claim = Inr (HeaderPresent h)"
  shows "\<exists>protected unprotected payload sig pv k tk vk stored.
      decode cose = Inr (Tag COSE_SIGN1_TAG (Array [Bytes protected, unprotected, payload, Bytes sig])) \<and> decode protected = Inr pv
      \<and> entries_named (version_label (th_version h)) (map_entries pv @ map_entries unprotected)
          = [(k, Map [(tk, Array [Map [(vk, Bytes stored)]])])]
      \<and> (\<forall>other. other \<noteq> th_version h \<longrightarrow> entries_named (version_label other) (map_entries pv @ map_entries unprotected) = [])
      \<and> th_token_der h \<noteq> []
      \<and> (case th_version h of SigTst2 \<Rightarrow> th_token_der h = stored | SigTst \<Rightarrow> \<exists>n. th_token_der h = drop n stored)
      \<and> imprint_input (th_version h) protected sig claim = Inr (th_message_imprint_input h)
      \<and> (length (th_message_imprint_input h) \<le> usize_max \<longrightarrow>
           (\<forall>p s c. imprint_input (th_version h) p s c = Inr (th_message_imprint_input h) \<longrightarrow>
              p = protected \<and> (case th_version h of SigTst \<Rightarrow> c = claim | SigTst2 \<Rightarrow> s = sig)))"
proof -
  obtain protected unprotected payload sig pv v
    where d: "decode cose = Inr (Tag COSE_SIGN1_TAG (Array [Bytes protected, unprotected, payload, Bytes sig]))" "decode protected = Inr pv"
      and sel: "select_header (lookup_across_buckets [map_entries pv, map_entries unprotected] ''sigTst'')
          (lookup_across_buckets [map_entries pv, map_entries unprotected] ''sigTst2'') = Inr (th_version h, v)"
      and tok: "stored_token (th_version h) v = Inr (th_token_der h)"
      and imp: "imprint_input (th_version h) protected sig claim = Inr (th_message_imprint_input h)"
    using assms
    by (auto simp: parse_timestamp_header_def cose_decode_def res_bind_eq_Inr map_err_eq_Inr cose_array_Inr protected_header_def
        signature_of_def ok_or_eq_Inr as_bytes_Some Let_def dest!: present_header)
  obtain stored where st: "parse_single_token v = Inr stored"
    and t: "case th_version h of SigTst2 \<Rightarrow> th_token_der h = stored | SigTst \<Rightarrow> granted_timestamp_token stored = Some (th_token_der h)"
    using tok by (cases "th_version h") (auto simp: stored_token_def res_bind_eq_Inr map_err_eq_Inr ok_or_eq_Inr)
  then obtain tk vk where v: "v = Map [(tk, Array [Map [(vk, Bytes stored)]])]" by (auto simp: parse_single_token_Inr)
  obtain k where one: "entries_named (version_label (th_version h)) (map_entries pv @ map_entries unprotected)
      = [(k, Map [(tk, Array [Map [(vk, Bytes stored)]])])]"
    using sel unfolding select_header_Inr by (auto simp: v)
  have none: "\<forall>other. other \<noteq> th_version h \<longrightarrow> entries_named (version_label other) (map_entries pv @ map_entries unprotected) = []"
    using sel unfolding select_header_Inr by auto
  have ne: "th_token_der h \<noteq> []"
    using t st granted_timestamp_token_suffix by (cases "th_version h") (auto simp: parse_single_token_Inr)
  have tail: "case th_version h of SigTst2 \<Rightarrow> th_token_der h = stored | SigTst \<Rightarrow> \<exists>n. th_token_der h = drop n stored"
    using t granted_timestamp_token_suffix by (cases "th_version h") auto
  have "\<forall>p s c. imprint_input (th_version h) p s c = Inr (th_message_imprint_input h) \<longrightarrow>
      p = protected \<and> (case th_version h of SigTst \<Rightarrow> c = claim | SigTst2 \<Rightarrow> s = sig)"
    if "length (th_message_imprint_input h) \<le> usize_max"
    using imprint_inject [OF imp _ that] by blast
  with d one none ne tail imp show ?thesis by (intro exI conjI impI)
qed

section \<open>A detached signature\<close>

text \<open>The protected header names ES256; the unprotected one carries a certificate and a \<open>sigTst2\<close> token.\<close>

definition sample_cose :: cbor_value where
  "sample_cose = Tag 18 (Array [Bytes [0xA1, 1, 0x26],
     Map [(Integer 33, Bytes [0x30]), (Text (ascii ''sigTst2''), Map [(Text (ascii ''tstTokens''), Array [Map [(Text (ascii ''val''), Bytes [5])]])])],
     Null, Bytes [9]])"

definition sample_cose_bytes :: bytes where
  "sample_cose_bytes = projr (encode sample_cose LegacyPipelineBDefinite)"

lemma sample_texts: "utf8_valid (ascii ''sigTst2'')" "utf8_valid (ascii ''tstTokens'')" "utf8_valid (ascii ''val'')"
  by code_simp+

lemma sample_decode: "decode sample_cose_bytes = Inr sample_cose"
proof (rule decode_legacy)
  show "encode sample_cose LegacyPipelineBDefinite = Inr sample_cose_bytes" "length sample_cose_bytes \<le> usize_max"
    by (simp_all add: sample_cose_bytes_def sample_cose_def encode_eval enc_entry_def ascii_def MT_TEXT_def MT_BYTES_def MT_TAG_def usize_max_def)
  show "value_wf sample_cose" "fits_depth MAX_DEPTH sample_cose" "value_nodes sample_cose \<le> MAX_VALUE_NODES"
    using sample_texts by (simp_all add: sample_cose_def MAX_DEPTH_def MAX_VALUE_NODES_def)
qed

definition accepts :: signature_check where
  "accepts alg message sig cert = Inr ()"

lemma sample_protected: "decode [0xA1, 1, 0x26] = Inr (Map [(Integer 1, Integer (- 7))])"
  by (rule decode_legacy) (simp_all add: encode_eval enc_entry_def MT_NINT_def usize_max_def MAX_DEPTH_def MAX_VALUE_NODES_def)

lemma sample_verified: "verify_claim_with accepts sample_cose_bytes [7] [0x30] List_2_4 = Inr ()"
  by (simp add: verify_claim_with_def cose_decode_def sample_decode sample_cose_def cose_array_def COSE_SIGN1_TAG_def protected_header_def
        signature_of_def protected_alg_id_def sample_protected map_get_int_def COSE_HDR_ALG_def list_algorithm_def from_cose_id_def
        COSE_ALGS_def list_permits_def introduced_in_c2pa_2_5_def sig_structure_bytes_def cose_encode_def COSE_PROFILE_def encode_eval
        accepts_def)

theorem claim_signature_binds_witness:
  "\<exists>msg. sig_structure_bytes [0xA1, 1, 0x26] [7] = Inr msg \<and> (\<forall>c. sig_structure_bytes [0xA1, 1, 0x26] c = Inr msg \<longrightarrow> c = [7])"
proof -
  obtain msg where s: "sig_structure_bytes [0xA1, 1, 0x26] [7] = Inr msg"
    and "length msg \<le> usize_max \<longrightarrow> (\<forall>p c. sig_structure_bytes p c = Inr msg \<longrightarrow> p = [0xA1, 1, 0x26] \<and> c = [7])"
    using claim_signature_binds [OF sample_verified] by (auto simp: sample_decode sample_cose_def)
  moreover have "length msg \<le> usize_max"
    using s by (auto simp: sig_structure_bytes_def cose_encode_def COSE_PROFILE_def encode_eval usize_max_def ascii_def MT_TEXT_def MT_BYTES_def)
  ultimately show ?thesis by blast
qed

lemma sample_chain: "extract_x5chain sample_cose_bytes = Inr [[0x30]]"
  by (simp add: extract_x5chain_def cose_decode_def sample_decode sample_cose_def cose_array_def COSE_SIGN1_TAG_def protected_bucket_def
        unprotected_bucket_def sample_protected choose_x5chain_def find_x5chain_label_def COSE_HDR_X5CHAIN_def select_x5chain_def
        x5chain_to_ders_def x5chain_certificates_def MAX_X5CHAIN_CERTIFICATE_BYTES_def MAX_X5CHAIN_TOTAL_BYTES_def checked_add_def usize_max_def)

theorem x5chain_unique_and_bounded_witness:
  "length [[0x30 :: byte]] \<le> MAX_X5CHAIN_CERTIFICATES \<and> sum_list (map length [[0x30 :: byte]]) \<le> MAX_X5CHAIN_TOTAL_BYTES"
  using x5chain_unique_and_bounded [OF sample_chain] by blast

lemma sample_names: "ascii ''sigTst2'' \<noteq> ascii ''sigTst''"
  by code_simp

lemma sample_header:
  "\<exists>input. parse_timestamp_header sample_cose_bytes [7] =
     Inr (HeaderPresent \<lparr>th_version = SigTst2, th_token_der = [5], th_message_imprint_input = input\<rparr>)"
  using sample_names
  by (simp add: parse_timestamp_header_def cose_decode_def sample_decode sample_cose_def cose_array_def COSE_SIGN1_TAG_def protected_header_def
        signature_of_def sample_protected map_entries_def lookup_across_buckets_def select_header_def stored_token_def parse_single_token_def
        imprint_input_def counter_signature_input_def cose_encode_def COSE_PROFILE_def encode_eval map_err_def)

theorem timestamp_header_unambiguous_witness:
  "\<exists>input. parse_timestamp_header sample_cose_bytes [7] =
     Inr (HeaderPresent \<lparr>th_version = SigTst2, th_token_der = [5], th_message_imprint_input = input\<rparr>)
   \<and> imprint_input SigTst2 [0xA1, 1, 0x26] [9] [7] = Inr input"
proof -
  obtain input where h: "parse_timestamp_header sample_cose_bytes [7] =
     Inr (HeaderPresent \<lparr>th_version = SigTst2, th_token_der = [5], th_message_imprint_input = input\<rparr>)" using sample_header by blast
  from timestamp_header_unambiguous [OF h] have "imprint_input SigTst2 [0xA1, 1, 0x26] [9] [7] = Inr input"
    by (auto simp: sample_decode sample_cose_def)
  with h show ?thesis by blast
qed

end
