(* ===== verification/Ingredient_Graph.thy ===== *)
theory Ingredient_Graph
  imports Lineage Cose_Headers Verify_Output Segment_Hash
begin

text \<open>
  The walk over the ingredient graph, \<^verbatim>\<open>c2pa-validate/ingredient_graph.rs\<close>: validation of every reached manifest with what the
  store alone proves, and the deltas between that verdict and the one the signer recorded. The signature primitive and
  the texts of CBOR errors are parameters.
\<close>

section \<open>One reached manifest\<close>

definition CLAIM_CBOR_INVALID :: string where "CLAIM_CBOR_INVALID = ''claim.cbor.invalid''"
definition CLAIM_SIGNATURE_VALIDATED :: string where "CLAIM_SIGNATURE_VALIDATED = ''claimSignature.validated''"
definition CLAIM_SIGNATURE_MISMATCH :: string where "CLAIM_SIGNATURE_MISMATCH = ''claimSignature.mismatch''"

definition claim_algorithms :: "engine_profile \<Rightarrow> claim_algorithm_list" where
  "claim_algorithms profile =
     (case ep_version profile of V2_2 \<Rightarrow> List_2_2 | V2_5 \<Rightarrow> List_2_5 | _ \<Rightarrow> List_2_4)"

fun crypto_error_text :: "(encode_error \<Rightarrow> string) \<Rightarrow> (decode_error \<Rightarrow> string) \<Rightarrow> crypto_error \<Rightarrow> string" where
  "crypto_error_text enc dec (UnsupportedAlg n) = ''unsupported COSE algorithm id: '' @ fmt_signed n"
| "crypto_error_text enc dec (UnsupportedSignatureAlgorithm s) = ''unsupported X.509 signature algorithm: '' @ s"
| "crypto_error_text enc dec (EncodeFailed e) = ''CBOR encode failed: '' @ enc e"
| "crypto_error_text enc dec (DecodeFailed e) = ''CBOR decode failed: '' @ dec e"
| "crypto_error_text enc dec (MalformedCose s) = ''malformed COSE_Sign1: '' @ s"
| "crypto_error_text enc dec PayloadNotDetached = ''COSE_Sign1 payload is not nil (detached content mode is required)''"
| "crypto_error_text enc dec (CertParse s) = ''certificate parse failed: '' @ s"
| "crypto_error_text enc dec (KeyParse s) = ''COSE_Key parse failed: '' @ s"
| "crypto_error_text enc dec (VerifyFailed s) = ''signature verification failed: '' @ s"

definition signature_url :: "parsed_manifest \<Rightarrow> string" where
  "signature_url manifest = ''self#jumbf=/c2pa/'' @ pm_name manifest @ ''/c2pa.signature''"

definition record_missing_claim :: "parsed_manifest \<Rightarrow> validation_results \<Rightarrow> validation_results" where
  "record_missing_claim manifest results =
     (if claim_cbor manifest = None
      then push_failure CLAIM_MISSING (signature_url manifest) ''no claim found in ingredient manifest'' results
      else push_failure CLAIM_CBOR_INVALID (signature_url manifest)
             ''ingredient manifest claim CBOR could not be decoded'' results)"

text \<open>The first certificate of the chain, unless it is empty.\<close>

definition leaf_certificate :: "bytes \<Rightarrow> bytes option" where
  "leaf_certificate cose =
     (case extract_x5chain cose of Inr (leaf # _) \<Rightarrow> if leaf \<noteq> [] then Some leaf else None | _ \<Rightarrow> None)"

definition verify_reached_signature ::
    "signature_check \<Rightarrow> (crypto_error \<Rightarrow> string) \<Rightarrow> parsed_manifest \<Rightarrow> engine_profile \<Rightarrow> validation_results \<Rightarrow> validation_results" where
  "verify_reached_signature verify_signature error_text manifest profile results =
     (let sig_url = signature_url manifest
      in case (signature_cose manifest, claim_cbor manifest) of
           (Some cose, Some claim) \<Rightarrow>
             (case leaf_certificate cose of
                None \<Rightarrow> push_failure CLAIM_SIGNATURE_MISSING sig_url
                          ''ingredient manifest claim signature carries no certificate'' results
              | Some leaf \<Rightarrow>
                  (case verify_claim_with verify_signature cose claim leaf (claim_algorithms profile) of
                     Inr _ \<Rightarrow> push_success CLAIM_SIGNATURE_VALIDATED sig_url
                                ''ingredient manifest claim signature verified'' results
                   | Inl (UnsupportedAlg n) \<Rightarrow> push_failure ALGORITHM_UNSUPPORTED sig_url
                       (''ingredient manifest claim signature algorithm '' @ fmt_signed n @ '' is not on the C2PA allowed list'') results
                   | Inl e \<Rightarrow> push_failure CLAIM_SIGNATURE_MISMATCH sig_url
                       (''ingredient manifest claim signature invalid: '' @ error_text e) results))
         | _ \<Rightarrow> push_failure CLAIM_SIGNATURE_MISSING sig_url ''ingredient manifest has no claim signature'' results)"

definition validate_reached_manifest ::
    "digest \<Rightarrow> signature_check \<Rightarrow> (crypto_error \<Rightarrow> string) \<Rightarrow> parsed_manifest \<Rightarrow> cbor_value \<Rightarrow> claim_generation \<Rightarrow> claim_refs
      \<Rightarrow> digest_cache \<Rightarrow> engine_profile \<Rightarrow> validation_results \<Rightarrow> claim_refs \<times> digest_cache \<times> validation_results" where
  "validate_reached_manifest digest verify_signature error_text manifest claim generation refs cache profile results =
     (let results = verify_claim_redactions (pm_name manifest) claim (cx_manifests (dc_store cache)) results;
          results = verify_redacted_identity_references refs results;
          (refs, results) = verify_assertion_bindings digest claim refs generation (pm_name manifest) results;
          (cache, results) = verify_ingredient_references digest (pm_name manifest) refs claim cache (signature_url manifest)
                               profile results
      in (refs, cache, verify_reached_signature verify_signature error_text manifest profile results))"

section \<open>Deltas\<close>

definition recorded_status :: "cbor_value \<Rightarrow> string \<Rightarrow> status_code" where
  "recorded_status entry code =
     \<lparr>sc_code = code, sc_url = (case text_field entry ''url'' of Some u \<Rightarrow> u | None \<Rightarrow> []),
      sc_resource_url = text_field entry ''resourceUrl'',
      sc_explanation = (case text_field entry ''explanation'' of Some e \<Rightarrow> e
                        | None \<Rightarrow> ''recorded by the ingredient's claim generator''),
      sc_details = None\<rparr>"

definition collect_recorded :: "cbor_value option \<Rightarrow> (string \<times> status_code) list" where
  "collect_recorded codes =
     (case codes of
        None \<Rightarrow> []
      | Some codes \<Rightarrow>
          concat (map (\<lambda>bucket.
              case get_field codes bucket of
                Some (Array entries) \<Rightarrow>
                  List.map_filter (\<lambda>e. map_option (\<lambda>code. (bucket, recorded_status e code)) (text_field e ''code'')) entries
              | _ \<Rightarrow> [])
            [''success'', ''informational'', ''failure'']))"

definition recorded_entries :: "cbor_value option \<Rightarrow> (string \<times> status_code) list" where
  "recorded_entries recorded =
     (case recorded of
        None \<Rightarrow> []
      | Some r \<Rightarrow>
          collect_recorded (get_field r ''activeManifest'')
          @ (case get_field r ''ingredientDeltas'' of
               Some (Array nested) \<Rightarrow> concat (map (\<lambda>e. collect_recorded (get_field e ''validationDeltas'')) nested)
             | _ \<Rightarrow> []))"

definition status_key :: "status_code \<Rightarrow> string \<times> string" where
  "status_key s = (sc_code s, sc_url s)"

definition push_recorded :: "(string \<times> string) set \<Rightarrow> validation_results \<Rightarrow> string \<times> status_code \<Rightarrow> validation_results" where
  "push_recorded observed_keys deltas = (\<lambda>(bucket, s).
     if status_key s \<in> observed_keys then deltas
     else let s = s\<lparr>sc_details := Some (JObject [(''source'', JString ''recorded'')])\<rparr>
          in if bucket = ''success'' then deltas\<lparr>success := success deltas @ [s]\<rparr>
             else if bucket = ''informational'' then deltas\<lparr>informational := informational deltas @ [s]\<rparr>
             else deltas\<lparr>failure := failure deltas @ [s]\<rparr>)"

definition validation_deltas :: "cbor_value option \<Rightarrow> validation_results \<Rightarrow> validation_results" where
  "validation_deltas recorded observed =
     (let entries = recorded_entries recorded;
          recorded_keys = status_key ` snd ` set entries;
          observed_keys = status_key ` set (success observed @ informational observed @ failure observed);
          new_codes = filter (\<lambda>s. status_key s \<notin> recorded_keys)
      in foldl (push_recorded observed_keys)
           (results_default\<lparr>success := new_codes (success observed), informational := new_codes (informational observed),
                            failure := new_codes (failure observed)\<rparr>)
           entries)"

record ingredient_delta =
  id_assertion_uri :: string
  id_deltas :: validation_results

definition deltas_json :: "ingredient_delta list \<Rightarrow> json" where
  "deltas_json ds =
     JArray (map (\<lambda>d. JObject [(''ingredientAssertionURI'', JString (id_assertion_uri d)),
                                (''validationDeltas'', JObject [(''success'', status_array (success (id_deltas d))),
                                   (''informational'', status_array (informational (id_deltas d))),
                                   (''failure'', status_array (failure (id_deltas d)))])]) ds)"

definition attach_deltas :: "json \<Rightarrow> ingredient_delta list \<Rightarrow> json" where
  "attach_deltas report ds =
     (if ds = [] then report
      else case json_get report ''validation_results'' of
             Some (JObject xs) \<Rightarrow>
               json_insert ''validation_results'' (json_insert ''ingredientDeltas'' (deltas_json ds) (JObject xs)) report
           | _ \<Rightarrow> report)"

section \<open>The walk\<close>

text \<open>
  The state of the walk: the results per manifest, the indices of the manifests reached, the edges whose delta is still to be computed,
  and what the walk shares with the rest of the pass.
\<close>

record 'p graph_walk =
  gw_results :: "validation_results list"
  gw_reached :: "nat set"
  gw_pending :: "(nat \<times> edge) list"
  gw_queue :: "(nat \<times> nat) list"
  gw_cache :: digest_cache
  gw_budget :: "redaction_index budget"
  gw_resources :: "'p resource_cache"

text \<open>\<open>index_of\<close>: the last manifest of a label.\<close>

definition index_of :: "parsed_manifest list \<Rightarrow> string \<Rightarrow> nat option" where
  "index_of manifests label = map_of (rev (zip (map pm_name manifests) [0..<length manifests])) label"

text \<open>The edges of one manifest; the flag tells that the depth ceiling stopped the walk.\<close>

fun enqueue_edges :: "(string \<Rightarrow> nat option) \<Rightarrow> nat \<Rightarrow> edge list \<Rightarrow> 'p graph_walk \<Rightarrow> bool \<times> 'p graph_walk" where
  "enqueue_edges lookup depth [] w = (False, w)"
| "enqueue_edges lookup depth (e # es) w =
     (case lookup (ed_target e) of
        None \<Rightarrow> enqueue_edges lookup depth es w
      | Some target \<Rightarrow>
          let w = w\<lparr>gw_pending := gw_pending w @ [(target, e)]\<rparr>
          in if target \<in> gw_reached w then enqueue_edges lookup depth es w
             else let (ok, g) = charge_depth (depth + 1) (gw_budget w);
                      w = w\<lparr>gw_budget := g\<rparr>
                  in if \<not> ok then (True, w)
                     else enqueue_edges lookup depth es
                            (w\<lparr>gw_reached := insert target (gw_reached w), gw_queue := gw_queue w @ [(target, depth + 1)]\<rparr>))"

text \<open>Validation of a reached manifest and of the references inside its assertions.\<close>

definition validate_node ::
    "digest \<Rightarrow> signature_check \<Rightarrow> (crypto_error \<Rightarrow> string) \<Rightarrow> store_context \<Rightarrow> engine_profile \<Rightarrow> nat \<Rightarrow> cbor_value \<Rightarrow> claim_refs
      \<Rightarrow> 'p graph_walk \<Rightarrow> bool \<times> claim_refs \<times> 'p graph_walk" where
  "validate_node digest verify_signature error_text store profile index claim refs w =
     (let manifest = cx_manifests store ! index;
          generation = claim_generation_of manifest claim;
          (refs, cache, results) = validate_reached_manifest digest verify_signature error_text manifest claim generation refs
                                     (gw_cache w) profile (gw_results w ! index);
          (walked, resources, results) =
            verify_assertion_references digest claim refs generation profile (pm_name manifest) (cx_manifests store)
              (references_left (gw_budget w)) (gw_resources w) results;
          (ok, g) = charge_references (rw_examined walked) (gw_budget w);
          g = (if ok \<and> rw_truncated walked then exhaust_references g else g)
      in (ok \<and> \<not> rw_truncated walked, refs,
          w\<lparr>gw_cache := cache, gw_resources := resources, gw_results := (gw_results w)[index := results], gw_budget := g\<rparr>))"

text \<open>The edges of a validated manifest.\<close>

definition follow_edges ::
    "digest \<Rightarrow> store_context \<Rightarrow> engine_profile \<Rightarrow> nat \<Rightarrow> nat \<Rightarrow> cbor_value \<Rightarrow> claim_refs \<Rightarrow> 'p graph_walk \<Rightarrow> bool \<times> 'p graph_walk" where
  "follow_edges digest store profile index depth claim refs w =
     (let manifest = cx_manifests store ! index;
          (_, es, results) = manifest_edges digest manifest claim refs (claim_generation_of manifest claim) profile
                               (gw_results w ! index);
          (ok, g) = charge_references (length es) (gw_budget w);
          w = w\<lparr>gw_results := (gw_results w)[index := results], gw_budget := g\<rparr>
      in if \<not> ok then (True, w) else enqueue_edges (index_of (cx_manifests store)) depth es w)"

text \<open>One turn of the walk on a manifest taken from the queue; the flag is \<open>break\<close>.\<close>

definition visit_manifest ::
    "digest \<Rightarrow> signature_check \<Rightarrow> (crypto_error \<Rightarrow> string) \<Rightarrow> (bytes \<Rightarrow> json option) \<Rightarrow> store_context \<Rightarrow> engine_profile \<Rightarrow> nat
      \<Rightarrow> nat \<Rightarrow> nat \<Rightarrow> 'p graph_walk \<Rightarrow> bool \<times> 'p graph_walk" where
  "visit_manifest digest verify_signature error_text from_slice store profile active index depth w =
     (let manifest = cx_manifests store ! index;
          (ok, g) = charge_node (gw_budget w);
          (ok, g) = (if ok then charge_bytes (length (manifest_jumbf manifest)) g else (False, g));
          w = w\<lparr>gw_budget := g\<rparr>
      in if \<not> ok then (True, w)
         else case claim_of manifest of
                None \<Rightarrow>
                  (False, if index = active then w
                          else w\<lparr>gw_results := (gw_results w)[index := record_missing_claim manifest (gw_results w ! index)]\<rparr>)
              | Some claim \<Rightarrow>
                  let refs = (claim_refs_build from_slice manifest claim (claim_generation_of manifest claim))
                               \<lparr>cr_redactions := redactions g\<rparr>
                  in if index \<noteq> active \<and> is_time_stamp_manifest refs then (False, w)
                     else let (ok, refs, w) =
                                (if index = active then (True, refs, w)
                                 else validate_node digest verify_signature error_text store profile index claim refs w)
                          in if \<not> ok then (True, w) else follow_edges digest store profile index depth claim refs w)"

text \<open>Each turn takes one entry and adds one for every manifest it newly reaches, so this number decreases.\<close>

definition walk_measure :: "parsed_manifest list \<Rightarrow> 'p graph_walk \<Rightarrow> nat" where
  "walk_measure manifests w = length (gw_queue w) + card ({..<length manifests} - gw_reached w)"

lemma index_of_less: "index_of manifests label = Some n \<Longrightarrow> n < length manifests"
  by (auto simp: index_of_def dest!: map_of_SomeD set_zip_rightD)

lemma enqueue_edges_measure:
  "enqueue_edges (index_of manifests) depth es w = (stop, w') \<Longrightarrow> walk_measure manifests w' = walk_measure manifests w"
proof (induction es arbitrary: w)
  case (Cons e es)
  show ?case
  proof (cases "index_of manifests (ed_target e)")
    case None
    then show ?thesis using Cons by simp
  next
    case (Some target)
    obtain ok g where g: "charge_depth (depth + 1) (gw_budget w) = (ok, g)" by fastforce
    show ?thesis
    proof (cases "target \<in> gw_reached w")
      case True
      then have "enqueue_edges (index_of manifests) depth es (w\<lparr>gw_pending := gw_pending w @ [(target, e)]\<rparr>) = (stop, w')"
        using Cons.prems Some by (simp add: Let_def)
      from Cons.IH [OF this] show ?thesis by (simp add: walk_measure_def)
    next
      case False
      let ?w = "w\<lparr>gw_pending := gw_pending w @ [(target, e)], gw_budget := g, gw_reached := insert target (gw_reached w),
          gw_queue := gw_queue w @ [(target, depth + 1)]\<rparr>"
      show ?thesis
      proof (cases ok)
        case True
        then have "enqueue_edges (index_of manifests) depth es ?w = (stop, w')"
          using Cons.prems Some False g by (simp add: Let_def)
        from Cons.IH [OF this] have "walk_measure manifests w' = walk_measure manifests ?w" .
        also have "{..<length manifests} - insert target (gw_reached w) = ({..<length manifests} - gw_reached w) - {target}" by auto
        then have "walk_measure manifests ?w = walk_measure manifests w"
          using index_of_less [OF Some] False card_Suc_Diff1 [of "{..<length manifests} - gw_reached w" target]
          by (simp add: walk_measure_def)
        finally show ?thesis .
      next
        case stop: False
        then show ?thesis using Cons.prems Some False g by (auto simp: Let_def walk_measure_def)
      qed
    qed
  qed
qed simp

lemma visit_manifest_measure:
  assumes "visit_manifest digest verify_signature error_text from_slice store profile active index depth w = (stop, w')"
  shows "walk_measure (cx_manifests store) w' = walk_measure (cx_manifests store) w"
  using assms
  by (auto simp: visit_manifest_def follow_edges_def validate_node_def walk_measure_def Let_def
        dest!: enqueue_edges_measure split: prod.splits option.splits if_splits)

function walk_graph ::
    "digest \<Rightarrow> signature_check \<Rightarrow> (crypto_error \<Rightarrow> string) \<Rightarrow> (bytes \<Rightarrow> json option) \<Rightarrow> store_context \<Rightarrow> engine_profile \<Rightarrow> nat
      \<Rightarrow> 'p graph_walk \<Rightarrow> 'p graph_walk" where
  "walk_graph digest verify_signature error_text from_slice store profile active w =
     (case gw_queue w of
        [] \<Rightarrow> w
      | (index, depth) # queue \<Rightarrow>
          let (stop, w) = visit_manifest digest verify_signature error_text from_slice store profile active index depth
                            (w\<lparr>gw_queue := queue\<rparr>)
          in if stop then w else walk_graph digest verify_signature error_text from_slice store profile active w)"
  by pat_completeness auto

termination
  by (relation "measure (\<lambda>(_, _, _, _, store, _, _, w). walk_measure (cx_manifests store) w)")
     (auto dest!: visit_manifest_measure [OF sym] simp: walk_measure_def)

declare walk_graph.simps [simp del]

section \<open>The graph\<close>

record ingredient_graph =
  ig_active :: validation_results
  ig_deltas :: "ingredient_delta list"
  ig_reached :: "(string \<times> cbor_value) list"

definition graph_start :: "store_context \<Rightarrow> engine_profile \<Rightarrow> nat \<Rightarrow> redaction_index budget \<Rightarrow> 'p resource_cache \<Rightarrow> 'p graph_walk" where
  "graph_start store profile active g resources =
     \<lparr>gw_results = replicate (length (cx_manifests store)) results_default, gw_reached = {active}, gw_pending = [],
      gw_queue = [(active, 0)], gw_cache = digest_cache_new store profile, gw_budget = g, gw_resources = resources\<rparr>"

definition has_codes :: "validation_results \<Rightarrow> bool" where
  "has_codes r \<longleftrightarrow> success r \<noteq> [] \<or> informational r \<noteq> [] \<or> failure r \<noteq> []"

definition graph_deltas :: "'p graph_walk \<Rightarrow> ingredient_delta list" where
  "graph_deltas w =
     List.map_filter (\<lambda>(target, e).
         let deltas = validation_deltas (ed_recorded e) (gw_results w ! target)
         in if has_codes deltas then Some \<lparr>id_assertion_uri = ed_assertion_uri e, id_deltas = deltas\<rparr> else None)
       (gw_pending w)"

definition append_results :: "validation_results \<Rightarrow> validation_results \<Rightarrow> validation_results" where
  "append_results a b = a\<lparr>success := success a @ success b, informational := informational a @ informational b,
                          failure := failure a @ failure b\<rparr>"

definition reached_claims :: "parsed_manifest list \<Rightarrow> nat \<Rightarrow> nat set \<Rightarrow> (string \<times> cbor_value) list" where
  "reached_claims manifests active reached =
     List.map_filter (\<lambda>i. if i = active \<or> i \<notin> reached then None
                          else map_option (\<lambda>claim. (pm_name (manifests ! i), claim)) (claim_of (manifests ! i)))
       [0..<length manifests]"

definition graph_build ::
    "digest \<Rightarrow> signature_check \<Rightarrow> (crypto_error \<Rightarrow> string) \<Rightarrow> (bytes \<Rightarrow> json option) \<Rightarrow> string \<Rightarrow> store_context
      \<Rightarrow> engine_profile \<Rightarrow> redaction_index budget \<Rightarrow> 'p resource_cache
      \<Rightarrow> ingredient_graph \<times> redaction_index budget \<times> 'p resource_cache" where
  "graph_build digest verify_signature error_text from_slice active_label store profile g resources =
     (case index_of (cx_manifests store) active_label of
        None \<Rightarrow> (\<lparr>ig_active = results_default, ig_deltas = [], ig_reached = []\<rparr>, g, resources)
      | Some active \<Rightarrow>
          let w = walk_graph digest verify_signature error_text from_slice store profile active
                    (graph_start store profile active g resources);
              (g, results) = budget_report active_label (gw_budget w) results_default
          in (\<lparr>ig_active = append_results results (gw_results w ! active), ig_deltas = graph_deltas w,
               ig_reached = reached_claims (cx_manifests store) active (gw_reached w)\<rparr>,
              g, gw_resources w))"

section \<open>The predecessor store a segment binding names\<close>

text \<open>\<open>locate_predecessor_reference\<close> of \<^verbatim>\<open>segment_hash.rs\<close>, which lists the next external store for discovery.\<close>

definition segment_labels :: "claim_refs \<Rightarrow> string list" where
  "segment_labels refs =
     filter (\<lambda>l. base_assertion_label l = ''c2pa.hash.segment'') (List.map_filter rf_label (cr_references refs))"

definition locate_predecessor_reference ::
    "(bytes \<Rightarrow> json option) \<Rightarrow> claim_refs \<Rightarrow> cbor_value \<Rightarrow> bytes \<Rightarrow> append_only_flavor \<Rightarrow> unit + sentinel_reference option" where
  "locate_predecessor_reference from_str refs claim data flavor =
     (case segment_labels refs of
        [label] \<Rightarrow>
          res_bind (ok_or (Option.bind (indexed_of refs label) ia_decoded) ()) (\<lambda>assertion.
          res_bind (map_err (\<lambda>_. ()) (seg_parse assertion claim)) (\<lambda>segment.
            case sg_predecessor segment of
              None \<Rightarrow> Inr None
            | Some p \<Rightarrow>
                (case seg_sentinel_at from_str data (pd_start p) (Some flavor) of
                   Some s \<Rightarrow> if sn_length s = pd_length p then Inr (Some (sn_reference s)) else Inl ()
                 | None \<Rightarrow> Inl ())))
      | _ \<Rightarrow> Inl ())"

end
