(* ===== verification/Graph_Properties.thy ===== *)
theory Graph_Properties
  imports Ingredient_Graph
begin

text \<open>
  What the ingredient walk reports: deltas that are the symmetric difference between the recorded and the observed verdict,
  and nothing of an ingredient's defects in the verdict of the active manifest.
\<close>

section \<open>Deltas\<close>

definition result_keys :: "validation_results \<Rightarrow> (string \<times> string) set" where
  "result_keys r = status_key ` set (success r @ informational r @ failure r)"

definition is_recorded :: "status_code \<Rightarrow> bool" where
  "is_recorded s \<longleftrightarrow> sc_details s = Some (JObject [(''source'', JString ''recorded'')])"

definition all_codes :: "validation_results \<Rightarrow> status_code set" where
  "all_codes r = set (success r) \<union> set (informational r) \<union> set (failure r)"

lemma result_keys_codes: "result_keys r = status_key ` all_codes r"
  by (simp add: result_keys_def all_codes_def image_Un Un_assoc)

lemma all_codes_push_recorded:
  "all_codes (push_recorded ks r (bucket, s)) = all_codes r \<union>
     (if status_key s \<in> ks then {} else {s\<lparr>sc_details := Some (JObject [(''source'', JString ''recorded'')])\<rparr>})"
  by (auto simp: push_recorded_def all_codes_def Let_def)

lemma all_codes_recorded:
  "all_codes (foldl (push_recorded ks) r es) = all_codes r \<union>
     (\<lambda>s. s\<lparr>sc_details := Some (JObject [(''source'', JString ''recorded'')])\<rparr>) ` {s \<in> snd ` set es. status_key s \<notin> ks}"
proof (induction es arbitrary: r)
  case (Cons e es)
  obtain bucket s where e: "e = (bucket, s)" by fastforce
  show ?case unfolding e by (auto simp: Cons.IH all_codes_push_recorded)
qed simp

lemma status_key_details [simp]: "status_key (s\<lparr>sc_details := d\<rparr>) = status_key s"
  by (simp add: status_key_def)

lemma keys_outside: "status_key ` {s \<in> A. status_key s \<notin> R} = status_key ` A - R"
  by auto

lemma push_recorded_grows: "prefix (failure r) (failure (foldl (push_recorded ks) r es))"
proof (induction es arbitrary: r)
  case (Cons e es)
  have "prefix (failure r) (failure (push_recorded ks r e))" by (cases e) (simp add: push_recorded_def Let_def)
  with Cons.IH show ?case by (auto intro: prefix_order.trans)
qed simp

text \<open>
  C15: The deltas of an ingredient are the symmetric difference of the recorded and the observed verdict, by code and URL: every code
  that only one side has is reported, and no code both have; what only the signer recorded is marked as such, what only
  this validation observed is reported unchanged, and an observed failure stays a failure.
\<close>

theorem validation_deltas_difference:
  defines "recorded_keys \<equiv> \<lambda>r. status_key ` snd ` set (recorded_entries r)"
  shows "result_keys (validation_deltas r observed)
      = (result_keys observed - recorded_keys r) \<union> (recorded_keys r - result_keys observed)
    \<and> (\<forall>s \<in> all_codes (validation_deltas r observed). is_recorded s \<and> status_key s \<in> recorded_keys r \<or> s \<in> all_codes observed)
    \<and> prefix (filter (\<lambda>s. status_key s \<notin> recorded_keys r) (failure observed)) (failure (validation_deltas r observed))"
proof -
  let ?new = "filter (\<lambda>s. status_key s \<notin> recorded_keys r)"
  let ?start = "results_default\<lparr>success := ?new (success observed), informational := ?new (informational observed),
      failure := ?new (failure observed)\<rparr>"
  have d: "validation_deltas r observed = foldl (push_recorded (result_keys observed)) ?start (recorded_entries r)"
    by (simp add: validation_deltas_def result_keys_def recorded_keys_def Let_def)
  have start: "all_codes ?start = {s \<in> all_codes observed. status_key s \<notin> recorded_keys r}"
    by (auto simp: all_codes_def)
  have codes: "all_codes (validation_deltas r observed) = {s \<in> all_codes observed. status_key s \<notin> recorded_keys r} \<union>
      (\<lambda>s. s\<lparr>sc_details := Some (JObject [(''source'', JString ''recorded'')])\<rparr>)
        ` {s \<in> snd ` set (recorded_entries r). status_key s \<notin> result_keys observed}"
    unfolding d all_codes_recorded start ..
  have "result_keys (validation_deltas r observed) = (result_keys observed - recorded_keys r) \<union> (recorded_keys r - result_keys observed)"
    unfolding result_keys_codes codes image_Un image_image status_key_details keys_outside by (simp add: recorded_keys_def image_image)
  moreover have "\<forall>s \<in> all_codes (validation_deltas r observed). is_recorded s \<and> status_key s \<in> recorded_keys r \<or> s \<in> all_codes observed"
    unfolding codes by (auto simp: is_recorded_def recorded_keys_def image_image intro: rev_image_eqI)
  moreover have "prefix (?new (failure observed)) (failure (validation_deltas r observed))"
    using push_recorded_grows [of ?start] unfolding d by simp
  ultimately show ?thesis by blast
qed

theorem validation_deltas_difference_witness:
  "result_keys (validation_deltas None (results_default\<lparr>failure := [status ''c'' ''u'' ''e'' None]\<rparr>)) = {(''c'', ''u'')}"
  using validation_deltas_difference [of None "results_default\<lparr>failure := [status ''c'' ''u'' ''e'' None]\<rparr>"]
  by (simp add: recorded_entries_def result_keys_def results_default_def status_key_def status_def)

section \<open>Isolation of the active manifest\<close>

text \<open>All that the walk may put into the results of the active manifest.\<close>

definition only_malformed_edges :: "string \<Rightarrow> validation_results \<Rightarrow> bool" where
  "only_malformed_edges active_label r \<longleftrightarrow>
     success r = [] \<and> informational r = []
     \<and> (\<forall>s \<in> set (failure r). sc_code s = ASSERTION_INGREDIENT_MALFORMED \<and> (\<exists>label. sc_url s = assertion_url active_label label))"

lemma push_edge_malformed:
  "only_malformed_edges manifest_label (snd s) \<Longrightarrow> only_malformed_edges manifest_label (snd (push_edge manifest_label generation profile label v s))"
  by (cases s) (auto simp: push_edge_def only_malformed_edges_def push_failure_def status_def Let_def split: option.splits)

lemma edge_step_malformed:
  "only_malformed_edges (pm_name manifest) (snd (snd s)) \<Longrightarrow>
     only_malformed_edges (pm_name manifest) (snd (snd (edge_step digest manifest claim generation profile s r)))"
  by (cases s) (auto simp: edge_step_def Let_def push_edge_malformed split: option.splits prod.splits)

lemma manifest_edges_malformed:
  assumes "only_malformed_edges (pm_name manifest) results"
    and "manifest_edges digest manifest claim refs generation profile results = (refs', es, results')"
  shows "only_malformed_edges (pm_name manifest) results'"
proof -
  have "only_malformed_edges (pm_name manifest) (snd (snd (foldl (edge_step digest manifest claim generation profile) s rs)))"
    if "only_malformed_edges (pm_name manifest) (snd (snd s))" for s rs
    using that by (induction rs arbitrary: s) (simp_all only: foldl.simps edge_step_malformed)
  from this [of "(refs, [], results)" "cr_references refs"] assms show ?thesis by (simp add: manifest_edges_def)
qed

lemma enqueue_edges_results: "enqueue_edges lookup depth es w = (stop, w') \<Longrightarrow> gw_results w' = gw_results w"
  by (induction lookup depth es w rule: enqueue_edges.induct) (auto simp: Let_def split: option.splits prod.splits if_splits)


lemma index_of_label: "index_of manifests label = Some n \<Longrightarrow> pm_name (manifests ! n) = label"
  by (auto simp: index_of_def set_zip dest!: map_of_SomeD)

text \<open>The invariant of the walk: the results of the active manifest hold nothing else.\<close>

definition isolated :: "store_context \<Rightarrow> nat \<Rightarrow> 'p graph_walk \<Rightarrow> bool" where
  "isolated store active w \<longleftrightarrow> only_malformed_edges (pm_name (cx_manifests store ! active)) (gw_results w ! active)"

lemma isolated_other: "index \<noteq> active \<Longrightarrow> isolated store active w \<Longrightarrow> gw_results w' = (gw_results w)[index := r] \<Longrightarrow> isolated store active w'"
  by (simp add: isolated_def)

lemma isolated_active:
  "only_malformed_edges (pm_name (cx_manifests store ! active)) r \<Longrightarrow> isolated store active w \<Longrightarrow>
     gw_results w' = (gw_results w)[active := r] \<Longrightarrow> isolated store active w'"
  by (cases "active < length (gw_results w)") (simp_all add: isolated_def list_update_beyond)

lemma follow_edges_isolated:
  assumes "isolated store active w" and "follow_edges digest store profile index depth claim refs w = (stop, w')"
  shows "isolated store active w'"
proof -
  let ?m = "cx_manifests store ! index"
  obtain refs' es r where e: "manifest_edges digest ?m claim refs (claim_generation_of ?m claim) profile (gw_results w ! index) = (refs', es, r)"
    by (rule prod_cases3)
  have res: "gw_results w' = (gw_results w)[index := r]"
    using assms(2) by (auto simp: follow_edges_def e Let_def dest!: enqueue_edges_results split: prod.splits if_splits)
  show ?thesis
  proof (cases "index = active")
    case True
    then have "only_malformed_edges (pm_name ?m) r" using manifest_edges_malformed [OF _ e] assms(1) by (simp add: isolated_def)
    with True show ?thesis using isolated_active [OF _ assms(1)] res by simp
  next
    case False
    then show ?thesis using isolated_other [OF _ assms(1) res] by simp
  qed
qed

lemma validate_node_results:
  "validate_node digest verify_signature error_text store profile index claim refs w = (ok, refs', w') \<Longrightarrow>
     \<exists>r. gw_results w' = (gw_results w)[index := r]"
  by (auto simp: validate_node_def Let_def split: prod.splits)

lemma visit_manifest_isolated:
  assumes "isolated store active w"
    and "visit_manifest digest verify_signature error_text from_slice store profile active index depth w = (stop, w')"
  shows "isolated store active w'"
proof -
  let ?m = "cx_manifests store ! index"
  obtain ok1 g1 where n: "charge_node (gw_budget w) = (ok1, g1)" by fastforce
  obtain ok2 g2 where b: "(if ok1 then charge_bytes (length (manifest_jumbf ?m)) g1 else (False, g1)) = (ok2, g2)" by fastforce
  let ?w = "w\<lparr>gw_budget := g2\<rparr>"
  have w: "isolated store active ?w" using assms(1) by (simp add: isolated_def)
  note run = assms(2) [unfolded visit_manifest_def, simplified Let_def n b prod.case]
  show ?thesis
  proof (cases "ok2 \<and> claim_of ?m \<noteq> None")
    case False
    then have "w' = ?w \<or> index \<noteq> active \<and> (\<exists>r. gw_results w' = (gw_results ?w)[index := r])"
      using run by (auto split: if_splits)
    with w isolated_other [of index active store ?w w'] show ?thesis by auto
  next
    case True
    then obtain claim where c: "claim_of ?m = Some claim" and ok2 by blast
    let ?refs = "(claim_refs_build from_slice ?m claim (claim_generation_of ?m claim))\<lparr>cr_redactions := redactions g2\<rparr>"
    consider (skip) "index \<noteq> active" "is_time_stamp_manifest ?refs" | (active) "index = active"
      | (other) "index \<noteq> active" "\<not> is_time_stamp_manifest ?refs" by blast
    then show ?thesis
    proof cases
      case skip
      then show ?thesis using run w c \<open>ok2\<close> by simp
    next
      case active
      then show ?thesis using run c \<open>ok2\<close> follow_edges_isolated [OF w] by (simp add: active)
    next
      case other
      obtain ok refs w2 where v: "validate_node digest verify_signature error_text store profile index claim ?refs ?w = (ok, refs, w2)"
        by (rule prod_cases3)
      obtain r where "gw_results w2 = (gw_results ?w)[index := r]" using validate_node_results [OF v] by blast
      then have w2: "isolated store active w2" using isolated_other [OF other(1) w] by blast
      show ?thesis
        using run c \<open>ok2\<close> other v w2 follow_edges_isolated [OF w2] by (auto split: if_splits)
    qed
  qed
qed

lemma walk_graph_isolated:
  "isolated store active w \<Longrightarrow> isolated store active (walk_graph digest verify_signature error_text from_slice store profile active w)"
proof (induction digest verify_signature error_text from_slice store profile active w rule: walk_graph.induct)
  case (1 digest verify_signature error_text from_slice store profile active w)
  show ?case
  proof (cases "gw_queue w")
    case Nil
    then show ?thesis using 1(2) by (simp add: walk_graph.simps)
  next
    case (Cons x queue)
    obtain index depth where x: "x = (index, depth)" by fastforce
    obtain stop w' where v: "visit_manifest digest verify_signature error_text from_slice store profile active index depth
        (w\<lparr>gw_queue := queue\<rparr>) = (stop, w')" by fastforce
    have "isolated store active (w\<lparr>gw_queue := queue\<rparr>)" using 1(2) by (simp add: isolated_def)
    from visit_manifest_isolated [OF this v] have "isolated store active w'" .
    then show ?thesis
      using 1(1) [OF Cons x [symmetric] refl v [symmetric]] by (simp add: walk_graph.simps [of _ _ _ _ _ _ _ w] Cons x v)
  qed
qed

text \<open>
  C13: The ingredient walk never folds a defect of an ingredient manifest into the verdict of the active manifest: what it contributes
  there are no successes, as informational codes only reached ceilings, and as failures only ingredient assertions of
  the active manifest itself that record no verdict for the manifest they link.
\<close>

theorem ingredient_defects_isolated:
  assumes "graph_build digest verify_signature error_text from_slice active_label store profile g resources = (graph, g', resources')"
  shows "success (ig_active graph) = []
    \<and> (\<forall>s \<in> set (informational (ig_active graph)). sc_code s = GRAPH_LIMIT_EXCEEDED)
    \<and> (\<forall>s \<in> set (failure (ig_active graph)).
         sc_code s = ASSERTION_INGREDIENT_MALFORMED \<and> (\<exists>label. sc_url s = assertion_url active_label label))"
proof (cases "index_of (cx_manifests store) active_label")
  case None
  then show ?thesis using assms by (auto simp: graph_build_def results_default_def)
next
  case (Some active)
  let ?w = "walk_graph digest verify_signature error_text from_slice store profile active (graph_start store profile active g resources)"
  have "isolated store active (graph_start store profile active g resources)"
    using index_of_less [OF Some] by (simp add: isolated_def graph_start_def only_malformed_edges_def results_default_def)
  then have i: "only_malformed_edges active_label (gw_results ?w ! active)"
    using walk_graph_isolated [of store active _ digest verify_signature error_text from_slice profile]
    unfolding isolated_def index_of_label [OF Some] by blast
  obtain g1 r where r: "budget_report active_label (gw_budget ?w) results_default = (g1, r)" by fastforce
  then have "success r = []" "failure r = []" "\<forall>s \<in> set (informational r). sc_code s = GRAPH_LIMIT_EXCEEDED"
    unfolding budget_report_eq by (auto simp: results_default_def ceiling_status_def)
  moreover have "ig_active graph = append_results r (gw_results ?w ! active)"
    using assms Some r by (auto simp: graph_build_def Let_def)
  ultimately show ?thesis using i by (auto simp: append_results_def only_malformed_edges_def)
qed

text \<open>An active manifest without a claim.\<close>

definition bare_store :: store_context where
  "bare_store = \<lparr>cx_manifests = [\<lparr>pm_label = ascii ''a'', manifest_jumbf = [], assertions = [], assertion_jumbf = [],
     claim_cbor = None, signature_cose = None, claim_count = 0, claim_box_label = None\<rparr>], cx_hashes = Map.empty\<rparr>"

theorem ingredient_defects_isolated_witness:
  "failure (ig_active (fst (graph_build (\<lambda>_ bs. bs) (\<lambda>_ _ _ _. Inr ()) (\<lambda>_. []) (\<lambda>_. None) ''a'' bare_store GENEROUS
     (budget_new graph_limits_DEFAULT) (with_evidence None ()
       \<lparr>oe_ocsp_responses = None, oe_ocsp_unreachable = None, oe_external_data = None, oe_external_data_media_types = None,
        oe_external_data_unreachable = None\<rparr>)))) = []"
  (is "failure (ig_active (fst ?b)) = []")
proof -
  obtain graph g resources where b: "?b = (graph, g, resources)" by (rule prod_cases3)
  have i: "index_of (cx_manifests bare_store) ''a'' = Some 0" by code_simp
  have c: "claim_of (cx_manifests bare_store ! 0) = None" by (simp add: bare_store_def claim_of_def)
  have l: "length (manifest_jumbf (cx_manifests bare_store ! 0)) = 0" by (simp add: bare_store_def)
  have f: "failure (ig_active graph) = []"
    using b i c l
    by (auto simp: graph_build_def graph_start_def walk_graph.simps [of _ _ _ _ _ _ _ "\<lparr>gw_results = _, gw_reached = _, gw_pending = _,
            gw_queue = _ # _, gw_cache = _, gw_budget = _, gw_resources = _\<rparr>"] walk_graph.simps [of _ _ _ _ _ _ _ "\<lparr>gw_results = _,
            gw_reached = _, gw_pending = _, gw_queue = [], gw_cache = _, gw_budget = _, gw_resources = _\<rparr>"]
          visit_manifest_def charge_node_def charge_bytes_def
          budget_new_def graph_limits_DEFAULT_def lowered_def saturating_add_def usize_max_def budget_report_eq due_def Let_def
          append_results_def results_default_def bare_store_def)
  with ingredient_defects_isolated [OF b] show ?thesis unfolding b by simp
qed

end
