(* ===== verification/Format_Bmff.thy ===== *)
theory Format_Bmff
  imports Format_Jpeg Format_Png Jumbf Cbor Engine_Profile
begin

text \<open>
  ISO base media files (MP4, MOV, HEIF, AVIF): \<^verbatim>\<open>c2pa-formats/bmff.rs\<close> and the box walk of
  \<^verbatim>\<open>c2pa-formats/util.rs\<close>. This theory holds the top-level carriers: the C2PA \<open>uuid\<close> boxes with their
  \<open>box_purpose\<close>, the placement rules of the two specification versions, the extraction of the manifest
  store, the auxiliary Merkle boxes and the brands. A string slice is its UTF-8 bytes.
\<close>

section \<open>Boxes\<close>

definition TYPE_UUID_BOX :: bytes where "TYPE_UUID_BOX = ascii ''uuid''"
definition TYPE_FTYP :: bytes where "TYPE_FTYP = ascii ''ftyp''"
definition TYPE_STYP :: bytes where "TYPE_STYP = ascii ''styp''"

definition C2PA_BMFF_UUID :: bytes where
  "C2PA_BMFF_UUID = [0xd8, 0xfe, 0xc3, 0xd6, 0x1b, 0x0e, 0x48, 0x3c, 0x92, 0x97, 0x58, 0x28, 0x87, 0x7e, 0xc4, 0x81]"

record iso_box =
  ib_type :: bytes
  ib_start :: nat
  ib_payload :: nat
  ib_end :: nat

text \<open>The header at \<open>pos\<close> of a range that ends at \<open>hi\<close>: where the payload starts and the box ends.\<close>

definition iso_extent :: "asset_format \<Rightarrow> bytes \<Rightarrow> nat \<Rightarrow> nat \<Rightarrow> format_error + (nat \<times> nat)" where
  "iso_extent format data hi pos =
     res_bind (ok_or (be_u32 data pos) (Truncated format)) (\<lambda>size32.
       if size32 = 1 then
         res_bind (ok_or (be_u64 data (pos + 8)) (Truncated format)) (\<lambda>large64.
         res_bind (ok_or (u64_to_usize large64) (Truncated format)) (\<lambda>large.
         res_bind (ok_or (if large \<ge> 16 then add_within pos large hi else None) (Truncated format)) (\<lambda>e.
           Inr (pos + 16, e))))
       else if size32 = 0 then Inr (pos + 8, hi)
       else
         res_bind (ok_or (u64_to_usize size32) (Truncated format)) (\<lambda>size.
         res_bind (ok_or (if size \<ge> 8 then add_within pos size hi else None) (Truncated format)) (\<lambda>e.
           Inr (pos + 8, e))))"

definition iso_box_at :: "asset_format \<Rightarrow> bytes \<Rightarrow> nat \<Rightarrow> nat \<Rightarrow> format_error + iso_box" where
  "iso_box_at format data hi pos =
     res_bind (iso_extent format data hi pos) (\<lambda>(payload_start, e).
       Inr \<lparr>ib_type = slice data (pos + 4) (pos + 8), ib_start = pos, ib_payload = payload_start, ib_end = e\<rparr>)"

text \<open>
  The walk, as the list of the boxes it visits; a callback is a fold over it. The last test is the
  source's guard against a box of no length.
\<close>

function iso_boxes :: "asset_format \<Rightarrow> bytes \<Rightarrow> nat \<Rightarrow> nat \<Rightarrow> format_error + iso_box list" where
  "iso_boxes format data hi pos =
     (if pos + 8 \<le> hi then
        res_bind (iso_box_at format data hi pos) (\<lambda>b.
          if ib_end b \<le> pos then Inr [b]
          else res_bind (iso_boxes format data hi (ib_end b)) (\<lambda>bs. Inr (b # bs)))
      else Inr [])"
  by pat_completeness auto
termination
  by (relation "measure (\<lambda>(format, data, hi, pos). hi - pos)") auto

declare iso_boxes.simps [simp del]

definition walk_iso_boxes :: "asset_format \<Rightarrow> bytes \<Rightarrow> format_error + iso_box list" where
  "walk_iso_boxes format data = iso_boxes format data (length data) 0"

definition walk_boxes_range :: "bytes \<Rightarrow> nat \<Rightarrow> nat \<Rightarrow> format_error + iso_box list" where
  "walk_boxes_range data lo hi = iso_boxes Bmff data hi lo"

definition check_bmff :: "bytes \<Rightarrow> format_error + unit" where
  "check_bmff data =
     res_bind (walk_iso_boxes Bmff data) (\<lambda>bs.
       if list_ex (\<lambda>b. ib_start b = 0) bs then Inr ()
       else Inl (BadStructure Bmff ''no parseable top-level box''))"

section \<open>C2PA boxes\<close>

definition is_c2pa_uuid :: "bytes \<Rightarrow> iso_box \<Rightarrow> bool" where
  "is_c2pa_uuid data b \<longleftrightarrow>
     ib_type b = TYPE_UUID_BOX \<and> ib_payload b + 16 \<le> ib_end b
     \<and> slice data (ib_payload b) (ib_payload b + 16) = C2PA_BMFF_UUID"

definition MAX_BOX_PURPOSE_BYTES :: nat where "MAX_BOX_PURPOSE_BYTES = 64"

datatype box_purpose = PurposeStore | PurposeUpdate | PurposeAuxiliary

definition c2pa_box_purpose :: "bytes \<Rightarrow> (bytes \<times> bytes) option" where
  "c2pa_box_purpose payload_after_uuid =
     (if length payload_after_uuid < 4 then None
      else let after_version_flags = drop 4 payload_after_uuid
           in map_option (\<lambda>nul. (take nul after_version_flags, drop (nul + 1) after_version_flags))
                (position (\<lambda>b. b = 0) (take MAX_BOX_PURPOSE_BYTES after_version_flags)))"

definition box_purpose_of :: "bytes \<Rightarrow> box_purpose" where
  "box_purpose_of payload_after_uuid =
     (case c2pa_box_purpose payload_after_uuid of
        Some (label, _) \<Rightarrow>
          if label = ascii ''update'' then PurposeUpdate
          else if label = ascii ''merkle'' then PurposeAuxiliary else PurposeStore
      | None \<Rightarrow> PurposeStore)"

section \<open>Placement\<close>

definition carrier_label :: "bytes \<Rightarrow> iso_box \<Rightarrow> bytes option" where
  "carrier_label data b =
     (if is_c2pa_uuid data b then
        Option.bind (slice_get data (ib_payload b + 16) (ib_end b)) (\<lambda>payload.
        Option.bind (c2pa_box_purpose payload) (\<lambda>(label, _).
          if utf8_valid label then Some label else None))
      else None)"

type_synonym labelled_box = "bytes \<times> bytes option"

definition is_media :: "labelled_box \<Rightarrow> bool" where
  "is_media b \<longleftrightarrow> fst b = ascii ''mdat'' \<or> fst b = ascii ''moov''"

definition is_moov_at :: "labelled_box list \<Rightarrow> nat option \<Rightarrow> bool" where
  "is_moov_at boxes index =
     (case Option.bind index (nth_opt boxes) of Some b \<Rightarrow> fst b = ascii ''moov'' | None \<Rightarrow> False)"

definition UPDATE_NOT_LAST :: string where
  "UPDATE_NOT_LAST = ''BMFF update manifest carrier is not the last box''"

definition is_manifest_label :: "bytes option \<Rightarrow> bool" where
  "is_manifest_label purpose \<longleftrightarrow> purpose = Some (ascii ''manifest'') \<or> purpose = Some (ascii ''original'')"

text \<open>What the two loops say of the box at one index.\<close>

definition placement_at_v2_5 :: "labelled_box list \<Rightarrow> nat \<Rightarrow> string option" where
  "placement_at_v2_5 boxes index =
     (let purpose = snd (boxes ! index);
          first_ftyp = position (\<lambda>b. fst b = TYPE_FTYP) boxes;
          first_media = position is_media boxes
      in if is_manifest_label purpose then
           (let after_ftyp = (case first_ftyp of Some ftyp \<Rightarrow> index > ftyp | None \<Rightarrow> False);
                before_media = (case first_media of Some media \<Rightarrow> index < media | None \<Rightarrow> True);
                adjacent_to_moov = is_moov_at boxes (if index = 0 then None else Some (index - 1))
                                   \<or> is_moov_at boxes (checked_add index 1)
            in if \<not> after_ftyp \<or> \<not> (before_media \<or> adjacent_to_moov)
               then Some ''BMFF manifest carrier is not after ftyp and before the first mdat/moov or adjacent to moov''
               else None)
         else if purpose = Some (ascii ''update'') \<and> index + 1 \<noteq> length boxes then Some UPDATE_NOT_LAST
         else None)"

definition placement_at :: "labelled_box list \<Rightarrow> nat \<Rightarrow> string option" where
  "placement_at boxes index =
     (let purpose = snd (boxes ! index);
          first_ftyp = position (\<lambda>b. fst b = TYPE_FTYP) boxes
      in if is_manifest_label purpose then
           (if (case first_ftyp of Some ftyp \<Rightarrow> index \<le> ftyp | None \<Rightarrow> True) \<or> list_ex is_media (take index boxes)
            then Some ''BMFF manifest carrier is not after ftyp and before moov/mdat''
            else None)
         else if purpose = Some (ascii ''update'') \<and> index + 1 \<noteq> length boxes then Some UPDATE_NOT_LAST
         else None)"

definition labelled_boxes :: "bytes \<Rightarrow> format_error + labelled_box list" where
  "labelled_boxes data =
     res_bind (check_bmff data) (\<lambda>_.
     res_bind (walk_iso_boxes Bmff data) (\<lambda>bs. Inr (map (\<lambda>b. (ib_type b, carrier_label data b)) bs)))"

text \<open>The first index with a complaint decides.\<close>

definition first_complaint :: "(nat \<Rightarrow> string option) \<Rightarrow> nat \<Rightarrow> string option" where
  "first_complaint f n = Option.bind (find (\<lambda>i. f i \<noteq> None) [0..<n]) f"

definition bmff_placement_error_v2_5 :: "bytes \<Rightarrow> format_error + string option" where
  "bmff_placement_error_v2_5 data =
     res_bind (labelled_boxes data) (\<lambda>boxes. Inr (first_complaint (placement_at_v2_5 boxes) (length boxes)))"

definition bmff_placement_error :: "bytes \<Rightarrow> format_error + string option" where
  "bmff_placement_error data =
     res_bind (labelled_boxes data) (\<lambda>boxes. Inr (first_complaint (placement_at boxes) (length boxes)))"

section \<open>Extraction\<close>

definition jumb_box_at :: "bytes \<Rightarrow> nat \<Rightarrow> bytes option" where
  "jumb_box_at payload i =
     (if slice payload (i + 4) (i + 8) = ascii ''jumb'' then
        let lbox = be_val (slice payload i (i + 4));
            (header_len, declared) =
              (if lbox = 0 then (8, Some (length payload - i))
               else if lbox = 1 then
                 (16, Option.bind (slice_get payload (i + 8) (i + 16)) (\<lambda>bs. u64_to_usize (be_val bs)))
               else (8, u64_to_usize lbox))
        in Option.bind declared (\<lambda>declared_len.
             if declared_len \<ge> header_len
             then map_option (slice payload i) (add_within i declared_len (length payload))
             else None)
      else None)"

function jumb_search :: "bytes \<Rightarrow> nat \<Rightarrow> bytes option" where
  "jumb_search payload i =
     (if i + 8 \<le> length payload
      then (case jumb_box_at payload i of Some store \<Rightarrow> Some store | None \<Rightarrow> jumb_search payload (i + 1))
      else None)"
  by pat_completeness auto
termination
  by (relation "measure (\<lambda>(payload, i). length payload - i)") auto

declare jumb_search.simps [simp del]

definition jumbf_from_uuid_payload :: "bytes \<Rightarrow> bytes option" where
  "jumbf_from_uuid_payload payload = jumb_search payload 0"

text \<open>The callback of the extraction: the first original store, the last update store.\<close>

definition extract_step :: "bytes \<Rightarrow> bytes option \<times> bytes option \<Rightarrow> iso_box \<Rightarrow> bytes option \<times> bytes option" where
  "extract_step data = (\<lambda>(original, updated) b.
     if \<not> is_c2pa_uuid data b then (original, updated)
     else let payload = slice data (ib_payload b + 16) (ib_end b);
              purpose = box_purpose_of payload
          in if purpose = PurposeAuxiliary then (original, updated)
             else (case jumbf_from_uuid_payload payload of
                     None \<Rightarrow> (original, updated)
                   | Some store \<Rightarrow>
                       if purpose = PurposeUpdate then (original, Some store)
                       else (if original = None then Some store else original, updated)))"

definition ensure_store :: "bytes option \<Rightarrow> format_error + unit" where
  "ensure_store store =
     (case store of Some s \<Rightarrow> ensure_manifest_store_size Bmff (length s) | None \<Rightarrow> Inr ())"

definition select_store :: "bytes option \<Rightarrow> bytes option \<Rightarrow> bytes option" where
  "select_store original updated =
     (case (original, updated) of
        (Some o1, Some u1) \<Rightarrow> Some (unwrap_or (merge_manifest_stores o1 u1) u1)
      | (None, Some store) \<Rightarrow> Some store
      | (Some store, None) \<Rightarrow> Some store
      | (None, None) \<Rightarrow> None)"

definition bmff_extract :: "bytes \<Rightarrow> format_error + bytes option" where
  "bmff_extract data =
     res_bind (check_bmff data) (\<lambda>_.
     res_bind (walk_iso_boxes Bmff data) (\<lambda>bs.
       case foldl (extract_step data) (None, None) bs of
         (original, updated) \<Rightarrow>
           res_bind (ensure_store original) (\<lambda>_.
           res_bind (ensure_store updated) (\<lambda>_.
             case select_store original updated of
               None \<Rightarrow> Inr None
             | Some selected \<Rightarrow>
                 res_bind (ensure_manifest_store_size Bmff (length selected)) (\<lambda>_. Inr (Some selected))))))"

definition bmff_exclusions :: "bytes \<Rightarrow> format_error + data_hash_exclusion list" where
  "bmff_exclusions data =
     res_bind (walk_iso_boxes Bmff data) (\<lambda>bs.
       Inr (foldl (\<lambda>ex b. if is_c2pa_uuid data b
                          then ex @ [\<lparr>ex_start = ib_start b, ex_length = ib_end b - ib_start b\<rparr>] else ex) [] bs))"

section \<open>Auxiliary Merkle boxes\<close>

definition MAX_BMFF_HASH_BOXES :: nat where "MAX_BMFF_HASH_BOXES = 100000"
definition MAX_BMFF_MERKLE_BOXES :: nat where "MAX_BMFF_MERKLE_BOXES = 100000"
definition MAX_BMFF_MERKLE_ENCODED_BYTES :: nat where "MAX_BMFF_MERKLE_ENCODED_BYTES = 16 * 1024"
definition MAX_BMFF_MERKLE_PROOF_HASHES :: nat where "MAX_BMFF_MERKLE_PROOF_HASHES = 64"
definition MAX_BMFF_MERKLE_PROOF_BYTES :: nat where "MAX_BMFF_MERKLE_PROOF_BYTES = 4096"
definition MAX_BMFF_MERKLE_TOTAL_PROOF_HASHES :: nat where "MAX_BMFF_MERKLE_TOTAL_PROOF_HASHES = 262144"
definition MAX_BMFF_MERKLE_TOTAL_PROOF_BYTES :: nat where "MAX_BMFF_MERKLE_TOTAL_PROOF_BYTES = 16 * 1024 * 1024"

record bmff_merkle_box =
  mb_unique_id :: int
  mb_local_id :: int
  mb_location :: nat
  mb_proof :: "bytes list"

definition map_int :: "cbor_value \<Rightarrow> string \<Rightarrow> int option" where
  "map_int v k = (case value_get v (ascii k) of Some (Integer n) \<Rightarrow> Some n | _ \<Rightarrow> None)"

fun proof_hashes :: "nat \<Rightarrow> cbor_value list \<Rightarrow> string + bytes list" where
  "proof_hashes proof_bytes [] = Inr []"
| "proof_hashes proof_bytes (it # its) =
     (case it of
        Bytes h \<Rightarrow>
          res_bind (ok_or (add_within proof_bytes (length h) MAX_BMFF_MERKLE_PROOF_BYTES)
                      ''merkle box proof bytes exceed verifier bound'') (\<lambda>bytes_now.
          res_bind (proof_hashes bytes_now its) (\<lambda>hs. Inr (h # hs)))
      | _ \<Rightarrow> Inl ''merkle box hashes entry is not a byte string'')"

definition merkle_proof :: "cbor_value option \<Rightarrow> string + bytes list" where
  "merkle_proof v =
     (case v of
        None \<Rightarrow> Inr []
      | Some (Array its) \<Rightarrow>
          if length its > MAX_BMFF_MERKLE_PROOF_HASHES then Inl ''merkle box proof exceeds verifier bound''
          else proof_hashes 0 its
      | Some _ \<Rightarrow> Inl ''merkle box hashes is not an array'')"

definition parse_merkle_map :: "bytes \<Rightarrow> string + bmff_merkle_box" where
  "parse_merkle_map cbor =
     res_bind (map_err (\<lambda>_. ''merkle box CBOR invalid'') (decode_prefix (take MAX_BMFF_MERKLE_ENCODED_BYTES cbor)))
       (\<lambda>(v, consumed).
         if list_ex (\<lambda>b. b \<noteq> 0) (drop consumed cbor) then Inl ''merkle box has non-zero bytes after CBOR''
         else res_bind (ok_or (map_int v ''uniqueId'') ''merkle box missing uniqueId'') (\<lambda>unique_id.
              res_bind (ok_or (map_int v ''localId'') ''merkle box missing localId'') (\<lambda>local_id.
              res_bind (ok_or (Option.bind (map_int v ''location'')
                                 (\<lambda>n. if 0 \<le> n \<and> nat n \<le> usize_max then Some (nat n) else None))
                          ''merkle box missing location'') (\<lambda>location.
              res_bind (merkle_proof (value_get v (ascii ''hashes''))) (\<lambda>proof_list.
                Inr \<lparr>mb_unique_id = unique_id, mb_local_id = local_id, mb_location = location,
                     mb_proof = proof_list\<rparr>)))))"

record merkle_scan =
  ms_found :: "(string + bmff_merkle_box) list"
  ms_too_many :: bool
  ms_limit_error :: "string option"
  ms_hashes :: nat
  ms_bytes :: nat

definition MERKLE_PROOF_LIMIT :: string where
  "MERKLE_PROOF_LIMIT = ''BMFF merkle proof data exceeds verifier bound''"

text \<open>A parsed box is recorded with its proof counted, unless the counts pass a bound.\<close>

definition record_merkle :: "string + bmff_merkle_box \<Rightarrow> merkle_scan \<Rightarrow> merkle_scan" where
  "record_merkle parsed s =
     (case parsed of
        Inl _ \<Rightarrow> s\<lparr>ms_found := ms_found s @ [parsed]\<rparr>
      | Inr merkle_box \<Rightarrow>
          (case (checked_add (ms_hashes s) (length (mb_proof merkle_box)),
                 checked_sum (ms_bytes s) (map length (mb_proof merkle_box))) of
             (Some next_hashes, Some next_bytes) \<Rightarrow>
               if next_hashes > MAX_BMFF_MERKLE_TOTAL_PROOF_HASHES
                  \<or> next_bytes > MAX_BMFF_MERKLE_TOTAL_PROOF_BYTES
               then s\<lparr>ms_limit_error := Some MERKLE_PROOF_LIMIT\<rparr>
               else s\<lparr>ms_hashes := next_hashes, ms_bytes := next_bytes, ms_found := ms_found s @ [parsed]\<rparr>
           | _ \<Rightarrow> s\<lparr>ms_limit_error := Some MERKLE_PROOF_LIMIT\<rparr>))"

definition merkle_step :: "bytes \<Rightarrow> merkle_scan \<Rightarrow> iso_box \<Rightarrow> merkle_scan" where
  "merkle_step data s b =
     (if ms_too_many s \<or> ms_limit_error s \<noteq> None \<or> \<not> is_c2pa_uuid data b then s
      else (case c2pa_box_purpose (slice data (ib_payload b + 16) (ib_end b)) of
              None \<Rightarrow> s
            | Some (purpose, cbor) \<Rightarrow>
                if purpose \<noteq> ascii ''merkle'' then s
                else if length (ms_found s) \<ge> MAX_BMFF_MERKLE_BOXES then s\<lparr>ms_too_many := True\<rparr>
                else record_merkle (parse_merkle_map cbor) s))"

definition merkle_scan_start :: merkle_scan where
  "merkle_scan_start = \<lparr>ms_found = [], ms_too_many = False, ms_limit_error = None, ms_hashes = 0, ms_bytes = 0\<rparr>"

definition bmff_merkle_boxes :: "bytes \<Rightarrow> format_error + (string + bmff_merkle_box) list" where
  "bmff_merkle_boxes data =
     res_bind (walk_iso_boxes Bmff data) (\<lambda>bs.
       let s = foldl (merkle_step data) merkle_scan_start bs
       in case ms_limit_error s of
            Some detail \<Rightarrow> Inl (BadStructure Bmff detail)
          | None \<Rightarrow>
              if ms_too_many s then Inl (BadStructure Bmff ''BMFF merkle box count exceeds verifier bound'')
              else Inr (ms_found s))"

definition mdat_step :: "(nat \<times> nat) list \<times> bool \<Rightarrow> iso_box \<Rightarrow> (nat \<times> nat) list \<times> bool" where
  "mdat_step = (\<lambda>(spans, too_many) b.
     if ib_type b = ascii ''mdat'' then
       (if length spans \<ge> MAX_BMFF_HASH_BOXES then (spans, True)
        else (spans @ [(ib_payload b, ib_end b - ib_payload b)], too_many))
     else (spans, too_many))"

definition bmff_mdat_payloads :: "bytes \<Rightarrow> format_error + (nat \<times> nat) list" where
  "bmff_mdat_payloads data =
     res_bind (walk_iso_boxes Bmff data) (\<lambda>bs.
       case foldl mdat_step ([], False) bs of
         (spans, too_many) \<Rightarrow>
           if too_many then Inl (BadStructure Bmff ''BMFF mdat count exceeds verifier bound'') else Inr spans)"

section \<open>Brands\<close>

record bmff_brands =
  bb_box_type :: bytes
  bb_major :: bytes
  bb_compatible :: "bytes list"

definition declares_brand :: "bmff_brands \<Rightarrow> bytes \<Rightarrow> bool" where
  "declares_brand brands brand \<longleftrightarrow> bb_major brands = brand \<or> list_ex (\<lambda>b. b = brand) (bb_compatible brands)"

definition declares_any :: "bmff_brands \<Rightarrow> bytes list \<Rightarrow> bool" where
  "declares_any brands wanted \<longleftrightarrow> list_ex (declares_brand brands) wanted"

definition brand_token :: "bytes \<Rightarrow> format_error + bytes" where
  "brand_token code =
     (if length code \<noteq> 4 \<or> list_ex (\<lambda>b. \<not> (0x20 \<le> b \<and> b \<le> 0x7E)) code
      then Inl (BadStructure Bmff ''brand code is not four printable ASCII bytes'') else Inr code)"

fun brand_tokens :: "bytes list \<Rightarrow> format_error + bytes list" where
  "brand_tokens [] = Inr []"
| "brand_tokens (c # cs) = res_bind (brand_token c) (\<lambda>b. res_bind (brand_tokens cs) (\<lambda>bs. Inr (b # bs)))"

definition read_brands :: "bytes \<Rightarrow> bytes \<Rightarrow> format_error + bmff_brands" where
  "read_brands box_type payload =
     (if length payload < 8 then Inl (Truncated Bmff)
      else if (length payload - 8) mod 4 \<noteq> 0
        then Inl (BadStructure Bmff ''compatible_brands is not a whole number of 4-byte brand codes'')
      else res_bind (brand_tokens (chunks_of 4 (drop 8 payload))) (\<lambda>compatible.
           res_bind (brand_token box_type) (\<lambda>bt.
           res_bind (brand_token (take 4 payload)) (\<lambda>major.
             Inr \<lparr>bb_box_type = bt, bb_major = major, bb_compatible = compatible\<rparr>))))"

definition read_bmff_brands :: "bytes \<Rightarrow> format_error + bmff_brands" where
  "read_bmff_brands data =
     res_bind (check_bmff data) (\<lambda>_.
     res_bind (walk_iso_boxes Bmff data) (\<lambda>bs.
       let leading = foldl (\<lambda>l b. if ib_start b = 0 then Some b else l) None bs
       in res_bind (ok_or leading (BadStructure Bmff ''no leading top-level box'')) (\<lambda>b.
            if ib_type b \<noteq> TYPE_FTYP \<and> ib_type b \<noteq> TYPE_STYP
            then Inl (BadStructure Bmff ''leading box is neither ftyp nor styp, so the asset declares_brand no brands'')
            else read_brands (ib_type b) (slice data (ib_payload b) (ib_end b)))))"

definition FMP4_INIT_BRANDS :: "bytes list" where
  "FMP4_INIT_BRANDS = map ascii [''iso5'', ''iso6'', ''iso7'', ''iso8'', ''iso9'', ''dash'', ''msdh'', ''msix'',
     ''cmfc'', ''cmf2'', ''cmfh'']"

definition FMP4_SEGMENT_BRANDS :: "bytes list" where
  "FMP4_SEGMENT_BRANDS = map ascii [''msdh'', ''msix'', ''sisx'', ''ssss'', ''lmsg'', ''iso5'', ''iso6'', ''iso7'',
     ''iso8'', ''iso9'', ''dash'', ''cmfs'', ''cmff'', ''cmfl'', ''cmfc'', ''cmf2'']"

definition CMAF_INIT_BRANDS :: "bytes list" where
  "CMAF_INIT_BRANDS = map ascii [''cmfc'', ''cmf2'', ''cmfh'']"

definition CMAF_SEGMENT_BRANDS :: "bytes list" where
  "CMAF_SEGMENT_BRANDS = map ascii [''cmfs'', ''cmff'', ''cmfl'', ''cmfc'', ''cmf2'']"

datatype stream_encapsulation = Fmp4 | Cmaf
datatype stream_method = VerifiableSegmentInfo | PerSegment
datatype stream_file_role = RoleInit | RoleSegment

fun encapsulation_token :: "stream_encapsulation \<Rightarrow> string" where
  "encapsulation_token Fmp4 = ''fMP4''"
| "encapsulation_token Cmaf = ''CMAF''"

definition encapsulation_from_token :: "string \<Rightarrow> stream_encapsulation option" where
  "encapsulation_from_token token = find (\<lambda>v. eq_ignore_ascii_case token (encapsulation_token v)) [Fmp4, Cmaf]"

fun init_brands :: "stream_encapsulation \<Rightarrow> bytes list" where
  "init_brands Fmp4 = FMP4_INIT_BRANDS"
| "init_brands Cmaf = CMAF_INIT_BRANDS"

fun segment_brands :: "stream_encapsulation \<Rightarrow> bytes list" where
  "segment_brands Fmp4 = FMP4_SEGMENT_BRANDS"
| "segment_brands Cmaf = CMAF_SEGMENT_BRANDS"

fun stream_method_token :: "stream_method \<Rightarrow> string" where
  "stream_method_token VerifiableSegmentInfo = ''verifiable-segment-info''"
| "stream_method_token PerSegment = ''per-segment''"

definition stream_method_from_token :: "string \<Rightarrow> stream_method option" where
  "stream_method_from_token token =
     find (\<lambda>v. eq_ignore_ascii_case token (stream_method_token v)) [VerifiableSegmentInfo, PerSegment]"

fun missing_brand :: "stream_file_role \<Rightarrow> stream_encapsulation \<Rightarrow> string" where
  "missing_brand RoleInit Fmp4 = ''stream init segment declares_brand no fragmented-MP4 brand''"
| "missing_brand RoleSegment Fmp4 = ''stream media segment declares_brand no fragmented-MP4 brand''"
| "missing_brand RoleInit Cmaf = ''stream init segment declares_brand no CMAF brand''"
| "missing_brand RoleSegment Cmaf = ''stream media segment declares_brand no CMAF brand''"

definition bmff_check_stream_brand ::
    "bytes \<Rightarrow> stream_file_role \<Rightarrow> stream_encapsulation \<Rightarrow> format_error + bmff_brands" where
  "bmff_check_stream_brand data file_role encapsulation =
     res_bind (read_bmff_brands data) (\<lambda>brands.
       let wanted = (case file_role of RoleInit \<Rightarrow> init_brands encapsulation
                                     | RoleSegment \<Rightarrow> segment_brands encapsulation)
       in if \<not> declares_any brands wanted
          then Inl (UnsupportedVariant Bmff (missing_brand file_role encapsulation)) else Inr brands)"

section \<open>The walk\<close>

lemma iso_box_at_ok:
  assumes "iso_box_at format data hi pos = Inr b" and "pos + 8 \<le> hi"
  shows "ib_start b = pos" and "pos + 8 \<le> ib_payload b" and "ib_payload b \<le> ib_end b" and "ib_end b \<le> hi"
    and "ib_type b = slice data (pos + 4) (pos + 8)"
  using assms by (auto simp: iso_box_at_def iso_extent_def res_simps split: if_splits)

interpretation bmff: scanner "\<lambda>pos. if pos + 8 \<le> hi then iso_box_at format data hi pos else Inl (Truncated format)"
    ib_end hi "\<lambda>pos. pos + 8 \<le> hi" "\<lambda>_. False" for format data hi
  by unfold_locales (use iso_box_at_ok in \<open>fastforce split: if_splits\<close>)+

lemma iso_boxes_scan: "iso_boxes format data hi pos = bmff.scan hi format data pos"
proof (induction format data hi pos rule: iso_boxes.induct)
  case (1 format data hi pos)
  then show ?case
    using iso_box_at_ok [of format data hi pos]
    by (subst iso_boxes.simps, subst bmff.scan.simps) (fastforce intro!: res_bind_cong)
qed

lemma iso_boxes_Nil: "iso_boxes format data hi pos = Inr [] \<longleftrightarrow> hi < pos + 8"
  by (auto simp: iso_boxes_scan bmff.scan_Nil)

lemma iso_boxes_Cons:
  "iso_boxes format data hi pos = Inr (b # bs) \<longleftrightarrow>
   pos + 8 \<le> hi \<and> iso_box_at format data hi pos = Inr b \<and> iso_boxes format data hi (ib_end b) = Inr bs"
  by (auto simp: iso_boxes_scan bmff.scan_Cons split: if_splits)

definition box_spans :: "iso_box list \<Rightarrow> span list" where
  "box_spans bs = map (\<lambda>b. (ib_start b, ib_end b)) bs"

lemma iso_chunk_spans: "iso_boxes format data hi pos = Inr bs \<Longrightarrow> bmff.chunk_spans pos bs = box_spans bs"
  by (induction bs arbitrary: pos) (auto simp: iso_boxes_Cons box_spans_def iso_box_at_ok)

text \<open>The boxes tile what was walked, and fewer than eight bytes are left over.\<close>

lemma iso_boxes_tile:
  assumes "iso_boxes format data hi pos = Inr bs" and "pos \<le> hi"
  obtains e where "tiles pos (box_spans bs) e" and "e \<le> hi" and "hi < e + 8"
proof (rule that)
  note scan = assms(1) [unfolded iso_boxes_scan]
  show "tiles pos (box_spans bs) (bmff.scan_end pos bs)"
    using bmff.scan_tiles [OF scan] by (simp add: iso_chunk_spans [OF assms(1)])
  show "bmff.scan_end pos bs \<le> hi" by (rule bmff.scan_end_bound [OF scan assms(2)])
  show "hi < bmff.scan_end pos bs + 8" using bmff.scan_finished [OF scan] by simp
qed

lemma iso_boxes_each:
  assumes "iso_boxes format data hi pos = Inr bs" and "b \<in> set bs"
  shows "pos \<le> ib_start b" and "ib_start b + 8 \<le> ib_payload b" and "ib_payload b \<le> ib_end b" and "ib_end b \<le> hi"
    and "iso_box_at format data hi (ib_start b) = Inr b"
  using assms
proof (induction bs arbitrary: pos)
  case (Cons c bs)
  {
    case 1
    with Cons.IH(1) [of "ib_end c"] iso_box_at_ok [of format data hi pos c] show ?case by (force simp: iso_boxes_Cons)
  next
    case 2
    with Cons.IH(2) [of "ib_end c"] iso_box_at_ok [of format data hi pos c] show ?case by (force simp: iso_boxes_Cons)
  next
    case 3
    with Cons.IH(3) [of "ib_end c"] iso_box_at_ok [of format data hi pos c] show ?case by (force simp: iso_boxes_Cons)
  next
    case 4
    with Cons.IH(4) [of "ib_end c"] iso_box_at_ok [of format data hi pos c] show ?case by (force simp: iso_boxes_Cons)
  next
    case 5
    with Cons.IH(5) [of "ib_end c"] iso_box_at_ok [of format data hi pos c] show ?case by (force simp: iso_boxes_Cons)
  }
qed simp_all

end
