(* ===== verification/Bmff_Tree.thy ===== *)
theory Bmff_Tree
  imports Format_Bmff Checkpoint_Lines
begin

text \<open>
  The box tree of the BMFF hash and the paths that select boxes in it: \<^verbatim>\<open>c2pa-formats/bmff.rs\<close>, from the
  exclusion maps of an assertion to the boxes that match one.
\<close>

section \<open>Exclusion maps\<close>

record bmff_data_map =
  dm_offset :: nat
  dm_value :: bytes

record bmff_subset_map =
  sm_offset :: nat
  sm_length :: nat

record bmff_exclusion_map =
  xm_xpath :: bytes
  xm_length :: "nat option"
  xm_data :: "bmff_data_map list"
  xm_subset :: "bmff_subset_map list"
  xm_version :: "byte option"
  xm_flags :: "u32 option"
  xm_exact :: bool

definition HASH_CONTAINER_TYPES :: "bytes list" where
  "HASH_CONTAINER_TYPES = map ascii
     [''moov'', ''trak'', ''mdia'', ''minf'', ''stbl'', ''moof'', ''traf'', ''edts'', ''udta'', ''dinf'',
      ''tref'', ''treg'', ''mvex'', ''mfra'', ''schi'']"

definition FULL_BOX_TYPES :: "bytes list" where
  "FULL_BOX_TYPES = map ascii
     [''pdin'', ''mvhd'', ''tkhd'', ''mdhd'', ''hdlr'', ''nmhd'', ''elng'', ''stsd'', ''stdp'', ''stts'', ''ctts'',
      ''cslg'', ''stss'', ''stsh'', ''elst'', ''dref'', ''stsz'', ''stz2'', ''stsc'', ''stco'', ''co64'', ''padb'',
      ''subs'', ''saiz'', ''saio'', ''mehd'', ''trex'', ''mfhd'', ''tfhd'', ''trun'', ''tfra'', ''mfro'', ''tfdt'',
      ''leva'', ''trep'', ''assp'', ''sbgp'', ''sgpd'', ''csgp'', ''cprt'', ''tsel'', ''kind'', ''meta'', ''xml '',
      ''bxml'', ''iloc'', ''pitm'', ''ipro'', ''infe'', ''iinf'', ''iref'', ''ipma'', ''schm'', ''fiin'', ''fpar'',
      ''fecr'', ''gitn'', ''fire'', ''stri'', ''stsg'', ''stvi'', ''csch'', ''sidx'', ''ssix'', ''prft'', ''emsg'',
      ''srpp'', ''vmhd'', ''smhd'', ''srat'', ''chnl'', ''dmix'', ''txtC'', ''mime'', ''uri '', ''uriI'', ''hmhd'',
      ''sthd'', ''vvhd'', ''medc'']"

definition is_full_box :: "bytes \<Rightarrow> bool" where
  "is_full_box box_type \<longleftrightarrow> box_type \<in> set FULL_BOX_TYPES"

definition MAX_BMFF_HASH_DEPTH :: nat where "MAX_BMFF_HASH_DEPTH = 16"
definition MAX_BMFF_XPATH_BYTES :: nat where "MAX_BMFF_XPATH_BYTES = 1024"

section \<open>Paths\<close>

record hash_path_component =
  hp_type :: bytes
  hp_occurrence :: nat
  hp_c2pa :: bool

record bmff_xpath_component =
  xc_type :: bytes
  xc_occurrence :: "nat option"
  xc_c2pa :: bool

definition invalid_bmff_xpath :: format_error where
  "invalid_bmff_xpath = BadStructure Bmff ''BMFF exclusion xpath is invalid''"

text \<open>\<open>str::trim\<close> of an ASCII string.\<close>

definition ascii_trim :: "bytes \<Rightarrow> bytes" where
  "ascii_trim = trim_matches [9, 10, 11, 12, 13, 32]"

definition C2PA_TYPE_SELECTORS :: "bytes list" where
  "C2PA_TYPE_SELECTORS =
     [ascii ''type=c2pa'', ascii ''type='' @ [0x27] @ ascii ''c2pa'' @ [0x27],
      ascii ''type='' @ [0x22] @ ascii ''c2pa'' @ [0x22],
      ascii ''@type=c2pa'', ascii ''@type='' @ [0x27] @ ascii ''c2pa'' @ [0x27],
      ascii ''@type='' @ [0x22] @ ascii ''c2pa'' @ [0x22]]"

definition is_c2pa_type_selector :: "bytes \<Rightarrow> bool" where
  "is_c2pa_type_selector selector \<longleftrightarrow> ascii_trim selector \<in> set C2PA_TYPE_SELECTORS"

definition ascii_digit :: "byte \<Rightarrow> bool" where
  "ascii_digit b \<longleftrightarrow> 48 \<le> b \<and> b \<le> 57"

text \<open>\<open>parse::<usize>\<close> of a string of digits, filtered to be positive.\<close>

definition decimal_val :: "bytes \<Rightarrow> nat" where
  "decimal_val = foldl (\<lambda>n b. 10 * n + (unat b - 48)) 0"

definition parse_occurrence :: "bytes \<Rightarrow> nat option" where
  "parse_occurrence selector =
     (let n = decimal_val selector in if n \<le> usize_max \<and> n > 0 then Some n else None)"

definition selector_step ::
    "bytes \<Rightarrow> nat option \<times> bool \<Rightarrow> format_error + (nat option \<times> bool)" where
  "selector_step selector = (\<lambda>(occurrence, c2pa_uuid).
     if selector = [] then Inl invalid_bmff_xpath
     else if list_all ascii_digit selector then
       res_bind (ok_or (parse_occurrence selector) invalid_bmff_xpath) (\<lambda>index.
         if occurrence \<noteq> None then Inl invalid_bmff_xpath else Inr (Some index, c2pa_uuid))
     else if is_c2pa_type_selector selector then
       (if c2pa_uuid then Inl invalid_bmff_xpath else Inr (occurrence, True))
     else Inl invalid_bmff_xpath)"

function parse_selectors :: "bytes \<Rightarrow> nat option \<times> bool \<Rightarrow> format_error + (nat option \<times> bool)" where
  "parse_selectors rest st =
     (if rest = [] then Inr st
      else if hd rest \<noteq> 91 then Inl invalid_bmff_xpath
      else (case position (\<lambda>b. b = 93) rest of
              None \<Rightarrow> Inl invalid_bmff_xpath
            | Some close \<Rightarrow>
                res_bind (selector_step (ascii_trim (slice rest 1 close)) st) (\<lambda>st'.
                  parse_selectors (drop (close + 1) rest) st')))"
  by pat_completeness auto
termination
  by (relation "measure (\<lambda>(rest, st). length rest)") auto

declare parse_selectors.simps [simp del]

definition parse_bmff_xpath_component :: "bytes \<Rightarrow> format_error + bmff_xpath_component" where
  "parse_bmff_xpath_component component =
     (if length component < 4 \<or> \<not> list_all (\<lambda>b. b < 0x80) (take 4 component) then Inl invalid_bmff_xpath
      else if length component > 4 \<and> \<not> list_all (\<lambda>b. b < 0x80) component then Inl invalid_bmff_xpath
      else res_bind (parse_selectors (drop 4 component) (None, False)) (\<lambda>(occurrence, c2pa_uuid).
           if c2pa_uuid \<and> take 4 component \<noteq> TYPE_UUID_BOX then Inl invalid_bmff_xpath
           else Inr \<lparr>xc_type = take 4 component, xc_occurrence = occurrence, xc_c2pa = c2pa_uuid\<rparr>))"

text \<open>\<open>str::split\<close> on one ASCII separator: always at least one piece.\<close>

fun split_bytes :: "byte \<Rightarrow> bytes \<Rightarrow> bytes list" where
  "split_bytes c [] = [[]]"
| "split_bytes c (x # xs) =
     (if x = c then [] # split_bytes c xs
      else (case split_bytes c xs of [] \<Rightarrow> [[x]] | p # ps \<Rightarrow> (x # p) # ps))"

definition component_step ::
    "bmff_xpath_component list \<Rightarrow> bytes \<Rightarrow> format_error + bmff_xpath_component list" where
  "component_step components component =
     (if component = [] then Inl invalid_bmff_xpath
      else if length components \<ge> MAX_BMFF_HASH_DEPTH then Inl invalid_bmff_xpath
      else res_bind (parse_bmff_xpath_component component) (\<lambda>c. Inr (components @ [c])))"

text \<open>The legacy path \<open>/uuid\<close> means the C2PA box only.\<close>

definition legacy_uuid :: "bmff_xpath_component list \<Rightarrow> bmff_xpath_component list" where
  "legacy_uuid components =
     (case components of
        [c] \<Rightarrow> if xc_type c = TYPE_UUID_BOX \<and> xc_occurrence c = None \<and> \<not> xc_c2pa c then [c\<lparr>xc_c2pa := True\<rparr>] else [c]
      | _ \<Rightarrow> components)"

definition parse_bmff_xpath :: "bytes \<Rightarrow> format_error + bmff_xpath_component list" where
  "parse_bmff_xpath xpath =
     (if (case xpath of c # _ \<Rightarrow> c \<noteq> 47 | [] \<Rightarrow> True) \<or> length xpath > MAX_BMFF_XPATH_BYTES
      then Inl invalid_bmff_xpath
      else res_bind (try_fold component_step [] (drop 1 (split_bytes 47 xpath))) (\<lambda>components.
           if components = [] then Inl invalid_bmff_xpath else Inr (legacy_uuid components)))"

definition component_matches :: "hash_path_component \<times> bmff_xpath_component \<Rightarrow> bool" where
  "component_matches = (\<lambda>(actual, expected).
     hp_type actual = xc_type expected
     \<and> (case xc_occurrence expected of Some occurrence \<Rightarrow> occurrence = hp_occurrence actual | None \<Rightarrow> True)
     \<and> (\<not> xc_c2pa expected \<or> hp_c2pa actual))"

definition path_matches :: "hash_path_component list \<Rightarrow> bmff_xpath_component list \<Rightarrow> bool" where
  "path_matches path xpath \<longleftrightarrow> length path = length xpath \<and> list_all component_matches (zip path xpath)"

section \<open>The box tree\<close>

record hash_box =
  hb_path :: "hash_path_component list"
  hb_start :: nat
  hb_end :: nat
  hb_version :: "byte option"
  hb_flags :: "u32 option"
  hb_top_level :: bool

definition TREE_BOUND :: format_error where
  "TREE_BOUND = BadStructure Bmff ''BMFF box tree exceeds verifier bounds''"

definition BOX_COUNT_BOUND :: format_error where
  "BOX_COUNT_BOUND = BadStructure Bmff ''BMFF box count exceeds verifier bound''"

definition meta_has_full_box_header :: "bytes \<Rightarrow> nat \<Rightarrow> nat \<Rightarrow> bool" where
  "meta_has_full_box_header data payload_start e =
     (if payload_start + 8 > e then True
      else let child_size = (case be_u32 data payload_start of Some n \<Rightarrow> n | None \<Rightarrow> 0)
           in \<not> (child_size \<ge> 8 \<and> min (payload_start + child_size) usize_max \<le> e))"

definition hash_box_at ::
    "bytes \<Rightarrow> hash_path_component list \<Rightarrow> bool \<Rightarrow> nat \<Rightarrow> iso_box \<Rightarrow> hash_box" where
  "hash_box_at data parent_path top_level occurrence b =
     (let c2pa_uuid = (ib_type b = TYPE_UUID_BOX \<and> is_c2pa_uuid data b);
          ext_start = (if c2pa_uuid then checked_add (ib_payload b) 16
                       else if is_full_box (ib_type b) then Some (ib_payload b) else None);
          ext = (case ext_start of Some start \<Rightarrow> if start + 4 \<le> ib_end b then Some start else None | None \<Rightarrow> None)
      in \<lparr>hb_path = parent_path @ [\<lparr>hp_type = ib_type b, hp_occurrence = occurrence, hp_c2pa = c2pa_uuid\<rparr>],
          hb_start = ib_start b, hb_end = ib_end b,
          hb_version = map_option (\<lambda>start. data ! start) ext,
          hb_flags = map_option (\<lambda>start. word_of_nat (be_val (slice data (start + 1) (start + 4)))) ext,
          hb_top_level = top_level\<rparr>)"

definition child_start :: "bytes \<Rightarrow> iso_box \<Rightarrow> nat option" where
  "child_start data b =
     (if ib_type b = ascii ''meta'' then
        Some (if meta_has_full_box_header data (ib_payload b) (ib_end b) then ib_payload b + 4 else ib_payload b)
      else if ib_type b \<in> set HASH_CONTAINER_TYPES then Some (ib_payload b)
      else None)"

function collect_hash_boxes ::
    "bytes \<Rightarrow> nat \<Rightarrow> nat \<Rightarrow> hash_path_component list \<Rightarrow> nat \<Rightarrow> bool \<Rightarrow> hash_box list \<Rightarrow> format_error + hash_box list" where
  "collect_hash_boxes data lo hi parent_path depth top_level out =
     (if depth \<ge> MAX_BMFF_HASH_DEPTH \<or> length out > MAX_BMFF_HASH_BOXES then Inl TREE_BOUND
      else res_bind (walk_boxes_range data lo hi) (\<lambda>boxes.
        if length out + length boxes > MAX_BMFF_HASH_BOXES then Inl BOX_COUNT_BOUND
        else res_bind
          (try_fold (\<lambda>(occurrences, acc) b.
             if length acc \<ge> MAX_BMFF_HASH_BOXES then Inl BOX_COUNT_BOUND
             else let occurrence = occurrences (ib_type b) + (1 :: nat);
                      h = hash_box_at data parent_path top_level occurrence b
                  in res_bind
                       (case child_start data b of
                          Some cs \<Rightarrow>
                            if cs < ib_end b
                            then collect_hash_boxes data cs (ib_end b) (hb_path h) (depth + 1) False (acc @ [h])
                            else Inr (acc @ [h])
                        | None \<Rightarrow> Inr (acc @ [h]))
                       (\<lambda>acc'. Inr (occurrences(ib_type b := occurrence), acc')))
             (\<lambda>_. 0, out) boxes)
          (\<lambda>(occurrences, acc). Inr acc)))"
  by pat_completeness auto
termination
  by (relation "measure (\<lambda>(data, lo, hi, parent_path, depth, top_level, out). MAX_BMFF_HASH_DEPTH - depth)") auto

declare collect_hash_boxes.simps [simp del]

definition hash_boxes :: "bytes \<Rightarrow> format_error + hash_box list" where
  "hash_boxes data = collect_hash_boxes data 0 (length data) [] 0 True []"

section \<open>Matching\<close>

definition data_matches :: "bytes \<Rightarrow> hash_box \<Rightarrow> bmff_data_map \<Rightarrow> bool" where
  "data_matches data b dm =
     (case Option.bind (checked_add (hb_start b) (dm_offset dm))
             (\<lambda>start. map_option (Pair start) (checked_add start (length (dm_value dm)))) of
        Some (start, e) \<Rightarrow> e \<le> hb_end b \<and> slice data start e = dm_value dm
      | None \<Rightarrow> False)"

definition flags_match :: "bmff_exclusion_map \<Rightarrow> hash_box \<Rightarrow> bool" where
  "flags_match exclusion b =
     (case xm_flags exclusion of
        None \<Rightarrow> True
      | Some expected \<Rightarrow>
          (case hb_flags b of
             None \<Rightarrow> False
           | Some actual \<Rightarrow>
               \<not> (xm_exact exclusion \<and> expected \<noteq> actual
                  \<or> \<not> xm_exact exclusion \<and> (actual AND expected) \<noteq> expected)))"

definition exclusion_matches :: "bytes \<Rightarrow> bmff_exclusion_map \<Rightarrow> bmff_xpath_component list \<Rightarrow> hash_box \<Rightarrow> bool" where
  "exclusion_matches data exclusion xpath b =
     (if \<not> path_matches (hb_path b) xpath
         \<or> (case xm_length exclusion of Some len \<Rightarrow> len \<noteq> hb_end b - hb_start b | None \<Rightarrow> False)
      then False
      else if (case xm_version exclusion of Some expected \<Rightarrow> hb_version b \<noteq> Some expected | None \<Rightarrow> False) then False
      else if \<not> flags_match exclusion b then False
      else list_all (data_matches data b) (xm_data exclusion))"

end
