(* ===== verification/Bmff_Hash.thy ===== *)
theory Bmff_Hash
  imports Bmff_Tree Content_Hash
begin

text \<open>
  The BMFF hash: \<^verbatim>\<open>c2pa-formats/bmff.rs\<close>, from the exclusion maps to the ranges they remove and to the
  digest of what is left, in memory and streamed. A reader is the contents of its file; a seek and a read
  that succeed are slices of it.
\<close>

section \<open>Excluded ranges\<close>

definition MAX_BMFF_EXCLUSION_MATCH_CHECKS :: nat where "MAX_BMFF_EXCLUSION_MATCH_CHECKS = 1000000"
definition MAX_BMFF_EXCLUSION_RANGES :: nat where "MAX_BMFF_EXCLUSION_RANGES = 100000"
definition MAX_BMFF_EXCLUSION_DATA_QUALIFIERS :: nat where "MAX_BMFF_EXCLUSION_DATA_QUALIFIERS = 4096"
definition MAX_BMFF_EXCLUSION_DATA_BYTES :: nat where "MAX_BMFF_EXCLUSION_DATA_BYTES = 1024 * 1024"
definition MAX_BMFF_EXCLUSION_SUBSETS :: nat where "MAX_BMFF_EXCLUSION_SUBSETS = 4096"

definition matching_exceeds_bounds :: format_error where
  "matching_exceeds_bounds = BadStructure Bmff ''BMFF exclusion matching exceeds verifier bounds''"

fun parse_exclusions ::
    "bmff_exclusion_map list \<Rightarrow> format_error + (bmff_exclusion_map \<times> bmff_xpath_component list) list" where
  "parse_exclusions [] = Inr []"
| "parse_exclusions (x # xs) =
     res_bind (parse_bmff_xpath (xm_xpath x)) (\<lambda>xpath.
     res_bind (parse_exclusions xs) (\<lambda>ps. Inr ((x, xpath) # ps)))"

text \<open>\<open>checked_mul\<close> overflows or the product passes the bound on checks.\<close>

definition checks_exceed :: "nat \<Rightarrow> nat \<Rightarrow> bool" where
  "checks_exceed a b \<longleftrightarrow> a * b > usize_max \<or> a * b > MAX_BMFF_EXCLUSION_MATCH_CHECKS"

definition work_exceeds :: "nat \<Rightarrow> nat \<Rightarrow> bool" where
  "work_exceeds boxes units \<longleftrightarrow> units > 0 \<and> checks_exceed boxes units"

definition check_work :: "nat \<Rightarrow> bmff_exclusion_map list \<Rightarrow> format_error + unit" where
  "check_work boxes exclusions =
     res_bind (ok_or (checked_sum 0 (map (\<lambda>x. length (xm_data x)) exclusions)) matching_exceeds_bounds) (\<lambda>qualifiers.
     res_bind (ok_or (checked_sum 0 (map (\<lambda>x. length (xm_subset x)) exclusions)) matching_exceeds_bounds) (\<lambda>subsets.
     res_bind (ok_or (checked_sum 0 (map (\<lambda>d. length (dm_value d)) (concat (map xm_data exclusions))))
                 matching_exceeds_bounds) (\<lambda>data_bytes.
       if qualifiers > MAX_BMFF_EXCLUSION_DATA_QUALIFIERS \<or> data_bytes > MAX_BMFF_EXCLUSION_DATA_BYTES
          \<or> subsets > MAX_BMFF_EXCLUSION_SUBSETS
       then Inl matching_exceeds_bounds
       else if checks_exceed (length exclusions) boxes \<or> work_exceeds boxes qualifiers
               \<or> work_exceeds boxes data_bytes \<or> work_exceeds boxes subsets
       then Inl matching_exceeds_bounds
       else Inr ())))"

definition push_range :: "span list \<Rightarrow> span \<Rightarrow> format_error + span list" where
  "push_range ranges r =
     (if length ranges \<ge> MAX_BMFF_EXCLUSION_RANGES
      then Inl (BadStructure Bmff ''BMFF exclusion range count exceeds verifier bound'')
      else Inr (ranges @ [r]))"

definition subset_range :: "hash_box \<Rightarrow> bmff_subset_map \<Rightarrow> span option" where
  "subset_range b s =
     (if sm_offset s \<ge> hb_end b - hb_start b then None
      else let start = hb_start b + sm_offset s;
               e = (if sm_length s = 0 then hb_end b
                    else (case checked_add start (sm_length s) of Some e \<Rightarrow> min e (hb_end b) | None \<Rightarrow> hb_end b))
           in if start = e then None else Some (start, e))"

definition push_subset :: "hash_box \<Rightarrow> span list \<Rightarrow> bmff_subset_map \<Rightarrow> format_error + span list" where
  "push_subset b ranges s = (case subset_range b s of None \<Rightarrow> Inr ranges | Some r \<Rightarrow> push_range ranges r)"

definition push_box :: "bmff_exclusion_map \<Rightarrow> span list \<Rightarrow> hash_box \<Rightarrow> format_error + span list" where
  "push_box exclusion ranges b =
     (if xm_subset exclusion = [] then push_range ranges (hb_start b, hb_end b)
      else try_fold (push_subset b) ranges (xm_subset exclusion))"

definition push_exclusion ::
    "bytes \<Rightarrow> hash_box list \<Rightarrow> span list \<Rightarrow> bmff_exclusion_map \<times> bmff_xpath_component list \<Rightarrow> format_error + span list" where
  "push_exclusion data boxes ranges = (\<lambda>(exclusion, xpath).
     try_fold (push_box exclusion) ranges (filter (exclusion_matches data exclusion xpath) boxes))"

text \<open>
  The ranges are sorted by their start. The source sorts unstably; the lemma \<open>merge_order_irrelevant\<close> of
  \<open>Bmff_Ranges\<close> shows that the order of equal starts does not matter.
\<close>

definition merge_range :: "nat \<Rightarrow> span list \<Rightarrow> span \<Rightarrow> format_error + span list" where
  "merge_range len merged = (\<lambda>(start, e).
     if e > len \<or> start > e then Inl (BadStructure Bmff ''BMFF exclusion lies outside the asset'')
     else if merged \<noteq> [] \<and> start \<le> snd (last merged)
       then Inr (butlast merged @ [(fst (last merged), max (snd (last merged)) e)])
     else if start \<noteq> e then Inr (merged @ [(start, e)]) else Inr merged)"

definition merge_ranges :: "nat \<Rightarrow> span list \<Rightarrow> format_error + span list" where
  "merge_ranges len ranges = try_fold (merge_range len) [] (linorder_class.sort_key fst ranges)"

section \<open>What is left of a box\<close>

function advance_cursor :: "span list \<Rightarrow> nat \<Rightarrow> nat \<Rightarrow> nat" where
  "advance_cursor merged start cursor =
     (if cursor < length merged \<and> snd (merged ! cursor) \<le> start
      then advance_cursor merged start (cursor + 1) else cursor)"
  by pat_completeness auto
termination
  by (relation "measure (\<lambda>(merged, start, cursor). length merged - cursor)") auto

declare advance_cursor.simps [simp del]

function included_loop :: "span list \<Rightarrow> nat \<Rightarrow> nat \<Rightarrow> nat \<Rightarrow> span list \<Rightarrow> span list \<times> nat" where
  "included_loop merged box_end i pos spans =
     (if i < length merged \<and> fst (merged ! i) < box_end then
        let (excluded_start, excluded_end) = merged ! i;
            spans' = (if pos < excluded_start then spans @ [(pos, min excluded_start box_end)] else spans);
            pos' = (if excluded_end > pos then min excluded_end box_end else pos)
        in if pos' \<ge> box_end then (spans', pos') else included_loop merged box_end (i + 1) pos' spans'
      else (spans, pos))"
  by pat_completeness auto
termination
  by (relation "measure (\<lambda>(merged, box_end, i, pos, spans). length merged - i)") auto

declare included_loop.simps [simp del]

definition included_spans :: "span list \<Rightarrow> nat \<Rightarrow> hash_box \<Rightarrow> span list" where
  "included_spans merged cursor b =
     (case included_loop merged (hb_end b) cursor (hb_start b) [] of
        (spans, pos) \<Rightarrow> if pos < hb_end b then spans @ [(pos, hb_end b)] else spans)"

record bmff_root_contribution =
  rt_start :: nat
  rt_spans :: "span list"

record bmff_hash_plan =
  pl_ranges :: "span list"
  pl_roots :: "bmff_root_contribution list"

definition root_step ::
    "span list \<Rightarrow> nat \<times> bmff_root_contribution list \<Rightarrow> hash_box \<Rightarrow> nat \<times> bmff_root_contribution list" where
  "root_step merged = (\<lambda>(range_cursor, roots) b.
     let cursor = advance_cursor merged (hb_start b) range_cursor;
         spans = included_spans merged cursor b
     in (cursor, if spans \<noteq> [] then roots @ [\<lparr>rt_start = hb_start b, rt_spans = spans\<rparr>] else roots))"

definition normalized_bmff_ranges :: "bytes \<Rightarrow> bmff_exclusion_map list \<Rightarrow> format_error + bmff_hash_plan" where
  "normalized_bmff_ranges data exclusions =
     res_bind (hash_boxes data) (\<lambda>boxes.
     res_bind (parse_exclusions exclusions) (\<lambda>parsed.
     res_bind (check_work (length boxes) exclusions) (\<lambda>_.
     res_bind (try_fold (push_exclusion data boxes) [] parsed) (\<lambda>ranges.
     res_bind (merge_ranges (length data) ranges) (\<lambda>merged.
       Inr \<lparr>pl_ranges = merged, pl_roots = snd (foldl (root_step merged) (0, []) (filter hb_top_level boxes))\<rparr>)))))"

definition bmff_excluded_ranges :: "bytes \<Rightarrow> bmff_exclusion_map list \<Rightarrow> format_error + span list" where
  "bmff_excluded_ranges data exclusions = res_bind (normalized_bmff_ranges data exclusions) (\<lambda>plan. Inr (pl_ranges plan))"

definition plain_exclusion :: "bytes \<Rightarrow> bmff_exclusion_map" where
  "plain_exclusion xpath =
     \<lparr>xm_xpath = xpath, xm_length = None, xm_data = [], xm_subset = [], xm_version = None, xm_flags = None,
      xm_exact = True\<rparr>"

definition bmff_exclusion_ranges :: "bytes \<Rightarrow> bytes list \<Rightarrow> format_error + (nat \<times> nat) list" where
  "bmff_exclusion_ranges data xpaths =
     res_bind (normalized_bmff_ranges data (map plain_exclusion xpaths)) (\<lambda>plan.
       Inr (map (\<lambda>(start, e). (start, e - start)) (pl_ranges plan)))"

fun parse_xpaths :: "bytes list \<Rightarrow> format_error + bmff_xpath_component list list" where
  "parse_xpaths [] = Inr []"
| "parse_xpaths (x # xs) = res_bind (parse_bmff_xpath x) (\<lambda>p. res_bind (parse_xpaths xs) (\<lambda>ps. Inr (p # ps)))"

definition bmff_box_ranges :: "bytes \<Rightarrow> bytes list \<Rightarrow> format_error + (nat \<times> nat) list list" where
  "bmff_box_ranges data xpaths =
     (if length xpaths > MAX_BMFF_EXCLUSION_RANGES then Inl matching_exceeds_bounds
      else res_bind (parse_xpaths xpaths) (\<lambda>parsed.
           res_bind (hash_boxes data) (\<lambda>boxes.
             if checks_exceed (length parsed) (length boxes) then Inl matching_exceeds_bounds
             else Inr (map (\<lambda>xpath. map (\<lambda>b. (hb_start b, hb_end b - hb_start b))
                                      (filter (\<lambda>b. path_matches (hb_path b) xpath) boxes)) parsed))))"

section \<open>Digests\<close>

definition unsupported_bmff_algorithm :: format_error where
  "unsupported_bmff_algorithm = UnsupportedVariant Bmff ''unsupported bmff hash algorithm''"

definition box_marker :: "nat \<Rightarrow> bytes" where
  "box_marker start = be_bytes 8 start"

text \<open>Between the ranges, and after the last one.\<close>

definition leaf_step :: "bytes \<Rightarrow> hasher \<times> nat \<Rightarrow> span \<Rightarrow> hasher \<times> nat" where
  "leaf_step fragment = (\<lambda>(h, pos) (start, e).
     (if start > pos then hasher_update (slice fragment pos start) h else h, max pos e))"

definition bmff_fragment_leaf_hash ::
    "digest \<Rightarrow> bytes \<Rightarrow> string \<Rightarrow> bmff_exclusion_map list \<Rightarrow> format_error + bytes" where
  "bmff_fragment_leaf_hash digest fragment alg exclusions =
     res_bind (ok_or (hasher_new alg) unsupported_bmff_algorithm) (\<lambda>h.
     res_bind (normalized_bmff_ranges fragment exclusions) (\<lambda>plan.
       case foldl (leaf_step fragment) (h, 0) (pl_ranges plan) of
         (h', pos) \<Rightarrow>
           Inr (hasher_finalize digest
                  (if pos < length fragment then hasher_update (drop pos fragment) h' else h'))))"

definition root_update :: "bytes \<Rightarrow> hasher \<Rightarrow> bmff_root_contribution \<Rightarrow> hasher" where
  "root_update data h root =
     foldl (\<lambda>h (start, e). hasher_update (slice data start e) h)
       (hasher_update (box_marker (rt_start root)) h) (rt_spans root)"

definition bmff_hash_with_exclusions ::
    "digest \<Rightarrow> bytes \<Rightarrow> string \<Rightarrow> bmff_exclusion_map list \<Rightarrow> format_error + bytes" where
  "bmff_hash_with_exclusions digest data alg exclusions =
     res_bind (ok_or (hasher_new alg) unsupported_bmff_algorithm) (\<lambda>h.
     res_bind (normalized_bmff_ranges data exclusions) (\<lambda>plan.
       Inr (hasher_finalize digest (foldl (root_update data) h (pl_roots plan)))))"

text \<open>The top-level types of the unqualified paths: four bytes once the leading slashes are gone.\<close>

definition xpath_box_types :: "bytes list \<Rightarrow> bytes list" where
  "xpath_box_types xpaths =
     filter (\<lambda>p. length p = 4) (map (dropWhile (\<lambda>c. c = 47)) xpaths)"

definition fully_excluded :: "bytes list \<Rightarrow> bytes \<Rightarrow> iso_box \<Rightarrow> bool" where
  "fully_excluded wanted data b \<longleftrightarrow>
     ib_type b \<in> set wanted \<and> (ib_type b \<noteq> TYPE_UUID_BOX \<or> is_c2pa_uuid data b)"

definition box_update :: "bytes list \<Rightarrow> bytes \<Rightarrow> hasher \<Rightarrow> iso_box \<Rightarrow> hasher" where
  "box_update wanted data h b =
     (if fully_excluded wanted data b then h
      else hasher_update (slice data (ib_start b) (ib_end b)) (hasher_update (box_marker (ib_start b)) h))"

definition bmff_hash :: "digest \<Rightarrow> bytes \<Rightarrow> string \<Rightarrow> bytes list \<Rightarrow> format_error + bytes" where
  "bmff_hash digest data alg xpaths =
     res_bind (ok_or (hasher_new alg) unsupported_bmff_algorithm) (\<lambda>h.
     res_bind (walk_iso_boxes Bmff data) (\<lambda>bs.
       Inr (hasher_finalize digest (foldl (box_update (xpath_box_types xpaths) data) h bs))))"

section \<open>Streaming\<close>

definition STREAM_CHUNK :: nat where "STREAM_CHUNK = 1024 * 1024"

text \<open>The end of the box whose first bytes, sixteen or all that are left, are \<open>hdr\<close>.\<close>

definition reader_box_end :: "bytes \<Rightarrow> nat \<Rightarrow> nat \<Rightarrow> format_error + nat" where
  "reader_box_end hdr total_len pos =
     (let size32 = be_val (take 4 hdr)
      in if size32 = 1 then
           (if length hdr < 16 then Inl (Truncated Bmff)
            else let large = be_val (slice hdr 8 16)
                 in ok_or (if large \<ge> 16 then add_within pos large total_len else None) (Truncated Bmff))
         else if size32 = 0 then Inr total_len
         else ok_or (if size32 \<ge> 8 then add_within pos size32 total_len else None) (Truncated Bmff))"

text \<open>The user type is read right after the eight-byte header; a failed read is not an error.\<close>

definition reader_excluded :: "bytes list \<Rightarrow> bytes \<Rightarrow> bytes \<Rightarrow> nat \<Rightarrow> bool" where
  "reader_excluded wanted file box_type pos \<longleftrightarrow>
     box_type \<in> set wanted
     \<and> (box_type \<noteq> TYPE_UUID_BOX \<or> slice_get file (pos + 8) (pos + 8 + 16) = Some C2PA_BMFF_UUID)"

function stream_range :: "bytes \<Rightarrow> nat \<Rightarrow> nat \<Rightarrow> hasher \<Rightarrow> format_error + hasher" where
  "stream_range file pos remaining h =
     (if remaining > 0 then
        let n = min remaining STREAM_CHUNK
        in res_bind (ok_or (slice_get file pos (pos + n)) (Truncated Bmff)) (\<lambda>chunk.
             stream_range file (pos + n) (remaining - n) (hasher_update chunk h))
      else Inr h)"
  by pat_completeness auto
termination
  by (relation "measure (\<lambda>(file, pos, remaining, h). remaining)") (auto simp: STREAM_CHUNK_def)

declare stream_range.simps [simp del]

definition reader_step :: "bytes list \<Rightarrow> bytes \<Rightarrow> nat \<Rightarrow> hasher \<Rightarrow> format_error + (nat \<times> hasher)" where
  "reader_step wanted file pos h =
     (let total_len = length file;
          avail = min (total_len - pos) 16
      in res_bind (ok_or (slice_get file pos (pos + avail)) (Truncated Bmff)) (\<lambda>hdr.
         res_bind (reader_box_end hdr total_len pos) (\<lambda>e.
           if reader_excluded wanted file (slice hdr 4 8) pos then Inr (e, h)
           else res_bind (stream_range file pos (e - pos) (hasher_update (box_marker pos) h)) (\<lambda>h'. Inr (e, h')))))"

function reader_loop :: "bytes list \<Rightarrow> bytes \<Rightarrow> nat \<Rightarrow> hasher \<Rightarrow> format_error + hasher" where
  "reader_loop wanted file pos h =
     (if length file - pos \<ge> 8 then
        res_bind (reader_step wanted file pos h) (\<lambda>(e, h').
          if e \<le> pos then Inr h' else reader_loop wanted file e h')
      else Inr h)"
  by pat_completeness auto
termination
  by (relation "measure (\<lambda>(wanted, file, pos, h). length file - pos)") auto

declare reader_loop.simps [simp del]

definition bmff_hash_reader :: "digest \<Rightarrow> bytes \<Rightarrow> string \<Rightarrow> bytes list \<Rightarrow> format_error + bytes" where
  "bmff_hash_reader digest file alg xpaths =
     res_bind (ok_or (hasher_new alg) unsupported_bmff_algorithm) (\<lambda>h.
     res_bind (reader_loop (xpath_box_types xpaths) file 0 h) (\<lambda>h'. Inr (hasher_finalize digest h')))"

end
