(* ===== verification/Bmff_Ranges.thy ===== *)
theory Bmff_Ranges
  imports Bmff_Hash "HOL-Library.Multiset"
begin

text \<open>
  The ranges of the BMFF hash read as sets of offsets: merging keeps the set, what is hashed of a box is
  its bytes outside the set, and the box tree stays inside its bounds.
\<close>

section \<open>Ranges as sets of offsets\<close>

definition offset_in :: "span list \<Rightarrow> nat \<Rightarrow> bool" where
  "offset_in ranges i \<longleftrightarrow> list_ex (\<lambda>(s, e). s \<le> i \<and> i < e) ranges"

lemma offset_in_simps [simp]:
  "\<not> offset_in [] i"
  "offset_in ((s, e) # xs) i \<longleftrightarrow> s \<le> i \<and> i < e \<or> offset_in xs i"
  "offset_in (xs @ ys) i \<longleftrightarrow> offset_in xs i \<or> offset_in ys i"
  by (auto simp: offset_in_def)

lemma offset_in_set: "offset_in xs i \<longleftrightarrow> (\<exists>(s, e) \<in> set xs. s \<le> i \<and> i < e)"
  by (auto simp: offset_in_def list_ex_iff)

definition separated :: "span list \<Rightarrow> bool" where
  "separated xs \<longleftrightarrow> sorted_wrt (\<lambda>x y. snd x < fst y) xs \<and> list_all (\<lambda>(s, e). s < e) xs"

lemma separated_Nil [simp]: "separated []"
  by (simp add: separated_def)

lemma separated_snoc:
  "separated (xs @ [(s, e)]) \<longleftrightarrow> separated xs \<and> s < e \<and> (\<forall>x \<in> set xs. snd x < s)"
  by (auto simp: separated_def sorted_wrt_append)

lemma separated_nth:
  assumes "separated xs"
  shows "i < length xs \<Longrightarrow> fst (xs ! i) < snd (xs ! i)"
    and "i < j \<Longrightarrow> j < length xs \<Longrightarrow> snd (xs ! i) < fst (xs ! j)"
  using assms by (auto simp: separated_def list_all_length sorted_wrt_iff_nth_less split_beta)

lemma merge_range_cases:
  assumes "merge_range len merged (s, e) = Inr out" and "s < e" and "separated merged"
    and "merged \<noteq> [] \<Longrightarrow> fst (last merged) \<le> s"
  shows "separated out" and "offset_in out i \<longleftrightarrow> offset_in merged i \<or> s \<le> i \<and> i < e"
    and "out \<noteq> []" and "fst (last out) \<le> s" and "e \<le> len"
    and "\<forall>r \<in> set merged. snd r \<le> len \<Longrightarrow> \<forall>r \<in> set out. snd r \<le> len"
proof -
  have A: "separated out \<and> (offset_in out i \<longleftrightarrow> offset_in merged i \<or> s \<le> i \<and> i < e) \<and> out \<noteq> [] \<and> fst (last out) \<le> s
      \<and> e \<le> len \<and> ((\<forall>r \<in> set merged. snd r \<le> len) \<longrightarrow> (\<forall>r \<in> set out. snd r \<le> len))"
  proof (cases merged rule: rev_cases)
    case Nil
    with assms show ?thesis by (auto simp: merge_range_def separated_def split: if_splits)
  next
    case (snoc ms ab)
    obtain a b where ab: "ab = (a, b)" by (cases ab)
    from assms snoc ab have "separated (ms @ [(a, b)])" and le: "a \<le> s" by auto
    then have ms: "separated ms" "a < b" "\<forall>x \<in> set ms. snd x < a" by (auto simp: separated_snoc)
    show ?thesis
    proof (cases "s \<le> b")
      case True
      with assms(1,2) snoc ab have out: "out = ms @ [(a, max b e)]" and "e \<le> len"
        by (auto simp: merge_range_def split: if_splits)
      moreover have "separated out" using ms out by (auto simp: separated_snoc max_def)
      moreover have "offset_in out i \<longleftrightarrow> offset_in merged i \<or> s \<le> i \<and> i < e"
        using out snoc ab ms True le by (auto simp: max_def)
      ultimately show ?thesis using le snoc ab by auto
    next
      case False
      have out: "out = merged @ [(s, e)]" and "e \<le> len"
        using assms(1,2) snoc ab False by (auto simp: merge_range_def split: if_splits)
      moreover have "separated out"
        unfolding out separated_snoc using assms(2,3) ms False snoc ab by fastforce
      ultimately show ?thesis using le snoc ab by auto
    qed
  qed
  then show "separated out" and "offset_in out i \<longleftrightarrow> offset_in merged i \<or> s \<le> i \<and> i < e"
    and "out \<noteq> []" and "fst (last out) \<le> s" and "e \<le> len"
    and "\<forall>r \<in> set merged. snd r \<le> len \<Longrightarrow> \<forall>r \<in> set out. snd r \<le> len" by blast+
qed

lemma merge_fold:
  assumes "try_fold (merge_range len) merged ranges = Inr out" and "sorted (map fst ranges)"
    and "\<forall>(s, e) \<in> set ranges. s < e" and "separated merged"
    and "merged \<noteq> [] \<Longrightarrow> \<forall>r \<in> set ranges. fst (last merged) \<le> fst r"
    and "\<forall>r \<in> set merged. snd r \<le> len"
  shows "separated out \<and> (offset_in out i \<longleftrightarrow> offset_in merged i \<or> offset_in ranges i)
    \<and> (\<forall>r \<in> set out. snd r \<le> len)"
  using assms
proof (induction ranges arbitrary: merged)
  case (Cons r ranges)
  obtain s e where r: "r = (s, e)" by (cases r)
  from Cons.prems(1) r obtain merged1 where n: "merge_range len merged (s, e) = Inr merged1"
    and rest: "try_fold (merge_range len) merged1 ranges = Inr out" by (auto simp: res_simps)
  have se: "s < e" and le: "merged \<noteq> [] \<Longrightarrow> fst (last merged) \<le> s" using Cons.prems(3,5) r by auto
  note step = merge_range_cases [OF n se Cons.prems(4) le]
  have "separated out \<and> (offset_in out i \<longleftrightarrow> offset_in merged1 i \<or> offset_in ranges i) \<and> (\<forall>r \<in> set out. snd r \<le> len)"
  proof (rule Cons.IH [OF rest])
    show "sorted (map fst ranges)" "\<forall>(s, e) \<in> set ranges. s < e" using Cons.prems(2,3) by auto
    show "separated merged1" "\<forall>r \<in> set merged1. snd r \<le> len" using step Cons.prems(6) by blast+
    show "\<forall>r \<in> set ranges. fst (last merged1) \<le> fst r" using step(4) Cons.prems(2) r by fastforce
  qed
  then show ?case using step(2) [of i] r by auto
qed simp

lemma merge_ranges_ok:
  assumes "merge_ranges len ranges = Inr merged" and "\<forall>(s, e) \<in> set ranges. s < e"
  shows "separated merged" and "offset_in merged i \<longleftrightarrow> offset_in ranges i" and "\<forall>r \<in> set merged. snd r \<le> len"
proof -
  have "separated merged \<and> (offset_in merged i \<longleftrightarrow> offset_in [] i \<or> offset_in (linorder_class.sort_key fst ranges) i)
      \<and> (\<forall>r \<in> set merged. snd r \<le> len)" for i
    by (rule merge_fold [OF assms(1) [unfolded merge_ranges_def]]) (use assms(2) in auto)
  then show "separated merged" and "offset_in merged i \<longleftrightarrow> offset_in ranges i" and "\<forall>r \<in> set merged. snd r \<le> len"
    by (auto simp: offset_in_set)
qed

text \<open>A separated list is determined by its offsets, so any sorted order of the ranges merges to the same list.\<close>

lemma separated_Cons:
  "separated ((s, e) # xs) \<longleftrightarrow> s < e \<and> (\<forall>x \<in> set xs. e < fst x) \<and> separated xs"
  by (auto simp: separated_def)

lemma separated_head:
  assumes "separated ((s, e) # xs)"
  shows "offset_in ((s, e) # xs) s" and "\<not> offset_in ((s, e) # xs) e" and "offset_in ((s, e) # xs) i \<Longrightarrow> s \<le> i"
    and "offset_in xs i \<longleftrightarrow> offset_in ((s, e) # xs) i \<and> e < i"
  using assms by (fastforce simp: separated_Cons offset_in_set)+

lemma separated_unique:
  "separated xs \<Longrightarrow> separated ys \<Longrightarrow> (\<And>i. offset_in xs i \<longleftrightarrow> offset_in ys i) \<Longrightarrow> xs = ys"
proof (induction xs arbitrary: ys)
  case Nil
  then show ?case using separated_head(1) by (cases ys) (auto, blast)
next
  case (Cons x xs)
  obtain s e where x: "x = (s, e)" by (cases x)
  note hx = separated_head [OF Cons.prems(1) [unfolded x]]
  obtain t f ys' where ys: "ys = (t, f) # ys'"
    using hx(1) Cons.prems(3) [of s] x by (cases ys) auto
  note hy = separated_head [OF Cons.prems(2) [unfolded ys]]
  note same = Cons.prems(3) [unfolded x ys]
  have "s < e" "t < f" using Cons.prems(1,2) by (auto simp: x ys separated_Cons)
  moreover have "s = t" using hx(1,3) hy(1,3) same by (meson le_antisym)
  moreover have "e = f"
    using hx(2) hy(2) same [of e] same [of f] \<open>s = t\<close> \<open>s < e\<close> \<open>t < f\<close> by (cases e f rule: linorder_cases) auto
  moreover have "xs = ys'"
  proof (rule Cons.IH)
    show "separated xs" "separated ys'" using Cons.prems(1,2) by (auto simp: x ys separated_Cons)
    show "offset_in xs i \<longleftrightarrow> offset_in ys' i" for i using hx(4) hy(4) same \<open>e = f\<close> by blast
  qed
  ultimately show ?case by (simp add: x ys)
qed

lemma merge_order_irrelevant:
  assumes "mset order = mset ranges" and "sorted (map fst order)" and "\<forall>(s, e) \<in> set ranges. s < e"
    and "try_fold (merge_range len) [] order = Inr xs" and "merge_ranges len ranges = Inr ys"
  shows "xs = ys"
proof (rule separated_unique)
  have eq: "set order = set ranges" using assms(1) by (rule mset_eq_setD)
  have xs: "separated xs \<and> (offset_in xs i \<longleftrightarrow> offset_in order i)" for i
    using merge_fold [OF assms(4,2), of i] assms(3) eq by auto
  then show "separated xs" by simp
  show "separated ys" using merge_ranges_ok(1) [OF assms(5,3)] .
  show "offset_in xs i \<longleftrightarrow> offset_in ys i" for i
    using xs merge_ranges_ok(2) [OF assms(5,3)] eq by (auto simp: offset_in_set)
qed

section \<open>The bytes that are left\<close>

definition left_over :: "bytes \<Rightarrow> span list \<Rightarrow> nat \<Rightarrow> nat \<Rightarrow> bytes" where
  "left_over data ranges a b = map (\<lambda>i. data ! i) (filter (\<lambda>i. \<not> offset_in ranges i) [a..<b])"

definition span_bytes :: "bytes \<Rightarrow> span list \<Rightarrow> bytes" where
  "span_bytes data spans = concat (map (\<lambda>(s, e). slice data s e) spans)"

lemma span_bytes_simps [simp]:
  "span_bytes data [] = []" "span_bytes data ((s, e) # xs) = slice data s e @ span_bytes data xs"
  "span_bytes data (xs @ ys) = span_bytes data xs @ span_bytes data ys"
  by (simp_all add: span_bytes_def)

lemma slice_nth: "b \<le> length data \<Longrightarrow> slice data a b = map (\<lambda>i. data ! i) [a..<b]"
  by (rule nth_equalityI) (auto simp: slice_def)

lemma left_over_split: "a \<le> b \<Longrightarrow> b \<le> c \<Longrightarrow> left_over data ranges a c = left_over data ranges a b @ left_over data ranges b c"
  using upt_add_eq_append [of a b "c - b"] by (simp add: left_over_def)

lemma left_over_none: "b \<le> length data \<Longrightarrow> \<forall>i. a \<le> i \<and> i < b \<longrightarrow> \<not> offset_in ranges i \<Longrightarrow> left_over data ranges a b = slice data a b"
  by (simp add: left_over_def slice_nth)

lemma left_over_all: "\<forall>i. a \<le> i \<and> i < b \<longrightarrow> offset_in ranges i \<Longrightarrow> left_over data ranges a b = []"
  by (auto simp: left_over_def filter_empty_conv)

lemma left_over_empty [simp]: "left_over data ranges a a = []"
  by (simp add: left_over_def)

text \<open>The loop over one box, resumed at any range that ends after the position.\<close>

lemma offset_in_nth: "offset_in xs i \<longleftrightarrow> (\<exists>j < length xs. fst (xs ! j) \<le> i \<and> i < snd (xs ! j))"
  by (simp add: offset_in_def list_ex_length split_beta)

lemma included_gap:
  assumes "separated merged" and "\<forall>j < i. j < length merged \<longrightarrow> snd (merged ! j) \<le> pos"
    and "i < length merged \<Longrightarrow> b \<le> fst (merged ! i)" and "pos \<le> k" and "k < b"
  shows "\<not> offset_in merged k"
proof
  assume "offset_in merged k"
  then obtain j where j: "j < length merged" "fst (merged ! j) \<le> k" "k < snd (merged ! j)"
    by (auto simp: offset_in_nth)
  show False
  proof (cases "j < i")
    case True
    with j assms(2,4) show False by fastforce
  next
    case False
    then have "fst (merged ! i) \<le> fst (merged ! j)"
      using separated_nth [OF assms(1)] j(1) by (metis le_eq_less_or_eq less_or_eq_imp_le linorder_not_less order_less_trans)
    with False j assms(3,5) show False by fastforce
  qed
qed

lemma included_loop_ok:
  assumes "included_loop merged box_end i pos spans = (spans', pos')"
    and "separated merged" and "pos \<le> box_end" and "box_end \<le> length data"
    and "\<forall>j < i. j < length merged \<longrightarrow> snd (merged ! j) \<le> pos" and "list_all (\<lambda>(s, e). s < e \<and> e \<le> length data) spans"
  shows "span_bytes data spans' @ slice data pos' box_end = span_bytes data spans @ left_over data merged pos box_end
    \<and> pos' \<le> box_end \<and> list_all (\<lambda>(s, e). s < e \<and> e \<le> length data) spans'"
  using assms
proof (induction merged box_end i pos spans rule: included_loop.induct)
  case (1 merged box_end i pos spans)
  note sep = separated_nth [OF "1.prems"(2)]
  show ?case
  proof (cases "i < length merged \<and> fst (merged ! i) < box_end")
    case False
    then have "left_over data merged pos box_end = slice data pos box_end"
      using included_gap [OF "1.prems"(2,5), of box_end] "1.prems"(4) by (intro left_over_none) auto
    moreover have "spans' = spans" "pos' = pos" using "1.prems"(1) False by (auto simp: included_loop.simps)
    ultimately show ?thesis using "1.prems"(3,6) by simp
  next
    case True
    obtain es ee where r: "merged ! i = (es, ee)" by (cases "merged ! i")
    define spans1 where "spans1 = (if pos < es then spans @ [(pos, min es box_end)] else spans)"
    define pos1 where "pos1 = (if ee > pos then min ee box_end else pos)"
    have es: "es < box_end" "es < ee" and inr: "\<And>k. es \<le> k \<Longrightarrow> k < ee \<Longrightarrow> offset_in merged k"
      using True r sep(1) [of i] by (auto simp: offset_in_nth intro!: exI [of _ i])
    have gap: "left_over data merged pos es = slice data pos es" if "pos < es"
      using included_gap [OF "1.prems"(2,5), of es] True r es "1.prems"(4) that by (intro left_over_none) auto
    have skip: "left_over data merged (max pos es) pos1 = []" if "ee > pos"
      using inr that es by (intro left_over_all) (auto simp: pos1_def)
    have first: "span_bytes data spans1 @ left_over data merged pos1 box_end
        = span_bytes data spans @ left_over data merged pos box_end"
    proof (cases "ee > pos")
      case True
      have p: "max pos es \<le> pos1" "pos1 \<le> box_end" using True es "1.prems"(3) by (auto simp: pos1_def)
      have "left_over data merged pos box_end = left_over data merged pos (max pos es) @ left_over data merged (max pos es) pos1 @ left_over data merged pos1 box_end"
        using p left_over_split [of pos "max pos es" box_end] left_over_split [of "max pos es" pos1 box_end] by simp
      also have "left_over data merged pos (max pos es) = span_bytes data (if pos < es then [(pos, min es box_end)] else [])"
        using gap es by (auto simp: max_def min_def)
      finally show ?thesis using skip [OF True] by (auto simp: spans1_def)
    next
      case False
      with es show ?thesis by (auto simp: spans1_def pos1_def)
    qed
    have pos1: "pos1 \<le> box_end" and spans1: "list_all (\<lambda>(s, e). s < e \<and> e \<le> length data) spans1"
      using "1.prems"(3,4,6) es by (auto simp: pos1_def spans1_def)
    show ?thesis
    proof (cases "pos1 \<ge> box_end")
      case stop: True
      then have "spans' = spans1" "pos' = pos1"
        using "1.prems"(1) True r by (auto simp: included_loop.simps Let_def spans1_def pos1_def)
      with first pos1 spans1 stop show ?thesis by (simp add: slice_def)
    next
      case go: False
      then have loop: "included_loop merged box_end (i + 1) pos1 spans1 = (spans', pos')"
        using "1.prems"(1) True r by (subst (asm) included_loop.simps) (auto simp: Let_def spans1_def pos1_def)
      have "\<forall>j < i + 1. j < length merged \<longrightarrow> snd (merged ! j) \<le> pos1"
        using "1.prems"(5) r go by (fastforce simp: pos1_def less_Suc_eq split: if_splits)
      with "1.IH" [OF True refl r [symmetric] spans1_def pos1_def go loop "1.prems"(2) pos1 "1.prems"(4) _ spans1] first
      show ?thesis by (simp add: r)
    qed
  qed
qed

lemma span_bytes_Nil: "list_all (\<lambda>(s, e). s < e \<and> e \<le> length data) spans \<Longrightarrow> span_bytes data spans = [] \<longleftrightarrow> spans = []"
  by (cases spans) (auto simp: slice_def)

lemma included_spans_ok:
  assumes "separated merged" and "hb_start b \<le> hb_end b" and "hb_end b \<le> length data"
    and "\<forall>j < cursor. j < length merged \<longrightarrow> snd (merged ! j) \<le> hb_start b"
  shows "span_bytes data (included_spans merged cursor b) = left_over data merged (hb_start b) (hb_end b)"
    and "included_spans merged cursor b = [] \<longleftrightarrow> left_over data merged (hb_start b) (hb_end b) = []"
proof -
  obtain spans pos where loop: "included_loop merged (hb_end b) cursor (hb_start b) [] = (spans, pos)"
    by (cases "included_loop merged (hb_end b) cursor (hb_start b) []")
  note ok = included_loop_ok [OF loop assms(1,2,3,4)]
  show eq: "span_bytes data (included_spans merged cursor b) = left_over data merged (hb_start b) (hb_end b)"
    using ok loop by (auto simp: included_spans_def slice_def)
  have "list_all (\<lambda>(s, e). s < e \<and> e \<le> length data) (included_spans merged cursor b)"
    using ok loop assms(3) by (auto simp: included_spans_def)
  from span_bytes_Nil [OF this] eq
  show "included_spans merged cursor b = [] \<longleftrightarrow> left_over data merged (hb_start b) (hb_end b) = []" by simp
qed

lemma advance_cursor_ok:
  "\<forall>j < cursor. j < length merged \<longrightarrow> snd (merged ! j) \<le> start \<Longrightarrow>
   j < advance_cursor merged start cursor \<Longrightarrow> j < length merged \<Longrightarrow> snd (merged ! j) \<le> start"
proof (induction merged start cursor rule: advance_cursor.induct)
  case (1 merged start cursor)
  show ?case
  proof (cases "cursor < length merged \<and> snd (merged ! cursor) \<le> start")
    case True
    then have "\<forall>j < cursor + 1. j < length merged \<longrightarrow> snd (merged ! j) \<le> start"
      using "1.prems"(1) by (auto simp: less_Suc_eq)
    with "1.IH" [OF True] "1.prems"(2,3) True show ?thesis by (subst (asm) advance_cursor.simps) simp
  next
    case False
    with "1.prems" show ?thesis by (subst (asm) advance_cursor.simps) (auto split: if_splits)
  qed
qed

section \<open>The digest input\<close>

text \<open>A box contributes its marker and the bytes that are left, or nothing when none is.\<close>

definition marked :: "bytes \<Rightarrow> span list \<Rightarrow> span \<Rightarrow> bytes" where
  "marked data ranges = (\<lambda>(s, e). if left_over data ranges s e = [] then [] else box_marker s @ left_over data ranges s e)"

definition root_bytes :: "bytes \<Rightarrow> bmff_root_contribution \<Rightarrow> bytes" where
  "root_bytes data root = box_marker (rt_start root) @ span_bytes data (rt_spans root)"

lemma roots_ok:
  assumes "separated merged" and "sorted_wrt (\<lambda>x y. hb_start x \<le> hb_start y) tops"
    and "\<forall>b \<in> set tops. hb_start b \<le> hb_end b \<and> hb_end b \<le> length data"
    and "\<forall>b \<in> set tops. \<forall>j < cursor. j < length merged \<longrightarrow> snd (merged ! j) \<le> hb_start b"
  shows "concat (map (root_bytes data) (snd (foldl (root_step merged) (cursor, roots) tops)))
    = concat (map (root_bytes data) roots) @ concat (map (\<lambda>b. marked data merged (hb_start b, hb_end b)) tops)"
  using assms
proof (induction tops arbitrary: cursor roots)
  case (Cons b tops)
  define cursor1 where "cursor1 = advance_cursor merged (hb_start b) cursor"
  define spans where "spans = included_spans merged cursor1 b"
  have adv: "\<forall>j < cursor1. j < length merged \<longrightarrow> snd (merged ! j) \<le> hb_start b"
    using advance_cursor_ok [of cursor merged "hb_start b"] Cons.prems(4) by (auto simp: cursor1_def)
  have spans: "span_bytes data spans = left_over data merged (hb_start b) (hb_end b)"
    "spans = [] \<longleftrightarrow> left_over data merged (hb_start b) (hb_end b) = []"
    using included_spans_ok [OF assms(1) _ _ adv] Cons.prems(3) by (auto simp: spans_def)
  define roots1 where "roots1 = (if spans \<noteq> [] then roots @ [\<lparr>rt_start = hb_start b, rt_spans = spans\<rparr>] else roots)"
  have "foldl (root_step merged) (cursor, roots) (b # tops) = foldl (root_step merged) (cursor1, roots1) tops"
    by (simp add: root_step_def Let_def cursor1_def spans_def roots1_def)
  moreover have "concat (map (root_bytes data) (snd (foldl (root_step merged) (cursor1, roots1) tops)))
      = concat (map (root_bytes data) roots1) @ concat (map (\<lambda>b. marked data merged (hb_start b, hb_end b)) tops)"
    using Cons.prems adv by (intro Cons.IH) (auto intro: order_trans)
  moreover have "concat (map (root_bytes data) roots1)
      = concat (map (root_bytes data) roots) @ marked data merged (hb_start b, hb_end b)"
    using spans by (auto simp: roots1_def marked_def root_bytes_def)
  ultimately show ?case by simp
qed simp

lemma hasher_update_append [simp]:
  "hasher_update ys (hasher_update xs h) = hasher_update (xs @ ys) h" "hasher_update [] h = h"
  by (simp_all add: hasher_update_def)

lemma hasher_updates:
  "foldl (\<lambda>h (s, e). hasher_update (slice data s e) h) h spans = hasher_update (span_bytes data spans) h"
  by (induction spans arbitrary: h) auto

lemma root_updates:
  "foldl (root_update data) h roots = hasher_update (concat (map (root_bytes data) roots)) h"
  by (induction roots arbitrary: h) (auto simp: root_update_def hasher_updates root_bytes_def)

section \<open>The box tree\<close>

definition tree_step ::
    "bytes \<Rightarrow> hash_path_component list \<Rightarrow> nat \<Rightarrow> bool \<Rightarrow> (bytes \<Rightarrow> nat) \<times> hash_box list \<Rightarrow> iso_box
      \<Rightarrow> format_error + ((bytes \<Rightarrow> nat) \<times> hash_box list)" where
  "tree_step data parent_path depth top_level = (\<lambda>(occurrences, acc) b.
     if length acc \<ge> MAX_BMFF_HASH_BOXES then Inl BOX_COUNT_BOUND
     else let occurrence = occurrences (ib_type b) + 1;
              h = hash_box_at data parent_path top_level occurrence b
          in res_bind
               (case child_start data b of
                  Some cs \<Rightarrow>
                    if cs < ib_end b
                    then collect_hash_boxes data cs (ib_end b) (hb_path h) (depth + 1) False (acc @ [h])
                    else Inr (acc @ [h])
                | None \<Rightarrow> Inr (acc @ [h]))
               (\<lambda>acc'. Inr (occurrences(ib_type b := occurrence), acc')))"

lemma collect_tree_step:
  "collect_hash_boxes data lo hi parent_path depth top_level out =
     (if depth \<ge> MAX_BMFF_HASH_DEPTH \<or> length out > MAX_BMFF_HASH_BOXES then Inl TREE_BOUND
      else res_bind (walk_boxes_range data lo hi) (\<lambda>boxes.
        if length out + length boxes > MAX_BMFF_HASH_BOXES then Inl BOX_COUNT_BOUND
        else res_bind (try_fold (tree_step data parent_path depth top_level) (\<lambda>_. 0, out) boxes)
               (\<lambda>(occurrences, acc). Inr acc)))"
  unfolding tree_step_def by (rule collect_hash_boxes.simps)

lemma collect_Inr:
  "collect_hash_boxes data lo hi parent_path depth top_level out = Inr out' \<longleftrightarrow>
   depth < MAX_BMFF_HASH_DEPTH \<and> length out \<le> MAX_BMFF_HASH_BOXES
   \<and> (\<exists>boxes occurrences. walk_boxes_range data lo hi = Inr boxes
        \<and> length out + length boxes \<le> MAX_BMFF_HASH_BOXES
        \<and> try_fold (tree_step data parent_path depth top_level) (\<lambda>_. 0, out) boxes = Inr (occurrences, out'))"
  by (subst collect_tree_step) (auto simp: res_simps not_less not_le split: if_splits)

lemma tree_step_Inr:
  assumes "tree_step data parent_path depth top_level (occurrences, acc) b = Inr (occurrences', acc')"
  obtains h where "h = hash_box_at data parent_path top_level (occurrences (ib_type b) + 1) b"
    and "length acc < MAX_BMFF_HASH_BOXES"
    and "acc' = acc @ [h]
      \<or> (\<exists>cs. child_start data b = Some cs \<and> cs < ib_end b
           \<and> collect_hash_boxes data cs (ib_end b) (hb_path h) (depth + 1) False (acc @ [h]) = Inr acc')"
  using assms by (auto simp: tree_step_def Let_def res_simps split: if_splits option.splits)

definition node_ok :: "nat \<Rightarrow> nat \<Rightarrow> hash_path_component list \<Rightarrow> hash_box \<Rightarrow> bool" where
  "node_ok lo hi parent_path h \<longleftrightarrow>
     lo \<le> hb_start h \<and> hb_start h + 8 \<le> hb_end h \<and> hb_end h \<le> hi
     \<and> take (length parent_path) (hb_path h) = parent_path
     \<and> length parent_path < length (hb_path h) \<and> length (hb_path h) \<le> MAX_BMFF_HASH_DEPTH"

definition top_of :: "bytes \<Rightarrow> hash_box \<Rightarrow> iso_box \<Rightarrow> bool" where
  "top_of data h b \<longleftrightarrow>
     hb_start h = ib_start b \<and> hb_end h = ib_end b
     \<and> (\<exists>n. hb_path h = [\<lparr>hp_type = ib_type b, hp_occurrence = n, hp_c2pa = is_c2pa_uuid data b\<rparr>])"

definition nodes_ok :: "nat \<Rightarrow> nat \<Rightarrow> hash_path_component list \<Rightarrow> bool \<Rightarrow> hash_box list \<Rightarrow> bool" where
  "nodes_ok lo hi parent_path top_lv new \<longleftrightarrow>
     (\<forall>h \<in> set new. node_ok lo hi parent_path h
        \<and> (hb_top_level h \<longleftrightarrow> top_lv \<and> length (hb_path h) = Suc (length parent_path)))"

lemma child_start_ge: "child_start data b = Some cs \<Longrightarrow> ib_payload b \<le> cs"
  by (auto simp: child_start_def split: if_splits)

lemma hash_box_at_simps [simp]:
  "hb_start (hash_box_at data pp top_lv n b) = ib_start b" "hb_end (hash_box_at data pp top_lv n b) = ib_end b"
  "hb_top_level (hash_box_at data pp top_lv n b) = top_lv"
  "hb_path (hash_box_at data pp top_lv n b) = pp @ [\<lparr>hp_type = ib_type b, hp_occurrence = n, hp_c2pa = is_c2pa_uuid data b\<rparr>]"
  by (auto simp: hash_box_at_def Let_def is_c2pa_uuid_def)

lemma tree_fold:
  assumes sub: "\<And>cs e path acc acc'. collect_hash_boxes data cs e path (Suc (length pp)) False acc = Inr acc' \<Longrightarrow>
      length path = Suc (length pp) \<Longrightarrow> \<exists>new. acc' = acc @ new \<and> nodes_ok cs e path False new \<and> length acc' \<le> MAX_BMFF_HASH_BOXES"
    and depth: "length pp < MAX_BMFF_HASH_DEPTH"
    and "try_fold (tree_step data pp (length pp) top_lv) (occ, acc) boxes = Inr (occ', out')"
    and "length acc \<le> MAX_BMFF_HASH_BOXES"
    and "\<forall>b \<in> set boxes. lo \<le> ib_start b \<and> ib_start b + 8 \<le> ib_payload b \<and> ib_payload b \<le> ib_end b \<and> ib_end b \<le> hi"
  shows "\<exists>new. out' = acc @ new \<and> nodes_ok lo hi pp top_lv new \<and> length out' \<le> MAX_BMFF_HASH_BOXES
    \<and> (top_lv \<and> pp = [] \<longrightarrow> list_all2 (top_of data) (filter hb_top_level new) boxes)"
  using assms(3-)
proof (induction boxes arbitrary: occ acc)
  case Nil
  then show ?case by (auto simp: nodes_ok_def)
next
  case (Cons b boxes)
  obtain occ1 acc1 where step: "tree_step data pp (length pp) top_lv (occ, acc) b = Inr (occ1, acc1)"
    and rest: "try_fold (tree_step data pp (length pp) top_lv) (occ1, acc1) boxes = Inr (occ', out')"
    using Cons.prems(1) by (auto simp: res_simps)
  from step obtain h where h: "h = hash_box_at data pp top_lv (occ (ib_type b) + 1) b" and len: "length acc < MAX_BMFF_HASH_BOXES"
    and acc1: "acc1 = acc @ [h] \<or> (\<exists>cs. child_start data b = Some cs \<and> cs < ib_end b
           \<and> collect_hash_boxes data cs (ib_end b) (hb_path h) (length pp + 1) False (acc @ [h]) = Inr acc1)"
    by (rule tree_step_Inr)
  have b: "lo \<le> ib_start b" "ib_start b + 8 \<le> ib_payload b" "ib_payload b \<le> ib_end b" "ib_end b \<le> hi"
    using Cons.prems(3) by auto
  have here: "node_ok lo hi pp h" using b depth by (simp add: node_ok_def h)
  obtain kids where kids: "acc1 = acc @ h # kids" "length acc1 \<le> MAX_BMFF_HASH_BOXES"
    "\<forall>k \<in> set kids. node_ok lo hi pp k \<and> \<not> hb_top_level k \<and> length (hb_path k) > Suc (length pp)"
  proof -
    from acc1 consider "acc1 = acc @ [h]"
      | cs where "child_start data b = Some cs"
          "collect_hash_boxes data cs (ib_end b) (hb_path h) (Suc (length pp)) False (acc @ [h]) = Inr acc1" by auto
    then show thesis
    proof cases
      case 1
      with len show thesis by (intro that [of "[]"]) auto
    next
      case 2
      from sub [OF 2(2)] h obtain new where new: "acc1 = acc @ h # new" "nodes_ok cs (ib_end b) (hb_path h) False new"
        "length acc1 \<le> MAX_BMFF_HASH_BOXES" by auto
      have "node_ok lo hi pp k \<and> \<not> hb_top_level k \<and> length (hb_path k) > Suc (length pp)" if "k \<in> set new" for k
      proof -
        have k: "node_ok cs (ib_end b) (hb_path h) k" "\<not> hb_top_level k" using new(2) that by (auto simp: nodes_ok_def)
        then have "take (length pp) (take (Suc (length pp)) (hb_path k)) = take (length pp) (hb_path h)"
          by (simp add: node_ok_def h)
        then have "take (length pp) (hb_path k) = pp" by (simp add: h)
        with k b child_start_ge [OF 2(1)] h show ?thesis by (auto simp: node_ok_def)
      qed
      with new show thesis by (intro that [of new]) auto
    qed
  qed
  have "\<forall>b \<in> set boxes. lo \<le> ib_start b \<and> ib_start b + 8 \<le> ib_payload b \<and> ib_payload b \<le> ib_end b \<and> ib_end b \<le> hi"
    using Cons.prems(3) by simp
  from Cons.IH [OF rest kids(2) this] obtain new where new: "out' = acc1 @ new" "nodes_ok lo hi pp top_lv new"
    "length out' \<le> MAX_BMFF_HASH_BOXES" "top_lv \<and> pp = [] \<longrightarrow> list_all2 (top_of data) (filter hb_top_level new) boxes"
    by blast
  have "nodes_ok lo hi pp top_lv (h # kids @ new)"
    using new(2) here kids(3) h by (auto simp: nodes_ok_def)
  moreover have "filter hb_top_level kids = []" using kids(3) by (auto simp: filter_empty_conv)
  moreover have "top_of data h b" if "pp = []" using that by (auto simp: top_of_def h)
  ultimately show ?case
    using new kids(1) h by (intro exI [of _ "h # kids @ new"]) auto
qed

lemma collect_nodes:
  assumes "collect_hash_boxes data lo hi pp (length pp) top_lv out = Inr out'"
  shows "\<exists>new. out' = out @ new \<and> nodes_ok lo hi pp top_lv new \<and> length out' \<le> MAX_BMFF_HASH_BOXES
    \<and> (top_lv \<and> pp = [] \<longrightarrow> (\<exists>boxes. walk_boxes_range data lo hi = Inr boxes \<and> list_all2 (top_of data) (filter hb_top_level new) boxes))"
  using assms
proof (induction "MAX_BMFF_HASH_DEPTH - length pp" arbitrary: lo hi pp top_lv out out' rule: less_induct)
  case less
  from less.prems obtain boxes occ where depth: "length pp < MAX_BMFF_HASH_DEPTH" and out: "length out \<le> MAX_BMFF_HASH_BOXES"
    and walk: "walk_boxes_range data lo hi = Inr boxes"
    and fold: "try_fold (tree_step data pp (length pp) top_lv) (\<lambda>_. 0, out) boxes = Inr (occ, out')"
    by (auto simp: collect_Inr)
  have boxes: "\<forall>b \<in> set boxes. lo \<le> ib_start b \<and> ib_start b + 8 \<le> ib_payload b \<and> ib_payload b \<le> ib_end b \<and> ib_end b \<le> hi"
    using iso_boxes_each [OF walk [unfolded walk_boxes_range_def]] by blast
  have sub: "\<exists>new. acc' = acc @ new \<and> nodes_ok cs e path False new \<and> length acc' \<le> MAX_BMFF_HASH_BOXES"
    if "collect_hash_boxes data cs e path (Suc (length pp)) False acc = Inr acc'" and "length path = Suc (length pp)"
    for cs e path acc acc'
    using less.hyps [of path cs e False acc acc'] that depth by auto
  from tree_fold [OF sub depth fold out boxes] walk show ?case by auto
qed

lemma hash_boxes_ok:
  assumes "hash_boxes data = Inr boxes"
  shows "length boxes \<le> MAX_BMFF_HASH_BOXES" and "nodes_ok 0 (length data) [] True boxes"
    and "\<exists>bs. walk_iso_boxes Bmff data = Inr bs \<and> list_all2 (top_of data) (filter hb_top_level boxes) bs"
  using collect_nodes [of data 0 "length data" "[]" True "[]" boxes] assms
  by (auto simp: hash_boxes_def walk_boxes_range_def walk_iso_boxes_def)

end
