(* ===== verification/Bmff_Properties.thy ===== *)
theory Bmff_Properties
  imports Bmff_Ranges
begin

text \<open>
  What the BMFF reader promises the verifier: the excluded ranges are the bytes the exclusion maps
  select, the digest is that of everything else with the box markers, and the streamed and the simple
  hash agree with it.
\<close>

section \<open>What an exclusion map hides\<close>

definition hides :: "bmff_exclusion_map \<Rightarrow> hash_box \<Rightarrow> nat \<Rightarrow> bool" where
  "hides x b i \<longleftrightarrow>
     (if xm_subset x = [] then hb_start b \<le> i \<and> i < hb_end b
      else list_ex (\<lambda>s. hb_start b + sm_offset s \<le> i \<and> i < hb_end b
                        \<and> (sm_length s = 0 \<or> i < hb_start b + sm_offset s + sm_length s)) (xm_subset x))"

definition hidden_offset :: "bytes \<Rightarrow> hash_box list \<Rightarrow> (bmff_exclusion_map \<times> bmff_xpath_component list) list \<Rightarrow> nat \<Rightarrow> bool" where
  "hidden_offset data boxes parsed i \<longleftrightarrow>
     list_ex (\<lambda>(x, xpath). list_ex (\<lambda>b. exclusion_matches data x xpath b \<and> hides x b i) boxes) parsed"

definition proper :: "span list \<Rightarrow> bool" where
  "proper ranges \<longleftrightarrow> (\<forall>(s, e) \<in> set ranges. s < e)"

lemma try_fold_ranges:
  assumes "\<And>r x r'. x \<in> set xs \<Longrightarrow> f r x = Inr r' \<Longrightarrow> proper r \<Longrightarrow> proper r' \<and> (offset_in r' i \<longleftrightarrow> offset_in r i \<or> P x)"
    and "try_fold f r xs = Inr r'" and "proper r"
  shows "proper r' \<and> (offset_in r' i \<longleftrightarrow> offset_in r i \<or> list_ex P xs)"
  using assms
proof (induction xs arbitrary: r)
  case (Cons x xs)
  from Cons.prems(2) obtain r1 where r1: "f r x = Inr r1" "try_fold f r1 xs = Inr r'" by (auto simp: res_simps)
  have "proper r1 \<and> (offset_in r1 i \<longleftrightarrow> offset_in r i \<or> P x)" using Cons.prems(1) [OF _ r1(1) Cons.prems(3)] by simp
  moreover from this have "proper r1" by simp
  moreover have "proper u' \<and> (offset_in u' i \<longleftrightarrow> offset_in u i \<or> P y)"
    if "y \<in> set xs" "f u y = Inr u'" "proper u" for u y u'
    using that by (intro Cons.prems(1)) simp_all
  ultimately have "proper r' \<and> (offset_in r' i \<longleftrightarrow> offset_in r1 i \<or> list_ex P xs)"
    using r1(2) by (intro Cons.IH) blast+
  moreover note \<open>proper r1 \<and> _\<close>
  ultimately show ?case by auto
qed simp

lemma push_range_ok:
  "push_range ranges (s, e) = Inr r' \<Longrightarrow> proper ranges \<Longrightarrow> s < e \<Longrightarrow>
   proper r' \<and> (offset_in r' i \<longleftrightarrow> offset_in ranges i \<or> s \<le> i \<and> i < e)"
  by (auto simp: push_range_def proper_def split: if_splits)

lemma push_subset_ok:
  assumes "push_subset b ranges s = Inr r'" and "proper ranges" and "hb_end b \<le> usize_max"
  shows "proper r' \<and> (offset_in r' i \<longleftrightarrow> offset_in ranges i
    \<or> hb_start b + sm_offset s \<le> i \<and> i < hb_end b \<and> (sm_length s = 0 \<or> i < hb_start b + sm_offset s + sm_length s))"
proof (cases "subset_range b s")
  case None
  then have "hb_end b \<le> hb_start b + sm_offset s"
    using assms(3) by (auto simp: subset_range_def Let_def checked_add_def split: if_splits)
  with None assms show ?thesis by (auto simp: push_subset_def)
next
  case (Some r)
  then obtain e where r: "r = (hb_start b + sm_offset s, e)" "hb_start b + sm_offset s < e"
    and e: "e = (if sm_length s = 0 then hb_end b else min (hb_start b + sm_offset s + sm_length s) (hb_end b))"
    using assms(3) by (auto simp: subset_range_def Let_def checked_add_def split: if_splits)
  have "push_range ranges (hb_start b + sm_offset s, e) = Inr r'" using assms(1) Some r by (simp add: push_subset_def)
  from push_range_ok [OF this assms(2) r(2), of i] e show ?thesis by (auto split: if_splits)
qed

lemma push_box_ok:
  assumes "push_box x ranges b = Inr r'" and "proper ranges" and "hb_start b < hb_end b" and "hb_end b \<le> usize_max"
  shows "proper r' \<and> (offset_in r' i \<longleftrightarrow> offset_in ranges i \<or> hides x b i)"
proof (cases "xm_subset x = []")
  case True
  with assms push_range_ok [of ranges "hb_start b" "hb_end b" r' i] show ?thesis by (simp add: push_box_def hides_def)
next
  case False
  with assms(1) have "try_fold (push_subset b) ranges (xm_subset x) = Inr r'" by (simp add: push_box_def)
  from try_fold_ranges [OF push_subset_ok [OF _ _ assms(4)] this assms(2)] False show ?thesis
    by (simp add: hides_def)
qed

lemma push_exclusions_ok:
  assumes "try_fold (push_exclusion data boxes) [] parsed = Inr ranges"
    and "\<forall>b \<in> set boxes. hb_start b < hb_end b \<and> hb_end b \<le> usize_max"
  shows "proper ranges" and "offset_in ranges i \<longleftrightarrow> hidden_offset data boxes parsed i"
proof -
  have "proper r' \<and> (offset_in r' i \<longleftrightarrow> offset_in r i
      \<or> (case p of (x, xpath) \<Rightarrow> list_ex (\<lambda>b. exclusion_matches data x xpath b \<and> hides x b i) boxes))"
    if push: "push_exclusion data boxes r p = Inr r'" and r: "proper r" for r p r' i
  proof -
    obtain x xpath where p: "p = (x, xpath)" by (cases p)
    let ?hits = "filter (exclusion_matches data x xpath) boxes"
    have fold: "try_fold (push_box x) r ?hits = Inr r'" using push p by (simp add: push_exclusion_def)
    have "proper r' \<and> (offset_in r' i \<longleftrightarrow> offset_in r i \<or> list_ex (\<lambda>b. hides x b i) ?hits)"
    proof (rule try_fold_ranges [OF _ fold r])
      fix r b r' assume "b \<in> set ?hits" and step: "push_box x r b = Inr r'" "proper r"
      then have "hb_start b < hb_end b" "hb_end b \<le> usize_max" using assms(2) by auto
      with step show "proper r' \<and> (offset_in r' i \<longleftrightarrow> offset_in r i \<or> hides x b i)" by (rule push_box_ok)
    qed
    then show ?thesis by (auto simp: p list_ex_iff)
  qed
  from try_fold_ranges [OF this assms(1)]
  have "proper ranges \<and> (offset_in ranges i \<longleftrightarrow> hidden_offset data boxes parsed i)" for i
    by (simp add: hidden_offset_def proper_def)
  then show "proper ranges" and "offset_in ranges i \<longleftrightarrow> hidden_offset data boxes parsed i" by blast+
qed

lemma normalized_Inr:
  "normalized_bmff_ranges data xs = Inr plan \<longleftrightarrow>
   (\<exists>boxes parsed ranges merged. hash_boxes data = Inr boxes \<and> parse_exclusions xs = Inr parsed
      \<and> check_work (length boxes) xs = Inr () \<and> try_fold (push_exclusion data boxes) [] parsed = Inr ranges
      \<and> merge_ranges (length data) ranges = Inr merged
      \<and> plan = \<lparr>pl_ranges = merged, pl_roots = snd (foldl (root_step merged) (0, []) (filter hb_top_level boxes))\<rparr>)"
  by (auto simp: normalized_bmff_ranges_def res_simps)

lemma boxes_in_file:
  assumes "hash_boxes data = Inr boxes" and "b \<in> set boxes"
  shows "hb_start b < hb_end b" and "hb_end b \<le> length data"
  using hash_boxes_ok(2) [OF assms(1)] assms(2) by (auto simp: nodes_ok_def node_ok_def)

lemma hash_boxes_proper:
  assumes "hash_boxes data = Inr boxes" and "length data \<le> usize_max"
  shows "\<forall>b \<in> set boxes. hb_start b < hb_end b \<and> hb_end b \<le> usize_max"
  using boxes_in_file [OF assms(1)] assms(2) order_trans by blast

lemma excluded_ranges_exact:
  assumes "bmff_excluded_ranges data xs = Inr merged" and "length data \<le> usize_max"
  shows "\<exists>boxes parsed. hash_boxes data = Inr boxes \<and> parse_exclusions xs = Inr parsed
    \<and> (\<forall>i. offset_in merged i \<longleftrightarrow> hidden_offset data boxes parsed i)
    \<and> separated merged \<and> list_all (\<lambda>r. snd r \<le> length data) merged"
proof -
  from assms(1) obtain boxes parsed ranges where b: "hash_boxes data = Inr boxes" and p: "parse_exclusions xs = Inr parsed"
    and r: "try_fold (push_exclusion data boxes) [] parsed = Inr ranges" and m: "merge_ranges (length data) ranges = Inr merged"
    by (auto simp: bmff_excluded_ranges_def res_simps normalized_Inr)
  note pushed = push_exclusions_ok [OF r hash_boxes_proper [OF b assms(2)]]
  from merge_ranges_ok [OF m pushed(1) [unfolded proper_def]] pushed(2) b p show ?thesis
    by (auto simp: list_all_iff)
qed

lemma hash_of_kept_bytes:
  assumes "bmff_hash_with_exclusions digest data alg xs = Inr d" and "length data \<le> usize_max"
  shows "\<exists>a bs merged. content_hash_algorithm_of alg = Some a \<and> walk_iso_boxes Bmff data = Inr bs
    \<and> bmff_excluded_ranges data xs = Inr merged
    \<and> d = digest a (concat (map (marked data merged) (box_spans bs)))"
proof -
  from assms(1) obtain h boxes parsed ranges merged where h: "hasher_new alg = Some h"
    and b: "hash_boxes data = Inr boxes" and r: "try_fold (push_exclusion data boxes) [] parsed = Inr ranges"
    and m: "merge_ranges (length data) ranges = Inr merged"
    and plan: "normalized_bmff_ranges data xs
      = Inr \<lparr>pl_ranges = merged, pl_roots = snd (foldl (root_step merged) (0, []) (filter hb_top_level boxes))\<rparr>"
    and d: "d = hasher_finalize digest (foldl (root_update data) h (snd (foldl (root_step merged) (0, []) (filter hb_top_level boxes))))"
    by (auto simp: bmff_hash_with_exclusions_def res_simps normalized_Inr)
  from hash_boxes_ok(3) [OF b] obtain bs where bs: "walk_iso_boxes Bmff data = Inr bs"
    and top_bs: "list_all2 (top_of data) (filter hb_top_level boxes) bs" by blast
  have spans: "map (\<lambda>b. (hb_start b, hb_end b)) (filter hb_top_level boxes) = box_spans bs"
    using top_bs by (auto simp: list_all2_conv_all_nth top_of_def box_spans_def intro!: nth_equalityI)
  obtain e where "tiles 0 (box_spans bs) e"
    using iso_boxes_tile [OF bs [unfolded walk_iso_boxes_def]] by blast
  then have "sorted_wrt (\<lambda>x y. snd x \<le> fst y) (box_spans bs)" by (rule tiles_disjoint)
  moreover have "\<forall>x \<in> set (filter hb_top_level boxes). hb_start x \<le> hb_end x \<and> hb_end x \<le> length data"
    using boxes_in_file [OF b] by (auto simp: less_imp_le)
  ultimately have sorted: "sorted_wrt (\<lambda>x y. hb_start x \<le> hb_start y) (filter hb_top_level boxes)"
    unfolding spans [symmetric] sorted_wrt_map by (elim sorted_wrt_mono_rel [rotated]) fastforce
  note sep = merge_ranges_ok(1) [OF m push_exclusions_ok(1) [OF r hash_boxes_proper [OF b assms(2)], unfolded proper_def]]
  have "concat (map (root_bytes data) (snd (foldl (root_step merged) (0, []) (filter hb_top_level boxes))))
      = concat (map (marked data merged) (box_spans bs))"
    using roots_ok [OF sep sorted, of data 0 "[]"] boxes_in_file [OF b]
    by (simp add: spans [symmetric] comp_def less_imp_le)
  with h b bs plan d show ?thesis
    by (auto simp: root_updates hasher_new_def hasher_finalize_def hasher_update_def bmff_excluded_ranges_def)
qed

section \<open>A sample file\<close>

text \<open>An empty \<open>ftyp\<close> box, a C2PA box with no payload and a media box of one byte.\<close>

definition sample_bmff :: bytes where
  "sample_bmff = [0, 0, 0, 8] @ TYPE_FTYP @ [0, 0, 0, 24] @ TYPE_UUID_BOX @ C2PA_BMFF_UUID @ [0, 0, 0, 9] @ ascii ''mdat'' @ [7]"

lemmas sample_bmff_eval = sample_bmff_def TYPE_FTYP_def TYPE_UUID_BOX_def C2PA_BMFF_UUID_def ascii_def slice_def

lemma sample_bmff_length: "length sample_bmff = 41"
  by (simp add: sample_bmff_eval)

definition sample_boxes :: "iso_box list" where
  "sample_boxes =
     [\<lparr>ib_type = TYPE_FTYP, ib_start = 0, ib_payload = 8, ib_end = 8\<rparr>,
      \<lparr>ib_type = TYPE_UUID_BOX, ib_start = 8, ib_payload = 16, ib_end = 32\<rparr>,
      \<lparr>ib_type = ascii ''mdat'', ib_start = 32, ib_payload = 40, ib_end = 41\<rparr>]"

lemma sample_headers:
  "be_u32 sample_bmff 0 = Some 8" "be_u32 sample_bmff 8 = Some 24" "be_u32 sample_bmff 32 = Some 9"
  "slice sample_bmff 4 8 = TYPE_FTYP" "slice sample_bmff 12 16 = TYPE_UUID_BOX" "slice sample_bmff 36 40 = ascii ''mdat''"
  by (simp_all add: be_u32_def slice_get_def sample_bmff_eval)

lemma sample_at:
  "iso_box_at Bmff sample_bmff 41 0 = Inr (sample_boxes ! 0)"
  "iso_box_at Bmff sample_bmff 41 8 = Inr (sample_boxes ! 1)"
  "iso_box_at Bmff sample_bmff 41 32 = Inr (sample_boxes ! 2)"
  by (simp_all add: iso_box_at_def iso_extent_def sample_headers sample_boxes_def add_within_def checked_add_def
      u64_to_usize_def u64_to_usize_with_max_def usize_max_def)

lemma sample_walk: "walk_iso_boxes Bmff sample_bmff = Inr sample_boxes"
proof -
  have "iso_boxes Bmff sample_bmff 41 41 = Inr []" by (simp add: iso_boxes_Nil)
  then have "iso_boxes Bmff sample_bmff 41 32 = Inr [sample_boxes ! 2]"
    using sample_at(3) by (subst iso_boxes.simps) (simp add: sample_boxes_def)
  then have "iso_boxes Bmff sample_bmff 41 8 = Inr [sample_boxes ! 1, sample_boxes ! 2]"
    using sample_at(2) by (subst iso_boxes.simps) (simp add: sample_boxes_def)
  then have "iso_boxes Bmff sample_bmff 41 0 = Inr [sample_boxes ! 0, sample_boxes ! 1, sample_boxes ! 2]"
    using sample_at(1) by (subst iso_boxes.simps) (simp add: sample_boxes_def)
  then show ?thesis by (simp add: walk_iso_boxes_def sample_bmff_length) (simp add: sample_boxes_def)
qed

lemma sample_uuid: "is_c2pa_uuid sample_bmff b \<longleftrightarrow> ib_type b = TYPE_UUID_BOX"
  if "b \<in> set sample_boxes"
proof -
  have "slice sample_bmff 16 32 = C2PA_BMFF_UUID" by (simp add: sample_bmff_eval)
  with that show ?thesis
    by (auto simp: sample_boxes_def is_c2pa_uuid_def TYPE_UUID_BOX_def TYPE_FTYP_def ascii_def)
qed

definition sample_tree :: "hash_box list" where
  "sample_tree = map (hash_box_at sample_bmff [] True 1) sample_boxes"

lemma sample_child: "b \<in> set sample_boxes \<Longrightarrow> child_start sample_bmff b = None"
  by (auto simp: sample_boxes_def child_start_def HASH_CONTAINER_TYPES_def TYPE_UUID_BOX_def TYPE_FTYP_def ascii_def)

lemma sample_hash_boxes: "hash_boxes sample_bmff = Inr sample_tree"
  using sample_walk sample_child
  by (simp add: hash_boxes_def collect_tree_step [of sample_bmff 0] walk_boxes_range_def walk_iso_boxes_def tree_step_def
      sample_boxes_def sample_tree_def MAX_BMFF_HASH_BOXES_def MAX_BMFF_HASH_DEPTH_def TYPE_UUID_BOX_def TYPE_FTYP_def ascii_def
      sample_bmff_length)

definition sample_plan_exclusion :: bmff_exclusion_map where
  "sample_plan_exclusion = plain_exclusion (47 # TYPE_UUID_BOX)"

lemma sample_path_parsed: "parse_bmff_xpath (47 # TYPE_UUID_BOX)
    = Inr [\<lparr>xc_type = TYPE_UUID_BOX, xc_occurrence = None, xc_c2pa = True\<rparr>]"
  by (simp add: parse_bmff_xpath_def TYPE_UUID_BOX_def ascii_def component_step_def parse_bmff_xpath_component_def
      parse_selectors.simps legacy_uuid_def MAX_BMFF_XPATH_BYTES_def MAX_BMFF_HASH_DEPTH_def)

lemma sample_ranges: "try_fold (push_exclusion sample_bmff sample_tree) []
    [(sample_plan_exclusion, [\<lparr>xc_type = TYPE_UUID_BOX, xc_occurrence = None, xc_c2pa = True\<rparr>])] = Inr [(8, 32)]"
proof -
  have "filter (exclusion_matches sample_bmff sample_plan_exclusion [\<lparr>xc_type = TYPE_UUID_BOX, xc_occurrence = None, xc_c2pa = True\<rparr>]) sample_tree
      = [sample_tree ! 1]"
    using sample_uuid
    by (simp add: sample_tree_def sample_boxes_def exclusion_matches_def path_matches_def component_matches_def
        sample_plan_exclusion_def plain_exclusion_def flags_match_def TYPE_UUID_BOX_def TYPE_FTYP_def ascii_def)
  then show ?thesis
    by (simp add: push_exclusion_def push_box_def push_range_def sample_plan_exclusion_def plain_exclusion_def
        MAX_BMFF_EXCLUSION_RANGES_def sample_tree_def sample_boxes_def)
qed

lemma sample_plan:
  "\<exists>plan. normalized_bmff_ranges sample_bmff [sample_plan_exclusion] = Inr plan \<and> pl_ranges plan = [(8, 32)]"
proof -
  have "check_work (length sample_tree) [sample_plan_exclusion] = Inr ()"
    by (simp add: check_work_def sample_plan_exclusion_def plain_exclusion_def checks_exceed_def work_exceeds_def
        sample_tree_def sample_boxes_def usize_max_def MAX_BMFF_EXCLUSION_MATCH_CHECKS_def checked_add_def
        MAX_BMFF_EXCLUSION_DATA_QUALIFIERS_def MAX_BMFF_EXCLUSION_DATA_BYTES_def MAX_BMFF_EXCLUSION_SUBSETS_def)
  moreover have "merge_ranges (length sample_bmff) [(8, 32)] = Inr [(8, 32)]"
    by (simp add: merge_ranges_def merge_range_def sample_bmff_length)
  moreover have "parse_exclusions [sample_plan_exclusion]
      = Inr [(sample_plan_exclusion, [\<lparr>xc_type = TYPE_UUID_BOX, xc_occurrence = None, xc_c2pa = True\<rparr>])]"
    using sample_path_parsed by (simp add: sample_plan_exclusion_def plain_exclusion_def)
  ultimately show ?thesis using sample_hash_boxes sample_ranges by (simp add: normalized_Inr)
qed

section \<open>The properties\<close>

text \<open>
  C6: The excluded ranges are exact. When the planner returns ranges for a list of exclusion maps, an
  offset lies in one of them exactly when some map matches some box of the tree and selects that
  offset, the whole box or one of its subsets. The ranges are in order, apart from each other, not empty
  and inside the file.
\<close>

theorem bmff_excluded_ranges_exact:
  assumes "bmff_excluded_ranges data xs = Inr merged" and "length data \<le> usize_max"
  shows "\<exists>boxes parsed. hash_boxes data = Inr boxes \<and> parse_exclusions xs = Inr parsed
    \<and> (\<forall>i. offset_in merged i \<longleftrightarrow> hidden_offset data boxes parsed i)
    \<and> separated merged \<and> list_all (\<lambda>r. snd r \<le> length data) merged"
  using assms by (rule excluded_ranges_exact)

theorem bmff_excluded_ranges_exact_witness:
  "\<exists>boxes parsed. hash_boxes sample_bmff = Inr boxes \<and> parse_exclusions [sample_plan_exclusion] = Inr parsed
    \<and> (\<forall>i. offset_in [(8, 32)] i \<longleftrightarrow> hidden_offset sample_bmff boxes parsed i)
    \<and> separated [(8, 32)] \<and> list_all (\<lambda>r. snd r \<le> length sample_bmff) [(8 :: nat, 32 :: nat)]"
proof (rule bmff_excluded_ranges_exact)
  show "bmff_excluded_ranges sample_bmff [sample_plan_exclusion] = Inr [(8, 32)]"
    using sample_plan by (auto simp: bmff_excluded_ranges_def)
  show "length sample_bmff \<le> usize_max" by (simp add: sample_bmff_length usize_max_def)
qed

text \<open>
  C5: The BMFF hash is the digest of the left_over bytes. When the hash with exclusions returns, its input was,
  for every top-level box in file order, the eight-byte marker of its start and the bytes of the box
  that no excluded range covers, and nothing for a box all of whose bytes are excluded.
\<close>

theorem bmff_hash_of_kept_bytes:
  assumes "bmff_hash_with_exclusions digest data alg xs = Inr d" and "length data \<le> usize_max"
  shows "\<exists>a bs merged. content_hash_algorithm_of alg = Some a \<and> walk_iso_boxes Bmff data = Inr bs
    \<and> bmff_excluded_ranges data xs = Inr merged
    \<and> d = digest a (concat (map (marked data merged) (box_spans bs)))"
  using assms by (rule hash_of_kept_bytes)

theorem bmff_hash_of_kept_bytes_witness:
  "\<exists>d a bs merged. bmff_hash_with_exclusions (\<lambda>_ x. x) sample_bmff ''sha256'' [sample_plan_exclusion] = Inr d
    \<and> content_hash_algorithm_of ''sha256'' = Some a \<and> walk_iso_boxes Bmff sample_bmff = Inr bs
    \<and> bmff_excluded_ranges sample_bmff [sample_plan_exclusion] = Inr merged
    \<and> d = concat (map (marked sample_bmff merged) (box_spans bs))"
proof -
  obtain d where d: "bmff_hash_with_exclusions (\<lambda>_ x. x) sample_bmff ''sha256'' [sample_plan_exclusion] = Inr d"
    using sample_plan by (auto simp: bmff_hash_with_exclusions_def hasher_new_def content_hash_algorithm_of_def)
  have "length sample_bmff \<le> usize_max" by (simp add: sample_bmff_length usize_max_def)
  from bmff_hash_of_kept_bytes [OF d this] d show ?thesis by blast
qed

end
