(* ===== verification/Bmff_Agreement.thy ===== *)
theory Bmff_Agreement
  imports Bmff_Properties
begin

text \<open>
  The three BMFF hashes agree: the simple one is the one with exclusion maps on unqualified top-level
  paths, and the streamed one is the simple one unless a \<open>uuid\<close> box has the sixteen-byte header.
\<close>

section \<open>Unqualified paths\<close>

definition plain_type :: "bytes \<Rightarrow> bool" where
  "plain_type t \<longleftrightarrow> length t = 4 \<and> list_all (\<lambda>b. b < 0x80 \<and> b \<noteq> 47) t"

definition plain_path :: "bytes \<Rightarrow> bytes" where
  "plain_path t = 47 # t"

definition plain_component :: "bytes \<Rightarrow> bmff_xpath_component" where
  "plain_component t = \<lparr>xc_type = t, xc_occurrence = None, xc_c2pa = (t = TYPE_UUID_BOX)\<rparr>"

lemma split_bytes_none: "c \<notin> set xs \<Longrightarrow> split_bytes c xs = [xs]"
  by (induction xs) auto

lemma parse_plain_path:
  assumes "plain_type t"
  shows "parse_bmff_xpath (plain_path t) = Inr [plain_component t]"
proof -
  have t: "length t = 4" "47 \<notin> set t" "list_all (\<lambda>b. b < 0x80) t"
    using assms by (auto simp: plain_type_def list_all_iff)
  then have "parse_bmff_xpath_component t = Inr \<lparr>xc_type = t, xc_occurrence = None, xc_c2pa = False\<rparr>"
    by (simp add: parse_bmff_xpath_component_def parse_selectors.simps)
  with t show ?thesis
    by (auto simp: parse_bmff_xpath_def plain_path_def split_bytes_none component_step_def legacy_uuid_def
        plain_component_def MAX_BMFF_HASH_DEPTH_def MAX_BMFF_XPATH_BYTES_def)
qed

lemma parse_plain_exclusions:
  "list_all plain_type types \<Longrightarrow>
   parse_exclusions (map (\<lambda>t. plain_exclusion (plain_path t)) types)
     = Inr (map (\<lambda>t. (plain_exclusion (plain_path t), [plain_component t])) types)"
  by (induction types) (auto simp: parse_plain_path plain_exclusion_def)

lemma plain_box_types: "list_all plain_type types \<Longrightarrow> xpath_box_types (map plain_path types) = types"
proof (induction types)
  case (Cons t types)
  then obtain c cs where "t = c # cs" "c \<noteq> 47" by (cases t) (auto simp: plain_type_def)
  with Cons show ?case by (simp add: xpath_box_types_def plain_path_def plain_type_def)
qed (simp add: xpath_box_types_def)

lemma plain_matches:
  "exclusion_matches data (plain_exclusion x) [plain_component t] b \<longleftrightarrow>
   (\<exists>c. hb_path b = [c] \<and> hp_type c = t \<and> (t = TYPE_UUID_BOX \<longrightarrow> hp_c2pa c))"
  by (cases "hb_path b") (auto simp: exclusion_matches_def plain_exclusion_def path_matches_def component_matches_def
      plain_component_def flags_match_def)

lemma plain_hides: "hides (plain_exclusion x) b i \<longleftrightarrow> hb_start b \<le> i \<and> i < hb_end b"
  by (simp add: hides_def plain_exclusion_def)

text \<open>Top-level boxes do not overlap.\<close>

lemma boxes_disjoint:
  assumes "walk_iso_boxes Bmff data = Inr bs" and "b \<in> set bs" and "c \<in> set bs"
    and "ib_start b \<le> i" and "i < ib_end b" and "ib_start c \<le> i" and "i < ib_end c"
  shows "b = c"
proof -
  obtain e where "tiles 0 (box_spans bs) e"
    using iso_boxes_tile [OF assms(1) [unfolded walk_iso_boxes_def]] by blast
  then have "sorted_wrt (\<lambda>x y. ib_end x \<le> ib_start y) bs"
    using tiles_disjoint [of 0 "box_spans bs" e] by (simp add: box_spans_def sorted_wrt_map)
  then have apart: "ib_end (bs ! j) \<le> ib_start (bs ! k)" if "j < k" "k < length bs" for j k
    using that by (simp add: sorted_wrt_iff_nth_less)
  from assms(2,3) obtain j k where j: "j < length bs" "b = bs ! j" and k: "k < length bs" "c = bs ! k"
    by (auto simp: in_set_conv_nth)
  with apart [of j k] apart [of k j] assms(4-7) have "j = k" by (cases j k rule: linorder_cases) auto
  with j k show ?thesis by simp
qed

lemma plain_hidden:
  assumes b: "hash_boxes data = Inr boxes" and bs: "walk_iso_boxes Bmff data = Inr bs"
    and box: "x \<in> set bs" "ib_start x \<le> i" "i < ib_end x"
  shows "hidden_offset data boxes (map (\<lambda>t. (plain_exclusion (plain_path t), [plain_component t])) types) i
    \<longleftrightarrow> fully_excluded types data x"
proof -
  note nodes = hash_boxes_ok(2) [OF b]
  from hash_boxes_ok(3) [OF b] bs have tops: "list_all2 (top_of data) (filter hb_top_level boxes) bs" by simp
  have top_box: "\<exists>y \<in> set bs. top_of data h y" if "h \<in> set boxes" "length (hb_path h) = 1" for h
  proof -
    have "h \<in> set (filter hb_top_level boxes)" using that nodes by (auto simp: nodes_ok_def)
    with tops show ?thesis by (metis in_set_conv_nth list_all2_conv_all_nth)
  qed
  obtain hx where hx: "hx \<in> set boxes" "top_of data hx x"
    using tops box(1) by (metis in_set_conv_nth list_all2_conv_all_nth filter_is_subset subsetD)
  have "hidden_offset data boxes (map (\<lambda>t. (plain_exclusion (plain_path t), [plain_component t])) types) i
    \<longleftrightarrow> (\<exists>t \<in> set types. \<exists>h \<in> set boxes. \<exists>c. hb_path h = [c] \<and> hp_type c = t \<and> (t = TYPE_UUID_BOX \<longrightarrow> hp_c2pa c)
           \<and> hb_start h \<le> i \<and> i < hb_end h)"
    by (auto simp: hidden_offset_def list_ex_iff plain_matches plain_hides)
  also have "\<dots> \<longleftrightarrow> fully_excluded types data x"
  proof
    assume "\<exists>t \<in> set types. \<exists>h \<in> set boxes. \<exists>c. hb_path h = [c] \<and> hp_type c = t \<and> (t = TYPE_UUID_BOX \<longrightarrow> hp_c2pa c)
           \<and> hb_start h \<le> i \<and> i < hb_end h"
    then obtain h c where h: "h \<in> set boxes" "hb_path h = [c]" "hp_type c \<in> set types"
      "hp_type c = TYPE_UUID_BOX \<longrightarrow> hp_c2pa c" "hb_start h \<le> i" "i < hb_end h" by blast
    from top_box [of h] h obtain y where y: "y \<in> set bs" "top_of data h y" by auto
    with boxes_disjoint [OF bs box(1) y(1) box(2,3)] h have "y = x" by (auto simp: top_of_def)
    with y h show "fully_excluded types data x" by (auto simp: fully_excluded_def top_of_def)
  next
    assume "fully_excluded types data x"
    with hx box show "\<exists>t \<in> set types. \<exists>h \<in> set boxes. \<exists>c. hb_path h = [c] \<and> hp_type c = t
        \<and> (t = TYPE_UUID_BOX \<longrightarrow> hp_c2pa c) \<and> hb_start h \<le> i \<and> i < hb_end h"
      by (intro bexI [of _ "ib_type x"] bexI [of _ hx]) (auto simp: top_of_def fully_excluded_def)
  qed
  finally show ?thesis .
qed

definition box_bytes_of :: "bytes list \<Rightarrow> bytes \<Rightarrow> iso_box \<Rightarrow> bytes" where
  "box_bytes_of wanted data b =
     (if fully_excluded wanted data b then [] else box_marker (ib_start b) @ slice data (ib_start b) (ib_end b))"

lemma box_updates:
  "foldl (box_update wanted data) h bs = hasher_update (concat (map (box_bytes_of wanted data) bs)) h"
  by (induction bs arbitrary: h) (auto simp: box_update_def box_bytes_of_def)

text \<open>
  C28: The simple hash is the general one on plain paths. When the hash with exclusion maps accepts the
  maps that hold just top-level paths of plain four-byte types, the simple hash over those paths returns
  the same digest, the legacy path of the C2PA box included.
\<close>

theorem bmff_hash_agrees:
  assumes "bmff_hash_with_exclusions digest data alg (map (\<lambda>t. plain_exclusion (plain_path t)) types) = Inr d"
    and "list_all plain_type types" and "length data \<le> usize_max"
  shows "bmff_hash digest data alg (map plain_path types) = Inr d"
proof -
  let ?xs = "map (\<lambda>t. plain_exclusion (plain_path t)) types"
  from hash_of_kept_bytes [OF assms(1,3)] obtain a bs merged where a: "content_hash_algorithm_of alg = Some a"
    and bs: "walk_iso_boxes Bmff data = Inr bs" and m: "bmff_excluded_ranges data ?xs = Inr merged"
    and d: "d = digest a (concat (map (marked data merged) (box_spans bs)))" by blast
  from excluded_ranges_exact [OF m assms(3)] parse_plain_exclusions [OF assms(2)] obtain boxes
    where boxes: "hash_boxes data = Inr boxes" and hidden: "\<And>i. offset_in merged i \<longleftrightarrow>
      hidden_offset data boxes (map (\<lambda>t. (plain_exclusion (plain_path t), [plain_component t])) types) i" by auto
  have "marked data merged (ib_start b, ib_end b) = box_bytes_of types data b" if b: "b \<in> set bs" for b
  proof -
    note each = iso_boxes_each [OF bs [unfolded walk_iso_boxes_def] b]
    have inr: "offset_in merged i \<longleftrightarrow> fully_excluded types data b" if "ib_start b \<le> i" "i < ib_end b" for i
      using plain_hidden [OF boxes bs b that] hidden by simp
    show ?thesis
    proof (cases "fully_excluded types data b")
      case True
      then have "left_over data merged (ib_start b) (ib_end b) = []" using inr by (intro left_over_all) simp
      with True show ?thesis by (simp add: marked_def box_bytes_of_def)
    next
      case False
      then have "left_over data merged (ib_start b) (ib_end b) = slice data (ib_start b) (ib_end b)"
        using inr each(4) by (intro left_over_none) auto
      moreover have "slice data (ib_start b) (ib_end b) \<noteq> []" using each by (simp add: slice_def)
      ultimately show ?thesis using False by (simp add: marked_def box_bytes_of_def)
    qed
  qed
  then have "concat (map (marked data merged) (box_spans bs)) = concat (map (box_bytes_of types data) bs)"
    by (simp add: box_spans_def comp_def cong: map_cong)
  with a bs d plain_box_types [OF assms(2)] show ?thesis
    by (simp add: bmff_hash_def hasher_new_def box_updates hasher_finalize_def hasher_update_def)
qed

theorem bmff_hash_agrees_witness:
  "\<exists>d. bmff_hash_with_exclusions (\<lambda>_ x. x) sample_bmff ''sha256'' [sample_plan_exclusion] = Inr d
     \<and> bmff_hash (\<lambda>_ x. x) sample_bmff ''sha256'' [plain_path TYPE_UUID_BOX] = Inr d"
proof -
  obtain d where d: "bmff_hash_with_exclusions (\<lambda>_ x. x) sample_bmff ''sha256''
      (map (\<lambda>t. plain_exclusion (plain_path t)) [TYPE_UUID_BOX]) = Inr d"
    using sample_plan
    by (auto simp: bmff_hash_with_exclusions_def hasher_new_def content_hash_algorithm_of_def sample_plan_exclusion_def plain_path_def)
  have "list_all plain_type [TYPE_UUID_BOX]" "length sample_bmff \<le> usize_max"
    by (simp_all add: plain_type_def TYPE_UUID_BOX_def ascii_def sample_bmff_length usize_max_def)
  from bmff_hash_agrees [OF d this] d show ?thesis by (simp add: sample_plan_exclusion_def plain_path_def)
qed

section \<open>Streaming\<close>

lemma stream_range_ok:
  "pos + n \<le> length data \<Longrightarrow> stream_range data pos n h = Inr (hasher_update (slice data pos (pos + n)) h)"
proof (induction data pos n h rule: stream_range.induct)
  case (1 data pos n h)
  show ?case
  proof (cases "n > 0")
    case True
    let ?k = "min n STREAM_CHUNK"
    have chunk: "ok_or (slice_get data pos (pos + ?k)) (Truncated Bmff) = Inr (slice data pos (pos + ?k))"
      using "1.prems" by (simp add: ok_or_eq_Inr)
    moreover have "stream_range data (pos + ?k) (n - ?k) (hasher_update (slice data pos (pos + ?k)) h)
        = Inr (hasher_update (slice data (pos + ?k) (pos + n)) (hasher_update (slice data pos (pos + ?k)) h))"
      using "1.IH" [OF True refl chunk] "1.prems" by simp
    moreover have "slice data pos (pos + ?k) @ slice data (pos + ?k) (pos + n) = slice data pos (pos + n)"
      by (rule slice_concat) auto
    ultimately show ?thesis using True by (subst stream_range.simps) (simp add: Let_def)
  next
    case False
    then show ?thesis by (subst stream_range.simps) (simp add: slice_def)
  qed
qed

lemma reader_box_end_extent:
  assumes "pos + 8 \<le> length data"
  shows "reader_box_end (slice data pos (pos + min (length data - pos) 16)) (length data) pos
    = res_bind (iso_extent Bmff data (length data) pos) (\<lambda>(payload_start, e). Inr e)"
proof -
  let ?n = "min (length data - pos) 16"
  have n: "8 \<le> ?n" using assms by simp
  have size: "take 4 (slice data pos (pos + ?n)) = slice data pos (pos + 4)"
    using slice_slice [of 0 4 ?n data pos] n by (simp add: slice_def)
  define small where "small = be_val (slice data pos (pos + 4))"
  define large where "large = be_val (slice data (pos + 8) (pos + 16))"
  have u32: "be_u32 data pos = Some small" using assms by (simp add: be_u32_def small_def)
  have "small < 256 ^ 4" "large < 256 ^ 8"
    unfolding small_def large_def by (rule order_less_le_trans [OF be_val_bound power_increasing]; simp)+
  then have usize: "u64_to_usize small = Some small" "u64_to_usize large = Some large"
    by (simp_all add: u64_to_usize_def u64_to_usize_with_max_def usize_max_def)
  have snd_bind: "res_bind (res_bind m (\<lambda>e. Inr (p, e))) (\<lambda>(q, e). Inr e) = m" for m :: "format_error + nat" and p :: nat
    by (cases m) auto
  define hdr where "hdr = slice data pos (pos + ?n)"
  have first: "be_val (take 4 hdr) = small" using size by (simp add: hdr_def small_def)
  have "reader_box_end hdr (length data) pos
    = res_bind (iso_extent Bmff data (length data) pos) (\<lambda>(payload_start, e). Inr e)"
  proof (cases "pos + 16 \<le> length data")
    case True
    then have n16: "?n = 16" by simp
    have u64: "be_u64 data (pos + 8) = Some large" using True by (simp add: be_u64_def large_def add.commute)
    have second: "be_val (slice hdr 8 16) = large" unfolding hdr_def n16 by (simp add: slice_slice large_def)
    have len: "\<not> length hdr < 16" unfolding hdr_def n16 using True by simp
    show ?thesis by (simp add: reader_box_end_def iso_extent_def Let_def u32 u64 first second len usize snd_bind)
  next
    case False
    have u64: "be_u64 data (pos + 8) = None" using False by (simp add: be_u64_def slice_get_def)
    have len: "length hdr < 16" using False assms by (simp add: hdr_def)
    show ?thesis by (simp add: reader_box_end_def iso_extent_def Let_def u32 u64 first len usize snd_bind)
  qed
  then show ?thesis by (simp add: hdr_def)
qed

text \<open>A \<open>uuid\<close> box with the eight-byte header, long enough for its user type.\<close>

definition short_uuid :: "iso_box \<Rightarrow> bool" where
  "short_uuid b \<longleftrightarrow> (ib_type b = TYPE_UUID_BOX \<longrightarrow> ib_payload b = ib_start b + 8 \<and> ib_start b + 24 \<le> ib_end b)"

text \<open>One turn of the loop at a readable box, and at an unreadable one.\<close>

lemma reader_step_box:
  assumes "pos + 8 \<le> length data" and "iso_box_at Bmff data (length data) pos = Inr b"
  shows "reader_step wanted data pos h = Inr (ib_end b,
    if reader_excluded wanted data (ib_type b) pos then h
    else hasher_update (slice data pos (ib_end b)) (hasher_update (box_marker pos) h))"
proof -
  let ?n = "min (length data - pos) 16"
  let ?hdr = "slice data pos (pos + ?n)"
  note b = iso_box_at_ok [OF assms(2,1)]
  have hdr: "slice_get data pos (pos + ?n) = Some ?hdr" using assms(1) by auto
  have e: "reader_box_end ?hdr (length data) pos = Inr (ib_end b)"
    using assms(2) by (auto simp: reader_box_end_extent [OF assms(1)] iso_box_at_def res_simps)
  have ty: "slice ?hdr 4 8 = ib_type b" using slice_slice [of 4 8 ?n data pos] assms(1) b(5) by simp
  have "stream_range data pos (ib_end b - pos) (hasher_update (box_marker pos) h)
      = Inr (hasher_update (slice data pos (ib_end b)) (hasher_update (box_marker pos) h))"
    using stream_range_ok [of pos "ib_end b - pos" data] b by simp
  with e ty show ?thesis unfolding reader_step_def Let_def hdr by simp
qed

lemma reader_step_error:
  assumes "pos + 8 \<le> length data" and "iso_box_at Bmff data (length data) pos = Inl e"
  shows "reader_step wanted data pos h = Inl e"
proof -
  let ?n = "min (length data - pos) 16"
  have hdr: "slice_get data pos (pos + ?n) = Some (slice data pos (pos + ?n))" using assms(1) by auto
  have "reader_box_end (slice data pos (pos + ?n)) (length data) pos = Inl e"
    using assms(2) by (auto simp: reader_box_end_extent [OF assms(1)] iso_box_at_def res_simps)
  then show ?thesis unfolding reader_step_def Let_def hdr by simp
qed

lemma reader_excluded_short:
  assumes "pos + 8 \<le> length data" and "iso_box_at Bmff data (length data) pos = Inr b" and "short_uuid b"
  shows "reader_excluded wanted data (ib_type b) pos \<longleftrightarrow> fully_excluded wanted data b"
  using assms(3) iso_box_at_ok [OF assms(2,1)]
  by (auto simp: reader_excluded_def fully_excluded_def is_c2pa_uuid_def short_uuid_def add.assoc)

lemma reader_loop_ok:
  assumes "iso_boxes Bmff data (length data) pos = Inr bs" and "list_all short_uuid bs"
  shows "reader_loop wanted data pos h = Inr (foldl (box_update wanted data) h bs)"
  using assms
proof (induction bs arbitrary: pos h)
  case Nil
  then show ?case by (subst reader_loop.simps) (auto simp: iso_boxes_Nil)
next
  case (Cons b bs)
  then have pos: "pos + 8 \<le> length data" and at: "iso_box_at Bmff data (length data) pos = Inr b"
    and rest: "iso_boxes Bmff data (length data) (ib_end b) = Inr bs" and short: "short_uuid b" "list_all short_uuid bs"
    by (auto simp: iso_boxes_Cons)
  note b = iso_box_at_ok [OF at pos]
  have "reader_step wanted data pos h = Inr (ib_end b, box_update wanted data h b)"
    using reader_step_box [OF pos at] reader_excluded_short [OF pos at short(1)] b(1) by (simp add: box_update_def)
  with Cons.IH [OF rest short(2)] pos b show ?case by (subst reader_loop.simps) simp
qed

lemma iso_boxes_step:
  "pos + 8 \<le> hi \<Longrightarrow> iso_boxes format data hi pos =
     res_bind (iso_box_at format data hi pos) (\<lambda>b. res_bind (iso_boxes format data hi (ib_end b)) (\<lambda>bs. Inr (b # bs)))"
  using iso_box_at_ok [of format data hi pos]
  by (subst iso_boxes.simps) (fastforce intro!: res_bind_cong)

lemma iso_extent_error: "iso_extent format data hi pos = Inl e \<Longrightarrow> e = Truncated format"
  by (auto simp: iso_extent_def res_simps split: if_splits)

lemma reader_loop_error:
  assumes "iso_boxes Bmff data (length data) pos = Inl e"
  shows "reader_loop wanted data pos h = Inl e"
  using assms
proof (induction "length data - pos" arbitrary: pos h rule: less_induct)
  case less
  then have pos: "pos + 8 \<le> length data" by (auto simp: iso_boxes.simps split: if_splits)
  show ?case
  proof (cases "iso_box_at Bmff data (length data) pos")
    case (Inl e')
    with less.prems pos reader_step_error [OF pos Inl] show ?thesis
      by (subst reader_loop.simps) (simp add: iso_boxes_step)
  next
    case (Inr b)
    note b = iso_box_at_ok [OF Inr pos]
    have "iso_boxes Bmff data (length data) (ib_end b) = Inl e"
      using less.prems pos Inr by (auto simp: iso_boxes_step res_simps)
    with less.hyps [of "ib_end b"] reader_step_box [OF pos Inr] pos b show ?thesis
      by (subst reader_loop.simps) simp
  qed
qed

text \<open>
  C29: The streamed hash is the in-memory hash. On a file in which every \<open>uuid\<close> box has the eight-byte
  header and room for a user type, the reader that seeks from box to box and feeds the hasher in chunks
  returns exactly what the in-memory hash returns, the errors included.
\<close>

theorem bmff_hash_reader_agrees:
  assumes "case walk_iso_boxes Bmff data of Inl e \<Rightarrow> True | Inr bs \<Rightarrow> list_all short_uuid bs"
  shows "bmff_hash_reader digest data alg xpaths = bmff_hash digest data alg xpaths"
proof (cases "hasher_new alg")
  case (Some h)
  show ?thesis
  proof (cases "walk_iso_boxes Bmff data")
    case (Inl e)
    from reader_loop_error [OF this [unfolded walk_iso_boxes_def]] Inl Some show ?thesis
      by (simp add: bmff_hash_reader_def bmff_hash_def)
  next
    case (Inr bs)
    then have "list_all short_uuid bs" using assms by simp
    from reader_loop_ok [OF Inr [unfolded walk_iso_boxes_def] this] Inr Some show ?thesis
      by (simp add: bmff_hash_reader_def bmff_hash_def)
  qed
qed (simp add: bmff_hash_reader_def bmff_hash_def)

theorem bmff_hash_reader_agrees_witness:
  "bmff_hash_reader (\<lambda>_ x. x) sample_bmff ''sha256'' [plain_path TYPE_UUID_BOX]
    = bmff_hash (\<lambda>_ x. x) sample_bmff ''sha256'' [plain_path TYPE_UUID_BOX]"
  by (rule bmff_hash_reader_agrees)
    (simp add: sample_walk sample_boxes_def short_uuid_def TYPE_UUID_BOX_def TYPE_FTYP_def ascii_def)

text \<open>
  The condition is needed. A C2PA box with the sixteen-byte header is excluded in memory and hashed by the
  reader, which looks for the user type inside the header.
\<close>

definition large_carrier :: "bytes \<Rightarrow> bytes" where
  "large_carrier store = [0, 0, 0, 1] @ TYPE_UUID_BOX @ be_bytes 8 (32 + length store) @ C2PA_BMFF_UUID @ store"

lemma large_carrier_parts:
  "length (large_carrier store) = 32 + length store"
  "slice (large_carrier store) 0 4 = [0, 0, 0, 1]" "slice (large_carrier store) 4 8 = TYPE_UUID_BOX"
  "slice (large_carrier store) 8 16 = be_bytes 8 (32 + length store)"
  "slice (large_carrier store) 16 32 = C2PA_BMFF_UUID"
  by (simp_all add: large_carrier_def TYPE_UUID_BOX_def C2PA_BMFF_UUID_def ascii_def slice_def del: be_bytes.simps)

lemma large_carrier_box:
  assumes "32 + length store \<le> usize_max"
  shows "iso_box_at Bmff (large_carrier store) (32 + length store) 0
    = Inr \<lparr>ib_type = TYPE_UUID_BOX, ib_start = 0, ib_payload = 16, ib_end = 32 + length store\<rparr>"
proof -
  have "be_u32 (large_carrier store) 0 = Some 1" using large_carrier_parts(1,2) [of store] by (simp add: be_u32_def slice_get_def)
  moreover have "32 + length store < 256 ^ 8" using assms by (simp add: usize_max_def)
  then have "be_u64 (large_carrier store) 8 = Some (32 + length store)"
    using large_carrier_parts(1,4) [of store] by (simp add: be_u64_def slice_get_def)
  ultimately show ?thesis
    using assms large_carrier_parts(3) [of store]
    by (simp add: iso_box_at_def iso_extent_def u64_to_usize_def u64_to_usize_with_max_def add_within_def checked_add_def)
qed

lemma large_carrier_walk:
  assumes "32 + length store \<le> usize_max"
  shows "walk_iso_boxes Bmff (large_carrier store)
    = Inr [\<lparr>ib_type = TYPE_UUID_BOX, ib_start = 0, ib_payload = 16, ib_end = 32 + length store\<rparr>]"
proof -
  have "iso_boxes Bmff (large_carrier store) (32 + length store) (32 + length store) = Inr []" by (simp add: iso_boxes_Nil)
  then have "iso_boxes Bmff (large_carrier store) (32 + length store) 0
      = Inr [\<lparr>ib_type = TYPE_UUID_BOX, ib_start = 0, ib_payload = 16, ib_end = 32 + length store\<rparr>]"
    using large_carrier_box [OF assms] by (subst iso_boxes.simps) simp
  then show ?thesis by (simp add: walk_iso_boxes_def large_carrier_parts(1))
qed

lemma large_carrier_diverges:
  assumes "32 + length store \<le> usize_max" and "be_bytes 8 (32 + length store) \<noteq> take 8 C2PA_BMFF_UUID"
  shows "bmff_hash digest (large_carrier store) ''sha256'' [plain_path TYPE_UUID_BOX] = Inr (digest Sha256 [])"
    and "bmff_hash_reader digest (large_carrier store) ''sha256'' [plain_path TYPE_UUID_BOX]
      = Inr (digest Sha256 (box_marker 0 @ large_carrier store))"
proof -
  let ?data = "large_carrier store"
  let ?b = "\<lparr>ib_type = TYPE_UUID_BOX, ib_start = 0, ib_payload = 16, ib_end = 32 + length store\<rparr>"
  have wanted: "xpath_box_types [plain_path TYPE_UUID_BOX] = [TYPE_UUID_BOX]"
    using plain_box_types [of "[TYPE_UUID_BOX]"] by (simp add: plain_type_def TYPE_UUID_BOX_def ascii_def)
  have "fully_excluded [TYPE_UUID_BOX] ?data ?b"
    using large_carrier_parts(5) [of store] by (simp add: fully_excluded_def is_c2pa_uuid_def)
  then show "bmff_hash digest ?data ''sha256'' [plain_path TYPE_UUID_BOX] = Inr (digest Sha256 [])"
    using large_carrier_walk [OF assms(1)]
    by (simp add: bmff_hash_def hasher_new_def content_hash_algorithm_of_def box_updates box_bytes_of_def wanted hasher_finalize_def)
  have "take 8 (slice ?data 8 24) = be_bytes 8 (32 + length store)"
    using large_carrier_parts(4) [of store] by (simp add: slice_def)
  with assms(2) have "slice ?data 8 24 \<noteq> C2PA_BMFF_UUID" by auto
  then have "\<not> reader_excluded [TYPE_UUID_BOX] ?data TYPE_UUID_BOX 0"
    by (auto simp: reader_excluded_def)
  then have "reader_step [TYPE_UUID_BOX] ?data 0 h = Inr (32 + length store, hasher_update (box_marker 0 @ ?data) h)" for h
    using reader_step_box [of 0 ?data ?b "[TYPE_UUID_BOX]" h] large_carrier_box [OF assms(1)] large_carrier_parts(1) [of store]
      slice_full [of ?data] by simp
  moreover have "reader_loop [TYPE_UUID_BOX] ?data (32 + length store) h = Inr h" for h
    by (subst reader_loop.simps) (simp add: large_carrier_parts(1))
  ultimately have "reader_loop [TYPE_UUID_BOX] ?data 0 h = Inr (hasher_update (box_marker 0 @ ?data) h)" for h
    by (subst reader_loop.simps) (simp add: large_carrier_parts(1))
  then show "bmff_hash_reader digest ?data ''sha256'' [plain_path TYPE_UUID_BOX] = Inr (digest Sha256 (box_marker 0 @ ?data))"
    by (simp add: bmff_hash_reader_def hasher_new_def content_hash_algorithm_of_def wanted hasher_finalize_def hasher_update_def)
qed

end
