(* ===== verification/Bmff_Carriers.thy ===== *)
theory Bmff_Carriers
  imports Bmff_Properties
begin

text \<open>
  What the BMFF carriers promise: the manifest store comes from a C2PA box, every byte of which the
  data-hash exclusions cover; the auxiliary Merkle boxes stay inside the verifier bounds; the box tree is
  bounded; and the placement rule of C2PA 2.5 accepts whatever the older one accepts.
\<close>

section \<open>The extracted store\<close>

lemma exclusions_filter:
  "foldl (\<lambda>ex b. if P b then ex @ [f b] else ex) acc bs = acc @ map f (filter P bs)"
  by (induction bs arbitrary: acc) auto

text \<open>A store taken from a box is a contiguous part of the box, after its user type.\<close>

definition inside_box :: "bytes \<Rightarrow> iso_box \<Rightarrow> bytes \<Rightarrow> bool" where
  "inside_box data b store \<longleftrightarrow>
     (\<exists>s e. ib_start b \<le> s \<and> s + 8 \<le> e \<and> e \<le> ib_end b \<and> store = slice data s e
        \<and> slice data (s + 4) (s + 8) = ascii ''jumb'')"

lemma jumb_box_at_ok:
  assumes "jumb_box_at payload i = Some store"
  shows "\<exists>e. i + 8 \<le> e \<and> e \<le> length payload \<and> store = slice payload i e
    \<and> slice payload (i + 4) (i + 8) = ascii ''jumb''"
proof -
  consider "be_val (slice payload i (i + 4)) = 0" | "be_val (slice payload i (i + 4)) \<noteq> 0" by blast
  then show ?thesis
  proof cases
    case 1
    with assms show ?thesis
      by (intro exI [of _ "length payload"]) (auto simp: jumb_box_at_def Let_def split: if_splits)
  next
    case 2
    with assms obtain n len where "n = 8 \<or> n = 16" "n \<le> len" "i + len \<le> length payload"
      "store = slice payload i (i + len)" "slice payload (i + 4) (i + 8) = ascii ''jumb''"
      by (auto simp: jumb_box_at_def Let_def bind_eq_Some_conv split: if_splits)
    then show ?thesis by (intro exI [of _ "i + len"]) auto
  qed
qed

lemma jumb_search_ok:
  assumes "jumb_search payload i = Some store"
  shows "\<exists>s e. i \<le> s \<and> s + 8 \<le> e \<and> e \<le> length payload \<and> store = slice payload s e
    \<and> slice payload (s + 4) (s + 8) = ascii ''jumb''"
  using assms
proof (induction payload i rule: jumb_search.induct)
  case (1 payload i)
  then have i: "i + 8 \<le> length payload" by (subst (asm) jumb_search.simps) (auto split: if_splits)
  show ?case
  proof (cases "jumb_box_at payload i")
    case None
    with "1.prems" i have "jumb_search payload (i + 1) = Some store" by (subst (asm) jumb_search.simps) simp
    from "1.IH" [OF i None this] obtain s e where "i + 1 \<le> s" "s + 8 \<le> e \<and> e \<le> length payload \<and> store = slice payload s e
      \<and> slice payload (s + 4) (s + 8) = ascii ''jumb''" by blast
    then show ?thesis by (intro exI [of _ s] exI [of _ e]) simp
  next
    case (Some s)
    with "1.prems" i have "s = store" by (subst (asm) jumb_search.simps) simp
    with jumb_box_at_ok [OF Some] show ?thesis by blast
  qed
qed

lemma jumbf_inside_box:
  assumes "jumbf_from_uuid_payload (slice data (ib_payload b + 16) (ib_end b)) = Some store"
    and "ib_start b \<le> ib_payload b" and "ib_payload b + 16 \<le> ib_end b" and "ib_end b \<le> length data"
  shows "inside_box data b store"
proof -
  let ?p = "ib_payload b + 16"
  let ?n = "ib_end b - ?p"
  have range: "?p + ?n = ib_end b" using assms(3) by simp
  from jumb_search_ok [OF assms(1) [unfolded jumbf_from_uuid_payload_def]] assms(3,4) obtain s e
    where se: "s + 8 \<le> e" "e \<le> ?n" "store = slice (slice data ?p (ib_end b)) s e"
      "slice (slice data ?p (ib_end b)) (s + 4) (s + 8) = ascii ''jumb''" by auto
  then have "store = slice data (?p + s) (?p + e)" "slice data (?p + (s + 4)) (?p + (s + 8)) = ascii ''jumb''"
    using slice_slice [of s e ?n data ?p, unfolded range] slice_slice [of "s + 4" "s + 8" ?n data ?p, unfolded range] by simp_all
  with se(1,2) assms(2,3) show ?thesis
    unfolding inside_box_def by (intro exI [of _ "?p + s"] exI [of _ "?p + e"]) (auto simp: add.assoc)
qed

lemma extract_fold:
  assumes "foldl (extract_step data) (original, updated) bs = (original', updated')"
    and "\<forall>b \<in> set bs. ib_start b \<le> ib_payload b \<and> ib_end b \<le> length data"
    and "original' \<noteq> None \<longrightarrow> True"
  shows "(\<forall>s. original' = Some s \<longrightarrow> original = Some s \<or> (\<exists>b \<in> set bs. is_c2pa_uuid data b \<and> inside_box data b s))
    \<and> (\<forall>s. updated' = Some s \<longrightarrow> updated = Some s \<or> (\<exists>b \<in> set bs. is_c2pa_uuid data b \<and> inside_box data b s))"
  using assms
proof (induction bs arbitrary: original updated)
  case (Cons b bs)
  obtain o1 u1 where step: "extract_step data (original, updated) b = (o1, u1)"
    by (cases "extract_step data (original, updated) b")
  have here: "(o1 = original \<or> (\<exists>s. o1 = Some s \<and> is_c2pa_uuid data b \<and> inside_box data b s))
    \<and> (u1 = updated \<or> (\<exists>s. u1 = Some s \<and> is_c2pa_uuid data b \<and> inside_box data b s))"
  proof (cases "is_c2pa_uuid data b")
    case True
    then have "ib_payload b + 16 \<le> ib_end b" by (simp add: is_c2pa_uuid_def)
    with jumbf_inside_box [of data b] Cons.prems(2) True step show ?thesis
      by (auto simp: extract_step_def Let_def split: if_splits option.splits)
  qed (use step in \<open>simp add: extract_step_def\<close>)
  have "foldl (extract_step data) (o1, u1) bs = (original', updated')" using Cons.prems(1) step by simp
  from Cons.IH [OF this] Cons.prems(2,3) here show ?case by auto
qed simp

definition excluded_store :: "bytes \<Rightarrow> data_hash_exclusion list \<Rightarrow> bytes \<Rightarrow> bool" where
  "excluded_store data ex store \<longleftrightarrow>
     (\<exists>x \<in> set ex. \<exists>s e. ex_start x \<le> s \<and> e \<le> ex_start x + ex_length x \<and> store = slice data s e)"

definition found_stores :: "bytes option \<Rightarrow> bytes option \<Rightarrow> bytes list" where
  "found_stores original updated =
     (case original of Some s \<Rightarrow> [s] | None \<Rightarrow> []) @ (case updated of Some s \<Rightarrow> [s] | None \<Rightarrow> [])"

lemma extract_sources:
  assumes "bmff_extract data = Inr (Some store)"
  shows "\<exists>original updated ex. bmff_exclusions data = Inr ex \<and> select_store original updated = Some store
    \<and> found_stores original updated \<noteq> [] \<and> list_all (excluded_store data ex) (found_stores original updated)"
proof -
  from assms obtain bs where bs: "walk_iso_boxes Bmff data = Inr bs" by (auto simp: bmff_extract_def res_simps)
  obtain original updated where fold: "foldl (extract_step data) (None, None) bs = (original, updated)"
    by (cases "foldl (extract_step data) (None, None) bs")
  from assms bs fold have sel: "select_store original updated = Some store"
    by (auto simp: bmff_extract_def res_simps split: option.splits)
  define ex where "ex = map (\<lambda>b. \<lparr>ex_start = ib_start b, ex_length = ib_end b - ib_start b\<rparr>) (filter (is_c2pa_uuid data) bs)"
  have exs: "bmff_exclusions data = Inr ex" using bs by (simp add: bmff_exclusions_def exclusions_filter ex_def)
  note each = iso_boxes_each [OF bs [unfolded walk_iso_boxes_def]]
  have "\<forall>b \<in> set bs. ib_start b \<le> ib_payload b \<and> ib_end b \<le> length data" using each by (meson add_leD1)
  from extract_fold [OF fold this] have src: "\<exists>b \<in> set bs. is_c2pa_uuid data b \<and> inside_box data b s"
    if "original = Some s \<or> updated = Some s" for s using that by auto
  have ok: "excluded_store data ex s" if "original = Some s \<or> updated = Some s" for s
  proof -
    from src [OF that] obtain b where b: "b \<in> set bs" "is_c2pa_uuid data b" "inside_box data b s" by blast
    then obtain p e where "ib_start b \<le> p" "e \<le> ib_end b" "s = slice data p e" by (auto simp: inside_box_def)
    with b(1,2) each(2,3) [OF b(1)] show ?thesis
      unfolding excluded_store_def ex_def
      by (intro bexI [of _ "\<lparr>ex_start = ib_start b, ex_length = ib_end b - ib_start b\<rparr>"] exI [of _ p] exI [of _ e]) auto
  qed
  with exs sel show ?thesis
    by (intro exI [of _ original] exI [of _ updated] exI [of _ ex])
      (auto simp: select_store_def found_stores_def split: option.splits)
qed

text \<open>A file of one C2PA box that carries an empty superbox.\<close>

definition sample_carrier :: bytes where
  "sample_carrier = [0, 0, 0, 45] @ TYPE_UUID_BOX @ C2PA_BMFF_UUID @ [0, 0, 0, 0] @ ascii ''manifest'' @ [0] @ [0, 0, 0, 8] @ ascii ''jumb''"

definition sample_carrier_box :: iso_box where
  "sample_carrier_box = \<lparr>ib_type = TYPE_UUID_BOX, ib_start = 0, ib_payload = 8, ib_end = 45\<rparr>"

lemma sample_carrier_walk: "walk_iso_boxes Bmff sample_carrier = Inr [sample_carrier_box]"
proof -
  have "length sample_carrier = 45" "slice sample_carrier 4 8 = TYPE_UUID_BOX" "be_u32 sample_carrier 0 = Some 45"
    by (simp_all add: sample_carrier_def TYPE_UUID_BOX_def C2PA_BMFF_UUID_def ascii_def slice_def be_u32_def slice_get_def)
  moreover from this have "iso_box_at Bmff sample_carrier 45 0 = Inr sample_carrier_box"
    by (simp add: iso_box_at_def iso_extent_def sample_carrier_box_def add_within_def checked_add_def
        u64_to_usize_def u64_to_usize_with_max_def usize_max_def)
  moreover have "iso_boxes Bmff sample_carrier 45 45 = Inr []" by (simp add: iso_boxes_Nil)
  ultimately show ?thesis
    unfolding walk_iso_boxes_def by (subst iso_boxes.simps) (simp add: sample_carrier_box_def)
qed

lemma sample_carrier_store:
  "foldl (extract_step sample_carrier) (None, None) [sample_carrier_box] = (Some ([0, 0, 0, 8] @ ascii ''jumb''), None)"
proof -
  let ?p = "[0, 0, 0, 0] @ ascii ''manifest'' @ [0] @ [0, 0, 0, 8] @ ascii ''jumb''"
  have parts: "slice sample_carrier 8 24 = C2PA_BMFF_UUID" "slice sample_carrier 24 45 = ?p"
    by (simp_all add: sample_carrier_def TYPE_UUID_BOX_def C2PA_BMFF_UUID_def ascii_def slice_def)
  have none: "jumb_box_at ?p i = None" if "i < 13" for i
  proof -
    have "i \<in> {0, 1, 2, 3, 4, 5, 6, 7, 8, 9, 10, 11, 12}" using that by simp presburger
    then show ?thesis by (auto simp: jumb_box_at_def slice_def ascii_def)
  qed
  have "jumb_box_at ?p 13 = Some ([0, 0, 0, 8] @ ascii ''jumb'')"
    by (simp add: jumb_box_at_def slice_def ascii_def Let_def add_within_def checked_add_def u64_to_usize_def
        u64_to_usize_with_max_def usize_max_def)
  then have at13: "jumb_search ?p 13 = Some ([0, 0, 0, 8] @ ascii ''jumb'')" by (subst jumb_search.simps) simp
  have "jumb_search ?p (13 - k) = Some ([0, 0, 0, 8] @ ascii ''jumb'')" for k
  proof (induction k)
    case (Suc k)
    show ?case
    proof (cases "13 - Suc k < 13 - k")
      case True
      then have "Suc (13 - Suc k) = 13 - k" "13 - Suc k < 13" by auto
      with Suc none [of "13 - Suc k"] show ?thesis by (subst jumb_search.simps) (simp del: append.simps)
    next
      case False
      then have "13 - Suc k = 13 - k" by linarith
      with Suc show ?thesis by simp
    qed
  qed (use at13 in simp)
  from this [of 13] have "jumbf_from_uuid_payload ?p = Some ([0, 0, 0, 8] @ ascii ''jumb'')"
    by (simp add: jumbf_from_uuid_payload_def)
  moreover have "box_purpose_of ?p = PurposeStore"
    by (simp add: box_purpose_of_def c2pa_box_purpose_def MAX_BOX_PURPOSE_BYTES_def ascii_def Let_def)
  ultimately show ?thesis
    using parts by (simp add: extract_step_def is_c2pa_uuid_def sample_carrier_box_def Let_def del: append.simps)
qed

text \<open>
  C30: An extracted manifest store is excluded. When the extraction returns a store, it is the original
  store, the update store or the merge of both, and each of the two is a contiguous part of the file
  inside one of the ranges that the data-hash exclusions of the format list.
\<close>

theorem bmff_store_excluded:
  assumes "bmff_extract data = Inr (Some store)"
  shows "\<exists>original updated ex. bmff_exclusions data = Inr ex \<and> select_store original updated = Some store
    \<and> found_stores original updated \<noteq> [] \<and> list_all (excluded_store data ex) (found_stores original updated)"
  using assms by (rule extract_sources)

theorem bmff_store_excluded_witness:
  "\<exists>original updated ex. bmff_exclusions sample_carrier = Inr ex
    \<and> select_store original updated = Some ([0, 0, 0, 8] @ ascii ''jumb'')
    \<and> found_stores original updated \<noteq> [] \<and> list_all (excluded_store sample_carrier ex) (found_stores original updated)"
proof (rule bmff_store_excluded)
  show "bmff_extract sample_carrier = Inr (Some ([0, 0, 0, 8] @ ascii ''jumb''))"
    using sample_carrier_store
    by (simp add: bmff_extract_def check_bmff_def sample_carrier_walk ensure_store_def select_store_def
        ensure_manifest_store_size_def MAX_MANIFEST_STORE_BYTES_def sample_carrier_box_def del: append.simps foldl_Cons)
qed

section \<open>Merkle boxes\<close>

definition merkle_box_ok :: "string + bmff_merkle_box \<Rightarrow> bool" where
  "merkle_box_ok r \<longleftrightarrow>
     (case r of
        Inl _ \<Rightarrow> True
      | Inr b \<Rightarrow> length (mb_proof b) \<le> MAX_BMFF_MERKLE_PROOF_HASHES
                 \<and> sum_list (map length (mb_proof b)) \<le> MAX_BMFF_MERKLE_PROOF_BYTES \<and> mb_location b \<le> usize_max)"

definition proofs_of :: "(string + bmff_merkle_box) list \<Rightarrow> bytes list" where
  "proofs_of found = concat (map (\<lambda>r. case r of Inl _ \<Rightarrow> [] | Inr b \<Rightarrow> mb_proof b) found)"

lemma proof_hashes_ok:
  "proof_hashes n its = Inr hs \<Longrightarrow> length hs = length its \<and> (its \<noteq> [] \<longrightarrow> n + sum_list (map length hs) \<le> MAX_BMFF_MERKLE_PROOF_BYTES)"
proof (induction n its arbitrary: hs rule: proof_hashes.induct)
  case (2 n it its)
  from "2.prems" obtain h hs' where it: "it = Bytes h"
    and n: "n + length h \<le> MAX_BMFF_MERKLE_PROOF_BYTES" "n + length h \<le> usize_max"
    and rest: "proof_hashes (n + length h) its = Inr hs'" and hs: "hs = h # hs'"
    by (auto simp: res_simps split: cbor_value.splits)
  have "length hs' = length its \<and> (its \<noteq> [] \<longrightarrow> n + length h + sum_list (map length hs') \<le> MAX_BMFF_MERKLE_PROOF_BYTES)"
  proof (rule "2.IH" [OF it])
    show "ok_or (add_within n (length h) MAX_BMFF_MERKLE_PROOF_BYTES) ''merkle box proof bytes exceed verifier bound'' = Inr (n + length h)"
      using n by (simp add: ok_or_eq_Inr)
  qed (rule rest)
  with n hs rest show ?case by (cases "its = []") auto
qed simp

lemma parse_merkle_map_ok: "merkle_box_ok (parse_merkle_map cbor)"
proof (cases "parse_merkle_map cbor")
  case (Inr b)
  then obtain v where p: "merkle_proof v = Inr (mb_proof b)" and loc: "mb_location b \<le> usize_max"
    by (auto simp: parse_merkle_map_def res_simps bind_eq_Some_conv split: if_splits)
  have "length (mb_proof b) \<le> MAX_BMFF_MERKLE_PROOF_HASHES \<and> sum_list (map length (mb_proof b)) \<le> MAX_BMFF_MERKLE_PROOF_BYTES"
  proof (cases "mb_proof b = []")
    case False
    with p have "\<exists>its. length its \<le> MAX_BMFF_MERKLE_PROOF_HASHES \<and> proof_hashes 0 its = Inr (mb_proof b)"
      by (auto simp: merkle_proof_def not_less split: option.splits cbor_value.splits if_splits)
    then obtain its where its: "length its \<le> MAX_BMFF_MERKLE_PROOF_HASHES" "proof_hashes 0 its = Inr (mb_proof b)" by blast
    from proof_hashes_ok [OF its(2)] its(1) False show ?thesis by auto
  qed simp
  with loc Inr show ?thesis by (simp add: merkle_box_ok_def)
qed (simp add: merkle_box_ok_def)

text \<open>The state of the scan: what was found is inside the bounds, and the counts are its totals.\<close>

definition merkle_scan_ok :: "merkle_scan \<Rightarrow> bool" where
  "merkle_scan_ok s \<longleftrightarrow>
     list_all merkle_box_ok (ms_found s) \<and> length (ms_found s) \<le> MAX_BMFF_MERKLE_BOXES
     \<and> ms_hashes s = length (proofs_of (ms_found s)) \<and> ms_hashes s \<le> MAX_BMFF_MERKLE_TOTAL_PROOF_HASHES
     \<and> ms_bytes s = sum_list (map length (proofs_of (ms_found s))) \<and> ms_bytes s \<le> MAX_BMFF_MERKLE_TOTAL_PROOF_BYTES"

lemma checked_sum_total: "checked_sum n ls = Some m \<Longrightarrow> m = n + sum_list ls"
proof (induction ls arbitrary: n)
  case (Cons a ls)
  then have "checked_sum (n + a) ls = Some m" by (auto simp: bind_eq_Some_conv simp del: checked_sum.simps(1))
  from Cons.IH [OF this] show ?case by simp
qed simp

lemma record_merkle_ok:
  assumes "merkle_scan_ok s" and "merkle_box_ok r" and "length (ms_found s) < MAX_BMFF_MERKLE_BOXES"
  shows "merkle_scan_ok (record_merkle r s)"
proof (cases r)
  case (Inl e)
  with assms show ?thesis by (simp add: record_merkle_def merkle_scan_ok_def proofs_of_def)
next
  case (Inr b)
  with assms checked_sum_total [of "ms_bytes s" "map length (mb_proof b)"] show ?thesis
    by (auto simp: record_merkle_def merkle_scan_ok_def proofs_of_def split: option.splits)
qed

lemma merkle_fold_ok: "merkle_scan_ok s \<Longrightarrow> merkle_scan_ok (foldl (merkle_step data) s bs)"
proof (induction bs arbitrary: s)
  case (Cons b bs)
  have "merkle_scan_ok (s\<lparr>ms_too_many := True\<rparr>)" using Cons.prems by (simp add: merkle_scan_ok_def)
  with Cons.prems have "merkle_scan_ok (merkle_step data s b)"
    by (auto simp: merkle_step_def not_le intro: record_merkle_ok parse_merkle_map_ok split: option.splits)
  with Cons.IH show ?case by simp
qed simp

lemma merkle_boxes_ok:
  assumes "bmff_merkle_boxes data = Inr found"
  shows "list_all merkle_box_ok found" and "length found \<le> MAX_BMFF_MERKLE_BOXES"
    and "length (proofs_of found) \<le> MAX_BMFF_MERKLE_TOTAL_PROOF_HASHES"
    and "sum_list (map length (proofs_of found)) \<le> MAX_BMFF_MERKLE_TOTAL_PROOF_BYTES"
proof -
  from assms obtain bs where found: "found = ms_found (foldl (merkle_step data) merkle_scan_start bs)"
    by (auto simp: bmff_merkle_boxes_def res_simps Let_def split: option.splits if_splits)
  have "merkle_scan_ok merkle_scan_start" by (simp add: merkle_scan_ok_def merkle_scan_start_def proofs_of_def)
  from merkle_fold_ok [OF this, of data bs]
  show "list_all merkle_box_ok found" and "length found \<le> MAX_BMFF_MERKLE_BOXES"
    and "length (proofs_of found) \<le> MAX_BMFF_MERKLE_TOTAL_PROOF_HASHES"
    and "sum_list (map length (proofs_of found)) \<le> MAX_BMFF_MERKLE_TOTAL_PROOF_BYTES"
    by (simp_all add: merkle_scan_ok_def found)
qed

section \<open>Placement\<close>

lemma first_complaint_None: "first_complaint f n = None \<longleftrightarrow> (\<forall>i < n. f i = None)"
proof (cases "find (\<lambda>i. f i \<noteq> None) [0..<n]")
  case None
  have "first_complaint f n = None" unfolding first_complaint_def None by simp
  moreover have "\<forall>i < n. f i = None" using None by (auto simp: find_None_iff)
  ultimately show ?thesis by simp
next
  case (Some i)
  with find_SomeD [OF Some] show ?thesis by (auto simp: first_complaint_def)
qed

lemma placement_at_weaker:
  assumes "placement_at boxes i = None" and "i < length boxes"
    and "\<forall>b \<in> set boxes. snd b \<noteq> None \<longrightarrow> fst b = TYPE_UUID_BOX"
  shows "placement_at_v2_5 boxes i = None"
proof (cases "is_manifest_label (snd (boxes ! i))")
  case True
  with assms(1) obtain ftyp where f: "position (\<lambda>b. fst b = TYPE_FTYP) boxes = Some ftyp" "ftyp < i"
    and none: "\<not> list_ex is_media (take i boxes)"
    by (auto simp: placement_at_def Let_def split: if_splits option.splits)
  have here: "\<not> is_media (boxes ! i)"
    using assms(2,3) True nth_mem [OF assms(2)]
    by (auto simp: is_manifest_label_def is_media_def TYPE_UUID_BOX_def ascii_def)
  have "i < media" if "position is_media boxes = Some media" for media
  proof -
    have "media < length boxes" "is_media (boxes ! media)" using position_Some [OF that] by auto
    moreover from this none have "\<not> media < i"
      by (auto simp: list_ex_length)
    moreover have "media \<noteq> i" using here calculation by auto
    ultimately show ?thesis by simp
  qed
  then show ?thesis using True f by (auto simp: placement_at_v2_5_def Let_def split: option.splits)
next
  case False
  with assms(1) show ?thesis by (auto simp: placement_at_def placement_at_v2_5_def Let_def split: if_splits)
qed

text \<open>A carrier that the older placement rule accepts, the rule of C2PA 2.5 accepts too.\<close>

lemma placement_weaker:
  assumes "bmff_placement_error data = Inr None"
  shows "bmff_placement_error_v2_5 data = Inr None"
proof -
  from assms obtain boxes where boxes: "labelled_boxes data = Inr boxes"
    and old: "first_complaint (placement_at boxes) (length boxes) = None"
    by (auto simp: bmff_placement_error_def res_simps)
  have "\<forall>b \<in> set boxes. snd b \<noteq> None \<longrightarrow> fst b = TYPE_UUID_BOX"
    using boxes by (auto simp: labelled_boxes_def res_simps carrier_label_def is_c2pa_uuid_def split: if_splits)
  with old boxes placement_at_weaker [of boxes] show ?thesis
    by (auto simp: bmff_placement_error_v2_5_def first_complaint_None)
qed

end
