(* ===== verification/Spec2Isabelle.thy ===== *)
theory Spec2Isabelle
  imports
    Cbor_Properties Jumbf_Properties Formats_Properties Jpeg_Properties Engine_Profile
    Verdict_Properties Binding_Properties Merkle Revocation Cache_Properties
    Segment_Claims Budget_Properties Update_Properties Assertion_Bindings
    Reference_Properties Lineage_Properties Cose_Properties Graph_Properties
    Bmff_Agreement Bmff_Carriers
begin

text \<open>
  \<^bold>\<open>The encypher-c2pa verifier.\<close> The program reads a media asset, extracts the C2PA manifest store its container
  carries, parses the store (JUMBF boxes around CBOR payloads), checks the content binding and the credentials of
  the active manifest, and reports status codes, an overall state and the specification revision the manifest
  validates under. All sources are under \<^verbatim>\<open>src/crates/encypher-c2pa/src\<close>; paths below are relative to it.

  \<^bold>\<open>How the parts interact.\<close> A format module locates the store (\<open>extract\<close>), the byte ranges of its carrier
  (\<open>exclusions\<close>) and the named boxes of the asset (\<open>box_spans\<close>). The store goes through \<^verbatim>\<open>c2pa-core/jumbf.rs\<close>: expansion
  of compressed manifests, then \<open>parse_manifest_store\<close>. Claims and assertions are decoded by \<^verbatim>\<open>c2pa-cbor\<close>. The binding
  checks of \<^verbatim>\<open>c2pa-validate/lib.rs\<close> compare digests of the asset with the assertions and push status codes into
  \<open>ValidationResults\<close>; revocation evidence, the conformance program and the version ladder add theirs; \<open>finish\<close>
  computes the state and the report. A service may put \<open>VerifyCache\<close> in front of the whole.

  \<^bold>\<open>Theories.\<close>

  \<^item> \<open>C2pa_Prelude\<close>: bytes, bounds-checked reads, \<open>checked_add\<close> at 64 bits, results as sums, \<open>try_fold\<close> for loops with
    early return, and the shared lemma collections. \<open>Utf8\<close>: validity and lossy decoding. \<open>Spans\<close>: the locales
    \<open>walker\<close> and \<open>scanner\<close> for loops that read one record after the other, with the bounds and tiling facts every
    container and the JUMBF parser obtain by interpretation. \<open>Ordered_Map\<close>: the locale of keyed maps, interpreted
    by the \<open>BTreeMap\<close> the canonical sort uses.
  \<^item> \<open>Cbor\<close>, \<open>Cbor_Encoding\<close>, \<open>Cbor_Decoding\<close>, \<open>Cbor_Roundtrip\<close>, \<open>Cbor_Canonical\<close>, \<open>Cbor_Properties\<close>
    (\<^verbatim>\<open>c2pa-cbor\<close>): values, the three encoding profiles, the recursive decoder with its depth limit and node budget.
    Decoding inverts encoding, also before trailing bytes; accepted values stay within the limits; the canonical
    form does not depend on entry order (C23, C25, C26).
  \<^item> \<open>Jumbf\<close>, \<open>Jumbf_Boxes\<close>, \<open>Jumbf_Superbox\<close>, \<open>Jumbf_Manifest\<close>, \<open>Jumbf_Build\<close>, \<open>Jumbf_Merge\<close>, \<open>Jumbf_Expand\<close>,
    \<open>Jumbf_Properties\<close> (\<^verbatim>\<open>c2pa-core/jumbf.rs\<close>): boxes, superboxes, manifests, merging of update stores and expansion of
    compressed manifests. Round trips, the well-formedness invariant of accepted stores, tiling and size
    bounds for every Brotli decoder (C9, C24, C31, C32, C33).
  \<^item> \<open>Format_Common\<close>, \<open>Format_Png\<close>, \<open>Format_Riff\<close>, \<open>Format_Gif\<close>, \<open>Formats_Properties\<close> (\<^verbatim>\<open>c2pa-formats\<close>): the
    chunked containers. Extraction inverts embedding, exclusions are ordered and disjoint, segmentations cover the
    file.
  \<^item> \<open>Format_Jpeg\<close>, \<open>Jpeg_Embed\<close>, \<open>Jpeg_Families\<close>, \<open>Jpeg_Properties\<close> (\<^verbatim>\<open>c2pa-formats/jpeg.rs\<close>): marker segments, \<open>APP11\<close>
    packets grouped into families, both segmentations. The families are the longest runs of packets on the wire that carry a store,
    and they are exactly what is excluded; a store cut into segments is put together again, and build, embed, extract and parse
    compose to the identity on manifests (C34, C35).
  \<^item> \<open>Format_Bmff\<close>, \<open>Bmff_Tree\<close>, \<open>Bmff_Hash\<close>, \<open>Bmff_Ranges\<close>, \<open>Bmff_Properties\<close>, \<open>Bmff_Agreement\<close>,
    \<open>Bmff_Carriers\<close> (\<^verbatim>\<open>c2pa-formats/bmff.rs\<close> and the box walk of \<^verbatim>\<open>util.rs\<close>): the C2PA boxes with their placement and
    extraction, Merkle boxes and brands, the box tree with its exclusion paths, and the three forms of the BMFF hash. The
    excluded ranges are the offsets the exclusion maps select, the digest is that of the bytes outside them with the box
    markers, the simple and the streamed hash agree with it, and extracted stores lie inside the exclusions (C5, C6, C28, C29, C30).
  \<^item> \<open>Engine_Profile\<close> (\<^verbatim>\<open>c2pa-core/spec.rs\<close>): specification revisions, profiles and the format registry.
  \<^item> \<open>Report_Json\<close>, \<open>Network_Needs\<close>, \<open>Validation_Results\<close>, \<open>Versions\<close>, \<open>Verify_Output\<close>, \<open>Verdict_Properties\<close>
    (\<^verbatim>\<open>network_needs.rs\<close>, \<^verbatim>\<open>program.rs\<close>, \<^verbatim>\<open>versions.rs\<close>, \<^verbatim>\<open>observe.rs\<close> and the state and report functions of \<^verbatim>\<open>lib.rs\<close> in
    \<^verbatim>\<open>c2pa-validate\<close>): status codes, postures, the two-axis verdict, the version ladder and the outputs. Postures are
    ordered, the state is related to the axes of the verdict and its caveats, the ladder selects what its contract says (C19, C20, C39, C40).
  \<^item> \<open>Content_Hash\<close>, \<open>Exclusions\<close>, \<open>Box_Hash\<close>, \<open>Binding_Properties\<close> (\<^verbatim>\<open>exclusions.rs\<close> and the hash functions of
    \<^verbatim>\<open>lib.rs\<close>): the data hash and the general box hash. Slice indexing can panic in the model, and accepted exclusions
    are shown not to; a match binds the bytes of the asset, for boxes that tile it (C4, C7, C10).
  \<^item> \<open>Merkle\<close> (\<open>merkle_climb\<close> of \<^verbatim>\<open>lib.rs\<close>): the climb refines a tree of rows; forging a leaf yields a collision
    (C18).
  \<^item> \<open>Revocation\<close> (\<^verbatim>\<open>revocation.rs\<close>, \<^verbatim>\<open>c2pa-trust/ocsp.rs\<close>): OCSP evidence as a fold over the library's locale of idempotent
    commuting functions; the resolved status is a function of the set of responses (C37).
  \<^item> \<open>Checkpoint_Lines\<close>, \<open>Checkpoint_Properties\<close>, \<open>Graph_Budget\<close>, \<open>Budget_Properties\<close>, \<open>Resource_Cache\<close>, \<open>Segment_Hash\<close>,
    \<open>Segment_Properties\<close>, \<open>Segment_Claims\<close> (\<^verbatim>\<open>c2pa-formats/append_text.rs\<close>, \<^verbatim>\<open>ingredient_graph.rs\<close>, \<^verbatim>\<open>refs.rs\<close>, \<^verbatim>\<open>segment_hash.rs\<close>): sentinel lines of
    append-only text, the budget and the resource memo one pass shares, and the walk from the active checkpoint to the
    first. The chain covers the file up to the active sentinel, what is appended inline is extracted again, and a charge is accepted
    exactly when the ledger of the accepted ones leaves room for it (C8, C22, C36).
  \<^item> \<open>Assertion_Labels\<close>, \<open>Redaction\<close>, \<open>Claim_Refs\<close>, \<open>Assertion_Bindings\<close> (\<^verbatim>\<open>redaction.rs\<close> and \<open>ClaimAssertionRefs\<close> and
    \<open>verify_assertion_bindings\<close> of \<^verbatim>\<open>lib.rs\<close>): how a claim names its assertions, which of them other claims redact, and the
    digests that bind the rest (C1).
  \<^item> \<open>Reference_Walk\<close>, \<open>Reference_Properties\<close> (\<^verbatim>\<open>refs.rs\<close>, the redaction targets of \<^verbatim>\<open>spec25.rs\<close>): the reference fields the
    schema declares inside assertions, their bounded location, and the validation of internal and external references.
    After a complete walk without failures every reference the schema reaches is redacted within the 2.5 exemption, bound by its
    digest, or noted as not retrieved; discovery and validation examine the same references (C2, C27).
  \<^item> \<open>Ingredient_Links\<close>, \<open>Lineage\<close>, \<open>Lineage_Properties\<close> (\<open>verify_ingredient_references\<close> of \<^verbatim>\<open>lib.rs\<close>, \<open>edges\<close> and
    \<open>redaction_index\<close> of \<^verbatim>\<open>ingredient_graph.rs\<close>): the two methods that authenticate an ingredient link, the edges of a
    claim, and the bounded breadth-first discovery of redactions. The discovered index is that of the claims the
    edges reach, by a frontier invariant, unless a ceiling is reported (C12).
  \<^item> \<open>Cose\<close>, \<open>Cose_Headers\<close>, \<open>Cose_Properties\<close> (\<^verbatim>\<open>alg.rs\<close>, \<^verbatim>\<open>cose.rs\<close>, \<^verbatim>\<open>timestamp.rs\<close>, \<^verbatim>\<open>session.rs\<close> of \<^verbatim>\<open>c2pa-crypto\<close>): the structure
    of COSE signatures, their certificate chain, time-stamp headers with a DER reader, and session keys; the primitives
    are parameters. The signed bytes determine header and claim and are never a time-stamp input, because the CBOR
    decoder inverts the encoder; chain and header are unambiguous and bounded (C3, C14, C16).
  \<^item> \<open>Ingredient_Graph\<close>, \<open>Graph_Properties\<close> (\<^verbatim>\<open>ingredient_graph.rs\<close>): the walk that validates every reached manifest once.
    Its deltas are the symmetric difference of the recorded and the observed verdict, and an invariant of the walk
    shows that no ingredient's defect reaches the active verdict (C13, C15).
  \<^item> \<open>Update_Manifest\<close>, \<open>Update_Properties\<close> (\<^verbatim>\<open>update_manifest.rs\<close>): the shape of update manifests, the chain to the standard
    manifest, and the exclusions of a data hash after updates were appended (C17, C21).
  \<^item> \<open>Verify_Cache\<close>, \<open>Cache_Properties\<close> (\<^verbatim>\<open>cache.rs\<close>): the LRU cache refines a list specification for every sequence
    of operations; the locale \<open>result_store\<close> states what a memoising client needs, and a step relation over request
    histories shows that a hit is an earlier result (C11, C38).

  \<^bold>\<open>Conventions.\<close> Structs are records, enums datatypes with the source's constructors, \<open>usize\<close> counts are \<open>nat\<close> with
  the 64-bit limit written out where the code adds with a check, bytes are \<open>8 word\<close>, CBOR integers are \<open>int\<close>,
  strings of reports are \<open>string\<close> (one character per byte). A \<open>Result\<close> is a sum with the error on the left. A loop
  is a recursive function with a measure or a fold with early return; no fuel is used except for the depth argument
  the CBOR decoder itself counts down, so every modelled function is total.

  \<^bold>\<open>Parameters.\<close> SHA-2 (\<open>digest\<close>), the signature primitives, the Brotli decoder, the texts of third-party error types, the JSON printer, the clock
  and, in the cache, the verification itself are arguments. Where a property needs it, the digest is assumed to
  have its documented length; collisions are never assumed away but appear in the conclusions.

  \<^bold>\<open>What modelling showed.\<close> Merging a store whose last child runs to the end absorbs the appended manifests; the tail
  of a PNG without \<open>IEND\<close>, fill bytes at the end of a JPEG without \<open>EOI\<close> and chunks of the literal type \<open>C2PA\<close> escape the box hash; strict runs clear the validated
  revision for external-data failures; outside the generous posture the integrity axis depends on the credential's validity and
  revocation, which its documentation rules out; a format newer than the ladder's ceiling fails every rung; hyphens inside
  prereleases are rejected; the streamed BMFF hash does not
  recognise a C2PA box with a 64-bit size, which the in-memory hash excludes; the cache key leaves out options that decide the result and confuses an absent
  trust list with an empty one; bytes after a short sentinel line of an external active checkpoint are bound by no digest;
  the discovery of external references does not count what the walk of a legacy claim charges when its lineage redacts; the
  codes the ingredient walk raises for the active manifest are not those its documentation names.

  \<^bold>\<open>Not modelled.\<close> The writers of \<^verbatim>\<open>bmff.rs\<close>, which are compiled for tests only, and failing reads of its
  streamed hash. The other containers (TIFF, Ogg, FLAC, ID3, JPEG XL, MIDI, text and XML carriers, PDF,
  ZIP, WARC, Parquet, ONNX, Safetensors, fonts), the MIME dispatch of \<^verbatim>\<open>c2pa-formats/lib.rs\<close>, X.509, OCSP and CMS parsing,
  the CAWG identity checks, live video and streaming verification, the order of the assertion
  validators of \<^verbatim>\<open>c2pa-validate/lib.rs\<close>,  \<open>build_report\<close> and the crJSON rendering, network
  access, telemetry, the command line and the language bindings.
\<close>

section \<open>Box hashes of the modelled containers\<close>

text \<open>
  The segmentations of RIFF and GIF tile the file, so a box-hash match on such a file binds it: every entry that is
  neither the manifest box nor declared excluded carries the digest of the bytes its exclusions leave.
\<close>

lemma gif_boxes_hash_binds:
  assumes "gif_box_spans data = Inr spans" and "length data \<le> usize_max"
    and "verify_boxes_hash_with_spans digest entries default_alg Gif data spans label results_default = Inr r"
    and "has_success r ASSERTION_BOXES_HASH_MATCH" and "(e, run) \<in> set (entry_runs spans 0 entries)"
  shows "entry_excluded e \<or> entry_names e = [ascii ''C2PA''] \<or> entry_binds digest default_alg data e run"
proof -
  have "seg_tiles 0 spans (length data)" using gif_box_spans_ok [OF assms(1)] by simp
  with boxes_hash_match_entries [OF assms(3) _ assms(4) _ _ assms(2,5)] show ?thesis
    by (simp add: has_success_def results_default_def)
qed

lemma riff_boxes_hash_binds:
  assumes "riff_box_spans data = Inr spans" and "length data \<le> usize_max"
    and "verify_boxes_hash_with_spans digest entries default_alg Riff data spans label results_default = Inr r"
    and "has_success r ASSERTION_BOXES_HASH_MATCH" and "(e, run) \<in> set (entry_runs spans 0 entries)"
  shows "entry_excluded e \<or> entry_names e = [ascii ''C2PA''] \<or> entry_binds digest default_alg data e run"
proof -
  have "seg_tiles 0 spans (length data)" using riff_box_spans_ok [OF assms(1)] by simp
  with boxes_hash_match_entries [OF assms(3) _ assms(4) _ _ assms(2,5)] show ?thesis
    by (simp add: has_success_def results_default_def)
qed

text \<open>The same for a JPEG whose segmentation reaches the end marker.\<close>

lemma jpeg_boxes_hash_binds:
  assumes "jpeg_box_spans data = Inr spans" and "bs_name (last spans) = ascii ''EOI''" and "length data \<le> usize_max"
    and "verify_boxes_hash_with_spans digest entries default_alg Jpeg data spans label results_default = Inr r"
    and "has_success r ASSERTION_BOXES_HASH_MATCH" and "(e, run) \<in> set (entry_runs spans 0 entries)"
  shows "entry_excluded e \<or> entry_names e = [ascii ''C2PA''] \<or> entry_binds digest default_alg data e run"
proof -
  have "seg_tiles 0 spans (length data)" using jpeg_box_spans_ok [OF assms(1)] assms(2) by blast
  with boxes_hash_match_entries [OF assms(4) _ assms(5) _ _ assms(3,6)] show ?thesis
    by (simp add: has_success_def results_default_def)
qed

end
